(* ===== verification/Go_Prelude.thy ===== *)
theory Go_Prelude
  imports Complex_Main "HOL-Library.Log_Nat" "HOL-Library.Stream"
begin

text \<open>
  What the Go code uses of its language and standard library: 64-bit integers, the
  functions of package strings, decimal conversion (strconv), binary64 arithmetic, and
  error values. A Go string is a sequence of bytes, here a \<^typ>\<open>char list\<close>; case mapping
  and white space are those of the ASCII range.
\<close>

named_theorems go_simps \<open>defining equations of the Go library functions\<close>

section \<open>64-bit integers\<close>

text \<open>Go's int and int64 (64 bits, two's complement): the result of an arithmetic
  operation is the value in range that is congruent to the exact one.\<close>

definition int64_of :: "int \<Rightarrow> int" where
  "int64_of x = (x + 2 ^ 63) mod 2 ^ 64 - 2 ^ 63"

definition is_int64 :: "int \<Rightarrow> bool" where
  "is_int64 x \<longleftrightarrow> - (2 ^ 63) \<le> x \<and> x < 2 ^ 63"

lemma int64_of_id [simp]: "is_int64 x \<Longrightarrow> int64_of x = x"
  by (simp add: int64_of_def is_int64_def)

lemma is_int64_of [simp, intro]: "is_int64 (int64_of x)"
proof -
  have "0 \<le> (x + 2 ^ 63) mod 2 ^ 64" "(x + 2 ^ 63) mod 2 ^ 64 < 2 ^ 64"
    by simp_all
  then show ?thesis
    by (simp add: int64_of_def is_int64_def)
qed

section \<open>Package strings\<close>

fun Split :: "char \<Rightarrow> string \<Rightarrow> string list" where
  "Split c [] = [[]]"
| "Split c (x # xs) =
     (if x = c then [] # Split c xs
      else case Split c xs of y # ys \<Rightarrow> (x # y) # ys | [] \<Rightarrow> [[x]])"

text \<open>At most \<open>n\<close> pieces; the last one is the unsplit remainder.\<close>

fun SplitN :: "char \<Rightarrow> nat \<Rightarrow> string \<Rightarrow> string list" where
  "SplitN c 0 s = []"
| "SplitN c (Suc 0) s = [s]"
| "SplitN c (Suc (Suc n)) [] = [[]]"
| "SplitN c (Suc (Suc n)) (x # xs) =
     (if x = c then [] # SplitN c (Suc n) xs
      else case SplitN c (Suc (Suc n)) xs of y # ys \<Rightarrow> (x # y) # ys | [] \<Rightarrow> [[x]])"

lemma Split_nonempty [simp]: "Split c s \<noteq> []"
  by (cases s) (auto split: list.splits)

lemma Split_no_sep [simp]: "c \<notin> set s \<Longrightarrow> Split c s = [s]"
  by (induction s) auto

lemma Split_append [simp]: "c \<notin> set a \<Longrightarrow> Split c (a @ c # b) = a # Split c b"
  by (induction a) auto

lemma SplitN_append [simp]:
  "c \<notin> set a \<Longrightarrow> SplitN c (Suc (Suc n)) (a @ c # b) = a # SplitN c (Suc n) b"
  by (induction a) auto

lemma Split_pieces: "p \<in> set (Split c s) \<Longrightarrow> c \<notin> set p"
  by (induction s arbitrary: p) (fastforce split: list.splits if_splits)+

definition is_space :: "char \<Rightarrow> bool" where
  "is_space c \<longleftrightarrow> of_char c \<in> {9, 10, 11, 12, 13, 32 :: nat}"

definition TrimSpace :: "string \<Rightarrow> string" where
  "TrimSpace s = rev (dropWhile is_space (rev (dropWhile is_space s)))"

definition lower_char :: "char \<Rightarrow> char" where
  "lower_char c = (let n = (of_char c :: nat) in if 65 \<le> n \<and> n \<le> 90 then char_of (n + 32) else c)"

definition ToLower :: "string \<Rightarrow> string" where
  "ToLower s = map lower_char s"

text \<open>\<open>strings.NewReplacer\<close> with one pair of single-byte strings.\<close>

definition ReplaceChar :: "char \<Rightarrow> char \<Rightarrow> string \<Rightarrow> string" where
  "ReplaceChar a b s = map (\<lambda>c. if c = a then b else c) s"

definition CutPrefix :: "string \<Rightarrow> string \<Rightarrow> string option" where
  "CutPrefix p s = (if take (length p) s = p then Some (drop (length p) s) else None)"

definition TrimSuffix :: "string \<Rightarrow> string \<Rightarrow> string" where
  "TrimSuffix x s =
     (if length x \<le> length s \<and> drop (length s - length x) s = x
      then take (length s - length x) s else s)"

lemma CutPrefix_append [simp]: "CutPrefix p (p @ s) = Some s"
  by (simp add: CutPrefix_def)

lemma CutPrefix_Some: "CutPrefix p s = Some t \<Longrightarrow> s = p @ t"
  unfolding CutPrefix_def by (metis append_take_drop_id option.distinct(1) option.inject)

lemmas [go_simps] = is_space_def TrimSpace_def lower_char_def ToLower_def ReplaceChar_def
  CutPrefix_def TrimSuffix_def

section \<open>Package strconv: decimal\<close>

definition is_digit :: "char \<Rightarrow> bool" where
  "is_digit c \<longleftrightarrow> (let n = (of_char c :: nat) in 48 \<le> n \<and> n \<le> 57)"

definition digit_val :: "char \<Rightarrow> int" where
  "digit_val c = int (of_char c) - 48"

definition digits_val :: "string \<Rightarrow> int" where
  "digits_val s = foldl (\<lambda>acc c. acc * 10 + digit_val c) 0 s"

text \<open>\<open>strconv.ParseInt(s, 10, 64)\<close>, which \<open>strconv.Atoi\<close> agrees with on 64-bit
  platforms: an optional sign, at least one digit and nothing else, in range.\<close>

definition ParseInt :: "string \<Rightarrow> int option" where
  "ParseInt s =
     (let (neg, ds) = (case s of
          [] \<Rightarrow> (False, [])
        | c # r \<Rightarrow> if c = CHR ''-'' then (True, r) else if c = CHR ''+'' then (False, r) else (False, s));
        v = (if neg then - digits_val ds else digits_val ds)
      in if ds \<noteq> [] \<and> list_all is_digit ds \<and> is_int64 v then Some v else None)"

lemma ParseInt_in_range: "ParseInt s = Some n \<Longrightarrow> is_int64 n"
  by (auto simp: ParseInt_def Let_def split: if_splits prod.splits)

fun nat_digits :: "nat \<Rightarrow> string" where
  "nat_digits n = (if n < 10 then [char_of (48 + n)] else nat_digits (n div 10) @ [char_of (48 + n mod 10)])"

declare nat_digits.simps [simp del]

definition Itoa :: "int \<Rightarrow> string" where
  "Itoa i = (if i < 0 then CHR ''-'' # nat_digits (nat (- i)) else nat_digits (nat i))"

lemma is_digit_nat_digits: "list_all is_digit (nat_digits n)"
proof (induction n rule: nat_digits.induct)
  case (1 n)
  have "n mod 10 < 10" by simp
  then have d: "is_digit (char_of (48 + n mod 10))"
    by (simp add: is_digit_def)
  show ?case
  proof (cases "n < 10")
    case True
    then show ?thesis by (subst nat_digits.simps) (simp add: is_digit_def)
  next
    case False
    with 1 d show ?thesis by (subst nat_digits.simps) simp
  qed
qed

lemma digits_val_snoc: "digits_val (s @ [c]) = digits_val s * 10 + digit_val c"
  by (simp add: digits_val_def)

lemma digits_val_nat_digits: "digits_val (nat_digits n) = int n"
proof (induction n rule: nat_digits.induct)
  case (1 n)
  have m: "n mod 10 < 10" by simp
  then have d: "digit_val (char_of (48 + n mod 10)) = int (n mod 10)"
    by (simp add: digit_val_def)
  show ?case
  proof (cases "n < 10")
    case True
    then show ?thesis
      by (subst nat_digits.simps) (simp add: digits_val_def digit_val_def)
  next
    case False
    with 1 have "digits_val (nat_digits (n div 10)) = int (n div 10)" by simp
    with False d have "digits_val (nat_digits n) = int (n div 10) * 10 + int (n mod 10)"
      by (subst nat_digits.simps) (simp add: digits_val_snoc)
    then show ?thesis by presburger
  qed
qed

lemma nat_digits_nonempty [simp]: "nat_digits n \<noteq> []"
  by (subst nat_digits.simps) simp

lemma hd_nat_digits: "is_digit (hd (nat_digits n))"
  using is_digit_nat_digits [of n] by (cases "nat_digits n") simp_all

lemma ParseInt_Itoa: "is_int64 i \<Longrightarrow> ParseInt (Itoa i) = Some i"
proof -
  assume r: "is_int64 i"
  obtain c r' where cr: "nat_digits (nat i) = c # r'"
    by (cases "nat_digits (nat i)") auto
  with hd_nat_digits [of "nat i"] have c: "is_digit c" by simp
  have nsign: "c \<noteq> CHR ''-''" "c \<noteq> CHR ''+''"
    using c by (auto simp: is_digit_def)
  show ?thesis
  proof (cases "i < 0")
    case True
    with r show ?thesis
      by (simp add: Itoa_def ParseInt_def is_digit_nat_digits digits_val_nat_digits)
  next
    case False
    with r have "digits_val (c # r') = i"
      using digits_val_nat_digits [of "nat i"] cr by simp
    with r False nsign is_digit_nat_digits [of "nat i"] cr show ?thesis
      by (simp add: Itoa_def ParseInt_def)
  qed
qed

lemma ParseInt_Itoa_Some: "ParseInt (Itoa i) = Some n \<Longrightarrow> n = i"
proof -
  assume p: "ParseInt (Itoa i) = Some n"
  obtain c r where cr: "nat_digits (nat i) = c # r" by (cases "nat_digits (nat i)") auto
  with hd_nat_digits [of "nat i"] have "c \<noteq> CHR ''-''" "c \<noteq> CHR ''+''" by (auto simp: is_digit_def)
  then show ?thesis
    using p cr digits_val_nat_digits [of "nat i"]
    by (auto simp: Itoa_def ParseInt_def digits_val_nat_digits split: if_splits)
qed

section \<open>Package time\<close>

text \<open>An instant is its distance from the zero time (January 1, year 1, UTC) in nanoseconds.\<close>

type_synonym time = int

definition IsZero :: "time \<Rightarrow> bool" where
  "IsZero t \<longleftrightarrow> t = 0"

text \<open>\<open>t.Sub(u)\<close>, which saturates at the bounds of a 64-bit duration.\<close>

definition time_Sub :: "time \<Rightarrow> time \<Rightarrow> int" where
  "time_Sub t u = max (- (2 ^ 63)) (min (2 ^ 63 - 1) (t - u))"

text \<open>Year, month and day of a day number (day 0 is January 1, year 1), proleptic Gregorian.\<close>

definition civil_date :: "int \<Rightarrow> int \<times> int \<times> int" where
  "civil_date days =
     (let z = days + 306; era = z div 146097; doe = z mod 146097;
          yoe = (doe - doe div 1460 + doe div 36524 - doe div 146096) div 365;
          doy = doe - (365 * yoe + yoe div 4 - yoe div 100);
          mp = (5 * doy + 2) div 153;
          d = doy - (153 * mp + 2) div 5 + 1;
          m = (if mp < 10 then mp + 3 else mp - 9);
          y = yoe + era * 400 + (if m \<le> 2 then 1 else 0)
      in (y, m, d))"

definition pad :: "nat \<Rightarrow> int \<Rightarrow> string" where
  "pad w n = (let s = nat_digits (nat n) in replicate (w - length s) (CHR ''0'') @ s)"

definition FormatRFC3339 :: "time \<Rightarrow> string" where
  "FormatRFC3339 t =
     (let secs = t div 1000000000; sod = secs mod 86400; (y, m, d) = civil_date (secs div 86400)
      in pad 4 y @ ''-'' @ pad 2 m @ ''-'' @ pad 2 d @ ''T'' @ pad 2 (sod div 3600) @ '':'' @
         pad 2 (sod div 60 mod 60) @ '':'' @ pad 2 (sod mod 60) @ ''Z'')"

lemma time_Sub_exact: "is_int64 (t - u) \<Longrightarrow> time_Sub t u = t - u"
  by (simp add: time_Sub_def is_int64_def)

lemma time_Sub_mono: "t \<le> t' \<Longrightarrow> time_Sub t u \<le> time_Sub t' u"
  by (simp add: time_Sub_def max_def min_def)

end
