(* ===== verification/Go_Float.thy ===== *)
theory Go_Float
  imports Go_Prelude
begin

text \<open>
  Go's float64 as the rational number it denotes. Every operation computes the exact
  result and rounds it to a 53-bit significand, ties to even, as IEEE 754 prescribes for
  results that neither overflow nor underflow; the sizes this code computes (products of
  two 64-bit integers, and sums of such values divided by 1048576) stay in that range.
  The locale \<open>rounding\<close> holds the three laws the clients use; the interpretation at the end
  discharges them for \<open>fl\<close>.
\<close>

section \<open>Rounding to an integer, ties to even\<close>

definition round_even :: "rat \<Rightarrow> int" where
  "round_even y =
     (let f = \<lfloor>y\<rfloor>; r = y - of_int f
      in if r < 1/2 then f else if r > 1/2 then f + 1 else if even f then f else f + 1)"

lemma round_even_of_int [simp]: "round_even (of_int n) = n"
  by (simp add: round_even_def)

lemma round_even_cases: "round_even y = \<lfloor>y\<rfloor> \<or> round_even y = \<lfloor>y\<rfloor> + 1"
  by (auto simp: round_even_def Let_def)

lemma round_even_lower: "y - 1 / 2 \<le> of_int (round_even y)"
  unfolding round_even_def Let_def by (auto; linarith)

lemma round_even_mono: "x \<le> y \<Longrightarrow> round_even x \<le> round_even y"
proof -
  assume le: "x \<le> y"
  then have fl: "\<lfloor>x\<rfloor> \<le> \<lfloor>y\<rfloor>" by (rule floor_mono)
  show ?thesis
  proof (cases "\<lfloor>x\<rfloor> = \<lfloor>y\<rfloor>")
    case True
    with le show ?thesis by (auto simp: round_even_def Let_def)
  next
    case False
    with fl have "\<lfloor>x\<rfloor> + 1 \<le> \<lfloor>y\<rfloor>" by linarith
    with round_even_cases [of x] round_even_cases [of y] show ?thesis by linarith
  qed
qed

lemma round_even_ge: "of_int n \<le> y \<Longrightarrow> n \<le> round_even y"
  using round_even_mono [of "of_int n" y] by simp

lemma round_even_le: "y \<le> of_int n \<Longrightarrow> round_even y \<le> n"
  using round_even_mono [of y "of_int n"] by simp

section \<open>The exponent\<close>

text \<open>\<open>pow2 k\<close> is 2 to the power \<open>k\<close>, for negative \<open>k\<close> too.\<close>

definition pow2 :: "int \<Rightarrow> rat" where
  "pow2 k = (if 0 \<le> k then 2 ^ nat k else 1 / 2 ^ nat (- k))"

lemma pow2_powi: "pow2 k = 2 powi k"
  by (simp add: pow2_def power_int_def field_simps)

lemma pow2_pos [simp]: "0 < pow2 k"
  by (simp add: pow2_def)

lemma pow2_neq0 [simp]: "pow2 k \<noteq> 0"
  using pow2_pos [of k] by linarith

lemma pow2_add: "pow2 (a + b) = pow2 a * pow2 b"
  by (simp add: pow2_powi power_int_add)

lemma pow2_mono: "a \<le> b \<Longrightarrow> pow2 a \<le> pow2 b"
  by (simp add: pow2_powi power_int_increasing)

lemma pow2_less: "pow2 a < pow2 b \<longleftrightarrow> a < b"
  by (metis linorder_not_le pow2_mono pow2_powi power_int_strict_increasing one_less_numeral_iff
      semiring_norm(76))

text \<open>The exponent of a positive rational: \<open>2 ^ k \<le> x < 2 ^ (k + 1)\<close>.\<close>

definition ilog2 :: "rat \<Rightarrow> int" where
  "ilog2 x =
     (let (n, d) = quotient_of x; k = bitlen n - bitlen d
      in if x < pow2 k then k - 1 else k)"

lemma bitlen_pow2_bounds:
  assumes "0 < n"
  shows "pow2 (bitlen n - 1) \<le> of_int n \<and> of_int n < pow2 (bitlen n)"
proof -
  have b: "2 ^ nat (bitlen n - 1) \<le> n" "n < 2 ^ nat (bitlen n)"
    using bitlen_bounds [OF assms] by auto
  have p: "0 < bitlen n" using assms bitlen_nonneg [of n] bitlen_eq_zero_iff [of n] by linarith
  have "(of_int (2 ^ nat (bitlen n - 1)) :: rat) \<le> of_int n"
    using b(1) by (simp only: of_int_le_iff)
  moreover have "(of_int n :: rat) < of_int (2 ^ nat (bitlen n))"
    using b(2) by (simp only: of_int_less_iff)
  ultimately show ?thesis
    using p by (simp add: pow2_def)
qed

lemma ilog2_bounds:
  assumes "0 < x"
  shows "pow2 (ilog2 x) \<le> x" and "x < pow2 (ilog2 x + 1)"
proof -
  obtain n d where q: "quotient_of x = (n, d)" by fastforce
  then have d: "0 < d" and x: "x = of_int n / of_int d"
    using quotient_of_denom_pos quotient_of_div by blast+
  with assms have n: "0 < n" by (simp add: zero_less_divide_iff)
  let ?k = "bitlen n - bitlen d"
  note bn = bitlen_pow2_bounds [OF n] and bd = bitlen_pow2_bounds [OF d]
  have "pow2 (bitlen n - 1) / pow2 (bitlen d) \<le> x"
    unfolding x using bn bd n d by (intro frac_le) auto
  then have lo: "pow2 (?k - 1) \<le> x"
    using pow2_add [of "?k - 1" "bitlen d"] by (simp add: field_simps)
  have "x < pow2 (bitlen n) / pow2 (bitlen d - 1)"
    unfolding x using bn bd n d by (intro frac_less) auto
  then have hi: "x < pow2 (?k + 1)"
    using pow2_add [of "?k + 1" "bitlen d - 1"] by (simp add: field_simps)
  show "pow2 (ilog2 x) \<le> x" "x < pow2 (ilog2 x + 1)"
    using lo hi by (auto simp: ilog2_def q Let_def not_less)
qed

lemma ilog2_unique:
  assumes "pow2 k \<le> x" and "x < pow2 (k + 1)"
  shows "ilog2 x = k"
proof -
  have "0 < x" using assms(1) pow2_pos [of k] by linarith
  note b = ilog2_bounds [OF this]
  have "pow2 k < pow2 (ilog2 x + 1)" "pow2 (ilog2 x) < pow2 (k + 1)"
    using assms b by linarith+
  then show ?thesis by (simp add: pow2_less)
qed

section \<open>Rounding to 53 bits\<close>

definition ulp :: "rat \<Rightarrow> rat" where
  "ulp x = pow2 (ilog2 x - 52)"

definition fl_pos :: "rat \<Rightarrow> rat" where
  "fl_pos x = of_int (round_even (x / ulp x)) * ulp x"

definition fl :: "rat \<Rightarrow> rat" where
  "fl x = (if x = 0 then 0 else if 0 < x then fl_pos x else - fl_pos (- x))"

definition float64 :: "int \<Rightarrow> rat" where
  "float64 n = fl (of_int n)"

definition fadd :: "rat \<Rightarrow> rat \<Rightarrow> rat" where
  "fadd a b = fl (a + b)"

definition fmul :: "rat \<Rightarrow> rat \<Rightarrow> rat" where
  "fmul a b = fl (a * b)"

definition fdiv :: "rat \<Rightarrow> rat \<Rightarrow> rat" where
  "fdiv a b = fl (a / b)"

lemma ulp_pos [simp]: "0 < ulp x"
  by (simp add: ulp_def)

lemma scaled_bounds:
  assumes "0 < x"
  shows "of_int (2 ^ 52) \<le> x / ulp x" and "x / ulp x \<le> of_int (2 ^ 53)"
proof -
  let ?e = "ilog2 x"
  have "pow2 52 * ulp x = pow2 ?e" "pow2 53 * ulp x = pow2 (?e + 1)"
    by (simp_all add: ulp_def pow2_add [symmetric] add.commute)
  moreover have "pow2 52 = of_int (2 ^ 52)" "pow2 53 = of_int (2 ^ 53)"
    by (simp_all add: pow2_def)
  ultimately show "of_int (2 ^ 52) \<le> x / ulp x" "x / ulp x \<le> of_int (2 ^ 53)"
    using ilog2_bounds [OF assms] by (simp_all add: field_simps)
qed

lemma fl_pos_form:
  assumes "0 < x"
  obtains k where "fl_pos x = of_int k * ulp x" and "2 ^ 52 \<le> k" and "k \<le> 2 ^ 53"
proof
  show "fl_pos x = of_int (round_even (x / ulp x)) * ulp x"
    by (simp add: fl_pos_def)
  show "2 ^ 52 \<le> round_even (x / ulp x)" "round_even (x / ulp x) \<le> 2 ^ 53"
    using scaled_bounds [OF assms] by (auto intro: round_even_ge round_even_le)
qed

lemma fl_pos_binade:
  assumes "0 < x"
  shows "pow2 (ilog2 x) \<le> fl_pos x" and "fl_pos x \<le> pow2 (ilog2 x + 1)"
proof -
  obtain k where k: "fl_pos x = of_int k * ulp x" "2 ^ 52 \<le> k" "k \<le> 2 ^ 53"
    using fl_pos_form [OF assms] .
  have p: "pow2 52 * ulp x = pow2 (ilog2 x)" "pow2 53 * ulp x = pow2 (ilog2 x + 1)"
    by (simp_all add: ulp_def pow2_add [symmetric] add.commute)
  have "(of_int (2 ^ 52) :: rat) \<le> of_int k" "(of_int k :: rat) \<le> of_int (2 ^ 53)"
    using k(2,3) by (simp_all only: of_int_le_iff)
  then have "pow2 52 \<le> of_int k" "of_int k \<le> pow2 53"
    by (simp_all add: pow2_def)
  then show "pow2 (ilog2 x) \<le> fl_pos x" "fl_pos x \<le> pow2 (ilog2 x + 1)"
    unfolding k(1) p [symmetric] by (intro mult_right_mono; simp add: less_imp_le)+
qed

lemma fl_pos_positive [simp]: "0 < x \<Longrightarrow> 0 < fl_pos x"
  using fl_pos_binade(1) [of x] pow2_pos [of "ilog2 x"] by linarith

lemma fl_pos_mono:
  assumes "0 < x" and "x \<le> y"
  shows "fl_pos x \<le> fl_pos y"
proof -
  have y: "0 < y" using assms by linarith
  note bx = ilog2_bounds [OF assms(1)] and byy = ilog2_bounds [OF y]
  have "pow2 (ilog2 x) < pow2 (ilog2 y + 1)" using bx byy assms(2) by linarith
  then have e: "ilog2 x \<le> ilog2 y" by (simp add: pow2_less)
  show ?thesis
  proof (cases "ilog2 x = ilog2 y")
    case True
    then have u: "ulp x = ulp y" by (simp add: ulp_def)
    have "round_even (x / ulp y) \<le> round_even (y / ulp y)"
      using assms(2) by (intro round_even_mono divide_right_mono) (auto intro: less_imp_le)
    then show ?thesis unfolding fl_pos_def u
      by (intro mult_right_mono) (auto intro: less_imp_le)
  next
    case False
    with e have "ilog2 x + 1 \<le> ilog2 y" by linarith
    then show ?thesis
      using fl_pos_binade(2) [OF assms(1)] fl_pos_binade(1) [OF y] pow2_mono by (meson order_trans)
  qed
qed

lemma fl_pos_fix:
  assumes "x = of_int k * pow2 e" and "2 ^ 52 \<le> k" and "k < 2 ^ 53"
  shows "fl_pos x = x"
proof -
  have "(of_int (2 ^ 52) :: rat) \<le> of_int k" "(of_int k :: rat) < of_int (2 ^ 53)"
    using assms(2,3) by (simp_all only: of_int_le_iff of_int_less_iff)
  then have "pow2 52 \<le> of_int k" "of_int k < pow2 53"
    by (simp_all add: pow2_def)
  then have "pow2 52 * pow2 e \<le> x" "x < pow2 53 * pow2 e"
    unfolding assms(1) by (auto intro: mult_right_mono less_imp_le mult_strict_right_mono)
  then have "ilog2 x = 52 + e"
    by (intro ilog2_unique) (simp_all add: pow2_add [symmetric] add.commute add.left_commute)
  then show ?thesis
    by (simp add: fl_pos_def ulp_def assms(1))
qed

lemma fl_pos_idem:
  assumes "0 < x"
  shows "fl_pos (fl_pos x) = fl_pos x"
proof -
  obtain k where k: "fl_pos x = of_int k * ulp x" "2 ^ 52 \<le> k" "k \<le> 2 ^ 53"
    using fl_pos_form [OF assms] .
  show ?thesis
  proof (cases "k = 2 ^ 53")
    case True
    have "fl_pos x = of_int (2 ^ 52) * pow2 (ilog2 x - 51)"
      using pow2_add [of 1 "ilog2 x - 52"] unfolding k(1) True ulp_def by (simp add: pow2_def)
    then show ?thesis by (intro fl_pos_fix) auto
  next
    case False
    with k show ?thesis by (intro fl_pos_fix [where k = k]) (auto simp: ulp_def)
  qed
qed

lemma fl_0 [simp]: "fl 0 = 0"
  by (simp add: fl_def)

text \<open>The error of one rounding, and of a sum of non-negative numbers in any order.\<close>

definition eps :: rat where
  "eps = 1 / 2 ^ 53"

lemma fl_lower:
  assumes "0 \<le> x"
  shows "x * (1 - eps) \<le> fl x"
proof (cases "x = 0")
  case False
  with assms have x: "0 < x" by simp
  let ?y = "x / ulp x"
  have "2 ^ 52 \<le> ?y" using scaled_bounds(1) [OF x] by simp
  then have "?y * (1 - eps) \<le> ?y - 1 / 2" by (simp add: eps_def field_simps)
  also have "\<dots> \<le> of_int (round_even ?y)" by (rule round_even_lower)
  finally have "?y * (1 - eps) * ulp x \<le> of_int (round_even ?y) * ulp x"
    by (rule mult_right_mono) (simp add: less_imp_le)
  moreover have "?y * (1 - eps) * ulp x = x * (1 - eps)" by (simp add: less_imp_neq [OF ulp_pos, symmetric])
  ultimately show ?thesis using x by (simp add: fl_def fl_pos_def)
qed simp

lemma sum_lower:
  assumes "0 \<le> a" and "\<forall>x \<in> set xs. 0 \<le> x"
  shows "(a + sum_list xs) * (1 - eps) ^ length xs \<le> foldl fadd a xs"
  using assms
proof (induction xs arbitrary: a)
  case (Cons x xs)
  let ?d = "1 - eps" and ?s = "sum_list xs"
  have d: "0 \<le> ?d" "?d \<le> 1" by (simp_all add: eps_def)
  have x: "0 \<le> a + x" and s: "0 \<le> ?s" using Cons.prems by (auto intro: sum_list_nonneg)
  have up: "(a + x) * ?d \<le> fadd a x" unfolding fadd_def by (rule fl_lower [OF x])
  then have f: "0 \<le> fadd a x" using mult_nonneg_nonneg [OF x d(1)] by linarith
  have "?s * ?d \<le> ?s" using mult_left_le [OF d(2) s] .
  with up have "(a + x + ?s) * ?d \<le> fadd a x + ?s" by (simp add: algebra_simps)
  then have "(a + x + ?s) * ?d * ?d ^ length xs \<le> (fadd a x + ?s) * ?d ^ length xs"
    by (rule mult_right_mono) (rule zero_le_power [OF d(1)])
  also have "\<dots> \<le> foldl fadd (fadd a x) xs" using Cons f by simp
  finally show ?case by (simp add: add.assoc mult.assoc)
qed simp

lemma fl_uminus: "fl (- x) = - fl x"
  by (simp add: fl_def)

lemma fl_sign: "0 < x \<Longrightarrow> 0 < fl x" "x < 0 \<Longrightarrow> fl x < 0"
  by (simp_all add: fl_def)

lemma fl_mono: "x \<le> y \<Longrightarrow> fl x \<le> fl y"
proof -
  assume le: "x \<le> y"
  consider "0 < x" | "y < 0" | "x \<le> 0" "0 \<le> y" by linarith
  then show ?thesis
  proof cases
    case 1
    with le show ?thesis by (simp add: fl_def fl_pos_mono)
  next
    case 2
    with le have "fl_pos (- y) \<le> fl_pos (- x)" by (intro fl_pos_mono) auto
    with 2 le show ?thesis by (simp add: fl_def)
  next
    case 3
    then have "fl x \<le> 0" "0 \<le> fl y"
      using fl_sign(2) [of x] fl_sign(1) [of y] by (cases "x = 0"; cases "y = 0"; simp)+
    then show ?thesis by linarith
  qed
qed

lemma fl_idem [simp]: "fl (fl x) = fl x"
proof -
  consider "x = 0" | "0 < x" | "x < 0" by linarith
  then show ?thesis
  proof cases
    case 2
    then have "0 < fl_pos x" by simp
    with 2 show ?thesis by (simp add: fl_def fl_pos_idem)
  next
    case 3
    then have "0 < fl_pos (- x)" by simp
    moreover from this have "\<not> fl_pos (- x) < 0" by linarith
    ultimately show ?thesis using 3 by (simp add: fl_def fl_pos_idem)
  qed simp
qed

text \<open>Integers of at most 53 bits are represented exactly.\<close>

lemma fl_pos_exact:
  assumes "0 < n" and "n < 2 ^ 53"
  shows "fl_pos (of_int n) = of_int n"
proof -
  let ?x = "of_int n :: rat" and ?e = "ilog2 (of_int n)"
  have x: "0 < ?x" using assms(1) by simp
  note b = ilog2_bounds [OF x]
  have "(1 :: rat) \<le> ?x" using assms(1) by simp
  then have "pow2 0 < pow2 (?e + 1)" using b(2) by (simp add: pow2_def)
  then have e0: "0 \<le> ?e" by (simp add: pow2_less)
  have "?x < of_int (2 ^ 53)" using assms(2) by (simp only: of_int_less_iff)
  then have "pow2 ?e < pow2 53" using b(1) by (simp add: pow2_def)
  then have e1: "?e \<le> 52" by (simp add: pow2_less)
  let ?k = "n * 2 ^ nat (52 - ?e)"
  have k: "of_int ?k = ?x * pow2 (52 - ?e)" using e1 by (simp add: pow2_def)
  have p: "pow2 52 = pow2 ?e * pow2 (52 - ?e)" "pow2 53 = pow2 (?e + 1) * pow2 (52 - ?e)"
    by (simp_all add: pow2_add [symmetric])
  have "pow2 52 \<le> of_int ?k" "of_int ?k < pow2 53"
    unfolding k p using b by (simp_all add: mult_right_mono less_imp_le)
  then have "of_int (2 ^ 52) \<le> (of_int ?k :: rat)" "(of_int ?k :: rat) < of_int (2 ^ 53)"
    by (simp_all add: pow2_def)
  then have "2 ^ 52 \<le> ?k" "?k < 2 ^ 53"
    by (simp_all only: of_int_le_iff of_int_less_iff)
  moreover have "?x = of_int ?k * pow2 (?e - 52)"
    unfolding k by (simp add: mult.assoc pow2_add [symmetric]) (simp add: pow2_def)
  ultimately show ?thesis by (intro fl_pos_fix) auto
qed

lemma float64_exact [simp]: "\<bar>n\<bar> < 2 ^ 53 \<Longrightarrow> float64 n = of_int n"
  using fl_pos_exact [of n] fl_pos_exact [of "- n"]
  by (auto simp: float64_def fl_def abs_if split: if_splits)

lemma fl_exact: "\<bar>n\<bar> < 2 ^ 53 \<Longrightarrow> fl (of_int n) = of_int n"
  using float64_exact [of n] by (simp add: float64_def)

lemma fl_numeral: "(numeral k :: int) < 2 ^ 53 \<Longrightarrow> fl (numeral k) = numeral k"
  using fl_exact [of "numeral k"] by simp

section \<open>What the clients use of rounding\<close>

locale rounding =
  fixes rnd :: "rat \<Rightarrow> rat"
  assumes rnd_0: "rnd 0 = 0"
    and rnd_mono: "x \<le> y \<Longrightarrow> rnd x \<le> rnd y"
    and rnd_idem: "rnd (rnd x) = rnd x"
begin

definition radd :: "rat \<Rightarrow> rat \<Rightarrow> rat" where
  "radd a b = rnd (a + b)"

lemma rnd_nonneg: "0 \<le> x \<Longrightarrow> 0 \<le> rnd x"
  using rnd_mono [of 0 x] by (simp add: rnd_0)

lemma radd_upper: "rnd a = a \<Longrightarrow> 0 \<le> b \<Longrightarrow> a \<le> radd a b"
  using rnd_mono [of a "a + b"] by (simp add: radd_def)

lemma radd_nonneg: "0 \<le> a \<Longrightarrow> 0 \<le> b \<Longrightarrow> 0 \<le> radd a b"
  by (simp add: radd_def rnd_nonneg)

lemma radd_fix: "rnd (radd a b) = radd a b"
  by (simp add: radd_def rnd_idem)

lemma radd_mono: "a \<le> a' \<Longrightarrow> b \<le> b' \<Longrightarrow> radd a b \<le> radd a' b'"
  by (simp add: radd_def rnd_mono)

lemma sum_mono_start: "a \<le> a' \<Longrightarrow> foldl radd a xs \<le> foldl radd a' xs"
  by (induction xs arbitrary: a a') (auto intro: radd_mono)

lemma sum_fix: "rnd a = a \<Longrightarrow> rnd (foldl radd a xs) = foldl radd a xs"
  by (induction xs arbitrary: a) (auto simp: radd_fix)

lemma sum_upper: "rnd a = a \<Longrightarrow> list_all (\<lambda>x. 0 \<le> x) xs \<Longrightarrow> a \<le> foldl radd a xs"
proof (induction xs arbitrary: a)
  case (Cons x xs)
  then have "a \<le> radd a x" by (simp add: radd_upper)
  also have "\<dots> \<le> foldl radd (radd a x) xs"
    using Cons by (simp add: radd_fix)
  finally show ?case by simp
qed simp

text \<open>Leaving summands out of a rounded sum of non-negative numbers never increases it.\<close>

lemma sum_filter_le:
  "rnd a = a \<Longrightarrow> list_all (\<lambda>x. 0 \<le> f x) xs \<Longrightarrow>
   foldl radd a (map f (filter p xs)) \<le> foldl radd a (map f xs)"
proof (induction xs arbitrary: a)
  case (Cons x xs)
  show ?case
  proof (cases "p x")
    case True
    with Cons show ?thesis by (simp add: radd_fix)
  next
    case False
    from Cons.prems have "foldl radd a (map f (filter p xs)) \<le> foldl radd a (map f xs)"
      by (intro Cons.IH) auto
    also have "\<dots> \<le> foldl radd (radd a (f x)) (map f xs)"
      using Cons.prems by (intro sum_mono_start radd_upper) auto
    finally show ?thesis using False by simp
  qed
qed simp

end

interpretation binary64: rounding fl
  rewrites "rounding.radd fl = fadd"
proof -
  show r: "rounding fl"
    by unfold_locales (auto intro: fl_mono)
  show "rounding.radd fl = fadd"
    by (intro ext) (simp add: rounding.radd_def [OF r] fadd_def)
qed

lemma float64_nonneg: "0 \<le> n \<Longrightarrow> 0 \<le> float64 n"
  by (simp add: float64_def binary64.rnd_nonneg)

lemma float64_mono: "m \<le> n \<Longrightarrow> float64 m \<le> float64 n"
  by (simp add: float64_def fl_mono)

section \<open>Square root\<close>

text \<open>The integer square root of a number below \<open>2 ^ (2 * k)\<close>, one bit of the result at a time.\<close>

fun isqrt_bits :: "nat \<Rightarrow> nat \<Rightarrow> nat \<Rightarrow> nat" where
  "isqrt_bits 0 r n = r"
| "isqrt_bits (Suc k) r n =
     (if (r + 2 ^ k) ^ 2 \<le> n then isqrt_bits k (r + 2 ^ k) n else isqrt_bits k r n)"

definition isqrt :: "nat \<Rightarrow> nat" where
  "isqrt n = isqrt_bits 54 0 n"

text \<open>\<open>math.Sqrt\<close>: the square root to 53 bits, to the nearest; a tie cannot occur.\<close>

definition fsqrt :: "rat \<Rightarrow> rat" where
  "fsqrt x =
     (if x \<le> 0 then 0
      else let u = pow2 (ilog2 x div 2 - 52); y = x / u ^ 2; n = isqrt (nat \<lfloor>y\<rfloor>)
           in of_nat (if (of_nat n + 1/2) ^ 2 < y then n + 1 else n) * u)"

lemma isqrt_bits_spec:
  "r ^ 2 \<le> n \<Longrightarrow> n < (r + 2 ^ k) ^ 2 \<Longrightarrow> (isqrt_bits k r n) ^ 2 \<le> n \<and> n < (isqrt_bits k r n + 1) ^ 2"
proof (induction k arbitrary: r)
  case (Suc k)
  have "r + 2 ^ k + 2 ^ k = r + 2 ^ Suc k" by simp
  with Suc.prems(2) have "n < (r + 2 ^ k + 2 ^ k) ^ 2" by (simp only:)
  then show ?case using Suc.IH [of r] Suc.IH [of "r + 2 ^ k"] Suc.prems(1) by (simp add: not_le)
qed simp

lemma isqrt_spec: "n < 2 ^ 108 \<Longrightarrow> (isqrt n) ^ 2 \<le> n \<and> n < (isqrt n + 1) ^ 2"
  using isqrt_bits_spec [of 0 n 54] by (simp add: isqrt_def)

lemma pow2_sq: "pow2 k ^ 2 = pow2 (2 * k)"
  by (simp add: pow2_powi power_int_power' mult.commute)

lemma fsqrt_unfold:
  assumes "0 < x" and "u = pow2 (ilog2 x div 2 - 52)"
  obtains n where "fsqrt x = of_nat (if (of_nat n + 1/2) ^ 2 < x / u ^ 2 then n + 1 else n) * u"
    "of_nat n ^ 2 \<le> x / u ^ 2" "x / u ^ 2 < (of_nat n + 1) ^ 2"
proof -
  let ?y = "x / u ^ 2" let ?n = "isqrt (nat \<lfloor>?y\<rfloor>)"
  have u: "0 < u" by (simp add: assms(2))
  have y0: "0 \<le> ?y" using assms(1) by simp
  have "2 * (ilog2 x div 2 - 52) + 106 \<ge> ilog2 x + 1" by presburger
  then have "pow2 (ilog2 x + 1) \<le> pow2 (2 * (ilog2 x div 2 - 52) + 106)" by (rule pow2_mono)
  also have "\<dots> = u ^ 2 * pow2 106" unfolding assms(2) pow2_sq by (rule pow2_add)
  also have "pow2 106 = 2 ^ 106" by (simp add: pow2_def)
  finally have "x < u ^ 2 * 2 ^ 106" using ilog2_bounds(2) [OF assms(1)] by linarith
  then have "?y < 2 ^ 106" using u by (simp add: field_simps)
  then have "of_int \<lfloor>?y\<rfloor> < (2 ^ 106 :: rat)" by (meson le_less_trans of_int_floor_le)
  then have "\<lfloor>?y\<rfloor> < 2 ^ 106" by (simp add: floor_less_iff)
  then have "\<lfloor>?y\<rfloor> < int (2 ^ 108)" by (rule less_trans) simp
  then have "nat \<lfloor>?y\<rfloor> < 2 ^ 108" by (subst nat_less_iff) (use y0 in simp_all)
  from isqrt_spec [OF this] have s: "?n ^ 2 \<le> nat \<lfloor>?y\<rfloor>" "nat \<lfloor>?y\<rfloor> < (?n + 1) ^ 2" by auto
  have fy: "(of_nat (nat \<lfloor>?y\<rfloor>) :: rat) = of_int \<lfloor>?y\<rfloor>" using y0 by simp
  have "(of_nat (?n ^ 2) :: rat) \<le> of_nat (nat \<lfloor>?y\<rfloor>)" using s(1) by (simp only: of_nat_le_iff)
  then have 1: "of_nat ?n ^ 2 \<le> ?y" unfolding fy by (simp add: le_floor_iff) (meson of_int_floor_le order_trans)
  have "(of_nat (nat \<lfloor>?y\<rfloor> + 1) :: rat) \<le> of_nat ((?n + 1) ^ 2)"
    using s(2) by (simp only: of_nat_le_iff)
  then have "of_int \<lfloor>?y\<rfloor> + 1 \<le> (of_nat ?n + (1 :: rat)) ^ 2"
    using fy by (simp del: of_nat_nat add: add.commute)
  then have 2: "?y < (of_nat ?n + 1) ^ 2" by linarith
  show thesis
    by (rule that [OF _ 1 2]) (use assms in \<open>simp add: fsqrt_def Let_def\<close>)
qed

lemma sq_le_rat: "(a :: rat) ^ 2 < b ^ 2 \<Longrightarrow> 0 \<le> b \<Longrightarrow> a < b"
  by (rule power2_less_imp_less)

lemma fsqrt_ge:
  assumes "0 < x" and "u = pow2 (ilog2 x div 2 - 52)" and "(of_nat m * u) ^ 2 \<le> x"
  shows "of_nat m * u \<le> fsqrt x"
proof -
  have u: "0 < u" by (simp add: assms(2))
  obtain n where n: "fsqrt x = of_nat (if (of_nat n + 1/2) ^ 2 < x / u ^ 2 then n + 1 else n) * u"
    "x / u ^ 2 < (of_nat n + 1) ^ 2" using fsqrt_unfold [OF assms(1,2)] by metis
  have "of_nat m ^ 2 \<le> x / u ^ 2" using assms(3) u by (simp add: field_simps power_mult_distrib)
  with n(2) have "(of_nat m :: rat) ^ 2 < of_nat (n + 1) ^ 2" by (simp add: add.commute)
  then have "m < n + 1" using sq_le_rat [of "of_nat m" "of_nat (n + 1)"] by simp
  then have "m \<le> (if (of_nat n + 1/2) ^ 2 < x / u ^ 2 then n + 1 else n)" by simp
  then have "(of_nat m :: rat) \<le> of_nat (if (of_nat n + 1/2) ^ 2 < x / u ^ 2 then n + 1 else n)"
    by (simp only: of_nat_le_iff)
  then show ?thesis unfolding n(1) using u by (intro mult_right_mono) simp_all
qed

lemma fsqrt_less:
  assumes "0 < x" and "u = pow2 (ilog2 x div 2 - 52)" and "x < (of_nat m * u) ^ 2"
    and "x \<le> ((of_nat m - 1/2) * u) ^ 2" and "0 < m"
  shows "fsqrt x < of_nat m * u"
proof -
  have u: "0 < u" by (simp add: assms(2))
  obtain n where n: "fsqrt x = of_nat (if (of_nat n + 1/2) ^ 2 < x / u ^ 2 then n + 1 else n) * u"
    "of_nat n ^ 2 \<le> x / u ^ 2" using fsqrt_unfold [OF assms(1,2)] by metis
  have y: "x / u ^ 2 < of_nat m ^ 2" "x / u ^ 2 \<le> (of_nat m - 1/2) ^ 2"
    using assms(3,4) u by (simp_all add: pos_divide_less_eq pos_divide_le_eq power_mult_distrib)
  from y(1) n(2) have "(of_nat n :: rat) ^ 2 < of_nat m ^ 2" by linarith
  then have nm: "n < m" using sq_le_rat [of "of_nat n" "of_nat m"] by simp
  have "n + 1 < m" if "(of_nat n + 1/2) ^ 2 < x / u ^ 2"
  proof -
    from that y(2) have "(of_nat n + 1/2 :: rat) ^ 2 < (of_nat m - 1/2) ^ 2" by linarith
    moreover have "(0 :: rat) \<le> of_nat m - 1/2" using assms(5) by simp
    ultimately have "(of_nat n + 1/2 :: rat) < of_nat m - 1/2" by (rule sq_le_rat)
    then have "(of_nat (n + 1) :: rat) < of_nat m" by simp
    then show ?thesis by (simp only: of_nat_less_iff)
  qed
  with nm have "(if (of_nat n + 1/2) ^ 2 < x / u ^ 2 then n + 1 else n) < m" by simp
  then have "(of_nat (if (of_nat n + 1/2) ^ 2 < x / u ^ 2 then n + 1 else n) :: rat) < of_nat m"
    by (simp only: of_nat_less_iff)
  then show ?thesis unfolding n(1) using u by (intro mult_strict_right_mono)
qed

text \<open>\<open>int(f)\<close> of a float that is not negative.\<close>

definition int_of_float :: "rat \<Rightarrow> int" where
  "int_of_float f = \<lfloor>f\<rfloor>"

text \<open>For an integer below \<open>2 ^ 28\<close>, four times the root truncates to the exact value: the rounding
  of the root never carries it over a quarter.\<close>

lemma floor_4_fsqrt:
  assumes "q ^ 2 \<le> 16 * v" and "16 * v < (q + 1) ^ 2" and "0 < v" and "v < 2 ^ 28"
  shows "\<lfloor>fsqrt (of_nat v) * 4\<rfloor> = int q"
proof -
  define e where "e = ilog2 (of_nat v) div 2"
  define u where "u = pow2 (e - 52)"
  have x: "0 < (of_nat v :: rat)" using assms(3) by simp
  have ub: "u = pow2 (ilog2 (of_nat v) div 2 - 52)" by (simp add: u_def e_def)
  have "(1 :: rat) \<le> of_nat v" using assms(3) by (metis of_nat_1 of_nat_le_iff Suc_leI One_nat_def)
  with ilog2_bounds(2) [OF x] have "pow2 0 < pow2 (ilog2 (of_nat v) + 1)" by (simp add: pow2_def)
  then have e0: "0 \<le> e" by (simp add: pow2_less e_def)
  have "(of_nat v :: rat) < of_nat (2 ^ 28)" using assms(4) by (simp only: of_nat_less_iff)
  with ilog2_bounds(1) [OF x] have "pow2 (ilog2 (of_nat v)) < pow2 28" by (simp add: pow2_def)
  then have e1: "e \<le> 13" by (simp add: pow2_less e_def)
  define k where "k = nat (50 - e)"
  have kb: "37 \<le> k" using e1 by (simp add: k_def)
  have "u * pow2 (52 - e) = 1" by (simp add: u_def pow2_add [symmetric] pow2_def)
  moreover have "pow2 (52 - e) = pow2 2 * pow2 (50 - e)" by (simp add: pow2_add [symmetric])
  moreover have "pow2 (50 - e) = 2 ^ k" using e1 by (simp add: k_def pow2_def)
  ultimately have u4: "u * (4 * 2 ^ k) = 1" by (simp add: pow2_def)
  have u0: "0 < u" by (simp add: u_def)
  have quarter: "of_nat (r * 2 ^ k) * u = of_nat r / (4 :: rat)" for r
    using u4 by (simp add: field_simps)
  have lo: "(of_nat (q * 2 ^ k) * u) ^ 2 \<le> of_nat v"
  proof -
    have "(of_nat (q ^ 2) :: rat) \<le> of_nat (16 * v)" using assms(1) by (simp only: of_nat_le_iff)
    then show ?thesis unfolding quarter by (simp add: power_divide)
  qed
  have up: "16 * of_nat v + 1 \<le> (of_nat (q + 1) :: rat) ^ 2"
  proof -
    have "(of_nat (16 * v + 1) :: rat) \<le> of_nat ((q + 1) ^ 2)"
      using assms(2) by (simp only: of_nat_le_iff)
    then show ?thesis by (simp add: add.commute)
  qed
  have hi: "of_nat v < (of_nat ((q + 1) * 2 ^ k) * u) ^ 2"
    using up unfolding quarter by (simp add: power_divide)
  have q: "q + 1 \<le> 2 ^ 17"
  proof (rule ccontr)
    assume "\<not> q + 1 \<le> 2 ^ 17"
    then have "2 ^ 17 \<le> q" by simp
    then have "(2 ^ 17) ^ 2 \<le> q ^ 2" by (rule power_mono) simp
    with assms(1,4) show False by simp
  qed
  have half: "of_nat v \<le> ((of_nat ((q + 1) * 2 ^ k) - 1/2) * u) ^ 2"
  proof -
    have "(2 :: rat) ^ 37 \<le> 2 ^ k" using kb by (rule power_increasing) simp
    then have "u * (4 * 2 ^ 37) \<le> 1" using u0 u4 by (metis mult_left_mono mult_le_cancel_left_pos
          less_eq_rat_def zero_less_numeral)
    then have us: "u \<le> 1 / 2 ^ 39" by simp
    have qr: "(of_nat (q + 1) :: rat) \<le> 2 ^ 17"
      using q by (metis of_nat_le_iff of_nat_numeral of_nat_power)
    have "((of_nat ((q + 1) * 2 ^ k) - 1/2) * u) ^ 2 = (of_nat (q + 1) / 4 - u / 2) ^ 2"
      unfolding left_diff_distrib quarter by simp
    also have "\<dots> \<ge> (of_nat (q + 1) / 4) ^ 2 - of_nat (q + 1) / 4 * u"
    proof -
      have "0 \<le> (u / 2) ^ 2" by simp
      then show ?thesis unfolding power2_diff by (simp add: algebra_simps)
    qed
    finally have "(of_nat (q + 1)) ^ 2 / 16 - of_nat (q + 1) * u / 4 \<le>
        ((of_nat ((q + 1) * 2 ^ k) - 1/2) * u) ^ 2" by (simp add: power_divide)
    moreover have "of_nat (q + 1) * u \<le> 2 ^ 17 * (1 / 2 ^ 39)"
      using qr us u0 by (intro mult_mono) simp_all
    ultimately show ?thesis using up by (simp add: field_simps)
  qed
  have "of_nat q / 4 \<le> fsqrt (of_nat v)" using fsqrt_ge [OF x ub lo] by (simp only: quarter)
  moreover have "fsqrt (of_nat v) < of_nat (q + 1) / 4"
    using fsqrt_less [OF x ub hi half] by (simp only: quarter) simp
  ultimately show ?thesis by (simp add: floor_eq_iff)
qed

text \<open>The root has 53 bits, so a product with a power of two is exact.\<close>

lemma fl_scaled:
  assumes "2 ^ 52 \<le> k" and "k \<le> 2 ^ 53"
  shows "fl (of_nat k * pow2 e) = of_nat k * pow2 e"
proof -
  have "fl_pos (of_nat k * pow2 e) = of_nat k * pow2 e"
  proof (cases "k = 2 ^ 53")
    case True
    have "of_nat k * pow2 e = of_int (2 ^ 52) * pow2 (e + 1)"
      unfolding True pow2_add by (simp add: pow2_def)
    then show ?thesis by (intro fl_pos_fix) auto
  next
    case False
    with assms have "int (2 ^ 52) \<le> int k" "int k < int (2 ^ 53)" by (simp_all only: of_nat_le_iff of_nat_less_iff)
    then have "2 ^ 52 \<le> int k" "int k < 2 ^ 53" by simp_all
    then show ?thesis by (intro fl_pos_fix [where k = "int k"]) auto
  qed
  moreover have "0 < of_nat k * pow2 e" using assms(1) by simp
  ultimately show ?thesis by (simp add: fl_def)
qed

lemma fmul_fsqrt_4: "fmul (fsqrt x) 4 = fsqrt x * 4"
proof (cases "0 < x")
  case True
  define u where "u = pow2 (ilog2 x div 2 - 52)"
  obtain n where n: "fsqrt x = of_nat (if (of_nat n + 1/2) ^ 2 < x / u ^ 2 then n + 1 else n) * u"
    "of_nat n ^ 2 \<le> x / u ^ 2" "x / u ^ 2 < (of_nat n + 1) ^ 2"
    using fsqrt_unfold [OF True u_def] .
  have u: "0 < u" "u ^ 2 = pow2 (2 * (ilog2 x div 2 - 52))" by (simp_all add: u_def pow2_sq)
  have "pow2 (2 * (ilog2 x div 2 - 52) + 104) \<le> x"
    using ilog2_bounds(1) [OF True] by (rule order_trans [OF pow2_mono, rotated]) presburger
  then have lo: "2 ^ 104 \<le> x / u ^ 2"
    unfolding pow2_add u(2) by (simp add: pow2_def pos_le_divide_eq mult.commute)
  have "x < pow2 (2 * (ilog2 x div 2 - 52) + 106)"
    using ilog2_bounds(2) [OF True] by (rule less_le_trans [OF _ pow2_mono]) presburger
  then have hi: "x / u ^ 2 < 2 ^ 106"
    unfolding pow2_add u(2) by (simp add: pow2_def pos_divide_less_eq mult.commute)
  have "(2 ^ 52 :: rat) ^ 2 < (of_nat n + 1) ^ 2" using lo n(3) by simp
  then have "(2 ^ 52 :: rat) < of_nat n + 1" by (rule sq_le_rat) simp
  then have "(of_nat (2 ^ 52) :: rat) < of_nat (n + 1)" by simp
  then have n1: "2 ^ 52 \<le> n" by (simp only: of_nat_less_iff)
  have "(of_nat n :: rat) ^ 2 < (2 ^ 53) ^ 2" using hi n(2) by simp
  then have "(of_nat n :: rat) < 2 ^ 53" by (rule sq_le_rat) simp
  then have "(of_nat n :: rat) < of_nat (2 ^ 53)" by simp
  then have n2: "n < 2 ^ 53" by (simp only: of_nat_less_iff)
  define k where "k = (if (of_nat n + 1/2) ^ 2 < x / u ^ 2 then n + 1 else n)"
  have kb: "2 ^ 52 \<le> k" "k \<le> 2 ^ 53" using n1 n2 by (auto simp: k_def)
  have "fsqrt x * 4 = of_nat k * pow2 (ilog2 x div 2 - 52 + 2)"
    unfolding pow2_add n(1) k_def u_def by (simp add: pow2_def)
  then show ?thesis unfolding fmul_def by (simp add: fl_scaled [OF kb])
qed (simp add: fsqrt_def fmul_def)

lemma fsqrt_ge_pow2:
  assumes "2 ^ (2 * k) \<le> x"
  shows "2 ^ k \<le> fsqrt x"
proof -
  have x: "0 < x" using assms by (metis less_le_trans zero_less_numeral zero_less_power)
  define e where "e = ilog2 x div 2"
  have "pow2 (2 * int k) \<le> x" using assms by (simp add: pow2_def nat_mult_distrib)
  then have "pow2 (2 * int k) < pow2 (ilog2 x + 1)" using ilog2_bounds(2) [OF x] by linarith
  then have ke: "int k \<le> e" by (simp add: pow2_less e_def)
  show ?thesis
  proof (cases "int k \<ge> e - 52")
    case True
    define m :: nat where "m = 2 ^ nat (int k - (e - 52))"
    have mu: "of_nat m * pow2 (e - 52) = pow2 (int k)"
    proof -
      have "of_nat m = pow2 (int k - (e - 52))" using True by (simp add: m_def pow2_def)
      then show ?thesis by (simp add: pow2_add [symmetric])
    qed
    then have "(of_nat m * pow2 (e - 52)) ^ 2 \<le> x"
      using \<open>pow2 (2 * int k) \<le> x\<close> by (simp add: pow2_sq)
    from fsqrt_ge [OF x _ this] show ?thesis by (simp add: e_def [symmetric] mu) (simp add: pow2_def)
  next
    case False
    then have "pow2 (int k) \<le> pow2 (e - 52)" by (intro pow2_mono) simp
    moreover have "(of_nat 1 * pow2 (e - 52)) ^ 2 \<le> x"
    proof -
      have "pow2 (2 * (e - 52)) \<le> pow2 (ilog2 x)" by (intro pow2_mono) (simp add: e_def)
      then show ?thesis using ilog2_bounds(1) [OF x] by (simp add: pow2_sq)
    qed
    from fsqrt_ge [OF x _ this] have "pow2 (e - 52) \<le> fsqrt x" by (simp add: e_def)
    ultimately show ?thesis by (simp add: pow2_def)
  qed
qed

end
