(* ===== verification/Go_Effects.thy ===== *)
theory Go_Effects
  imports Go_Float
begin

text \<open>
  Error values and effects. An error is a sentinel, a plain \<open>errors.New\<close> value, a
  \<open>fmt.Errorf\<close> value (its format as a list of pieces, of which only a \<open>%w\<close> argument is
  visible to \<open>errors.Is\<close>) or an \<open>errors.Join\<close>. An operation that may fail and that changes
  state is a function from the state to an error or a value, and the new state; the
  combinators below are the ways the code continues after a call. The triples at the end
  carry invariants and postconditions through a sequence of calls.
\<close>

section \<open>Error values\<close>

datatype sentinel =
    ErrValidation | ErrConflict | ErrNotFound | ErrQuotaExceeded | ErrTooManyRequests
  | ErrServiceUnavailable | ErrAccessDenied | ErrRequestTimeout | ErrInternal
  | ErrNoRows | ErrMilvusIntegrationDisabled

datatype goerr =
    Sentinel sentinel
  | New string
  | Errorf "piece list"
  | Joined "goerr list"
and piece =
    Lit string
  | ArgS string      \<comment> \<open>\<open>%s\<close>\<close>
  | ArgD int         \<comment> \<open>\<open>%d\<close>\<close>
  | ArgQ string      \<comment> \<open>\<open>%q\<close>\<close>
  | ArgF2 rat        \<comment> \<open>\<open>%.2f\<close>\<close>
  | ArgV goerr       \<comment> \<open>\<open>%v\<close> of an error\<close>
  | ArgW goerr       \<comment> \<open>\<open>%w\<close>\<close>

fun errors_Is :: "sentinel \<Rightarrow> goerr \<Rightarrow> bool" and piece_Is :: "sentinel \<Rightarrow> piece \<Rightarrow> bool" where
  "errors_Is t (Sentinel s) \<longleftrightarrow> s = t"
| "errors_Is t (New m) \<longleftrightarrow> False"
| "errors_Is t (Errorf ps) \<longleftrightarrow> list_ex (piece_Is t) ps"
| "errors_Is t (Joined es) \<longleftrightarrow> list_ex (errors_Is t) es"
| "piece_Is t (ArgW e) \<longleftrightarrow> errors_Is t e"
| "piece_Is t (Lit s) \<longleftrightarrow> False"
| "piece_Is t (ArgS s) \<longleftrightarrow> False"
| "piece_Is t (ArgD i) \<longleftrightarrow> False"
| "piece_Is t (ArgQ s) \<longleftrightarrow> False"
| "piece_Is t (ArgF2 r) \<longleftrightarrow> False"
| "piece_Is t (ArgV e) \<longleftrightarrow> False"

fun sentinel_text :: "sentinel \<Rightarrow> string" where
  "sentinel_text ErrValidation = ''validation failed''"
| "sentinel_text ErrConflict = ''resource already exists''"
| "sentinel_text ErrNotFound = ''resource not found''"
| "sentinel_text ErrQuotaExceeded = ''service quota exceeded''"
| "sentinel_text ErrTooManyRequests = ''request throttled''"
| "sentinel_text ErrServiceUnavailable = ''service unavailable''"
| "sentinel_text ErrAccessDenied = ''access denied''"
| "sentinel_text ErrRequestTimeout = ''request timeout''"
| "sentinel_text ErrInternal = ''internal server error''"
| "sentinel_text ErrNoRows = ''sql: no rows in result set''"
| "sentinel_text ErrMilvusIntegrationDisabled =
     ''milvus integration is disabled in the default build''"

text \<open>\<open>%q\<close> on ASCII text: a double-quoted Go literal.\<close>

definition hex_digit :: "nat \<Rightarrow> char" where
  "hex_digit n = (if n < 10 then char_of (48 + n) else char_of (87 + n))"

definition quote_char :: "char \<Rightarrow> string" where
  "quote_char c =
     (let n = (of_char c :: nat); bs = char_of (92 :: nat) in
      if n = 34 \<or> n = 92 then [bs, c]
      else if n = 7 then [bs, CHR ''a''] else if n = 8 then [bs, CHR ''b'']
      else if n = 9 then [bs, CHR ''t''] else if n = 10 then [bs, CHR ''n'']
      else if n = 11 then [bs, CHR ''v''] else if n = 12 then [bs, CHR ''f'']
      else if n = 13 then [bs, CHR ''r'']
      else if n < 32 \<or> n = 127 then [bs, CHR ''x'', hex_digit (n div 16), hex_digit (n mod 16)]
      else [c])"

definition Quote :: "string \<Rightarrow> string" where
  "Quote s = char_of (34 :: nat) # concat (map quote_char s) @ [char_of (34 :: nat)]"

definition FormatF2 :: "rat \<Rightarrow> string" where
  "FormatF2 x =
     (let n = nat (round_even (\<bar>x\<bar> * 100)); f = n mod 100
      in (if x < 0 then ''-'' else '''') @ nat_digits (n div 100) @ ''.'' @
         [char_of (48 + f div 10), char_of (48 + f mod 10)])"

fun join_lines :: "string list \<Rightarrow> string" where
  "join_lines [] = ''''"
| "join_lines [s] = s"
| "join_lines (s # ss) = s @ char_of (10 :: nat) # join_lines ss"

fun Error :: "goerr \<Rightarrow> string" and piece_text :: "piece \<Rightarrow> string" where
  "Error (Sentinel s) = sentinel_text s"
| "Error (New m) = m"
| "Error (Errorf ps) = concat (map piece_text ps)"
| "Error (Joined es) = join_lines (map Error es)"
| "piece_text (Lit s) = s"
| "piece_text (ArgS s) = s"
| "piece_text (ArgD i) = Itoa i"
| "piece_text (ArgQ s) = Quote s"
| "piece_text (ArgF2 r) = FormatF2 r"
| "piece_text (ArgV e) = Error e"
| "piece_text (ArgW e) = Error e"

text \<open>The two shapes the services use: \<open>fmt.Errorf("%w: text", s)\<close> and
  \<open>fmt.Errorf("%w: %v", s, err)\<close>.\<close>

definition wrap_text :: "sentinel \<Rightarrow> string \<Rightarrow> goerr" where
  "wrap_text s m = Errorf [ArgW (Sentinel s), Lit ('': '' @ m)]"

definition wrap_err :: "sentinel \<Rightarrow> goerr \<Rightarrow> goerr" where
  "wrap_err s e = Errorf [ArgW (Sentinel s), Lit '': '', ArgV e]"

lemma errors_Is_wrap [simp]:
  "errors_Is t (wrap_text s m) \<longleftrightarrow> t = s"
  "errors_Is t (wrap_err s e) \<longleftrightarrow> t = s"
  by (auto simp: wrap_text_def wrap_err_def)

section \<open>Operations that may fail and change state\<close>

type_synonym 'a result = "goerr + 'a"
type_synonym ('s, 'a) op = "'s \<Rightarrow> 'a result \<times> 's"

definition return :: "'a \<Rightarrow> ('s, 'a) op" where
  "return a s = (Inr a, s)"

definition fail :: "goerr \<Rightarrow> ('s, 'a) op" where
  "fail e s = (Inl e, s)"

definition bind :: "('s, 'a) op \<Rightarrow> ('a \<Rightarrow> ('s, 'b) op) \<Rightarrow> ('s, 'b) op" where
  "bind m f s = (case m s of (Inl e, s') \<Rightarrow> (Inl e, s') | (Inr a, s') \<Rightarrow> f a s')"

text \<open>\<open>if err != nil { return g(err) }\<close>\<close>

definition map_err :: "(goerr \<Rightarrow> goerr) \<Rightarrow> ('s, 'a) op \<Rightarrow> ('s, 'a) op" where
  "map_err g m s = (case m s of (Inl e, s') \<Rightarrow> (Inl (g e), s') | (Inr a, s') \<Rightarrow> (Inr a, s'))"

text \<open>\<open>_ = call()\<close>: the error is dropped, the effect stays.\<close>

definition ignore :: "('s, 'a) op \<Rightarrow> ('s, unit) op" where
  "ignore m s = (Inr (), snd (m s))"

text \<open>\<open>if err != nil { cleanup(); return err }\<close>\<close>

definition on_err :: "('s, 'a) op \<Rightarrow> ('s, unit) op \<Rightarrow> ('s, 'a) op" where
  "on_err m h s = (case m s of (Inl e, s') \<Rightarrow> (Inl e, snd (h s')) | (Inr a, s') \<Rightarrow> (Inr a, s'))"

definition check :: "goerr option \<Rightarrow> ('s, unit) op" where
  "check e s = (case e of Some x \<Rightarrow> (Inl x, s) | None \<Rightarrow> (Inr (), s))"

definition liftR :: "'a result \<Rightarrow> ('s, 'a) op" where
  "liftR r s = (r, s)"

definition gets :: "('s \<Rightarrow> 'a) \<Rightarrow> ('s, 'a) op" where
  "gets f s = (Inr (f s), s)"

definition modify :: "('s \<Rightarrow> 's) \<Rightarrow> ('s, unit) op" where
  "modify f s = (Inr (), f s)"

definition when_op :: "bool \<Rightarrow> ('s, unit) op \<Rightarrow> ('s, unit) op" where
  "when_op b m = (if b then m else return ())"

text \<open>\<open>for _, x := range xs\<close>, left at the first error.\<close>

fun for_each :: "('a \<Rightarrow> ('s, unit) op) \<Rightarrow> 'a list \<Rightarrow> ('s, unit) op" where
  "for_each f [] = return ()"
| "for_each f (x # xs) = bind (f x) (\<lambda>_. for_each f xs)"

text \<open>The same with a variable that the body updates.\<close>

fun for_acc :: "('a \<Rightarrow> 'b \<Rightarrow> ('s, 'b) op) \<Rightarrow> 'a list \<Rightarrow> 'b \<Rightarrow> ('s, 'b) op" where
  "for_acc f [] b = return b"
| "for_acc f (x # xs) b = bind (f x b) (for_acc f xs)"

lemmas op_defs = return_def fail_def bind_def map_err_def ignore_def on_err_def check_def
  liftR_def gets_def modify_def when_op_def

section \<open>Triples\<close>

text \<open>From a state with \<open>P\<close>, \<open>m\<close> returns a value with \<open>Q\<close> or fails with \<open>E\<close>.\<close>

definition triple ::
  "('s \<Rightarrow> bool) \<Rightarrow> ('s, 'a) op \<Rightarrow> ('a \<Rightarrow> 's \<Rightarrow> bool) \<Rightarrow> (goerr \<Rightarrow> 's \<Rightarrow> bool) \<Rightarrow> bool" where
  "triple P m Q E \<longleftrightarrow>
     (\<forall>s. P s \<longrightarrow> (case m s of (Inr a, s') \<Rightarrow> Q a s' | (Inl e, s') \<Rightarrow> E e s'))"

abbreviation keeps :: "('s \<Rightarrow> bool) \<Rightarrow> ('s, 'a) op \<Rightarrow> bool" where
  "keeps I m \<equiv> triple I m (\<lambda>_. I) (\<lambda>_. I)"

named_theorems keeps_rules \<open>operations that keep an invariant\<close>

lemma triple_iff:
  "triple P m Q E \<longleftrightarrow>
     (\<forall>s a s'. P s \<longrightarrow> m s = (Inr a, s') \<longrightarrow> Q a s') \<and>
     (\<forall>s e s'. P s \<longrightarrow> m s = (Inl e, s') \<longrightarrow> E e s')"
  unfolding triple_def by (auto split: prod.splits sum.splits)

lemma tripleI:
  assumes "\<And>s a s'. P s \<Longrightarrow> m s = (Inr a, s') \<Longrightarrow> Q a s'"
    and "\<And>s e s'. P s \<Longrightarrow> m s = (Inl e, s') \<Longrightarrow> E e s'"
  shows "triple P m Q E"
  using assms by (simp add: triple_iff)

lemma triple_Inr: "triple P m Q E \<Longrightarrow> P s \<Longrightarrow> m s = (Inr a, s') \<Longrightarrow> Q a s'"
  by (simp add: triple_iff)

lemma triple_Inl: "triple P m Q E \<Longrightarrow> P s \<Longrightarrow> m s = (Inl e, s') \<Longrightarrow> E e s'"
  by (simp add: triple_iff)

lemma triple_snd:
  assumes "triple P m (\<lambda>_. I) (\<lambda>_. I)" and "P s"
  shows "I (snd (m s))"
proof -
  obtain r t where m: "m s = (r, t)" by fastforce
  show ?thesis
    using triple_Inr [OF assms] triple_Inl [OF assms] m by (cases r) auto
qed

lemma keeps_iff: "keeps I m \<longleftrightarrow> (\<forall>s. I s \<longrightarrow> I (snd (m s)))"
proof
  assume "keeps I m"
  then show "\<forall>s. I s \<longrightarrow> I (snd (m s))" by (auto intro: triple_snd)
next
  assume "\<forall>s. I s \<longrightarrow> I (snd (m s))"
  then show "keeps I m" by (intro tripleI) (metis snd_conv)+
qed

lemma keeps_snd: "keeps I m \<Longrightarrow> I s \<Longrightarrow> I (snd (m s))"
  by (simp add: keeps_iff)

lemma keepsI: "(\<And>s. I s \<Longrightarrow> I (snd (m s))) \<Longrightarrow> keeps I m"
  by (simp add: keeps_iff)

lemma triple_weaken:
  "triple P m Q E \<Longrightarrow> (\<And>s. P' s \<Longrightarrow> P s) \<Longrightarrow> (\<And>a s. Q a s \<Longrightarrow> Q' a s) \<Longrightarrow>
   (\<And>e s. E e s \<Longrightarrow> E' e s) \<Longrightarrow> triple P' m Q' E'"
  unfolding triple_iff by blast

lemma triple_return: "(\<And>s. P s \<Longrightarrow> Q a s) \<Longrightarrow> triple P (return a) Q E"
  by (simp add: triple_def return_def)

lemma triple_fail: "(\<And>s. P s \<Longrightarrow> E e s) \<Longrightarrow> triple P (fail e) Q E"
  by (simp add: triple_def fail_def)

lemma triple_bind:
  assumes "triple P m R E" and "\<And>a. triple (R a) (f a) Q E"
  shows "triple P (bind m f) Q E"
proof (rule tripleI)
  fix s b t assume "P s" "bind m f s = (Inr b, t)"
  then show "Q b t" using assms by (auto simp: bind_def triple_iff split: prod.splits sum.splits)
next
  fix s e t assume "P s" "bind m f s = (Inl e, t)"
  then show "E e t" using assms by (auto simp: bind_def triple_iff split: prod.splits sum.splits)
qed

lemma triple_map_err:
  "triple P m Q (\<lambda>e. E (g e)) \<Longrightarrow> triple P (map_err g m) Q E"
  by (auto simp: triple_iff map_err_def split: prod.splits sum.splits)

lemma triple_on_err:
  assumes "triple P m Q R" and "\<And>e. keeps (R e) h" and "\<And>e s. R e s \<Longrightarrow> E e s"
  shows "triple P (on_err m h) Q E"
  using assms unfolding keeps_iff
  by (auto simp: triple_iff on_err_def split: prod.splits sum.splits)

lemma keeps_return [keeps_rules]: "keeps I (return a)"
  by (rule triple_return)

lemma keeps_fail [keeps_rules]: "keeps I (fail e)"
  by (rule triple_fail)

lemma keeps_bind [keeps_rules]: "keeps I m \<Longrightarrow> (\<And>a. keeps I (f a)) \<Longrightarrow> keeps I (bind m f)"
  by (rule triple_bind)

lemma keeps_map_err [keeps_rules]: "keeps I m \<Longrightarrow> keeps I (map_err g m)"
  by (rule triple_map_err)

lemma keeps_ignore [keeps_rules]: "keeps I m \<Longrightarrow> keeps I (ignore m)"
  by (rule keepsI) (simp add: ignore_def keeps_snd)

lemma keeps_on_err [keeps_rules]: "keeps I m \<Longrightarrow> keeps I h \<Longrightarrow> keeps I (on_err m h)"
  by (rule triple_on_err)

lemma keeps_check [keeps_rules]: "keeps I (check e)"
  by (rule keepsI) (simp add: check_def split: option.splits)

lemma keeps_liftR [keeps_rules]: "keeps I (liftR r)"
  by (rule keepsI) (simp add: liftR_def)

lemma keeps_gets [keeps_rules]: "keeps I (gets f)"
  by (rule keepsI) (simp add: gets_def)

lemma keeps_modify [keeps_rules]: "(\<And>s. I s \<Longrightarrow> I (f s)) \<Longrightarrow> keeps I (modify f)"
  by (rule keepsI) (simp add: modify_def)

lemma keeps_when [keeps_rules]: "(b \<Longrightarrow> keeps I m) \<Longrightarrow> keeps I (when_op b m)"
  by (simp add: when_op_def keeps_return)

lemma keeps_if [keeps_rules]:
  "(b \<Longrightarrow> keeps I m) \<Longrightarrow> (\<not> b \<Longrightarrow> keeps I n) \<Longrightarrow> keeps I (if b then m else n)"
  by simp

lemma keeps_for_each [keeps_rules]: "(\<And>x. keeps I (f x)) \<Longrightarrow> keeps I (for_each f xs)"
  by (induction xs) (auto intro: keeps_rules)

lemma keeps_for_acc [keeps_rules]: "(\<And>x b. keeps I (f x b)) \<Longrightarrow> keeps I (for_acc f xs b)"
  by (induction xs arbitrary: b) (auto intro: keeps_rules)

text \<open>The effect of a step that ran, for symbolic execution of a handler.\<close>

lemma bind_Inr: "m s = (Inr a, s') \<Longrightarrow> bind m f s = f a s'"
  by (simp add: bind_def)

lemma bind_Inl: "m s = (Inl e, s') \<Longrightarrow> bind m f s = (Inl e, s')"
  by (simp add: bind_def)

lemma bind_eq_Inr:
  "bind m f s = (Inr b, t) \<longleftrightarrow> (\<exists>a s'. m s = (Inr a, s') \<and> f a s' = (Inr b, t))"
  by (auto simp: bind_def split: prod.splits sum.splits)

lemma map_err_eq_Inr [simp]: "map_err g m s = (Inr b, t) \<longleftrightarrow> m s = (Inr b, t)"
  by (auto simp: map_err_def split: prod.splits sum.splits)

lemma on_err_eq_Inr [simp]: "on_err m h s = (Inr b, t) \<longleftrightarrow> m s = (Inr b, t)"
  by (auto simp: on_err_def split: prod.splits sum.splits)

lemma return_eq_Inr [simp]: "return a s = (Inr b, t) \<longleftrightarrow> b = a \<and> t = s"
  by (auto simp: return_def)

lemma fail_not_Inr [simp]: "fail e s \<noteq> (Inr b, t)"
  by (simp add: fail_def)

lemma check_eq_Inr [simp]: "check e s = (Inr b, t) \<longleftrightarrow> e = None \<and> t = s"
  by (auto simp: check_def split: option.splits)

lemma liftR_eq_Inr [simp]: "liftR r s = (Inr b, t) \<longleftrightarrow> r = Inr b \<and> t = s"
  by (auto simp: liftR_def)

lemma gets_eq_Inr [simp]: "gets f s = (Inr b, t) \<longleftrightarrow> b = f s \<and> t = s"
  by (auto simp: gets_def)

lemma modify_eq_Inr [simp]: "modify f s = (Inr b, t) \<longleftrightarrow> t = f s"
  by (auto simp: modify_def)

lemma ignore_eq_Inr [simp]: "ignore m s = (Inr b, t) \<longleftrightarrow> t = snd (m s)"
  by (auto simp: ignore_def)

end
