(* ===== verification/VB_Protocol.thy ===== *)
theory VB_Protocol
  imports Go_Effects "HOL-Library.Word"
begin

text \<open>
  Requests, responses and resource names of the vector bucket API
  (pkg/gateway/vectorbucket/protocol.go), the ARN formatters of bucket_service.go, and the
  translation of errors to the wire (errors.go). A float32 is its 32-bit pattern: the code
  only copies vectors and scores. A pointer field is an option.
\<close>

type_synonym float32 = "32 word"
type_synonym bytes = "char list"

section \<open>Data\<close>

record RequestContext =
  AccountID :: string
  Region :: string
  RequestID :: string
  Headers :: "(string \<times> string list) list"

record Target =
  VectorBucketName :: string
  VectorBucketARN :: string
  IndexName :: string
  IndexARN :: string

record EncryptionConfiguration =
  SSEType :: string
  KMSKeyARN :: string

record MetadataConfiguration =
  NonFilterableMetadataKeys :: "string list"

record PutInputVector =
  piv_Key :: string
  piv_Data :: "float32 list"
  piv_Metadata :: bytes

record QueryResultVector =
  qrv_Key :: string
  qrv_Distance :: float32
  qrv_Metadata :: bytes

record CreateVectorBucketRequest =
  cvb_Ctx :: RequestContext
  cvb_VectorBucketName :: string
  cvb_Encryption :: "EncryptionConfiguration option"
  cvb_Tags :: "(string \<times> string) list"

record GetVectorBucketRequest =
  gvb_Ctx :: RequestContext
  gvb_Target :: Target

record GetVectorBucketResponse =
  gvr_VectorBucketARN :: string
  gvr_VectorBucketName :: string
  gvr_CreationTime :: string
  gvr_Encryption :: "EncryptionConfiguration option"

record ListVectorBucketsRequest =
  lvb_Ctx :: RequestContext
  lvb_MaxResults :: int
  lvb_NextToken :: string

record VectorBucketSummary =
  vbs_VectorBucketARN :: string
  vbs_VectorBucketName :: string
  vbs_CreationTime :: string

record ListVectorBucketsResponse =
  lvr_VectorBuckets :: "VectorBucketSummary list"
  lvr_NextToken :: string

record DeleteVectorBucketRequest =
  dvb_Ctx :: RequestContext
  dvb_Target :: Target

record CreateIndexRequest =
  ci_Ctx :: RequestContext
  ci_Target :: Target
  ci_IndexName :: string
  ci_DataType :: string
  ci_Dimension :: int
  ci_DistanceMetric :: string
  ci_Encryption :: "EncryptionConfiguration option"
  ci_MetadataConfiguration :: "MetadataConfiguration option"
  ci_Tags :: "(string \<times> string) list"

record DeleteIndexRequest =
  di_Ctx :: RequestContext
  di_Target :: Target

record ChangeIndexModelRequest =
  cim_Ctx :: RequestContext
  cim_Target :: Target
  cim_IndexModel :: string

record ChangeIndexModelResponse =
  cimr_IndexARN :: string
  cimr_IndexModel :: string
  cimr_State :: string

record PutVectorsRequest =
  pv_Ctx :: RequestContext
  pv_Target :: Target
  pv_Vectors :: "PutInputVector list"

record DeleteVectorsRequest =
  dv_Ctx :: RequestContext
  dv_Target :: Target
  dv_Keys :: "string list"

record QueryVectorsRequest =
  qv_Ctx :: RequestContext
  qv_Target :: Target
  qv_QueryVector :: "float32 list"
  qv_TopK :: int
  qv_Filter :: bytes
  qv_ReturnDistance :: bool
  qv_ReturnMetadata :: bool

record QueryVectorsResponse =
  qvr_DistanceMetric :: string
  qvr_Vectors :: "QueryResultVector list"

section \<open>Resource names\<close>

abbreviation colon :: char where
  "colon \<equiv> CHR '':''"

abbreviation slash :: char where
  "slash \<equiv> CHR ''/''"

definition parseBucketARN :: "string \<Rightarrow> string result" where
  "parseBucketARN arn =
     (let parts = SplitN colon 6 arn
      in if length parts \<noteq> 6 then Inl (wrap_text ErrValidation ''invalid vector bucket arn'')
         else let tokens = Split slash (parts ! 5)
              in if length tokens \<noteq> 2 \<or> tokens ! 0 \<noteq> ''bucket'' \<or> tokens ! 1 = ''''
                 then Inl (wrap_text ErrValidation ''invalid vector bucket arn resource'')
                 else Inr (tokens ! 1))"

definition parseIndexARN :: "string \<Rightarrow> (string \<times> string) result" where
  "parseIndexARN arn =
     (let parts = SplitN colon 6 arn
      in if length parts \<noteq> 6 then Inl (wrap_text ErrValidation ''invalid index arn'')
         else let tokens = Split slash (parts ! 5)
              in if length tokens \<noteq> 4 \<or> tokens ! 0 \<noteq> ''bucket'' \<or> tokens ! 2 \<noteq> ''index'' \<or>
                    tokens ! 1 = '''' \<or> tokens ! 3 = ''''
                 then Inl (wrap_text ErrValidation ''invalid index arn resource'')
                 else Inr (tokens ! 1, tokens ! 3))"

definition ResolveNames :: "Target \<Rightarrow> (string \<times> string) result" where
  "ResolveNames t =
     (if VectorBucketName t \<noteq> '''' then Inr (VectorBucketName t, IndexName t)
      else if IndexARN t \<noteq> '''' then parseIndexARN (IndexARN t)
      else if VectorBucketARN t \<noteq> '''' then
        (case parseBucketARN (VectorBucketARN t) of Inl e \<Rightarrow> Inl e | Inr b \<Rightarrow> Inr (b, ''''))
      else Inl (wrap_text ErrValidation ''missing vector bucket target''))"

definition formatBucketARN :: "string \<Rightarrow> string \<Rightarrow> string \<Rightarrow> string" where
  "formatBucketARN region accountID bucketName =
     ''arn:aws:s3vectors:'' @ region @ '':'' @ accountID @ '':bucket/'' @ bucketName"

definition formatIndexARN :: "string \<Rightarrow> string \<Rightarrow> string \<Rightarrow> string \<Rightarrow> string" where
  "formatIndexARN region accountID bucketName indexName =
     ''arn:aws:s3vectors:'' @ region @ '':'' @ accountID @ '':bucket/'' @ bucketName @
     ''/index/'' @ indexName"

section \<open>Errors on the wire\<close>

record APIError =
  ae_Code :: string
  ae_Message :: string
  ae_Status :: int
  ae_RetryAfter :: int

definition mk_api_error :: "string \<Rightarrow> string \<Rightarrow> int \<Rightarrow> int \<Rightarrow> APIError" where
  "mk_api_error c m s r = \<lparr>ae_Code = c, ae_Message = m, ae_Status = s, ae_RetryAfter = r\<rparr>"

definition TranslateError :: "goerr option \<Rightarrow> APIError" where
  "TranslateError err = (case err of
     None \<Rightarrow> mk_api_error '''' '''' 0 0
   | Some e \<Rightarrow>
       if errors_Is ErrValidation e then mk_api_error ''ValidationException'' (Error e) 400 0
       else if errors_Is ErrConflict e then mk_api_error ''ConflictException'' (Error e) 409 0
       else if errors_Is ErrNotFound e then mk_api_error ''NotFoundException'' (Error e) 404 0
       else if errors_Is ErrQuotaExceeded e
         then mk_api_error ''ServiceQuotaExceededException'' (Error e) 402 0
       else if errors_Is ErrTooManyRequests e
         then mk_api_error ''TooManyRequestsException'' (Error e) 429 0
       else if errors_Is ErrServiceUnavailable e
         then mk_api_error ''ServiceUnavailableException'' (Error e) 503 5
       else if errors_Is ErrAccessDenied e
         then mk_api_error ''AccessDeniedException'' (Error e) 403 0
       else if errors_Is ErrRequestTimeout e
         then mk_api_error ''RequestTimeoutException'' (Error e) 408 0
       else mk_api_error ''InternalServerException'' (Error e) 500 0)"

section \<open>Lemmas\<close>

lemma arn_parts:
  assumes "colon \<notin> set region" and "colon \<notin> set account"
  shows "SplitN colon 6 (''arn:aws:s3vectors:'' @ region @ '':'' @ account @ '':'' @ rest) =
    [''arn'', ''aws'', ''s3vectors'', region, account, rest]"
proof -
  have six: "(6::nat) = Suc (Suc (Suc (Suc (Suc (Suc 0)))))" by simp
  have "''arn:aws:s3vectors:'' @ region @ '':'' @ account @ '':'' @ rest =
      ''arn'' @ colon # ''aws'' @ colon # ''s3vectors'' @ colon # region @ colon # account @ colon # rest"
    by simp
  with assms show ?thesis
    by (simp only: six) (simp del: append.simps)
qed

lemma parseBucketARN_format:
  assumes "colon \<notin> set region" and "colon \<notin> set account" and "slash \<notin> set b" and "b \<noteq> ''''"
  shows "parseBucketARN (formatBucketARN region account b) = Inr b"
proof -
  have "formatBucketARN region account b =
      ''arn:aws:s3vectors:'' @ region @ '':'' @ account @ '':'' @ (''bucket'' @ slash # b)"
    by (simp add: formatBucketARN_def)
  moreover have "Split slash (''bucket'' @ slash # b) = [''bucket'', b]"
    using assms(3) by (subst Split_append) simp_all
  ultimately show ?thesis
    using assms by (simp add: parseBucketARN_def arn_parts del: append.simps)
qed

lemma parseIndexARN_format:
  assumes "colon \<notin> set region" and "colon \<notin> set account" and "slash \<notin> set b" and "b \<noteq> ''''"
    and "slash \<notin> set i" and "i \<noteq> ''''"
  shows "parseIndexARN (formatIndexARN region account b i) = Inr (b, i)"
proof -
  have "formatIndexARN region account b i =
      ''arn:aws:s3vectors:'' @ region @ '':'' @ account @ '':'' @
      (''bucket'' @ slash # b @ slash # ''index'' @ slash # i)"
    by (simp add: formatIndexARN_def)
  moreover have "Split slash (''bucket'' @ slash # b @ slash # ''index'' @ slash # i) =
      [''bucket'', b, ''index'', i]"
    using assms(3,5) by (simp del: append.simps)
  ultimately show ?thesis
    using assms by (simp add: parseIndexARN_def arn_parts del: append.simps)
qed

lemma parseBucketARN_Inl: "parseBucketARN a = Inl e \<Longrightarrow> errors_Is x e \<longleftrightarrow> x = ErrValidation"
  by (auto simp: parseBucketARN_def Let_def split: if_splits)

lemma parseIndexARN_Inl: "parseIndexARN a = Inl e \<Longrightarrow> errors_Is x e \<longleftrightarrow> x = ErrValidation"
  by (auto simp: parseIndexARN_def Let_def split: if_splits)

lemma ResolveNames_Inl: "ResolveNames t = Inl e \<Longrightarrow> errors_Is x e \<longleftrightarrow> x = ErrValidation"
  by (auto simp: ResolveNames_def dest: parseBucketARN_Inl parseIndexARN_Inl split: if_splits sum.splits)

lemma parseIndexARN_Inr:
  assumes "parseIndexARN a = Inr (b, i)"
  shows "b \<noteq> [] \<and> i \<noteq> [] \<and> slash \<notin> set b \<and> slash \<notin> set i"
proof -
  define ts where "ts = Split slash (SplitN colon 6 a ! 5)"
  have ts: "length ts = 4" "b = ts ! 1" "i = ts ! 3" "b \<noteq> []" "i \<noteq> []"
    using assms by (auto simp: parseIndexARN_def Let_def ts_def split: if_splits)
  then have "b \<in> set ts" "i \<in> set ts" by auto
  then show ?thesis using ts(4,5) Split_pieces unfolding ts_def by blast
qed

section \<open>Properties\<close>

text \<open>A client can pass back the ARN it was given. For a region and an account without a colon and
  names that are not empty and have no slash, the ARN of an index resolves to the names it was built
  from, and so does the ARN of the bucket; the index name of a request with a bucket ARN is not used.\<close>

lemma ARN_resolves_to_names:
  assumes "colon \<notin> set region" and "colon \<notin> set account"
    and "slash \<notin> set b" and "b \<noteq> []" and "slash \<notin> set i" and "i \<noteq> []"
  shows "ResolveNames \<lparr>VectorBucketName = [], VectorBucketARN = a, IndexName = m,
           IndexARN = formatIndexARN region account b i\<rparr> = Inr (b, i) \<and>
         ResolveNames \<lparr>VectorBucketName = [], VectorBucketARN = formatBucketARN region account b,
           IndexName = m, IndexARN = []\<rparr> = Inr (b, [])"
proof -
  have "formatIndexARN region account b i \<noteq> []" "formatBucketARN region account b \<noteq> []"
    by (simp_all add: formatIndexARN_def formatBucketARN_def)
  then show ?thesis
    using parseIndexARN_format [OF assms] parseBucketARN_format [OF assms(1-4)]
    by (simp add: ResolveNames_def)
qed

end
