(* ===== verification/MN_VectorAPI.thy ===== *)
theory MN_VectorAPI
  imports VB_Protocol "HOL-Library.AList"
begin

text \<open>
  The vector API of the S3 front end (juicedata-minio/cmd/vector-api.go, vector-api-handlers.go and
  the routes of api-router.go): request and response types with their JSON tags, the interface the
  object layer implements, and the HTTP handlers.

  The JSON text itself is read and written by a codec that is a parameter (\<open>json_codec\<close>): it
  turns the bytes of the body into a tree in which every value keeps its raw text, and a tree into
  bytes. How a tree fills a struct (the names of the tags, the match of a key to a field,
  \<open>null\<close>, embedded structs, pointers, slices and raw messages) is modelled here, and so is the
  tree each response is written as. A response carries the headers the handlers set themselves.
\<close>

section \<open>Types of vector-api.go\<close>

record mn_RequestContext =
  mrc_AccountID :: string
  mrc_Region :: string
  mrc_RequestID :: string
  mrc_Headers :: "(string \<times> string list) list"

record mn_Target =
  mt_VectorBucketName :: string
  mt_VectorBucketARN :: string
  mt_IndexName :: string
  mt_IndexARN :: string

record mn_EncryptionConfiguration =
  mec_SSEType :: string
  mec_KMSKeyARN :: string

record mn_MetadataConfiguration =
  mmc_NonFilterableMetadataKeys :: "string list"

record mn_VectorData =
  mvd_Float32 :: "float32 list"

record mn_PutInputVector =
  mpi_Key :: string
  mpi_Data :: mn_VectorData
  mpi_Metadata :: bytes

record mn_QueryResultVector =
  mqr_Key :: string
  mqr_Distance :: float32
  mqr_Metadata :: bytes

record mn_CreateVectorBucketRequest =
  mcb_Ctx :: mn_RequestContext
  mcb_VectorBucketName :: string
  mcb_Encryption :: "mn_EncryptionConfiguration option"
  mcb_Tags :: "(string \<times> string) list"

record mn_CreateVectorBucketResponse =
  mcbr_VectorBucketARN :: string

record mn_GetVectorBucketRequest =
  mgb_Ctx :: mn_RequestContext
  mgb_Target :: mn_Target

record mn_GetVectorBucketResponse =
  mgbr_VectorBucketARN :: string
  mgbr_VectorBucketName :: string
  mgbr_CreationTime :: string
  mgbr_Encryption :: "mn_EncryptionConfiguration option"

record mn_ListVectorBucketsRequest =
  mlb_Ctx :: mn_RequestContext
  mlb_MaxResults :: int
  mlb_NextToken :: string

record mn_VectorBucketSummary =
  mbs_VectorBucketARN :: string
  mbs_VectorBucketName :: string
  mbs_CreationTime :: string

record mn_ListVectorBucketsResponse =
  mlbr_VectorBuckets :: "mn_VectorBucketSummary list"
  mlbr_NextToken :: string

record mn_DeleteVectorBucketRequest =
  mdb_Ctx :: mn_RequestContext
  mdb_Target :: mn_Target

record mn_CreateIndexRequest =
  mci_Ctx :: mn_RequestContext
  mci_Target :: mn_Target
  mci_IndexName :: string
  mci_DataType :: string
  mci_Dimension :: int
  mci_DistanceMetric :: string
  mci_Encryption :: "mn_EncryptionConfiguration option"
  mci_MetadataConfiguration :: "mn_MetadataConfiguration option"
  mci_Tags :: "(string \<times> string) list"

record mn_CreateIndexResponse =
  mcir_IndexARN :: string

record mn_DeleteIndexRequest =
  mdi_Ctx :: mn_RequestContext
  mdi_Target :: mn_Target

record mn_ChangeIndexModelRequest =
  mcm_Ctx :: mn_RequestContext
  mcm_Target :: mn_Target
  mcm_IndexModel :: string

record mn_ChangeIndexModelResponse =
  mcmr_IndexARN :: string
  mcmr_IndexModel :: string
  mcmr_State :: string

record mn_PutVectorsRequest =
  mpv_Ctx :: mn_RequestContext
  mpv_Target :: mn_Target
  mpv_Vectors :: "mn_PutInputVector list"

record mn_DeleteVectorsRequest =
  mdv_Ctx :: mn_RequestContext
  mdv_Target :: mn_Target
  mdv_Keys :: "string list"

record mn_QueryVectorsRequest =
  mqv_Ctx :: mn_RequestContext
  mqv_Target :: mn_Target
  mqv_QueryVector :: mn_VectorData
  mqv_TopK :: int
  mqv_Filter :: bytes
  mqv_ReturnDistance :: bool
  mqv_ReturnMetadata :: bool

record mn_QueryVectorsResponse =
  mqvr_DistanceMetric :: string
  mqvr_Vectors :: "mn_QueryResultVector list"

record VectorAPIError =
  vae_Code :: string
  vae_Message :: string
  vae_Status :: int
  vae_RetryAfter :: int

text \<open>A value of the interface \<open>error\<close>: a \<open>VectorAPIError\<close> or anything else.\<close>

datatype mn_error = VectorError VectorAPIError | OtherError goerr

definition VectorAPIError_Error :: "VectorAPIError \<Rightarrow> string" where
  "VectorAPIError_Error e = (if vae_Message e \<noteq> [] then vae_Message e else vae_Code e)"

type_synonym ('s, 'a) mn_call = "'s \<Rightarrow> (mn_error + 'a) \<times> 's"

record 's VectorAPI =
  va_CreateVectorBucket :: "mn_CreateVectorBucketRequest \<Rightarrow> ('s, mn_CreateVectorBucketResponse) mn_call"
  va_GetVectorBucket :: "mn_GetVectorBucketRequest \<Rightarrow> ('s, mn_GetVectorBucketResponse) mn_call"
  va_ListVectorBuckets :: "mn_ListVectorBucketsRequest \<Rightarrow> ('s, mn_ListVectorBucketsResponse) mn_call"
  va_DeleteVectorBucket :: "mn_DeleteVectorBucketRequest \<Rightarrow> ('s, unit) mn_call"
  va_CreateIndex :: "mn_CreateIndexRequest \<Rightarrow> ('s, mn_CreateIndexResponse) mn_call"
  va_DeleteIndex :: "mn_DeleteIndexRequest \<Rightarrow> ('s, unit) mn_call"
  va_ChangeIndexModel :: "mn_ChangeIndexModelRequest \<Rightarrow> ('s, mn_ChangeIndexModelResponse) mn_call"
  va_PutVectors :: "mn_PutVectorsRequest \<Rightarrow> ('s, unit) mn_call"
  va_DeleteVectors :: "mn_DeleteVectorsRequest \<Rightarrow> ('s, unit) mn_call"
  va_QueryVectors :: "mn_QueryVectorsRequest \<Rightarrow> ('s, mn_QueryVectorsResponse) mn_call"

section \<open>Decoding a tree into a struct\<close>

datatype json =
    JNull
  | JBool bool
  | JNum string
  | JStr string
  | JArr "jval list"
  | JObj "(string \<times> jval) list"
and jval = Jval bytes json

text \<open>The tree a response is written as: an object lists the keys in the order of the fields.\<close>

datatype jout =
    ONull
  | OBool bool
  | OStr string
  | OBytes bytes     \<comment> \<open>a \<open>[]byte\<close>: text in base64\<close>
  | OFloat32 float32
  | ORaw bytes
  | OArr "jout list"
  | OObj "(string \<times> jout) list"

text \<open>The codec of \<open>encoding/json\<close>: \<open>Decode\<close> reads the first value of the input,
  \<open>TypeError\<close> is the error for a value that does not fit a Go type, \<open>ParseFloat32\<close> reads a
  number literal, \<open>Marshal\<close> writes a tree and fails when a raw message is no JSON.\<close>

record json_codec =
  jc_Decode :: "bytes \<Rightarrow> goerr + jval"
  jc_TypeError :: "string \<Rightarrow> json \<Rightarrow> goerr"
  jc_ParseFloat32 :: "string \<Rightarrow> float32 option"
  jc_Marshal :: "jout \<Rightarrow> goerr + bytes"

type_synonym 'a dec = "jval \<Rightarrow> 'a \<Rightarrow> goerr + 'a"

fun dec_string :: "json_codec \<Rightarrow> string dec" where
  "dec_string J (Jval raw JNull) old = Inr old"
| "dec_string J (Jval raw (JStr s)) old = Inr s"
| "dec_string J (Jval raw v) old = Inl (jc_TypeError J ''string'' v)"

fun dec_bool :: "json_codec \<Rightarrow> bool dec" where
  "dec_bool J (Jval raw JNull) old = Inr old"
| "dec_bool J (Jval raw (JBool b)) old = Inr b"
| "dec_bool J (Jval raw v) old = Inl (jc_TypeError J ''bool'' v)"

fun dec_int :: "json_codec \<Rightarrow> int dec" where
  "dec_int J (Jval raw JNull) old = Inr old"
| "dec_int J (Jval raw (JNum n)) old =
     (case ParseInt n of Some i \<Rightarrow> Inr i | None \<Rightarrow> Inl (jc_TypeError J ''int'' (JNum n)))"
| "dec_int J (Jval raw v) old = Inl (jc_TypeError J ''int'' v)"

fun dec_float32 :: "json_codec \<Rightarrow> float32 dec" where
  "dec_float32 J (Jval raw JNull) old = Inr old"
| "dec_float32 J (Jval raw (JNum n)) old =
     (case jc_ParseFloat32 J n of Some f \<Rightarrow> Inr f | None \<Rightarrow> Inl (jc_TypeError J ''float32'' (JNum n)))"
| "dec_float32 J (Jval raw v) old = Inl (jc_TypeError J ''float32'' v)"

text \<open>A \<open>json.RawMessage\<close> takes the text of the value, also of \<open>null\<close>.\<close>

fun dec_raw :: "bytes dec" where
  "dec_raw (Jval raw v) old = Inr raw"

text \<open>A slice: element \<open>i\<close> is decoded into the old element \<open>i\<close> when there is one.\<close>

fun dec_elems :: "'a dec \<Rightarrow> 'a \<Rightarrow> jval list \<Rightarrow> 'a list \<Rightarrow> goerr + 'a list" where
  "dec_elems d zero [] olds = Inr []"
| "dec_elems d zero (v # vs) olds =
     (case d v (case olds of [] \<Rightarrow> zero | o1 # _ \<Rightarrow> o1) of
        Inl e \<Rightarrow> Inl e
      | Inr x \<Rightarrow> (case dec_elems d zero vs (drop 1 olds) of Inl e \<Rightarrow> Inl e | Inr xs \<Rightarrow> Inr (x # xs)))"

fun dec_slice :: "json_codec \<Rightarrow> string \<Rightarrow> 'a dec \<Rightarrow> 'a \<Rightarrow> 'a list dec" where
  "dec_slice J ty d zero (Jval raw JNull) old = Inr []"
| "dec_slice J ty d zero (Jval raw (JArr vs)) old = dec_elems d zero vs old"
| "dec_slice J ty d zero (Jval raw v) old = Inl (jc_TypeError J ty v)"

fun dec_ptr :: "'a dec \<Rightarrow> 'a \<Rightarrow> 'a option dec" where
  "dec_ptr d zero (Jval raw JNull) old = Inr None"
| "dec_ptr d zero v old =
     (case d v (case old of None \<Rightarrow> zero | Some x \<Rightarrow> x) of Inl e \<Rightarrow> Inl e | Inr x \<Rightarrow> Inr (Some x))"

text \<open>A \<open>map[string]string\<close>: every value starts from the empty string.\<close>

fun dec_pairs :: "json_codec \<Rightarrow> (string \<times> jval) list \<Rightarrow> (string \<times> string) list \<Rightarrow> goerr + (string \<times> string) list" where
  "dec_pairs J [] m = Inr m"
| "dec_pairs J ((k, v) # kvs) m =
     (case dec_string J v [] of Inl e \<Rightarrow> Inl e | Inr s \<Rightarrow> dec_pairs J kvs (AList.update k s m))"

fun dec_map :: "json_codec \<Rightarrow> (string \<times> string) list dec" where
  "dec_map J (Jval raw JNull) old = Inr []"
| "dec_map J (Jval raw (JObj kvs)) old = dec_pairs J kvs old"
| "dec_map J (Jval raw v) old = Inl (jc_TypeError J ''map[string]string'' v)"

text \<open>The key of an object names a field exactly, or up to case: the folding of names maps the
  long s and the Kelvin sign to ASCII, every other letter beyond ASCII to itself.\<close>

fun fold_name :: "string \<Rightarrow> string" where
  "fold_name [] = []"
| "fold_name (c # cs) =
     (let n = (of_char c :: nat) in
      if n = 197 \<and> take 1 cs = [char_of (191 :: nat)] then CHR ''s'' # fold_name (drop 1 cs)
      else if n = 226 \<and> take 2 cs = [char_of (132 :: nat), char_of (170 :: nat)]
        then CHR ''k'' # fold_name (drop 2 cs)
      else lower_char c # fold_name cs)"

type_synonym 'r fields = "(string \<times> 'r dec) list"

definition field :: "string \<Rightarrow> ('r \<Rightarrow> 'a) \<Rightarrow> ('a \<Rightarrow> 'r \<Rightarrow> 'r) \<Rightarrow> 'a dec \<Rightarrow> string \<times> 'r dec" where
  "field name get upd d =
     (name, \<lambda>v r. case d v (get r) of Inl e \<Rightarrow> Inl e | Inr x \<Rightarrow> Inr (upd x r))"

definition find_field :: "'r fields \<Rightarrow> string \<Rightarrow> 'r dec option" where
  "find_field fs key =
     (case List.find (\<lambda>(n, d). n = key) fs of
        Some (n, d) \<Rightarrow> Some d
      | None \<Rightarrow> map_option snd (List.find (\<lambda>(n, d). fold_name n = fold_name key) fs))"

fun dec_members :: "'r fields \<Rightarrow> (string \<times> jval) list \<Rightarrow> 'r \<Rightarrow> goerr + 'r" where
  "dec_members fs [] r = Inr r"
| "dec_members fs ((k, v) # kvs) r =
     (case find_field fs k of
        None \<Rightarrow> dec_members fs kvs r
      | Some d \<Rightarrow> (case d v r of Inl e \<Rightarrow> Inl e | Inr r' \<Rightarrow> dec_members fs kvs r'))"

fun dec_struct :: "json_codec \<Rightarrow> string \<Rightarrow> 'r fields \<Rightarrow> 'r dec" where
  "dec_struct J ty fs (Jval raw JNull) r = Inr r"
| "dec_struct J ty fs (Jval raw (JObj kvs)) r = dec_members fs kvs r"
| "dec_struct J ty fs (Jval raw v) r = Inl (jc_TypeError J ty v)"

text \<open>The fields of an embedded struct are fields of the struct that embeds it; those of the outer
  struct stand first, so they hide embedded fields of the same name.\<close>

definition embed :: "('r \<Rightarrow> 'a) \<Rightarrow> ('a \<Rightarrow> 'r \<Rightarrow> 'r) \<Rightarrow> 'a fields \<Rightarrow> 'r fields" where
  "embed get upd fs = map (\<lambda>(n, d). field n get upd d) fs"

section \<open>The fields of the requests\<close>

definition zero_context :: mn_RequestContext where
  "zero_context = \<lparr>mrc_AccountID = [], mrc_Region = [], mrc_RequestID = [], mrc_Headers = []\<rparr>"

definition zero_target :: mn_Target where
  "zero_target = \<lparr>mt_VectorBucketName = [], mt_VectorBucketARN = [], mt_IndexName = [], mt_IndexARN = []\<rparr>"

definition Target_fields :: "json_codec \<Rightarrow> mn_Target fields" where
  "Target_fields J =
     [field ''vectorBucketName'' mt_VectorBucketName (\<lambda>x. mt_VectorBucketName_update (\<lambda>_. x)) (dec_string J),
      field ''vectorBucketArn'' mt_VectorBucketARN (\<lambda>x. mt_VectorBucketARN_update (\<lambda>_. x)) (dec_string J),
      field ''indexName'' mt_IndexName (\<lambda>x. mt_IndexName_update (\<lambda>_. x)) (dec_string J),
      field ''indexArn'' mt_IndexARN (\<lambda>x. mt_IndexARN_update (\<lambda>_. x)) (dec_string J)]"

definition dec_encryption :: "json_codec \<Rightarrow> mn_EncryptionConfiguration option dec" where
  "dec_encryption J = dec_ptr (dec_struct J ''EncryptionConfiguration''
     [field ''sseType'' mec_SSEType (\<lambda>x. mec_SSEType_update (\<lambda>_. x)) (dec_string J),
      field ''kmsKeyArn'' mec_KMSKeyARN (\<lambda>x. mec_KMSKeyARN_update (\<lambda>_. x)) (dec_string J)])
     \<lparr>mec_SSEType = [], mec_KMSKeyARN = []\<rparr>"

definition dec_metadata_configuration :: "json_codec \<Rightarrow> mn_MetadataConfiguration option dec" where
  "dec_metadata_configuration J = dec_ptr (dec_struct J ''MetadataConfiguration''
     [field ''nonFilterableMetadataKeys'' mmc_NonFilterableMetadataKeys
        (\<lambda>x. mmc_NonFilterableMetadataKeys_update (\<lambda>_. x)) (dec_slice J ''[]string'' (dec_string J) [])])
     \<lparr>mmc_NonFilterableMetadataKeys = []\<rparr>"

definition dec_vector_data :: "json_codec \<Rightarrow> mn_VectorData dec" where
  "dec_vector_data J = dec_struct J ''VectorData''
     [field ''float32'' mvd_Float32 (\<lambda>x. mvd_Float32_update (\<lambda>_. x)) (dec_slice J ''[]float32'' (dec_float32 J) 0)]"

definition dec_put_input_vector :: "json_codec \<Rightarrow> mn_PutInputVector dec" where
  "dec_put_input_vector J = dec_struct J ''PutInputVector''
     [field ''key'' mpi_Key (\<lambda>x. mpi_Key_update (\<lambda>_. x)) (dec_string J),
      field ''data'' mpi_Data (\<lambda>x. mpi_Data_update (\<lambda>_. x)) (dec_vector_data J),
      field ''metadata'' mpi_Metadata (\<lambda>x. mpi_Metadata_update (\<lambda>_. x)) dec_raw]"

text \<open>The decoder of each request and the zero value it starts from. The request context has the
  tag \<open>"-"\<close>: no key of the body reaches it.\<close>

definition zero_CreateVectorBucket :: mn_CreateVectorBucketRequest where
  "zero_CreateVectorBucket = \<lparr>mcb_Ctx = zero_context, mcb_VectorBucketName = [], mcb_Encryption = None, mcb_Tags = []\<rparr>"

definition CreateVectorBucket_fields :: "json_codec \<Rightarrow> mn_CreateVectorBucketRequest fields" where
  "CreateVectorBucket_fields J =
     [field ''vectorBucketName'' mcb_VectorBucketName (\<lambda>x. mcb_VectorBucketName_update (\<lambda>_. x)) (dec_string J),
      field ''encryptionConfiguration'' mcb_Encryption (\<lambda>x. mcb_Encryption_update (\<lambda>_. x)) (dec_encryption J),
      field ''tags'' mcb_Tags (\<lambda>x. mcb_Tags_update (\<lambda>_. x)) (dec_map J)]"

definition zero_GetVectorBucket :: mn_GetVectorBucketRequest where
  "zero_GetVectorBucket = \<lparr>mgb_Ctx = zero_context, mgb_Target = zero_target\<rparr>"

definition GetVectorBucket_fields :: "json_codec \<Rightarrow> mn_GetVectorBucketRequest fields" where
  "GetVectorBucket_fields J = embed mgb_Target (\<lambda>x. mgb_Target_update (\<lambda>_. x)) (Target_fields J)"

definition zero_ListVectorBuckets :: mn_ListVectorBucketsRequest where
  "zero_ListVectorBuckets = \<lparr>mlb_Ctx = zero_context, mlb_MaxResults = 0, mlb_NextToken = []\<rparr>"

definition ListVectorBuckets_fields :: "json_codec \<Rightarrow> mn_ListVectorBucketsRequest fields" where
  "ListVectorBuckets_fields J =
     [field ''maxResults'' mlb_MaxResults (\<lambda>x. mlb_MaxResults_update (\<lambda>_. x)) (dec_int J),
      field ''nextToken'' mlb_NextToken (\<lambda>x. mlb_NextToken_update (\<lambda>_. x)) (dec_string J)]"

definition zero_DeleteVectorBucket :: mn_DeleteVectorBucketRequest where
  "zero_DeleteVectorBucket = \<lparr>mdb_Ctx = zero_context, mdb_Target = zero_target\<rparr>"

definition DeleteVectorBucket_fields :: "json_codec \<Rightarrow> mn_DeleteVectorBucketRequest fields" where
  "DeleteVectorBucket_fields J = embed mdb_Target (\<lambda>x. mdb_Target_update (\<lambda>_. x)) (Target_fields J)"

definition zero_CreateIndex :: mn_CreateIndexRequest where
  "zero_CreateIndex = \<lparr>mci_Ctx = zero_context, mci_Target = zero_target, mci_IndexName = [], mci_DataType = [],
     mci_Dimension = 0, mci_DistanceMetric = [], mci_Encryption = None, mci_MetadataConfiguration = None, mci_Tags = []\<rparr>"

definition CreateIndex_fields :: "json_codec \<Rightarrow> mn_CreateIndexRequest fields" where
  "CreateIndex_fields J =
     [field ''indexName'' mci_IndexName (\<lambda>x. mci_IndexName_update (\<lambda>_. x)) (dec_string J),
      field ''dataType'' mci_DataType (\<lambda>x. mci_DataType_update (\<lambda>_. x)) (dec_string J),
      field ''dimension'' mci_Dimension (\<lambda>x. mci_Dimension_update (\<lambda>_. x)) (dec_int J),
      field ''distanceMetric'' mci_DistanceMetric (\<lambda>x. mci_DistanceMetric_update (\<lambda>_. x)) (dec_string J),
      field ''encryptionConfiguration'' mci_Encryption (\<lambda>x. mci_Encryption_update (\<lambda>_. x)) (dec_encryption J),
      field ''metadataConfiguration'' mci_MetadataConfiguration
        (\<lambda>x. mci_MetadataConfiguration_update (\<lambda>_. x)) (dec_metadata_configuration J),
      field ''tags'' mci_Tags (\<lambda>x. mci_Tags_update (\<lambda>_. x)) (dec_map J)] @
     embed mci_Target (\<lambda>x. mci_Target_update (\<lambda>_. x)) (Target_fields J)"

definition zero_DeleteIndex :: mn_DeleteIndexRequest where
  "zero_DeleteIndex = \<lparr>mdi_Ctx = zero_context, mdi_Target = zero_target\<rparr>"

definition DeleteIndex_fields :: "json_codec \<Rightarrow> mn_DeleteIndexRequest fields" where
  "DeleteIndex_fields J = embed mdi_Target (\<lambda>x. mdi_Target_update (\<lambda>_. x)) (Target_fields J)"

definition zero_ChangeIndexModel :: mn_ChangeIndexModelRequest where
  "zero_ChangeIndexModel = \<lparr>mcm_Ctx = zero_context, mcm_Target = zero_target, mcm_IndexModel = []\<rparr>"

definition ChangeIndexModel_fields :: "json_codec \<Rightarrow> mn_ChangeIndexModelRequest fields" where
  "ChangeIndexModel_fields J =
     field ''indexModel'' mcm_IndexModel (\<lambda>x. mcm_IndexModel_update (\<lambda>_. x)) (dec_string J) #
     embed mcm_Target (\<lambda>x. mcm_Target_update (\<lambda>_. x)) (Target_fields J)"

definition zero_PutVectors :: mn_PutVectorsRequest where
  "zero_PutVectors = \<lparr>mpv_Ctx = zero_context, mpv_Target = zero_target, mpv_Vectors = []\<rparr>"

definition zero_put_vector :: mn_PutInputVector where
  "zero_put_vector = \<lparr>mpi_Key = [], mpi_Data = \<lparr>mvd_Float32 = []\<rparr>, mpi_Metadata = []\<rparr>"

definition PutVectors_fields :: "json_codec \<Rightarrow> mn_PutVectorsRequest fields" where
  "PutVectors_fields J =
     field ''vectors'' mpv_Vectors (\<lambda>x. mpv_Vectors_update (\<lambda>_. x))
       (dec_slice J ''[]PutInputVector'' (dec_put_input_vector J) zero_put_vector) #
     embed mpv_Target (\<lambda>x. mpv_Target_update (\<lambda>_. x)) (Target_fields J)"

definition zero_DeleteVectors :: mn_DeleteVectorsRequest where
  "zero_DeleteVectors = \<lparr>mdv_Ctx = zero_context, mdv_Target = zero_target, mdv_Keys = []\<rparr>"

definition DeleteVectors_fields :: "json_codec \<Rightarrow> mn_DeleteVectorsRequest fields" where
  "DeleteVectors_fields J =
     field ''keys'' mdv_Keys (\<lambda>x. mdv_Keys_update (\<lambda>_. x)) (dec_slice J ''[]string'' (dec_string J) []) #
     embed mdv_Target (\<lambda>x. mdv_Target_update (\<lambda>_. x)) (Target_fields J)"

definition zero_QueryVectors :: mn_QueryVectorsRequest where
  "zero_QueryVectors = \<lparr>mqv_Ctx = zero_context, mqv_Target = zero_target, mqv_QueryVector = \<lparr>mvd_Float32 = []\<rparr>,
     mqv_TopK = 0, mqv_Filter = [], mqv_ReturnDistance = False, mqv_ReturnMetadata = False\<rparr>"

definition QueryVectors_fields :: "json_codec \<Rightarrow> mn_QueryVectorsRequest fields" where
  "QueryVectors_fields J =
     [field ''queryVector'' mqv_QueryVector (\<lambda>x. mqv_QueryVector_update (\<lambda>_. x)) (dec_vector_data J),
      field ''topK'' mqv_TopK (\<lambda>x. mqv_TopK_update (\<lambda>_. x)) (dec_int J),
      field ''filter'' mqv_Filter (\<lambda>x. mqv_Filter_update (\<lambda>_. x)) dec_raw,
      field ''returnDistance'' mqv_ReturnDistance (\<lambda>x. mqv_ReturnDistance_update (\<lambda>_. x)) (dec_bool J),
      field ''returnMetadata'' mqv_ReturnMetadata (\<lambda>x. mqv_ReturnMetadata_update (\<lambda>_. x)) (dec_bool J)] @
     embed mqv_Target (\<lambda>x. mqv_Target_update (\<lambda>_. x)) (Target_fields J)"

section \<open>The trees of the responses\<close>

text \<open>\<open>omitempty\<close> drops an empty string, a nil pointer, an empty raw message and a zero number:
  the patterns of both zeros of a float32.\<close>

definition omit_string :: "string \<Rightarrow> string \<Rightarrow> (string \<times> jout) list" where
  "omit_string name s = (if s = [] then [] else [(name, OStr s)])"

definition enc_encryption :: "mn_EncryptionConfiguration option \<Rightarrow> (string \<times> jout) list" where
  "enc_encryption e = (case e of None \<Rightarrow> []
   | Some c \<Rightarrow> [(''encryptionConfiguration'',
        OObj (omit_string ''sseType'' (mec_SSEType c) @ omit_string ''kmsKeyArn'' (mec_KMSKeyARN c)))])"

definition enc_CreateVectorBucket :: "mn_CreateVectorBucketResponse \<Rightarrow> jout" where
  "enc_CreateVectorBucket r = OObj [(''vectorBucketArn'', OStr (mcbr_VectorBucketARN r))]"

definition enc_GetVectorBucket :: "mn_GetVectorBucketResponse \<Rightarrow> jout" where
  "enc_GetVectorBucket r = OObj ([(''vectorBucketArn'', OStr (mgbr_VectorBucketARN r)),
     (''vectorBucketName'', OStr (mgbr_VectorBucketName r)), (''creationTime'', OStr (mgbr_CreationTime r))] @
     enc_encryption (mgbr_Encryption r))"

definition enc_summary :: "mn_VectorBucketSummary \<Rightarrow> jout" where
  "enc_summary b = OObj [(''vectorBucketArn'', OStr (mbs_VectorBucketARN b)),
     (''vectorBucketName'', OStr (mbs_VectorBucketName b)), (''creationTime'', OStr (mbs_CreationTime b))]"

definition enc_ListVectorBuckets :: "mn_ListVectorBucketsResponse \<Rightarrow> jout" where
  "enc_ListVectorBuckets r = OObj ((''vectorBuckets'', OArr (map enc_summary (mlbr_VectorBuckets r))) #
     omit_string ''nextToken'' (mlbr_NextToken r))"

definition enc_CreateIndex :: "mn_CreateIndexResponse \<Rightarrow> jout" where
  "enc_CreateIndex r = OObj [(''indexArn'', OStr (mcir_IndexARN r))]"

definition enc_ChangeIndexModel :: "mn_ChangeIndexModelResponse \<Rightarrow> jout" where
  "enc_ChangeIndexModel r = OObj [(''indexArn'', OStr (mcmr_IndexARN r)),
     (''indexModel'', OStr (mcmr_IndexModel r)), (''state'', OStr (mcmr_State r))]"

definition float32_zero :: "float32 \<Rightarrow> bool" where
  "float32_zero f \<longleftrightarrow> f = 0 \<or> f = push_bit 31 1"

definition enc_result :: "mn_QueryResultVector \<Rightarrow> jout" where
  "enc_result v = OObj ((''key'', OStr (mqr_Key v)) #
     (if float32_zero (mqr_Distance v) then [] else [(''distance'', OFloat32 (mqr_Distance v))]) @
     (if mqr_Metadata v = [] then [] else [(''metadata'', ORaw (mqr_Metadata v))]))"

definition enc_QueryVectors :: "mn_QueryVectorsResponse \<Rightarrow> jout" where
  "enc_QueryVectors r = OObj [(''distanceMetric'', OStr (mqvr_DistanceMetric r)),
     (''vectors'', OArr (map enc_result (mqvr_Vectors r)))]"

definition enc_error :: "VectorAPIError \<Rightarrow> jout" where
  "enc_error e = OObj [(''code'', OStr (vae_Code e)), (''message'', OStr (vae_Message e))]"

section \<open>The handlers\<close>

record http_request =
  hr_Method :: string
  hr_Path :: string
  hr_Header :: "(string \<times> string list) list"
  hr_Body :: bytes

record http_response =
  rs_Status :: int
  rs_Header :: "(string \<times> string) list"
  rs_Body :: bytes

text \<open>\<open>Header.Get\<close>: the first value of the key in canonical form, in which the server stores it.\<close>

definition Header_Get :: "(string \<times> string list) list \<Rightarrow> string \<Rightarrow> string" where
  "Header_Get h key = (case map_of h key of Some (v # _) \<Rightarrow> v | _ \<Rightarrow> [])"

definition vectorAPIDefaultRegion :: string where
  "vectorAPIDefaultRegion = ''us-east-1''"

definition vectorAPIMaxRequestBodySize :: nat where
  "vectorAPIMaxRequestBodySize = 20 * 2 ^ 20"

text \<open>\<open>globalServerRegion\<close> is a parameter.\<close>

definition vectorRequestContext :: "string \<Rightarrow> http_request \<Rightarrow> mn_RequestContext" where
  "vectorRequestContext globalServerRegion r =
     (let region = (if globalServerRegion = [] then vectorAPIDefaultRegion else globalServerRegion)
      in \<lparr>mrc_AccountID = Header_Get (hr_Header r) ''X-Amz-Account-Id'', mrc_Region = region,
          mrc_RequestID = Header_Get (hr_Header r) ''X-Amz-Request-Id'', mrc_Headers = hr_Header r\<rparr>)"

definition decodeVectorRequest :: "json_codec \<Rightarrow> string \<Rightarrow> 'r fields \<Rightarrow> 'r \<Rightarrow> http_request \<Rightarrow> goerr + 'r" where
  "decodeVectorRequest J ty fs zero r =
     (case jc_Decode J (take vectorAPIMaxRequestBodySize (hr_Body r)) of
        Inl e \<Rightarrow> Inl e
      | Inr v \<Rightarrow> dec_struct J ty fs v zero)"

definition mk_vector_error :: "string \<Rightarrow> string \<Rightarrow> int \<Rightarrow> VectorAPIError" where
  "mk_vector_error c m s = \<lparr>vae_Code = c, vae_Message = m, vae_Status = s, vae_RetryAfter = 0\<rparr>"

text \<open>\<open>writeResponse\<close> with the type JSON, or without a body.\<close>

definition writeResponse :: "int \<Rightarrow> bytes \<Rightarrow> (string \<times> string) list \<Rightarrow> http_response" where
  "writeResponse status data hs = \<lparr>rs_Status = status,
     rs_Header = hs @ [(''Content-Type'', ''application/json''), (''Content-Length'', Itoa (int (length data)))],
     rs_Body = data\<rparr>"

definition writeSuccessNoContent :: http_response where
  "writeSuccessNoContent = \<lparr>rs_Status = 204, rs_Header = [(''Content-Length'', ''0'')], rs_Body = []\<rparr>"

definition writeVectorError :: "json_codec \<Rightarrow> mn_error \<Rightarrow> http_response" where
  "writeVectorError J err =
     (let apiErr0 = (case err of VectorError e \<Rightarrow> e
            | OtherError e \<Rightarrow> mk_vector_error ''InternalServerException'' (Error e) 500);
          apiErr = (if vae_Status apiErr0 = 0 then apiErr0\<lparr>vae_Status := 500\<rparr> else apiErr0);
          hs = (if vae_RetryAfter apiErr > 0 then [(''Retry-After'', ''5'')] else [])
      in case jc_Marshal J (enc_error apiErr) of
           Inr data \<Rightarrow> writeResponse (vae_Status apiErr) data hs
         | Inl e \<Rightarrow> writeResponse 500
             (case jc_Marshal J (enc_error (mk_vector_error ''InternalServerException'' (Error e) 500)) of
                Inr data \<Rightarrow> data | Inl _ \<Rightarrow> []) hs)"

text \<open>\<open>None\<close> is the \<open>nil\<close> of the calls without a response.\<close>

definition writeVectorSuccess :: "json_codec \<Rightarrow> jout option \<Rightarrow> http_response" where
  "writeVectorSuccess J resp = (case resp of
     None \<Rightarrow> writeSuccessNoContent
   | Some t \<Rightarrow> (case jc_Marshal J t of
       Inl e \<Rightarrow> writeVectorError J (VectorError (mk_vector_error ''InternalServerException'' (Error e) 500))
     | Inr data \<Rightarrow> writeResponse 200 data []))"

definition not_configured :: VectorAPIError where
  "not_configured = mk_vector_error ''NotImplementedException'' ''vector bucket api is not configured'' 501"

text \<open>The body the ten handlers share: \<open>ext\<close> is what \<open>vectorAPI()\<close> returns, \<open>None\<close> when the
  object layer is not ready or has no vector API.\<close>

definition handle ::
  "json_codec \<Rightarrow> string \<Rightarrow> 's VectorAPI option \<Rightarrow> string \<Rightarrow> 'r fields \<Rightarrow> 'r \<Rightarrow> (mn_RequestContext \<Rightarrow> 'r \<Rightarrow> 'r) \<Rightarrow>
   ('s VectorAPI \<Rightarrow> 'r \<Rightarrow> ('s, 'a) mn_call) \<Rightarrow> ('a \<Rightarrow> jout option) \<Rightarrow> http_request \<Rightarrow> 's \<Rightarrow> http_response \<times> 's" where
  "handle J region ext ty fs zero set_ctx call enc r s =
     (case ext of
        None \<Rightarrow> (writeVectorError J (VectorError not_configured), s)
      | Some api \<Rightarrow> (case decodeVectorRequest J ty fs zero r of
          Inl e \<Rightarrow> (writeVectorError J (VectorError (mk_vector_error ''ValidationException'' (Error e) 400)), s)
        | Inr req \<Rightarrow> (case call api (set_ctx (vectorRequestContext region r) req) s of
            (Inl e, s') \<Rightarrow> (writeVectorError J e, s')
          | (Inr a, s') \<Rightarrow> (writeVectorSuccess J (enc a), s'))))"

definition CreateVectorBucketHandler where
  "CreateVectorBucketHandler J region ext = handle J region ext ''CreateVectorBucketRequest''
     (CreateVectorBucket_fields J) zero_CreateVectorBucket (\<lambda>c. mcb_Ctx_update (\<lambda>_. c))
     va_CreateVectorBucket (\<lambda>a. Some (enc_CreateVectorBucket a))"

definition GetVectorBucketHandler where
  "GetVectorBucketHandler J region ext = handle J region ext ''GetVectorBucketRequest''
     (GetVectorBucket_fields J) zero_GetVectorBucket (\<lambda>c. mgb_Ctx_update (\<lambda>_. c))
     va_GetVectorBucket (\<lambda>a. Some (enc_GetVectorBucket a))"

definition ListVectorBucketsHandler where
  "ListVectorBucketsHandler J region ext = handle J region ext ''ListVectorBucketsRequest''
     (ListVectorBuckets_fields J) zero_ListVectorBuckets (\<lambda>c. mlb_Ctx_update (\<lambda>_. c))
     va_ListVectorBuckets (\<lambda>a. Some (enc_ListVectorBuckets a))"

definition DeleteVectorBucketHandler where
  "DeleteVectorBucketHandler J region ext = handle J region ext ''DeleteVectorBucketRequest''
     (DeleteVectorBucket_fields J) zero_DeleteVectorBucket (\<lambda>c. mdb_Ctx_update (\<lambda>_. c))
     va_DeleteVectorBucket (\<lambda>_. None)"

definition CreateIndexHandler where
  "CreateIndexHandler J region ext = handle J region ext ''CreateIndexRequest''
     (CreateIndex_fields J) zero_CreateIndex (\<lambda>c. mci_Ctx_update (\<lambda>_. c))
     va_CreateIndex (\<lambda>a. Some (enc_CreateIndex a))"

definition DeleteIndexHandler where
  "DeleteIndexHandler J region ext = handle J region ext ''DeleteIndexRequest''
     (DeleteIndex_fields J) zero_DeleteIndex (\<lambda>c. mdi_Ctx_update (\<lambda>_. c))
     va_DeleteIndex (\<lambda>_. None)"

definition ChangeIndexModelHandler where
  "ChangeIndexModelHandler J region ext = handle J region ext ''ChangeIndexModelRequest''
     (ChangeIndexModel_fields J) zero_ChangeIndexModel (\<lambda>c. mcm_Ctx_update (\<lambda>_. c))
     va_ChangeIndexModel (\<lambda>a. Some (enc_ChangeIndexModel a))"

definition PutVectorsHandler where
  "PutVectorsHandler J region ext = handle J region ext ''PutVectorsRequest''
     (PutVectors_fields J) zero_PutVectors (\<lambda>c. mpv_Ctx_update (\<lambda>_. c))
     va_PutVectors (\<lambda>_. None)"

definition DeleteVectorsHandler where
  "DeleteVectorsHandler J region ext = handle J region ext ''DeleteVectorsRequest''
     (DeleteVectors_fields J) zero_DeleteVectors (\<lambda>c. mdv_Ctx_update (\<lambda>_. c))
     va_DeleteVectors (\<lambda>_. None)"

definition QueryVectorsHandler where
  "QueryVectorsHandler J region ext = handle J region ext ''QueryVectorsRequest''
     (QueryVectors_fields J) zero_QueryVectors (\<lambda>c. mqv_Ctx_update (\<lambda>_. c))
     va_QueryVectors (\<lambda>a. Some (enc_QueryVectors a))"

text \<open>The routes of \<open>registerAPIRouter\<close>, tried in order before those of the buckets.\<close>

definition vector_routes where
  "vector_routes J region ext =
     [(''/CreateVectorBucket'', CreateVectorBucketHandler J region ext),
      (''/GetVectorBucket'', GetVectorBucketHandler J region ext),
      (''/ListVectorBuckets'', ListVectorBucketsHandler J region ext),
      (''/DeleteVectorBucket'', DeleteVectorBucketHandler J region ext),
      (''/CreateIndex'', CreateIndexHandler J region ext),
      (''/DeleteIndex'', DeleteIndexHandler J region ext),
      (''/ChangeIndexModel'', ChangeIndexModelHandler J region ext),
      (''/PutVectors'', PutVectorsHandler J region ext),
      (''/DeleteVectors'', DeleteVectorsHandler J region ext),
      (''/QueryVectors'', QueryVectorsHandler J region ext)]"

definition route_vector where
  "route_vector J region ext r =
     (if hr_Method r = ''POST'' then map_of (vector_routes J region ext) (hr_Path r) else None)"

section \<open>Decoding what a client encodes\<close>

text \<open>The body of a put as a client writes it: the names, then the vectors with their number literals and
  the raw text of the metadata.\<close>

definition vector_tree :: "(float32 \<Rightarrow> string) \<Rightarrow> (bytes \<Rightarrow> json) \<Rightarrow> mn_PutInputVector \<Rightarrow> jval" where
  "vector_tree lit meta v = Jval [] (JObj
     [(''key'', Jval [] (JStr (mpi_Key v))),
      (''data'', Jval [] (JObj [(''float32'', Jval [] (JArr (map (\<lambda>f. Jval [] (JNum (lit f))) (mvd_Float32 (mpi_Data v)))))])),
      (''metadata'', Jval (mpi_Metadata v) (meta (mpi_Metadata v)))])"

definition put_tree :: "(float32 \<Rightarrow> string) \<Rightarrow> (bytes \<Rightarrow> json) \<Rightarrow> string \<Rightarrow> string \<Rightarrow> mn_PutInputVector list \<Rightarrow> jval" where
  "put_tree lit meta bucket index vs = Jval [] (JObj
     [(''vectorBucketName'', Jval [] (JStr bucket)), (''indexName'', Jval [] (JStr index)),
      (''vectors'', Jval [] (JArr (map (vector_tree lit meta) vs)))])"

lemma dec_elems_map:
  "(\<And>x. d (enc x) zero = Inr x) \<Longrightarrow> dec_elems d zero (map enc xs) [] = Inr xs"
  by (induction xs) simp_all

lemma dec_vector_tree:
  assumes "\<And>f. jc_ParseFloat32 J (lit f) = Some f"
  shows "dec_put_input_vector J (vector_tree lit meta v) zero_put_vector = Inr v"
proof -
  have "dec_elems (dec_float32 J) 0 (map (\<lambda>f. Jval [] (JNum (lit f))) fs) [] = Inr fs" for fs
    by (rule dec_elems_map) (simp add: assms)
  then show ?thesis
    by (simp add: vector_tree_def dec_put_input_vector_def dec_vector_data_def zero_put_vector_def
        find_field_def field_def)
qed

text \<open>A put arrives as it was sent: when the number literals read back and the body fits into the limit,
  decoding the body of a client gives the names and all vectors, in order and with the raw text of
  their metadata.\<close>

lemma put_body_decodes:
  assumes "\<And>f. jc_ParseFloat32 J (lit f) = Some f"
    and "length (hr_Body r) \<le> vectorAPIMaxRequestBodySize"
    and "jc_Decode J (hr_Body r) = Inr (put_tree lit meta bucket index vs)"
  shows "decodeVectorRequest J ty (PutVectors_fields J) zero_PutVectors r =
    Inr \<lparr>mpv_Ctx = zero_context, mpv_Target = \<lparr>mt_VectorBucketName = bucket, mt_VectorBucketARN = [],
           mt_IndexName = index, mt_IndexARN = []\<rparr>, mpv_Vectors = vs\<rparr>"
proof -
  have "dec_elems (dec_put_input_vector J) zero_put_vector (map (vector_tree lit meta) vs) [] = Inr vs"
    by (rule dec_elems_map) (rule dec_vector_tree [OF assms(1)])
  then show ?thesis
    using assms(2,3)
    by (simp add: decodeVectorRequest_def put_tree_def PutVectors_fields_def embed_def Target_fields_def
        zero_PutVectors_def zero_target_def find_field_def field_def)
qed

end
