(* ===== verification/VB_Store.thy ===== *)
theory VB_Store
  imports Go_Effects "HOL-Library.Char_ord" "HOL-Library.List_Lexorder" "HOL-Library.Product_Lexorder"
begin

text \<open>
  The metadata store (pkg/gateway/vectorbucket/metadata): its rows (models.go), and one
  operation per method of \<open>SQLiteStore\<close> (sqlite_store.go). The two tables are lists of rows in
  the order of insertion; the constraints of the schema (primary keys, the two UNIQUE
  constraints, the foreign key with ON DELETE CASCADE, enforced by \<open>foreign_keys(1)\<close>) are
  checked where a statement can violate them. A nullable time column is read and written
  as the zero time. The engine may fail any statement (I/O, a busy lock, a cancelled context):
  \<open>outcomes\<close> is the sequence of its answers, one per statement, \<open>None\<close> when the statement
  runs; a statement that fails changes no row. \<open>now\<close> is the value of \<open>time.Now().UTC()\<close>.
\<close>

section \<open>Rows\<close>

datatype BucketStatus = BucketStatusReady | BucketStatusDeleting | BucketStatusDeleted

datatype CollectionStatus =
  CollStatusInit | CollStatusReady | CollStatusDeleting | CollStatusDeleted

text \<open>The strings the two types stand for.\<close>

fun bucket_status_text :: "BucketStatus \<Rightarrow> string" where
  "bucket_status_text BucketStatusReady = ''READY''"
| "bucket_status_text BucketStatusDeleting = ''DELETING''"
| "bucket_status_text BucketStatusDeleted = ''DELETED''"

fun coll_status_text :: "CollectionStatus \<Rightarrow> string" where
  "coll_status_text CollStatusInit = ''INIT''"
| "coll_status_text CollStatusReady = ''READY''"
| "coll_status_text CollStatusDeleting = ''DELETING''"
| "coll_status_text CollStatusDeleted = ''DELETED''"

record Bucket =
  b_ID :: string
  b_Name :: string
  b_Owner :: string
  b_Status :: BucketStatus
  b_CreatedAt :: time
  b_UpdatedAt :: time

record LogicalCollection =
  c_ID :: string
  c_BucketID :: string
  c_Name :: string
  c_Dim :: int
  c_Metric :: string
  c_IndexType :: string
  c_Tier :: string
  c_MaxVectors :: int
  c_Pinned :: bool
  c_Status :: CollectionStatus
  c_PhysicalName :: string
  c_IndexBuilt :: bool
  c_VectorCount :: int
  c_EstMemMB :: rat
  c_LastAccessAt :: time
  c_MigrateState :: string
  c_TargetIndexType :: string
  c_SourcePhysicalName :: string
  c_TargetPhysicalName :: string
  c_MaintenanceSince :: time
  c_LastMigrateError :: string
  c_CreatedAt :: time
  c_UpdatedAt :: time

record sqlite =
  buckets :: "Bucket list"
  collections :: "LogicalCollection list"
  outcomes :: "goerr option stream"

section \<open>Statements\<close>

definition statement :: "(sqlite, 'a) op \<Rightarrow> (sqlite, 'a) op" where
  "statement f db =
     (let db' = db\<lparr>outcomes := stl (outcomes db)\<rparr>
      in case shd (outcomes db) of Some e \<Rightarrow> (Inl e, db') | None \<Rightarrow> f db')"

definition constraint_error :: goerr where
  "constraint_error = New ''constraint failed''"

text \<open>\<open>QueryRowContext(...).Scan\<close>: the row, or \<open>sql.ErrNoRows\<close>.\<close>

definition scan_row :: "'r option \<Rightarrow> 'r result" where
  "scan_row r = (case r of Some x \<Rightarrow> Inr x | None \<Rightarrow> Inl (Sentinel ErrNoRows))"

definition update_where :: "('r \<Rightarrow> bool) \<Rightarrow> ('r \<Rightarrow> 'r) \<Rightarrow> 'r list \<Rightarrow> 'r list" where
  "update_where p f rows = map (\<lambda>r. if p r then f r else r) rows"

definition update_coll ::
  "string \<Rightarrow> (LogicalCollection \<Rightarrow> LogicalCollection) \<Rightarrow> (sqlite, unit) op" where
  "update_coll rid f = statement (modify (\<lambda>db. db\<lparr>collections :=
     update_where (\<lambda>r. c_ID r = rid) f (collections db)\<rparr>))"

section \<open>Buckets\<close>

definition CreateBucket :: "time \<Rightarrow> Bucket \<Rightarrow> (sqlite, unit) op" where
  "CreateBucket now b = statement (\<lambda>db.
     let createdAt = (if IsZero (b_CreatedAt b) then now else b_CreatedAt b);
         updatedAt = (if IsZero (b_UpdatedAt b) then now else b_UpdatedAt b)
     in if list_ex (\<lambda>r. b_ID r = b_ID b \<or> b_Name r = b_Name b) (buckets db)
        then (Inl constraint_error, db)
        else (Inr (), db\<lparr>buckets := buckets db @
                [b\<lparr>b_CreatedAt := createdAt, b_UpdatedAt := updatedAt\<rparr>]\<rparr>))"

definition GetBucket :: "string \<Rightarrow> (sqlite, Bucket) op" where
  "GetBucket rid = statement (\<lambda>db. (scan_row (List.find (\<lambda>r. b_ID r = rid) (buckets db)), db))"

definition GetBucketByName :: "string \<Rightarrow> (sqlite, Bucket) op" where
  "GetBucketByName name =
     statement (\<lambda>db. (scan_row (List.find (\<lambda>r. b_Name r = name) (buckets db)), db))"

definition ListBuckets :: "(sqlite, Bucket list) op" where
  "ListBuckets = statement (gets (\<lambda>db.
     sort_key (\<lambda>r. (b_CreatedAt r, b_ID r))
       (filter (\<lambda>r. b_Status r \<noteq> BucketStatusDeleted) (buckets db))))"

definition UpdateBucketStatus :: "time \<Rightarrow> string \<Rightarrow> BucketStatus \<Rightarrow> (sqlite, unit) op" where
  "UpdateBucketStatus now rid status = statement (modify (\<lambda>db. db\<lparr>buckets :=
     update_where (\<lambda>r. b_ID r = rid) (\<lambda>r. r\<lparr>b_Status := status, b_UpdatedAt := now\<rparr>)
       (buckets db)\<rparr>))"

definition DeleteBucket :: "string \<Rightarrow> (sqlite, unit) op" where
  "DeleteBucket rid = statement (modify (\<lambda>db. db\<lparr>
     buckets := filter (\<lambda>r. b_ID r \<noteq> rid) (buckets db),
     collections := filter (\<lambda>c. c_BucketID c \<noteq> rid) (collections db)\<rparr>))"

definition CountBuckets :: "(sqlite, int) op" where
  "CountBuckets = statement (gets (\<lambda>db.
     int (length (filter (\<lambda>r. b_Status r \<noteq> BucketStatusDeleted) (buckets db)))))"

definition CountBucketsByOwner :: "string \<Rightarrow> (sqlite, int) op" where
  "CountBucketsByOwner owner = statement (gets (\<lambda>db.
     int (length (filter (\<lambda>r. b_Owner r = owner \<and> b_Status r \<noteq> BucketStatusDeleted)
       (buckets db)))))"

section \<open>Collections\<close>

definition CreateCollection :: "time \<Rightarrow> LogicalCollection \<Rightarrow> (sqlite, unit) op" where
  "CreateCollection now c = statement (\<lambda>db.
     let createdAt = (if IsZero (c_CreatedAt c) then now else c_CreatedAt c);
         updatedAt = (if IsZero (c_UpdatedAt c) then now else c_UpdatedAt c)
     in if list_ex (\<lambda>r. c_ID r = c_ID c \<or> (c_BucketID r = c_BucketID c \<and> c_Name r = c_Name c))
             (collections db)
           \<or> \<not> list_ex (\<lambda>b. b_ID b = c_BucketID c) (buckets db)
        then (Inl constraint_error, db)
        else (Inr (), db\<lparr>collections := collections db @
                [c\<lparr>c_CreatedAt := createdAt, c_UpdatedAt := updatedAt\<rparr>]\<rparr>))"

definition GetCollection :: "string \<Rightarrow> string \<Rightarrow> (sqlite, LogicalCollection) op" where
  "GetCollection bucketID name = statement (\<lambda>db. (scan_row
     (List.find (\<lambda>r. c_BucketID r = bucketID \<and> c_Name r = name \<and> c_Status r \<noteq> CollStatusDeleted)
       (collections db)), db))"

definition GetCollectionByID :: "string \<Rightarrow> (sqlite, LogicalCollection) op" where
  "GetCollectionByID rid =
     statement (\<lambda>db. (scan_row (List.find (\<lambda>r. c_ID r = rid) (collections db)), db))"

definition ListCollections :: "string \<Rightarrow> (sqlite, LogicalCollection list) op" where
  "ListCollections bucketID = statement (gets (\<lambda>db.
     sort_key (\<lambda>r. (c_CreatedAt r, c_ID r))
       (filter (\<lambda>r. c_BucketID r = bucketID \<and> c_Status r \<noteq> CollStatusDeleted)
         (collections db))))"

definition UpdateCollectionStatus :: "time \<Rightarrow> string \<Rightarrow> CollectionStatus \<Rightarrow> (sqlite, unit) op" where
  "UpdateCollectionStatus now rid status =
     update_coll rid (\<lambda>r. r\<lparr>c_Status := status, c_UpdatedAt := now\<rparr>)"

definition UpdateCollectionIndexBuilt :: "time \<Rightarrow> string \<Rightarrow> bool \<Rightarrow> (sqlite, unit) op" where
  "UpdateCollectionIndexBuilt now rid built =
     update_coll rid (\<lambda>r. r\<lparr>c_IndexBuilt := built, c_UpdatedAt := now\<rparr>)"

text \<open>The count is an integer without bound; SQLite keeps 64 bits, which counts of vectors do not reach.\<close>

definition UpdateCollectionVectorCount :: "time \<Rightarrow> string \<Rightarrow> int \<Rightarrow> (sqlite, unit) op" where
  "UpdateCollectionVectorCount now rid delta =
     update_coll rid (\<lambda>r. r\<lparr>c_VectorCount := c_VectorCount r + delta, c_UpdatedAt := now\<rparr>)"

definition UpdateCollectionLastAccess :: "time \<Rightarrow> string \<Rightarrow> (sqlite, unit) op" where
  "UpdateCollectionLastAccess now rid =
     update_coll rid (\<lambda>r. r\<lparr>c_LastAccessAt := now, c_UpdatedAt := now\<rparr>)"

definition UpdateCollectionMigrationState ::
  "time \<Rightarrow> string \<Rightarrow> string \<Rightarrow> string \<Rightarrow> string \<Rightarrow> string \<Rightarrow> time \<Rightarrow> string \<Rightarrow> (sqlite, unit) op" where
  "UpdateCollectionMigrationState now rid state targetIndexType sourcePhysical targetPhysical
     maintenanceSince lastErr =
     update_coll rid (\<lambda>r. r\<lparr>c_MigrateState := state, c_TargetIndexType := targetIndexType,
       c_SourcePhysicalName := sourcePhysical, c_TargetPhysicalName := targetPhysical,
       c_MaintenanceSince := maintenanceSince, c_LastMigrateError := lastErr,
       c_UpdatedAt := now\<rparr>)"

definition SwitchCollectionPhysical ::
  "time \<Rightarrow> string \<Rightarrow> string \<Rightarrow> string \<Rightarrow> string \<Rightarrow> string \<Rightarrow> bool \<Rightarrow> int \<Rightarrow> (sqlite, unit) op" where
  "SwitchCollectionPhysical now rid oldPhysical newPhysical newIndexType newTier newPinned
     newMaxVectors = statement (\<lambda>db.
     let hit = (\<lambda>r. c_ID r = rid \<and> c_PhysicalName r = oldPhysical);
         affected = length (filter hit (collections db));
         db' = db\<lparr>collections := update_where hit
           (\<lambda>r. r\<lparr>c_PhysicalName := newPhysical, c_IndexType := newIndexType, c_Tier := newTier,
             c_Pinned := newPinned, c_MaxVectors := newMaxVectors, c_MigrateState := '''',
             c_TargetIndexType := '''', c_SourcePhysicalName := '''', c_TargetPhysicalName := '''',
             c_MaintenanceSince := 0, c_LastMigrateError := '''', c_UpdatedAt := now\<rparr>)
           (collections db)\<rparr>
     in if affected = 0 then (Inl (Sentinel ErrNoRows), db') else (Inr (), db'))"

definition ListCollectionsInMigration :: "(sqlite, LogicalCollection list) op" where
  "ListCollectionsInMigration = statement (gets (\<lambda>db.
     sort_key (\<lambda>r. (c_UpdatedAt r, c_ID r)) (filter (\<lambda>r. c_MigrateState r \<noteq> '''') (collections db))))"

definition DeleteCollection :: "string \<Rightarrow> (sqlite, unit) op" where
  "DeleteCollection rid = statement (modify (\<lambda>db. db\<lparr>collections :=
     filter (\<lambda>r. c_ID r \<noteq> rid) (collections db)\<rparr>))"

definition CountCollections :: "string \<Rightarrow> (sqlite, int) op" where
  "CountCollections bucketID = statement (gets (\<lambda>db.
     int (length (filter (\<lambda>r. c_BucketID r = bucketID \<and> c_Status r \<noteq> CollStatusDeleted)
       (collections db)))))"

lemmas store_defs = CreateBucket_def GetBucket_def GetBucketByName_def ListBuckets_def
  UpdateBucketStatus_def DeleteBucket_def CountBuckets_def CountBucketsByOwner_def
  CreateCollection_def GetCollection_def GetCollectionByID_def ListCollections_def
  UpdateCollectionStatus_def UpdateCollectionIndexBuilt_def UpdateCollectionVectorCount_def
  UpdateCollectionLastAccess_def UpdateCollectionMigrationState_def
  SwitchCollectionPhysical_def ListCollectionsInMigration_def DeleteCollection_def
  CountCollections_def update_coll_def

section \<open>The constraints of the schema as an invariant\<close>

definition store_ok :: "sqlite \<Rightarrow> bool" where
  "store_ok db \<longleftrightarrow>
     distinct (map b_ID (buckets db)) \<and> distinct (map b_Name (buckets db)) \<and>
     distinct (map c_ID (collections db)) \<and>
     distinct (map (\<lambda>c. (c_BucketID c, c_Name c)) (collections db)) \<and>
     c_BucketID ` set (collections db) \<subseteq> b_ID ` set (buckets db)"

lemma store_ok_outcomes [simp]: "store_ok (db\<lparr>outcomes := os\<rparr>) = store_ok db"
  by (simp add: store_ok_def)

lemma keeps_statement:
  assumes "keeps store_ok f"
  shows "keeps store_ok (statement f)"
  by (rule keepsI) (use assms in \<open>auto simp: statement_def Let_def keeps_iff split: option.splits\<close>)

lemma map_update_where:
  "(\<And>r. k (f r) = k r) \<Longrightarrow> map k (update_where p f rows) = map k rows"
  by (simp add: update_where_def)

lemma image_update_where:
  "(\<And>r. k (f r) = k r) \<Longrightarrow> k ` set (update_where p f rows) = k ` set rows"
  by (metis list.set_map map_update_where)

lemma distinct_map_filter [simp]: "distinct (map k xs) \<Longrightarrow> distinct (map k (filter p xs))"
  by (induction xs) auto

lemma keeps_update_coll [keeps_rules]:
  assumes "\<And>r. c_ID (f r) = c_ID r" "\<And>r. c_BucketID (f r) = c_BucketID r"
    "\<And>r. c_Name (f r) = c_Name r"
  shows "keeps store_ok (update_coll rid f)"
  unfolding update_coll_def using assms
  by (intro keeps_statement keeps_modify)
     (simp add: store_ok_def map_update_where image_update_where)

lemma store_ok_add_bucket:
  assumes "store_ok db" and "\<not> list_ex (\<lambda>r. b_ID r = b_ID b \<or> b_Name r = b_Name b) (buckets db)"
  shows "store_ok (db\<lparr>buckets := buckets db @ [b\<lparr>b_CreatedAt := t, b_UpdatedAt := u\<rparr>]\<rparr>)"
proof -
  have "b_ID b \<notin> b_ID ` set (buckets db)" "b_Name b \<notin> b_Name ` set (buckets db)"
    using assms(2) by (auto simp: list_ex_iff)
  with assms(1) show ?thesis by (auto simp: store_ok_def)
qed

lemma store_ok_add_coll:
  assumes "store_ok db"
    and "\<not> list_ex (\<lambda>r. c_ID r = c_ID c \<or> (c_BucketID r = c_BucketID c \<and> c_Name r = c_Name c))
           (collections db)"
    and "list_ex (\<lambda>b. b_ID b = c_BucketID c) (buckets db)"
  shows "store_ok (db\<lparr>collections := collections db @ [c\<lparr>c_CreatedAt := t, c_UpdatedAt := u\<rparr>]\<rparr>)"
proof -
  have "c_ID c \<notin> c_ID ` set (collections db)"
    "(c_BucketID c, c_Name c) \<notin> (\<lambda>c. (c_BucketID c, c_Name c)) ` set (collections db)"
    using assms(2) by (auto simp: list_ex_iff)
  moreover have "c_BucketID c \<in> b_ID ` set (buckets db)"
    using assms(3) by (force simp: list_ex_iff)
  ultimately show ?thesis using assms(1) by (auto simp: store_ok_def)
qed

lemma keeps_CreateBucket [keeps_rules]: "keeps store_ok (CreateBucket now b)"
  unfolding CreateBucket_def Let_def
  by (intro keeps_statement keepsI) (simp add: store_ok_add_bucket)

lemma keeps_CreateCollection [keeps_rules]: "keeps store_ok (CreateCollection now c)"
  unfolding CreateCollection_def Let_def
  by (intro keeps_statement keepsI) (simp add: store_ok_add_coll)

lemma keeps_DeleteBucket [keeps_rules]: "keeps store_ok (DeleteBucket rid)"
  unfolding DeleteBucket_def
  by (intro keeps_statement keeps_modify) (auto simp: store_ok_def)

lemma keeps_DeleteCollection [keeps_rules]: "keeps store_ok (DeleteCollection rid)"
  unfolding DeleteCollection_def
  by (intro keeps_statement keeps_modify) (auto simp: store_ok_def)

lemma keeps_SwitchCollectionPhysical [keeps_rules]:
  "keeps store_ok (SwitchCollectionPhysical now rid op np it t p mv)"
  unfolding SwitchCollectionPhysical_def
  by (intro keeps_statement keepsI)
     (simp add: store_ok_def Let_def map_update_where image_update_where)

lemma keeps_UpdateBucketStatus [keeps_rules]: "keeps store_ok (UpdateBucketStatus now rid st)"
  unfolding UpdateBucketStatus_def
  by (intro keeps_statement keeps_modify)
     (simp add: store_ok_def map_update_where image_update_where)

lemma keeps_coll_updates [keeps_rules]:
  "keeps store_ok (UpdateCollectionStatus now rid st)"
  "keeps store_ok (UpdateCollectionIndexBuilt now rid built)"
  "keeps store_ok (UpdateCollectionVectorCount now rid delta)"
  "keeps store_ok (UpdateCollectionLastAccess now rid)"
  "keeps store_ok (UpdateCollectionMigrationState now rid s ti sp tp ms le)"
  unfolding UpdateCollectionStatus_def UpdateCollectionIndexBuilt_def
    UpdateCollectionVectorCount_def UpdateCollectionLastAccess_def
    UpdateCollectionMigrationState_def
  by (intro keeps_update_coll; simp)+

lemma keeps_reads [keeps_rules]:
  "keeps store_ok (GetBucket i)" "keeps store_ok (GetBucketByName n)" "keeps store_ok ListBuckets"
  "keeps store_ok CountBuckets" "keeps store_ok (CountBucketsByOwner ow)"
  "keeps store_ok (GetCollection bid n)" "keeps store_ok (GetCollectionByID i)"
  "keeps store_ok (ListCollections bid)" "keeps store_ok ListCollectionsInMigration"
  "keeps store_ok (CountCollections bid)"
  unfolding GetBucket_def GetBucketByName_def ListBuckets_def CountBuckets_def
    CountBucketsByOwner_def GetCollection_def GetCollectionByID_def ListCollections_def
    ListCollectionsInMigration_def CountCollections_def
  by (intro keeps_statement keepsI; simp add: gets_def)+

section \<open>The methods of the store as commands\<close>

text \<open>One constructor per method of the \<open>Store\<close> interface that writes (store.go).\<close>

datatype store_cmd =
    CmdCreateBucket Bucket
  | CmdUpdateBucketStatus string BucketStatus
  | CmdDeleteBucket string
  | CmdCreateCollection LogicalCollection
  | CmdUpdateCollectionStatus string CollectionStatus
  | CmdUpdateCollectionIndexBuilt string bool
  | CmdUpdateCollectionVectorCount string int
  | CmdUpdateCollectionLastAccess string
  | CmdUpdateCollectionMigrationState string string string string string time string
  | CmdSwitchCollectionPhysical string string string string string bool int
  | CmdDeleteCollection string

fun run_cmd :: "time \<Rightarrow> store_cmd \<Rightarrow> (sqlite, unit) op" where
  "run_cmd now (CmdCreateBucket b) = CreateBucket now b"
| "run_cmd now (CmdUpdateBucketStatus i st) = UpdateBucketStatus now i st"
| "run_cmd now (CmdDeleteBucket i) = DeleteBucket i"
| "run_cmd now (CmdCreateCollection c) = CreateCollection now c"
| "run_cmd now (CmdUpdateCollectionStatus i st) = UpdateCollectionStatus now i st"
| "run_cmd now (CmdUpdateCollectionIndexBuilt i b) = UpdateCollectionIndexBuilt now i b"
| "run_cmd now (CmdUpdateCollectionVectorCount i d) = UpdateCollectionVectorCount now i d"
| "run_cmd now (CmdUpdateCollectionLastAccess i) = UpdateCollectionLastAccess now i"
| "run_cmd now (CmdUpdateCollectionMigrationState i s ti sp tp ms le) =
     UpdateCollectionMigrationState now i s ti sp tp ms le"
| "run_cmd now (CmdSwitchCollectionPhysical i ol nw it ti pn mv) =
     SwitchCollectionPhysical now i ol nw it ti pn mv"
| "run_cmd now (CmdDeleteCollection i) = DeleteCollection i"

fun run_cmds :: "(time \<times> store_cmd) list \<Rightarrow> sqlite \<Rightarrow> sqlite" where
  "run_cmds [] db = db"
| "run_cmds ((now, c) # cs) db = run_cmds cs (snd (run_cmd now c db))"

lemma keeps_run_cmd: "keeps store_ok (run_cmd now c)"
  by (cases c) (simp_all add: keeps_rules)

section \<open>The collections as a map from ids to rows\<close>

definition coll_map :: "sqlite \<Rightarrow> string \<rightharpoonup> LogicalCollection" where
  "coll_map db = (\<lambda>i. List.find (\<lambda>r. c_ID r = i) (collections db))"

text \<open>What the services rely on: an update or a deletion changes one entry of the map when the
  statement ran and nothing when it failed; a lookup returns the entry.\<close>

locale collection_store =
  fixes inv :: "'s \<Rightarrow> bool"
    and view :: "'s \<Rightarrow> string \<rightharpoonup> LogicalCollection"
    and add :: "LogicalCollection \<Rightarrow> ('s, unit) op"
    and upd :: "string \<Rightarrow> (LogicalCollection \<Rightarrow> LogicalCollection) \<Rightarrow> ('s, unit) op"
    and del :: "string \<Rightarrow> ('s, unit) op"
    and get :: "string \<Rightarrow> ('s, LogicalCollection) op"
  assumes add_ok: "inv s \<Longrightarrow> add c s = (Inr (), s') \<Longrightarrow>
      view s (c_ID c) = None \<and> (\<exists>c'. c_ID c' = c_ID c \<and> view s' = (view s)(c_ID c \<mapsto> c'))"
    and upd_ok: "(\<And>r. c_ID (f r) = c_ID r) \<Longrightarrow> upd i f s = (Inr (), s') \<Longrightarrow>
      view s' = (view s)(i := map_option f (view s i))"
    and del_ok: "del i s = (Inr (), s') \<Longrightarrow> view s' = (view s)(i := None)"
    and get_ok: "get i s = (Inr c, s') \<Longrightarrow> view s i = Some c \<and> view s' = view s"
    and get_err: "get i s = (Inl e, s') \<Longrightarrow> view s' = view s"
    and writes_err: "add c s = (Inl e, s') \<Longrightarrow> view s' = view s"
      "upd i f s = (Inl e, s') \<Longrightarrow> view s' = view s"
      "del i s = (Inl e, s') \<Longrightarrow> view s' = view s"
begin

lemma get_after_upd:
  assumes "\<And>r. c_ID (f r) = c_ID r" and "upd i f s = (Inr (), s')"
    and "get i s' = (Inr c, s'')"
  shows "\<exists>r. view s i = Some r \<and> c = f r"
  using upd_ok [OF assms(1,2)] get_ok [OF assms(3)] by auto

lemma get_after_upd_other:
  assumes "\<And>r. c_ID (f r) = c_ID r" and "upd i f s = (Inr (), s')" and "i \<noteq> j"
    and "get j s' = (Inr c, s'')"
  shows "view s j = Some c"
  using upd_ok [OF assms(1,2)] get_ok [OF assms(4)] assms(3) by simp

lemma no_get_after_del:
  assumes "del i s = (Inr (), s')"
  shows "get i s' \<noteq> (Inr c, s'')"
  using del_ok [OF assms] get_ok [of i s' c s''] by auto

end

lemma statement_Inr:
  "statement f db = (Inr a, db') \<Longrightarrow>
     shd (outcomes db) = None \<and> f (db\<lparr>outcomes := stl (outcomes db)\<rparr>) = (Inr a, db')"
  by (auto simp: statement_def Let_def split: option.splits)

lemma statement_Inl:
  "statement f db = (Inl e, db') \<Longrightarrow>
     db' = db\<lparr>outcomes := stl (outcomes db)\<rparr> \<or> f (db\<lparr>outcomes := stl (outcomes db)\<rparr>) = (Inl e, db')"
  by (auto simp: statement_def Let_def split: option.splits)

lemma statement_run:
  "shd (outcomes db) = None \<Longrightarrow> statement f db = f (db\<lparr>outcomes := stl (outcomes db)\<rparr>)"
  by (simp add: statement_def Let_def)

lemma find_update_where:
  assumes "\<And>r. c_ID (f r) = c_ID r"
  shows "List.find (\<lambda>r. c_ID r = j) (update_where (\<lambda>r. c_ID r = i) f rows) =
    (if j = i then map_option f (List.find (\<lambda>r. c_ID r = i) rows)
     else List.find (\<lambda>r. c_ID r = j) rows)"
  using assms by (induction rows) (auto simp: update_where_def)

lemma find_filter_ID:
  "List.find (\<lambda>r. c_ID r = j) (filter (\<lambda>r. c_ID r \<noteq> i) rows) =
    (if j = i then None else List.find (\<lambda>r. c_ID r = j) rows)"
  by (induction rows) auto

lemma find_append:
  "List.find p (xs @ ys) = (case List.find p xs of None \<Rightarrow> List.find p ys | Some x \<Rightarrow> Some x)"
  by (induction xs) auto

lemma scan_row_Inr [simp]: "scan_row r = Inr x \<longleftrightarrow> r = Some x"
  by (auto simp: scan_row_def split: option.splits)

lemma coll_map_outcomes [simp]: "coll_map (db\<lparr>outcomes := os\<rparr>) = coll_map db"
  by (simp add: coll_map_def)

lemma coll_map_update_coll:
  assumes "\<And>r. c_ID (f r) = c_ID r" and "update_coll i f db = (Inr (), db')"
  shows "coll_map db' = (coll_map db)(i := map_option f (coll_map db i))"
  using statement_Inr [OF assms(2) [unfolded update_coll_def]] find_update_where [OF assms(1)]
  by (auto simp: coll_map_def)

lemma coll_map_DeleteCollection:
  "DeleteCollection i db = (Inr (), db') \<Longrightarrow> coll_map db' = (coll_map db)(i := None)"
  unfolding DeleteCollection_def
  by (drule statement_Inr) (auto simp: coll_map_def find_filter_ID)

lemma coll_map_CreateCollection:
  assumes "CreateCollection now c db = (Inr (), db')"
  shows "coll_map db (c_ID c) = None \<and>
    coll_map db' = (coll_map db)(c_ID c \<mapsto>
      c\<lparr>c_CreatedAt := if IsZero (c_CreatedAt c) then now else c_CreatedAt c,
        c_UpdatedAt := if IsZero (c_UpdatedAt c) then now else c_UpdatedAt c\<rparr>)"
proof -
  let ?c = "c\<lparr>c_CreatedAt := if IsZero (c_CreatedAt c) then now else c_CreatedAt c,
        c_UpdatedAt := if IsZero (c_UpdatedAt c) then now else c_UpdatedAt c\<rparr>"
  from statement_Inr [OF assms [unfolded CreateCollection_def]]
  have fresh: "\<not> list_ex (\<lambda>r. c_ID r = c_ID c) (collections db)"
    and db': "collections db' = collections db @ [?c]"
    by (auto simp: Let_def list_ex_iff split: if_splits)
  then have none: "coll_map db (c_ID c) = None"
    by (auto simp: coll_map_def find_None_iff list_ex_iff)
  have "coll_map db' j = ((coll_map db)(c_ID c \<mapsto> ?c)) j" for j
    using none by (simp add: coll_map_def db' find_append split: option.splits)
  with none show ?thesis by blast
qed

lemma coll_map_write_error:
  "update_coll i f db = (Inl e, db') \<Longrightarrow> coll_map db' = coll_map db"
  "DeleteCollection i db = (Inl e, db') \<Longrightarrow> coll_map db' = coll_map db"
  "CreateCollection now c db = (Inl e, db') \<Longrightarrow> coll_map db' = coll_map db"
  by (auto simp: update_coll_def DeleteCollection_def CreateCollection_def statement_def Let_def
      modify_def split: option.splits if_splits)

lemma coll_map_GetCollectionByID:
  "GetCollectionByID i db = (Inr c, db') \<Longrightarrow> coll_map db i = Some c \<and> coll_map db' = coll_map db"
  "GetCollectionByID i db = (Inl e, db') \<Longrightarrow> coll_map db' = coll_map db"
  by (auto simp: GetCollectionByID_def statement_def Let_def coll_map_def split: option.splits)

lemma coll_map_CreateCollection_ex:
  assumes "CreateCollection now c db = (Inr (), db')"
  shows "coll_map db (c_ID c) = None \<and>
    (\<exists>c'. c_ID c' = c_ID c \<and> coll_map db' = (coll_map db)(c_ID c \<mapsto> c'))"
  using coll_map_CreateCollection [OF assms]
  by (intro conjI exI [where x = "c\<lparr>c_CreatedAt := if IsZero (c_CreatedAt c) then now else c_CreatedAt c,
        c_UpdatedAt := if IsZero (c_UpdatedAt c) then now else c_UpdatedAt c\<rparr>"]) simp_all

interpretation sqlite_collections: collection_store
  store_ok coll_map "CreateCollection now" update_coll DeleteCollection GetCollectionByID
  for now
proof (unfold_locales, goal_cases)
  case 1
  then show ?case by (intro coll_map_CreateCollection_ex)
next
  case 2
  then show ?case by (intro coll_map_update_coll)
next
  case 3
  then show ?case by (rule coll_map_DeleteCollection)
next
  case 4
  then show ?case by (rule coll_map_GetCollectionByID)
next
  case 5
  then show ?case by (rule coll_map_GetCollectionByID)
next
  case 6
  then show ?case by (rule coll_map_write_error)
next
  case 7
  then show ?case by (rule coll_map_write_error)
next
  case 8
  then show ?case by (rule coll_map_write_error)
qed

section \<open>Properties\<close>

text \<open>The statements that are not about the index \<open>i\<close>, whatever they do to other rows.\<close>

fun foreign :: "string \<Rightarrow> store_cmd \<Rightarrow> bool" where
  "foreign i (CmdDeleteBucket _) = False"
| "foreign i (CmdUpdateCollectionStatus j _) = (j \<noteq> i)"
| "foreign i (CmdUpdateCollectionIndexBuilt j _) = (j \<noteq> i)"
| "foreign i (CmdUpdateCollectionVectorCount j _) = (j \<noteq> i)"
| "foreign i (CmdUpdateCollectionLastAccess j) = (j \<noteq> i)"
| "foreign i (CmdUpdateCollectionMigrationState j _ _ _ _ _ _) = (j \<noteq> i)"
| "foreign i (CmdSwitchCollectionPhysical j _ _ _ _ _ _) = (j \<noteq> i)"
| "foreign i (CmdDeleteCollection j) = (j \<noteq> i)"
| "foreign i _ = True"

lemma coll_map_buckets [simp]: "coll_map (db\<lparr>buckets := bs\<rparr>) = coll_map db"
  by (simp add: coll_map_def)

lemma coll_map_statement:
  assumes "\<And>d. coll_map (snd (f d)) i = coll_map d i"
  shows "coll_map (snd (statement f db)) i = coll_map db i"
  using assms by (simp add: statement_def Let_def split: option.split)

lemma find_update_where_other:
  "j \<noteq> i \<Longrightarrow> (\<And>r. p r \<Longrightarrow> c_ID r = j) \<Longrightarrow> (\<And>r. c_ID (f r) = c_ID r) \<Longrightarrow>
   List.find (\<lambda>r. c_ID r = i) (update_where p f rows) = List.find (\<lambda>r. c_ID r = i) rows"
  unfolding update_where_def by (induction rows) force+

lemma coll_map_update_where:
  "j \<noteq> i \<Longrightarrow> (\<And>r. p r \<Longrightarrow> c_ID r = j) \<Longrightarrow> (\<And>r. c_ID (f r) = c_ID r) \<Longrightarrow>
   coll_map (db\<lparr>collections := update_where p f (collections db)\<rparr>) i = coll_map db i"
  by (simp add: coll_map_def find_update_where_other)

lemma coll_map_DeleteCollection_other: "j \<noteq> i \<Longrightarrow> coll_map (snd (DeleteCollection j db)) i = coll_map db i"
  unfolding DeleteCollection_def by (rule coll_map_statement) (simp add: modify_def coll_map_def find_filter_ID)

lemma foreign_keeps_row:
  assumes "foreign i cmd" and "coll_map db i \<noteq> None"
  shows "coll_map (snd (run_cmd now cmd db)) i = coll_map db i"
proof (cases cmd)
  case (CmdCreateCollection c)
  then show ?thesis
    using assms(2) coll_map_CreateCollection [of now c db] coll_map_write_error(3) [of now c db]
    by (cases "CreateCollection now c db"; cases "fst (CreateCollection now c db)") fastforce+
qed (use assms(1) in \<open>auto simp: coll_map_DeleteCollection_other CreateBucket_def UpdateBucketStatus_def UpdateCollectionStatus_def
    UpdateCollectionIndexBuilt_def UpdateCollectionVectorCount_def UpdateCollectionLastAccess_def
    UpdateCollectionMigrationState_def SwitchCollectionPhysical_def update_coll_def modify_def Let_def
    intro!: coll_map_statement coll_map_update_where\<close>)

lemma foreign_run_keeps_row:
  "\<forall>(now, cmd) \<in> set cs. foreign i cmd \<Longrightarrow> coll_map db i \<noteq> None \<Longrightarrow> coll_map (run_cmds cs db) i = coll_map db i"
  by (induction cs db rule: run_cmds.induct) (auto simp: foreign_keeps_row)

text \<open>The row of an index reads back as it was written. After a successful insertion, any number of
  statements about other rows, some of which may fail, leave the row as it was inserted; a successful
  update of its vector count then shows in the row that is read, and in no other field.\<close>

lemma index_row_reads_back:
  assumes "CreateCollection now c db = (Inr (), db1)"
    and "list_all (\<lambda>(t, cmd). foreign (c_ID c) cmd) cs"
    and "UpdateCollectionVectorCount later (c_ID c) delta (run_cmds cs db1) = (Inr (), db2)"
    and "GetCollectionByID (c_ID c) db2 = (Inr r, db3)"
  shows "r = c\<lparr>c_CreatedAt := if IsZero (c_CreatedAt c) then now else c_CreatedAt c,
               c_VectorCount := c_VectorCount c + delta, c_UpdatedAt := later\<rparr>"
proof -
  let ?c = "c\<lparr>c_CreatedAt := if IsZero (c_CreatedAt c) then now else c_CreatedAt c,
        c_UpdatedAt := if IsZero (c_UpdatedAt c) then now else c_UpdatedAt c\<rparr>"
  have "coll_map db1 (c_ID c) = Some ?c" using coll_map_CreateCollection [OF assms(1)] by simp
  then have row: "coll_map (run_cmds cs db1) (c_ID c) = Some ?c"
    using assms(2) by (simp add: foreign_run_keeps_row list_all_iff)
  have "\<exists>r0. coll_map (run_cmds cs db1) (c_ID c) = Some r0 \<and>
      r = r0\<lparr>c_VectorCount := c_VectorCount r0 + delta, c_UpdatedAt := later\<rparr>"
    by (rule sqlite_collections.get_after_upd [OF _ assms(3) [unfolded UpdateCollectionVectorCount_def] assms(4)]) simp
  with row show ?thesis by simp
qed

end
