(* ===== verification/VB_Router.thy ===== *)
theory VB_Router
  imports VB_Store
begin

text \<open>
  The namespace router (pkg/gateway/vectorbucket/router/namespace_router.go): the names of the
  physical collections in Milvus, and the resolution of a bucket and an index name to the row
  of a collection that is ready.
\<close>

section \<open>Physical names\<close>

definition sanitizeCollectionToken :: "string \<Rightarrow> string" where
  "sanitizeCollectionToken token = ReplaceChar (CHR ''-'') (CHR ''_'') token"

definition PhysicalCollectionNameForTier :: "string \<Rightarrow> string \<Rightarrow> string \<Rightarrow> string" where
  "PhysicalCollectionNameForTier tier bucketID collectionID =
     (let prefix = (if tier = ''performance'' then ''vbh'' else ''vb'')
      in prefix @ ''_'' @ sanitizeCollectionToken bucketID @ ''_'' @ sanitizeCollectionToken collectionID)"

definition PhysicalCollectionName :: "string \<Rightarrow> string \<Rightarrow> string" where
  "PhysicalCollectionName bucketID collectionID =
     PhysicalCollectionNameForTier ''standard'' bucketID collectionID"

section \<open>Resolution\<close>

definition Resolve :: "string \<Rightarrow> string \<Rightarrow> (sqlite, LogicalCollection) op" where
  "Resolve bucketName collectionName =
     bind (map_err (\<lambda>e. Errorf [Lit ''bucket '', ArgQ bucketName, Lit '' not found: '', ArgW e])
       (GetBucketByName bucketName)) (\<lambda>bucket.
     if b_Status bucket \<noteq> BucketStatusReady
     then fail (Errorf [Lit ''bucket '', ArgQ bucketName, Lit '' is not ready (status='',
       ArgS (bucket_status_text (b_Status bucket)), Lit '')''])
     else bind (map_err (\<lambda>e. Errorf [Lit ''collection '', ArgQ collectionName,
       Lit '' not found in bucket '', ArgQ bucketName, Lit '': '', ArgW e])
       (GetCollection (b_ID bucket) collectionName)) (\<lambda>coll.
     if c_Status coll \<noteq> CollStatusReady
     then fail (Errorf [Lit ''collection '', ArgQ collectionName, Lit '' is not ready (status='',
       ArgS (coll_status_text (c_Status coll)), Lit '')''])
     else return coll))"

section \<open>Names of UUIDs\<close>

text \<open>The shape of \<open>uuid.NewString()\<close>: 32 lower-case hexadecimal digits in five groups.\<close>

definition hex_char :: "char \<Rightarrow> bool" where
  "hex_char c \<longleftrightarrow> c \<in> set ''0123456789abcdef''"

definition uuid_shape :: "string \<Rightarrow> bool" where
  "uuid_shape s \<longleftrightarrow> length s = 36 \<and>
     (\<forall>i < 36. if i \<in> {8, 13, 18, 23} then s ! i = CHR ''-'' else hex_char (s ! i))"

lemma hex_char_not: "hex_char c \<Longrightarrow> c \<noteq> CHR ''-'' \<and> c \<noteq> CHR ''_''"
  by (auto simp: hex_char_def)

lemma length_sanitize [simp]: "length (sanitizeCollectionToken s) = length s"
  by (simp add: sanitizeCollectionToken_def ReplaceChar_def)

lemma nth_sanitize:
  "i < length s \<Longrightarrow> sanitizeCollectionToken s ! i = (if s ! i = CHR ''-'' then CHR ''_'' else s ! i)"
  by (simp add: sanitizeCollectionToken_def ReplaceChar_def)

lemma sanitize_append:
  "sanitizeCollectionToken (s @ t) = sanitizeCollectionToken s @ sanitizeCollectionToken t"
  by (simp add: sanitizeCollectionToken_def ReplaceChar_def)

lemma sanitize_inj:
  assumes "uuid_shape s" and "uuid_shape t"
    and "sanitizeCollectionToken s = sanitizeCollectionToken t"
  shows "s = t"
proof (rule nth_equalityI)
  show "length s = length t" using assms(1,2) by (simp add: uuid_shape_def)
  fix i assume "i < length s"
  then have i: "i < 36" "i < length s" "i < length t" using assms(1,2) by (auto simp: uuid_shape_def)
  have "sanitizeCollectionToken s ! i = sanitizeCollectionToken t ! i" using assms(3) by simp
  then have "(if s ! i = CHR ''-'' then CHR ''_'' else s ! i) = (if t ! i = CHR ''-'' then CHR ''_'' else t ! i)"
    using i by (simp add: nth_sanitize)
  moreover have "if i \<in> {8, 13, 18, 23} then s ! i = CHR ''-'' else hex_char (s ! i)"
    and "if i \<in> {8, 13, 18, 23} then t ! i = CHR ''-'' else hex_char (t ! i)"
    using assms(1,2) i(1) by (simp_all add: uuid_shape_def)
  ultimately show "s ! i = t ! i"
    using hex_char_not by (metis (full_types))
qed

lemma physical_name_inj:
  assumes "uuid_shape b" "uuid_shape b'" "uuid_shape c" "uuid_shape c'"
    and "PhysicalCollectionNameForTier t b c = PhysicalCollectionNameForTier t' b' c'"
  shows "b = b' \<and> c = c' \<and> (t = ''performance'' \<longleftrightarrow> t' = ''performance'')"
proof -
  have len: "length (sanitizeCollectionToken b) = length (sanitizeCollectionToken b')"
    using assms(1,2) by (simp add: uuid_shape_def)
  from assms(5) have tier: "t = ''performance'' \<longleftrightarrow> t' = ''performance''"
    by (auto simp: PhysicalCollectionNameForTier_def Let_def split: if_splits)
  with assms(5) have "sanitizeCollectionToken b @ ''_'' @ sanitizeCollectionToken c =
      sanitizeCollectionToken b' @ ''_'' @ sanitizeCollectionToken c'"
    by (auto simp: PhysicalCollectionNameForTier_def Let_def split: if_splits)
  with len have "sanitizeCollectionToken b = sanitizeCollectionToken b'"
    "sanitizeCollectionToken c = sanitizeCollectionToken c'" by auto
  with assms(1-4) tier show ?thesis by (auto intro: sanitize_inj)
qed

text \<open>The name of a migration target, \<open>id_mig_uuid\<close>, is longer than the name of an index.\<close>

lemma length_physical_name:
  "length (PhysicalCollectionNameForTier t b c) =
     (if t = ''performance'' then 5 else 4) + length b + length c"
  by (simp add: PhysicalCollectionNameForTier_def)

lemma migration_name_fresh:
  assumes "length b = length b'" and "length c' = 36" and "length c + length u > 36"
  shows "PhysicalCollectionNameForTier t b (c @ ''_mig_'' @ u) \<noteq> PhysicalCollectionNameForTier t' b' c'"
proof
  assume "PhysicalCollectionNameForTier t b (c @ ''_mig_'' @ u) = PhysicalCollectionNameForTier t' b' c'"
  then have "length (PhysicalCollectionNameForTier t b (c @ ''_mig_'' @ u)) =
      length (PhysicalCollectionNameForTier t' b' c')" by simp
  with assms show False by (simp add: length_physical_name split: if_splits)
qed

section \<open>What resolution returns\<close>

lemma Resolve_rows:
  assumes "Resolve bn cn db = (r, db')"
  shows "buckets db' = buckets db \<and> collections db' = collections db"
  using assms
  by (auto simp: Resolve_def bind_def map_err_def GetBucketByName_def GetCollection_def statement_def
      Let_def fail_def return_def split: option.splits sum.splits if_splits)

lemma find_Some_props: "List.find p xs = Some x \<Longrightarrow> p x \<and> x \<in> set xs"
  by (auto simp: find_Some_iff)

lemma Resolve_Inr:
  assumes "Resolve bn cn db = (Inr c, db')"
  obtains b where "b \<in> set (buckets db)" "b_Name b = bn" "b_Status b = BucketStatusReady"
    "c \<in> set (collections db)" "c_BucketID c = b_ID b" "c_Name c = cn" "c_Status c = CollStatusReady"
proof -
  from assms obtain b db1 where
    b: "GetBucketByName bn db = (Inr b, db1)" and rb: "b_Status b = BucketStatusReady"
    and c: "GetCollection (b_ID b) cn db1 = (Inr c, db')" and rc: "c_Status c = CollStatusReady"
    by (auto simp: Resolve_def bind_eq_Inr split: if_splits)
  have b': "List.find (\<lambda>r. b_Name r = bn) (buckets db) = Some b"
    and db1: "db1 = db\<lparr>outcomes := stl (outcomes db)\<rparr>"
    using statement_Inr [OF b [unfolded GetBucketByName_def]] by auto
  have "List.find (\<lambda>r. c_BucketID r = b_ID b \<and> c_Name r = cn \<and> c_Status r \<noteq> CollStatusDeleted)
      (collections db) = Some c"
    using statement_Inr [OF c [unfolded GetCollection_def]] by (auto simp: db1)
  with b' rb rc that show thesis by (blast dest: find_Some_props)
qed

lemma keeps_Resolve [keeps_rules]: "keeps store_ok (Resolve bn cn)"
  unfolding Resolve_def by (intro keeps_rules keeps_reads)

text \<open>When the engine answers and both rows are ready, resolution finds them.\<close>

lemma find_unique:
  assumes "distinct (map k xs)" and "x \<in> set xs" and "p x" and "\<And>y. p y \<Longrightarrow> k y = k x"
  shows "List.find p xs = Some x"
  using assms(1,2)
proof (induction xs)
  case (Cons y ys)
  show ?case
  proof (cases "y = x")
    case False
    with Cons.prems have "x \<in> set ys" "k y \<noteq> k x" by auto
    then have "\<not> p y" using assms(4) by blast
    with Cons \<open>x \<in> set ys\<close> show ?thesis by simp
  qed (simp add: assms(3))
qed simp

lemma Resolve_complete:
  assumes "store_ok db" and "b \<in> set (buckets db)" and "b_Status b = BucketStatusReady"
    and "c \<in> set (collections db)" and "c_BucketID c = b_ID b" and "c_Status c = CollStatusReady"
    and "shd (outcomes db) = None" and "shd (stl (outcomes db)) = None"
  shows "Resolve (b_Name b) (c_Name c) db = (Inr c, db\<lparr>outcomes := stl (stl (outcomes db))\<rparr>)"
proof -
  have "List.find (\<lambda>r. b_Name r = b_Name b) (buckets db) = Some b"
    using assms(1,2) by (intro find_unique [of b_Name]) (auto simp: store_ok_def)
  moreover have "List.find (\<lambda>r. c_BucketID r = b_ID b \<and> c_Name r = c_Name c \<and>
      c_Status r \<noteq> CollStatusDeleted) (collections db) = Some c"
    using assms by (intro find_unique [of "\<lambda>c. (c_BucketID c, c_Name c)"]) (auto simp: store_ok_def)
  ultimately show ?thesis
    using assms(3,6-8)
    by (simp add: Resolve_def bind_def map_err_def GetBucketByName_def GetCollection_def
        statement_run return_def scan_row_def)
qed

section \<open>Properties\<close>

text \<open>Two indexes never share a physical collection in Milvus. For identifiers of the shape of
  a UUID the physical name determines the bucket, the index and the tier, although hyphens are replaced;
  and the name of the target of a migration is never the name of an index.\<close>

lemma physical_names_unique:
  assumes "uuid_shape b" and "uuid_shape b'" and "uuid_shape c" and "uuid_shape c'" and "uuid_shape u"
  shows "(PhysicalCollectionNameForTier t b c = PhysicalCollectionNameForTier t' b' c' \<longrightarrow>
            b = b' \<and> c = c' \<and> (t = ''performance'' \<longleftrightarrow> t' = ''performance'')) \<and>
         PhysicalCollectionNameForTier t b (c @ ''_mig_'' @ u) \<noteq> PhysicalCollectionNameForTier t' b' c'"
proof -
  have "length b = 36" "length b' = 36" "length c = 36" "length c' = 36" "length u = 36"
    using assms by (auto simp: uuid_shape_def)
  then show ?thesis
    using physical_name_inj [OF assms(1-4)] migration_name_fresh [of b b' c' c u t t'] by simp
qed

text \<open>Resolution serves exactly the ready indexes of ready buckets: what it returns is such a row,
  under the names that were asked for, and when the database answers, it returns every one of them.\<close>

lemma Resolve_exact:
  assumes "store_ok db"
  shows "(\<forall>c db'. Resolve bn cn db = (Inr c, db') \<longrightarrow>
            (\<exists>b \<in> set (buckets db). b_Name b = bn \<and> b_Status b = BucketStatusReady \<and> c_BucketID c = b_ID b) \<and>
            c \<in> set (collections db) \<and> c_Name c = cn \<and> c_Status c = CollStatusReady \<and>
            buckets db' = buckets db \<and> collections db' = collections db) \<and>
         (\<forall>b \<in> set (buckets db). \<forall>c \<in> set (collections db).
            b_Status b = BucketStatusReady \<and> c_BucketID c = b_ID b \<and> c_Status c = CollStatusReady \<and>
            outcomes db = sconst None \<longrightarrow>
            fst (Resolve (b_Name b) (c_Name c) db) = Inr c)"
proof (intro conjI allI ballI impI)
  fix c db' assume r: "Resolve bn cn db = (Inr c, db')"
  then obtain b where "b \<in> set (buckets db)" "b_Name b = bn" "b_Status b = BucketStatusReady"
    "c \<in> set (collections db)" "c_BucketID c = b_ID b" "c_Name c = cn" "c_Status c = CollStatusReady"
    by (rule Resolve_Inr)
  then show "\<exists>b \<in> set (buckets db). b_Name b = bn \<and> b_Status b = BucketStatusReady \<and> c_BucketID c = b_ID b"
    "c \<in> set (collections db)" "c_Name c = cn" "c_Status c = CollStatusReady" by auto
  show "buckets db' = buckets db" "collections db' = collections db" using Resolve_rows [OF r] by auto
next
  fix b c assume "b \<in> set (buckets db)" "c \<in> set (collections db)"
    "b_Status b = BucketStatusReady \<and> c_BucketID c = b_ID b \<and> c_Status c = CollStatusReady \<and> outcomes db = sconst None"
  then show "fst (Resolve (b_Name b) (c_Name c) db) = Inr c"
    using Resolve_complete [OF assms] by simp
qed

end
