(* ===== verification/VB_Config.thy ===== *)
theory VB_Config
  imports Go_Effects
begin

text \<open>
  The configuration of the vector bucket service
  (pkg/gateway/vectorbucket/config/config.go): the defaults, the optional JSON file, the
  environment, and the index policy of a bucket. The environment is a function from a
  variable to its value (empty when it is unset), the file system is what \<open>os.Stat\<close> and
  \<open>os.ReadFile\<close> answer, and \<open>json.Unmarshal\<close> is a function from the bytes of the file to the
  fields it sets, or to nothing when it reports an error.
\<close>

section \<open>Data\<close>

record BucketIndexPolicy =
  bp_IndexType :: string
  bp_MaxVectors :: int
  bp_HNSWM :: int
  bp_HNSWEFConstruction :: int
  bp_DiskANNSearchList :: int

record Config =
  ListenAddr :: string
  MilvusAddr :: string
  SQLitePath :: string
  LoadBudgetMB :: int
  TTLSeconds :: int
  IndexBuildThreshold :: int
  MaxBucketsPerTenant :: int
  MaxBucketsGlobal :: int
  MaxCollPerBucket :: int
  MaxVectorsPerColl :: int
  MaxDim :: int
  WriteQPSPerColl :: int
  QueryQPSPerColl :: int
  MaxLoadedColls :: int
  BucketIndexPolicies :: "string \<rightharpoonup> BucketIndexPolicy"
  PerformanceBudgetMB :: int
  StandardBudgetMB :: int
  PerformanceMaxVectors :: int
  HNSWM :: int
  HNSWEFConstruction :: int
  DiskANNSearchList :: int

text \<open>The pointer fields of \<open>fileConfig\<close>: \<open>None\<close> is a nil pointer. The policies are listed in
  the order in which the loop visits the decoded map.\<close>

record fileConfig =
  fc_ListenAddr :: "string option"
  fc_MilvusAddr :: "string option"
  fc_SQLitePath :: "string option"
  fc_LoadBudgetMB :: "int option"
  fc_TTLSeconds :: "int option"
  fc_IndexBuildThreshold :: "int option"
  fc_MaxBucketsPerTenant :: "int option"
  fc_MaxBucketsGlobal :: "int option"
  fc_MaxCollPerBucket :: "int option"
  fc_MaxVectorsPerColl :: "int option"
  fc_MaxDim :: "int option"
  fc_WriteQPSPerColl :: "int option"
  fc_QueryQPSPerColl :: "int option"
  fc_MaxLoadedColls :: "int option"
  fc_BucketIndexPolicies :: "(string \<times> BucketIndexPolicy) list"
  fc_PerformanceBudgetMB :: "int option"
  fc_StandardBudgetMB :: "int option"
  fc_PerformanceMaxVectors :: "int option"
  fc_HNSWM :: "int option"
  fc_HNSWEFConstruction :: "int option"
  fc_DiskANNSearchList :: "int option"

definition DefaultConfig :: Config where
  "DefaultConfig = \<lparr>
     ListenAddr = '':9200'',
     MilvusAddr = ''localhost:19530'',
     SQLitePath = ''/var/lib/vectorbucket/metadata.db'',
     LoadBudgetMB = 4096,
     TTLSeconds = 30 * 60,
     IndexBuildThreshold = 10000,
     MaxBucketsPerTenant = 100,
     MaxBucketsGlobal = 1000,
     MaxCollPerBucket = 50,
     MaxVectorsPerColl = 1000000,
     MaxDim = 4096,
     WriteQPSPerColl = 500,
     QueryQPSPerColl = 50,
     MaxLoadedColls = 50,
     BucketIndexPolicies = Map.empty,
     PerformanceBudgetMB = 3072,
     StandardBudgetMB = 3072,
     PerformanceMaxVectors = 200000,
     HNSWM = 16,
     HNSWEFConstruction = 200,
     DiskANNSearchList = 100 \<rparr>"

section \<open>Policies\<close>

definition normalizeIndexType :: "string \<Rightarrow> string" where
  "normalizeIndexType value =
     (let v = ToLower (TrimSpace value)
      in if v \<in> {'''', ''ivf'', ''ivf_sq8''} then ''ivf_sq8''
         else if v = ''hnsw'' then ''hnsw''
         else if v = ''diskann'' then ''diskann''
         else '''')"

definition normalizePolicy :: "Config \<Rightarrow> BucketIndexPolicy \<Rightarrow> BucketIndexPolicy" where
  "normalizePolicy c policy0 =
     (let p1 = policy0\<lparr>bp_IndexType := normalizeIndexType (bp_IndexType policy0)\<rparr>;
          p2 = (if bp_IndexType p1 = '''' then p1\<lparr>bp_IndexType := ''ivf_sq8''\<rparr> else p1);
          p3 = (if bp_MaxVectors p2 \<le> 0 \<and> bp_IndexType p2 \<noteq> ''ivf_sq8''
                then p2\<lparr>bp_MaxVectors := PerformanceMaxVectors c\<rparr> else p2);
          p4 = (if bp_HNSWM p3 \<le> 0 then p3\<lparr>bp_HNSWM := HNSWM c\<rparr> else p3);
          p5 = (if bp_HNSWEFConstruction p4 \<le> 0
                then p4\<lparr>bp_HNSWEFConstruction := HNSWEFConstruction c\<rparr> else p4)
      in if bp_DiskANNSearchList p5 \<le> 0
         then p5\<lparr>bp_DiskANNSearchList := DiskANNSearchList c\<rparr> else p5)"

text \<open>\<open>BucketIndexPolicy{IndexType: t}\<close>, the other fields zero.\<close>

definition zero_policy :: "string \<Rightarrow> BucketIndexPolicy" where
  "zero_policy t = \<lparr>bp_IndexType = t, bp_MaxVectors = 0, bp_HNSWM = 0,
     bp_HNSWEFConstruction = 0, bp_DiskANNSearchList = 0\<rparr>"

definition PolicyForBucket :: "Config \<Rightarrow> string \<Rightarrow> BucketIndexPolicy" where
  "PolicyForBucket c name =
     (case BucketIndexPolicies c name of
        None \<Rightarrow> normalizePolicy c (zero_policy ''ivf_sq8'')
      | Some policy \<Rightarrow> normalizePolicy c policy)"

definition IsPinnedIndexType :: "string \<Rightarrow> bool" where
  "IsPinnedIndexType indexType \<longleftrightarrow>
     (let v = normalizeIndexType indexType in v = ''hnsw'' \<or> v = ''diskann'')"

definition TierForIndexType :: "string \<Rightarrow> string" where
  "TierForIndexType indexType =
     (if IsPinnedIndexType indexType then ''performance'' else ''standard'')"

section \<open>The file\<close>

definition applyString :: "string \<Rightarrow> string option \<Rightarrow> string" where
  "applyString target value =
     (case value of Some v \<Rightarrow> if v \<noteq> '''' then v else target | None \<Rightarrow> target)"

definition applyInt :: "int \<Rightarrow> int option \<Rightarrow> int" where
  "applyInt target value =
     (case value of Some v \<Rightarrow> if v > 0 then v else target | None \<Rightarrow> target)"

definition candidates :: "string list" where
  "candidates = [''vectorbucket.json'', ''configs/vectorbucket.json'',
     ''../configs/vectorbucket.json'', ''/etc/juicefs/vectorbucket.json'']"

definition findConfigFile :: "(string \<Rightarrow> string) \<Rightarrow> (string \<Rightarrow> bool) \<Rightarrow> string option" where
  "findConfigFile getenv stat_ok =
     (let v = TrimSpace (getenv ''VB_CONFIG_PATH'')
      in if v \<noteq> '''' then Some v else List.find stat_ok candidates)"

fun load_policies ::
  "Config \<Rightarrow> (string \<times> BucketIndexPolicy) list \<Rightarrow>
   (string \<rightharpoonup> BucketIndexPolicy) \<Rightarrow> (string \<rightharpoonup> BucketIndexPolicy)" where
  "load_policies c [] m = m"
| "load_policies c ((bucket0, policy) # rest) m =
     (let bucket = TrimSpace bucket0
      in load_policies c rest
           (if bucket = '''' then m else m(bucket \<mapsto> normalizePolicy c policy)))"

definition applyFile :: "fileConfig \<Rightarrow> Config \<Rightarrow> Config" where
  "applyFile fc cfg0 =
     (let cfg = cfg0\<lparr>
        ListenAddr := applyString (ListenAddr cfg0) (fc_ListenAddr fc),
        MilvusAddr := applyString (MilvusAddr cfg0) (fc_MilvusAddr fc),
        SQLitePath := applyString (SQLitePath cfg0) (fc_SQLitePath fc),
        LoadBudgetMB := applyInt (LoadBudgetMB cfg0) (fc_LoadBudgetMB fc),
        TTLSeconds := applyInt (TTLSeconds cfg0) (fc_TTLSeconds fc),
        IndexBuildThreshold := applyInt (IndexBuildThreshold cfg0) (fc_IndexBuildThreshold fc),
        MaxBucketsPerTenant := applyInt (MaxBucketsPerTenant cfg0) (fc_MaxBucketsPerTenant fc),
        MaxBucketsGlobal := applyInt (MaxBucketsGlobal cfg0) (fc_MaxBucketsGlobal fc),
        MaxCollPerBucket := applyInt (MaxCollPerBucket cfg0) (fc_MaxCollPerBucket fc),
        MaxVectorsPerColl := applyInt (MaxVectorsPerColl cfg0) (fc_MaxVectorsPerColl fc),
        MaxDim := applyInt (MaxDim cfg0) (fc_MaxDim fc),
        WriteQPSPerColl := applyInt (WriteQPSPerColl cfg0) (fc_WriteQPSPerColl fc),
        QueryQPSPerColl := applyInt (QueryQPSPerColl cfg0) (fc_QueryQPSPerColl fc),
        MaxLoadedColls := applyInt (MaxLoadedColls cfg0) (fc_MaxLoadedColls fc),
        PerformanceBudgetMB := applyInt (PerformanceBudgetMB cfg0) (fc_PerformanceBudgetMB fc),
        StandardBudgetMB := applyInt (StandardBudgetMB cfg0) (fc_StandardBudgetMB fc),
        PerformanceMaxVectors := applyInt (PerformanceMaxVectors cfg0) (fc_PerformanceMaxVectors fc),
        HNSWM := applyInt (HNSWM cfg0) (fc_HNSWM fc),
        HNSWEFConstruction := applyInt (HNSWEFConstruction cfg0) (fc_HNSWEFConstruction fc),
        DiskANNSearchList := applyInt (DiskANNSearchList cfg0) (fc_DiskANNSearchList fc)\<rparr>
      in if fc_BucketIndexPolicies fc \<noteq> []
         then cfg\<lparr>BucketIndexPolicies :=
                load_policies cfg (fc_BucketIndexPolicies fc) Map.empty\<rparr>
         else cfg)"

definition loadFromConfigFile ::
  "(string \<Rightarrow> string) \<Rightarrow> (string \<Rightarrow> bool) \<Rightarrow> (string \<Rightarrow> string option) \<Rightarrow>
   (string \<Rightarrow> fileConfig option) \<Rightarrow> Config \<Rightarrow> Config" where
  "loadFromConfigFile getenv stat_ok read_file unmarshal cfg =
     (case findConfigFile getenv stat_ok of
        None \<Rightarrow> cfg
      | Some path \<Rightarrow> (case read_file path of
          None \<Rightarrow> cfg
        | Some content \<Rightarrow> (case unmarshal content of
            None \<Rightarrow> cfg
          | Some fc \<Rightarrow> applyFile fc cfg)))"

section \<open>The environment\<close>

definition loadPositiveInt :: "(string \<Rightarrow> string) \<Rightarrow> string \<Rightarrow> int \<Rightarrow> int" where
  "loadPositiveInt getenv key target =
     (let v = getenv key
      in if v \<noteq> '''' then (case ParseInt v of Some n \<Rightarrow> if n > 0 then n else target | None \<Rightarrow> target)
         else target)"

definition loadString :: "(string \<Rightarrow> string) \<Rightarrow> string \<Rightarrow> string \<Rightarrow> string" where
  "loadString getenv key target = (let v = getenv key in if v \<noteq> '''' then v else target)"

definition applyEnv :: "(string \<Rightarrow> string) \<Rightarrow> Config \<Rightarrow> Config" where
  "applyEnv getenv cfg = cfg\<lparr>
     LoadBudgetMB := loadPositiveInt getenv ''VB_LOAD_BUDGET_MB'' (LoadBudgetMB cfg),
     TTLSeconds := loadPositiveInt getenv ''VB_TTL_SECONDS'' (TTLSeconds cfg),
     IndexBuildThreshold := loadPositiveInt getenv ''VB_INDEX_BUILD_THRESHOLD'' (IndexBuildThreshold cfg),
     MaxBucketsPerTenant := loadPositiveInt getenv ''VB_MAX_BUCKETS_PER_TENANT'' (MaxBucketsPerTenant cfg),
     MaxBucketsGlobal := loadPositiveInt getenv ''VB_MAX_BUCKETS_GLOBAL'' (MaxBucketsGlobal cfg),
     MaxCollPerBucket := loadPositiveInt getenv ''VB_MAX_COLL_PER_BUCKET'' (MaxCollPerBucket cfg),
     MaxVectorsPerColl := loadPositiveInt getenv ''VB_MAX_VECTORS_PER_COLL'' (MaxVectorsPerColl cfg),
     MaxDim := loadPositiveInt getenv ''VB_MAX_DIM'' (MaxDim cfg),
     WriteQPSPerColl := loadPositiveInt getenv ''VB_WRITE_QPS_PER_COLL'' (WriteQPSPerColl cfg),
     QueryQPSPerColl := loadPositiveInt getenv ''VB_QUERY_QPS_PER_COLL'' (QueryQPSPerColl cfg),
     MaxLoadedColls := loadPositiveInt getenv ''VB_MAX_LOADED_COLLS'' (MaxLoadedColls cfg),
     PerformanceBudgetMB := loadPositiveInt getenv ''VB_PERFORMANCE_BUDGET_MB'' (PerformanceBudgetMB cfg),
     StandardBudgetMB := loadPositiveInt getenv ''VB_STANDARD_BUDGET_MB'' (StandardBudgetMB cfg),
     HNSWM := loadPositiveInt getenv ''VB_HNSW_M'' (HNSWM cfg),
     HNSWEFConstruction := loadPositiveInt getenv ''VB_HNSW_EF_CONSTRUCTION'' (HNSWEFConstruction cfg),
     DiskANNSearchList := loadPositiveInt getenv ''VB_DISKANN_SEARCH_LIST'' (DiskANNSearchList cfg),
     PerformanceMaxVectors := loadPositiveInt getenv ''VB_PERFORMANCE_MAX_VECTORS'' (PerformanceMaxVectors cfg),
     ListenAddr := loadString getenv ''VB_LISTEN_ADDR'' (ListenAddr cfg),
     MilvusAddr := loadString getenv ''VB_MILVUS_ADDR'' (MilvusAddr cfg),
     SQLitePath := loadString getenv ''VB_SQLITE_PATH'' (SQLitePath cfg)\<rparr>"

definition LoadConfig ::
  "(string \<Rightarrow> string) \<Rightarrow> (string \<Rightarrow> bool) \<Rightarrow> (string \<Rightarrow> string option) \<Rightarrow>
   (string \<Rightarrow> fileConfig option) \<Rightarrow> Config" where
  "LoadConfig getenv stat_ok read_file unmarshal =
     applyEnv getenv (loadFromConfigFile getenv stat_ok read_file unmarshal DefaultConfig)"

section \<open>Lemmas\<close>

definition index_types :: "string set" where
  "index_types = {''ivf_sq8'', ''hnsw'', ''diskann''}"

lemma normalizeIndexType_range: "normalizeIndexType v = '''' \<or> normalizeIndexType v \<in> index_types"
  by (auto simp: normalizeIndexType_def index_types_def Let_def)

lemma normalizeIndexType_fix [simp]:
  "normalizeIndexType ''ivf_sq8'' = ''ivf_sq8''"
  "normalizeIndexType ''hnsw'' = ''hnsw''"
  "normalizeIndexType ''diskann'' = ''diskann''"
  by (simp_all add: normalizeIndexType_def go_simps)

lemma normalizeIndexType_index_types: "t \<in> index_types \<Longrightarrow> normalizeIndexType t = t"
  by (auto simp: index_types_def)

lemma IsPinnedIndexType_simps [simp]:
  "IsPinnedIndexType ''ivf_sq8'' = False"
  "IsPinnedIndexType ''hnsw'' = True"
  "IsPinnedIndexType ''diskann'' = True"
  by (simp_all add: IsPinnedIndexType_def)

lemma normalizePolicy_IndexType:
  "bp_IndexType (normalizePolicy c p) =
     (if normalizeIndexType (bp_IndexType p) = '''' then ''ivf_sq8''
      else normalizeIndexType (bp_IndexType p))"
  by (simp add: normalizePolicy_def Let_def)

lemma normalizePolicy_in_index_types: "bp_IndexType (normalizePolicy c p) \<in> index_types"
  using normalizeIndexType_range [of "bp_IndexType p"]
  by (auto simp: normalizePolicy_IndexType index_types_def)

lemma PolicyForBucket_normal: "\<exists>p. PolicyForBucket c b = normalizePolicy c p"
  by (auto simp: PolicyForBucket_def split: option.splits)

lemma PolicyForBucket_in_index_types: "bp_IndexType (PolicyForBucket c b) \<in> index_types"
  using PolicyForBucket_normal [of c b] normalizePolicy_in_index_types by metis

lemma TierForIndexType_performance: "TierForIndexType t = ''performance'' \<longleftrightarrow> IsPinnedIndexType t"
  by (simp add: TierForIndexType_def)

text \<open>The numeric settings of a configuration are positive and its addresses are set.\<close>

definition config_ok :: "Config \<Rightarrow> bool" where
  "config_ok c \<longleftrightarrow>
     list_all (\<lambda>n. n > 0)
       [LoadBudgetMB c, TTLSeconds c, IndexBuildThreshold c, MaxBucketsPerTenant c,
        MaxBucketsGlobal c, MaxCollPerBucket c, MaxVectorsPerColl c, MaxDim c,
        WriteQPSPerColl c, QueryQPSPerColl c, MaxLoadedColls c, PerformanceBudgetMB c,
        StandardBudgetMB c, PerformanceMaxVectors c, HNSWM c, HNSWEFConstruction c,
        DiskANNSearchList c] \<and>
     list_all (\<lambda>s. s \<noteq> '''') [ListenAddr c, MilvusAddr c, SQLitePath c]"

lemma applyInt_pos [simp]: "0 < t \<Longrightarrow> 0 < applyInt t v"
  by (simp add: applyInt_def split: option.splits)

lemma applyString_set [simp]: "t \<noteq> '''' \<Longrightarrow> applyString t v \<noteq> ''''"
  by (simp add: applyString_def split: option.splits)

lemma loadPositiveInt_pos [simp]: "0 < t \<Longrightarrow> 0 < loadPositiveInt g k t"
  by (simp add: loadPositiveInt_def Let_def split: option.splits)

lemma loadString_set [simp]: "t \<noteq> '''' \<Longrightarrow> loadString g k t \<noteq> ''''"
  by (simp add: loadString_def Let_def)

lemma config_ok_Default: "config_ok DefaultConfig"
  by (simp add: config_ok_def DefaultConfig_def)

lemma config_ok_applyFile: "config_ok c \<Longrightarrow> config_ok (applyFile fc c)"
  by (simp add: config_ok_def applyFile_def Let_def)

lemma config_ok_applyEnv: "config_ok c \<Longrightarrow> config_ok (applyEnv g c)"
  by (simp add: config_ok_def applyEnv_def)

lemma config_ok_loadFromConfigFile: "config_ok c \<Longrightarrow> config_ok (loadFromConfigFile g st rf um c)"
  by (simp add: loadFromConfigFile_def config_ok_applyFile split: option.splits)

lemma loadPositiveInt_set:
  assumes "g k = Itoa n" and "0 < n" and "is_int64 n"
  shows "loadPositiveInt g k t = n"
proof -
  have "Itoa n \<noteq> ''''" by (simp add: Itoa_def)
  with assms show ?thesis by (simp add: loadPositiveInt_def ParseInt_Itoa)
qed

text \<open>The policy a bucket gets: a known index type and, once it is of the performance tier, a
  bound on its vectors; all index parameters are positive.\<close>

definition policy_ok :: "BucketIndexPolicy \<Rightarrow> bool" where
  "policy_ok p \<longleftrightarrow> bp_IndexType p \<in> index_types \<and>
     (IsPinnedIndexType (bp_IndexType p) \<longrightarrow> bp_MaxVectors p > 0) \<and>
     bp_HNSWM p > 0 \<and> bp_HNSWEFConstruction p > 0 \<and> bp_DiskANNSearchList p > 0"

lemma policy_ok_normalizePolicy: "config_ok c \<Longrightarrow> policy_ok (normalizePolicy c p)"
  using normalizeIndexType_range [of "bp_IndexType p"]
  by (auto simp: policy_ok_def config_ok_def normalizePolicy_def Let_def index_types_def)

lemma normalizePolicy_ok_id: "policy_ok p \<Longrightarrow> normalizePolicy c p = p"
  by (auto simp: policy_ok_def normalizePolicy_def Let_def index_types_def)

section \<open>Properties\<close>

text \<open>C39: Whatever the environment and the configuration file hold, the configuration the gateway starts
  with is usable: every limit and budget is positive, the addresses are set, and the policy of every
  bucket names one of the three index types, with a positive bound on the vectors of a pinned index.\<close>

theorem LoadConfig_usable:
  "config_ok (LoadConfig getenv stat_ok read_file unmarshal) \<and>
   policy_ok (PolicyForBucket (LoadConfig getenv stat_ok read_file unmarshal) bucket)"
proof -
  have "config_ok (LoadConfig getenv stat_ok read_file unmarshal)"
    by (simp add: LoadConfig_def config_ok_applyEnv config_ok_loadFromConfigFile config_ok_Default)
  then show ?thesis
    using PolicyForBucket_normal [of "LoadConfig getenv stat_ok read_file unmarshal" bucket]
      policy_ok_normalizePolicy by metis
qed

end
