(* ===== verification/VB_Quota.thy ===== *)
theory VB_Quota
  imports VB_Config VB_Store
begin

text \<open>
  The quota checks (pkg/gateway/vectorbucket/quota/quota.go). Each check reads the metadata
  store and the limits of the configuration and answers with an error or nothing.
\<close>

section \<open>The checks\<close>

definition CanCreateBucket :: "Config \<Rightarrow> string \<Rightarrow> (sqlite, unit) op" where
  "CanCreateBucket cfg owner =
     bind (map_err (\<lambda>e. Errorf [Lit ''count buckets: '', ArgW e]) CountBuckets) (\<lambda>globalCount.
     if globalCount \<ge> MaxBucketsGlobal cfg
     then fail (Errorf [Lit ''global bucket limit reached ('', ArgD (MaxBucketsGlobal cfg), Lit '')''])
     else bind (map_err (\<lambda>e. Errorf [Lit ''count buckets by owner: '', ArgW e])
       (CountBucketsByOwner owner)) (\<lambda>ownerCount.
     if ownerCount \<ge> MaxBucketsPerTenant cfg
     then fail (Errorf [Lit ''per-tenant bucket limit reached ('', ArgD (MaxBucketsPerTenant cfg), Lit '')''])
     else return ()))"

definition CanCreateCollection :: "Config \<Rightarrow> string \<Rightarrow> (sqlite, unit) op" where
  "CanCreateCollection cfg bucketID =
     bind (map_err (\<lambda>e. Errorf [Lit ''count collections: '', ArgW e]) (CountCollections bucketID)) (\<lambda>cnt.
     if cnt \<ge> MaxCollPerBucket cfg
     then fail (Errorf [Lit ''collection limit per bucket reached ('', ArgD (MaxCollPerBucket cfg), Lit '')''])
     else return ())"

definition CheckDimension :: "Config \<Rightarrow> int \<Rightarrow> goerr option" where
  "CheckDimension cfg dm =
     (if dm \<le> 0 then Some (Errorf [Lit ''dimension must be positive, got '', ArgD dm])
      else if dm > MaxDim cfg
        then Some (Errorf [Lit ''dimension '', ArgD dm, Lit '' exceeds maximum '', ArgD (MaxDim cfg)])
      else None)"

definition CheckVectorCount :: "Config \<Rightarrow> int \<Rightarrow> int \<Rightarrow> goerr option" where
  "CheckVectorCount cfg currentCount insertCount =
     (if int64_of (currentCount + insertCount) > MaxVectorsPerColl cfg
      then Some (Errorf [Lit ''insert would exceed max vectors per collection ('',
        ArgD (MaxVectorsPerColl cfg), Lit '')''])
      else None)"

definition EstimatePerformanceMemMB :: "int \<Rightarrow> int \<Rightarrow> rat" where
  "EstimatePerformanceMemMB maxVectors dm =
     fdiv (fmul (fmul (fmul (float64 maxVectors) (float64 dm)) 4) (3/2)) 1048576"

text \<open>The inner loop: the estimates of the collections of one bucket that are in the tier.\<close>

definition add_performance :: "rat \<Rightarrow> LogicalCollection list \<Rightarrow> rat" where
  "add_performance = foldl (\<lambda>u coll. if c_Tier coll \<noteq> ''performance'' then u
     else fadd u (EstimatePerformanceMemMB (c_MaxVectors coll) (c_Dim coll)))"

definition CanCreatePerformanceCollection :: "Config \<Rightarrow> int \<Rightarrow> int \<Rightarrow> (sqlite, unit) op" where
  "CanCreatePerformanceCollection cfg maxVectors dm =
     bind (map_err (\<lambda>e. Errorf [Lit ''list buckets: '', ArgW e]) ListBuckets) (\<lambda>bs.
     bind (for_acc (\<lambda>bucket used.
         bind (map_err (\<lambda>e. Errorf [Lit ''list collections for bucket '', ArgS (b_ID bucket),
             Lit '': '', ArgW e]) (ListCollections (b_ID bucket))) (\<lambda>colls.
         return (add_performance used colls)))
       bs 0) (\<lambda>usedMB.
     let neededMB = EstimatePerformanceMemMB maxVectors dm
     in if fadd usedMB neededMB > float64 (PerformanceBudgetMB cfg)
        then fail (Errorf [Lit ''performance memory budget exceeded (used='', ArgF2 usedMB,
          Lit ''MiB needed='', ArgF2 neededMB, Lit ''MiB budget='', ArgD (PerformanceBudgetMB cfg),
          Lit ''MiB)''])
        else return ()))"

definition CheckPerformanceVectorLimit :: "int \<Rightarrow> int \<Rightarrow> int \<Rightarrow> goerr option" where
  "CheckPerformanceVectorLimit currentCount insertCount maxVectors =
     (if maxVectors \<le> 0 then None
      else if int64_of (currentCount + insertCount) > maxVectors
        then Some (Errorf [Lit ''insert would exceed max vectors for performance collection ('',
          ArgD maxVectors, Lit '')''])
      else None)"

definition CheckMetric :: "string \<Rightarrow> goerr option" where
  "CheckMetric metric =
     (if metric = ''COSINE'' \<or> metric = ''L2'' then None
      else Some (Errorf [Lit ''unsupported metric type '', ArgQ metric, Lit '', must be COSINE or L2'']))"

section \<open>The counts behind the checks\<close>

definition live_buckets :: "sqlite \<Rightarrow> Bucket list" where
  "live_buckets db = filter (\<lambda>r. b_Status r \<noteq> BucketStatusDeleted) (buckets db)"

definition live_collections :: "string \<Rightarrow> sqlite \<Rightarrow> LogicalCollection list" where
  "live_collections bid db =
     filter (\<lambda>r. c_BucketID r = bid \<and> c_Status r \<noteq> CollStatusDeleted) (collections db)"

text \<open>The rows of the performance tier in the order in which the check visits them, and the sum
  of their estimates.\<close>

definition performance_rows :: "sqlite \<Rightarrow> LogicalCollection list" where
  "performance_rows db = filter (\<lambda>c. c_Tier c = ''performance'')
     (concat (map (\<lambda>b. sort_key (\<lambda>r. (c_CreatedAt r, c_ID r)) (live_collections (b_ID b) db))
       (sort_key (\<lambda>r. (b_CreatedAt r, b_ID r)) (live_buckets db))))"

definition performance_used :: "sqlite \<Rightarrow> rat" where
  "performance_used db =
     foldl fadd 0 (map (\<lambda>c. EstimatePerformanceMemMB (c_MaxVectors c) (c_Dim c)) (performance_rows db))"

lemma CanCreateBucket_Inr:
  assumes "CanCreateBucket cfg owner db = (Inr u, db')"
  shows "int (length (live_buckets db)) < MaxBucketsGlobal cfg \<and>
    int (length (filter (\<lambda>b. b_Owner b = owner) (live_buckets db))) < MaxBucketsPerTenant cfg \<and>
    buckets db' = buckets db \<and> collections db' = collections db"
  using assms
  by (auto simp: CanCreateBucket_def bind_eq_Inr CountBuckets_def CountBucketsByOwner_def
      live_buckets_def conj_commute dest!: statement_Inr split: if_splits)

lemma CanCreateCollection_Inr:
  assumes "CanCreateCollection cfg bid db = (Inr u, db')"
  shows "int (length (live_collections bid db)) < MaxCollPerBucket cfg \<and>
    buckets db' = buckets db \<and> collections db' = collections db"
  using assms
  by (auto simp: CanCreateCollection_def bind_eq_Inr CountCollections_def live_collections_def
      dest!: statement_Inr split: if_splits)

lemma add_performance_eq:
  "add_performance u colls = foldl fadd u (map (\<lambda>c. EstimatePerformanceMemMB (c_MaxVectors c) (c_Dim c))
     (filter (\<lambda>c. c_Tier c = ''performance'') colls))"
  by (induction colls arbitrary: u) (simp_all add: add_performance_def)

lemma performance_loop_gen:
  assumes "for_acc (\<lambda>bucket used.
         bind (map_err (g bucket) (ListCollections (b_ID bucket))) (\<lambda>colls.
         return (add_performance used colls)))
       bs u db = (Inr v, db')"
  shows "v = foldl fadd u (map (\<lambda>c. EstimatePerformanceMemMB (c_MaxVectors c) (c_Dim c))
      (filter (\<lambda>c. c_Tier c = ''performance'')
         (concat (map (\<lambda>b. sort_key (\<lambda>r. (c_CreatedAt r, c_ID r)) (live_collections (b_ID b) db)) bs)))) \<and>
    buckets db' = buckets db \<and> collections db' = collections db"
  using assms
proof (induction bs arbitrary: u db)
  case (Cons b bs)
  let ?rows = "sort_key (\<lambda>r. (c_CreatedAt r, c_ID r)) (live_collections (b_ID b) db)"
  from Cons.prems obtain colls db1 where one: "ListCollections (b_ID b) db = (Inr colls, db1)"
    and rest: "for_acc (\<lambda>bucket used.
         bind (map_err (g bucket) (ListCollections (b_ID bucket))) (\<lambda>colls.
         return (add_performance used colls)))
       bs (add_performance u colls) db1 = (Inr v, db')"
    by (auto simp: bind_eq_Inr)
  have "colls = ?rows" and db1: "db1 = db\<lparr>outcomes := stl (outcomes db)\<rparr>"
    using statement_Inr [OF one [unfolded ListCollections_def]] by (simp_all add: live_collections_def)
  moreover have "live_collections i db1 = live_collections i db" for i
    by (simp add: db1 live_collections_def)
  ultimately show ?case
    using Cons.IH [OF rest] by (simp add: add_performance_eq)
qed simp

lemma CanCreatePerformanceCollection_Inr:
  assumes "CanCreatePerformanceCollection cfg mv dm db = (Inr u, db')"
  shows "fadd (performance_used db) (EstimatePerformanceMemMB mv dm) \<le> float64 (PerformanceBudgetMB cfg) \<and>
    buckets db' = buckets db \<and> collections db' = collections db"
proof -
  from assms obtain bs db1 used where bs: "ListBuckets db = (Inr bs, db1)"
    and loop: "for_acc (\<lambda>bucket used.
         bind (map_err (\<lambda>e. Errorf [Lit ''list collections for bucket '', ArgS (b_ID bucket),
             Lit '': '', ArgW e]) (ListCollections (b_ID bucket))) (\<lambda>colls.
         return (add_performance used colls)))
       bs 0 db1 = (Inr used, db')"
    and le: "fadd used (EstimatePerformanceMemMB mv dm) \<le> float64 (PerformanceBudgetMB cfg)"
    by (auto simp: CanCreatePerformanceCollection_def bind_eq_Inr Let_def not_less split: if_splits)
  have bs': "bs = sort_key (\<lambda>r. (b_CreatedAt r, b_ID r)) (live_buckets db)"
    and db1: "db1 = db\<lparr>outcomes := stl (outcomes db)\<rparr>"
    using statement_Inr [OF bs [unfolded ListBuckets_def]] by (simp_all add: live_buckets_def)
  moreover have "live_collections i db1 = live_collections i db" for i
    by (simp add: db1 live_collections_def)
  ultimately have "used = performance_used db"
    using performance_loop_gen [OF loop] by (simp add: performance_used_def performance_rows_def)
  then show ?thesis
    using le performance_loop_gen [OF loop] by (simp add: db1)
qed

section \<open>Properties\<close>

text \<open>A bucket, an index or a pinned index is admitted only while there is room for it: the live
  buckets in total and of the owner, the live indexes of the bucket, and the estimated memory of the
  performance tier stay within the configuration once it is added, and the checks change no row.\<close>

lemma admission_within_limits:
  "(case CanCreateBucket cfg owner db of (Inl e, _) \<Rightarrow> True | (Inr _, db') \<Rightarrow>
      int (length (live_buckets db)) + 1 \<le> MaxBucketsGlobal cfg \<and>
      int (length (filter (\<lambda>b. b_Owner b = owner) (live_buckets db))) + 1 \<le> MaxBucketsPerTenant cfg \<and>
      buckets db' = buckets db \<and> collections db' = collections db) \<and>
   (case CanCreateCollection cfg bid db of (Inl e, _) \<Rightarrow> True | (Inr _, db') \<Rightarrow>
      int (length (live_collections bid db)) + 1 \<le> MaxCollPerBucket cfg \<and>
      buckets db' = buckets db \<and> collections db' = collections db) \<and>
   (case CanCreatePerformanceCollection cfg mv dm db of (Inl e, _) \<Rightarrow> True | (Inr _, db') \<Rightarrow>
      fadd (performance_used db) (EstimatePerformanceMemMB mv dm) \<le> float64 (PerformanceBudgetMB cfg) \<and>
      buckets db' = buckets db \<and> collections db' = collections db)"
  by (intro conjI)
     (auto split: prod.split sum.split dest!: CanCreateBucket_Inr CanCreateCollection_Inr CanCreatePerformanceCollection_Inr)

end
