(* ===== verification/VB_Controller.thy ===== *)
theory VB_Controller
  imports Go_Effects "HOL-Library.AList" "HOL-Library.Multiset"
begin

text \<open>
  The load controller (pkg/gateway/vectorbucket/controller/load_controller.go): which
  physical collections are loaded in Milvus, under a memory budget and a bound on their
  number, with least-recently-used eviction, pinning and in-flight counts. Each operation
  here runs alone, from its first lock to its last unlock; VB_Concurrency interleaves them at
  the granularity of the mutex. The map \<open>entries\<close> is an association list; the order in which a
  \<open>range\<close> over the map visits it, which Go leaves open, is decided by \<open>visitRank\<close>, an arbitrary
  function of the content of the map, and every statement below is for all such functions. Milvus is the parameter \<open>A\<close>, the record of the
  functions of the interface \<open>LoadReleaser\<close> over a state \<open>'m\<close> of the service; \<open>clock\<close> is the
  sequence of values \<open>time.Now()\<close> returns.
\<close>

section \<open>State\<close>

record LoadEntry =
  le_Name :: string
  le_LoadedAt :: time
  le_LastAccessAt :: time
  le_EstMemMB :: rat
  le_InFlightCount :: int
  le_Pinned :: bool

record LoadController =
  budgetMB :: rat
  ttl :: int
  maxLoaded :: int
  entries :: "(string \<times> LoadEntry) list"
  lruOrder :: "string list"
  visitRank :: "(string \<times> LoadEntry) list \<Rightarrow> string \<Rightarrow> nat"

record 'm LoadReleaser =
  LoadCollection :: "string \<Rightarrow> ('m, unit) op"
  ReleaseCollection :: "string \<Rightarrow> ('m, unit) op"

record 'm cworld =
  ctrl :: LoadController
  milvus :: 'm
  clock :: "time stream"

definition on_milvus :: "('m, 'a) op \<Rightarrow> (('m, 'z) cworld_scheme, 'a) op" where
  "on_milvus f w = (case f (milvus w) of (r, m) \<Rightarrow> (r, w\<lparr>milvus := m\<rparr>))"

definition on_ctrl :: "(LoadController \<Rightarrow> LoadController) \<Rightarrow> (('m, 'z) cworld_scheme, unit) op" where
  "on_ctrl f = modify (\<lambda>w. w\<lparr>ctrl := f (ctrl w)\<rparr>)"

definition time_now :: "(('m, 'z) cworld_scheme, time) op" where
  "time_now w = (Inr (shd (clock w)), w\<lparr>clock := stl (clock w)\<rparr>)"

definition NewLoadController ::
  "((string \<times> LoadEntry) list \<Rightarrow> string \<Rightarrow> nat) \<Rightarrow> int \<Rightarrow> int \<Rightarrow> int \<Rightarrow> LoadController" where
  "NewLoadController rank budget t maxl =
     \<lparr>budgetMB = float64 budget, ttl = t, maxLoaded = maxl, entries = [], lruOrder = [], visitRank = rank\<rparr>"

section \<open>Operations under the lock\<close>

definition removeLRU :: "string \<Rightarrow> LoadController \<Rightarrow> LoadController" where
  "removeLRU name c = c\<lparr>lruOrder := remove1 name (lruOrder c)\<rparr>"

definition moveLRUToBack :: "string \<Rightarrow> LoadController \<Rightarrow> LoadController" where
  "moveLRUToBack name c = (let c' = removeLRU name c in c'\<lparr>lruOrder := lruOrder c' @ [name]\<rparr>)"

text \<open>\<open>range c.entries\<close>\<close>

definition ranged :: "LoadController \<Rightarrow> (string \<times> LoadEntry) list" where
  "ranged c = sort_key (\<lambda>p. visitRank c (entries c) (fst p)) (entries c)"

lemma ranged_mset [simp]: "mset (ranged c) = mset (entries c)" "set (ranged c) = set (entries c)"
  "length (ranged c) = length (entries c)"
  by (simp_all add: ranged_def)

lemma ranged_Nil [simp]: "ranged c = [] \<longleftrightarrow> entries c = []"
  using ranged_mset(3) [of c] by (metis length_0_conv)

definition usedMBLocked :: "LoadController \<Rightarrow> rat" where
  "usedMBLocked c = foldl fadd 0 (map (le_EstMemMB \<circ> snd) (ranged c))"

definition entry :: "LoadController \<Rightarrow> string \<Rightarrow> LoadEntry option" where
  "entry c name = map_of (entries c) name"

text \<open>Assigning a field through the pointer stored in the map.\<close>

definition set_entry :: "string \<Rightarrow> (LoadEntry \<Rightarrow> LoadEntry) \<Rightarrow> LoadController \<Rightarrow> LoadController" where
  "set_entry name f c =
     c\<lparr>entries := map (\<lambda>(n, e). if n = name then (n, f e) else (n, e)) (entries c)\<rparr>"

text \<open>\<open>delete(c.entries, name); c.removeLRU(name)\<close>\<close>

definition drop_entry :: "string \<Rightarrow> LoadController \<Rightarrow> LoadController" where
  "drop_entry name c = removeLRU name (c\<lparr>entries := filter (\<lambda>(n, e). n \<noteq> name) (entries c)\<rparr>)"

definition add_entry :: "time \<Rightarrow> string \<Rightarrow> rat \<Rightarrow> LoadController \<Rightarrow> LoadController" where
  "add_entry now name estMemMB c =
     c\<lparr>entries := AList.update name \<lparr>le_Name = name, le_LoadedAt = now, le_LastAccessAt = now,
         le_EstMemMB = estMemMB, le_InFlightCount = 0, le_Pinned = False\<rparr> (entries c),
       lruOrder := lruOrder c @ [name]\<rparr>"

definition IsLoaded :: "string \<Rightarrow> LoadController \<Rightarrow> bool" where
  "IsLoaded name c \<longleftrightarrow> entry c name \<noteq> None"

definition IsPinned :: "string \<Rightarrow> LoadController \<Rightarrow> bool" where
  "IsPinned name c \<longleftrightarrow> (case entry c name of Some e \<Rightarrow> le_Pinned e | None \<Rightarrow> False)"

definition touch :: "time \<Rightarrow> string \<Rightarrow> LoadController \<Rightarrow> LoadController" where
  "touch now name c =
     (if IsLoaded name c
      then moveLRUToBack name (set_entry name (\<lambda>e. e\<lparr>le_LastAccessAt := now\<rparr>) c) else c)"

section \<open>The methods\<close>

definition Touch :: "string \<Rightarrow> (('m, 'z) cworld_scheme, unit) op" where
  "Touch name w =
     (if IsLoaded name (ctrl w) then bind time_now (\<lambda>now. on_ctrl (touch now name)) w
      else return () w)"

definition Pin :: "string \<Rightarrow> (('m, 'z) cworld_scheme, unit) op" where
  "Pin name = on_ctrl (set_entry name (\<lambda>e. e\<lparr>le_Pinned := True\<rparr>))"

definition Unpin :: "string \<Rightarrow> (('m, 'z) cworld_scheme, unit) op" where
  "Unpin name = on_ctrl (set_entry name (\<lambda>e. e\<lparr>le_Pinned := False\<rparr>))"

definition InFlightInc :: "string \<Rightarrow> (('m, 'z) cworld_scheme, unit) op" where
  "InFlightInc name =
     on_ctrl (set_entry name (\<lambda>e. e\<lparr>le_InFlightCount := int64_of (le_InFlightCount e + 1)\<rparr>))"

definition InFlightDec :: "string \<Rightarrow> (('m, 'z) cworld_scheme, unit) op" where
  "InFlightDec name = on_ctrl (set_entry name (\<lambda>e.
     if le_InFlightCount e > 0 then e\<lparr>le_InFlightCount := le_InFlightCount e - 1\<rparr> else e))"

definition Release :: "('m, 'x) LoadReleaser_scheme \<Rightarrow> string \<Rightarrow> (('m, 'z) cworld_scheme, unit) op" where
  "Release A name w =
     (if \<not> IsLoaded name (ctrl w) then (Inr (), w)
      else bind (on_milvus (ReleaseCollection A name)) (\<lambda>_. on_ctrl (drop_entry name)) w)"

definition over_budget :: "rat \<Rightarrow> LoadController \<Rightarrow> bool" where
  "over_budget neededMB c \<longleftrightarrow> fadd (usedMBLocked c) neededMB > budgetMB c \<or>
     (maxLoaded c > 0 \<and> int (length (entries c)) \<ge> maxLoaded c)"

definition evictable :: "LoadController \<Rightarrow> string \<Rightarrow> bool" where
  "evictable c candidate =
     (case entry c candidate of
        None \<Rightarrow> False
      | Some e \<Rightarrow> \<not> (le_Pinned e \<or> le_InFlightCount e > 0))"

function evictIfNeededLocked ::
  "('m, 'x) LoadReleaser_scheme \<Rightarrow> rat \<Rightarrow> (('m, 'z) cworld_scheme, unit) op" where
  "evictIfNeededLocked A neededMB w =
     (if over_budget neededMB (ctrl w) then
        if lruOrder (ctrl w) = [] then (Inl (New ''no collections to evict, budget exhausted''), w)
        else (case List.find (evictable (ctrl w)) (lruOrder (ctrl w)) of
            None \<Rightarrow> (Inl (New ''all loaded collections have in-flight queries, cannot evict''), w)
          | Some candidate \<Rightarrow> (case ReleaseCollection A candidate (milvus w) of
              (Inl e, m) \<Rightarrow> (Inl (Errorf [Lit ''release collection '', ArgS candidate, Lit '': '', ArgW e]),
                 w\<lparr>milvus := m\<rparr>)
            | (Inr u, m) \<Rightarrow> evictIfNeededLocked A neededMB
                (w\<lparr>milvus := m, ctrl := drop_entry candidate (ctrl w)\<rparr>)))
      else (Inr (), w))"
  by pat_completeness auto
termination
proof (relation "measure (\<lambda>(A, n, w). length (lruOrder (ctrl w)))", goal_cases)
  case (2 A neededMB w candidate x m u)
  then have "candidate \<in> set (lruOrder (ctrl w))" by (auto simp: find_Some_iff)
  then have "length (remove1 candidate (lruOrder (ctrl w))) < length (lruOrder (ctrl w))"
    by (cases "lruOrder (ctrl w) = []") (simp_all add: length_remove1)
  then show ?case by (simp add: drop_entry_def removeLRU_def)
qed simp

declare evictIfNeededLocked.simps [simp del]

definition ensure_hit :: "string \<Rightarrow> (('m, 'z) cworld_scheme, unit) op" where
  "ensure_hit name = bind time_now (\<lambda>now. on_ctrl (touch now name))"

text \<open>The part of \<open>EnsureLoaded\<close> that runs with the per-name load lock held: the second look
  at the map, the eviction, the call to Milvus, the new entry.\<close>

definition EnsureLoaded_locked ::
  "('m, 'x) LoadReleaser_scheme \<Rightarrow> string \<Rightarrow> rat \<Rightarrow> (('m, 'z) cworld_scheme, unit) op" where
  "EnsureLoaded_locked A name estMemMB w =
     (if IsLoaded name (ctrl w) then ensure_hit name w
      else bind (evictIfNeededLocked A estMemMB) (\<lambda>_.
           bind (map_err (\<lambda>e. Errorf [Lit ''load collection '', ArgS name, Lit '': '', ArgW e])
             (on_milvus (LoadCollection A name))) (\<lambda>_.
           bind time_now (\<lambda>now. on_ctrl (add_entry now name estMemMB)))) w)"

definition EnsureLoaded ::
  "('m, 'x) LoadReleaser_scheme \<Rightarrow> string \<Rightarrow> rat \<Rightarrow> (('m, 'z) cworld_scheme, unit) op" where
  "EnsureLoaded A name estMemMB w =
     (if IsLoaded name (ctrl w) then ensure_hit name w else EnsureLoaded_locked A name estMemMB w)"

definition expired :: "time \<Rightarrow> LoadController \<Rightarrow> LoadEntry \<Rightarrow> bool" where
  "expired now c e \<longleftrightarrow> \<not> le_Pinned e \<and> time_Sub now (le_LastAccessAt e) > ttl c \<and>
     le_InFlightCount e = 0"

definition RunTTLSweep :: "('m, 'x) LoadReleaser_scheme \<Rightarrow> (('m, 'z) cworld_scheme, unit) op" where
  "RunTTLSweep A =
     bind time_now (\<lambda>now.
     bind (gets (\<lambda>w. map fst (filter (\<lambda>(n, e). expired now (ctrl w) e) (ranged (ctrl w))))) (\<lambda>toRelease.
     for_each (\<lambda>name. bind (ignore (on_milvus (ReleaseCollection A name)))
       (\<lambda>_. on_ctrl (drop_entry name))) toRelease))"

definition EstimateMemMB :: "int \<Rightarrow> int \<Rightarrow> rat" where
  "EstimateMemMB vectorCount dm =
     (let bytes = fmul (fmul (float64 vectorCount) (float64 dm)) (fl (6/5))
      in fdiv bytes 1048576)"

section \<open>The invariant\<close>

text \<open>The keys of the map and the LRU list name the same collections, each once, and every
  entry carries its own name.\<close>

definition ctrl_ok :: "LoadController \<Rightarrow> bool" where
  "ctrl_ok c \<longleftrightarrow>
     distinct (map fst (entries c)) \<and> distinct (lruOrder c) \<and>
     set (lruOrder c) = fst ` set (entries c) \<and>
     (\<forall>(n, e) \<in> set (entries c). le_Name e = n)"

lemma ctrl_ok_New: "ctrl_ok (NewLoadController rank b t m)"
  by (simp add: ctrl_ok_def NewLoadController_def)

lemma fst_set_entry [simp]: "map fst (entries (set_entry n f c)) = map fst (entries c)"
  by (simp add: set_entry_def o_def case_prod_unfold if_distrib cong: if_cong)

lemma keys_set_entry [simp]: "fst ` set (entries (set_entry n f c)) = fst ` set (entries c)"
  by (metis fst_set_entry list.set_map)

lemma lruOrder_set_entry [simp]: "lruOrder (set_entry n f c) = lruOrder c"
  by (simp add: set_entry_def)

lemma IsLoaded_iff: "IsLoaded n c \<longleftrightarrow> n \<in> fst ` set (entries c)"
  by (simp add: IsLoaded_def entry_def map_of_eq_None_iff)

lemma names_set_entry:
  assumes "\<And>e. le_Name (f e) = le_Name e"
  shows "(\<forall>(m, e) \<in> set (entries (set_entry n f c)). le_Name e = m) \<longleftrightarrow>
    (\<forall>(m, e) \<in> set (entries c). le_Name e = m)"
proof -
  have "(\<forall>(m, e) \<in> set (map (\<lambda>(k, e). if k = n then (k, f e) else (k, e)) xs). le_Name e = m) \<longleftrightarrow>
      (\<forall>(m, e) \<in> set xs. le_Name e = m)" for xs
    by (induction xs) (auto simp: assms split: if_splits)
  then show ?thesis by (simp add: set_entry_def)
qed

lemma ctrl_ok_set_entry:
  assumes "\<And>e. le_Name (f e) = le_Name e"
  shows "ctrl_ok (set_entry n f c) \<longleftrightarrow> ctrl_ok c"
  by (simp only: ctrl_ok_def fst_set_entry keys_set_entry lruOrder_set_entry names_set_entry [OF assms])

lemma ctrl_ok_drop_entry: "ctrl_ok c \<Longrightarrow> ctrl_ok (drop_entry n c)"
  by (auto simp: ctrl_ok_def drop_entry_def removeLRU_def distinct_map inj_on_def)

lemma ctrl_ok_moveLRUToBack: "ctrl_ok c \<Longrightarrow> IsLoaded n c \<Longrightarrow> ctrl_ok (moveLRUToBack n c)"
  by (auto simp: ctrl_ok_def moveLRUToBack_def removeLRU_def IsLoaded_iff)

lemma ctrl_ok_touch: "ctrl_ok c \<Longrightarrow> ctrl_ok (touch now n c)"
  by (simp add: touch_def ctrl_ok_moveLRUToBack ctrl_ok_set_entry IsLoaded_iff)

lemma update_new: "n \<notin> fst ` set xs \<Longrightarrow> AList.update n e xs = xs @ [(n, e)]"
  by (induction xs) auto

lemma ctrl_ok_add_entry:
  assumes "ctrl_ok c" and "\<not> IsLoaded n c"
  shows "ctrl_ok (add_entry now n est c)"
  using assms by (auto simp: ctrl_ok_def add_entry_def IsLoaded_iff update_new)

section \<open>Eviction\<close>

abbreviation over_ctrl :: "(LoadController \<Rightarrow> bool) \<Rightarrow> ('m, 'z) cworld_scheme \<Rightarrow> bool" where
  "over_ctrl I w \<equiv> I (ctrl w)"

text \<open>The collections eviction may release, least recently used first.\<close>

definition victims :: "LoadController \<Rightarrow> string list" where
  "victims c = filter (evictable c) (lruOrder c)"

lemma find_hd_filter: "List.find p xs = (case filter p xs of [] \<Rightarrow> None | x # _ \<Rightarrow> Some x)"
  by (induction xs) auto

lemma map_of_filter_key:
  "map_of (filter (\<lambda>(k, e). k \<noteq> n) xs) m = (if m = n then None else map_of xs m)"
  by (induction xs) auto

lemma entry_drop_entry: "entry (drop_entry n c) m = (if m = n then None else entry c m)"
  by (simp add: entry_def drop_entry_def removeLRU_def map_of_filter_key)

lemma evictable_drop_entry: "m \<noteq> n \<Longrightarrow> evictable (drop_entry n c) m = evictable c m"
  by (simp add: evictable_def entry_drop_entry)

lemma victims_drop_entry:
  assumes "distinct (lruOrder c)" and "victims c = v # vs"
  shows "victims (drop_entry v c) = vs"
proof -
  have "victims (drop_entry v c) = filter (evictable (drop_entry v c)) (filter (\<lambda>x. x \<noteq> v) (lruOrder c))"
    using assms(1) by (simp add: victims_def drop_entry_def removeLRU_def distinct_remove1_removeAll
        removeAll_filter_not_eq eq_commute)
  also have "\<dots> = filter (\<lambda>x. x \<noteq> v) (filter (evictable c) (lruOrder c))"
    by (simp only: filter_filter) (rule filter_cong; auto simp: evictable_drop_entry)
  also have "\<dots> = filter (\<lambda>x. x \<noteq> v) (v # vs)"
    using assms(2) by (simp add: victims_def)
  also have "\<dots> = vs"
  proof -
    have "distinct (v # vs)" using assms by (metis victims_def distinct_filter)
    then show ?thesis by (auto simp: filter_id_conv)
  qed
  finally show ?thesis .
qed

lemma drop_entry_fields [simp]:
  "budgetMB (drop_entry n c) = budgetMB c" "maxLoaded (drop_entry n c) = maxLoaded c"
  "ttl (drop_entry n c) = ttl c"
  by (simp_all add: drop_entry_def removeLRU_def)

text \<open>A property that survives one round of the loop, whatever Milvus answers, survives it.\<close>

lemma keeps_evict_world:
  fixes A :: "('m, 'x) LoadReleaser_scheme" and I :: "('m, 'z) cworld_scheme \<Rightarrow> bool"
  assumes "\<And>w n u m. I w \<Longrightarrow> evictable (ctrl w) n \<Longrightarrow> n \<in> set (lruOrder (ctrl w)) \<Longrightarrow>
      ReleaseCollection A n (milvus w) = (Inr u, m) \<Longrightarrow>
      I (w\<lparr>milvus := m, ctrl := drop_entry n (ctrl w)\<rparr>)"
    and "\<And>w n e m. I w \<Longrightarrow> ReleaseCollection A n (milvus w) = (Inl e, m) \<Longrightarrow> I (w\<lparr>milvus := m\<rparr>)"
  shows "keeps I (evictIfNeededLocked A need)"
proof (rule keepsI)
  fix w assume "I w"
  then show "I (snd (evictIfNeededLocked A need w))"
    using assms
  proof (induction A need w rule: evictIfNeededLocked.induct)
    case (1 A need w)
    note unf = evictIfNeededLocked.simps [of A need w]
    show ?case
    proof (cases "over_budget need (ctrl w) \<and> lruOrder (ctrl w) \<noteq> []")
      case True
      show ?thesis
      proof (cases "List.find (evictable (ctrl w)) (lruOrder (ctrl w))")
        case None
        with True "1.prems"(1) show ?thesis by (simp add: unf)
      next
        case (Some v)
        then have v: "evictable (ctrl w) v" "v \<in> set (lruOrder (ctrl w))"
          by (auto simp: find_Some_iff)
        obtain r m where r: "ReleaseCollection A v (milvus w) = (r, m)" by fastforce
        show ?thesis
        proof (cases r)
          case (Inl e)
          with True Some r "1.prems"(1,3) show ?thesis by (simp add: unf)
        next
          case (Inr u)
          have "I (snd (evictIfNeededLocked A need (w\<lparr>milvus := m, ctrl := drop_entry v (ctrl w)\<rparr>)))"
            using True Some r Inr v "1.prems"
            by (intro "1.IH" [OF _ _ _ _ _ _ "1.prems"(2,3)]) auto
          with True Some r Inr show ?thesis by (simp add: unf)
        qed
      qed
    qed (use "1.prems"(1) in \<open>auto simp: unf\<close>)
  qed
qed

lemma keeps_evict:
  assumes "\<And>c n. I c \<Longrightarrow> evictable c n \<Longrightarrow> n \<in> set (lruOrder c) \<Longrightarrow> I (drop_entry n c)"
  shows "keeps (over_ctrl I) (evictIfNeededLocked A need)"
  using assms by (intro keeps_evict_world) auto

text \<open>What a run of the eviction loop computes: the first \<open>k\<close> victims are dropped, in order,
  for the least \<open>k\<close> that makes room; on an error the loop stopped on the way.\<close>

lemma evict_spec:
  assumes "distinct (lruOrder (ctrl w))" and "evictIfNeededLocked A need w = (r, w')"
  shows "\<exists>k \<le> length (victims (ctrl w)).
    ctrl w' = fold drop_entry (take k (victims (ctrl w))) (ctrl w) \<and>
    (\<forall>j < k. over_budget need (fold drop_entry (take j (victims (ctrl w))) (ctrl w))) \<and>
    (r = Inr () \<longrightarrow> \<not> over_budget need (ctrl w')) \<and>
    (\<forall>e. r = Inl e \<longrightarrow> over_budget need (ctrl w') \<and>
       (k = length (victims (ctrl w)) \<or>
        (\<exists>m e' m'. ReleaseCollection A (victims (ctrl w) ! k) m = (Inl e', m'))))"
  using assms
proof (induction A need w arbitrary: r w' rule: evictIfNeededLocked.induct)
  case (1 A need w)
  note unf = evictIfNeededLocked.simps [of A need w]
  show ?case
  proof (cases "victims (ctrl w)")
    case Nil
    with "1.prems"(2) show ?thesis
      by (auto simp: unf find_hd_filter victims_def [symmetric] split: if_splits)
  next
    case (Cons v vs)
    then have find: "List.find (evictable (ctrl w)) (lruOrder (ctrl w)) = Some v"
      and ne: "lruOrder (ctrl w) \<noteq> []"
      by (auto simp: find_hd_filter victims_def)
    obtain q m where q: "ReleaseCollection A v (milvus w) = (q, m)" by fastforce
    show ?thesis
    proof (cases "over_budget need (ctrl w)")
      case False
      with "1.prems"(2) show ?thesis by (intro exI [of _ 0]) (auto simp: unf)
    next
      case ob: True
      show ?thesis
      proof (cases q)
        case (Inl e)
        with ob find ne q "1.prems"(2) Cons show ?thesis
          by (intro exI [of _ 0]) (auto simp: unf)
      next
        case (Inr u)
        let ?w = "w\<lparr>milvus := m, ctrl := drop_entry v (ctrl w)\<rparr>"
        have run: "evictIfNeededLocked A need ?w = (r, w')"
          using "1.prems"(2) ob find ne q Inr by (simp add: unf)
        have vs: "victims (ctrl ?w) = vs"
          using victims_drop_entry [OF "1.prems"(1) Cons] by simp
        have d: "distinct (lruOrder (ctrl ?w))"
          using "1.prems"(1) by (simp add: drop_entry_def removeLRU_def)
        from "1.IH" [OF ob ne find q [symmetric] Inr d run]
        obtain k where k: "k \<le> length vs" "ctrl w' = fold drop_entry (take k vs) (ctrl ?w)"
            "\<forall>j<k. over_budget need (fold drop_entry (take j vs) (ctrl ?w))"
            "r = Inr () \<longrightarrow> \<not> over_budget need (ctrl w')"
            "\<forall>e. r = Inl e \<longrightarrow> over_budget need (ctrl w') \<and> (k = length vs \<or>
               (\<exists>m e' m'. ReleaseCollection A (vs ! k) m = (Inl e', m')))"
          unfolding vs by blast
        have "over_budget need (fold drop_entry (take j (v # vs)) (ctrl w))" if "j < Suc k" for j
          using that ob k(3) by (cases j) auto
        with k Cons show ?thesis by (intro exI [of _ "Suc k"]) simp
      qed
    qed
  qed
qed

section \<open>Effects of the methods\<close>

lemma on_milvus_ctrl: "ctrl (snd (on_milvus f w)) = ctrl w"
  by (simp add: on_milvus_def split: prod.splits)

lemma on_milvus_Inr:
  "on_milvus f w = (Inr a, w') \<longleftrightarrow> (\<exists>m. f (milvus w) = (Inr a, m) \<and> w' = w\<lparr>milvus := m\<rparr>)"
  by (auto simp: on_milvus_def split: prod.splits)

lemma time_now_Inr: "time_now w = (Inr t, w') \<longleftrightarrow> t = shd (clock w) \<and> w' = w\<lparr>clock := stl (clock w)\<rparr>"
  by (auto simp: time_now_def)

lemma on_ctrl_Inr: "on_ctrl f w = (Inr u, w') \<longleftrightarrow> w' = w\<lparr>ctrl := f (ctrl w)\<rparr>"
  by (simp add: on_ctrl_def)

lemmas step_Inr = bind_eq_Inr on_milvus_Inr time_now_Inr on_ctrl_Inr

lemma keeps_on_milvus [keeps_rules]: "keeps (over_ctrl I) (on_milvus f)"
  by (rule keepsI) (simp add: on_milvus_ctrl)

lemma keeps_time_now [keeps_rules]: "keeps (over_ctrl I) time_now"
  by (rule keepsI) (simp add: time_now_def)

lemma keeps_on_ctrl: "(\<And>c. I c \<Longrightarrow> I (f c)) \<Longrightarrow> keeps (over_ctrl I) (on_ctrl f)"
  unfolding on_ctrl_def by (rule keeps_modify) simp

text \<open>A property of the controller that survives the four changes the methods make survives
  every method.\<close>

locale controller_invariant =
  fixes I :: "LoadController \<Rightarrow> bool"
  assumes I_set: "I c \<Longrightarrow> (\<And>e. le_Name (f e) = le_Name e) \<Longrightarrow> I (set_entry n f c)"
    and I_back: "I c \<Longrightarrow> IsLoaded n c \<Longrightarrow> I (moveLRUToBack n c)"
    and I_drop: "I c \<Longrightarrow> I (drop_entry n c)"
    and I_add: "I c \<Longrightarrow> \<not> IsLoaded n c \<Longrightarrow> I (add_entry now n est c)"
begin

lemma touch_I: "I c \<Longrightarrow> I (touch now n c)"
  by (simp add: touch_def I_set I_back IsLoaded_iff)

lemma keeps_Touch: "keeps (over_ctrl I) (Touch n)"
proof (rule keepsI)
  fix w :: "('m, 'z) cworld_scheme" assume "over_ctrl I w"
  then show "over_ctrl I (snd (Touch n w))"
    by (simp add: Touch_def op_defs time_now_def on_ctrl_def touch_I)
qed

lemma keeps_flags:
  "keeps (over_ctrl I) (Pin n)" "keeps (over_ctrl I) (Unpin n)"
  "keeps (over_ctrl I) (InFlightInc n)" "keeps (over_ctrl I) (InFlightDec n)"
  unfolding Pin_def Unpin_def InFlightInc_def InFlightDec_def
  by (intro keeps_on_ctrl I_set; simp)+

lemma keeps_Release:
  fixes A :: "('m, 'x) LoadReleaser_scheme"
  shows "keeps (over_ctrl I) (Release A n :: (('m, 'z) cworld_scheme, unit) op)"
proof (rule keepsI)
  fix w :: "('m, 'z) cworld_scheme" assume "over_ctrl I w"
  moreover have "keeps (over_ctrl I) (bind (on_milvus (ReleaseCollection A n))
      (\<lambda>_. on_ctrl (drop_entry n) :: (('m, 'z) cworld_scheme, unit) op))"
    by (intro keeps_bind keeps_on_milvus keeps_on_ctrl I_drop)
  ultimately show "over_ctrl I (snd (Release A n w))"
    using triple_snd by (fastforce simp: Release_def)
qed

lemma keeps_ensure_hit: "keeps (over_ctrl I) (ensure_hit n)"
  unfolding ensure_hit_def by (intro keeps_bind keeps_time_now keeps_on_ctrl touch_I)

lemma keeps_evict_I: "keeps (over_ctrl I) (evictIfNeededLocked A est)"
  by (rule keeps_evict) (rule I_drop)

lemma keeps_EnsureLoaded_locked:
  fixes A :: "('m, 'x) LoadReleaser_scheme"
  shows "keeps (over_ctrl I) (EnsureLoaded_locked A n est :: (('m, 'z) cworld_scheme, unit) op)"
proof (rule keepsI)
  fix w :: "('m, 'z) cworld_scheme" assume i: "over_ctrl I w"
  show "over_ctrl I (snd (EnsureLoaded_locked A n est w))"
  proof (cases "IsLoaded n (ctrl w)")
    case True
    then show ?thesis
      using i by (simp add: EnsureLoaded_locked_def keeps_snd [OF keeps_ensure_hit])
  next
    case False
    let ?J = "\<lambda>c. I c \<and> \<not> IsLoaded n c"
    have "triple (over_ctrl ?J) (bind (evictIfNeededLocked A est) (\<lambda>_.
           bind (map_err (\<lambda>e. Errorf [Lit ''load collection '', ArgS n, Lit '': '', ArgW e])
             (on_milvus (LoadCollection A n))) (\<lambda>_.
           bind time_now (\<lambda>now. on_ctrl (add_entry now n est))))) (\<lambda>_. over_ctrl I) (\<lambda>_. over_ctrl I)"
    proof (intro triple_bind [where R = "\<lambda>_. over_ctrl ?J"])
      show "triple (over_ctrl ?J) (evictIfNeededLocked A est) (\<lambda>_. over_ctrl ?J) (\<lambda>_. over_ctrl I)"
        by (rule triple_weaken [OF keeps_evict [where I = ?J]])
           (auto simp: I_drop IsLoaded_def entry_drop_entry)
      show "triple (over_ctrl ?J) (map_err (\<lambda>e. Errorf [Lit ''load collection '', ArgS n, Lit '': '', ArgW e])
          (on_milvus (LoadCollection A n))) (\<lambda>_. over_ctrl ?J) (\<lambda>_. over_ctrl I)"
        by (rule triple_weaken [OF keeps_map_err [OF keeps_on_milvus [of ?J]]]) auto
      show "triple (over_ctrl ?J) time_now (\<lambda>_. over_ctrl ?J) (\<lambda>_. over_ctrl I)"
        by (rule triple_weaken [OF keeps_time_now [of ?J]]) auto
      show "triple (over_ctrl ?J) (on_ctrl (add_entry now n est)) (\<lambda>_. over_ctrl I) (\<lambda>_. over_ctrl I)" for now
        by (auto simp: triple_def on_ctrl_def modify_def I_add)
    qed
    from triple_snd [OF this, of w] i False show ?thesis
      by (simp add: EnsureLoaded_locked_def)
  qed
qed

lemma keeps_EnsureLoaded:
  fixes A :: "('m, 'x) LoadReleaser_scheme"
  shows "keeps (over_ctrl I) (EnsureLoaded A n est :: (('m, 'z) cworld_scheme, unit) op)"
proof (rule keepsI)
  fix w :: "('m, 'z) cworld_scheme" assume "over_ctrl I w"
  then show "over_ctrl I (snd (EnsureLoaded A n est w))"
    by (simp add: EnsureLoaded_def keeps_snd [OF keeps_ensure_hit] keeps_snd [OF keeps_EnsureLoaded_locked])
qed

lemma keeps_RunTTLSweep: "keeps (over_ctrl I) (RunTTLSweep A)"
  unfolding RunTTLSweep_def
  by (intro keeps_bind keeps_time_now keeps_gets keeps_for_each keeps_ignore keeps_on_milvus
      keeps_on_ctrl I_drop)

end

interpretation bookkeeping: controller_invariant ctrl_ok
  by unfold_locales
     (simp_all add: ctrl_ok_set_entry ctrl_ok_moveLRUToBack ctrl_ok_drop_entry ctrl_ok_add_entry)

interpretation settings: controller_invariant "\<lambda>c. (budgetMB c, ttl c, maxLoaded c) = k" for k
  by unfold_locales
     (auto simp: set_entry_def moveLRUToBack_def removeLRU_def add_entry_def)

lemmas controller_keeps = bookkeeping.keeps_Touch bookkeeping.keeps_flags bookkeeping.keeps_Release
  bookkeeping.keeps_EnsureLoaded bookkeeping.keeps_RunTTLSweep

section \<open>What a call achieves\<close>

lemma entry_set_entry: "entry (set_entry n f c) m = (if m = n then map_option f (entry c n) else entry c m)"
proof -
  have "map_of (map (\<lambda>(k, e). if k = n then (k, f e) else (k, e)) xs) m =
      (if m = n then map_option f (map_of xs n) else map_of xs m)" for xs
    by (induction xs) auto
  then show ?thesis by (simp add: entry_def set_entry_def)
qed

lemma entry_moveLRUToBack [simp]: "entry (moveLRUToBack n c) = entry c"
  by (rule ext) (simp add: entry_def moveLRUToBack_def removeLRU_def)

lemma entry_touch: "entry (touch now n c) m =
    (if m = n then map_option (\<lambda>e. e\<lparr>le_LastAccessAt := now\<rparr>) (entry c n) else entry c m)"
  by (auto simp: touch_def entry_set_entry IsLoaded_def)

lemma entry_add_entry: "entry (add_entry now n est c) m =
    (if m = n then Some \<lparr>le_Name = n, le_LoadedAt = now, le_LastAccessAt = now,
       le_EstMemMB = est, le_InFlightCount = 0, le_Pinned = False\<rparr> else entry c m)"
  by (simp add: entry_def add_entry_def update_conv')

lemma entry_fold_drop: "entry (fold drop_entry ns c) m = (if m \<in> set ns then None else entry c m)"
  by (induction ns arbitrary: c) (auto simp: entry_drop_entry)

lemma IsLoaded_drop [simp]: "IsLoaded m (drop_entry n c) \<longleftrightarrow> m \<noteq> n \<and> IsLoaded m c"
  by (simp add: IsLoaded_def entry_drop_entry)

lemma entries_fold_drop:
  "entries (fold drop_entry ns c) = filter (\<lambda>(n, e). n \<notin> set ns) (entries c)"
  by (induction ns arbitrary: c)
     (auto simp: drop_entry_def removeLRU_def intro!: filter_cong)

lemma lruOrder_fold_drop:
  "distinct (lruOrder c) \<Longrightarrow> lruOrder (fold drop_entry ns c) = filter (\<lambda>n. n \<notin> set ns) (lruOrder c)"
  by (induction ns arbitrary: c)
     (auto simp: drop_entry_def removeLRU_def distinct_remove1_removeAll removeAll_filter_not_eq
       intro!: filter_cong)

lemma victims_sub: "set (victims c) \<subseteq> {n. evictable c n}"
  by (auto simp: victims_def)

text \<open>A call that misses runs the eviction, loads, and appends the entry.\<close>

lemma EnsureLoaded_miss:
  assumes "\<not> IsLoaded n (ctrl w)" and "EnsureLoaded A n est w = (Inr (), w')"
  obtains w1 m where "evictIfNeededLocked A est w = (Inr (), w1)"
    and "LoadCollection A n (milvus w1) = (Inr (), m)"
    and "w' = w1\<lparr>milvus := m, clock := stl (clock w1),
        ctrl := add_entry (shd (clock w1)) n est (ctrl w1)\<rparr>"
  using assms by (auto simp: EnsureLoaded_def EnsureLoaded_locked_def step_Inr)

lemma EnsureLoaded_hit:
  "IsLoaded n (ctrl w) \<Longrightarrow> EnsureLoaded A n est w =
     (Inr (), w\<lparr>clock := stl (clock w), ctrl := touch (shd (clock w)) n (ctrl w)\<rparr>)"
  by (simp add: EnsureLoaded_def ensure_hit_def bind_def time_now_def on_ctrl_def modify_def)

text \<open>A failed miss leaves the controller as eviction left it.\<close>

lemma EnsureLoaded_error:
  assumes "EnsureLoaded A n est w = (Inl e, w')"
  shows "\<not> IsLoaded n (ctrl w) \<and> (\<exists>r w1. evictIfNeededLocked A est w = (r, w1) \<and> ctrl w' = ctrl w1)"
proof -
  have miss: "\<not> IsLoaded n (ctrl w)"
    using assms by (auto simp: EnsureLoaded_hit)
  obtain r w1 where ev: "evictIfNeededLocked A est w = (r, w1)" by fastforce
  have "ctrl w' = ctrl w1"
    using assms miss ev
    by (auto simp: EnsureLoaded_def EnsureLoaded_locked_def bind_def map_err_def on_milvus_def
        time_now_def on_ctrl_def modify_def split: sum.splits prod.splits)
  with miss ev show ?thesis by blast
qed

lemma EnsureLoaded_loads:
  assumes "EnsureLoaded A n est w = (Inr (), w')"
  shows "IsLoaded n (ctrl w')"
proof (cases "IsLoaded n (ctrl w)")
  case True
  with assms show ?thesis by (auto simp: EnsureLoaded_hit IsLoaded_def entry_touch)
next
  case False
  then obtain t w1 where "ctrl w' = add_entry t n est (ctrl w1)"
    using EnsureLoaded_miss [OF _ assms] by (metis cworld.select_convs(1) cworld.surjective cworld.update_convs(1))
  then show ?thesis by (simp add: IsLoaded_def entry_add_entry)
qed

definition protected :: "LoadEntry \<Rightarrow> bool" where
  "protected e \<longleftrightarrow> le_Pinned e \<or> le_InFlightCount e > 0"

lemma evict_keeps_protected:
  assumes "entry (ctrl w) m = Some e" and "protected e"
  shows "entry (ctrl (snd (evictIfNeededLocked A est w))) m = Some e"
  using assms
  by (intro triple_snd [OF keeps_evict [where I = "\<lambda>c. entry c m = Some e"]])
     (auto simp: entry_drop_entry evictable_def protected_def)

lemma EnsureLoaded_keeps_protected:
  assumes "entry (ctrl w) m = Some e" and "protected e" and "m \<noteq> n"
  shows "entry (ctrl (snd (EnsureLoaded A n est w))) m = Some e"
proof (cases "IsLoaded n (ctrl w)")
  case True
  with assms show ?thesis by (simp add: EnsureLoaded_hit entry_touch)
next
  case False
  note ev = evict_keeps_protected [OF assms(1,2), of A est]
  obtain r w' where run: "EnsureLoaded A n est w = (r, w')" by fastforce
  show ?thesis
  proof (cases r)
    case (Inl x)
    with run ev EnsureLoaded_error [of A n est w x w'] show ?thesis by auto
  next
    case (Inr u)
    with run False ev assms(3) show ?thesis
      by (auto elim!: EnsureLoaded_miss simp: entry_add_entry)
  qed
qed

text \<open>The exact sum of the estimates.\<close>

definition estimates :: "LoadController \<Rightarrow> rat list" where
  "estimates c = map (le_EstMemMB \<circ> snd) (entries c)"

lemma estimates_add_entry: "\<not> IsLoaded n c \<Longrightarrow> estimates (add_entry now n est c) = estimates c @ [est]"
  by (simp add: estimates_def add_entry_def update_new IsLoaded_iff)

text \<open>In whatever order the range adds them up, the estimates exceed the result at most by the rounding.\<close>

lemma used_lower:
  assumes "\<forall>x \<in> set (estimates c). 0 \<le> x" and "0 \<le> est"
  shows "(sum_list (estimates c) + est) * (1 - eps) ^ Suc (length (entries c)) \<le> fadd (usedMBLocked c) est"
proof -
  let ?xs = "map (le_EstMemMB \<circ> snd) (ranged c) @ [est]"
  have "sum_list (map (le_EstMemMB \<circ> snd) (ranged c)) = sum_list (estimates c)"
    by (metis estimates_def mset_map ranged_mset(1) sum_mset_sum_list)
  with sum_lower [of 0 ?xs] assms show ?thesis
    by (auto simp: estimates_def usedMBLocked_def)
qed

lemma estimates_fold_drop: "set (estimates (fold drop_entry ns c)) \<subseteq> set (estimates c)"
  by (auto simp: estimates_def entries_fold_drop)

lemma length_add_entry:
  "\<not> IsLoaded n c \<Longrightarrow> length (entries (add_entry now n est c)) = Suc (length (entries c))"
  by (simp add: add_entry_def update_new IsLoaded_iff)

lemma evict_not_loaded:
  "\<not> IsLoaded n (ctrl w) \<Longrightarrow> \<not> IsLoaded n (ctrl (snd (evictIfNeededLocked A est w)))"
  by (rule triple_snd [OF keeps_evict [where I = "\<lambda>c. \<not> IsLoaded n c"]]) auto

lemma add_entry_fields [simp]:
  "budgetMB (add_entry now n est c) = budgetMB c" "maxLoaded (add_entry now n est c) = maxLoaded c"
  by (simp_all add: add_entry_def)

lemma EnsureLoaded_within_budget:
  assumes "\<not> IsLoaded n (ctrl w)" and "distinct (lruOrder (ctrl w))"
    and "EnsureLoaded A n est w = (Inr (), w')"
    and "\<forall>x \<in> set (estimates (ctrl w)). 0 \<le> x" and "0 \<le> est"
  shows "sum_list (estimates (ctrl w')) * (1 - eps) ^ length (entries (ctrl w')) \<le> budgetMB (ctrl w') \<and>
    (maxLoaded (ctrl w') > 0 \<longrightarrow> int (length (entries (ctrl w'))) \<le> maxLoaded (ctrl w'))"
proof -
  obtain w1 m where ev: "evictIfNeededLocked A est w = (Inr (), w1)"
      and w': "w' = w1\<lparr>milvus := m, clock := stl (clock w1),
        ctrl := add_entry (shd (clock w1)) n est (ctrl w1)\<rparr>"
    using EnsureLoaded_miss [OF assms(1,3)] by metis
  have "\<not> over_budget est (ctrl w1)" and "set (estimates (ctrl w1)) \<subseteq> set (estimates (ctrl w))"
    using evict_spec [OF assms(2) ev] by (auto dest: subsetD [OF estimates_fold_drop])
  moreover from this(2) assms(4,5) have "(sum_list (estimates (ctrl w1)) + est) * (1 - eps) ^ Suc (length (entries (ctrl w1)))
      \<le> fadd (usedMBLocked (ctrl w1)) est" by (intro used_lower) auto
  moreover have "\<not> IsLoaded n (ctrl w1)"
    using evict_not_loaded [OF assms(1), of A est] ev by simp
  ultimately show ?thesis
    by (auto simp: w' estimates_add_entry length_add_entry over_budget_def)
qed

lemma EnsureLoaded_succeeds:
  assumes ok: "ctrl_ok (ctrl w)" and room: "fl est \<le> budgetMB (ctrl w)"
    and free: "\<And>m e. entry (ctrl w) m = Some e \<Longrightarrow> \<not> protected e"
    and load: "\<And>m. \<exists>m'. LoadCollection A n m = (Inr (), m')"
    and release: "\<And>x m. \<exists>m'. ReleaseCollection A x m = (Inr (), m')"
  shows "\<exists>w'. EnsureLoaded A n est w = (Inr (), w')"
proof (cases "IsLoaded n (ctrl w)")
  case True
  then show ?thesis by (simp add: EnsureLoaded_hit)
next
  case False
  have vic: "victims (ctrl w) = lruOrder (ctrl w)"
  proof -
    have "evictable (ctrl w) x" if "x \<in> set (lruOrder (ctrl w))" for x
    proof -
      from that ok have "IsLoaded x (ctrl w)" by (simp add: ctrl_ok_def IsLoaded_iff)
      then show ?thesis using free [of x] by (auto simp: IsLoaded_def evictable_def protected_def)
    qed
    then show ?thesis by (simp add: victims_def filter_id_conv)
  qed
  have dl: "distinct (lruOrder (ctrl w))"
    and keys: "set (lruOrder (ctrl w)) = fst ` set (entries (ctrl w))"
    using ok by (simp_all add: ctrl_ok_def)
  obtain r w1 where ev: "evictIfNeededLocked A est w = (r, w1)" by fastforce
  have "\<exists>u. r = Inr u"
  proof (cases r)
    case (Inl e)
    have "ReleaseCollection A x m \<noteq> (Inl e', m')" for x m e' m'
      using release [of x m] by auto
    with evict_spec [OF dl ev] Inl vic
    have "over_budget est (ctrl w1)" and "ctrl w1 = fold drop_entry (lruOrder (ctrl w)) (ctrl w)"
      by auto
    moreover have "entries (fold drop_entry (lruOrder (ctrl w)) (ctrl w)) = []"
      using keys by (simp add: entries_fold_drop filter_empty_conv case_prod_unfold)
    moreover have "budgetMB (fold drop_entry ns c) = budgetMB c" for ns c
      by (induction ns arbitrary: c) auto
    ultimately show ?thesis
      using room by (auto simp: over_budget_def usedMBLocked_def ranged_def fadd_def)
  qed blast
  moreover obtain m where "LoadCollection A n (milvus w1) = (Inr (), m)" using load by blast
  ultimately show ?thesis
    using False ev
    by (auto simp: EnsureLoaded_def EnsureLoaded_locked_def bind_def map_err_def on_milvus_def
        time_now_def on_ctrl_def modify_def)
qed

section \<open>The sweep\<close>

lemma release_loop:
  "\<exists>w'. for_each (\<lambda>name. bind (ignore (on_milvus (ReleaseCollection A name)))
       (\<lambda>_. on_ctrl (drop_entry name))) ns w = (Inr (), w') \<and> ctrl w' = fold drop_entry ns (ctrl w)"
proof (induction ns arbitrary: w)
  case (Cons n ns)
  have "bind (ignore (on_milvus (ReleaseCollection A n))) (\<lambda>_. on_ctrl (drop_entry n)) w =
      (Inr (), (snd (on_milvus (ReleaseCollection A n) w))\<lparr>ctrl := drop_entry n (ctrl w)\<rparr>)"
    by (simp add: bind_def ignore_def on_ctrl_def modify_def on_milvus_ctrl)
  then show ?case
    using Cons.IH [of "(snd (on_milvus (ReleaseCollection A n) w))\<lparr>ctrl := drop_entry n (ctrl w)\<rparr>"]
    by (simp add: bind_def)
qed (simp add: return_def)

definition expired_names :: "time \<Rightarrow> LoadController \<Rightarrow> string list" where
  "expired_names now c = map fst (filter (\<lambda>(n, e). expired now c e) (ranged c))"

lemma RunTTLSweep_ctrl:
  "ctrl (snd (RunTTLSweep A w)) = fold drop_entry (expired_names (shd (clock w)) (ctrl w)) (ctrl w)"
  using release_loop [of A "expired_names (shd (clock w)) (ctrl w)" "w\<lparr>clock := stl (clock w)\<rparr>"]
  by (auto simp: RunTTLSweep_def bind_def time_now_def gets_def expired_names_def)

lemma expired_names_iff:
  "distinct (map fst (entries c)) \<Longrightarrow> (n, e) \<in> set (entries c) \<Longrightarrow>
   n \<in> set (expired_names now c) \<longleftrightarrow> expired now c e"
  by (auto simp: expired_names_def dest: eq_key_imp_eq_value intro!: rev_image_eqI [of "(n, e)"])

lemma RunTTLSweep_entries:
  assumes "ctrl_ok (ctrl w)"
  shows "entries (ctrl (snd (RunTTLSweep A w))) =
    filter (\<lambda>(n, e). \<not> expired (shd (clock w)) (ctrl w) e) (entries (ctrl w))"
  using assms by (auto simp: RunTTLSweep_ctrl entries_fold_drop expired_names_iff ctrl_ok_def
      intro!: filter_cong)

lemma map_of_filter_Some:
  "distinct (map fst xs) \<Longrightarrow> map_of xs n = Some e \<Longrightarrow> p e \<Longrightarrow> map_of (filter (\<lambda>(n, e). p e) xs) n = Some e"
  by (induction xs) (auto simp: map_of_eq_None_iff split: if_splits)

section \<open>The controller and Milvus\<close>

text \<open>What the controller relies on: a call of Milvus that reports success had its effect on
  the set of loaded collections, and one that reports an error had none.\<close>

definition load_laws :: "('m, 'x) LoadReleaser_scheme \<Rightarrow> ('m \<Rightarrow> string set) \<Rightarrow> bool" where
  "load_laws A loaded \<longleftrightarrow>
     (\<forall>n m m'. LoadCollection A n m = (Inr (), m') \<longrightarrow> loaded m' = insert n (loaded m)) \<and>
     (\<forall>n m e m'. LoadCollection A n m = (Inl e, m') \<longrightarrow> loaded m' = loaded m) \<and>
     (\<forall>n m m'. ReleaseCollection A n m = (Inr (), m') \<longrightarrow> loaded m' = loaded m - {n}) \<and>
     (\<forall>n m e m'. ReleaseCollection A n m = (Inl e, m') \<longrightarrow> loaded m' = loaded m)"

lemma load_lawsD:
  assumes "load_laws A loaded"
  shows "LoadCollection A n m = (Inr (), m') \<Longrightarrow> loaded m' = insert n (loaded m)"
    and "LoadCollection A n m = (Inl e, m') \<Longrightarrow> loaded m' = loaded m"
    and "ReleaseCollection A n m = (Inr (), m') \<Longrightarrow> loaded m' = loaded m - {n}"
    and "ReleaseCollection A n m = (Inl e, m') \<Longrightarrow> loaded m' = loaded m"
proof -
  note l = assms [unfolded load_laws_def]
  show "LoadCollection A n m = (Inr (), m') \<Longrightarrow> loaded m' = insert n (loaded m)"
    using conjunct1 [OF l] by blast
  show "LoadCollection A n m = (Inl e, m') \<Longrightarrow> loaded m' = loaded m"
    using conjunct1 [OF conjunct2 [OF l]] by blast
  show "ReleaseCollection A n m = (Inr (), m') \<Longrightarrow> loaded m' = loaded m - {n}"
    using conjunct1 [OF conjunct2 [OF conjunct2 [OF l]]] by blast
  show "ReleaseCollection A n m = (Inl e, m') \<Longrightarrow> loaded m' = loaded m"
    using conjunct2 [OF conjunct2 [OF conjunct2 [OF l]]] by blast
qed

definition tracked :: "LoadController \<Rightarrow> string set" where
  "tracked c = {n. IsLoaded n c}"

definition consistent :: "('m \<Rightarrow> string set) \<Rightarrow> ('m, 'z) cworld_scheme \<Rightarrow> bool" where
  "consistent loaded w \<longleftrightarrow> tracked (ctrl w) \<subseteq> loaded (milvus w)"

lemma tracked_simps [simp]:
  "tracked (drop_entry n c) = tracked c - {n}"
  "tracked (set_entry n f c) = tracked c"
  "tracked (touch now n c) = tracked c"
  "tracked (add_entry now n est c) = insert n (tracked c)"
  by (auto simp: tracked_def IsLoaded_def entry_drop_entry entry_set_entry entry_touch
      entry_add_entry split: if_splits)

lemma consistent_evict:
  assumes "load_laws A loaded"
  shows "keeps (consistent loaded) (evictIfNeededLocked A need)"
  by (rule keeps_evict_world)
     (auto simp: consistent_def dest: load_lawsD(3,4) [OF assms])

lemma consistent_Release:
  assumes "load_laws A loaded" and "consistent loaded w"
  shows "consistent loaded (snd (Release A n w))"
proof -
  obtain r m where r: "ReleaseCollection A n (milvus w) = (r, m)" by fastforce
  show ?thesis
    using assms(2) r load_lawsD(3,4) [OF assms(1), of n "milvus w"]
    by (cases r) (auto simp: Release_def bind_def on_milvus_def on_ctrl_def modify_def consistent_def)
qed

lemma consistent_EnsureLoaded:
  assumes "load_laws A loaded" and "consistent loaded w"
  shows "consistent loaded (snd (EnsureLoaded A n est w))"
proof (cases "IsLoaded n (ctrl w)")
  case True
  with assms(2) show ?thesis by (simp add: EnsureLoaded_hit consistent_def)
next
  case False
  obtain r w1 where ev: "evictIfNeededLocked A est w = (r, w1)" by fastforce
  have c1: "consistent loaded w1"
    using keeps_snd [OF consistent_evict [OF assms(1)] assms(2), of est] ev by simp
  show ?thesis
  proof (cases r)
    case (Inl e)
    with False ev c1 show ?thesis
      by (simp add: EnsureLoaded_def EnsureLoaded_locked_def bind_def)
  next
    case (Inr u)
    obtain q m where q: "LoadCollection A n (milvus w1) = (q, m)" by fastforce
    note unf = EnsureLoaded_def EnsureLoaded_locked_def bind_def map_err_def on_milvus_def
      time_now_def on_ctrl_def modify_def
    show ?thesis
    proof (cases q)
      case (Inl e)
      with q have "loaded m = loaded (milvus w1)" by (simp add: load_lawsD(2) [OF assms(1)])
      with False ev Inr q Inl c1 show ?thesis by (simp add: unf consistent_def)
    next
      case (Inr v)
      with q have "loaded m = insert n (loaded (milvus w1))" by (simp add: load_lawsD(1) [OF assms(1)])
      with False ev \<open>r = Inr u\<close> q Inr c1 show ?thesis by (auto simp: unf consistent_def)
    qed
  qed
qed

lemma consistent_RunTTLSweep:
  fixes w :: "('m, 'z) cworld_scheme"
  assumes "load_laws A loaded" and "consistent loaded w"
  shows "consistent loaded (snd (RunTTLSweep A w))"
proof -
  have one: "keeps (consistent loaded) (bind (ignore (on_milvus (ReleaseCollection A n)))
      (\<lambda>_. on_ctrl (drop_entry n) :: (('m, 'z) cworld_scheme, unit) op))" for n
  proof (rule keepsI)
    fix v :: "('m, 'z) cworld_scheme" assume "consistent loaded v"
    moreover obtain r m where "ReleaseCollection A n (milvus v) = (r, m)" by fastforce
    ultimately show "consistent loaded (snd (bind (ignore (on_milvus (ReleaseCollection A n)))
        (\<lambda>_. on_ctrl (drop_entry n)) v))"
      using load_lawsD(3,4) [OF assms(1), of n "milvus v"]
      by (cases r) (auto simp: bind_def ignore_def on_milvus_def on_ctrl_def modify_def consistent_def)
  qed
  have "keeps (consistent loaded) (RunTTLSweep A :: (('m, 'z) cworld_scheme, unit) op)"
    unfolding RunTTLSweep_def
    by (intro keeps_bind keeps_gets keeps_for_each one)
       (rule keepsI, simp add: time_now_def consistent_def)
  with assms(2) show ?thesis by (simp add: keeps_iff)
qed

section \<open>Sequences of calls\<close>

datatype ctrl_call =
    CallTouch string | CallPin string | CallUnpin string | CallRelease string
  | CallInFlightInc string | CallInFlightDec string | CallEnsureLoaded string rat | CallRunTTLSweep

fun run_call :: "('m, 'x) LoadReleaser_scheme \<Rightarrow> ctrl_call \<Rightarrow> (('m, 'z) cworld_scheme, unit) op" where
  "run_call A (CallTouch n) = Touch n"
| "run_call A (CallPin n) = Pin n"
| "run_call A (CallUnpin n) = Unpin n"
| "run_call A (CallRelease n) = Release A n"
| "run_call A (CallInFlightInc n) = InFlightInc n"
| "run_call A (CallInFlightDec n) = InFlightDec n"
| "run_call A (CallEnsureLoaded n est) = EnsureLoaded A n est"
| "run_call A CallRunTTLSweep = RunTTLSweep A"

fun run_calls ::
  "('m, 'x) LoadReleaser_scheme \<Rightarrow> ctrl_call list \<Rightarrow> ('m, 'z) cworld_scheme \<Rightarrow> ('m, 'z) cworld_scheme" where
  "run_calls A [] w = w"
| "run_calls A (c # cs) w = run_calls A cs (snd (run_call A c w))"

lemma keeps_run_call: "keeps (over_ctrl ctrl_ok) (run_call A c)"
  by (cases c) (simp_all add: controller_keeps)

lemma run_calls_ctrl_ok: "ctrl_ok (ctrl w) \<Longrightarrow> ctrl_ok (ctrl (run_calls A cs w))"
  by (induction cs arbitrary: w) (auto intro: keeps_snd [OF keeps_run_call])

lemma consistent_run_call:
  assumes "load_laws A loaded" and "consistent loaded w"
  shows "consistent loaded (snd (run_call A c w))"
  using assms consistent_EnsureLoaded [OF assms] consistent_Release [OF assms]
    consistent_RunTTLSweep [OF assms]
  by (cases c) (simp_all add: Touch_def Pin_def Unpin_def InFlightInc_def InFlightDec_def bind_def
      time_now_def on_ctrl_def modify_def return_def consistent_def)

lemma run_calls_consistent:
  "load_laws A loaded \<Longrightarrow> consistent loaded w \<Longrightarrow> consistent loaded (run_calls A cs w)"
  by (induction cs arbitrary: w) (auto intro: consistent_run_call)

section \<open>Properties\<close>

text \<open>An instance of the interface, for the examples: Milvus as the list of loaded names.\<close>

definition list_milvus :: "string list LoadReleaser" where
  "list_milvus = \<lparr>LoadCollection = (\<lambda>n m. (Inr (), n # removeAll n m)),
     ReleaseCollection = (\<lambda>n m. (Inr (), removeAll n m))\<rparr>"

definition entry_of :: "string \<Rightarrow> rat \<Rightarrow> bool \<Rightarrow> string \<times> LoadEntry" where
  "entry_of n est p = (n, \<lparr>le_Name = n, le_LoadedAt = 1, le_LastAccessAt = 1, le_EstMemMB = est,
     le_InFlightCount = 0, le_Pinned = p\<rparr>)"

definition sample_ctrl :: LoadController where
  "sample_ctrl = \<lparr>budgetMB = 100, ttl = 10, maxLoaded = 3,
     entries = [entry_of ''a'' 40 False, entry_of ''b'' 50 True],
     lruOrder = [''a'', ''b''], visitRank = (\<lambda>_ _. 0)\<rparr>"

definition sample_world :: "string list cworld" where
  "sample_world = \<lparr>ctrl = sample_ctrl, milvus = [''b'', ''a''], clock = sconst 100\<rparr>"

definition idle_world :: "string list cworld" where
  "idle_world = \<lparr>ctrl = sample_ctrl\<lparr>entries := [entry_of ''a'' 40 False, entry_of ''b'' 50 False]\<rparr>,
     milvus = [''b'', ''a''], clock = sconst 100\<rparr>"

lemma sample_ok: "ctrl_ok (ctrl sample_world)"
  by (simp add: sample_world_def sample_ctrl_def ctrl_ok_def entry_of_def)

lemma sample_miss: "\<not> IsLoaded ''c'' (ctrl sample_world)"
  by (simp add: sample_world_def sample_ctrl_def IsLoaded_iff entry_of_def)

lemma EnsureLoaded_succeeds_sample:
  "\<exists>w'. EnsureLoaded list_milvus ''c'' 30 sample_world = (Inr (), w')"
  by (simp add: sample_world_def sample_ctrl_def entry_of_def list_milvus_def EnsureLoaded_def
      EnsureLoaded_locked_def IsLoaded_def entry_def evictIfNeededLocked.simps over_budget_def
      ranged_def sort_key_const usedMBLocked_def fadd_def fl_numeral evictable_def drop_entry_def removeLRU_def
      bind_def map_err_def on_milvus_def time_now_def on_ctrl_def modify_def)

text \<open>From a new controller, after any sequence of calls and whatever Milvus answers, the map
  and the LRU list name the same collections, each once, and every entry carries its key.\<close>

lemma controller_bookkeeping:
  "ctrl_ok (ctrl (run_calls A calls (w\<lparr>ctrl := NewLoadController rank budget t maxl\<rparr>)))"
  by (rule run_calls_ctrl_ok) (simp add: ctrl_ok_New)

text \<open>C23: A call of EnsureLoaded that misses evicts the least recently used evictable collections,
  one at a time and no more than needed to make room, and then appends the new entry; when it
  fails, the collections dropped so far are again the first ones of that list.\<close>

theorem EnsureLoaded_evicts_lru_first:
  assumes "ctrl_ok (ctrl w)" and "\<not> IsLoaded n (ctrl w)" and "EnsureLoaded A n est w = (r, w')"
  shows "\<exists>k t. k \<le> length (victims (ctrl w)) \<and>
    (let left = (\<lambda>j. fold drop_entry (take j (victims (ctrl w))) (ctrl w))
     in (\<forall>j < k. over_budget est (left j)) \<and>
        ctrl w' = (case r of Inr _ \<Rightarrow> add_entry t n est (left k) | Inl _ \<Rightarrow> left k) \<and>
        (r = Inr () \<longrightarrow> \<not> over_budget est (left k)))"
proof -
  have dl: "distinct (lruOrder (ctrl w))" using assms(1) by (simp add: ctrl_ok_def)
  show ?thesis
  proof (cases r)
    case (Inl e)
    then obtain q w1 where ev: "evictIfNeededLocked A est w = (q, w1)" and "ctrl w' = ctrl w1"
      using EnsureLoaded_error assms(3) by blast
    with evict_spec [OF dl ev] Inl show ?thesis by auto
  next
    case (Inr u)
    with assms(3) have run: "EnsureLoaded A n est w = (Inr (), w')" by simp
    obtain w1 m where ev: "evictIfNeededLocked A est w = (Inr (), w1)"
      and w': "w' = w1\<lparr>milvus := m, clock := stl (clock w1),
        ctrl := add_entry (shd (clock w1)) n est (ctrl w1)\<rparr>"
      using EnsureLoaded_miss [OF assms(2) run] by metis
    from evict_spec [OF dl ev] obtain k where "k \<le> length (victims (ctrl w))"
      "ctrl w1 = fold drop_entry (take k (victims (ctrl w))) (ctrl w)"
      "\<forall>j<k. over_budget est (fold drop_entry (take j (victims (ctrl w))) (ctrl w))"
      "\<not> over_budget est (ctrl w1)" by auto
    with Inr w' show ?thesis
      by (intro exI [of _ k] exI [of _ "shd (clock w1)"]) simp
  qed
qed

theorem EnsureLoaded_evicts_lru_first_witness:
  "\<exists>k t. k \<le> length (victims sample_ctrl) \<and>
    (let left = (\<lambda>j. fold drop_entry (take j (victims sample_ctrl)) sample_ctrl)
     in (\<forall>j < k. over_budget 30 (left j)) \<and>
        ctrl (snd (EnsureLoaded list_milvus ''c'' 30 sample_world)) =
          (case fst (EnsureLoaded list_milvus ''c'' 30 sample_world) of
             Inr _ \<Rightarrow> add_entry t ''c'' 30 (left k) | Inl _ \<Rightarrow> left k) \<and>
        (fst (EnsureLoaded list_milvus ''c'' 30 sample_world) = Inr () \<longrightarrow> \<not> over_budget 30 (left k)))"
proof -
  show ?thesis
    using EnsureLoaded_evicts_lru_first [OF sample_ok sample_miss, of list_milvus 30, OF prod.collapse [symmetric]]
    by (simp add: sample_world_def)
qed



text \<open>When nothing loaded is pinned or in use, a collection whose estimate is within the budget
  can always be loaded: eviction never blocks it, provided Milvus answers.\<close>

lemma EnsureLoaded_not_stuck:
  assumes "ctrl_ok (ctrl w)" and "fl est \<le> budgetMB (ctrl w)"
    and "\<And>m e. entry (ctrl w) m = Some e \<Longrightarrow> \<not> (le_Pinned e \<or> le_InFlightCount e > 0)"
    and "\<And>m. \<exists>m'. LoadCollection A n m = (Inr (), m')"
    and "\<And>x m. \<exists>m'. ReleaseCollection A x m = (Inr (), m')"
  shows "\<exists>w'. EnsureLoaded A n est w = (Inr (), w') \<and> IsLoaded n (ctrl w')"
proof -
  obtain w' where "EnsureLoaded A n est w = (Inr (), w')"
    using EnsureLoaded_succeeds [OF assms(1,2) _ assms(4,5)] assms(3) by (auto simp: protected_def)
  then show ?thesis using EnsureLoaded_loads by blast
qed

text \<open>A sweep removes exactly the entries that are neither pinned nor in use and whose last
  access is longer ago than the time to live; nothing else of the map changes.\<close>

lemma RunTTLSweep_removes_expired:
  assumes "ctrl_ok (ctrl w)"
  shows "entries (ctrl (snd (RunTTLSweep A w))) =
    filter (\<lambda>(n, e). \<not> (\<not> le_Pinned e \<and> le_InFlightCount e = 0 \<and>
        time_Sub (shd (clock w)) (le_LastAccessAt e) > ttl (ctrl w))) (entries (ctrl w))"
  by (simp add: RunTTLSweep_entries [OF assms] expired_def) (rule filter_cong; auto)

text \<open>If Milvus does what it answers, the controller never believes a collection to be loaded
  that is not: every tracked collection is loaded in Milvus, after any sequence of calls.\<close>

lemma tracked_collections_are_loaded:
  assumes "load_laws A loaded" and "tracked (ctrl w) \<subseteq> loaded (milvus w)"
  shows "tracked (ctrl (run_calls A calls w)) \<subseteq> loaded (milvus (run_calls A calls w))"
  using run_calls_consistent [OF assms(1)] assms(2) by (simp add: consistent_def)

end
