(* ===== verification/VB_Adapter.thy ===== *)
theory VB_Adapter
  imports VB_Controller VB_Protocol
begin

text \<open>
  The adapter to Milvus (pkg/gateway/vectorbucket/adapter): the interface \<open>Adapter\<close> the services
  use, as a record of functions over a state of the service, the adapter of the default build,
  which answers every call with one error, and the adapter of the build with Milvus
  (milvus_adapter_integration.go). The Milvus client is a package outside the repository: it is
  the parameter \<open>C\<close>, a record of its functions over a state \<open>'s\<close>, and the option values the adapter
  builds for it are data. A call of the adapter that panics (an index out of range, a method of a
  nil column) or does not return has the value \<open>None\<close>.
\<close>

section \<open>The interface\<close>

record IndexSpec =
  is_IndexType :: string
  is_Tier :: string
  is_VectorCount :: int
  is_Metric :: string
  is_HNSWM :: int
  is_HNSWEFConstruction :: int

record SearchSpec =
  ss_IndexType :: string
  ss_Tier :: string
  ss_Metric :: string
  ss_NProbe :: int
  ss_HNSWEF :: int
  ss_DiskANNSearchList :: int
  ss_Filter :: string
  ss_TopK :: int

record SearchResult =
  sr_ID :: string
  sr_Score :: float32
  sr_Metadata :: string

record VectorRecord =
  vr_ID :: string
  vr_Vector :: "float32 list"
  vr_Metadata :: string
  vr_CreatedAt :: int

record 'm Adapter = "'m LoadReleaser" +
  ad_CreateCollection :: "string \<Rightarrow> int \<Rightarrow> string \<Rightarrow> ('m, unit) op"
  ad_DropCollection :: "string \<Rightarrow> ('m, unit) op"
  ad_HasCollection :: "string \<Rightarrow> ('m, bool) op"
  ad_CreateIndex :: "string \<Rightarrow> IndexSpec \<Rightarrow> ('m, unit) op"
  ad_Insert :: "string \<Rightarrow> string list \<Rightarrow> float32 list list \<Rightarrow> string list \<Rightarrow> int list \<Rightarrow> ('m, unit) op"
  ad_Upsert :: "string \<Rightarrow> string list \<Rightarrow> float32 list list \<Rightarrow> string list \<Rightarrow> int list \<Rightarrow> ('m, unit) op"
  ad_Delete :: "string \<Rightarrow> string list \<Rightarrow> ('m, unit) op"
  ad_Search :: "string \<Rightarrow> float32 list \<Rightarrow> SearchSpec \<Rightarrow> ('m, SearchResult list) op"
  ad_Scan :: "string \<Rightarrow> int \<Rightarrow> (VectorRecord list \<Rightarrow> ('m, unit) op) \<Rightarrow> ('m, unit) op"
  ad_Count :: "string \<Rightarrow> ('m, int) op"
  ad_Close :: "('m, unit) op"

section \<open>The adapter of the default build\<close>

definition disabled :: "('m, 'a) op" where
  "disabled = fail (Sentinel ErrMilvusIntegrationDisabled)"

definition DisabledAdapter :: "'m Adapter" where
  "DisabledAdapter = \<lparr>
     LoadCollection = (\<lambda>name. disabled), ReleaseCollection = (\<lambda>name. disabled),
     ad_CreateCollection = (\<lambda>name dm metric. disabled), ad_DropCollection = (\<lambda>name. disabled),
     ad_HasCollection = (\<lambda>name. disabled), ad_CreateIndex = (\<lambda>name spec. disabled),
     ad_Insert = (\<lambda>name ids vectors metadataJSON timestamps. disabled),
     ad_Upsert = (\<lambda>name ids vectors metadataJSON timestamps. disabled),
     ad_Delete = (\<lambda>name ids. disabled), ad_Search = (\<lambda>name vector spec. disabled),
     ad_Scan = (\<lambda>name batchSize fn. disabled), ad_Count = (\<lambda>name. disabled),
     ad_Close = return ()\<rparr>"

section \<open>Helpers\<close>

text \<open>\<open>math.Sqrt\<close> of a negative number is NaN, which converts to the least 64-bit integer.\<close>

definition computeNlist :: "int \<Rightarrow> int" where
  "computeNlist vectorCount =
     (let nlist = (if vectorCount < 0 then - (2 ^ 63)
                   else int_of_float (fmul (fsqrt (float64 vectorCount)) 4));
          nlist = (if nlist < 1024 then 1024 else nlist)
      in if nlist > 65536 then 65536 else nlist)"

definition adapter_normalizeMetric :: "string \<Rightarrow> string" where
  "adapter_normalizeMetric metric =
     (if metric = ''L2'' then ''L2'' else if metric = ''COSINE'' then ''COSINE'' else ''COSINE'')"

fun id_items :: "bool \<Rightarrow> string list \<Rightarrow> string" where
  "id_items first [] = ''''"
| "id_items first (i # is) = (if first then '''' else '','') @ Quote i @ id_items False is"

definition buildIDFilter :: "string list \<Rightarrow> string" where
  "buildIDFilter ids = (if ids = [] then '''' else ''id in ['' @ id_items True ids @ '']'')"

section \<open>The options of the Milvus client\<close>

datatype FieldType = FieldTypeVarChar | FieldTypeFloatVector | FieldTypeJSON | FieldTypeInt64

record Field =
  f_Name :: string
  f_DataType :: FieldType
  f_MaxLength :: int
  f_PrimaryKey :: bool
  f_Dim :: int

record CreateCollectionOption =
  co_Name :: string
  co_Schema :: "Field list"
  co_ShardNum :: int
  co_Mmap :: bool

datatype MetricType = L2 | COSINE

datatype Index = HNSWIndex MetricType int int | DiskANNIndex MetricType | IvfSQ8Index MetricType int

record CreateIndexOption =
  io_Name :: string
  io_Field :: string
  io_Index :: Index
  io_Mmap :: bool

datatype AnnParam = HNSWAnnParam int | DiskAnnParam int | IvfAnnParam int

record SearchOption =
  so_Name :: string
  so_TopK :: int
  so_Vector :: "float32 list"
  so_ANNSField :: string
  so_OutputFields :: "string list"
  so_AnnParam :: AnnParam
  so_Filter :: "string option"

record InsertOption =
  no_Name :: string
  no_IDs :: "string list"
  no_Dim :: int
  no_Vectors :: "float32 list list"
  no_Metadata :: "string list"
  no_CreatedAt :: "int list"

section \<open>The results of the Milvus client\<close>

datatype cell = CellBytes string | CellFloatVector "float32 list" | CellOther string

record Column =
  col_Get :: "nat \<Rightarrow> cell result"
  col_GetAsString :: "nat \<Rightarrow> string result"
  col_GetAsInt64 :: "nat \<Rightarrow> int result"

record ResultSet =
  rs_ResultCount :: int
  rs_IDs :: Column
  rs_Scores :: "float32 list"
  rs_GetColumn :: "string \<Rightarrow> Column option"

datatype 'i iter_next = NextErr goerr | NextEOF | NextRows ResultSet 'i

record ('s, 'i) Client =
  cl_New :: "string \<Rightarrow> ('s, unit) op"
  cl_Close :: "('s, unit) op"
  cl_CreateCollection :: "CreateCollectionOption \<Rightarrow> ('s, unit) op"
  cl_DropCollection :: "string \<Rightarrow> ('s, unit) op"
  cl_HasCollection :: "string \<Rightarrow> ('s, bool) op"
  cl_CreateIndex :: "CreateIndexOption \<Rightarrow> ('s, unit) op"
  cl_LoadCollection :: "string \<Rightarrow> ('s, unit) op"
  cl_AwaitLoad :: "string \<Rightarrow> ('s, unit) op"
  cl_ReleaseCollection :: "string \<Rightarrow> ('s, unit) op"
  cl_Insert :: "InsertOption \<Rightarrow> ('s, unit) op"
  cl_Upsert :: "InsertOption \<Rightarrow> ('s, unit) op"
  cl_Delete :: "string \<Rightarrow> string \<Rightarrow> string list \<Rightarrow> ('s, unit) op"
  cl_Flush :: "string \<Rightarrow> ('s, unit) op"
  cl_AwaitFlush :: "string \<Rightarrow> ('s, unit) op"
  cl_Search :: "SearchOption \<Rightarrow> ('s, ResultSet list) op"
  cl_QueryIterator :: "string \<Rightarrow> int \<Rightarrow> string list \<Rightarrow> ('s, 'i) op"
  cl_Next :: "'i \<Rightarrow> 's \<Rightarrow> 'i iter_next \<times> 's"
  cl_GetCollectionStats :: "string \<Rightarrow> ('s, string \<rightharpoonup> string) op"

section \<open>The adapter with Milvus\<close>

record 's MilvusAdapter =
  ma_addr :: string
  ma_client :: bool     \<comment> \<open>\<open>a.client != nil\<close>\<close>
  ma_service :: 's

definition NewMilvusAdapter :: "string \<Rightarrow> 's \<Rightarrow> 's MilvusAdapter" where
  "NewMilvusAdapter addr s = \<lparr>ma_addr = addr, ma_client = False, ma_service = s\<rparr>"

definition on_service :: "('s, 'a) op \<Rightarrow> ('s MilvusAdapter, 'a) op" where
  "on_service f a = (case f (ma_service a) of (r, s) \<Rightarrow> (r, a\<lparr>ma_service := s\<rparr>))"

definition ma_Close :: "('s, 'i) Client \<Rightarrow> ('s MilvusAdapter, unit) op" where
  "ma_Close C a = (if \<not> ma_client a then (Inr (), a) else on_service (cl_Close C) a)"

definition ensureClient :: "('s, 'i) Client \<Rightarrow> ('s MilvusAdapter, unit) op" where
  "ensureClient C a =
     (if ma_client a then (Inr (), a)
      else bind (map_err (\<lambda>e. Errorf [Lit ''connect to milvus at '', ArgS (ma_addr a), Lit '': '', ArgW e])
             (on_service (cl_New C (ma_addr a)))) (\<lambda>_.
           modify (\<lambda>a. a\<lparr>ma_client := True\<rparr>)) a)"

definition with_client :: "('s, 'i) Client \<Rightarrow> ('s, 'a) op \<Rightarrow> ('s MilvusAdapter, 'a) op" where
  "with_client C f = bind (ensureClient C) (\<lambda>_. on_service f)"

definition primaryKeyMaxLength :: int where
  "primaryKeyMaxLength = 1024"

definition new_field :: "string \<Rightarrow> FieldType \<Rightarrow> Field" where
  "new_field n t = \<lparr>f_Name = n, f_DataType = t, f_MaxLength = 0, f_PrimaryKey = False, f_Dim = 0\<rparr>"

definition buildCollectionSchema :: "int \<Rightarrow> Field list" where
  "buildCollectionSchema dm =
     [(new_field ''id'' FieldTypeVarChar)\<lparr>f_MaxLength := primaryKeyMaxLength, f_PrimaryKey := True\<rparr>,
      (new_field ''vector'' FieldTypeFloatVector)\<lparr>f_Dim := dm\<rparr>,
      new_field ''metadata'' FieldTypeJSON,
      new_field ''created_at'' FieldTypeInt64]"

definition newCreateCollectionOption :: "string \<Rightarrow> int \<Rightarrow> CreateCollectionOption" where
  "newCreateCollectionOption name dm =
     \<lparr>co_Name = name, co_Schema = buildCollectionSchema dm, co_ShardNum = 1, co_Mmap = True\<rparr>"

definition ma_CreateCollection ::
  "('s, 'i) Client \<Rightarrow> string \<Rightarrow> int \<Rightarrow> string \<Rightarrow> ('s MilvusAdapter, unit) op" where
  "ma_CreateCollection C name dm metric =
     with_client C (cl_CreateCollection C (newCreateCollectionOption name dm))"

definition ma_DropCollection :: "('s, 'i) Client \<Rightarrow> string \<Rightarrow> ('s MilvusAdapter, unit) op" where
  "ma_DropCollection C name = with_client C (cl_DropCollection C name)"

definition ma_HasCollection :: "('s, 'i) Client \<Rightarrow> string \<Rightarrow> ('s MilvusAdapter, bool) op" where
  "ma_HasCollection C name = with_client C (cl_HasCollection C name)"

definition metricTypeFromString :: "string \<Rightarrow> MetricType" where
  "metricTypeFromString metric =
     (let m = adapter_normalizeMetric metric
      in if m = ''L2'' then L2 else if m = ''COSINE'' then COSINE else COSINE)"

definition submitCreateIndex :: "('s, 'i) Client \<Rightarrow> string \<Rightarrow> IndexSpec \<Rightarrow> ('s, unit) op" where
  "submitCreateIndex C name spec =
     (let metric = metricTypeFromString (is_Metric spec);
          idx = (if is_IndexType spec = ''hnsw''
                   then HNSWIndex metric (is_HNSWM spec) (is_HNSWEFConstruction spec)
                 else if is_IndexType spec = ''diskann'' then DiskANNIndex metric
                 else IvfSQ8Index metric (computeNlist (is_VectorCount spec)))
      in cl_CreateIndex C \<lparr>io_Name = name, io_Field = ''vector'', io_Index = idx, io_Mmap = True\<rparr>)"

definition ma_CreateIndex :: "('s, 'i) Client \<Rightarrow> string \<Rightarrow> IndexSpec \<Rightarrow> ('s MilvusAdapter, unit) op" where
  "ma_CreateIndex C name spec = with_client C (submitCreateIndex C name spec)"

definition ma_LoadCollection :: "('s, 'i) Client \<Rightarrow> string \<Rightarrow> ('s MilvusAdapter, unit) op" where
  "ma_LoadCollection C name =
     with_client C (bind (cl_LoadCollection C name) (\<lambda>_. cl_AwaitLoad C name))"

definition ma_ReleaseCollection :: "('s, 'i) Client \<Rightarrow> string \<Rightarrow> ('s MilvusAdapter, unit) op" where
  "ma_ReleaseCollection C name = with_client C (cl_ReleaseCollection C name)"
text \<open>A call that may panic or run forever: \<open>None\<close>.\<close>

type_synonym ('s, 'a) pop = "'s \<Rightarrow> ('a result \<times> 's) option"

text \<open>\<open>len(vectors[0])\<close> panics when there is no vector.\<close>

definition ma_write ::
  "(('s, 'i) Client \<Rightarrow> InsertOption \<Rightarrow> ('s, unit) op) \<Rightarrow> ('s, 'i) Client \<Rightarrow> string \<Rightarrow> string list \<Rightarrow>
   float32 list list \<Rightarrow> string list \<Rightarrow> int list \<Rightarrow> ('s MilvusAdapter, unit) pop" where
  "ma_write call C name ids vectors metadataJSON timestamps a =
     (case ensureClient C a of
        (Inl e, a') \<Rightarrow> Some (Inl e, a')
      | (Inr _, a') \<Rightarrow>
          if vectors = [] then None
          else Some (on_service (call C \<lparr>no_Name = name, no_IDs = ids, no_Dim = int (length (hd vectors)),
            no_Vectors = vectors, no_Metadata = metadataJSON, no_CreatedAt = timestamps\<rparr>) a'))"

definition ma_Insert ::
  "('s, 'i) Client \<Rightarrow> string \<Rightarrow> string list \<Rightarrow> float32 list list \<Rightarrow> string list \<Rightarrow> int list \<Rightarrow>
   ('s MilvusAdapter, unit) pop" where
  "ma_Insert = ma_write cl_Insert"

definition ma_Upsert ::
  "('s, 'i) Client \<Rightarrow> string \<Rightarrow> string list \<Rightarrow> float32 list list \<Rightarrow> string list \<Rightarrow> int list \<Rightarrow>
   ('s MilvusAdapter, unit) pop" where
  "ma_Upsert = ma_write cl_Upsert"

definition deleteAndFlush :: "('s, 'i) Client \<Rightarrow> string \<Rightarrow> string list \<Rightarrow> ('s, unit) op" where
  "deleteAndFlush C name ids =
     bind (cl_Delete C name ''id'' ids) (\<lambda>_. bind (cl_Flush C name) (\<lambda>_. cl_AwaitFlush C name))"

definition ma_Delete :: "('s, 'i) Client \<Rightarrow> string \<Rightarrow> string list \<Rightarrow> ('s MilvusAdapter, unit) op" where
  "ma_Delete C name ids = with_client C (deleteAndFlush C name ids)"

definition search_option :: "string \<Rightarrow> float32 list \<Rightarrow> SearchSpec \<Rightarrow> SearchOption" where
  "search_option name vector spec = \<lparr>
     so_Name = name, so_TopK = ss_TopK spec, so_Vector = vector, so_ANNSField = ''vector'',
     so_OutputFields = [''metadata''],
     so_AnnParam = (if ss_IndexType spec = ''hnsw'' then HNSWAnnParam (ss_HNSWEF spec)
       else if ss_IndexType spec = ''diskann'' then DiskAnnParam (ss_DiskANNSearchList spec)
       else IvfAnnParam (ss_NProbe spec)),
     so_Filter = (if ss_Filter spec \<noteq> '''' then Some (ss_Filter spec) else None)\<rparr>"

text \<open>A loop that appends one item per index and leaves at the first error or panic.\<close>

fun collect :: "('i \<Rightarrow> 'a result option) \<Rightarrow> 'i list \<Rightarrow> 'a list \<Rightarrow> 'a list result option" where
  "collect f [] out = Some (Inr out)"
| "collect f (i # is) out =
     (case f i of
        None \<Rightarrow> None
      | Some (Inl e) \<Rightarrow> Some (Inl e)
      | Some (Inr x) \<Rightarrow> collect f is (out @ [x]))"

definition bytes_of :: "cell \<Rightarrow> string" where
  "bytes_of v = (case v of CellBytes raw \<Rightarrow> raw | _ \<Rightarrow> [])"

definition search_item :: "ResultSet \<Rightarrow> nat \<Rightarrow> SearchResult result option" where
  "search_item rs i =
     (case col_GetAsString (rs_IDs rs) i of
        Inl e \<Rightarrow> Some (Inl e)
      | Inr rid \<Rightarrow>
          if i \<ge> length (rs_Scores rs) then None
          else (case rs_GetColumn rs ''metadata'' of
              None \<Rightarrow> Some (Inr \<lparr>sr_ID = rid, sr_Score = rs_Scores rs ! i, sr_Metadata = []\<rparr>)
            | Some metaColumn \<Rightarrow> (case col_Get metaColumn i of
                Inl e \<Rightarrow> Some (Inl e)
              | Inr v \<Rightarrow> Some (Inr \<lparr>sr_ID = rid, sr_Score = rs_Scores rs ! i, sr_Metadata = bytes_of v\<rparr>))))"

fun search_sets :: "ResultSet list \<Rightarrow> SearchResult list \<Rightarrow> SearchResult list result option" where
  "search_sets [] out = Some (Inr out)"
| "search_sets (rs # rss) out =
     (case collect (search_item rs) [0..<nat (rs_ResultCount rs)] out of
        None \<Rightarrow> None
      | Some (Inl e) \<Rightarrow> Some (Inl e)
      | Some (Inr out') \<Rightarrow> search_sets rss out')"

definition ma_Search ::
  "('s, 'i) Client \<Rightarrow> string \<Rightarrow> float32 list \<Rightarrow> SearchSpec \<Rightarrow> ('s MilvusAdapter, SearchResult list) pop" where
  "ma_Search C name vector spec a =
     (case with_client C (cl_Search C (search_option name vector spec)) a of
        (Inl e, a') \<Rightarrow> Some (Inl e, a')
      | (Inr results, a') \<Rightarrow> map_option (\<lambda>r. (r, a')) (search_sets results []))"

text \<open>\<open>%T\<close> of a value\<close>

definition cell_type :: "cell \<Rightarrow> string" where
  "cell_type v = (case v of CellBytes _ \<Rightarrow> ''[]uint8'' | CellFloatVector _ \<Rightarrow> ''entity.FloatVector''
     | CellOther t \<Rightarrow> t)"

text \<open>One row of a batch: a nil id or vector column panics; a timestamp that cannot be read is 0.\<close>

definition scan_row_record :: "ResultSet \<Rightarrow> nat \<Rightarrow> VectorRecord result option" where
  "scan_row_record rs i =
     (case rs_GetColumn rs ''id'' of None \<Rightarrow> None | Some idColumn \<Rightarrow>
     (case col_GetAsString idColumn i of Inl e \<Rightarrow> Some (Inl e) | Inr rid \<Rightarrow>
     (case rs_GetColumn rs ''vector'' of None \<Rightarrow> None | Some vectorColumn \<Rightarrow>
     (case col_Get vectorColumn i of Inl e \<Rightarrow> Some (Inl e) | Inr v \<Rightarrow>
     (case v of
        CellFloatVector vec \<Rightarrow>
          (let ts = (case rs_GetColumn rs ''created_at'' of None \<Rightarrow> 0 | Some c \<Rightarrow>
                       (case col_GetAsInt64 c i of Inl _ \<Rightarrow> 0 | Inr t \<Rightarrow> t))
           in case rs_GetColumn rs ''metadata'' of
                None \<Rightarrow> Some (Inr \<lparr>vr_ID = rid, vr_Vector = vec, vr_Metadata = [], vr_CreatedAt = ts\<rparr>)
              | Some metadataColumn \<Rightarrow> (case col_Get metadataColumn i of
                  Inl e \<Rightarrow> Some (Inl e)
                | Inr m \<Rightarrow> Some (Inr \<lparr>vr_ID = rid, vr_Vector = vec, vr_Metadata = bytes_of m,
                    vr_CreatedAt = ts\<rparr>)))
      | _ \<Rightarrow> Some (Inl (Errorf [Lit ''unexpected vector type '', ArgS (cell_type v)])))))))"

definition scan_batch :: "ResultSet \<Rightarrow> VectorRecord list result option" where
  "scan_batch rs = collect (scan_row_record rs) [0..<nat (rs_ResultCount rs)] []"

partial_function (option) scan_loop ::
  "('s, 'i) Client \<Rightarrow> (VectorRecord list \<Rightarrow> ('s MilvusAdapter, unit) pop) \<Rightarrow> 'i \<Rightarrow>
   ('s MilvusAdapter, unit) pop" where
  "scan_loop C fn iter a =
     (case cl_Next C iter (ma_service a) of
        (NextErr e, s) \<Rightarrow> Some (Inl e, a\<lparr>ma_service := s\<rparr>)
      | (NextEOF, s) \<Rightarrow> Some (Inr (), a\<lparr>ma_service := s\<rparr>)
      | (NextRows rs iter', s) \<Rightarrow>
          if rs_ResultCount rs = 0 then Some (Inr (), a\<lparr>ma_service := s\<rparr>)
          else (case scan_batch rs of
              None \<Rightarrow> None
            | Some (Inl e) \<Rightarrow> Some (Inl e, a\<lparr>ma_service := s\<rparr>)
            | Some (Inr rows) \<Rightarrow> (case fn rows (a\<lparr>ma_service := s\<rparr>) of
                None \<Rightarrow> None
              | Some (Inl e, a') \<Rightarrow> Some (Inl e, a')
              | Some (Inr _, a') \<Rightarrow> scan_loop C fn iter' a')))"

definition ma_Scan ::
  "('s, 'i) Client \<Rightarrow> string \<Rightarrow> int \<Rightarrow> (VectorRecord list \<Rightarrow> ('s MilvusAdapter, unit) pop) \<Rightarrow>
   ('s MilvusAdapter, unit) pop" where
  "ma_Scan C name batchSize fn a =
     (let sz = (if batchSize \<le> 0 then 1000 else batchSize)
      in case with_client C (cl_QueryIterator C name sz [''id'', ''vector'', ''metadata'', ''created_at'']) a of
           (Inl e, a') \<Rightarrow> Some (Inl e, a')
         | (Inr iter, a') \<Rightarrow> scan_loop C fn iter a')"

fun first_count :: "string list \<Rightarrow> (string \<rightharpoonup> string) \<Rightarrow> int option" where
  "first_count [] stats = None"
| "first_count (key # keys) stats =
     (case stats key of
        None \<Rightarrow> first_count keys stats
      | Some value \<Rightarrow> (case ParseInt value of None \<Rightarrow> first_count keys stats | Some n \<Rightarrow> Some n))"

definition ma_Count :: "('s, 'i) Client \<Rightarrow> string \<Rightarrow> ('s MilvusAdapter, int) op" where
  "ma_Count C name = bind (with_client C (cl_GetCollectionStats C name)) (\<lambda>stats.
     case first_count [''row_count'', ''count''] stats of
       Some n \<Rightarrow> return n
     | None \<Rightarrow> fail (Errorf [Lit ''row count not found for collection '', ArgS name]))"

section \<open>The size of an IVF index\<close>

lemma computeNlist_unfold:
  "0 \<le> v \<Longrightarrow> computeNlist v = max 1024 (min 65536 \<lfloor>fsqrt (float64 v) * 4\<rfloor>)"
  by (simp add: computeNlist_def int_of_float_def fmul_fsqrt_4 Let_def)

lemma real_sqrt_quarters:
  assumes "q = nat \<lfloor>4 * sqrt (real n)\<rfloor>"
  shows "q ^ 2 \<le> 16 * n" and "16 * n < (q + 1) ^ 2"
proof -
  have q: "real q \<le> 4 * sqrt (real n)" "4 * sqrt (real n) < real q + 1"
    using assms by auto
  have "real q ^ 2 \<le> (4 * sqrt (real n)) ^ 2" using q(1) by (intro power_mono) simp_all
  then have "real (q ^ 2) \<le> real (16 * n)" by (simp add: power_mult_distrib)
  then show "q ^ 2 \<le> 16 * n" by (simp only: of_nat_le_iff)
  have "(4 * sqrt (real n)) ^ 2 < (real q + 1) ^ 2" using q(2) by (intro power_strict_mono) simp_all
  then have "real (16 * n) < real ((q + 1) ^ 2)" by (simp add: power_mult_distrib add.commute)
  then show "16 * n < (q + 1) ^ 2" by (simp only: of_nat_less_iff)
qed

lemma computeNlist_small:
  assumes "0 < n" and "n < 2 ^ 28"
  shows "\<lfloor>fsqrt (float64 (int n)) * 4\<rfloor> = \<lfloor>4 * sqrt (real n)\<rfloor>"
proof -
  define q where "q = nat \<lfloor>4 * sqrt (real n)\<rfloor>"
  have "float64 (int n) = of_nat n" using assms(2) by simp
  moreover have "\<lfloor>fsqrt (of_nat n) * 4\<rfloor> = int q"
    using floor_4_fsqrt [OF real_sqrt_quarters [OF q_def] assms] .
  moreover have "int q = \<lfloor>4 * sqrt (real n)\<rfloor>" by (simp add: q_def)
  ultimately show ?thesis by simp
qed

lemma computeNlist_large:
  assumes "2 ^ 28 \<le> v"
  shows "65536 \<le> \<lfloor>fsqrt (float64 v) * 4\<rfloor>" and "65536 \<le> \<lfloor>4 * sqrt (real_of_int v)\<rfloor>"
proof -
  have "float64 (2 ^ 28) \<le> float64 v" using assms by (rule float64_mono)
  then have "2 ^ (2 * 14) \<le> float64 v" by simp
  from fsqrt_ge_pow2 [OF this] show "65536 \<le> \<lfloor>fsqrt (float64 v) * 4\<rfloor>"
    by (simp add: le_floor_iff)
  have "(16384 :: real) = sqrt (2 ^ 28)" by (simp add: real_sqrt_unique)
  also have "\<dots> \<le> sqrt (real_of_int v)"
    using assms by (intro real_sqrt_le_mono) (metis of_int_le_iff of_int_numeral of_int_power)
  finally show "65536 \<le> \<lfloor>4 * sqrt (real_of_int v)\<rfloor>" by (simp add: le_floor_iff)
qed

section \<open>Scanning\<close>

text \<open>An iterator that delivers these batches and then reports the end.\<close>

fun delivers :: "('s, 'i) Client \<Rightarrow> 'i \<Rightarrow> ResultSet list \<Rightarrow> bool" where
  "delivers C iter [] \<longleftrightarrow> (\<forall>s. cl_Next C iter s = (NextEOF, s))"
| "delivers C iter (rs # rss) \<longleftrightarrow>
     (\<exists>iter'. (\<forall>s. cl_Next C iter s = (NextRows rs iter', s)) \<and> delivers C iter' rss)"

text \<open>The callback on one batch after the other, left at the first error.\<close>

fun for_batches ::
  "(VectorRecord list \<Rightarrow> ('s MilvusAdapter, unit) pop) \<Rightarrow> VectorRecord list list \<Rightarrow>
   ('s MilvusAdapter, unit) pop" where
  "for_batches fn [] a = Some (Inr (), a)"
| "for_batches fn (rows # batches) a =
     (case fn rows a of
        None \<Rightarrow> None
      | Some (Inl e, a') \<Rightarrow> Some (Inl e, a')
      | Some (Inr _, a') \<Rightarrow> for_batches fn batches a')"

lemma scan_loop_delivers:
  assumes "delivers C iter rss" and "list_all2 (\<lambda>rs rows. rs_ResultCount rs \<noteq> 0 \<and> scan_batch rs = Some (Inr rows)) rss batches"
  shows "scan_loop C fn iter a = for_batches fn batches a"
  using assms
proof (induction rss arbitrary: iter batches a)
  case Nil
  then show ?case by (simp add: scan_loop.simps)
next
  case (Cons rs rss)
  from Cons.prems(1) obtain iter' where next_rs: "\<forall>s. cl_Next C iter s = (NextRows rs iter', s)"
    and rest: "delivers C iter' rss" by auto
  from Cons.prems(2) obtain rows bs where b: "batches = rows # bs" "rs_ResultCount rs \<noteq> 0"
    "scan_batch rs = Some (Inr rows)"
    and bs: "list_all2 (\<lambda>rs rows. rs_ResultCount rs \<noteq> 0 \<and> scan_batch rs = Some (Inr rows)) rss bs"
    by (auto simp: list_all2_Cons1)
  show ?case
    using next_rs b Cons.IH [OF rest bs]
    by (subst scan_loop.simps) (auto split: option.splits prod.splits sum.splits)
qed

section \<open>Properties\<close>

text \<open>The number of IVF cells, computed in binary64, is exactly four times the square root
  of the number of vectors, truncated and clamped to the range of Milvus: rounding never shows.\<close>

lemma computeNlist_exact:
  assumes "0 \<le> v"
  shows "computeNlist v = max 1024 (min 65536 \<lfloor>4 * sqrt (real_of_int v)\<rfloor>)"
proof -
  consider "v = 0" | "0 < v" "v < 2 ^ 28" | "2 ^ 28 \<le> v" using assms by linarith
  then show ?thesis
  proof cases
    case 1
    then show ?thesis by (simp add: computeNlist_unfold fsqrt_def)
  next
    case 2
    then have "0 < nat v" "nat v < 2 ^ 28" by (simp_all add: nat_less_iff)
    from computeNlist_small [OF this] 2 show ?thesis by (simp add: computeNlist_unfold)
  next
    case 3
    with computeNlist_large [OF 3] show ?thesis by (simp add: computeNlist_unfold min_absorb1)
  qed
qed

text \<open>Scanning a collection returns once its iterator is exhausted, after it handed every batch
  the iterator delivered to the callback, in order, leaving early only at the callback's error.\<close>

lemma Scan_hands_over_every_batch:
  assumes "with_client C (cl_QueryIterator C name (if batchSize \<le> 0 then 1000 else batchSize)
      [''id'', ''vector'', ''metadata'', ''created_at'']) a = (Inr iter, a')"
    and "delivers C iter rss"
    and "list_all2 (\<lambda>rs rows. rs_ResultCount rs \<noteq> 0 \<and> scan_batch rs = Some (Inr rows)) rss batches"
  shows "ma_Scan C name batchSize fn a = for_batches fn batches a'"
  using assms(1) scan_loop_delivers [OF assms(2,3)] by (simp add: ma_Scan_def Let_def)

text \<open>Writing an empty batch panics as soon as the client is connected: \<open>len(vectors[0])\<close> is
  evaluated before anything is sent; with a vector, the call always returns.\<close>

lemma Upsert_panics_iff_empty:
  "ma_Upsert C name ids vectors metadataJSON timestamps a = None \<longleftrightarrow>
     vectors = [] \<and> (\<exists>a'. ensureClient C a = (Inr (), a'))"
  by (auto simp: ma_Upsert_def ma_write_def split: prod.splits sum.splits)

end
