(* ===== verification/VB_Services.thy ===== *)
theory VB_Services
  imports VB_Router VB_Quota VB_Adapter
begin

text \<open>
  The services (pkg/gateway/vectorbucket/bucket_service.go, object_service.go,
  query_service.go): each handler is the whole method, with every call it makes to the store, the
  router, the quota checks, the load controller and Milvus, in order, and every early return. The
  state of a request is the world of the controller with the metadata store and the sequence of
  values \<open>uuid.NewString()\<close> returns. Logging and metrics, and the readings of the clock that only
  they use, are left out.
\<close>

section \<open>The world of a request\<close>

record 'm world = "'m cworld" +
  meta_db :: sqlite
  uuids :: "string stream"

definition on_db :: "(sqlite, 'a) op \<Rightarrow> (('m, 'z) world_scheme, 'a) op" where
  "on_db f w = (case f (meta_db w) of (r, d) \<Rightarrow> (r, w\<lparr>meta_db := d\<rparr>))"

text \<open>A method of the store that reads the clock first.\<close>

definition on_db_now :: "(time \<Rightarrow> (sqlite, 'a) op) \<Rightarrow> (('m, 'z) world_scheme, 'a) op" where
  "on_db_now f = bind time_now (\<lambda>now. on_db (f now))"

definition NewString :: "(('m, 'z) world_scheme, string) op" where
  "NewString w = (Inr (shd (uuids w)), w\<lparr>uuids := stl (uuids w)\<rparr>)"

text \<open>\<open>defer\<close>: the deferred call runs whatever the body returns.\<close>

definition deferred :: "('s, unit) op \<Rightarrow> ('s, 'a) op \<Rightarrow> ('s, 'a) op" where
  "deferred d m s = (case m s of (r, s') \<Rightarrow> (r, snd (d s')))"

text \<open>\<open>t.UnixMilli()\<close>\<close>

definition UnixMilli :: "time \<Rightarrow> int" where
  "UnixMilli t = (t - 62135596800 * 10 ^ 9) div 10 ^ 6"

section \<open>BucketService\<close>

definition CreateVectorBucket ::
  "Config \<Rightarrow> CreateVectorBucketRequest \<Rightarrow> (('m, 'z) world_scheme, string) op" where
  "CreateVectorBucket cfg req =
     (if length (cvb_VectorBucketName req) < 3
      then fail (wrap_text ErrValidation ''vectorBucketName too short'')
      else
     bind (map_err (wrap_err ErrQuotaExceeded) (on_db (CanCreateBucket cfg (AccountID (cvb_Ctx req))))) (\<lambda>_.
     bind time_now (\<lambda>now.
     bind NewString (\<lambda>rid.
     let bucket = \<lparr>b_ID = rid, b_Name = cvb_VectorBucketName req, b_Owner = AccountID (cvb_Ctx req),
           b_Status = BucketStatusReady, b_CreatedAt = now, b_UpdatedAt = now\<rparr> in
     bind (map_err (wrap_err ErrConflict) (on_db_now (\<lambda>t. CreateBucket t bucket))) (\<lambda>_.
     return (formatBucketARN (Region (cvb_Ctx req)) (AccountID (cvb_Ctx req)) (b_Name bucket)))))))"

definition GetVectorBucket ::
  "GetVectorBucketRequest \<Rightarrow> (('m, 'z) world_scheme, GetVectorBucketResponse) op" where
  "GetVectorBucket req =
     bind (liftR (ResolveNames (gvb_Target req))) (\<lambda>(bucketName, _).
     bind (map_err (wrap_err ErrNotFound) (on_db (GetBucketByName bucketName))) (\<lambda>bucket.
     return \<lparr>gvr_VectorBucketARN =
           formatBucketARN (Region (gvb_Ctx req)) (AccountID (gvb_Ctx req)) (b_Name bucket),
         gvr_VectorBucketName = b_Name bucket,
         gvr_CreationTime = FormatRFC3339 (b_CreatedAt bucket), gvr_Encryption = None\<rparr>))"

definition ListVectorBuckets ::
  "ListVectorBucketsRequest \<Rightarrow> (('m, 'z) world_scheme, ListVectorBucketsResponse) op" where
  "ListVectorBuckets req =
     bind (map_err (wrap_err ErrInternal) (on_db ListBuckets)) (\<lambda>bs.
     return \<lparr>lvr_VectorBuckets = map (\<lambda>bucket. \<lparr>vbs_VectorBucketARN =
             formatBucketARN (Region (lvb_Ctx req)) (AccountID (lvb_Ctx req)) (b_Name bucket),
           vbs_VectorBucketName = b_Name bucket,
           vbs_CreationTime = FormatRFC3339 (b_CreatedAt bucket)\<rparr>) bs,
         lvr_NextToken = []\<rparr>)"

definition DeleteVectorBucket :: "DeleteVectorBucketRequest \<Rightarrow> (('m, 'z) world_scheme, unit) op" where
  "DeleteVectorBucket req =
     bind (liftR (ResolveNames (dvb_Target req))) (\<lambda>(bucketName, _).
     bind (map_err (wrap_err ErrNotFound) (on_db (GetBucketByName bucketName))) (\<lambda>bucket.
     bind (map_err (wrap_err ErrInternal) (on_db (CountCollections (b_ID bucket)))) (\<lambda>count.
     if count > 0
     then fail (Joined [Sentinel ErrConflict,
       New ''delete all vector indexes before deleting the vector bucket''])
     else map_err (wrap_err ErrInternal) (on_db (DeleteBucket (b_ID bucket))))))"

section \<open>ObjectService\<close>

definition service_normalizeMetric :: "string \<Rightarrow> string" where
  "service_normalizeMetric metric =
     (let m = ToLower metric in if m = ''euclidean'' \<or> m = ''l2'' then ''L2'' else ''COSINE'')"

definition service_normalizeIndexType :: "string \<Rightarrow> string" where
  "service_normalizeIndexType indexType =
     (let v = ToLower (TrimSpace indexType)
      in if v = ''ivf_sq8'' then ''ivf_sq8'' else if v = ''hnsw'' then ''hnsw''
         else if v = ''diskann'' then ''diskann'' else [])"

text \<open>The row that \<open>CreateIndex\<close> inserts.\<close>

definition new_collection ::
  "CreateIndexRequest \<Rightarrow> string \<Rightarrow> string \<Rightarrow> string \<Rightarrow> string \<Rightarrow> string \<Rightarrow> int \<Rightarrow> bool \<Rightarrow> time \<Rightarrow> LogicalCollection" where
  "new_collection req bucketID indexID metric indexType tier maxVectors pinned now =
     \<lparr>c_ID = indexID, c_BucketID = bucketID, c_Name = ci_IndexName req, c_Dim = ci_Dimension req,
      c_Metric = metric, c_IndexType = indexType, c_Tier = tier, c_MaxVectors = maxVectors,
      c_Pinned = pinned, c_Status = CollStatusInit,
      c_PhysicalName = PhysicalCollectionNameForTier tier bucketID indexID,
      c_IndexBuilt = False, c_VectorCount = 0, c_EstMemMB = 0, c_LastAccessAt = 0,
      c_MigrateState = [], c_TargetIndexType = [], c_SourcePhysicalName = [],
      c_TargetPhysicalName = [], c_MaintenanceSince = 0, c_LastMigrateError = [],
      c_CreatedAt = now, c_UpdatedAt = now\<rparr>"

text \<open>The checks of \<open>CreateIndex\<close> before the row: the name of the bucket, its row, the
  policy of the bucket and the new row.\<close>

definition CreateIndex_plan ::
  "Config \<Rightarrow> CreateIndexRequest \<Rightarrow>
   (('m, 'z) world_scheme, string \<times> BucketIndexPolicy \<times> LogicalCollection) op" where
  "CreateIndex_plan cfg req =
     (if ci_DataType req \<noteq> ''float32'' then fail (wrap_text ErrValidation ''dataType must be float32'')
      else
     bind (map_err (wrap_err ErrValidation) (check (CheckDimension cfg (ci_Dimension req)))) (\<lambda>_.
     let metric = service_normalizeMetric (ci_DistanceMetric req) in
     bind (map_err (wrap_err ErrValidation) (check (CheckMetric metric))) (\<lambda>_.
     bind (liftR (ResolveNames (ci_Target req))) (\<lambda>(bucketName, _).
     bind (map_err (wrap_err ErrNotFound) (on_db (GetBucketByName bucketName))) (\<lambda>bucket.
     bind (map_err (wrap_err ErrQuotaExceeded) (on_db (CanCreateCollection cfg (b_ID bucket)))) (\<lambda>_.
     bind NewString (\<lambda>indexID.
     bind time_now (\<lambda>now.
     let policy = PolicyForBucket cfg bucketName;
         indexType = bp_IndexType policy;
         tier = TierForIndexType indexType;
         pinned = IsPinnedIndexType indexType;
         maxVectors = (if pinned then bp_MaxVectors policy else 0) in
     bind (when_op pinned (map_err (wrap_err ErrQuotaExceeded)
         (on_db (CanCreatePerformanceCollection cfg maxVectors (ci_Dimension req))))) (\<lambda>_.
     return (bucketName, policy,
       new_collection req (b_ID bucket) indexID metric indexType tier maxVectors pinned now))))))))))"

text \<open>The calls after the row is inserted: the physical collection and its index, each with the
  clean-up of the code when it fails, then the two updates of the row.\<close>

definition CreateIndex_build ::
  "('m, 'x) Adapter_scheme \<Rightarrow> BucketIndexPolicy \<Rightarrow> LogicalCollection \<Rightarrow> (('m, 'z) world_scheme, unit) op" where
  "CreateIndex_build A policy coll =
     bind (map_err (wrap_err ErrInternal) (on_err
         (on_milvus (ad_CreateCollection A (c_PhysicalName coll) (c_Dim coll) (c_Metric coll)))
         (on_db (DeleteCollection (c_ID coll))))) (\<lambda>_.
     bind (map_err (wrap_err ErrInternal) (on_err
         (on_milvus (ad_CreateIndex A (c_PhysicalName coll) \<lparr>is_IndexType = c_IndexType coll,
            is_Tier = c_Tier coll, is_VectorCount = c_VectorCount coll, is_Metric = c_Metric coll,
            is_HNSWM = bp_HNSWM policy, is_HNSWEFConstruction = bp_HNSWEFConstruction policy\<rparr>))
         (bind (ignore (on_milvus (ad_DropCollection A (c_PhysicalName coll)))) (\<lambda>_.
            on_db (DeleteCollection (c_ID coll)))))) (\<lambda>_.
     bind (map_err (wrap_err ErrInternal)
         (on_db_now (\<lambda>t. UpdateCollectionIndexBuilt t (c_ID coll) True))) (\<lambda>_.
     map_err (wrap_err ErrInternal)
         (on_db_now (\<lambda>t. UpdateCollectionStatus t (c_ID coll) CollStatusReady)))))"

text \<open>\<open>EnsureLoaded\<close> and \<open>Pin\<close>, as the code calls them for a pinned collection.\<close>

definition load_pinned ::
  "('m, 'x) Adapter_scheme \<Rightarrow> string \<Rightarrow> rat \<Rightarrow> (('m, 'z) world_scheme, unit) op" where
  "load_pinned A name estMem = bind (EnsureLoaded A name estMem) (\<lambda>_. Pin name)"

definition CreateIndex ::
  "('m, 'x) Adapter_scheme \<Rightarrow> Config \<Rightarrow> CreateIndexRequest \<Rightarrow> (('m, 'z) world_scheme, string) op" where
  "CreateIndex A cfg req =
     bind (CreateIndex_plan cfg req) (\<lambda>(bucketName, policy, coll).
     bind (map_err (wrap_err ErrConflict) (on_db_now (\<lambda>t. CreateCollection t coll))) (\<lambda>_.
     bind (CreateIndex_build A policy coll) (\<lambda>_.
     bind (when_op (c_Pinned coll) (map_err (wrap_err ErrServiceUnavailable)
         (load_pinned A (c_PhysicalName coll) (EstimateMemMB (c_MaxVectors coll) (c_Dim coll))))) (\<lambda>_.
     return (formatIndexARN (Region (ci_Ctx req)) (AccountID (ci_Ctx req)) bucketName (ci_IndexName req))))))"

definition DeleteIndex ::
  "('m, 'x) Adapter_scheme \<Rightarrow> DeleteIndexRequest \<Rightarrow> (('m, 'z) world_scheme, unit) op" where
  "DeleteIndex A req =
     bind (liftR (ResolveNames (di_Target req))) (\<lambda>(bucketName, indexName).
     bind (map_err (wrap_err ErrNotFound) (on_db (Resolve bucketName indexName))) (\<lambda>coll.
     bind (ignore (on_db_now (\<lambda>t. UpdateCollectionStatus t (c_ID coll) CollStatusDeleting))) (\<lambda>_.
     bind (when_op (c_Pinned coll) (Unpin (c_PhysicalName coll))) (\<lambda>_.
     bind (ignore (on_milvus (ReleaseCollection A (c_PhysicalName coll)))) (\<lambda>_.
     bind (map_err (wrap_err ErrInternal) (on_milvus (ad_DropCollection A (c_PhysicalName coll)))) (\<lambda>_.
     map_err (wrap_err ErrInternal) (on_db (DeleteCollection (c_ID coll)))))))))"

definition ChangeIndexModel ::
  "ChangeIndexModelRequest \<Rightarrow> (('m, 'z) world_scheme, ChangeIndexModelResponse) op" where
  "ChangeIndexModel req =
     bind (liftR (ResolveNames (cim_Target req))) (\<lambda>(bucketName, indexName).
     bind (map_err (wrap_err ErrNotFound) (on_db (Resolve bucketName indexName))) (\<lambda>coll.
     if c_MigrateState coll \<noteq> [] then fail (wrap_text ErrConflict ''collection is already migrating'')
     else let indexType = service_normalizeIndexType (cim_IndexModel req) in
     if indexType = []
     then fail (Errorf [ArgW (Sentinel ErrValidation), Lit '': unsupported index model '', ArgQ (cim_IndexModel req)])
     else if indexType = c_IndexType coll
     then fail (Errorf [ArgW (Sentinel ErrConflict), Lit '': index model is already '', ArgS indexType])
     else
     bind (map_err (wrap_err ErrNotFound) (on_db (GetBucketByName bucketName))) (\<lambda>bucket.
     bind NewString (\<lambda>u.
     let targetTier = TierForIndexType indexType;
         targetPhysical = PhysicalCollectionNameForTier targetTier (b_ID bucket) (c_ID coll @ ''_mig_'' @ u) in
     bind time_now (\<lambda>now.
     bind (map_err (wrap_err ErrInternal) (on_db_now (\<lambda>t. UpdateCollectionMigrationState t (c_ID coll)
         ''UPGRADING'' indexType (c_PhysicalName coll) targetPhysical now []))) (\<lambda>_.
     return \<lparr>cimr_IndexARN = formatIndexARN (Region (cim_Ctx req)) (AccountID (cim_Ctx req)) bucketName indexName,
         cimr_IndexModel = indexType, cimr_State = ''UPGRADING''\<rparr>))))))"

text \<open>The loop of \<open>PutVectors\<close>: the columns of the batch, or the first vector of another
  dimension; each row reads the clock.\<close>

fun put_columns ::
  "int \<Rightarrow> PutInputVector list \<Rightarrow> string list \<times> float32 list list \<times> string list \<times> int list \<Rightarrow>
   (('m, 'z) world_scheme, string list \<times> float32 list list \<times> string list \<times> int list) op" where
  "put_columns dm [] cols = return cols"
| "put_columns dm (v # vs) (ids, vectors, metadataJSON, timestamps) =
     (if int (length (piv_Data v)) \<noteq> dm
      then fail (Errorf [ArgW (Sentinel ErrValidation), Lit '': vector '', ArgQ (piv_Key v),
        Lit '' dimension mismatch''])
      else bind time_now (\<lambda>now. put_columns dm vs (ids @ [piv_Key v], vectors @ [piv_Data v],
        metadataJSON @ [piv_Metadata v], timestamps @ [UnixMilli now])))"

text \<open>The first lines of \<open>PutVectors\<close> and \<open>DeleteVectors\<close>: the collection, unless it is migrating.\<close>

definition resolve_writable :: "Target \<Rightarrow> (('m, 'z) world_scheme, LogicalCollection) op" where
  "resolve_writable target =
     bind (liftR (ResolveNames target)) (\<lambda>(bucketName, indexName).
     bind (map_err (wrap_err ErrNotFound) (on_db (Resolve bucketName indexName))) (\<lambda>coll.
     if c_MigrateState coll \<noteq> [] then fail (wrap_text ErrServiceUnavailable ''collection is migrating'')
     else return coll))"

text \<open>\<open>PutVectors\<close> up to the call of Milvus: the checks and the columns of the batch.\<close>

definition PutVectors_plan ::
  "Config \<Rightarrow> PutVectorsRequest \<Rightarrow> (('m, 'z) world_scheme,
     LogicalCollection \<times> string list \<times> float32 list list \<times> string list \<times> int list) op" where
  "PutVectors_plan cfg req =
     bind (resolve_writable (pv_Target req)) (\<lambda>coll.
     bind (map_err (wrap_err ErrQuotaExceeded)
         (check (CheckVectorCount cfg (c_VectorCount coll) (int (length (pv_Vectors req)))))) (\<lambda>_.
     bind (when_op (IsPinnedIndexType (c_IndexType coll)) (map_err (wrap_err ErrQuotaExceeded)
         (check (CheckPerformanceVectorLimit (c_VectorCount coll) (int (length (pv_Vectors req)))
           (c_MaxVectors coll))))) (\<lambda>_.
     bind (put_columns (c_Dim coll) (pv_Vectors req) ([], [], [], [])) (\<lambda>cols.
     return (coll, cols)))))"

definition PutVectors ::
  "('m, 'x) Adapter_scheme \<Rightarrow> Config \<Rightarrow> PutVectorsRequest \<Rightarrow> (('m, 'z) world_scheme, unit) op" where
  "PutVectors A cfg req =
     bind (PutVectors_plan cfg req) (\<lambda>(coll, ids, vectors, metadataJSON, timestamps).
     bind (map_err (wrap_err ErrInternal)
         (on_milvus (ad_Upsert A (c_PhysicalName coll) ids vectors metadataJSON timestamps))) (\<lambda>_.
     bind (map_err (wrap_err ErrInternal)
         (on_db_now (\<lambda>t. UpdateCollectionVectorCount t (c_ID coll) (int (length (pv_Vectors req)))))) (\<lambda>_.
     when_op (c_Pinned coll)
       (let estMem = (if c_EstMemMB coll \<le> 0 then EstimateMemMB (c_MaxVectors coll) (c_Dim coll)
                      else c_EstMemMB coll) in
        bind (map_err (wrap_err ErrInternal) (Release A (c_PhysicalName coll))) (\<lambda>_.
        map_err (wrap_err ErrServiceUnavailable)
          (load_pinned A (c_PhysicalName coll) estMem))))))"

definition DeleteVectors ::
  "('m, 'x) Adapter_scheme \<Rightarrow> DeleteVectorsRequest \<Rightarrow> (('m, 'z) world_scheme, unit) op" where
  "DeleteVectors A req =
     bind (resolve_writable (dv_Target req)) (\<lambda>coll.
     bind (map_err (wrap_err ErrInternal)
         (on_milvus (ad_Delete A (c_PhysicalName coll) (dv_Keys req)))) (\<lambda>_.
     when_op (dv_Keys req \<noteq> [])
       (ignore (on_db_now (\<lambda>t. UpdateCollectionVectorCount t (c_ID coll) (- int (length (dv_Keys req))))))))"

section \<open>QueryService\<close>

definition query_item :: "QueryVectorsRequest \<Rightarrow> SearchResult \<Rightarrow> QueryResultVector" where
  "query_item req result =
     \<lparr>qrv_Key = sr_ID result,
      qrv_Distance = (if qv_ReturnDistance req then sr_Score result else 0),
      qrv_Metadata = (if qv_ReturnMetadata req then sr_Metadata result else [])\<rparr>"

definition query_spec :: "Config \<Rightarrow> string \<Rightarrow> LogicalCollection \<Rightarrow> QueryVectorsRequest \<Rightarrow> SearchSpec" where
  "query_spec cfg bucketName coll req =
     (let policy = PolicyForBucket cfg bucketName in
      \<lparr>ss_IndexType = c_IndexType coll, ss_Tier = c_Tier coll, ss_Metric = c_Metric coll, ss_NProbe = 16,
       ss_HNSWEF = bp_HNSWEFConstruction policy, ss_DiskANNSearchList = bp_DiskANNSearchList policy,
       ss_Filter = TrimSpace (qv_Filter req), ss_TopK = qv_TopK req\<rparr>)"

definition QueryVectors ::
  "('m, 'x) Adapter_scheme \<Rightarrow> Config \<Rightarrow> QueryVectorsRequest \<Rightarrow> (('m, 'z) world_scheme, QueryVectorsResponse) op" where
  "QueryVectors A cfg req =
     bind (liftR (ResolveNames (qv_Target req))) (\<lambda>(bucketName, indexName).
     bind (map_err (wrap_err ErrNotFound) (on_db (Resolve bucketName indexName))) (\<lambda>coll.
     if int (length (qv_QueryVector req)) \<noteq> c_Dim coll
     then fail (wrap_text ErrValidation ''queryVector dimension mismatch'')
     else let estMem = (if c_EstMemMB coll \<le> 0 then EstimateMemMB (c_VectorCount coll) (c_Dim coll)
                        else c_EstMemMB coll) in
     bind (map_err (wrap_err ErrServiceUnavailable) (EnsureLoaded A (c_PhysicalName coll) estMem)) (\<lambda>_.
     bind (InFlightInc (c_PhysicalName coll)) (\<lambda>_.
     deferred (InFlightDec (c_PhysicalName coll))
       (bind (Touch (c_PhysicalName coll)) (\<lambda>_.
        bind (ignore (on_db_now (\<lambda>t. UpdateCollectionLastAccess t (c_ID coll)))) (\<lambda>_.
        bind (map_err (wrap_err ErrInternal) (on_milvus (ad_Search A (c_PhysicalName coll)
            (qv_QueryVector req) (query_spec cfg bucketName coll req)))) (\<lambda>results.
        return \<lparr>qvr_DistanceMetric = ToLower (c_Metric coll),
                qvr_Vectors = map (query_item req) results\<rparr>))))))))"

section \<open>Rules for the handlers\<close>

lemma keeps_case_prod [keeps_rules]:
  "(\<And>a b. keeps J (f a b)) \<Longrightarrow> keeps J (case p of (a, b) \<Rightarrow> f a b)"
  by (cases p) simp

lemma keeps_deferred [keeps_rules]: "keeps J m \<Longrightarrow> keeps J d \<Longrightarrow> keeps J (deferred d m)"
  by (rule keepsI) (simp add: deferred_def keeps_iff split: prod.split, metis snd_conv)

lemma keeps_Let [keeps_rules]: "keeps J (f x) \<Longrightarrow> keeps J (let y = x in f y)"
  by simp

abbreviation over_db :: "(sqlite \<Rightarrow> bool) \<Rightarrow> ('m, 'z) world_scheme \<Rightarrow> bool" where
  "over_db I w \<equiv> I (meta_db w)"

lemma on_db_other [simp]: "ctrl (snd (on_db f w)) = ctrl w" "milvus (snd (on_db f w)) = milvus w"
  by (simp_all add: on_db_def split: prod.split)

lemma meta_db_on_db [simp]: "meta_db (snd (on_db f w)) = snd (f (meta_db w))"
  by (simp add: on_db_def split: prod.split)

text \<open>A part of the world that the store, the clock and the ids do not belong to.\<close>

lemma keeps_ctrl_on_db [keeps_rules]: "keeps (over_ctrl I) (on_db f)"
  by (rule keepsI) simp

lemma keeps_ctrl_NewString [keeps_rules]: "keeps (over_ctrl I) NewString"
  by (rule keepsI) (simp add: NewString_def)

lemma keeps_ctrl_on_db_now [keeps_rules]: "keeps (over_ctrl I) (on_db_now f)"
  unfolding on_db_now_def by (intro keeps_bind keeps_time_now keeps_ctrl_on_db)

lemma keeps_ctrl_put_columns [keeps_rules]: "keeps (over_ctrl I) (put_columns dm vs cols)"
proof (induction vs arbitrary: cols)
  case (Cons v vs)
  then show ?case by (cases cols) (auto intro!: keeps_rules)
qed (auto intro: keeps_rules)

context controller_invariant
begin

lemma keeps_load_pinned: "keeps (over_ctrl I) (load_pinned A n est)"
  unfolding load_pinned_def by (intro keeps_rules keeps_EnsureLoaded keeps_flags)

lemma keeps_CreateIndex: "keeps (over_ctrl I) (CreateIndex A cfg req)"
  unfolding CreateIndex_def CreateIndex_plan_def CreateIndex_build_def Let_def
  by (intro keeps_rules keeps_load_pinned)

lemma keeps_DeleteIndex: "keeps (over_ctrl I) (DeleteIndex A req)"
  unfolding DeleteIndex_def by (intro keeps_rules keeps_flags)

lemma keeps_ChangeIndexModel: "keeps (over_ctrl I) (ChangeIndexModel req)"
  unfolding ChangeIndexModel_def Let_def by (intro keeps_rules)

lemma keeps_PutVectors: "keeps (over_ctrl I) (PutVectors A cfg req)"
  unfolding PutVectors_def PutVectors_plan_def resolve_writable_def Let_def by (intro keeps_rules keeps_Release keeps_load_pinned)

lemma keeps_DeleteVectors: "keeps (over_ctrl I) (DeleteVectors A req)"
  unfolding DeleteVectors_def resolve_writable_def by (intro keeps_rules)

lemma keeps_QueryVectors: "keeps (over_ctrl I) (QueryVectors A cfg req)"
  unfolding QueryVectors_def Let_def by (intro keeps_rules keeps_EnsureLoaded keeps_flags keeps_Touch)

lemma keeps_bucket_service:
  "keeps (over_ctrl I) (CreateVectorBucket cfg cr)" "keeps (over_ctrl I) (GetVectorBucket gr)"
  "keeps (over_ctrl I) (ListVectorBuckets lr)" "keeps (over_ctrl I) (DeleteVectorBucket dr)"
  unfolding CreateVectorBucket_def GetVectorBucket_def ListVectorBuckets_def DeleteVectorBucket_def Let_def
  by (intro keeps_rules)+

lemmas keeps_services = keeps_bucket_service keeps_CreateIndex keeps_DeleteIndex keeps_ChangeIndexModel
  keeps_PutVectors keeps_DeleteVectors keeps_QueryVectors

end

section \<open>What the controller leaves alone\<close>

text \<open>A predicate that no write to the controller, to Milvus or to the clock can falsify is kept by
  every method of the controller.\<close>

locale controller_frame =
  fixes J :: "('m, 'z) cworld_scheme \<Rightarrow> bool"
  assumes J_milvus: "J w \<Longrightarrow> J (w\<lparr>milvus := m\<rparr>)"
    and J_ctrl: "J w \<Longrightarrow> J (w\<lparr>ctrl := c\<rparr>)"
    and J_clock: "J w \<Longrightarrow> J (w\<lparr>clock := t\<rparr>)"
begin

lemma frame_basic: "keeps J (on_milvus f)" "keeps J (on_ctrl g)" "keeps J time_now"
  by (rule keepsI, simp add: on_milvus_def on_ctrl_def modify_def time_now_def J_milvus J_ctrl J_clock
      split: prod.split)+

lemma frame_flags: "keeps J (Pin n)" "keeps J (Unpin n)" "keeps J (InFlightInc n)" "keeps J (InFlightDec n)"
  unfolding Pin_def Unpin_def InFlightInc_def InFlightDec_def by (rule frame_basic)+

lemma frame_Touch: "keeps J (Touch n)"
proof (rule keepsI)
  fix w assume "J w"
  moreover have "keeps J (bind time_now (\<lambda>now. on_ctrl (touch now n)))"
    by (intro keeps_bind frame_basic)
  ultimately show "J (snd (Touch n w))" by (simp add: Touch_def return_def keeps_iff)
qed

lemma frame_Release: "keeps J (Release A n)"
proof (rule keepsI)
  fix w assume "J w"
  moreover have "keeps J (bind (on_milvus (ReleaseCollection A n)) (\<lambda>_. on_ctrl (drop_entry n)))"
    by (intro keeps_bind frame_basic)
  ultimately show "J (snd (Release A n w))" by (simp add: Release_def keeps_iff)
qed

lemma frame_evict: "keeps J (evictIfNeededLocked A need)"
  by (rule keeps_evict_world) (simp_all add: J_milvus J_ctrl)

lemma frame_EnsureLoaded: "keeps J (EnsureLoaded A n est)"
proof (rule keepsI)
  fix w assume j: "J w"
  have hit: "keeps J (ensure_hit n)"
    unfolding ensure_hit_def by (intro keeps_bind frame_basic)
  have "keeps J (bind (evictIfNeededLocked A est) (\<lambda>_.
      bind (map_err (\<lambda>e. Errorf [Lit ''load collection '', ArgS n, Lit '': '', ArgW e])
        (on_milvus (LoadCollection A n))) (\<lambda>_.
      bind time_now (\<lambda>now. on_ctrl (add_entry now n est)))))"
    by (intro keeps_bind keeps_map_err frame_basic frame_evict)
  with hit j show "J (snd (EnsureLoaded A n est w))"
    by (simp add: EnsureLoaded_def EnsureLoaded_locked_def keeps_iff)
qed

lemma frame_RunTTLSweep: "keeps J (RunTTLSweep A)"
  unfolding RunTTLSweep_def by (intro keeps_rules frame_basic)

lemma frame_load_pinned_steps: "keeps J (bind (EnsureLoaded A n est) (\<lambda>_. Pin n))"
  by (intro keeps_bind frame_EnsureLoaded frame_flags)

lemmas frame_rules = frame_basic frame_flags frame_Touch frame_Release frame_EnsureLoaded frame_RunTTLSweep

end

interpretation db_frame: controller_frame "\<lambda>w. I (meta_db w) (uuids w)" for I
  by unfold_locales simp_all

section \<open>Invariants of the rows\<close>

definition db_rows :: "sqlite \<Rightarrow> Bucket list \<times> LogicalCollection list" where
  "db_rows d = (buckets d, collections d)"

lemma db_rows_outcomes [simp]: "db_rows (d\<lparr>outcomes := os\<rparr>) = db_rows d"
  by (simp add: db_rows_def)

text \<open>A statement that reads.\<close>

definition reads :: "(sqlite, 'a) op \<Rightarrow> bool" where
  "reads f \<longleftrightarrow> (\<forall>d. db_rows (snd (f d)) = db_rows d)"

lemma reads_store [simp]:
  "reads (GetBucket i)" "reads (GetBucketByName n)" "reads ListBuckets" "reads CountBuckets"
  "reads (CountBucketsByOwner ow)" "reads (GetCollection bid n)" "reads (GetCollectionByID i)"
  "reads (ListCollections bid)" "reads ListCollectionsInMigration" "reads (CountCollections bid)"
  unfolding reads_def store_defs
  by (simp_all add: statement_def Let_def gets_def split: option.split)

lemma reads_combinators:
  "reads (return a)" "reads (fail e)"
  "reads m \<Longrightarrow> reads (map_err g m)"
  "reads m \<Longrightarrow> (\<And>a. reads (f a)) \<Longrightarrow> reads (bind m f)"
proof -
  show "reads (return a)" "reads (fail e)" by (simp_all add: reads_def return_def fail_def)
  show "reads (map_err g m)" if "reads m"
    unfolding reads_def
  proof
    fix d show "db_rows (snd (map_err g m d)) = db_rows d"
      using that [unfolded reads_def, rule_format, of d] by (auto simp: map_err_def split: prod.split sum.split)
  qed
  show "reads (bind m f)" if m: "reads m" and f: "\<And>a. reads (f a)"
    unfolding reads_def
  proof
    fix d
    obtain r d' where d': "m d = (r, d')" by fastforce
    with m have "db_rows d' = db_rows d" by (metis reads_def snd_conv)
    with f d' show "db_rows (snd (bind m f d)) = db_rows d"
      by (cases r) (simp_all add: bind_def reads_def)
  qed
qed

lemma reads_if: "reads m \<Longrightarrow> reads n \<Longrightarrow> reads (if b then m else n)"
  by simp

lemma reads_for_acc: "(\<And>x b. reads (f x b)) \<Longrightarrow> reads (for_acc f xs b)"
  by (induction xs arbitrary: b) (auto intro: reads_combinators)

lemmas reads_rules = reads_store reads_combinators reads_if reads_for_acc

lemma reads_router_quota [simp]:
  "reads (Resolve bn cn)" "reads (CanCreateBucket cfg ow)" "reads (CanCreateCollection cfg bid)"
  "reads (CanCreatePerformanceCollection cfg mv dm)"
  unfolding Resolve_def CanCreateBucket_def CanCreateCollection_def CanCreatePerformanceCollection_def Let_def
  by (intro reads_rules)+

text \<open>A part of a handler that only reads: the controller, Milvus and the rows are as before.\<close>

definition quiet :: "(('m, 'z) world_scheme, 'a) op \<Rightarrow> bool" where
  "quiet m \<longleftrightarrow> (\<forall>k. keeps (\<lambda>w. (ctrl w, milvus w, db_rows (meta_db w)) = k) m)"

lemma quietD: "quiet m \<Longrightarrow> ctrl (snd (m w)) = ctrl w \<and> milvus (snd (m w)) = milvus w \<and> db_rows (meta_db (snd (m w))) = db_rows (meta_db w)"
  unfolding quiet_def keeps_iff by (drule spec [of _ "(ctrl w, milvus w, db_rows (meta_db w))"]) auto

lemma quiet_rules:
  "reads f \<Longrightarrow> quiet (on_db f)" "quiet time_now" "quiet NewString" "quiet (return a)" "quiet (fail e)"
  "quiet (check e')" "quiet (liftR r)" "quiet m \<Longrightarrow> quiet (map_err g m)"
  "quiet m \<Longrightarrow> (\<And>a. quiet (h a)) \<Longrightarrow> quiet (bind m h)" "quiet n \<Longrightarrow> quiet (when_op b n)"
  "quiet m \<Longrightarrow> quiet m' \<Longrightarrow> quiet (if b then m else m')"
  "(\<And>x y. quiet (h' x y)) \<Longrightarrow> quiet (case p of (x, y) \<Rightarrow> h' x y)"
proof -
  show "quiet (on_db f)" if "reads f"
    using that by (simp add: quiet_def keeps_iff reads_def)
  show "quiet time_now" "quiet NewString"
    by (simp_all add: quiet_def keeps_iff time_now_def NewString_def)
qed (auto simp: quiet_def intro: keeps_rules)

lemma quiet_plan: "quiet (CreateIndex_plan cfg req)"
  unfolding CreateIndex_plan_def Let_def
  by (intro quiet_rules reads_store reads_router_quota)

lemma on_db_eq_Inr: "on_db f w = (Inr a, w') \<longleftrightarrow> (\<exists>d. f (meta_db w) = (Inr a, d) \<and> w' = w\<lparr>meta_db := d\<rparr>)"
  by (auto simp: on_db_def split: prod.splits)

lemma time_now_eq: "time_now w = (Inr t, w') \<longleftrightarrow> t = shd (clock w) \<and> w' = w\<lparr>clock := stl (clock w)\<rparr>"
  by (auto simp: time_now_def)

lemma NewString_eq: "NewString w = (Inr i, w') \<longleftrightarrow> i = shd (uuids w) \<and> w' = w\<lparr>uuids := stl (uuids w)\<rparr>"
  by (auto simp: NewString_def)

lemma reads_rows: "reads f \<Longrightarrow> f d = (r, d') \<Longrightarrow> db_rows d' = db_rows d"
  by (metis reads_def snd_conv)

lemma CreateIndex_plan_Inr:
  assumes "CreateIndex_plan cfg req w = (Inr (bn, policy, c), w')"
  shows "db_rows (meta_db w') = db_rows (meta_db w)"
    and "0 < ci_Dimension req" "ci_Dimension req \<le> MaxDim cfg"
    and "\<exists>b t u. b \<in> set (buckets (meta_db w)) \<and> b_Name b = bn \<and>
      policy = PolicyForBucket cfg bn \<and>
      int (length (live_collections (b_ID b) (meta_db w))) < MaxCollPerBucket cfg \<and>
      c = new_collection req (b_ID b) u (service_normalizeMetric (ci_DistanceMetric req)) (bp_IndexType policy)
        (TierForIndexType (bp_IndexType policy))
        (if IsPinnedIndexType (bp_IndexType policy) then bp_MaxVectors policy else 0)
        (IsPinnedIndexType (bp_IndexType policy)) t"
proof -
  show "db_rows (meta_db w') = db_rows (meta_db w)" using quietD [OF quiet_plan [of cfg req], of w] assms by simp
  have f32: "ci_DataType req = ''float32''"
    using assms by (auto simp: CreateIndex_plan_def split: if_splits)
  from assms f32 obtain b d1 d2 t u where dimc: "CheckDimension cfg (ci_Dimension req) = None"
    and gb: "GetBucketByName bn (meta_db w) = (Inr b, d1)"
    and cc: "CanCreateCollection cfg (b_ID b) d1 = (Inr (), d2)"
    and p: "policy = PolicyForBucket cfg bn" and
      c: "c = new_collection req (b_ID b) u (service_normalizeMetric (ci_DistanceMetric req)) (bp_IndexType policy)
        (TierForIndexType (bp_IndexType policy))
        (if IsPinnedIndexType (bp_IndexType policy) then bp_MaxVectors policy else 0)
        (IsPinnedIndexType (bp_IndexType policy)) t"
    by (auto simp: CreateIndex_plan_def Let_def bind_eq_Inr on_db_eq_Inr time_now_eq NewString_eq)
  from dimc show "0 < ci_Dimension req" "ci_Dimension req \<le> MaxDim cfg"
    by (auto simp: CheckDimension_def split: if_splits)
  have d1: "db_rows d1 = db_rows (meta_db w)" using reads_rows [OF reads_store(2) gb] .
  have "List.find (\<lambda>r. b_Name r = bn) (buckets (meta_db w)) = Some b"
    using statement_Inr [OF gb [unfolded GetBucketByName_def]] by simp
  then have "b \<in> set (buckets (meta_db w))" "b_Name b = bn" by (auto dest: find_Some_props)
  moreover have "int (length (live_collections (b_ID b) (meta_db w))) < MaxCollPerBucket cfg"
    using CanCreateCollection_Inr [OF cc] d1 by (simp add: live_collections_def db_rows_def)
  ultimately show "\<exists>b t u. b \<in> set (buckets (meta_db w)) \<and> b_Name b = bn \<and>
      policy = PolicyForBucket cfg bn \<and>
      int (length (live_collections (b_ID b) (meta_db w))) < MaxCollPerBucket cfg \<and>
      c = new_collection req (b_ID b) u (service_normalizeMetric (ci_DistanceMetric req)) (bp_IndexType policy)
        (TierForIndexType (bp_IndexType policy))
        (if IsPinnedIndexType (bp_IndexType policy) then bp_MaxVectors policy else 0)
        (IsPinnedIndexType (bp_IndexType policy)) t"
    using p c by blast
qed

text \<open>What every write of the services keeps of a row: its keys, and that its status is not
  \<open>DELETED\<close> unless it was.\<close>

definition row_update :: "(LogicalCollection \<Rightarrow> LogicalCollection) \<Rightarrow> bool" where
  "row_update f \<longleftrightarrow> (\<forall>r. c_ID (f r) = c_ID r \<and> c_BucketID (f r) = c_BucketID r \<and> c_Name (f r) = c_Name r \<and>
     c_Dim (f r) = c_Dim r \<and> (c_Status (f r) = c_Status r \<or> c_Status (f r) \<noteq> CollStatusDeleted))"

lemma CreateBucket_rows:
  "CreateBucket t b d = (Inr a, d') \<Longrightarrow> \<exists>b'. b_ID b' = b_ID b \<and> b_Name b' = b_Name b \<and> b_Owner b' = b_Owner b \<and>
     b_Status b' = b_Status b \<and> db_rows d' = (buckets d @ [b'], collections d) \<and>
     \<not> list_ex (\<lambda>r. b_ID r = b_ID b \<or> b_Name r = b_Name b) (buckets d)"
  "CreateBucket t b d = (Inl e, d') \<Longrightarrow> db_rows d' = db_rows d"
  unfolding CreateBucket_def
  by (drule statement_Inr) (auto simp: Let_def db_rows_def statement_def split: if_splits option.splits)

lemma CreateCollection_rows:
  "CreateCollection t c d = (Inr a, d') \<Longrightarrow> \<exists>c'. c_ID c' = c_ID c \<and> c_Name c' = c_Name c \<and>
     c_BucketID c' = c_BucketID c \<and> c_Status c' = c_Status c \<and> c_Dim c' = c_Dim c \<and>
     db_rows d' = (buckets d, collections d @ [c']) \<and>
     \<not> list_ex (\<lambda>r. c_ID r = c_ID c \<or> (c_BucketID r = c_BucketID c \<and> c_Name r = c_Name c)) (collections d) \<and>
     list_ex (\<lambda>b. b_ID b = c_BucketID c) (buckets d)"
  "CreateCollection t c d = (Inl e, d') \<Longrightarrow> db_rows d' = db_rows d"
  unfolding CreateCollection_def
  by (drule statement_Inr) (auto simp: Let_def db_rows_def statement_def split: if_splits option.splits)

lemma CreateCollection_row:
  assumes "CreateCollection t c d = (Inr u, d')"
  shows "\<exists>t1 t2. db_rows d' = (buckets d, collections d @ [c\<lparr>c_CreatedAt := t1, c_UpdatedAt := t2\<rparr>]) \<and>
    \<not> list_ex (\<lambda>r. c_ID r = c_ID c) (collections d)"
proof -
  let ?c = "c\<lparr>c_CreatedAt := if IsZero (c_CreatedAt c) then t else c_CreatedAt c,
    c_UpdatedAt := if IsZero (c_UpdatedAt c) then t else c_UpdatedAt c\<rparr>"
  have "db_rows d' = (buckets d, collections d @ [?c])" "\<not> list_ex (\<lambda>r. c_ID r = c_ID c) (collections d)"
    using statement_Inr [OF assms [unfolded CreateCollection_def]]
    by (auto simp: Let_def db_rows_def list_ex_iff split: if_split_asm)
  then show ?thesis by blast
qed

locale row_invariant =
  fixes cfg :: Config and I :: "sqlite \<Rightarrow> bool"
  assumes I_rows: "db_rows d' = db_rows d \<Longrightarrow> I d \<Longrightarrow> I d'"
    and I_update: "I d \<Longrightarrow> row_update f \<Longrightarrow> I (d\<lparr>collections := update_where p f (collections d)\<rparr>)"
    and I_drop_coll: "I d \<Longrightarrow> I (d\<lparr>collections := filter (\<lambda>r. c_ID r \<noteq> i) (collections d)\<rparr>)"
    and I_drop_bucket: "I d \<Longrightarrow> I (d\<lparr>buckets := filter (\<lambda>r. b_ID r \<noteq> i) (buckets d),
      collections := filter (\<lambda>c. c_BucketID c \<noteq> i) (collections d)\<rparr>)"
    and I_add_bucket: "I d \<Longrightarrow> b_Status b = BucketStatusReady \<Longrightarrow>
      \<not> list_ex (\<lambda>r. b_ID r = b_ID b \<or> b_Name r = b_Name b) (buckets d) \<Longrightarrow>
      int (length (live_buckets d)) < MaxBucketsGlobal cfg \<Longrightarrow>
      int (length (filter (\<lambda>r. b_Owner r = b_Owner b) (live_buckets d))) < MaxBucketsPerTenant cfg \<Longrightarrow>
      I (d\<lparr>buckets := buckets d @ [b]\<rparr>)"
    and I_add_coll: "I d \<Longrightarrow> c_Status c = CollStatusInit \<Longrightarrow> 0 < c_Dim c \<Longrightarrow> c_Dim c \<le> MaxDim cfg \<Longrightarrow>
      \<not> list_ex (\<lambda>r. c_ID r = c_ID c \<or> (c_BucketID r = c_BucketID c \<and> c_Name r = c_Name c)) (collections d) \<Longrightarrow>
      list_ex (\<lambda>b. b_ID b = c_BucketID c) (buckets d) \<Longrightarrow>
      int (length (live_collections (c_BucketID c) d)) < MaxCollPerBucket cfg \<Longrightarrow>
      I (d\<lparr>collections := collections d @ [c]\<rparr>)"
begin

lemma I_outcomes: "I d \<Longrightarrow> I (d\<lparr>outcomes := os\<rparr>)"
  by (rule I_rows [of _ d]) simp_all

lemma keeps_on_db: "keeps I f \<Longrightarrow> keeps (over_db I) (on_db f)"
  by (rule keepsI) (simp add: keeps_snd)

lemma keeps_reads_I: "reads f \<Longrightarrow> keeps (over_db I) (on_db f)"
  by (rule keeps_on_db, rule keepsI, rule I_rows) (simp_all add: reads_def)

lemma keeps_statement_I: "keeps I f \<Longrightarrow> keeps I (statement f)"
  by (rule keepsI) (auto simp: statement_def Let_def I_outcomes keeps_snd split: option.split)

lemma keeps_update_I: "row_update f \<Longrightarrow> keeps I (update_coll i f)"
  unfolding update_coll_def by (intro keeps_statement_I keeps_modify I_update)

lemma keeps_updates_I:
  "st \<noteq> CollStatusDeleted \<Longrightarrow> keeps I (UpdateCollectionStatus t i st)"
  "keeps I (UpdateCollectionIndexBuilt t i b)" "keeps I (UpdateCollectionVectorCount t i n)"
  "keeps I (UpdateCollectionLastAccess t i)" "keeps I (UpdateCollectionMigrationState t i s ti sp tp ms le)"
  unfolding UpdateCollectionStatus_def UpdateCollectionIndexBuilt_def UpdateCollectionVectorCount_def
    UpdateCollectionLastAccess_def UpdateCollectionMigrationState_def
  by (rule keeps_update_I, simp add: row_update_def)+

lemma keeps_Switch_I: "keeps I (SwitchCollectionPhysical t i ol nw it ti pn mv)"
  unfolding SwitchCollectionPhysical_def Let_def
  by (intro keeps_statement_I keepsI) (simp add: I_update row_update_def)

lemma keeps_deletes_I: "keeps I (DeleteCollection i)" "keeps I (DeleteBucket i)"
  unfolding DeleteCollection_def DeleteBucket_def
  by (intro keeps_statement_I keeps_modify I_drop_coll I_drop_bucket; assumption)+

lemma keeps_clock_I: "keeps (over_db I) time_now" "keeps (over_db I) NewString"
  by (rule keepsI, simp add: time_now_def NewString_def)+

lemma keeps_on_db_now: "(\<And>t. keeps I (f t)) \<Longrightarrow> keeps (over_db I) (on_db_now f)"
  unfolding on_db_now_def by (intro keeps_bind keeps_clock_I keeps_on_db)

lemma keeps_put_columns_I: "keeps (over_db I) (put_columns dm vs cols)"
proof (induction vs arbitrary: cols)
  case (Cons v vs)
  then show ?case by (cases cols) (auto intro!: keeps_rules keeps_clock_I)
qed (auto intro: keeps_rules)

lemmas keeps_writes_I = keeps_updates_I keeps_Switch_I keeps_deletes_I
lemmas frame_I = db_frame.frame_rules [where I = "\<lambda>d _. I d"]

lemma keeps_load_pinned_I: "keeps (over_db I) (load_pinned A n est)"
  unfolding load_pinned_def by (intro keeps_rules frame_I)

lemmas handler_rules = keeps_load_pinned_I frame_I keeps_clock_I keeps_put_columns_I
  keeps_reads_I reads_store reads_router_quota

definition room_for_bucket :: "string \<Rightarrow> sqlite \<Rightarrow> bool" where
  "room_for_bucket ow d \<longleftrightarrow> int (length (live_buckets d)) < MaxBucketsGlobal cfg \<and>
     int (length (filter (\<lambda>b. b_Owner b = ow) (live_buckets d))) < MaxBucketsPerTenant cfg"

definition room_for_coll :: "string \<Rightarrow> sqlite \<Rightarrow> bool" where
  "room_for_coll bid d \<longleftrightarrow> int (length (live_collections bid d)) < MaxCollPerBucket cfg"

lemma quota_room:
  "triple (over_db I) (on_db (CanCreateBucket cfg ow)) (\<lambda>_. over_db (\<lambda>d. I d \<and> room_for_bucket ow d)) (\<lambda>_. over_db I)"
  "triple (over_db I) (on_db (CanCreateCollection cfg bid)) (\<lambda>_. over_db (\<lambda>d. I d \<and> room_for_coll bid d)) (\<lambda>_. over_db I)"
proof -
  have err: "over_db I w'" if "reads f" "over_db I w" "on_db f w = (r, w')" for f :: "(sqlite, unit) op" and w w' r
    using keeps_snd [OF keeps_reads_I [OF that(1)], of w] that(2,3) by simp
  show "triple (over_db I) (on_db (CanCreateBucket cfg ow)) (\<lambda>_. over_db (\<lambda>d. I d \<and> room_for_bucket ow d)) (\<lambda>_. over_db I)"
  proof (rule tripleI)
    fix w a w' assume w: "over_db I w" "on_db (CanCreateBucket cfg ow) w = (Inr a, w')"
    then have "CanCreateBucket cfg ow (meta_db w) = (Inr a, meta_db w')"
      by (auto simp: on_db_def split: prod.splits)
    from CanCreateBucket_Inr [OF this] err [OF reads_router_quota(2) w]
    show "over_db (\<lambda>d. I d \<and> room_for_bucket ow d) w'" by (simp add: room_for_bucket_def live_buckets_def)
  qed (rule err [OF reads_router_quota(2)])
  show "triple (over_db I) (on_db (CanCreateCollection cfg bid)) (\<lambda>_. over_db (\<lambda>d. I d \<and> room_for_coll bid d)) (\<lambda>_. over_db I)"
  proof (rule tripleI)
    fix w a w' assume w: "over_db I w" "on_db (CanCreateCollection cfg bid) w = (Inr a, w')"
    then have "CanCreateCollection cfg bid (meta_db w) = (Inr a, meta_db w')"
      by (auto simp: on_db_def split: prod.splits)
    from CanCreateCollection_Inr [OF this] err [OF reads_router_quota(3) w]
    show "over_db (\<lambda>d. I d \<and> room_for_coll bid d) w'" by (simp add: room_for_coll_def live_collections_def)
  qed (rule err [OF reads_router_quota(3)])
qed

lemma I_CreateBucket:
  assumes "b_Status b = BucketStatusReady"
  shows "triple (\<lambda>d. I d \<and> room_for_bucket (b_Owner b) d) (CreateBucket t b) (\<lambda>_. I) (\<lambda>_. I)"
proof (rule tripleI)
  fix d a d' assume d: "I d \<and> room_for_bucket (b_Owner b) d" "CreateBucket t b d = (Inr a, d')"
  then obtain b' where b': "b_ID b' = b_ID b" "b_Name b' = b_Name b" "b_Owner b' = b_Owner b" "b_Status b' = b_Status b"
    "db_rows d' = (buckets d @ [b'], collections d)"
    "\<not> list_ex (\<lambda>r. b_ID r = b_ID b \<or> b_Name r = b_Name b) (buckets d)"
    using CreateBucket_rows by blast
  have "I (d\<lparr>buckets := buckets d @ [b']\<rparr>)"
    using d b' assms by (intro I_add_bucket) (simp_all add: room_for_bucket_def)
  then show "I d'" using b'(5) by (intro I_rows [of d' "d\<lparr>buckets := buckets d @ [b']\<rparr>"]) (simp_all add: db_rows_def)
next
  fix d e d' assume "I d \<and> room_for_bucket (b_Owner b) d" "CreateBucket t b d = (Inl e, d')"
  then show "I d'" using CreateBucket_rows(2) I_rows by blast
qed

lemma I_CreateCollection:
  assumes "c_Status c = CollStatusInit" and "0 < c_Dim c" and "c_Dim c \<le> MaxDim cfg"
  shows "triple (\<lambda>d. I d \<and> room_for_coll (c_BucketID c) d) (CreateCollection t c) (\<lambda>_. I) (\<lambda>_. I)"
proof (rule tripleI)
  fix d a d' assume d: "I d \<and> room_for_coll (c_BucketID c) d" "CreateCollection t c d = (Inr a, d')"
  then obtain c' where c': "c_ID c' = c_ID c" "c_Name c' = c_Name c" "c_BucketID c' = c_BucketID c"
    "c_Status c' = c_Status c" "c_Dim c' = c_Dim c"
    "db_rows d' = (buckets d, collections d @ [c'])"
    "\<not> list_ex (\<lambda>r. c_ID r = c_ID c \<or> (c_BucketID r = c_BucketID c \<and> c_Name r = c_Name c)) (collections d)"
    "list_ex (\<lambda>b. b_ID b = c_BucketID c) (buckets d)"
    using CreateCollection_rows by blast
  have "I (d\<lparr>collections := collections d @ [c']\<rparr>)"
    using d c' assms by (intro I_add_coll) (simp_all add: room_for_coll_def)
  then show "I d'" using c'(6) by (intro I_rows [of d' "d\<lparr>collections := collections d @ [c']\<rparr>"]) (simp_all add: db_rows_def)
next
  fix d e d' assume "I d \<and> room_for_coll (c_BucketID c) d" "CreateCollection t c d = (Inl e, d')"
  then show "I d'" using CreateCollection_rows(2) I_rows by blast
qed

lemma triple_on_db: "triple P f (\<lambda>_. Q) (\<lambda>_. Q) \<Longrightarrow> triple (over_db P) (on_db f) (\<lambda>_. over_db Q) (\<lambda>_. over_db Q)"
  by (auto simp: triple_iff on_db_def split: prod.splits)

lemma triple_on_db_now:
  assumes "\<And>t. triple P (f t) (\<lambda>_. Q) (\<lambda>_. Q)"
  shows "triple (over_db P) (on_db_now f) (\<lambda>_. over_db Q) (\<lambda>_. over_db Q)"
  unfolding on_db_now_def
  by (rule triple_bind [where R = "\<lambda>_. over_db P"], simp add: triple_def time_now_def)
     (rule triple_on_db [OF assms])

lemma triple_clock: "triple (over_db P) time_now (\<lambda>_. over_db P) E" "triple (over_db P) NewString (\<lambda>_. over_db P) E"
  by (simp_all add: triple_def time_now_def NewString_def)

lemma I_CreateVectorBucket: "keeps (over_db I) (CreateVectorBucket cfg req)"
proof -
  let ?P = "over_db (\<lambda>d. I d \<and> room_for_bucket (AccountID (cvb_Ctx req)) d)"
  show ?thesis
    unfolding CreateVectorBucket_def Let_def
    by (rule keeps_if, rule keeps_fail, rule triple_bind [where R = "\<lambda>_. ?P"], rule triple_map_err,
        rule quota_room, rule triple_bind [where R = "\<lambda>_. ?P"], rule triple_clock,
        rule triple_bind [where R = "\<lambda>_. ?P"], rule triple_clock,
        rule triple_bind [where R = "\<lambda>_. over_db I"], rule triple_map_err, rule triple_on_db_now)
       (auto intro!: keeps_rules triple_weaken [OF I_CreateBucket])
qed

lemma I_CreateIndex_plan:
  "triple (over_db I) (CreateIndex_plan cfg req)
     (\<lambda>(bn, policy, c). over_db (\<lambda>d. (I d \<and> room_for_coll (c_BucketID c) d) \<and> c_Status c = CollStatusInit \<and>
        0 < c_Dim c \<and> c_Dim c \<le> MaxDim cfg)) (\<lambda>_. over_db I)"
proof (rule tripleI)
  fix w a w' assume i: "over_db I w" and run: "CreateIndex_plan cfg req w = (Inr a, w')"
  obtain bn policy c where a: "a = (bn, policy, c)" by (cases a)
  note facts = CreateIndex_plan_Inr [OF run [unfolded a]]
  then have "I (meta_db w')" using I_rows i by blast
  with facts show "(case a of (bn, policy, c) \<Rightarrow> over_db (\<lambda>d. (I d \<and> room_for_coll (c_BucketID c) d) \<and>
      c_Status c = CollStatusInit \<and> 0 < c_Dim c \<and> c_Dim c \<le> MaxDim cfg)) w'"
    by (auto simp: a room_for_coll_def live_collections_def db_rows_def new_collection_def)
next
  fix w e w' assume "over_db I w" "CreateIndex_plan cfg req w = (Inl e, w')"
  then show "over_db I w'" using quietD [OF quiet_plan [of cfg req], of w] I_rows by auto
qed

lemma I_CreateIndex_build: "keeps (over_db I) (CreateIndex_build A policy c)"
  unfolding CreateIndex_build_def
  by (intro keeps_rules handler_rules keeps_on_db_now keeps_on_db keeps_writes_I) simp_all

lemma I_CreateIndex: "keeps (over_db I) (CreateIndex A cfg req)"
proof -
  have ins: "triple (over_db (\<lambda>d. (I d \<and> room_for_coll (c_BucketID c) d) \<and> c_Status c = CollStatusInit \<and>
        0 < c_Dim c \<and> c_Dim c \<le> MaxDim cfg)) (on_db_now (\<lambda>t. CreateCollection t c)) (\<lambda>_. over_db I) (\<lambda>_. over_db I)" for c
  proof (cases "c_Status c = CollStatusInit \<and> 0 < c_Dim c \<and> c_Dim c \<le> MaxDim cfg")
    case True
    then show ?thesis
      by (intro triple_on_db_now triple_weaken [OF I_CreateCollection]) simp_all
  qed (auto simp: triple_def)
  show ?thesis
    unfolding CreateIndex_def
  proof (rule triple_bind [OF I_CreateIndex_plan], goal_cases)
    case (1 a)
    obtain bn policy c where a: "a = (bn, policy, c)" by (cases a)
    show ?case
      unfolding a prod.case
      by (rule triple_bind [where R = "\<lambda>_. over_db I"], rule triple_map_err, rule ins)
         (intro keeps_rules I_CreateIndex_build handler_rules)
  qed
qed

lemma I_GetVectorBucket: "keeps (over_db I) (GetVectorBucket gr)"
  unfolding GetVectorBucket_def Let_def
  by (intro keeps_rules handler_rules)

lemma I_ListVectorBuckets: "keeps (over_db I) (ListVectorBuckets lr)"
  unfolding ListVectorBuckets_def Let_def
  by (intro keeps_rules handler_rules)

lemma I_DeleteVectorBucket: "keeps (over_db I) (DeleteVectorBucket dr)"
  unfolding DeleteVectorBucket_def Let_def
  by (intro keeps_rules handler_rules keeps_on_db [OF keeps_deletes_I(2)])

lemma I_DeleteIndex: "keeps (over_db I) (DeleteIndex A dir)"
  unfolding DeleteIndex_def Let_def
  by (intro keeps_rules handler_rules keeps_on_db_now keeps_updates_I(1) keeps_on_db [OF keeps_deletes_I(1)]) simp_all

lemma I_ChangeIndexModel: "keeps (over_db I) (ChangeIndexModel cr)"
  unfolding ChangeIndexModel_def Let_def
  by (intro keeps_rules handler_rules keeps_on_db_now keeps_updates_I(5))

lemma I_PutVectors: "keeps (over_db I) (PutVectors A cfg' pr)"
  unfolding PutVectors_def PutVectors_plan_def resolve_writable_def Let_def
  by (intro keeps_rules handler_rules keeps_on_db_now keeps_updates_I(3))

lemma I_DeleteVectors: "keeps (over_db I) (DeleteVectors A dvr)"
  unfolding DeleteVectors_def resolve_writable_def Let_def
  by (intro keeps_rules handler_rules keeps_on_db_now keeps_updates_I(3))

lemma I_QueryVectors: "keeps (over_db I) (QueryVectors A cfg' qr)"
  unfolding QueryVectors_def Let_def
  by (intro keeps_rules handler_rules keeps_on_db_now keeps_updates_I(4))

lemmas keeps_services_I = I_CreateVectorBucket I_CreateIndex I_GetVectorBucket I_ListVectorBuckets
  I_DeleteVectorBucket I_DeleteIndex I_ChangeIndexModel I_PutVectors I_DeleteVectors I_QueryVectors

end

text \<open>The two invariants: the constraints of the schema, and the limits of the configuration.\<close>

definition within_limits :: "Config \<Rightarrow> sqlite \<Rightarrow> bool" where
  "within_limits cfg d \<longleftrightarrow>
     list_all (\<lambda>b. b_Status b \<noteq> BucketStatusDeleted) (buckets d) \<and>
     list_all (\<lambda>c. c_Status c \<noteq> CollStatusDeleted \<and> 0 < c_Dim c \<and> c_Dim c \<le> MaxDim cfg) (collections d) \<and>
     int (length (buckets d)) \<le> MaxBucketsGlobal cfg \<and>
     (\<forall>ow. int (length (filter (\<lambda>b. b_Owner b = ow) (buckets d))) \<le> max 0 (MaxBucketsPerTenant cfg)) \<and>
     (\<forall>bid. int (length (filter (\<lambda>c. c_BucketID c = bid) (collections d))) \<le> max 0 (MaxCollPerBucket cfg))"

interpretation schema: row_invariant cfg store_ok for cfg
proof (unfold_locales, goal_cases)
  case (1 d' d)
  then show ?case by (simp add: store_ok_def db_rows_def)
next
  case (2 d f p)
  then show ?case by (simp add: store_ok_def row_update_def map_update_where image_update_where)
next
  case (3 d i)
  then show ?case by (auto simp: store_ok_def)
next
  case (4 d i)
  then show ?case by (auto simp: store_ok_def)
next
  case (5 d b)
  then show ?case using store_ok_add_bucket [of d b, where t = "b_CreatedAt b" and u = "b_UpdatedAt b"] by simp
next
  case (6 d c)
  then show ?case using store_ok_add_coll [of d c, where t = "c_CreatedAt c" and u = "c_UpdatedAt c"] by simp
qed

lemma length_filter_update:
  "(\<And>r. p (f r) = p r) \<Longrightarrow> length (filter p (update_where q f rs)) = length (filter p rs)"
  by (induction rs) (auto simp: update_where_def)

lemma list_all_update: "(\<And>r. p r \<Longrightarrow> p (f r)) \<Longrightarrow> list_all p rs \<Longrightarrow> list_all p (update_where q f rs)"
  by (induction rs) (auto simp: update_where_def)

lemma int_length_filter_le: "int (length (filter p (filter q xs))) \<le> int (length (filter p xs))"
  by (induction xs) auto

lemma list_all_filter: "list_all p xs \<Longrightarrow> list_all p (filter q xs)"
  by (induction xs) auto

interpretation limits: row_invariant cfg "within_limits cfg" for cfg
proof (unfold_locales, goal_cases)
  case (1 d' d)
  then show ?case by (simp add: within_limits_def db_rows_def)
next
  case (2 d f p)
  then show ?case
    by (auto simp: within_limits_def row_update_def length_filter_update intro!: list_all_update) metis
next
  case (3 d i)
  then show ?case
    by (auto simp: within_limits_def simp del: filter_filter intro!: list_all_filter order_trans [OF int_length_filter_le])
next
  case (4 d i)
  then have "int (length (filter (\<lambda>r. b_ID r \<noteq> i) (buckets d))) \<le> MaxBucketsGlobal cfg"
    using length_filter_le [of "\<lambda>r. b_ID r \<noteq> i" "buckets d"] by (auto simp: within_limits_def simp del: length_filter_le)
  with 4 show ?case
    by (auto simp: within_limits_def simp del: filter_filter intro!: list_all_filter order_trans [OF int_length_filter_le])
next
  case (5 d b)
  then have "live_buckets d = buckets d"
    by (simp add: within_limits_def live_buckets_def filter_id_conv list_all_iff)
  with 5 show ?case by (auto simp: within_limits_def)
next
  case (6 d c)
  then have "live_collections (c_BucketID c) d = filter (\<lambda>r. c_BucketID r = c_BucketID c) (collections d)"
    by (auto simp: live_collections_def within_limits_def list_all_iff intro!: filter_cong)
  with 6 show ?case by (auto simp: within_limits_def)
qed

section \<open>The errors of the handlers\<close>

text \<open>Every error is one of these sentinels and matches no other one.\<close>

definition is_only :: "sentinel \<Rightarrow> goerr \<Rightarrow> bool" where
  "is_only x e \<longleftrightarrow> (\<forall>t. errors_Is t e \<longleftrightarrow> t = x)"

lemma is_only_shapes [simp]:
  "is_only x (wrap_text x m)" "is_only x (wrap_err x e)"
  "is_only x (Errorf [ArgW (Sentinel x), Lit m, ArgQ q])"
  "is_only x (Errorf [ArgW (Sentinel x), Lit m, ArgS q])"
  "is_only x (Errorf [ArgW (Sentinel x), Lit m, ArgQ q, Lit m'])"
  "is_only x (Joined [Sentinel x, New m])"
  by (auto simp: is_only_def)

definition fails_with :: "sentinel set \<Rightarrow> ('s, 'a) op \<Rightarrow> bool" where
  "fails_with S m \<longleftrightarrow> (\<forall>s e s'. m s = (Inl e, s') \<longrightarrow> (\<exists>x \<in> S. is_only x e))"

lemma fails_withD: "fails_with S m \<Longrightarrow> m s = (Inl e, s') \<Longrightarrow> \<exists>x \<in> S. is_only x e"
  unfolding fails_with_def by blast

lemma fails_with_map_err: "x \<in> S \<Longrightarrow> fails_with S (map_err (wrap_err x) m)"
  by (auto simp: fails_with_def map_err_def split: prod.splits sum.splits intro: is_only_shapes(2))

lemma fails_with_bind: "fails_with S m \<Longrightarrow> (\<And>a. fails_with S (f a)) \<Longrightarrow> fails_with S (bind m f)"
  unfolding fails_with_def by (auto simp: bind_def split: prod.splits sum.splits)

lemma fails_with_deferred: "fails_with S m \<Longrightarrow> fails_with S (deferred d m)"
  unfolding fails_with_def by (auto simp: deferred_def split: prod.splits)

lemma fails_with_when: "fails_with S m \<Longrightarrow> fails_with S (when_op b m)"
  by (simp add: when_op_def fails_with_def return_def)

lemma fails_with_if: "fails_with S m \<Longrightarrow> fails_with S n \<Longrightarrow> fails_with S (if b then m else n)"
  by simp

lemma fails_with_case: "(\<And>a b. fails_with S (f a b)) \<Longrightarrow> fails_with S (case p of (a, b) \<Rightarrow> f a b)"
  by (cases p) simp

lemma never_fails:
  "fails_with S (return a)" "fails_with S (ignore m)" "fails_with S time_now" "fails_with S NewString"
  "fails_with S (Pin n)" "fails_with S (Unpin n)" "fails_with S (InFlightInc n)" "fails_with S (InFlightDec n)"
  "fails_with S (Touch n)"
  by (auto simp: fails_with_def return_def ignore_def time_now_def NewString_def Pin_def Unpin_def
      InFlightInc_def InFlightDec_def Touch_def bind_def on_ctrl_def modify_def split: if_splits)

lemma fails_with_fail: "x \<in> S \<Longrightarrow> is_only x e \<Longrightarrow> fails_with S (fail e)"
  by (auto simp: fails_with_def fail_def)

lemmas fails_with_shapes = fails_with_fail [OF _ is_only_shapes(1)] fails_with_fail [OF _ is_only_shapes(3)]
  fails_with_fail [OF _ is_only_shapes(4)] fails_with_fail [OF _ is_only_shapes(5)]
  fails_with_fail [OF _ is_only_shapes(6)]

lemma fails_with_ResolveNames: "ErrValidation \<in> S \<Longrightarrow> fails_with S (liftR (ResolveNames t))"
  by (auto simp: fails_with_def liftR_def is_only_def intro: bexI [of _ ErrValidation] dest: ResolveNames_Inl)

lemma fails_with_put_columns: "ErrValidation \<in> S \<Longrightarrow> fails_with S (put_columns dm vs cols)"
proof (induction vs arbitrary: cols)
  case (Cons v vs)
  then show ?case
    by (cases cols) (auto intro!: fails_with_bind never_fails fails_with_shapes)
qed (simp add: never_fails)

lemmas fails_with_rules = fails_with_map_err fails_with_bind fails_with_deferred fails_with_when fails_with_if
  fails_with_case never_fails fails_with_ResolveNames fails_with_put_columns fails_with_shapes

definition service_errors :: "sentinel set" where
  "service_errors = {ErrValidation, ErrConflict, ErrNotFound, ErrQuotaExceeded, ErrServiceUnavailable, ErrInternal}"

lemma service_errors_iff [simp]:
  "ErrValidation \<in> service_errors" "ErrConflict \<in> service_errors" "ErrNotFound \<in> service_errors"
  "ErrQuotaExceeded \<in> service_errors" "ErrServiceUnavailable \<in> service_errors" "ErrInternal \<in> service_errors"
  by (simp_all add: service_errors_def)

lemma classified_CreateVectorBucket: "fails_with service_errors (CreateVectorBucket cfg r)"
  unfolding CreateVectorBucket_def Let_def by (intro fails_with_rules service_errors_iff)

lemma classified_GetVectorBucket: "fails_with service_errors (GetVectorBucket r)"
  unfolding GetVectorBucket_def Let_def by (intro fails_with_rules service_errors_iff)

lemma classified_ListVectorBuckets: "fails_with service_errors (ListVectorBuckets r)"
  unfolding ListVectorBuckets_def Let_def by (intro fails_with_rules service_errors_iff)

lemma classified_DeleteVectorBucket: "fails_with service_errors (DeleteVectorBucket r)"
  unfolding DeleteVectorBucket_def Let_def by (intro fails_with_rules service_errors_iff)

lemma classified_CreateIndex: "fails_with service_errors (CreateIndex A cfg r)"
  unfolding CreateIndex_def CreateIndex_plan_def CreateIndex_build_def Let_def by (intro fails_with_rules service_errors_iff)

lemma classified_DeleteIndex: "fails_with service_errors (DeleteIndex A r)"
  unfolding DeleteIndex_def Let_def by (intro fails_with_rules service_errors_iff)

lemma classified_ChangeIndexModel: "fails_with service_errors (ChangeIndexModel r)"
  unfolding ChangeIndexModel_def Let_def by (intro fails_with_rules service_errors_iff)

lemma classified_PutVectors: "fails_with service_errors (PutVectors A cfg r)"
  unfolding PutVectors_def PutVectors_plan_def resolve_writable_def Let_def by (intro fails_with_rules service_errors_iff)

lemma classified_DeleteVectors: "fails_with service_errors (DeleteVectors A r)"
  unfolding DeleteVectors_def resolve_writable_def Let_def by (intro fails_with_rules service_errors_iff)

lemma classified_QueryVectors: "fails_with service_errors (QueryVectors A cfg r)"
  unfolding QueryVectors_def Let_def by (intro fails_with_rules service_errors_iff)

lemmas services_classified = classified_CreateVectorBucket classified_GetVectorBucket classified_ListVectorBuckets classified_DeleteVectorBucket classified_CreateIndex classified_DeleteIndex classified_ChangeIndexModel classified_PutVectors classified_DeleteVectors classified_QueryVectors

section \<open>Creating an index\<close>

text \<open>A database engine that runs every statement.\<close>

definition healthy :: "sqlite \<Rightarrow> bool" where
  "healthy d \<longleftrightarrow> outcomes d = sconst None"

lemma statement_healthy: "healthy d \<Longrightarrow> statement f d = f d"
  by (cases d) (simp add: statement_def healthy_def Let_def)

lemma update_coll_healthy:
  "healthy d \<Longrightarrow> update_coll i f d =
     (Inr (), d\<lparr>collections := update_where (\<lambda>r. c_ID r = i) f (collections d)\<rparr>)"
  by (simp add: update_coll_def statement_healthy modify_def)

lemma DeleteCollection_healthy:
  "healthy d \<Longrightarrow> DeleteCollection i d = (Inr (), d\<lparr>collections := filter (\<lambda>r. c_ID r \<noteq> i) (collections d)\<rparr>)"
  by (simp add: DeleteCollection_def statement_healthy modify_def)

lemma healthy_collections [simp]: "healthy (d\<lparr>collections := cs\<rparr>) = healthy d" "healthy (d\<lparr>buckets := bs\<rparr>) = healthy d"
  by (simp_all add: healthy_def)

lemma update_where_last:
  "c_ID c = i \<Longrightarrow> \<not> list_ex (\<lambda>r. c_ID r = i) cs \<Longrightarrow>
   update_where (\<lambda>r. c_ID r = i) f (cs @ [c]) = cs @ [f c]"
  by (induction cs) (auto simp: update_where_def)

lemma filter_last: "\<not> list_ex (\<lambda>r. c_ID r = i) cs \<Longrightarrow> filter (\<lambda>r. c_ID r \<noteq> i) cs = cs"
  by (induction cs) auto

lemmas run_defs = bind_def map_err_def on_err_def ignore_def on_milvus_def on_db_def on_db_now_def time_now_def
  return_def fail_def

lemma build_outcome:
  fixes w :: "('m, 'z) world_scheme"
  assumes "healthy (meta_db w)" and rows: "collections (meta_db w) = cs @ [c]" and "c_ID c = c_ID coll"
    and fresh: "\<not> list_ex (\<lambda>r. c_ID r = c_ID coll) cs"
    and run: "CreateIndex_build A policy coll w = (r, w')"
  shows "buckets (meta_db w') = buckets (meta_db w) \<and> ctrl w' = ctrl w \<and> healthy (meta_db w') \<and>
    (case r of
       Inl e \<Rightarrow> collections (meta_db w') = cs \<and> is_only ErrInternal e
     | Inr _ \<Rightarrow> \<exists>t. collections (meta_db w') =
         cs @ [c\<lparr>c_IndexBuilt := True, c_Status := CollStatusReady, c_UpdatedAt := t\<rparr>])"
proof -
  obtain r1 m1 where c1: "ad_CreateCollection A (c_PhysicalName coll) (c_Dim coll) (c_Metric coll) (milvus w) = (r1, m1)"
    by fastforce
  obtain r2 m2 where c2: "ad_CreateIndex A (c_PhysicalName coll) \<lparr>is_IndexType = c_IndexType coll,
            is_Tier = c_Tier coll, is_VectorCount = c_VectorCount coll, is_Metric = c_Metric coll,
            is_HNSWM = bp_HNSWM policy, is_HNSWEFConstruction = bp_HNSWEFConstruction policy\<rparr> m1 = (r2, m2)"
    by fastforce
  obtain r3 m3 where c3: "ad_DropCollection A (c_PhysicalName coll) m2 = (r3, m3)" by fastforce
  note simps = CreateIndex_build_def run_defs UpdateCollectionIndexBuilt_def UpdateCollectionStatus_def
    update_coll_healthy DeleteCollection_healthy update_where_last filter_last
  show ?thesis
  proof (cases r1)
    case (Inl e1)
    with assms c1 show ?thesis by (auto simp: simps)
  next
    case (Inr u1)
    show ?thesis
    proof (cases r2)
      case (Inl e2)
      with assms c1 c2 c3 Inr show ?thesis by (auto simp: simps)
    next
      case (Inr u2)
      with assms c1 c2 \<open>r1 = Inr u1\<close> show ?thesis by (auto simp: simps)
    qed
  qed
qed

lemma CreateCollection_healthy:
  assumes "healthy d" and "CreateCollection t c d = (r, d')"
  shows "healthy d' \<and> buckets d' = buckets d \<and> (case r of
     Inl e \<Rightarrow> collections d' = collections d
   | Inr _ \<Rightarrow> (\<exists>t1 t2. collections d' = collections d @ [c\<lparr>c_CreatedAt := t1, c_UpdatedAt := t2\<rparr>]) \<and>
       \<not> list_ex (\<lambda>r. c_ID r = c_ID c) (collections d))"
proof -
  let ?c = "c\<lparr>c_CreatedAt := if IsZero (c_CreatedAt c) then t else c_CreatedAt c,
    c_UpdatedAt := if IsZero (c_UpdatedAt c) then t else c_UpdatedAt c\<rparr>"
  let ?bad = "list_ex (\<lambda>r. c_ID r = c_ID c \<or> (c_BucketID r = c_BucketID c \<and> c_Name r = c_Name c)) (collections d) \<or>
    \<not> list_ex (\<lambda>b. b_ID b = c_BucketID c) (buckets d)"
  have eq: "CreateCollection t c d =
      (if ?bad then (Inl constraint_error, d) else (Inr (), d\<lparr>collections := collections d @ [?c]\<rparr>))"
    unfolding CreateCollection_def statement_healthy [OF assms(1)] Let_def ..
  show ?thesis
  proof (cases ?bad)
    case True
    with eq assms show ?thesis by auto
  next
    case False
    with eq assms(2) have "r = Inr ()" "d' = d\<lparr>collections := collections d @ [?c]\<rparr>" by auto
    moreover from False have "\<not> list_ex (\<lambda>r. c_ID r = c_ID c) (collections d)" by (auto simp: list_ex_iff)
    moreover have "\<exists>t1 t2. ?c = c\<lparr>c_CreatedAt := t1, c_UpdatedAt := t2\<rparr>" by blast
    ultimately show ?thesis using assms(1) by (simp del: split_paired_Ex if_split)
  qed
qed

lemma load_pinned_db:
  fixes A :: "('m, 'x) Adapter_scheme" and w :: "('m, 'z) world_scheme"
  shows "meta_db (snd (load_pinned A n est w)) = meta_db w"
  using keeps_snd [OF db_frame.frame_load_pinned_steps [where I = "\<lambda>d _. d = meta_db w"], of w A n est]
  by (simp add: load_pinned_def)

lemma load_pinned_Inr:
  assumes "load_pinned A n est w = (Inr u, w')"
  shows "IsLoaded n (ctrl w') \<and> IsPinned n (ctrl w')"
proof -
  from assms obtain w1 where "EnsureLoaded A n est w = (Inr (), w1)" and w': "Pin n w1 = (Inr u, w')"
    by (auto simp: load_pinned_def bind_eq_Inr)
  then have "IsLoaded n (ctrl w1)" using EnsureLoaded_loads by blast
  with w' show ?thesis
    by (auto simp: Pin_def on_ctrl_def modify_def IsLoaded_def IsPinned_def entry_set_entry)
qed

lemma healthy_reads [simp]:
  "keeps healthy (GetBucketByName n)" "keeps healthy (CanCreateCollection cfg bid)"
  "keeps healthy (CanCreatePerformanceCollection cfg mv dm)" "keeps healthy (Resolve bn cn)"
proof -
  have st: "keeps healthy (statement f)" if "\<And>d. healthy d \<Longrightarrow> healthy (snd (f d))" for f :: "(sqlite, 'b) op"
    using that by (simp add: keeps_iff statement_healthy)
  have r: "keeps healthy (GetBucketByName n)" "keeps healthy (CountCollections bid)" "keeps healthy ListBuckets"
    "keeps healthy (ListCollections i)" "keeps healthy (GetCollection i n)" for n bid i
    unfolding store_defs by (rule st, simp add: gets_def)+
  show "keeps healthy (GetBucketByName n)" by (rule r)
  show "keeps healthy (CanCreateCollection cfg bid)" "keeps healthy (CanCreatePerformanceCollection cfg mv dm)"
    "keeps healthy (Resolve bn cn)"
    unfolding CanCreateCollection_def CanCreatePerformanceCollection_def Resolve_def Let_def
    by (intro keeps_rules r)+
qed

lemma keeps_db_on_db: "keeps I f \<Longrightarrow> keeps (over_db I) (on_db f)"
  by (rule keepsI) (simp add: keeps_snd)

lemma keeps_db_clock: "keeps (over_db I) time_now" "keeps (over_db I) NewString"
  by (rule keepsI, simp add: time_now_def NewString_def)+

lemma healthy_plan: "keeps (over_db healthy) (CreateIndex_plan cfg req)"
  unfolding CreateIndex_plan_def Let_def
  by (intro keeps_rules keeps_db_on_db keeps_db_clock healthy_reads)

lemma plan_errors: "fails_with {ErrValidation, ErrNotFound, ErrQuotaExceeded} (CreateIndex_plan cfg req)"
  unfolding CreateIndex_plan_def Let_def by (intro fails_with_rules insertI1 insertI2)

text \<open>All outcomes of \<open>CreateIndex\<close> on an engine that runs every statement: a failure that is not
  \<open>ErrServiceUnavailable\<close> leaves the rows as they were; success and \<open>ErrServiceUnavailable\<close>
  leave one more row, which is ready.\<close>

lemma CreateIndex_outcome:
  fixes w :: "('m, 'z) world_scheme"
  assumes h: "healthy (meta_db w)" and run: "CreateIndex A cfg req w = (r, w')"
  shows "buckets (meta_db w') = buckets (meta_db w) \<and>
    (case r of
       Inl e \<Rightarrow> if errors_Is ErrServiceUnavailable e
         then \<exists>c. collections (meta_db w') = collections (meta_db w) @ [c] \<and> c_Name c = ci_IndexName req \<and>
           c_Status c = CollStatusReady
         else collections (meta_db w') = collections (meta_db w)
     | Inr arn \<Rightarrow> \<exists>b c. b \<in> set (buckets (meta_db w)) \<and>
         arn = formatIndexARN (Region (ci_Ctx req)) (AccountID (ci_Ctx req)) (b_Name b) (ci_IndexName req) \<and>
         collections (meta_db w') = collections (meta_db w) @ [c] \<and>
         c_BucketID c = b_ID b \<and> c_Name c = ci_IndexName req \<and> c_Dim c = ci_Dimension req \<and>
         c_Status c = CollStatusReady \<and> c_IndexBuilt c \<and> c_VectorCount c = 0 \<and>
         (c_Pinned c \<longrightarrow> IsLoaded (c_PhysicalName c) (ctrl w') \<and> IsPinned (c_PhysicalName c) (ctrl w')))"
proof -
  obtain rp w1 where plan: "CreateIndex_plan cfg req w = (rp, w1)" by fastforce
  have q: "ctrl w1 = ctrl w" "db_rows (meta_db w1) = db_rows (meta_db w)"
    using quietD [OF quiet_plan [of cfg req], of w] plan by auto
  have h1: "healthy (meta_db w1)" using keeps_snd [OF healthy_plan h, of cfg req] plan by simp
  show ?thesis
  proof (cases rp)
    case (Inl e)
    with plan run have "r = Inl e" "w' = w1" by (simp_all add: CreateIndex_def bind_def)
    moreover have "\<not> errors_Is ErrServiceUnavailable e"
      using fails_withD [OF plan_errors plan [unfolded Inl]] by (auto simp: is_only_def)
    ultimately show ?thesis using q by (simp add: db_rows_def)
  next
    case (Inr a)
    then obtain bn policy c where a: "rp = Inr (bn, policy, c)" by (cases a) auto
    obtain rc w2 where ins: "on_db_now (\<lambda>t. CreateCollection t c) w1 = (rc, w2)" by fastforce
    then obtain d2 where c2: "CreateCollection (shd (clock w1)) c (meta_db w1) = (rc, d2)"
      and w2: "w2 = w1\<lparr>clock := stl (clock w1), meta_db := d2\<rparr>"
      by (auto simp: on_db_now_def bind_def time_now_def on_db_def split: prod.splits)
    note ch = CreateCollection_healthy [OF h1 c2]
    show ?thesis
    proof (cases rc)
      case (Inl e)
      with plan a ins run have "r = Inl (wrap_err ErrConflict e)" "w' = w2"
        by (simp_all add: CreateIndex_def bind_def map_err_def)
      with ch Inl w2 q show ?thesis by (simp add: db_rows_def)
    next
      case (Inr u)
      with ch obtain t1 t2 where rows2: "collections (meta_db w2) = collections (meta_db w) @ [c\<lparr>c_CreatedAt := t1, c_UpdatedAt := t2\<rparr>]"
        and fresh: "\<not> list_ex (\<lambda>r. c_ID r = c_ID c) (collections (meta_db w))"
        and b2: "buckets (meta_db w2) = buckets (meta_db w)" and h2: "healthy (meta_db w2)"
        using q w2 by (auto simp: db_rows_def)
      obtain rb w3 where build: "CreateIndex_build A policy c w2 = (rb, w3)" by fastforce
      note bo = build_outcome [OF h2 rows2 _ fresh build]
      show ?thesis
      proof (cases rb)
        case (Inl e)
        with plan a ins \<open>rc = Inr u\<close> build run have "r = Inl e" "w' = w3"
          by (simp_all add: CreateIndex_def bind_def map_err_def)
        with bo Inl b2 show ?thesis by (simp add: is_only_def)
      next
        case (Inr v)
        have c3: "\<exists>t. collections (meta_db w3) = collections (meta_db w) @
            [c\<lparr>c_CreatedAt := t1, c_IndexBuilt := True, c_Status := CollStatusReady, c_UpdatedAt := t\<rparr>]"
          and b3: "buckets (meta_db w3) = buckets (meta_db w)"
          using bo Inr b2 by auto
        have facts: "\<exists>b t u. b \<in> set (buckets (meta_db w)) \<and> b_Name b = bn \<and>
            c = new_collection req (b_ID b) u (service_normalizeMetric (ci_DistanceMetric req)) (bp_IndexType policy)
              (TierForIndexType (bp_IndexType policy))
              (if IsPinnedIndexType (bp_IndexType policy) then bp_MaxVectors policy else 0)
              (IsPinnedIndexType (bp_IndexType policy)) t"
          using CreateIndex_plan_Inr(4) [OF plan [unfolded a]] by blast
        obtain rl w4 where load: "when_op (c_Pinned c) (map_err (wrap_err ErrServiceUnavailable)
            (load_pinned A (c_PhysicalName c) (EstimateMemMB (c_MaxVectors c) (c_Dim c)))) w3 = (rl, w4)"
          by fastforce
        have m4: "meta_db w4 = meta_db w3"
          using load load_pinned_db [of A "c_PhysicalName c" "EstimateMemMB (c_MaxVectors c) (c_Dim c)" w3]
          by (auto simp: when_op_def return_def map_err_def split: if_splits prod.splits sum.splits)
        have res: "w' = w4" "r = (case rl of Inl e \<Rightarrow> Inl e | Inr _ \<Rightarrow>
            Inr (formatIndexARN (Region (ci_Ctx req)) (AccountID (ci_Ctx req)) bn (ci_IndexName req)))"
          using plan a ins \<open>rc = Inr u\<close> build Inr load run
          by (auto simp: CreateIndex_def bind_def map_err_def return_def split: sum.splits)
        show ?thesis
        proof (cases rl)
          case (Inl e)
          with load have "errors_Is ErrServiceUnavailable e"
            by (auto simp: when_op_def return_def map_err_def split: if_splits prod.splits sum.splits)
          with c3 b3 m4 res Inl facts show ?thesis by (auto simp: new_collection_def)
        next
          case (Inr x)
          with load have "c_Pinned c \<Longrightarrow> IsLoaded (c_PhysicalName c) (ctrl w4) \<and> IsPinned (c_PhysicalName c) (ctrl w4)"
            using load_pinned_Inr by (fastforce simp: when_op_def)
          with c3 b3 m4 res Inr facts show ?thesis by (auto simp: new_collection_def)
        qed
      qed
    qed
  qed
qed

section \<open>The rows of an index that is created\<close>

text \<open>The new row of the bucket, as it is inserted or later.\<close>

definition created_row :: "CreateIndexRequest \<Rightarrow> Bucket \<Rightarrow> LogicalCollection \<Rightarrow> bool" where
  "created_row req b c \<longleftrightarrow> c_BucketID c = b_ID b \<and> c_Name c = ci_IndexName req \<and> c_Dim c = ci_Dimension req \<and>
     c_VectorCount c = 0 \<and> c_MigrateState c = [] \<and> (c_Status c = CollStatusInit \<or> c_Status c = CollStatusReady)"

definition at_most_new ::
  "LogicalCollection list \<Rightarrow> string \<Rightarrow> (LogicalCollection \<Rightarrow> bool) \<Rightarrow> Bucket list \<Rightarrow> sqlite \<Rightarrow> bool" where
  "at_most_new cs i P bs d \<longleftrightarrow> buckets d = bs \<and> (collections d = cs \<or> (\<exists>c. collections d = cs @ [c] \<and> c_ID c = i \<and> P c))"

lemma keeps_new_statement: "keeps (at_most_new cs i P bs) f \<Longrightarrow> keeps (at_most_new cs i P bs) (statement f)"
  by (rule keepsI) (auto simp: statement_def Let_def at_most_new_def keeps_iff split: option.split)

lemma update_where_none: "\<not> list_ex (\<lambda>r. c_ID r = i) cs \<Longrightarrow> update_where (\<lambda>r. c_ID r = i) f cs = cs"
  by (induction cs) (auto simp: update_where_def)

lemma keeps_new_update:
  assumes "\<not> list_ex (\<lambda>r. c_ID r = i) cs" and "\<And>c. P c \<Longrightarrow> P (f c)" and "\<And>c. c_ID (f c) = c_ID c"
  shows "keeps (at_most_new cs i P bs) (update_coll i f)"
  unfolding update_coll_def
proof (intro keeps_new_statement keeps_modify)
  fix d assume "at_most_new cs i P bs d"
  then show "at_most_new cs i P bs (d\<lparr>collections := update_where (\<lambda>r. c_ID r = i) f (collections d)\<rparr>)"
    unfolding at_most_new_def
    by (elim conjE disjE exE)
      (simp_all add: update_where_none [OF assms(1)] update_where_last [OF _ assms(1)] assms(2,3))
qed

lemma keeps_new_delete:
  assumes "\<not> list_ex (\<lambda>r. c_ID r = i) cs"
  shows "keeps (at_most_new cs i P bs) (DeleteCollection i)"
  unfolding DeleteCollection_def
proof (intro keeps_new_statement keeps_modify)
  fix d assume "at_most_new cs i P bs d"
  then show "at_most_new cs i P bs (d\<lparr>collections := filter (\<lambda>r. c_ID r \<noteq> i) (collections d)\<rparr>)"
    unfolding at_most_new_def
    by (elim conjE disjE exE) (simp_all add: filter_last [OF assms])
qed

text \<open>Whatever fails, the calls after the insertion touch no row but the new one.\<close>

lemma keeps_new_build:
  fixes A :: "('m, 'x) Adapter_scheme"
  assumes "\<not> list_ex (\<lambda>r. c_ID r = c_ID coll) cs"
  shows "keeps (over_db (at_most_new cs (c_ID coll) (created_row req b) bs))
    (CreateIndex_build A policy coll :: (('m, 'z) world_scheme, unit) op)"
proof -
  let ?J = "at_most_new cs (c_ID coll) (created_row req b) bs"
  have up: "keeps ?J (UpdateCollectionIndexBuilt t (c_ID coll) True)"
    "keeps ?J (UpdateCollectionStatus t (c_ID coll) CollStatusReady)" for t
    unfolding UpdateCollectionIndexBuilt_def UpdateCollectionStatus_def
    by (rule keeps_new_update [OF assms]; simp add: created_row_def)+
  have now: "keeps (over_db ?J) (on_db_now f)" if "\<And>t. keeps ?J (f t)" for f :: "time \<Rightarrow> (sqlite, unit) op"
    unfolding on_db_now_def using that by (intro keeps_bind keeps_db_clock keeps_db_on_db)
  show ?thesis
    unfolding CreateIndex_build_def
    by (intro keeps_rules now up keeps_db_on_db keeps_new_delete [OF assms]
        db_frame.frame_rules [where I = "\<lambda>d _. ?J d"])
qed

lemma on_err_Inr: "on_err m h w = (Inr a, w') \<longleftrightarrow> m w = (Inr a, w')"
  by (auto simp: on_err_def split: prod.splits sum.splits)

lemma on_db_now_Inr:
  "on_db_now f w = (Inr a, w') \<longleftrightarrow>
     (\<exists>d. f (shd (clock w)) (meta_db w) = (Inr a, d) \<and> w' = w\<lparr>clock := stl (clock w), meta_db := d\<rparr>)"
  by (auto simp: on_db_now_def bind_def time_now_def on_db_def split: prod.splits)

lemma update_coll_rows:
  "update_coll i f d = (Inr u, d') \<Longrightarrow> db_rows d' = (buckets d, update_where (\<lambda>r. c_ID r = i) f (collections d))"
  unfolding update_coll_def by (drule statement_Inr) (auto simp: modify_def db_rows_def)

lemma build_success:
  fixes w :: "('m, 'z) world_scheme"
  assumes run: "CreateIndex_build A policy coll w = (Inr u, w')"
    and rows: "collections (meta_db w) = cs @ [c]" and i: "c_ID c = c_ID coll"
    and fresh: "\<not> list_ex (\<lambda>r. c_ID r = c_ID coll) cs"
  shows "\<exists>t. collections (meta_db w') = cs @ [c\<lparr>c_IndexBuilt := True, c_Status := CollStatusReady, c_UpdatedAt := t\<rparr>]"
proof -
  from run obtain m w3 where
    bt: "on_db_now (\<lambda>t. UpdateCollectionIndexBuilt t (c_ID coll) True) (w\<lparr>milvus := m\<rparr>) = (Inr (), w3)"
    and st: "on_db_now (\<lambda>t. UpdateCollectionStatus t (c_ID coll) CollStatusReady) w3 = (Inr (), w')"
    by (auto simp: CreateIndex_build_def bind_eq_Inr on_err_Inr on_milvus_def split: prod.splits)
  from bt have "collections (meta_db w3) = cs @ [c\<lparr>c_IndexBuilt := True, c_UpdatedAt := shd (clock w)\<rparr>]"
    by (auto simp: on_db_now_Inr UpdateCollectionIndexBuilt_def rows db_rows_def update_where_last [OF i fresh]
        dest!: update_coll_rows)
  with st show ?thesis
    by (auto simp: on_db_now_Inr UpdateCollectionStatus_def db_rows_def update_where_last i fresh
        dest!: update_coll_rows)
qed

lemma CreateIndex_plan_names:
  assumes "CreateIndex_plan cfg req w = (Inr (bn, policy, c), w')"
  shows "\<exists>x. ResolveNames (ci_Target req) = Inr (bn, x)"
  using assms by (auto simp: CreateIndex_plan_def Let_def bind_eq_Inr split: if_splits)

text \<open>\<open>CreateIndex\<close> on any database, whichever statements fail.\<close>

lemma CreateIndex_rows:
  fixes w :: "('m, 'z) world_scheme"
  assumes run: "CreateIndex A cfg req w = (r, w')"
  shows "buckets (meta_db w') = buckets (meta_db w) \<and> (collections (meta_db w') = collections (meta_db w) \<and> r \<noteq> Inr arn \<or>
    (\<exists>b x c. ResolveNames (ci_Target req) = Inr (b_Name b, x) \<and> b \<in> set (buckets (meta_db w)) \<and>
       collections (meta_db w') = collections (meta_db w) @ [c] \<and> created_row req b c \<and>
       (r = Inr arn \<longrightarrow> arn = formatIndexARN (Region (ci_Ctx req)) (AccountID (ci_Ctx req)) (b_Name b) (ci_IndexName req) \<and>
         c_Status c = CollStatusReady \<and> c_IndexBuilt c \<and>
         (c_Pinned c \<longrightarrow> IsLoaded (c_PhysicalName c) (ctrl w') \<and> IsPinned (c_PhysicalName c) (ctrl w')))))"
proof -
  let ?cs = "collections (meta_db w)"
  obtain rp w1 where plan: "CreateIndex_plan cfg req w = (rp, w1)" by fastforce
  have q: "db_rows (meta_db w1) = db_rows (meta_db w)"
    using quietD [OF quiet_plan [of cfg req], of w] plan by auto
  show ?thesis
  proof (cases rp)
    case (Inl e)
    with plan run have "r = Inl e" "w' = w1" by (simp_all add: CreateIndex_def bind_def)
    with q show ?thesis by (simp add: db_rows_def)
  next
    case (Inr a)
    then obtain bn policy c where a: "rp = Inr (bn, policy, c)" by (cases a) auto
    obtain x where x: "ResolveNames (ci_Target req) = Inr (bn, x)" using CreateIndex_plan_names plan a by blast
    obtain b t0 u0 where b: "b \<in> set (buckets (meta_db w))" "b_Name b = bn" and
      c: "c = new_collection req (b_ID b) u0 (service_normalizeMetric (ci_DistanceMetric req)) (bp_IndexType policy)
              (TierForIndexType (bp_IndexType policy))
              (if IsPinnedIndexType (bp_IndexType policy) then bp_MaxVectors policy else 0)
              (IsPinnedIndexType (bp_IndexType policy)) t0"
      using CreateIndex_plan_Inr(4) [OF plan [unfolded a]] by blast
    obtain rc w2 where ins: "on_db_now (\<lambda>t. CreateCollection t c) w1 = (rc, w2)" by fastforce
    then obtain d2 where c2: "CreateCollection (shd (clock w1)) c (meta_db w1) = (rc, d2)"
      and w2: "w2 = w1\<lparr>clock := stl (clock w1), meta_db := d2\<rparr>"
      by (auto simp: on_db_now_def bind_def time_now_def on_db_def split: prod.splits)
    show ?thesis
    proof (cases rc)
      case (Inl e)
      with plan a ins run have "r = Inl (wrap_err ErrConflict e)" "w' = w2"
        by (simp_all add: CreateIndex_def bind_def map_err_def)
      with CreateCollection_rows(2) c2 Inl w2 q show ?thesis by (auto simp: db_rows_def)
    next
      case (Inr u)
      from CreateCollection_row [OF c2 [unfolded Inr]] q obtain t1 t2 where
        rows2: "collections d2 = ?cs @ [c\<lparr>c_CreatedAt := t1, c_UpdatedAt := t2\<rparr>]" "buckets d2 = buckets (meta_db w)"
        and fresh: "\<not> list_ex (\<lambda>r. c_ID r = c_ID c) ?cs"
        by (auto simp: db_rows_def)
      let ?J = "at_most_new ?cs (c_ID c) (created_row req b) (buckets (meta_db w))"
      have j2: "?J (meta_db w2)" by (simp add: at_most_new_def w2 rows2 c new_collection_def created_row_def)
      obtain rb w3 where build: "CreateIndex_build A policy c w2 = (rb, w3)" by fastforce
      have j3: "?J (meta_db w3)" using keeps_snd [OF keeps_new_build [OF fresh, of req b "buckets (meta_db w)" A policy], of w2] j2 build by simp
      show ?thesis
      proof (cases rb)
        case (Inl e)
        with plan a ins \<open>rc = Inr u\<close> build run have "r = Inl e" "w' = w3"
          by (simp_all add: CreateIndex_def bind_def map_err_def)
        with j3 x b show ?thesis by (auto simp: at_most_new_def)
      next
        case (Inr v)
        from build_success [OF build [unfolded Inr], of ?cs] rows2(1) fresh obtain t3 where
          c3: "collections (meta_db w3) = ?cs @ [c\<lparr>c_CreatedAt := t1, c_IndexBuilt := True, c_Status := CollStatusReady, c_UpdatedAt := t3\<rparr>]"
          by (auto simp: w2)
        obtain rl w4 where load: "when_op (c_Pinned c) (map_err (wrap_err ErrServiceUnavailable)
            (load_pinned A (c_PhysicalName c) (EstimateMemMB (c_MaxVectors c) (c_Dim c)))) w3 = (rl, w4)"
          by fastforce
        have m4: "meta_db w4 = meta_db w3"
          using load load_pinned_db [of A "c_PhysicalName c" "EstimateMemMB (c_MaxVectors c) (c_Dim c)" w3]
          by (auto simp: when_op_def return_def map_err_def split: if_splits prod.splits sum.splits)
        have res: "w' = w4" "r = (case rl of Inl e \<Rightarrow> Inl e | Inr _ \<Rightarrow>
            Inr (formatIndexARN (Region (ci_Ctx req)) (AccountID (ci_Ctx req)) bn (ci_IndexName req)))"
          using plan a ins \<open>rc = Inr u\<close> build Inr load run
          by (auto simp: CreateIndex_def bind_def map_err_def return_def split: sum.splits)
        have "c_Pinned c \<Longrightarrow> rl = Inr () \<Longrightarrow> IsLoaded (c_PhysicalName c) (ctrl w4) \<and> IsPinned (c_PhysicalName c) (ctrl w4)"
          using load load_pinned_Inr by (fastforce simp: when_op_def)
        with c3 m4 res j3 b x c show ?thesis
          by (cases rl) (auto simp: new_collection_def created_row_def at_most_new_def)
      qed
    qed
  qed
qed

section \<open>Writing and deleting vectors\<close>

lemma quiet_put_columns: "quiet (put_columns dm vs cols)"
proof (induction vs arbitrary: cols)
  case (Cons v vs)
  then show ?case by (cases cols) (auto intro!: quiet_rules)
qed (simp add: quiet_rules)

lemma quiet_resolve_writable: "quiet (resolve_writable t)"
  unfolding resolve_writable_def by (intro quiet_rules reads_router_quota)

lemma quiet_PutVectors_plan: "quiet (PutVectors_plan cfg req)"
  unfolding PutVectors_plan_def by (intro quiet_rules quiet_resolve_writable quiet_put_columns)

lemma resolve_writable_Inr:
  assumes "resolve_writable t w = (Inr c, w')"
  shows "c \<in> set (collections (meta_db w)) \<and> c_Status c = CollStatusReady \<and> c_MigrateState c = []"
proof -
  from assms obtain bn cn d where r: "Resolve bn cn (meta_db w) = (Inr c, d)" and "c_MigrateState c = []"
    by (auto simp: resolve_writable_def bind_eq_Inr on_db_eq_Inr split: if_splits)
  then show ?thesis by (blast elim: Resolve_Inr)
qed

lemma resolve_writable_names:
  assumes "resolve_writable t w = (Inr c, w')"
  shows "\<exists>bn cn b. ResolveNames t = Inr (bn, cn) \<and> b \<in> set (buckets (meta_db w)) \<and> b_Name b = bn \<and>
    b_Status b = BucketStatusReady \<and> c_BucketID c = b_ID b \<and> c_Name c = cn"
proof -
  from assms obtain bn cn d where n: "ResolveNames t = Inr (bn, cn)" and r: "Resolve bn cn (meta_db w) = (Inr c, d)"
    by (auto simp: resolve_writable_def bind_eq_Inr on_db_eq_Inr split: if_splits)
  from n show ?thesis by (blast intro: Resolve_Inr [OF r])
qed

lemma put_columns_Inr:
  assumes "put_columns dm vs (ids, vecs, mds, ts) w = (Inr (ids', vecs', mds', ts'), w')"
  shows "list_all (\<lambda>v. int (length (piv_Data v)) = dm) vs \<and> ids' = ids @ map piv_Key vs \<and>
    vecs' = vecs @ map piv_Data vs \<and> mds' = mds @ map piv_Metadata vs \<and> length ts' = length ts + length vs"
  using assms
proof (induction vs arbitrary: ids vecs mds ts w)
  case (Cons v vs)
  then have dim_ok: "int (length (piv_Data v)) = dm"
    and "put_columns dm vs (ids @ [piv_Key v], vecs @ [piv_Data v], mds @ [piv_Metadata v],
      ts @ [UnixMilli (shd (clock w))]) (w\<lparr>clock := stl (clock w)\<rparr>) = (Inr (ids', vecs', mds', ts'), w')"
    by (auto simp: bind_eq_Inr time_now_eq split: if_splits)
  from Cons.IH [OF this(2)] dim_ok show ?case by simp
qed simp

lemma healthy_plan_put: "keeps (over_db healthy) (PutVectors_plan cfg req)"
proof -
  have cols: "keeps (over_db healthy) (put_columns dm vs cs)" for dm vs cs
  proof (induction vs arbitrary: cs)
    case (Cons v vs)
    then show ?case by (cases cs) (auto intro!: keeps_rules keeps_db_clock)
  qed (auto intro: keeps_rules)
  show ?thesis
    unfolding PutVectors_plan_def resolve_writable_def
    by (intro keeps_rules keeps_db_on_db healthy_reads cols)
qed

lemma frame_db:
  fixes w :: "('m, 'z) world_scheme"
  shows "meta_db (snd (Release A n w)) = meta_db w" "meta_db (snd (EnsureLoaded A n est w)) = meta_db w"
  using keeps_snd [OF db_frame.frame_Release [where I = "\<lambda>d _. d = meta_db w"], of w A n]
    keeps_snd [OF db_frame.frame_EnsureLoaded [where I = "\<lambda>d _. d = meta_db w"], of w A n est]
  by simp_all

section \<open>The state of Milvus through the controller\<close>

abbreviation over_milvus :: "('m \<Rightarrow> bool) \<Rightarrow> ('m, 'z) cworld_scheme \<Rightarrow> bool" where
  "over_milvus P w \<equiv> P (milvus w)"

lemma milvus_snd_on_milvus [simp]: "milvus (snd (on_milvus f w)) = snd (f (milvus w))"
  by (simp add: on_milvus_def split: prod.split)

lemma milvus_on_milvus: "keeps P f \<Longrightarrow> keeps (over_milvus P) (on_milvus f)"
  by (rule keepsI) (simp add: keeps_snd)

lemma milvus_other:
  "keeps (over_milvus P) (on_ctrl g)" "keeps (over_milvus P) time_now" "keeps (over_milvus P) (on_db f)"
  "keeps (over_milvus P) (on_db_now h)"
proof -
  show t: "keeps (over_milvus P) (on_ctrl g)" "keeps (over_milvus P) time_now" "keeps (over_milvus P) (on_db f)" for f
    by (rule keepsI, simp add: on_ctrl_def modify_def time_now_def)+
  show "keeps (over_milvus P) (on_db_now h)"
    unfolding on_db_now_def by (intro keeps_bind t)
qed

lemma milvus_flags: "keeps (over_milvus P) (Pin n)" "keeps (over_milvus P) (Unpin n)"
  unfolding Pin_def Unpin_def by (rule milvus_other)+

lemma milvus_Release:
  assumes "keeps P (ReleaseCollection A n)"
  shows "keeps (over_milvus P) (Release A n :: (('m, 'z) cworld_scheme, unit) op)"
proof (rule keepsI)
  fix w :: "('m, 'z) cworld_scheme" assume "over_milvus P w"
  moreover have "keeps (over_milvus P) (bind (on_milvus (ReleaseCollection A n)) (\<lambda>_. on_ctrl (drop_entry n))
      :: (('m, 'z) cworld_scheme, unit) op)"
    by (intro keeps_bind milvus_on_milvus assms milvus_other)
  ultimately show "over_milvus P (snd (Release A n w))" by (simp add: Release_def keeps_iff)
qed

lemma milvus_EnsureLoaded:
  assumes "keeps P (LoadCollection A n)" and "\<And>x. keeps P (ReleaseCollection A x)"
  shows "keeps (over_milvus P) (EnsureLoaded A n est :: (('m, 'z) cworld_scheme, unit) op)"
proof (rule keepsI)
  fix w :: "('m, 'z) cworld_scheme" assume p: "over_milvus P w"
  have ev: "keeps (over_milvus P) (evictIfNeededLocked A est :: (('m, 'z) cworld_scheme, unit) op)"
    by (rule keeps_evict_world) (use assms(2) in \<open>auto simp: keeps_iff, (metis snd_conv)+\<close>)
  have hit: "keeps (over_milvus P) (ensure_hit n :: (('m, 'z) cworld_scheme, unit) op)"
    unfolding ensure_hit_def by (intro keeps_bind milvus_other)
  have "keeps (over_milvus P) (bind (evictIfNeededLocked A est) (\<lambda>_.
      bind (map_err (\<lambda>e. Errorf [Lit ''load collection '', ArgS n, Lit '': '', ArgW e])
        (on_milvus (LoadCollection A n))) (\<lambda>_.
      bind time_now (\<lambda>now. on_ctrl (add_entry now n est)))) :: (('m, 'z) cworld_scheme, unit) op)"
    by (intro keeps_bind keeps_map_err milvus_other ev milvus_on_milvus assms(1))
  with hit p show "over_milvus P (snd (EnsureLoaded A n est w))"
    by (simp add: EnsureLoaded_def EnsureLoaded_locked_def keeps_iff)
qed

lemma milvus_load_pinned:
  assumes "keeps P (LoadCollection A n)" and "\<And>x. keeps P (ReleaseCollection A x)"
  shows "keeps (over_milvus P) (load_pinned A n est)"
  unfolding load_pinned_def by (intro keeps_bind milvus_EnsureLoaded assms milvus_flags)

section \<open>Properties\<close>

text \<open>C22: Creating an index adds one row to the bucket the request names, or none, whichever statements of the
  database and calls of Milvus fail, and changes no other row. On success the row is ready, built and (for a
  pinned index) loaded and pinned, and the answer is the ARN of the index. An error can leave the row behind:
  when the database runs its statements, only if loading the finished index failed (ErrServiceUnavailable), and
  then it is ready; when a statement of the clean-up or an update of the row fails, also otherwise, as it was
  inserted.\<close>

theorem CreateIndex_outcomes:
  "case CreateIndex A cfg req w of (r, w') \<Rightarrow> buckets (meta_db w') = buckets (meta_db w) \<and>
    (collections (meta_db w') = collections (meta_db w) \<and> (\<exists>e. r = Inl e) \<or>
     (\<exists>b x c. ResolveNames (ci_Target req) = Inr (b_Name b, x) \<and> b \<in> set (buckets (meta_db w)) \<and>
       collections (meta_db w') = collections (meta_db w) @ [c] \<and> created_row req b c \<and>
       (\<forall>arn. r = Inr arn \<longrightarrow>
         arn = formatIndexARN (Region (ci_Ctx req)) (AccountID (ci_Ctx req)) (b_Name b) (ci_IndexName req) \<and>
         c_Status c = CollStatusReady \<and> c_IndexBuilt c \<and>
         (c_Pinned c \<longrightarrow> IsLoaded (c_PhysicalName c) (ctrl w') \<and> IsPinned (c_PhysicalName c) (ctrl w'))))) \<and>
    (\<forall>e. healthy (meta_db w) \<and> r = Inl e \<longrightarrow>
       (if errors_Is ErrServiceUnavailable e
        then \<exists>c. collections (meta_db w') = collections (meta_db w) @ [c] \<and> c_Status c = CollStatusReady
        else collections (meta_db w') = collections (meta_db w)))"
proof -
  obtain r w' where run: "CreateIndex A cfg req w = (r, w')" by fastforce
  note rows = CreateIndex_rows [OF run]
  have "\<forall>e. healthy (meta_db w) \<and> r = Inl e \<longrightarrow>
       (if errors_Is ErrServiceUnavailable e
        then \<exists>c. collections (meta_db w') = collections (meta_db w) @ [c] \<and> c_Status c = CollStatusReady
        else collections (meta_db w') = collections (meta_db w))"
    using CreateIndex_outcome [OF _ run] by (auto split: if_splits)
  note healthy = this
  show ?thesis
  proof (cases r)
    case (Inl e)
    with rows [of undefined] healthy run show ?thesis by simp
  next
    case (Inr arn)
    with rows [of arn] healthy run show ?thesis by auto
  qed
qed

definition sample_bucket :: Bucket where
  "sample_bucket = \<lparr>b_ID = ''b1'', b_Name = ''docs'', b_Owner = ''acct'', b_Status = BucketStatusReady,
     b_CreatedAt = 1, b_UpdatedAt = 1\<rparr>"

definition sample_coll :: "string \<Rightarrow> LogicalCollection" where
  "sample_coll st = \<lparr>c_ID = ''c1'', c_BucketID = ''b1'', c_Name = ''idx'', c_Dim = 2, c_Metric = ''L2'',
     c_IndexType = ''ivf_sq8'', c_Tier = ''standard'', c_MaxVectors = 0, c_Pinned = False,
     c_Status = CollStatusReady, c_PhysicalName = ''vb_b1_c1'', c_IndexBuilt = True, c_VectorCount = 0,
     c_EstMemMB = 0, c_LastAccessAt = 0, c_MigrateState = st, c_TargetIndexType = [], c_SourcePhysicalName = [],
     c_TargetPhysicalName = [], c_MaintenanceSince = 0, c_LastMigrateError = [], c_CreatedAt = 1, c_UpdatedAt = 1\<rparr>"

definition sample_state :: "string \<Rightarrow> unit world" where
  "sample_state st = \<lparr>ctrl = NewLoadController (\<lambda>_ _. 0) 4096 (1800 * 10 ^ 9) 50, milvus = (), clock = sconst 5,
     meta_db = \<lparr>buckets = [sample_bucket], collections = [sample_coll st], outcomes = sconst None\<rparr>,
     uuids = sconst ''00000000-0000-0000-0000-000000000001''\<rparr>"

definition sample_target :: Target where
  "sample_target = \<lparr>VectorBucketName = ''docs'', VectorBucketARN = [], IndexName = ''idx'', IndexARN = []\<rparr>"

definition sample_context :: RequestContext where
  "sample_context = \<lparr>AccountID = ''acct'', Region = ''r'', RequestID = [], Headers = []\<rparr>"

definition sample_put :: PutVectorsRequest where
  "sample_put = \<lparr>pv_Ctx = sample_context, pv_Target = sample_target,
     pv_Vectors = [\<lparr>piv_Key = ''k'', piv_Data = [1, 2], piv_Metadata = []\<rparr>]\<rparr>"

text \<open>A Milvus that accepts every call.\<close>

definition accepting :: "unit Adapter" where
  "accepting = \<lparr>LoadCollection = (\<lambda>n. return ()), ReleaseCollection = (\<lambda>n. return ()),
     ad_CreateCollection = (\<lambda>n d m. return ()), ad_DropCollection = (\<lambda>n. return ()),
     ad_HasCollection = (\<lambda>n. return True), ad_CreateIndex = (\<lambda>n s. return ()),
     ad_Insert = (\<lambda>n a b c d. return ()), ad_Upsert = (\<lambda>n a b c d. return ()),
     ad_Delete = (\<lambda>n k. return ()), ad_Search = (\<lambda>n v s. return []), ad_Scan = (\<lambda>n b f. return ()),
     ad_Count = (\<lambda>n. return 0), ad_Close = return ()\<rparr>"

lemma sample_store_ok: "store_ok (meta_db (sample_state st))" "healthy (meta_db (sample_state st))"
  by (simp_all add: sample_state_def store_ok_def sample_bucket_def sample_coll_def healthy_def)

lemma sample_Resolve: "Resolve ''docs'' ''idx'' (meta_db (sample_state st)) = (Inr (sample_coll st), meta_db (sample_state st))"
  using Resolve_complete [OF sample_store_ok(1) [of st], of sample_bucket "sample_coll st"]
  by (simp add: sample_state_def sample_bucket_def sample_coll_def)

theorem CreateIndex_outcomes_witness:
  "case CreateIndex accepting DefaultConfig \<lparr>ci_Ctx = sample_context, ci_Target = sample_target,
       ci_IndexName = ''new'', ci_DataType = ''float32'', ci_Dimension = 3, ci_DistanceMetric = ''cosine'',
       ci_Encryption = None, ci_MetadataConfiguration = None, ci_Tags = []\<rparr> (sample_state []) of
     (Inr arn, w') \<Rightarrow> length (collections (meta_db w')) = 2
   | (Inl e, w') \<Rightarrow> errors_Is ErrServiceUnavailable e \<or> length (collections (meta_db w')) = 1"
  using CreateIndex_outcomes [where A = accepting and cfg = DefaultConfig and w = "sample_state []"
      and req = "\<lparr>ci_Ctx = sample_context, ci_Target = sample_target,
       ci_IndexName = ''new'', ci_DataType = ''float32'', ci_Dimension = 3, ci_DistanceMetric = ''cosine'',
       ci_Encryption = None, ci_MetadataConfiguration = None, ci_Tags = []\<rparr>"] sample_store_ok(2) [of "[]"]
  by (auto simp: sample_state_def split: prod.splits sum.splits if_splits)

text \<open>C29: A put that is refused with a validation, not-found or quota error has changed nothing:
  neither Milvus nor the controller nor any row. Only an internal error or an unavailable service can
  leave a partial effect.\<close>

theorem PutVectors_refused_without_effect:
  "case PutVectors A cfg req w of
     (Inr _, w') \<Rightarrow> True
   | (Inl e, w') \<Rightarrow> errors_Is ErrInternal e \<or> errors_Is ErrServiceUnavailable e \<or>
       (ctrl w' = ctrl w \<and> milvus w' = milvus w \<and> db_rows (meta_db w') = db_rows (meta_db w))"
proof -
  obtain rp w1 where plan: "PutVectors_plan cfg req w = (rp, w1)" by fastforce
  show ?thesis
  proof (cases rp)
    case (Inl e)
    then show ?thesis
      using plan quietD [OF quiet_PutVectors_plan [of cfg req], of w] by (simp add: PutVectors_def bind_def)
  next
    case (Inr a)
    obtain coll ids vs ms ts where a: "a = (coll, ids, vs, ms, ts)" by (cases a)
    let ?rest = "bind (map_err (wrap_err ErrInternal) (on_milvus (ad_Upsert A (c_PhysicalName coll) ids vs ms ts))) (\<lambda>_.
        bind (map_err (wrap_err ErrInternal)
          (on_db_now (\<lambda>t. UpdateCollectionVectorCount t (c_ID coll) (int (length (pv_Vectors req)))))) (\<lambda>_.
        when_op (c_Pinned coll)
          (let estMem = (if c_EstMemMB coll \<le> 0 then EstimateMemMB (c_MaxVectors coll) (c_Dim coll) else c_EstMemMB coll) in
           bind (map_err (wrap_err ErrInternal) (Release A (c_PhysicalName coll))) (\<lambda>_.
           map_err (wrap_err ErrServiceUnavailable) (load_pinned A (c_PhysicalName coll) estMem)))))"
    have "fails_with {ErrInternal, ErrServiceUnavailable} ?rest"
      unfolding Let_def by (intro fails_with_rules insertI1 insertI2)
    moreover have "PutVectors A cfg req w = ?rest w1"
      using plan Inr a by (simp add: PutVectors_def bind_def)
    ultimately show ?thesis
      by (auto simp: is_only_def dest: fails_withD split: prod.splits sum.splits)
  qed
qed

text \<open>While a collection is migrating, its vectors cannot change: puts and deletes are answered with
  ErrServiceUnavailable and have no effect.\<close>

lemma no_writes_during_migration:
  assumes "Resolve bn cn (meta_db w) = (Inr c, d)" and "c_MigrateState c \<noteq> []"
    and "ResolveNames (pv_Target req) = Inr (bn, cn)" and "ResolveNames (dv_Target del) = Inr (bn, cn)"
  shows "\<exists>w'. PutVectors A cfg req w = (Inl (wrap_text ErrServiceUnavailable ''collection is migrating''), w') \<and>
    DeleteVectors A del w = (Inl (wrap_text ErrServiceUnavailable ''collection is migrating''), w') \<and>
    ctrl w' = ctrl w \<and> milvus w' = milvus w \<and> db_rows (meta_db w') = db_rows (meta_db w)"
  using assms Resolve_rows [OF assms(1)]
  by (simp add: PutVectors_def PutVectors_plan_def DeleteVectors_def resolve_writable_def bind_def liftR_def
      map_err_def on_db_def fail_def db_rows_def)

lemma healthy_resolve_writable: "keeps (over_db healthy) (resolve_writable t)"
  unfolding resolve_writable_def by (intro keeps_rules keeps_db_on_db healthy_reads)

text \<open>The in-flight count of every tracked collection is the one given.\<close>

definition counts :: "(string \<Rightarrow> int) \<Rightarrow> LoadController \<Rightarrow> bool" where
  "counts f c \<longleftrightarrow> (\<forall>n e. entry c n = Some e \<longrightarrow> le_InFlightCount e = f n)"

lemma countsD: "counts f c \<Longrightarrow> entry c n = Some e \<Longrightarrow> le_InFlightCount e = f n"
  by (simp add: counts_def)

lemma counts_drop: "counts f c \<Longrightarrow> counts f (drop_entry n c)"
  by (auto simp: counts_def entry_drop_entry)

lemma counts_touch: "counts f c \<Longrightarrow> counts f (touch now n c)"
  by (auto simp: counts_def entry_touch split: if_splits)

lemma counts_add: "counts f c \<Longrightarrow> f n = 0 \<Longrightarrow> counts f (add_entry now n est c)"
  by (auto simp: counts_def entry_add_entry split: if_splits)

lemma counts_set:
  "counts f c \<Longrightarrow> (\<And>e. le_InFlightCount e = f n \<Longrightarrow> le_InFlightCount (g e) = k) \<Longrightarrow> counts (f(n := k)) (set_entry n g c)"
  by (auto simp: counts_def entry_set_entry)

lemma counts_EnsureLoaded:
  assumes "counts f (ctrl w)" and "\<not> IsLoaded n (ctrl w) \<Longrightarrow> f n = 0"
  shows "counts f (ctrl (snd (EnsureLoaded A n est w)))"
proof (cases "IsLoaded n (ctrl w)")
  case True
  with assms(1) show ?thesis by (simp add: EnsureLoaded_hit counts_touch)
next
  case False
  have ev: "counts f (ctrl (snd (evictIfNeededLocked A est w)))"
    by (intro triple_snd [OF keeps_evict [where I = "counts f"]]) (auto intro: counts_drop assms(1))
  obtain r w' where run: "EnsureLoaded A n est w = (r, w')" by fastforce
  show ?thesis
  proof (cases r)
    case (Inl e)
    with run ev EnsureLoaded_error [of A n est w e w'] show ?thesis by auto
  next
    case (Inr u)
    with run have run': "EnsureLoaded A n est w = (Inr (), w')" by simp
    show ?thesis
      by (rule EnsureLoaded_miss [OF False run']) (use run ev assms(2) False in \<open>auto intro!: counts_add\<close>)
  qed
qed

lemma counts_flags:
  assumes "counts f (ctrl w)"
  shows "is_int64 (f n + 1) \<Longrightarrow> counts (f(n := f n + 1)) (ctrl (snd (InFlightInc n w)))"
    and "f n > 0 \<Longrightarrow> counts (f(n := f n - 1)) (ctrl (snd (InFlightDec n w)))"
    and "counts f (ctrl (snd (Touch n w)))"
  using assms counts_set [OF assms, of n]
  by (auto simp: InFlightInc_def InFlightDec_def Touch_def on_ctrl_def modify_def bind_def time_now_def return_def
      intro!: counts_set counts_touch)

lemma snd_deferred: "snd (deferred d m s) = snd (d (snd (m s)))"
  by (simp add: deferred_def split: prod.split)

lemma triple_of_snd: "(\<And>s. P s \<Longrightarrow> Q (snd (m s))) \<Longrightarrow> triple P m (\<lambda>_. Q) (\<lambda>_. Q)"
  unfolding triple_iff by (metis snd_conv)

lemma triple_err: "triple P m Q (\<lambda>_. P) \<Longrightarrow> (\<And>s. P s \<Longrightarrow> R s) \<Longrightarrow> triple P m Q (\<lambda>_. R)"
  by (rule triple_weaken)

lemma triple_case_prod:
  "(\<And>a b. triple P (f a b) Q E) \<Longrightarrow> triple P (case p of (a, b) \<Rightarrow> f a b) Q E"
  by (cases p) simp

lemma triple_if: "triple P m Q E \<Longrightarrow> triple P n Q E \<Longrightarrow> triple P (if b then m else n) Q E"
  by simp

text \<open>C30: A query leaves no in-flight count behind: whatever the search answers, every collection that
  is tracked afterwards has the count it had before, a newly loaded one zero.\<close>

theorem QueryVectors_balances_in_flight:
  fixes w :: "('m, 'z) world_scheme"
  assumes "counts f (ctrl w)" and "\<And>n. \<not> IsLoaded n (ctrl w) \<Longrightarrow> f n = 0"
    and "\<And>n. 0 \<le> f n \<and> f n < 2 ^ 63 - 1"
  shows "counts f (ctrl (snd (QueryVectors A cfg req w)))"
proof -
  let ?body = "\<lambda>bucketName coll. bind (Touch (c_PhysicalName coll)) (\<lambda>_.
        bind (ignore (on_db_now (\<lambda>t. UpdateCollectionLastAccess t (c_ID coll)))) (\<lambda>_.
        bind (map_err (wrap_err ErrInternal) (on_milvus (ad_Search A (c_PhysicalName coll)
            (qv_QueryVector req) (query_spec cfg bucketName coll req)))) (\<lambda>results.
        return \<lparr>qvr_DistanceMetric = ToLower (c_Metric coll), qvr_Vectors = map (query_item req) results\<rparr>)))"
  have body: "counts g (ctrl (snd (?body bn coll v)))" if "counts g (ctrl v)" for g bn coll and v :: "('m, 'z) world_scheme"
  proof -
    have "keeps (over_ctrl (counts g)) (?body bn coll)"
      by (intro keeps_rules) (rule keepsI, rule counts_flags(3))
    then show ?thesis using that by (rule keeps_snd)
  qed
  have query: "counts f (ctrl (snd (bind (InFlightInc p) (\<lambda>_. deferred (InFlightDec p) (?body bn coll)) v)))"
    if "counts f (ctrl v)" for p bn coll and v :: "('m, 'z) world_scheme"
  proof -
    obtain v1 where v1: "InFlightInc p v = (Inr (), v1)" by (simp add: InFlightInc_def on_ctrl_def modify_def)
    have "is_int64 (f p + 1)" using assms(3) [of p] by (simp add: is_int64_def)
    then have "counts (f(p := f p + 1)) (ctrl v1)" using counts_flags(1) [OF that, of p] v1 by simp
    then have "counts (f(p := f p + 1)) (ctrl (snd (?body bn coll v1)))" by (rule body)
    from counts_flags(2) [OF this, of p] assms(3) [of p]
    have "counts f (ctrl (snd (InFlightDec p (snd (?body bn coll v1)))))" by simp
    then show ?thesis by (simp add: bind_Inr [of "InFlightInc p" v "()" v1, OF v1] snd_deferred)
  qed
  let ?P = "over_ctrl (\<lambda>c. counts f c \<and> (\<forall>n. \<not> IsLoaded n c \<longrightarrow> f n = 0))"
  have load: "triple ?P (EnsureLoaded A p est) (\<lambda>_. over_ctrl (counts f)) (\<lambda>_. over_ctrl (counts f))" for p est
    by (rule triple_of_snd) (simp add: counts_EnsureLoaded)
  have "triple ?P (QueryVectors A cfg req :: (('m, 'z) world_scheme, _) op) (\<lambda>_. over_ctrl (counts f)) (\<lambda>_. over_ctrl (counts f))"
    unfolding QueryVectors_def Let_def
    apply (rule triple_bind [where R = "\<lambda>_. ?P"])
     apply (rule triple_err, rule keeps_liftR, simp)
    apply (rule triple_case_prod)
    apply (rule triple_bind [where R = "\<lambda>_. ?P"])
     apply (rule triple_err, intro keeps_rules, simp)
    apply (rule triple_if)
     apply (rule triple_fail, simp)
    apply (rule triple_bind [where R = "\<lambda>_. over_ctrl (counts f)"])
     apply (rule triple_map_err, rule load)
    apply (rule keepsI, rule query, assumption)
    done
  then show ?thesis
    by (rule triple_snd) (intro conjI allI impI assms(1), erule assms(2))
qed

theorem QueryVectors_balances_in_flight_witness:
  "counts (\<lambda>_. 0) (ctrl (snd (QueryVectors accepting DefaultConfig
     \<lparr>qv_Ctx = sample_context, qv_Target = sample_target, qv_QueryVector = [1, 2], qv_TopK = 3, qv_Filter = [],
      qv_ReturnDistance = True, qv_ReturnMetadata = True\<rparr> (sample_state []))))"
  by (rule QueryVectors_balances_in_flight)
     (simp_all add: counts_def sample_state_def NewLoadController_def entry_def)

lemma keeps_reload:
  fixes A :: "('m, 'x) Adapter_scheme"
  assumes "\<And>n. keeps P (LoadCollection A n)" and "\<And>n. keeps P (ReleaseCollection A n)"
  shows "keeps (over_milvus P) (when_op b (bind (map_err (wrap_err ErrInternal) (Release A n)) (\<lambda>_.
    map_err (wrap_err ErrServiceUnavailable) (load_pinned A n est))) :: (('m, 'z) world_scheme, unit) op)"
  by (intro keeps_rules milvus_Release milvus_load_pinned assms)



text \<open>A delete that succeeds lowers the count of the row by the number of keys of the request, whether
  or not they were stored: the count is not the number of stored vectors, and can become negative.\<close>

lemma DeleteVectors_success:
  fixes w :: "('m, 'z) world_scheme"
  assumes "healthy (meta_db w)" and "DeleteVectors A req w = (Inr (), w')"
  shows "\<exists>c m t. c \<in> set (collections (meta_db w)) \<and> c_Status c = CollStatusReady \<and> c_MigrateState c = [] \<and>
    ad_Delete A (c_PhysicalName c) (dv_Keys req) (milvus w) = (Inr (), m) \<and> ctrl w' = ctrl w \<and> milvus w' = m \<and>
    collections (meta_db w') = (if dv_Keys req = [] then collections (meta_db w) else
      update_where (\<lambda>r. c_ID r = c_ID c)
        (\<lambda>r. r\<lparr>c_VectorCount := c_VectorCount r - int (length (dv_Keys req)), c_UpdatedAt := t\<rparr>)
        (collections (meta_db w)))"
proof -
  from assms(2) obtain c w1 w2 where wr: "resolve_writable (dv_Target req) w = (Inr c, w1)"
    and del: "on_milvus (ad_Delete A (c_PhysicalName c) (dv_Keys req)) w1 = (Inr (), w2)"
    and cnt: "when_op (dv_Keys req \<noteq> []) (ignore (on_db_now
      (\<lambda>t. UpdateCollectionVectorCount t (c_ID c) (- int (length (dv_Keys req)))))) w2 = (Inr (), w')"
    by (auto simp: DeleteVectors_def bind_eq_Inr)
  have q: "ctrl w1 = ctrl w" "milvus w1 = milvus w" "db_rows (meta_db w1) = db_rows (meta_db w)"
    using quietD [OF quiet_resolve_writable [of "dv_Target req"], of w] wr by auto
  have h1: "healthy (meta_db w1)"
    using keeps_snd [OF healthy_resolve_writable assms(1), of "dv_Target req"] wr by simp
  obtain m where m: "ad_Delete A (c_PhysicalName c) (dv_Keys req) (milvus w) = (Inr (), m)" and w2: "w2 = w1\<lparr>milvus := m\<rparr>"
    using del q by (auto simp: on_milvus_def split: prod.splits)
  show ?thesis
    using resolve_writable_Inr [OF wr] m cnt h1 q
    by (intro exI [of _ c] exI [of _ m] exI [of _ "shd (clock w2)"])
       (auto simp: w2 when_op_def ignore_def on_db_now_def bind_def time_now_def on_db_def return_def
          UpdateCollectionVectorCount_def update_coll_healthy db_rows_def split: if_splits)
qed

lemma DeleteVectorBucket_rows:
  fixes w :: "('m, 'z) world_scheme"
  assumes "DeleteVectorBucket req w = (Inr (), w')"
  shows "\<exists>b \<in> set (buckets (meta_db w)). live_collections (b_ID b) (meta_db w) = [] \<and>
    buckets (meta_db w') = filter (\<lambda>r. b_ID r \<noteq> b_ID b) (buckets (meta_db w)) \<and>
    collections (meta_db w') = filter (\<lambda>c. c_BucketID c \<noteq> b_ID b) (collections (meta_db w)) \<and>
    ctrl w' = ctrl w \<and> milvus w' = milvus w"
proof -
  from assms obtain bn b d1 k d2 d3 where gb: "GetBucketByName bn (meta_db w) = (Inr b, d1)"
    and k: "CountCollections (b_ID b) d1 = (Inr k, d2)" "\<not> k > 0"
    and del: "DeleteBucket (b_ID b) d2 = (Inr (), d3)" and w': "w' = w\<lparr>meta_db := d3\<rparr>"
    by (auto simp: DeleteVectorBucket_def bind_eq_Inr on_db_eq_Inr split: if_splits)
  have d: "db_rows d1 = db_rows (meta_db w)" "db_rows d2 = db_rows (meta_db w)"
    using reads_rows [OF reads_store(2) gb] reads_rows [OF reads_store(10) k(1)] by simp_all
  have "b \<in> set (buckets (meta_db w))"
    using statement_Inr [OF gb [unfolded GetBucketByName_def]] by (auto dest: find_Some_props)
  moreover have "live_collections (b_ID b) (meta_db w) = []"
    using statement_Inr [OF k(1) [unfolded CountCollections_def]] k(2) d(1)
    by (auto simp: live_collections_def db_rows_def)
  moreover have "db_rows d3 = (filter (\<lambda>r. b_ID r \<noteq> b_ID b) (buckets (meta_db w)),
      filter (\<lambda>c. c_BucketID c \<noteq> b_ID b) (collections (meta_db w)))"
    using statement_Inr [OF del [unfolded DeleteBucket_def]] d(2) by (auto simp: db_rows_def)
  ultimately show ?thesis using w' by (intro bexI [of _ b]) (simp_all add: db_rows_def)
qed

lemma DeleteVectorBucket_Inl:
  assumes "DeleteVectorBucket req w = (Inl e, w')"
  shows "db_rows (meta_db w') = db_rows (meta_db w)"
proof -
  have del: "db_rows d' = db_rows d" if "DeleteBucket i d = (Inl x, d')" for i d x d'
    using that by (auto simp: DeleteBucket_def statement_def Let_def modify_def split: option.splits)
  note r1 = reads_rows [OF reads_store(2)] and r2 = reads_rows [OF reads_store(10)]
  show ?thesis
    using assms
    by (auto simp: DeleteVectorBucket_def bind_def liftR_def map_err_def on_db_def fail_def
        split: sum.splits prod.splits if_splits dest!: r1 r2 del)
qed

text \<open>A bucket is deleted only when it has no index: a successful delete found no row of a collection
  that is not deleted, and removes the bucket and nothing of any other bucket.\<close>

lemma DeleteVectorBucket_success:
  fixes w :: "('m, 'z) world_scheme"
  assumes "DeleteVectorBucket req w = (Inr (), w')"
  shows "\<exists>b \<in> set (buckets (meta_db w)). live_collections (b_ID b) (meta_db w) = [] \<and>
    buckets (meta_db w') = filter (\<lambda>r. b_ID r \<noteq> b_ID b) (buckets (meta_db w)) \<and>
    collections (meta_db w') = filter (\<lambda>c. c_BucketID c \<noteq> b_ID b) (collections (meta_db w)) \<and>
    ctrl w' = ctrl w \<and> milvus w' = milvus w"
  using DeleteVectorBucket_rows [OF assms] .

end
