(* ===== verification/VB_Migration.thy ===== *)
theory VB_Migration
  imports VB_Services
begin

text \<open>
  The migration worker (pkg/gateway/vectorbucket/migration/service.go): a collection whose index
  model was changed is copied to a new physical collection with the new index, the counts are
  compared, and the row is switched to the copy.
\<close>

section \<open>The worker\<close>

text \<open>\<open>if err != nil { handle(err); return err }\<close>\<close>

definition on_err_with :: "('s, 'a) op \<Rightarrow> (goerr \<Rightarrow> ('s, unit) op) \<Rightarrow> ('s, 'a) op" where
  "on_err_with m h s = (case m s of (Inl e, s') \<Rightarrow> (Inl e, snd (h e s')) | (Inr a, s') \<Rightarrow> (Inr a, s'))"

definition step_err :: "string \<Rightarrow> goerr \<Rightarrow> goerr" where
  "step_err what e = Errorf [Lit (what @ '': ''), ArgW e]"

definition source_estimate :: "LogicalCollection \<Rightarrow> rat" where
  "source_estimate coll =
     (if c_EstMemMB coll \<le> 0
      then EstimateMemMB (if c_MaxVectors coll \<le> 0 then c_VectorCount coll else c_MaxVectors coll) (c_Dim coll)
      else c_EstMemMB coll)"

definition target_max_vectors :: "Config \<Rightarrow> LogicalCollection \<Rightarrow> int" where
  "target_max_vectors cfg coll =
     (let pinned = IsPinnedIndexType (c_TargetIndexType coll);
          mv = (if pinned \<and> c_MaxVectors coll \<le> 0 then PerformanceMaxVectors cfg else c_MaxVectors coll)
      in if \<not> pinned then 0 else mv)"

text \<open>The callback of \<open>Scan\<close>: a batch of the source is written to the target.\<close>

definition copy_batch ::
  "('m, 'x) Adapter_scheme \<Rightarrow> string \<Rightarrow> VectorRecord list \<Rightarrow> ('m, unit) op" where
  "copy_batch A target rows = ad_Upsert A target (map vr_ID rows) (map vr_Vector rows)
     (map vr_Metadata rows) (map vr_CreatedAt rows)"

text \<open>The first half: load the source, create the target with its index, copy and count.\<close>

definition migrate_copy ::
  "('m, 'x) Adapter_scheme \<Rightarrow> Config \<Rightarrow> LogicalCollection \<Rightarrow> (('m, 'z) world_scheme, unit) op" where
  "migrate_copy A cfg coll =
     bind (map_err (step_err ''load source collection'')
         (EnsureLoaded A (c_SourcePhysicalName coll) (source_estimate coll))) (\<lambda>_.
     bind (map_err (step_err ''create target collection'')
         (on_milvus (ad_CreateCollection A (c_TargetPhysicalName coll) (c_Dim coll) (c_Metric coll)))) (\<lambda>_.
     bind (map_err (step_err ''create target index'')
         (on_milvus (ad_CreateIndex A (c_TargetPhysicalName coll)
           \<lparr>is_IndexType = c_TargetIndexType coll, is_Tier = TierForIndexType (c_TargetIndexType coll),
            is_VectorCount = c_VectorCount coll, is_Metric = c_Metric coll,
            is_HNSWM = HNSWM cfg, is_HNSWEFConstruction = HNSWEFConstruction cfg\<rparr>))) (\<lambda>_.
     bind (map_err (step_err ''scan source collection'')
         (on_milvus (ad_Scan A (c_SourcePhysicalName coll) 1000 (copy_batch A (c_TargetPhysicalName coll))))) (\<lambda>_.
     bind (map_err (step_err ''count source collection'')
         (on_milvus (ad_Count A (c_SourcePhysicalName coll)))) (\<lambda>sourceCount.
     bind (map_err (step_err ''count target collection'')
         (on_milvus (ad_Count A (c_TargetPhysicalName coll)))) (\<lambda>targetCount.
     if sourceCount \<noteq> targetCount
     then fail (Errorf [Lit ''migrate count mismatch: source='', ArgD sourceCount, Lit '' target='', ArgD targetCount])
     else return ()))))))"

text \<open>The second half: load and pin the target, release the source, switch the row, drop the source.\<close>

definition migrate_switch ::
  "('m, 'x) Adapter_scheme \<Rightarrow> Config \<Rightarrow> LogicalCollection \<Rightarrow> (('m, 'z) world_scheme, unit) op" where
  "migrate_switch A cfg coll =
     (let targetTier = TierForIndexType (c_TargetIndexType coll);
          targetPinned = IsPinnedIndexType (c_TargetIndexType coll);
          targetMaxVectors = target_max_vectors cfg coll in
     bind (when_op targetPinned (map_err (step_err ''load target collection'')
         (load_pinned A (c_TargetPhysicalName coll) (EstimateMemMB targetMaxVectors (c_Dim coll))))) (\<lambda>_.
     bind (when_op (c_Pinned coll) (bind (Unpin (c_SourcePhysicalName coll)) (\<lambda>_.
         ignore (Release A (c_SourcePhysicalName coll))))) (\<lambda>_.
     bind (map_err (step_err ''switch collection physical mapping'')
         (on_db_now (\<lambda>t. SwitchCollectionPhysical t (c_ID coll) (c_PhysicalName coll) (c_TargetPhysicalName coll)
            (c_TargetIndexType coll) targetTier targetPinned targetMaxVectors))) (\<lambda>_.
     bind (map_err (step_err ''mark target index built'')
         (on_db_now (\<lambda>t. UpdateCollectionIndexBuilt t (c_ID coll) True))) (\<lambda>_.
     map_err (step_err ''drop source collection'')
         (on_milvus (ad_DropCollection A (c_SourcePhysicalName coll))))))))"

definition migrateCollection ::
  "('m, 'x) Adapter_scheme \<Rightarrow> Config \<Rightarrow> LogicalCollection \<Rightarrow> (('m, 'z) world_scheme, unit) op" where
  "migrateCollection A cfg coll = bind (migrate_copy A cfg coll) (\<lambda>_. migrate_switch A cfg coll)"

definition RunOnce :: "('m, 'x) Adapter_scheme \<Rightarrow> Config \<Rightarrow> (('m, 'z) world_scheme, unit) op" where
  "RunOnce A cfg =
     bind (on_db ListCollectionsInMigration) (\<lambda>colls.
     for_each (\<lambda>coll.
       if c_MigrateState coll \<noteq> ''UPGRADING'' then return ()
       else on_err_with (migrateCollection A cfg coll)
         (\<lambda>e. on_db_now (\<lambda>t. UpdateCollectionMigrationState t (c_ID coll) [] [] [] []
            (c_MaintenanceSince coll) (Error e)))) colls)"

section \<open>Invariants\<close>

lemma keeps_on_err_with [keeps_rules]:
  assumes "keeps J m" and "\<And>e. keeps J (h e)"
  shows "keeps J (on_err_with m h)"
proof (rule keepsI)
  fix s assume "J s"
  with assms(1) have "J (snd (m s))" by (rule keeps_snd)
  then show "J (snd (on_err_with m h s))"
    using assms(2) by (auto simp: on_err_with_def keeps_iff split: prod.split sum.split)
qed

context controller_invariant
begin

lemma keeps_RunOnce: "keeps (over_ctrl I) (RunOnce A cfg)"
  unfolding RunOnce_def migrateCollection_def migrate_copy_def migrate_switch_def Let_def
  by (intro keeps_rules keeps_EnsureLoaded keeps_load_pinned keeps_Release keeps_flags)

end

context row_invariant
begin

lemma I_migrateCollection: "keeps (over_db I) (migrateCollection A cfg' coll)"
  unfolding migrateCollection_def migrate_copy_def migrate_switch_def Let_def
  by (intro keeps_rules handler_rules keeps_on_db_now keeps_Switch_I keeps_updates_I(2))

lemma I_RunOnce: "keeps (over_db I) (RunOnce A cfg')"
  unfolding RunOnce_def
  by (intro keeps_rules handler_rules I_migrateCollection keeps_on_db_now keeps_updates_I(5))

end

section \<open>The data through a migration\<close>

text \<open>What the worker relies on of the adapter. \<open>dat s n\<close> is the content of the collection \<open>n\<close>, if it
  exists: a call touches at most the collection it names; a created collection is empty, unless it was there
  already; an upsert stores the records of its columns. A scan need not see the current content: \<open>sees d e\<close>
  says that a read of a collection that holds \<open>d\<close> may see \<open>e\<close>. A scan that succeeds handed every record it
  sees to the callback, once, in batches between which the data does not change otherwise. Nothing is promised
  of the counts; \<open>counts_exact\<close> is an extra hypothesis where it matters.\<close>

type_synonym 'm contents = "'m \<Rightarrow> string \<Rightarrow> (string \<rightharpoonup> VectorRecord) option"

abbreviation keeps_data :: "'m contents \<Rightarrow> string \<Rightarrow> ('m, 'a) op \<Rightarrow> bool" where
  "keeps_data dat k m \<equiv> \<forall>v. keeps (\<lambda>s. dat s k = v) m"

definition upserted :: "VectorRecord list \<Rightarrow> (string \<rightharpoonup> VectorRecord) \<Rightarrow> string \<rightharpoonup> VectorRecord" where
  "upserted rs = fold (\<lambda>r d. d(vr_ID r \<mapsto> r)) rs"

fun records :: "string list \<Rightarrow> float32 list list \<Rightarrow> string list \<Rightarrow> int list \<Rightarrow> VectorRecord list" where
  "records (i # is) (v # vs) (m # ms) (t # ts) =
     \<lparr>vr_ID = i, vr_Vector = v, vr_Metadata = m, vr_CreatedAt = t\<rparr> # records is vs ms ts"
| "records _ _ _ _ = []"

definition by_ID :: "VectorRecord list \<Rightarrow> string \<rightharpoonup> VectorRecord" where
  "by_ID rs = map_of (map (\<lambda>r. (vr_ID r, r)) rs)"

fun handed :: "'m contents \<Rightarrow> (VectorRecord list \<Rightarrow> ('m, unit) op) \<Rightarrow> VectorRecord list list \<Rightarrow> 'm \<Rightarrow> 'm \<Rightarrow> bool" where
  "handed dat fn [] s s' \<longleftrightarrow> dat s' = dat s"
| "handed dat fn (b # bs) s s' \<longleftrightarrow> (\<exists>s1 s2. dat s1 = dat s \<and> fn b s1 = (Inr (), s2) \<and> handed dat fn bs s2 s')"

type_synonym staleness = "(string \<rightharpoonup> VectorRecord) \<Rightarrow> (string \<rightharpoonup> VectorRecord) \<Rightarrow> bool"

text \<open>A read sees the current content, or some of the records of the current content (records it misses were
  added after the time it reads at).\<close>

definition fresh_reads :: "staleness \<Rightarrow> bool" where
  "fresh_reads sees \<longleftrightarrow> (\<forall>d e. sees d e \<longrightarrow> e = d)"

definition lagging_reads :: "staleness \<Rightarrow> bool" where
  "lagging_reads sees \<longleftrightarrow> (\<forall>d e. sees d e \<longrightarrow> e \<subseteq>\<^sub>m d)"

definition counts_exact :: "('m, 'x) Adapter_scheme \<Rightarrow> 'm contents \<Rightarrow> bool" where
  "counts_exact A dat \<longleftrightarrow> (\<forall>n s k s' d. ad_Count A n s = (Inr k, s') \<longrightarrow> dat s n = Some d \<longrightarrow>
     finite (dom d) \<and> k = int (card (dom d)))"

definition data_laws :: "('m, 'x) Adapter_scheme \<Rightarrow> staleness \<Rightarrow> 'm contents \<Rightarrow> bool" where
  "data_laws A sees dat \<longleftrightarrow>
     (\<forall>n k. keeps_data dat k (LoadCollection A n) \<and> keeps_data dat k (ReleaseCollection A n) \<and>
        keeps_data dat k (ad_Count A n)) \<and>
     (\<forall>n spec k. keeps_data dat k (ad_CreateIndex A n spec)) \<and>
     (\<forall>n d me k. k \<noteq> n \<longrightarrow> keeps_data dat k (ad_CreateCollection A n d me) \<and> keeps_data dat k (ad_DropCollection A n)) \<and>
     (\<forall>n ids vs ms ts k. k \<noteq> n \<longrightarrow> keeps_data dat k (ad_Upsert A n ids vs ms ts)) \<and>
     (\<forall>n d me s s'. ad_CreateCollection A n d me s = (Inr (), s') \<longrightarrow>
        dat s' n = Some (case dat s n of None \<Rightarrow> Map.empty | Some m \<Rightarrow> m)) \<and>
     (\<forall>n ids vs ms ts s s' m. ad_Upsert A n ids vs ms ts s = (Inr (), s') \<longrightarrow> dat s n = Some m \<longrightarrow>
        length vs = length ids \<longrightarrow> length ms = length ids \<longrightarrow> length ts = length ids \<longrightarrow>
        dat s' n = Some (upserted (records ids vs ms ts) m)) \<and>
     (\<forall>n b fn k. (\<forall>rs. keeps_data dat k (fn rs)) \<longrightarrow> keeps_data dat k (ad_Scan A n b fn)) \<and>
     (\<forall>n b fn s s'. (\<forall>rs. keeps_data dat n (fn rs)) \<longrightarrow> ad_Scan A n b fn s = (Inr (), s') \<longrightarrow>
        (\<exists>bs d. handed dat fn bs s s' \<and> distinct (map vr_ID (concat bs)) \<and> dat s n = Some d \<and> sees d (by_ID (concat bs))))"

lemma records_columns: "records (map vr_ID rs) (map vr_Vector rs) (map vr_Metadata rs) (map vr_CreatedAt rs) = rs"
  by (induction rs) simp_all

lemma data_lawsD:
  assumes "data_laws A sees dat"
  shows "keeps (\<lambda>s. dat s k = v) (LoadCollection A n)" "keeps (\<lambda>s. dat s k = v) (ReleaseCollection A n)"
    "keeps (\<lambda>s. dat s k = v) (ad_Count A n)" "keeps (\<lambda>s. dat s k = v) (ad_CreateIndex A n spec)"
    "k \<noteq> n \<Longrightarrow> keeps (\<lambda>s. dat s k = v) (ad_CreateCollection A n d me)"
    "k \<noteq> n \<Longrightarrow> keeps (\<lambda>s. dat s k = v) (ad_DropCollection A n)"
    "k \<noteq> n \<Longrightarrow> keeps (\<lambda>s. dat s k = v) (copy_batch A n rs)"
    "ad_CreateCollection A n d me s = (Inr (), s') \<Longrightarrow>
      dat s' n = Some (case dat s n of None \<Rightarrow> Map.empty | Some m \<Rightarrow> m)"
    "copy_batch A n rs s = (Inr (), s') \<Longrightarrow> dat s n = Some m \<Longrightarrow> dat s' n = Some (upserted rs m)"
    "(\<And>rs v. keeps (\<lambda>s. dat s k = v) (fn rs)) \<Longrightarrow> keeps (\<lambda>s. dat s k = v) (ad_Scan A n b fn)"
    "(\<And>rs v. keeps (\<lambda>s. dat s n = v) (fn rs)) \<Longrightarrow> ad_Scan A n b fn s = (Inr (), s') \<Longrightarrow>
      \<exists>bs d. handed dat fn bs s s' \<and> distinct (map vr_ID (concat bs)) \<and> dat s n = Some d \<and> sees d (by_ID (concat bs))"
proof -
  note laws = assms [unfolded data_laws_def]
  show "keeps (\<lambda>s. dat s k = v) (LoadCollection A n)" "keeps (\<lambda>s. dat s k = v) (ReleaseCollection A n)"
    "keeps (\<lambda>s. dat s k = v) (ad_Count A n)"
    using conjunct1 [OF laws] by blast+
  note laws = conjunct2 [OF laws]
  show "keeps (\<lambda>s. dat s k = v) (ad_CreateIndex A n spec)"
    using conjunct1 [OF laws] by blast
  note laws = conjunct2 [OF laws]
  show "k \<noteq> n \<Longrightarrow> keeps (\<lambda>s. dat s k = v) (ad_CreateCollection A n d me)"
    "k \<noteq> n \<Longrightarrow> keeps (\<lambda>s. dat s k = v) (ad_DropCollection A n)"
    using conjunct1 [OF laws] by blast+
  note laws = conjunct2 [OF laws]
  show "k \<noteq> n \<Longrightarrow> keeps (\<lambda>s. dat s k = v) (copy_batch A n rs)"
    using conjunct1 [OF laws] unfolding copy_batch_def by blast
  note laws = conjunct2 [OF laws]
  show "ad_CreateCollection A n d me s = (Inr (), s') \<Longrightarrow>
      dat s' n = Some (case dat s n of None \<Rightarrow> Map.empty | Some m \<Rightarrow> m)"
    using conjunct1 [OF laws] by blast
  note laws = conjunct2 [OF laws]
  show "copy_batch A n rs s = (Inr (), s') \<Longrightarrow> dat s n = Some m \<Longrightarrow> dat s' n = Some (upserted rs m)"
    using conjunct1 [OF laws, rule_format, of n "map vr_ID rs" "map vr_Vector rs" "map vr_Metadata rs" "map vr_CreatedAt rs"]
    by (simp add: copy_batch_def records_columns)
  note laws = conjunct2 [OF laws]
  show "keeps (\<lambda>s. dat s k = v) (ad_Scan A n b fn)" if "\<And>rs v. keeps (\<lambda>s. dat s k = v) (fn rs)"
  proof -
    from that have "\<forall>rs. keeps_data dat k (fn rs)" by blast
    then show ?thesis using conjunct1 [OF laws] by blast
  qed
  show "\<exists>bs d. handed dat fn bs s s' \<and> distinct (map vr_ID (concat bs)) \<and> dat s n = Some d \<and> sees d (by_ID (concat bs))"
    if "\<And>rs v. keeps (\<lambda>s. dat s n = v) (fn rs)" "ad_Scan A n b fn s = (Inr (), s')"
  proof -
    from that(1) have "\<forall>rs. keeps_data dat n (fn rs)" by blast
    then show ?thesis using conjunct2 [OF laws] that(2) by blast
  qed
qed

lemma upserted_append: "upserted (rs @ rs') d = upserted rs' (upserted rs d)"
  by (simp add: upserted_def)

lemma upserted_other: "k \<notin> vr_ID ` set rs \<Longrightarrow> upserted rs d k = d k"
  by (induction rs arbitrary: d) (auto simp: upserted_def)

lemma upserted_map_of: "distinct (map vr_ID rs) \<Longrightarrow> upserted rs d = d ++ by_ID rs"
  unfolding by_ID_def
proof (induction rs arbitrary: d)
  case (Cons r rs)
  have "upserted (r # rs) d = upserted rs (d(vr_ID r \<mapsto> r))" by (simp add: upserted_def)
  also have "\<dots> = d(vr_ID r \<mapsto> r) ++ map_of (map (\<lambda>r. (vr_ID r, r)) rs)" using Cons by simp
  also have "\<dots> = d ++ map_of (map (\<lambda>r. (vr_ID r, r)) (r # rs))"
    using Cons.prems by (simp add: map_add_upd_left dom_map_of_conv_image_fst image_image)
  finally show ?case .
qed (simp add: upserted_def)

lemma copy_batches:
  assumes "data_laws A sees dat" and "handed dat (copy_batch A n) bs s s'" and "dat s n = Some m"
  shows "dat s' n = Some (upserted (concat bs) m)"
  using assms(2,3)
proof (induction bs arbitrary: s m)
  case (Cons b bs)
  then obtain s1 s2 where "dat s1 = dat s" "copy_batch A n b s1 = (Inr (), s2)" "handed dat (copy_batch A n) bs s2 s'"
    by auto
  with Cons data_lawsD(9) [OF assms(1)] show ?case by (simp add: upserted_append)
qed (simp add: upserted_def)

text \<open>Operations of the controller only load and release.\<close>

lemma find_update_hit:
  assumes "\<And>r. c_ID (f r) = c_ID r"
  shows "List.find (\<lambda>r. c_ID r = i) (update_where hit f rs) =
    map_option (\<lambda>r. if hit r then f r else r) (List.find (\<lambda>r. c_ID r = i) rs)"
  using assms by (induction rs) (auto simp: update_where_def)

definition switched :: "time \<Rightarrow> string \<Rightarrow> string \<Rightarrow> string \<Rightarrow> bool \<Rightarrow> int \<Rightarrow> LogicalCollection \<Rightarrow> LogicalCollection" where
  "switched now newPhysical newIndexType newTier newPinned newMaxVectors r =
     r\<lparr>c_PhysicalName := newPhysical, c_IndexType := newIndexType, c_Tier := newTier,
       c_Pinned := newPinned, c_MaxVectors := newMaxVectors, c_MigrateState := [],
       c_TargetIndexType := [], c_SourcePhysicalName := [], c_TargetPhysicalName := [],
       c_MaintenanceSince := 0, c_LastMigrateError := [], c_UpdatedAt := now\<rparr>"

lemma Switch_row:
  assumes "coll_map d i = Some c" and "c_PhysicalName c = old"
    and "SwitchCollectionPhysical t i old nw it ti pn mv d = (r, d')"
  shows "coll_map d' i = Some (if r = Inr () then switched t nw it ti pn mv c else c)"
proof (cases "shd (outcomes d)")
  case (Some e)
  with assms show ?thesis by (auto simp: SwitchCollectionPhysical_def statement_def Let_def)
next
  case None
  let ?hit = "\<lambda>r. c_ID r = i \<and> c_PhysicalName r = old"
  have c: "c \<in> set (collections d)" "c_ID c = i"
    using find_Some_props [OF assms(1) [unfolded coll_map_def]] by simp_all
  then have "filter ?hit (collections d) \<noteq> []" using assms(2) by (auto simp: filter_empty_conv)
  moreover have "switched t nw it ti pn mv = (\<lambda>r. r\<lparr>c_PhysicalName := nw, c_IndexType := it, c_Tier := ti,
       c_Pinned := pn, c_MaxVectors := mv, c_MigrateState := [], c_TargetIndexType := [],
       c_SourcePhysicalName := [], c_TargetPhysicalName := [], c_MaintenanceSince := 0,
       c_LastMigrateError := [], c_UpdatedAt := t\<rparr>)"
    by (simp add: switched_def fun_eq_iff)
  ultimately have "r = Inr ()" and "collections d' = update_where ?hit (switched t nw it ti pn mv) (collections d)"
    using assms(3) None by (auto simp: SwitchCollectionPhysical_def statement_def Let_def)
  then show ?thesis
    using assms(1,2) c(2) by (simp add: coll_map_def find_update_hit switched_def)
qed

lemma coll_map_touch_built:
  assumes "coll_map d i = Some c" and "UpdateCollectionIndexBuilt t i b d = (r, d')"
  shows "\<exists>bl t'. coll_map d' i = Some (c\<lparr>c_IndexBuilt := bl, c_UpdatedAt := t'\<rparr>) \<and> (r = Inr () \<longrightarrow> bl = b)"
proof (cases r)
  case (Inl e)
  with assms coll_map_write_error(1) have "coll_map d' i = Some c"
    unfolding UpdateCollectionIndexBuilt_def by metis
  with Inl show ?thesis by (intro exI [of _ "c_IndexBuilt c"] exI [of _ "c_UpdatedAt c"]) simp
next
  case (Inr u)
  with assms(2) have "update_coll i (\<lambda>r. r\<lparr>c_IndexBuilt := b, c_UpdatedAt := t\<rparr>) d = (Inr (), d')"
    by (simp add: UpdateCollectionIndexBuilt_def)
  then have "coll_map d' i = Some (c\<lparr>c_IndexBuilt := b, c_UpdatedAt := t\<rparr>)"
    using coll_map_update_coll [where f = "\<lambda>r. r\<lparr>c_IndexBuilt := b, c_UpdatedAt := t\<rparr>"] assms(1) by simp
  then show ?thesis by blast
qed

lemma copy_keeps_source:
  assumes "data_laws A sees dat" and "c_SourcePhysicalName c \<noteq> c_TargetPhysicalName c"
  shows "keeps (over_milvus (\<lambda>s. dat s (c_SourcePhysicalName c) = v)) (migrate_copy A cfg c)"
  unfolding migrate_copy_def
  by (intro keeps_rules milvus_EnsureLoaded milvus_on_milvus data_lawsD [OF assms(1)] assms(2))

lemma copy_keeps_db: "keeps (\<lambda>w. meta_db w = d) (migrate_copy A cfg c)"
  unfolding migrate_copy_def
  by (intro keeps_rules db_frame.frame_rules [where I = "\<lambda>d' _. d' = d"])

lemma on_milvus_eq_Inr:
  "on_milvus f w = (Inr a, w') \<longleftrightarrow> (\<exists>m. f (milvus w) = (Inr a, m) \<and> w' = w\<lparr>milvus := m\<rparr>)"
  by (auto simp: on_milvus_def split: prod.splits)

text \<open>The target does not exist yet or holds a part of the source, as a migration that was interrupted
  leaves it.\<close>

definition partial_copy :: "'m contents \<Rightarrow> 'm \<Rightarrow> string \<Rightarrow> string \<Rightarrow> bool" where
  "partial_copy dat m source target \<longleftrightarrow> (case dat m target of None \<Rightarrow> True
     | Some d \<Rightarrow> (\<exists>d0. dat m source = Some d0 \<and> d \<subseteq>\<^sub>m d0))"

text \<open>What the target holds when the copy begins.\<close>

definition held_before :: "'m contents \<Rightarrow> 'm \<Rightarrow> string \<Rightarrow> string \<rightharpoonup> VectorRecord" where
  "held_before dat m n = (case dat m n of None \<Rightarrow> Map.empty | Some d \<Rightarrow> d)"

text \<open>A copy that succeeds leaves in the target what the scan saw, over what was there; with exact counts, as
  many records as the source has.\<close>

lemma copy_fills_target:
  fixes w :: "('m, 'z) world_scheme"
  assumes laws: "data_laws A sees dat" and ne: "c_SourcePhysicalName c \<noteq> c_TargetPhysicalName c"
    and run: "migrate_copy A cfg c w = (Inr (), w')"
  shows "\<exists>d e. dat (milvus w) (c_SourcePhysicalName c) = Some d \<and> sees d e \<and>
    dat (milvus w') (c_TargetPhysicalName c) = Some (held_before dat (milvus w) (c_TargetPhysicalName c) ++ e) \<and>
    (counts_exact A dat \<longrightarrow> finite (dom d) \<and>
       card (dom (held_before dat (milvus w) (c_TargetPhysicalName c) ++ e)) = card (dom d))"
proof -
  let ?s = "c_SourcePhysicalName c" and ?t = "c_TargetPhysicalName c"
  from run obtain w1 m2 m3 m4 m5 k spec where
    load: "EnsureLoaded A ?s (source_estimate c) w = (Inr (), w1)"
    and cr: "ad_CreateCollection A ?t (c_Dim c) (c_Metric c) (milvus w1) = (Inr (), m2)"
    and ix: "ad_CreateIndex A ?t spec m2 = (Inr (), m3)"
    and sc: "ad_Scan A ?s 1000 (copy_batch A ?t) m3 = (Inr (), m4)"
    and c1: "ad_Count A ?s m4 = (Inr k, m5)" and c2: "ad_Count A ?t m5 = (Inr k, milvus w')"
    by (auto simp: migrate_copy_def bind_eq_Inr on_milvus_eq_Inr split: if_splits)
  have st1: "dat (milvus w1) k = dat (milvus w) k" for k
    using keeps_snd [OF milvus_EnsureLoaded [where P = "\<lambda>s. dat s k = dat (milvus w) k"], of A ?s w "source_estimate c"]
      data_lawsD(1,2) [OF laws] load by auto
  have s3: "dat m3 ?s = dat (milvus w) ?s"
    using data_lawsD(5) [OF laws ne, of "dat (milvus w) ?s", THEN keeps_snd, of "milvus w1" "c_Dim c" "c_Metric c"]
      data_lawsD(4) [OF laws, of ?s "dat (milvus w) ?s" ?t, THEN keeps_snd, of m2 spec] st1 cr ix by auto
  have keep: "keeps (\<lambda>s. dat s ?s = v) (copy_batch A ?t rs)" for rs v
    using data_lawsD(7) [OF laws ne] .
  from data_lawsD(11) [OF laws keep sc] obtain bs d where bs: "handed dat (copy_batch A ?t) bs m3 m4"
    "distinct (map vr_ID (concat bs))" and d: "dat m3 ?s = Some d" "sees d (by_ID (concat bs))" by blast
  let ?p = "held_before dat (milvus w) ?t" and ?e = "by_ID (concat bs)"
  have t3: "dat m3 ?t = Some ?p"
    using data_lawsD(8) [OF laws cr] data_lawsD(4) [OF laws, of ?t "dat m2 ?t" ?t, THEN keeps_snd, of m2 spec] ix
      st1 by (auto simp: held_before_def)
  have t4: "dat m4 ?t = Some (?p ++ ?e)"
    using copy_batches [OF laws bs(1) t3] by (simp add: upserted_map_of [OF bs(2)])
  have t5: "dat m5 ?t = Some (?p ++ ?e)" "dat (milvus w') ?t = Some (?p ++ ?e)"
    using data_lawsD(3) [OF laws, of ?t "dat m4 ?t", THEN keeps_snd] c1 c2 t4 by (metis snd_conv)+
  have s4: "dat m4 ?s = Some d"
    using data_lawsD(10) [where fn = "copy_batch A ?t", OF laws keep, of "dat m3 ?s", THEN keeps_snd, of m3 ?s 1000] sc d(1) by simp
  have "finite (dom d) \<and> card (dom (?p ++ ?e)) = card (dom d)" if ex: "counts_exact A dat"
    using ex c1 s4 c2 t5(1) unfolding counts_exact_def by (metis of_nat_eq_iff)
  with d s3 t5(2) show ?thesis by metis
qed

text \<open>Records that are missing in the copy show in the counts.\<close>

lemma copy_complete:
  assumes "d0 \<subseteq>\<^sub>m d" and "e \<subseteq>\<^sub>m d" and "finite (dom d)" and "card (dom (d0 ++ e)) = card (dom d)"
  shows "d0 ++ e = d"
proof -
  have sub: "d0 ++ e \<subseteq>\<^sub>m d"
    using assms(1,2) by (auto simp: map_le_def map_add_def dom_def split: option.splits)
  then have "dom (d0 ++ e) = dom d"
    by (rule card_subset_eq [OF assms(3) map_le_implies_dom_le assms(4)])
  with sub show ?thesis by (auto simp: map_le_def intro!: map_le_antisym)
qed

text \<open>The part of the second half before the row is switched.\<close>

definition switch_prologue ::
  "('m, 'x) Adapter_scheme \<Rightarrow> Config \<Rightarrow> LogicalCollection \<Rightarrow> (('m, 'z) world_scheme, unit) op" where
  "switch_prologue A cfg c =
     bind (when_op (IsPinnedIndexType (c_TargetIndexType c)) (map_err (step_err ''load target collection'')
         (load_pinned A (c_TargetPhysicalName c) (EstimateMemMB (target_max_vectors cfg c) (c_Dim c))))) (\<lambda>_.
     when_op (c_Pinned c) (bind (Unpin (c_SourcePhysicalName c)) (\<lambda>_.
         ignore (Release A (c_SourcePhysicalName c)))))"

lemma bind_assoc: "bind (bind m f) g = bind m (\<lambda>a. bind (f a) g)"
  by (rule ext) (simp add: bind_def split: prod.split sum.split)

lemma migrate_switch_split:
  "migrate_switch A cfg c = bind (switch_prologue A cfg c) (\<lambda>_.
     bind (map_err (step_err ''switch collection physical mapping'')
         (on_db_now (\<lambda>t. SwitchCollectionPhysical t (c_ID c) (c_PhysicalName c) (c_TargetPhysicalName c)
            (c_TargetIndexType c) (TierForIndexType (c_TargetIndexType c)) (IsPinnedIndexType (c_TargetIndexType c))
            (target_max_vectors cfg c)))) (\<lambda>_.
     bind (map_err (step_err ''mark target index built'')
         (on_db_now (\<lambda>t. UpdateCollectionIndexBuilt t (c_ID c) True))) (\<lambda>_.
     map_err (step_err ''drop source collection'')
         (on_milvus (ad_DropCollection A (c_SourcePhysicalName c))))))"
  by (simp add: migrate_switch_def switch_prologue_def Let_def bind_assoc)

lemma prologue_keeps:
  "keeps (\<lambda>w. meta_db w = d) (switch_prologue A cfg c)"
  "data_laws A sees dat \<Longrightarrow> keeps (over_milvus (\<lambda>s. dat s k = v)) (switch_prologue A cfg c)"
  unfolding switch_prologue_def load_pinned_def
  by (intro keeps_rules db_frame.frame_rules [where I = "\<lambda>d' _. d' = d"] milvus_EnsureLoaded milvus_flags
      milvus_Release data_lawsD(1,2); assumption?)+

text \<open>After the second half, whatever its outcome, the row names the source or the target, with their content.\<close>

lemma switch_outcome:
  fixes w :: "('m, 'z) world_scheme"
  assumes laws: "data_laws A sees dat" and ne: "c_SourcePhysicalName c \<noteq> c_TargetPhysicalName c"
    and row: "coll_map (meta_db w) (c_ID c) = Some c"
    and src: "dat (milvus w) (c_PhysicalName c) = v" and tgt: "dat (milvus w) (c_TargetPhysicalName c) = vt"
    and run: "migrate_switch A cfg c w = (r, w')"
  shows "\<exists>c'. coll_map (meta_db w') (c_ID c) = Some c' \<and>
    (c_PhysicalName c' = c_PhysicalName c \<and> dat (milvus w') (c_PhysicalName c) = v \<or>
     c_PhysicalName c' = c_TargetPhysicalName c \<and> dat (milvus w') (c_TargetPhysicalName c) = vt) \<and>
    (r = Inr () \<longrightarrow> c_PhysicalName c' = c_TargetPhysicalName c \<and> c_IndexType c' = c_TargetIndexType c \<and>
       c_MigrateState c' = [] \<and> c_IndexBuilt c')"
proof -
  obtain r1 w1 where pro: "switch_prologue A cfg c w = (r1, w1)" by fastforce
  have m1: "meta_db w1 = meta_db w"
    using keeps_snd [OF prologue_keeps(1) [where d = "meta_db w" and A = A and cfg = cfg and c = c], of w] pro by simp
  have d1: "dat (milvus w1) k = dat (milvus w) k" for k
    using keeps_snd [OF prologue_keeps(2) [OF laws, where k = k and v = "dat (milvus w) k" and cfg = cfg and c = c], of w] pro by simp
  show ?thesis
  proof (cases r1)
    case (Inl e)
    with run pro have "w' = w1" "r = Inl e" by (simp_all add: migrate_switch_split bind_def)
    with m1 d1 row src show ?thesis by auto
  next
    case (Inr u)
    let ?now = "shd (clock w1)"
    obtain r2 db2 where sw: "SwitchCollectionPhysical ?now (c_ID c) (c_PhysicalName c) (c_TargetPhysicalName c)
            (c_TargetIndexType c) (TierForIndexType (c_TargetIndexType c)) (IsPinnedIndexType (c_TargetIndexType c))
            (target_max_vectors cfg c) (meta_db w) = (r2, db2)" by fastforce
    note row2 = Switch_row [OF row refl sw]
    show ?thesis
    proof (cases r2)
      case (Inl e)
      with run pro Inr sw m1 have "milvus w' = milvus w1" "meta_db w' = db2" "r \<noteq> Inr ()"
        by (auto simp: migrate_switch_split bind_def map_err_def on_db_now_def time_now_def on_db_def)
      with row2 Inl d1 src show ?thesis by auto
    next
      case (Inr u2)
      let ?c2 = "switched ?now (c_TargetPhysicalName c) (c_TargetIndexType c)
        (TierForIndexType (c_TargetIndexType c)) (IsPinnedIndexType (c_TargetIndexType c)) (target_max_vectors cfg c) c"
      have row2': "coll_map db2 (c_ID c) = Some ?c2" using row2 Inr by simp
      obtain r3 db3 where bt: "UpdateCollectionIndexBuilt (shd (stl (clock w1))) (c_ID c) True db2 = (r3, db3)"
        by fastforce
      from coll_map_touch_built [OF row2' bt] obtain bl t' where
        row3: "coll_map db3 (c_ID c) = Some (?c2\<lparr>c_IndexBuilt := bl, c_UpdatedAt := t'\<rparr>)" "r3 = Inr () \<longrightarrow> bl" by blast
      obtain r4 m4 where dr: "ad_DropCollection A (c_SourcePhysicalName c) (milvus w1) = (r4, m4)" by fastforce
      have "dat m4 (c_TargetPhysicalName c) = vt"
        using data_lawsD(6) [OF laws ne [symmetric], of vt, THEN keeps_snd, of "milvus w1"] dr d1 tgt by simp
      moreover have "meta_db w' = db3" "milvus w' = (if r3 = Inr () then m4 else milvus w1)" "r = Inr () \<longrightarrow> r3 = Inr ()"
        using run pro \<open>r1 = Inr u\<close> sw Inr bt dr m1
        by (cases r3; cases r4; auto simp: migrate_switch_split bind_def map_err_def on_db_now_def time_now_def on_db_def
            on_milvus_def)+
      ultimately show ?thesis
        using row3 d1 tgt by (auto simp: switched_def)
    qed
  qed
qed

section \<open>A migration keeps the data\<close>

lemma migration_keeps_data:
  fixes w :: "('m, 'z) world_scheme"
  assumes "data_laws A sees dat" and "coll_map (meta_db w) (c_ID c) = Some c"
    and "c_SourcePhysicalName c = c_PhysicalName c" and "c_TargetPhysicalName c \<noteq> c_PhysicalName c"
    and "partial_copy dat (milvus w) (c_PhysicalName c) (c_TargetPhysicalName c)"
  shows "case migrateCollection A cfg c w of (r, w') \<Rightarrow>
    \<exists>c'. coll_map (meta_db w') (c_ID c) = Some c' \<and>
      (c_PhysicalName c' = c_PhysicalName c \<and>
         dat (milvus w') (c_PhysicalName c) = dat (milvus w) (c_PhysicalName c) \<or>
       c_PhysicalName c' = c_TargetPhysicalName c \<and> (\<exists>d e. dat (milvus w) (c_PhysicalName c) = Some d \<and> sees d e \<and>
         dat (milvus w') (c_TargetPhysicalName c) = Some (held_before dat (milvus w) (c_TargetPhysicalName c) ++ e))) \<and>
      (fresh_reads sees \<or> lagging_reads sees \<and> counts_exact A dat \<longrightarrow>
         dat (milvus w') (c_PhysicalName c') = dat (milvus w) (c_PhysicalName c)) \<and>
      (r = Inr () \<longrightarrow> c_PhysicalName c' = c_TargetPhysicalName c \<and> c_IndexType c' = c_TargetIndexType c \<and>
         c_MigrateState c' = [] \<and> c_IndexBuilt c')"
proof -
  let ?s = "c_PhysicalName c" and ?t = "c_TargetPhysicalName c"
  have ne: "c_SourcePhysicalName c \<noteq> ?t" using assms(3,4) by simp
  obtain r1 w1 where copy: "migrate_copy A cfg c w = (r1, w1)" by fastforce
  have db1: "meta_db w1 = meta_db w"
    using keeps_snd [OF copy_keeps_db [where d = "meta_db w" and A = A and cfg = cfg and c = c], of w] copy by simp
  have src1: "dat (milvus w1) ?s = dat (milvus w) ?s"
    using keeps_snd [OF copy_keeps_source [OF assms(1) ne, where v = "dat (milvus w) (c_PhysicalName c)" and cfg = cfg], of w]
      copy assms(3) by simp
  show ?thesis
  proof (cases r1)
    case (Inl e)
    with copy db1 src1 assms(2) show ?thesis by (simp add: migrateCollection_def bind_def)
  next
    case (Inr u)
    obtain r w' where sw: "migrate_switch A cfg c w1 = (r, w')" by fastforce
    from copy_fills_target [OF assms(1) ne, of cfg w w1] copy Inr assms(3) obtain d e where
      de: "dat (milvus w) ?s = Some d" "sees d e" "dat (milvus w1) ?t = Some (held_before dat (milvus w) ?t ++ e)"
        "counts_exact A dat \<longrightarrow> finite (dom d) \<and> card (dom (held_before dat (milvus w) ?t ++ e)) = card (dom d)" by auto
    have p: "held_before dat (milvus w) ?t \<subseteq>\<^sub>m d"
      using assms(5) de(1) by (auto simp: partial_copy_def held_before_def split: option.splits)
    have same: "held_before dat (milvus w) ?t ++ e = d" if "fresh_reads sees \<or> lagging_reads sees \<and> counts_exact A dat"
      using that
    proof
      assume "fresh_reads sees"
      with de(2) have "e = d" by (simp add: fresh_reads_def)
      with p show ?thesis by (simp add: map_add_subsumed1)
    next
      assume "lagging_reads sees \<and> counts_exact A dat"
      with de(2,4) p show ?thesis by (intro copy_complete) (simp_all add: lagging_reads_def)
    qed
    from switch_outcome [OF assms(1) ne _ src1 de(3) sw] assms(2) db1
    show ?thesis using copy Inr sw de(1,2) same by (auto simp: migrateCollection_def bind_def)
  qed
qed

end
