(* ===== verification/VB_Runtime.thy ===== *)
theory VB_Runtime
  imports VB_Migration
begin

text \<open>
  The running service: start-up (pkg/gateway/vectorbucket/bootstrap.go, metadata \<open>Init\<close>), the
  runtime that hands each request to its service (runtime.go), and the background loops. A run is
  a sequence of steps: a request, a TTL sweep, a round of the migration worker.
\<close>

section \<open>Start-up\<close>

fun Contains :: "string \<Rightarrow> string \<Rightarrow> bool" where
  "Contains [] sub \<longleftrightarrow> sub = []"
| "Contains (c # s) sub \<longleftrightarrow> take (length sub) (c # s) = sub \<or> Contains s sub"

definition migration_columns :: "string list" where
  "migration_columns = [''index_type'', ''tier'', ''max_vectors'', ''pinned'', ''migrate_state'',
     ''target_index_type'', ''source_physical_name'', ''target_physical_name'', ''maintenance_since'',
     ''last_migrate_error'']"

text \<open>\<open>ALTER TABLE collections ADD COLUMN\<close> on a table that has the column.\<close>

definition alter_table :: "string \<Rightarrow> (sqlite, unit) op" where
  "alter_table column = statement (fail (New (''duplicate column name: '' @ column)))"

definition Init :: "goerr option \<Rightarrow> (sqlite, unit) op" where
  "Init sql_open =
     bind (map_err (\<lambda>e. Errorf [Lit ''open sqlite: '', ArgW e]) (check sql_open)) (\<lambda>_.
     bind (map_err (\<lambda>e. Errorf [Lit ''create schema: '', ArgW e]) (statement (return ()))) (\<lambda>_.
     for_each (\<lambda>column d. case alter_table column d of
         (Inr _, d') \<Rightarrow> (Inr (), d')
       | (Inl e, d') \<Rightarrow> if Contains (Error e) ''duplicate column name'' then (Inr (), d')
           else (Inl (Errorf [Lit ''migrate schema: '', ArgW e]), d')) migration_columns))"

definition restore_one ::
  "('m, 'x) Adapter_scheme \<Rightarrow> LogicalCollection \<Rightarrow> (('m, 'z) world_scheme, unit) op" where
  "restore_one A coll =
     (if \<not> c_Pinned coll \<or> c_Status coll \<noteq> CollStatusReady then return ()
      else load_pinned A (c_PhysicalName coll)
        (if c_EstMemMB coll \<le> 0 then EstimateMemMB (c_MaxVectors coll) (c_Dim coll) else c_EstMemMB coll))"

definition restorePinnedCollections :: "('m, 'x) Adapter_scheme \<Rightarrow> (('m, 'z) world_scheme, unit) op" where
  "restorePinnedCollections A =
     bind (on_db ListBuckets) (\<lambda>bs.
     for_each (\<lambda>bucket. bind (on_db (ListCollections (b_ID bucket))) (for_each (restore_one A))) bs)"

text \<open>\<open>mkdir\<close> is what creating the directory of the database answers, \<open>sql_open\<close> and
  \<open>new_adapter\<close> what opening the database and connecting the adapter answer.\<close>

definition Bootstrap ::
  "('m, 'x) Adapter_scheme \<Rightarrow> Config \<Rightarrow> (string \<Rightarrow> goerr option) \<Rightarrow> goerr option \<Rightarrow> goerr option \<Rightarrow>
   (('m, 'z) world_scheme, unit) op" where
  "Bootstrap A cfg mkdir sql_open new_adapter =
     bind (check (mkdir (SQLitePath cfg))) (\<lambda>_.
     bind (on_db (Init sql_open)) (\<lambda>_.
     bind (check new_adapter) (\<lambda>_.
     bind (modify (\<lambda>w. w\<lparr>ctrl := NewLoadController (visitRank (ctrl w)) (LoadBudgetMB cfg)
         (int64_of (TTLSeconds cfg * 10 ^ 9)) (MaxLoadedColls cfg)\<rparr>)) (\<lambda>_.
     on_err (restorePinnedCollections A) (on_milvus (ad_Close A))))))"

section \<open>Requests\<close>

datatype request =
    ReqCreateVectorBucket CreateVectorBucketRequest
  | ReqGetVectorBucket GetVectorBucketRequest
  | ReqListVectorBuckets ListVectorBucketsRequest
  | ReqDeleteVectorBucket DeleteVectorBucketRequest
  | ReqCreateIndex CreateIndexRequest
  | ReqDeleteIndex DeleteIndexRequest
  | ReqChangeIndexModel ChangeIndexModelRequest
  | ReqPutVectors PutVectorsRequest
  | ReqDeleteVectors DeleteVectorsRequest
  | ReqQueryVectors QueryVectorsRequest

datatype response =
    RespNone
  | RespARN string
  | RespGetVectorBucket GetVectorBucketResponse
  | RespListVectorBuckets ListVectorBucketsResponse
  | RespChangeIndexModel ChangeIndexModelResponse
  | RespQueryVectors QueryVectorsResponse

definition respond :: "('a \<Rightarrow> response) \<Rightarrow> ('s, 'a) op \<Rightarrow> ('s, response) op" where
  "respond f m = bind m (\<lambda>a. return (f a))"

fun serve :: "('m, 'x) Adapter_scheme \<Rightarrow> Config \<Rightarrow> request \<Rightarrow> (('m, 'z) world_scheme, response) op" where
  "serve A cfg (ReqCreateVectorBucket r) = respond RespARN (CreateVectorBucket cfg r)"
| "serve A cfg (ReqGetVectorBucket r) = respond RespGetVectorBucket (GetVectorBucket r)"
| "serve A cfg (ReqListVectorBuckets r) = respond RespListVectorBuckets (ListVectorBuckets r)"
| "serve A cfg (ReqDeleteVectorBucket r) = respond (\<lambda>_. RespNone) (DeleteVectorBucket r)"
| "serve A cfg (ReqCreateIndex r) = respond RespARN (CreateIndex A cfg r)"
| "serve A cfg (ReqDeleteIndex r) = respond (\<lambda>_. RespNone) (DeleteIndex A r)"
| "serve A cfg (ReqChangeIndexModel r) = respond RespChangeIndexModel (ChangeIndexModel r)"
| "serve A cfg (ReqPutVectors r) = respond (\<lambda>_. RespNone) (PutVectors A cfg r)"
| "serve A cfg (ReqDeleteVectors r) = respond (\<lambda>_. RespNone) (DeleteVectors A r)"
| "serve A cfg (ReqQueryVectors r) = respond RespQueryVectors (QueryVectors A cfg r)"

section \<open>Runs\<close>

datatype action = Serve request | Sweep | Migrate

fun act :: "('m, 'x) Adapter_scheme \<Rightarrow> Config \<Rightarrow> action \<Rightarrow> ('m, 'z) world_scheme \<Rightarrow> ('m, 'z) world_scheme" where
  "act A cfg (Serve r) w = snd (serve A cfg r w)"
| "act A cfg Sweep w = snd (RunTTLSweep A w)"
| "act A cfg Migrate w = snd (RunOnce A cfg w)"

inductive system_run ::
  "('m, 'x) Adapter_scheme \<Rightarrow> Config \<Rightarrow> ('m, 'z) world_scheme \<Rightarrow> ('m, 'z) world_scheme \<Rightarrow> bool"
  for A cfg w where
  start: "system_run A cfg w w"
| step: "system_run A cfg w v \<Longrightarrow> system_run A cfg w (act A cfg a v)"

section \<open>Invariants of every run\<close>

context controller_invariant
begin

lemma keeps_serve: "keeps (over_ctrl I) (serve A cfg r)"
  by (cases r) (simp_all only: serve.simps respond_def, (intro keeps_bind keeps_services keeps_return)+)

lemma act_I: "I (ctrl w) \<Longrightarrow> I (ctrl (act A cfg a w))"
  by (cases a) (simp_all add: keeps_snd [OF keeps_serve] keeps_snd [OF keeps_RunTTLSweep] keeps_snd [OF keeps_RunOnce])

lemma run_I: "system_run A cfg w w' \<Longrightarrow> I (ctrl w) \<Longrightarrow> I (ctrl w')"
  by (induction rule: system_run.induct) (auto intro: act_I)

end

context row_invariant
begin

lemma I_serve: "keeps (over_db I) (serve A cfg r)"
  by (cases r) (simp_all only: serve.simps respond_def, (intro keeps_bind keeps_services_I keeps_return)+)

lemma act_rows: "I (meta_db w) \<Longrightarrow> I (meta_db (act A cfg a w))"
  by (cases a) (simp_all add: keeps_snd [OF I_serve] keeps_snd [OF db_frame.frame_RunTTLSweep [where I = "\<lambda>d _. I d"]] keeps_snd [OF I_RunOnce])

lemma run_rows: "system_run A cfg w w' \<Longrightarrow> I (meta_db w) \<Longrightarrow> I (meta_db w')"
  by (induction rule: system_run.induct) (auto intro: act_rows)

end

section \<open>Properties\<close>

text \<open>C2: In every run of the service, whatever Milvus and the database answer, the rows satisfy the
  constraints of the schema and the controller's map and LRU list name the same collections.\<close>

theorem run_keeps_invariants:
  assumes "system_run A cfg w w'" and "store_ok (meta_db w)" and "ctrl_ok (ctrl w)"
  shows "store_ok (meta_db w') \<and> ctrl_ok (ctrl w')"
  using schema.run_rows [OF assms(1,2)] bookkeeping.run_I [OF assms(1,3)] by blast

text \<open>C3: No run exceeds the limits of the configuration: buckets in total and per owner, indexes
  per bucket, and the dimension of an index.\<close>

theorem run_within_limits:
  assumes "system_run A cfg w w'" and "within_limits cfg (meta_db w)"
  shows "within_limits cfg (meta_db w')"
  using limits.run_rows [OF assms] .

definition empty_db :: sqlite where
  "empty_db = \<lparr>buckets = [], collections = [], outcomes = sconst None\<rparr>"

definition empty_world :: "'m \<Rightarrow> 'm world" where
  "empty_world m = \<lparr>ctrl = NewLoadController (\<lambda>_ _. 0) 4096 (1800 * 10 ^ 9) 50, milvus = m, clock = sconst (10 ^ 18),
     meta_db = empty_db, uuids = sconst ''00000000-0000-0000-0000-000000000001''\<rparr>"

definition sample_ctx :: RequestContext where
  "sample_ctx = \<lparr>AccountID = ''acct'', Region = ''us-east-1'', RequestID = [], Headers = []\<rparr>"

definition create_bucket_request :: "string \<Rightarrow> request" where
  "create_bucket_request n = ReqCreateVectorBucket
     \<lparr>cvb_Ctx = sample_ctx, cvb_VectorBucketName = n, cvb_Encryption = None, cvb_Tags = []\<rparr>"

lemma empty_db_ok: "store_ok empty_db" "within_limits DefaultConfig empty_db"
  by (simp_all add: store_ok_def within_limits_def empty_db_def DefaultConfig_def)

theorem run_keeps_invariants_witness:
  "let w' = act DisabledAdapter DefaultConfig (Serve (create_bucket_request ''docs'')) (empty_world ())
   in store_ok (meta_db w') \<and> ctrl_ok (ctrl w')"
  unfolding Let_def
proof (rule run_keeps_invariants)
  show "system_run DisabledAdapter DefaultConfig (empty_world ())
      (act DisabledAdapter DefaultConfig (Serve (create_bucket_request ''docs'')) (empty_world ()))"
    by (intro system_run.intros)
qed (simp_all add: empty_world_def empty_db_ok ctrl_ok_New)

theorem run_within_limits_witness:
  "within_limits DefaultConfig (meta_db
     (act DisabledAdapter DefaultConfig (Serve (create_bucket_request ''docs'')) (empty_world ())))"
proof (rule run_within_limits)
  show "system_run DisabledAdapter DefaultConfig (empty_world ())
      (act DisabledAdapter DefaultConfig (Serve (create_bucket_request ''docs'')) (empty_world ()))"
    by (intro system_run.intros)
qed (simp add: empty_world_def empty_db_ok)

section \<open>Restoring pinned collections\<close>

lemma IsPinned_load_pinned:
  fixes A :: "('m, 'x) Adapter_scheme"
  shows "keeps (over_ctrl (IsPinned m)) (load_pinned A n est :: (('m, 'z) world_scheme, unit) op)"
proof (rule keepsI)
  fix w :: "('m, 'z) world_scheme" assume p: "IsPinned m (ctrl w)"
  then obtain e where e: "entry (ctrl w) m = Some e" "le_Pinned e" by (auto simp: IsPinned_def split: option.splits)
  have "IsPinned m (ctrl (snd (EnsureLoaded A n est w)))"
  proof (cases "m = n")
    case True
    with e show ?thesis by (simp add: EnsureLoaded_hit IsLoaded_def IsPinned_def entry_touch)
  next
    case False
    with e show ?thesis using EnsureLoaded_keeps_protected [of w m e n A est] by (simp add: protected_def IsPinned_def)
  qed
  then show "IsPinned m (ctrl (snd (load_pinned A n est w)))"
    by (auto simp: load_pinned_def bind_def Pin_def on_ctrl_def modify_def IsPinned_def entry_set_entry
        split: prod.split sum.split option.splits)
qed

lemma for_each_all_inv:
  assumes "\<And>x s s'. f x s = (Inr (), s') \<Longrightarrow> J s \<Longrightarrow> Q x s' \<and> J s'" and "\<And>x y. keeps (Q y) (f x)"
    and "J s" and "for_each f xs s = (Inr (), s')"
  shows "\<forall>x \<in> set xs. Q x s'"
  using assms(3,4)
proof (induction xs arbitrary: s)
  case (Cons x xs)
  then obtain s1 where x: "f x s = (Inr (), s1)" "for_each f xs s1 = (Inr (), s')" by (auto simp: bind_eq_Inr)
  from assms(1) [OF x(1) Cons.prems(1)] have q: "Q x s1" "J s1" by auto
  have "keeps (Q x) (for_each f xs)" by (rule keeps_for_each) (rule assms(2))
  then have "Q x s'" using keeps_snd q(1) x(2) by fastforce
  with Cons.IH [OF q(2) x(2)] show ?case by simp
qed simp

definition restored :: "LogicalCollection \<Rightarrow> LoadController \<Rightarrow> bool" where
  "restored c k \<longleftrightarrow> (c_Pinned c \<and> c_Status c = CollStatusReady \<longrightarrow> IsPinned (c_PhysicalName c) k)"

lemma keeps_restored_load: "keeps (over_ctrl (restored c)) (load_pinned A n est)"
  by (rule keepsI) (auto simp: restored_def intro: keeps_snd [OF IsPinned_load_pinned])

lemma keeps_restored: "keeps (over_ctrl (restored c)) (restore_one A c')"
  unfolding restore_one_def by (intro keeps_rules keeps_restored_load)

lemma restore_one_Inr: "restore_one A c w = (Inr (), w') \<Longrightarrow> restored c (ctrl w')"
  by (auto simp: restore_one_def restored_def split: if_splits dest: load_pinned_Inr)

lemma keeps_db_restore: "keeps (\<lambda>w. db_rows (meta_db w) = k) (restore_one A c)"
  unfolding restore_one_def load_pinned_def
  by (intro keeps_rules db_frame.frame_rules [where I = "\<lambda>d _. db_rows d = k"])

text \<open>One bucket of the outer loop.\<close>

definition bucket_restored :: "sqlite \<Rightarrow> Bucket \<Rightarrow> ('m, 'z) world_scheme \<Rightarrow> bool" where
  "bucket_restored d b w \<longleftrightarrow> db_rows (meta_db w) = db_rows d \<and>
     (\<forall>c \<in> set (live_collections (b_ID b) d). restored c (ctrl w))"

lemma keeps_bucket_restored:
  fixes A :: "('m, 'x) Adapter_scheme"
  shows "keeps (bucket_restored d b) (bind (on_db (ListCollections (b_ID b'))) (for_each (restore_one A))
    :: (('m, 'z) world_scheme, unit) op)"
proof -
  have one: "keeps (bucket_restored d b) (restore_one A c :: (('m, 'z) world_scheme, unit) op)" for c
  proof (rule keepsI)
    fix w :: "('m, 'z) world_scheme" assume "bucket_restored d b w"
    then show "bucket_restored d b (snd (restore_one A c w))"
      using keeps_snd [OF keeps_db_restore [where k = "db_rows d" and A = A and c = c], of w]
        keeps_snd [OF keeps_restored [where A = A and c' = c], of _ w]
      by (auto simp: bucket_restored_def)
  qed
  have "keeps (bucket_restored d b) (on_db (ListCollections i) :: (('m, 'z) world_scheme, _) op)" for i
    by (rule keepsI) (simp add: bucket_restored_def reads_store(8) [unfolded reads_def])
  then show ?thesis by (intro keeps_bind keeps_for_each one)
qed

lemma bucket_loop_Inr:
  fixes w :: "('m, 'z) world_scheme"
  assumes "db_rows (meta_db w) = db_rows d"
    and "bind (on_db (ListCollections (b_ID b))) (for_each (restore_one A)) w = (Inr (), w')"
  shows "bucket_restored d b w'"
proof -
  from assms(2) obtain cs d1 where cs: "ListCollections (b_ID b) (meta_db w) = (Inr cs, d1)"
    and loop: "for_each (restore_one A) cs (w\<lparr>meta_db := d1\<rparr>) = (Inr (), w')"
    by (auto simp: bind_eq_Inr on_db_eq_Inr)
  have rows1: "db_rows d1 = db_rows d" using reads_rows [OF reads_store(8) cs] assms(1) by simp
  have "set cs = set (live_collections (b_ID b) d)"
    using statement_Inr [OF cs [unfolded ListCollections_def]] assms(1) by (simp add: live_collections_def db_rows_def)
  moreover have "\<forall>c \<in> set cs. restored c (ctrl w')"
    by (rule for_each_all_inv [where Q = "\<lambda>c w. restored c (ctrl w)" and J = "\<lambda>_. True", OF _ keeps_restored _ loop])
       (simp_all add: restore_one_Inr)
  moreover have "db_rows (meta_db w') = db_rows d"
    using keeps_snd [OF keeps_for_each [where f = "restore_one A" and xs = cs, OF keeps_db_restore [where k = "db_rows d"]],
        of "w\<lparr>meta_db := d1\<rparr>"] loop rows1 by simp
  ultimately show ?thesis by (simp add: bucket_restored_def)
qed

text \<open>C33: After a start-up that reports success, every ready index that the metadata marks as pinned is
  loaded and pinned in the controller.\<close>

theorem restore_pins_every_pinned_index:
  fixes w :: "('m, 'z) world_scheme"
  assumes "restorePinnedCollections A w = (Inr (), w')"
    and "b \<in> set (buckets (meta_db w))" and "b_Status b \<noteq> BucketStatusDeleted"
    and "c \<in> set (collections (meta_db w))" and "c_BucketID c = b_ID b"
    and "c_Pinned c" and "c_Status c = CollStatusReady"
  shows "IsLoaded (c_PhysicalName c) (ctrl w') \<and> IsPinned (c_PhysicalName c) (ctrl w')"
proof -
  let ?f = "\<lambda>b. bind (on_db (ListCollections (b_ID b))) (for_each (restore_one A))"
  let ?d = "meta_db w"
  from assms(1) obtain bs d1 where bs: "ListBuckets ?d = (Inr bs, d1)"
    and loop: "for_each ?f bs (w\<lparr>meta_db := d1\<rparr>) = (Inr (), w')"
    by (auto simp: restorePinnedCollections_def bind_eq_Inr on_db_eq_Inr)
  have rows1: "db_rows d1 = db_rows ?d" using reads_rows [OF reads_store(3) bs] .
  have b: "b \<in> set bs"
    using statement_Inr [OF bs [unfolded ListBuckets_def]] assms(2,3) by simp
  have "\<forall>b \<in> set bs. bucket_restored ?d b w'"
  proof (rule for_each_all_inv [where J = "\<lambda>w. db_rows (meta_db w) = db_rows ?d", OF _ _ _ loop])
    show "keeps (bucket_restored ?d y) (?f x)" for x y by (rule keeps_bucket_restored)
    show "bucket_restored ?d x s' \<and> db_rows (meta_db s') = db_rows ?d"
      if "?f x s = (Inr (), s')" "db_rows (meta_db s) = db_rows ?d" for x and s s' :: "('m, 'z) world_scheme"
      using bucket_loop_Inr [OF that(2,1)] by (simp add: bucket_restored_def)
  qed (simp add: rows1)
  with b have "bucket_restored ?d b w'" by blast
  moreover have "c \<in> set (live_collections (b_ID b) ?d)" using assms(4,5,7) by (simp add: live_collections_def)
  ultimately have "IsPinned (c_PhysicalName c) (ctrl w')" using assms(6,7) by (auto simp: bucket_restored_def restored_def)
  then show ?thesis by (auto simp: IsPinned_def IsLoaded_def split: option.splits)
qed

definition pinned_state :: "unit world" where
  "pinned_state = (sample_state [])\<lparr>meta_db := (meta_db (sample_state []))\<lparr>collections := [(sample_coll [])\<lparr>c_Pinned := True\<rparr>]\<rparr>\<rparr>"

theorem restore_pins_every_pinned_index_witness:
  "IsLoaded ''vb_b1_c1'' (ctrl (snd (restorePinnedCollections accepting pinned_state))) \<and>
   IsPinned ''vb_b1_c1'' (ctrl (snd (restorePinnedCollections accepting pinned_state)))"
proof -
  have run: "restorePinnedCollections accepting pinned_state =
      (Inr (), snd (restorePinnedCollections accepting pinned_state))"
    by (simp add: restorePinnedCollections_def restore_one_def load_pinned_def run_defs pinned_state_def sample_state_def
        sample_bucket_def sample_coll_def ListBuckets_def ListCollections_def statement_def gets_def Let_def
        EnsureLoaded_def EnsureLoaded_locked_def IsLoaded_def entry_def NewLoadController_def accepting_def
        evictIfNeededLocked.simps over_budget_def ranged_def usedMBLocked_def EstimateMemMB_def fmul_def fdiv_def fadd_def
        on_ctrl_def modify_def Pin_def)
  show ?thesis
    using restore_pins_every_pinned_index [OF run, of sample_bucket "(sample_coll [])\<lparr>c_Pinned := True\<rparr>"]
    by (simp add: pinned_state_def sample_state_def sample_bucket_def sample_coll_def)
qed

lemma serve_fails_with: "fails_with service_errors (serve A cfg r)"
  by (cases r) (simp_all only: serve.simps respond_def, (intro fails_with_bind services_classified never_fails)+)

lemma TranslateError_service:
  assumes "x \<in> service_errors" and "is_only x e"
  shows "ae_Status (TranslateError (Some e)) \<in> {400, 402, 404, 409, 500, 503}"
    and "ae_Status (TranslateError (Some e)) = 500 \<longleftrightarrow> errors_Is ErrInternal e"
    and "ae_RetryAfter (TranslateError (Some e)) > 0 \<longleftrightarrow> ae_Status (TranslateError (Some e)) = 503"
  using assms by (auto simp: service_errors_def is_only_def TranslateError_def mk_api_error_def)


section \<open>An index that is being deleted\<close>

definition stuck :: "string \<Rightarrow> string \<Rightarrow> sqlite \<Rightarrow> bool" where
  "stuck i bid d \<longleftrightarrow> store_ok d \<and> (\<exists>c \<in> set (collections d). c_ID c = i \<and> c_BucketID c = bid \<and>
     c_Status c = CollStatusDeleting \<and> c_MigrateState c = [])"

lemma stuck_rows: "db_rows d' = db_rows d \<Longrightarrow> stuck i bid d \<Longrightarrow> stuck i bid d'"
  by (auto simp: stuck_def store_ok_def db_rows_def)

lemma stuck_outcomes [simp]: "stuck i bid (d\<lparr>outcomes := os\<rparr>) = stuck i bid d"
  by (simp add: stuck_def)

lemma stuck_distinct: "stuck i bid d \<Longrightarrow> c \<in> set (collections d) \<Longrightarrow> c_ID c = i \<Longrightarrow>
    c_Status c = CollStatusDeleting \<and> c_MigrateState c = []"
  by (auto simp: stuck_def store_ok_def distinct_map inj_on_def)

lemma stuck_reads: "reads f \<Longrightarrow> keeps (over_db (stuck i bid)) (on_db f)"
  by (rule keepsI, rule stuck_rows) (simp_all add: reads_def)

lemma stuck_statement: "keeps (stuck i bid) f \<Longrightarrow> keeps (stuck i bid) (statement f)"
  by (rule keepsI) (auto simp: statement_def Let_def keeps_snd split: option.split)

lemma stuck_update:
  assumes "j \<noteq> i" and "row_update f"
  shows "keeps (stuck i bid) (update_coll j f)"
proof (rule keepsI)
  fix d assume s: "stuck i bid d"
  have "store_ok (snd (update_coll j f d))"
    using assms(2) s by (intro keeps_snd [OF schema.keeps_update_I]) (simp_all add: stuck_def)
  moreover from s obtain c where "c \<in> set (collections d)" "c_ID c = i" "c_BucketID c = bid"
    "c_Status c = CollStatusDeleting" "c_MigrateState c = []" by (auto simp: stuck_def)
  then have "c \<in> set (collections (snd (update_coll j f d)))"
    using assms(1) by (auto simp: update_coll_def statement_def Let_def modify_def update_where_def split: option.split)
  ultimately show "stuck i bid (snd (update_coll j f d))"
    using \<open>c_ID c = i\<close> \<open>c_BucketID c = bid\<close> \<open>c_Status c = CollStatusDeleting\<close> \<open>c_MigrateState c = []\<close>
    by (auto simp: stuck_def)
qed

lemma stuck_updates:
  assumes "j \<noteq> i"
  shows "keeps (stuck i bid) (UpdateCollectionStatus t j st)" "keeps (stuck i bid) (UpdateCollectionIndexBuilt t j b)"
    "keeps (stuck i bid) (UpdateCollectionVectorCount t j n)" "keeps (stuck i bid) (UpdateCollectionLastAccess t j)"
    "keeps (stuck i bid) (UpdateCollectionMigrationState t j s ti sp tp ms le)"
    "keeps (stuck i bid) (SwitchCollectionPhysical t j ol nw it tr pn mv)"
    "keeps (stuck i bid) (DeleteCollection j)"
proof -
  have other: "keeps (stuck i bid) m"
    if ok: "keeps store_ok m" and same: "\<And>d c. c \<in> set (collections d) \<Longrightarrow> c_ID c = i \<Longrightarrow> c \<in> set (collections (snd (m d)))"
    for m :: "(sqlite, unit) op"
  proof (rule keepsI)
    fix d assume "stuck i bid d"
    then show "stuck i bid (snd (m d))"
      using keeps_snd [OF ok, of d] same [of _ d] by (auto simp: stuck_def)
  qed
  note defs = UpdateCollectionStatus_def UpdateCollectionIndexBuilt_def UpdateCollectionVectorCount_def
    UpdateCollectionLastAccess_def UpdateCollectionMigrationState_def SwitchCollectionPhysical_def DeleteCollection_def
    update_coll_def statement_def Let_def modify_def update_where_def
  show "keeps (stuck i bid) (UpdateCollectionStatus t j st)" "keeps (stuck i bid) (UpdateCollectionIndexBuilt t j b)"
    "keeps (stuck i bid) (UpdateCollectionVectorCount t j n)" "keeps (stuck i bid) (UpdateCollectionLastAccess t j)"
    "keeps (stuck i bid) (UpdateCollectionMigrationState t j s ti sp tp ms le)"
    "keeps (stuck i bid) (SwitchCollectionPhysical t j ol nw it tr pn mv)"
    "keeps (stuck i bid) (DeleteCollection j)"
    using assms
    by (intro other keeps_coll_updates keeps_SwitchCollectionPhysical keeps_DeleteCollection;
        force simp: defs split: option.split)+
qed

lemma stuck_inserts:
  "keeps (stuck i bid) (CreateBucket t b)"
  "triple (stuck i bid) (CreateCollection t c) (\<lambda>_ d. stuck i bid d \<and> c_ID c \<noteq> i) (\<lambda>_. stuck i bid)"
proof -
  show "keeps (stuck i bid) (CreateBucket t b)"
  proof (rule keepsI)
    fix d assume s: "stuck i bid d"
    then have "store_ok (snd (CreateBucket t b d))" using keeps_snd [OF keeps_CreateBucket] by (auto simp: stuck_def)
    moreover have "collections (snd (CreateBucket t b d)) = collections d"
      by (simp add: CreateBucket_def statement_def Let_def split: option.split)
    ultimately show "stuck i bid (snd (CreateBucket t b d))" using s by (auto simp: stuck_def)
  qed
  show "triple (stuck i bid) (CreateCollection t c) (\<lambda>_ d. stuck i bid d \<and> c_ID c \<noteq> i) (\<lambda>_. stuck i bid)"
  proof (rule tripleI)
    fix d a d' assume s: "stuck i bid d" and run: "CreateCollection t c d = (Inr a, d')"
    have "store_ok d'" using keeps_snd [OF keeps_CreateCollection, of d t c] s run by (simp add: stuck_def)
    with CreateCollection_rows(1) [OF run] s show "stuck i bid d' \<and> c_ID c \<noteq> i"
      by (auto simp: stuck_def db_rows_def list_ex_iff)
  next
    fix d e d' assume "stuck i bid d" "CreateCollection t c d = (Inl e, d')"
    then show "stuck i bid d'" using stuck_rows CreateCollection_rows(2) by blast
  qed
qed

lemma stuck_Resolve:
  "triple (over_db (stuck i bid)) (on_db (Resolve bn cn)) (\<lambda>c w. stuck i bid (meta_db w) \<and> c_ID c \<noteq> i)
     (\<lambda>_. over_db (stuck i bid))"
proof (rule tripleI)
  fix w c w' assume s: "stuck i bid (meta_db w)" and run: "on_db (Resolve bn cn) w = (Inr c, w')"
  then obtain d where r: "Resolve bn cn (meta_db w) = (Inr c, d)" and w': "w' = w\<lparr>meta_db := d\<rparr>"
    by (auto simp: on_db_eq_Inr)
  have "c \<in> set (collections (meta_db w))" "c_Status c = CollStatusReady" using r by (auto elim: Resolve_Inr)
  with stuck_distinct [OF s] have "c_ID c \<noteq> i" by force
  moreover have "stuck i bid d" using stuck_rows [OF reads_rows [OF reads_router_quota(1) r] s] .
  ultimately show "stuck i bid (meta_db w') \<and> c_ID c \<noteq> i" by (simp add: w')
next
  fix w e w' assume "stuck i bid (meta_db w)" "on_db (Resolve bn cn) w = (Inl e, w')"
  then show "stuck i bid (meta_db w')"
    using keeps_snd [OF stuck_reads [OF reads_router_quota(1)], of i bid w bn cn] by simp
qed

lemma triple_pure: "(b \<Longrightarrow> triple P m Q E) \<Longrightarrow> triple (\<lambda>s. P s \<and> b) m Q E"
  by (auto simp: triple_def)

lemma stuck_basic:
  "keeps (over_db (stuck i bid)) time_now" "keeps (over_db (stuck i bid)) NewString"
  "keeps (over_db (stuck i bid)) (put_columns dm vs cols)"
proof -
  show t: "keeps (over_db (stuck i bid)) time_now" "keeps (over_db (stuck i bid)) NewString"
    by (rule keepsI, simp add: time_now_def NewString_def)+
  show "keeps (over_db (stuck i bid)) (put_columns dm vs cols)"
  proof (induction vs arbitrary: cols)
    case (Cons v vs)
    then show ?case by (cases cols) (auto intro!: keeps_rules t)
  qed (auto intro: keeps_rules)
qed

lemma stuck_now: "(\<And>t. keeps (stuck i bid) (f t)) \<Longrightarrow> keeps (over_db (stuck i bid)) (on_db_now f)"
  unfolding on_db_now_def by (intro keeps_bind stuck_basic keeps_db_on_db)

lemmas stuck_frame = db_frame.frame_rules [where I = "\<lambda>d _. stuck i bid d" for i bid]

lemma stuck_load_pinned: "keeps (over_db (stuck i bid)) (load_pinned A n est)"
  unfolding load_pinned_def by (intro keeps_rules stuck_frame)

lemmas stuck_rules = keeps_rules stuck_frame stuck_load_pinned stuck_basic stuck_reads reads_store reads_router_quota
  stuck_now stuck_updates keeps_db_on_db [OF stuck_updates(7)]

text \<open>A handler that resolves its index first.\<close>

lemma stuck_resolving:
  assumes "\<And>c. c_ID c \<noteq> i \<Longrightarrow> keeps (over_db (stuck i bid)) (f c)"
  shows "keeps (over_db (stuck i bid)) (bind (map_err g (on_db (Resolve bn cn))) f)"
  by (rule triple_bind, rule triple_map_err, rule stuck_Resolve) (intro triple_pure assms)

lemma stuck_handlers:
  "keeps (over_db (stuck i bid)) (DeleteIndex A r1)" "keeps (over_db (stuck i bid)) (ChangeIndexModel r2)"
  "keeps (over_db (stuck i bid)) (QueryVectors A cfg r3)"
  unfolding DeleteIndex_def ChangeIndexModel_def QueryVectors_def Let_def
  by (intro keeps_bind keeps_liftR keeps_case_prod stuck_resolving; intro stuck_rules; assumption)+

lemma stuck_writable:
  assumes "\<And>c. c_ID c \<noteq> i \<Longrightarrow> keeps (over_db (stuck i bid)) (f c)"
  shows "keeps (over_db (stuck i bid)) (bind (resolve_writable t) f)"
proof -
  have "bind (resolve_writable t) f = bind (liftR (ResolveNames t)) (\<lambda>(bn, cn).
      bind (map_err (wrap_err ErrNotFound) (on_db (Resolve bn cn))) (\<lambda>c.
      if c_MigrateState c \<noteq> [] then fail (wrap_text ErrServiceUnavailable ''collection is migrating'') else f c))"
    by (rule ext) (simp add: resolve_writable_def bind_def fail_def return_def split: prod.split sum.split)
  then show ?thesis
    by (simp only:) (intro keeps_bind keeps_liftR keeps_case_prod stuck_resolving keeps_if keeps_fail assms)
qed

lemma bind_return: "bind (return x) f = f x"
  by (rule ext) (simp add: bind_def return_def)

lemma stuck_DeleteVectors: "keeps (over_db (stuck i bid)) (DeleteVectors A r)"
  unfolding DeleteVectors_def by (rule stuck_writable, intro stuck_rules)

lemma stuck_PutVectors: "keeps (over_db (stuck i bid)) (PutVectors A cfg r)"
  unfolding PutVectors_def PutVectors_plan_def Let_def bind_assoc bind_return prod.case
  by (rule stuck_writable, intro stuck_rules)

lemma triple_db:
  "triple P f Q E \<Longrightarrow> triple (over_db P) (on_db f) (\<lambda>a. over_db (Q a)) (\<lambda>e. over_db (E e))"
  by (auto simp: triple_iff on_db_def split: prod.splits)

lemma stuck_CreateIndex: "keeps (over_db (stuck i bid)) (CreateIndex A cfg req)"
proof -
  have plan: "keeps (over_db (stuck i bid)) (CreateIndex_plan cfg req)"
    unfolding CreateIndex_plan_def Let_def by (intro stuck_rules)
  have ins: "triple (over_db (stuck i bid)) (on_db_now (\<lambda>t. CreateCollection t c))
      (\<lambda>_ w. stuck i bid (meta_db w) \<and> c_ID c \<noteq> i) (\<lambda>_. over_db (stuck i bid))" for c
    unfolding on_db_now_def by (rule triple_bind [OF stuck_basic(1)], rule triple_db, rule stuck_inserts(2))
  have build: "keeps (over_db (stuck i bid)) (CreateIndex_build A p c)" if "c_ID c \<noteq> i" for p c
    unfolding CreateIndex_build_def by (intro stuck_rules that)
  show ?thesis
    unfolding CreateIndex_def
    by (rule keeps_bind [OF plan], intro keeps_case_prod, rule triple_bind, rule triple_map_err, rule ins,
        rule triple_pure, intro keeps_bind build stuck_rules)
qed

lemma stuck_DeleteVectorBucket:
  "keeps (over_db (stuck i bid)) (DeleteVectorBucket req :: (('m, 'z) world_scheme, unit) op)"
proof (rule keepsI)
  fix w :: "('m, 'z) world_scheme" assume s: "stuck i bid (meta_db w)"
  obtain r w' where run: "DeleteVectorBucket req w = (r, w')" by fastforce
  show "stuck i bid (meta_db (snd (DeleteVectorBucket req w)))"
  proof (cases r)
    case (Inl e)
    have "store_ok (meta_db w')"
      using keeps_snd [OF schema.I_DeleteVectorBucket, of w req] run s by (simp add: stuck_def)
    moreover have "db_rows (meta_db w') = db_rows (meta_db w)"
      using DeleteVectorBucket_Inl run Inl by blast
    ultimately show ?thesis using run s stuck_rows by simp
  next
    case (Inr u)
    with run have run': "DeleteVectorBucket req w = (Inr (), w')" by simp
    from DeleteVectorBucket_rows [OF run'] obtain b :: Bucket where b: "live_collections (b_ID b) (meta_db w) = []"
      "collections (meta_db w') = filter (\<lambda>c. c_BucketID c \<noteq> b_ID b) (collections (meta_db w))" by blast
    have "store_ok (meta_db w')"
      using keeps_snd [OF schema.I_DeleteVectorBucket, of w req] run s by (simp add: stuck_def)
    moreover from s obtain c where c: "c \<in> set (collections (meta_db w))" "c_ID c = i" "c_BucketID c = bid"
      "c_Status c = CollStatusDeleting" "c_MigrateState c = []" by (auto simp: stuck_def)
    moreover have "c_BucketID c \<noteq> b_ID b" using b(1) c by (auto simp: live_collections_def filter_empty_conv)
    ultimately show ?thesis using run b(2) by (auto simp: stuck_def)
  qed
qed

lemma stuck_bucket_service:
  "keeps (over_db (stuck i bid)) (CreateVectorBucket cfg r1)" "keeps (over_db (stuck i bid)) (GetVectorBucket r2)"
  "keeps (over_db (stuck i bid)) (ListVectorBuckets r3)"
  unfolding CreateVectorBucket_def GetVectorBucket_def ListVectorBuckets_def Let_def
  by (intro stuck_rules stuck_inserts(1))+

lemma stuck_RunOnce: "keeps (over_db (stuck i bid)) (RunOnce A cfg)"
proof -
  have one: "keeps (over_db (stuck i bid)) (if c_MigrateState c \<noteq> ''UPGRADING'' then return ()
      else on_err_with (migrateCollection A cfg c) (\<lambda>e. on_db_now (\<lambda>t. UpdateCollectionMigrationState t (c_ID c) [] [] [] []
            (c_MaintenanceSince c) (Error e))))" if "c_ID c \<noteq> i" for c
    unfolding migrateCollection_def migrate_copy_def migrate_switch_def Let_def by (intro stuck_rules that)
  have list_m: "triple (over_db (stuck i bid)) (on_db ListCollectionsInMigration)
      (\<lambda>cs w. stuck i bid (meta_db w) \<and> (\<forall>c \<in> set cs. c_ID c \<noteq> i)) (\<lambda>_. over_db (stuck i bid))"
  proof (rule tripleI)
    fix w cs w' assume s: "stuck i bid (meta_db w)" and run: "on_db ListCollectionsInMigration w = (Inr cs, w')"
    then obtain d where l: "ListCollectionsInMigration (meta_db w) = (Inr cs, d)" and w': "w' = w\<lparr>meta_db := d\<rparr>"
      by (auto simp: on_db_eq_Inr)
    have "c_ID c \<noteq> i" if "c \<in> set cs" for c
      using statement_Inr [OF l [unfolded ListCollectionsInMigration_def]] that stuck_distinct [OF s, of c] by auto
    then show "stuck i bid (meta_db w') \<and> (\<forall>c \<in> set cs. c_ID c \<noteq> i)"
      using stuck_rows [OF reads_rows [OF reads_store(9) l] s] by (simp add: w')
  next
    fix w e w' assume "stuck i bid (meta_db w)" "on_db ListCollectionsInMigration w = (Inl e, w')"
    then show "stuck i bid (meta_db w')"
      using keeps_snd [OF stuck_reads [OF reads_store(9)], of i bid w] by simp
  qed
  have loop: "keeps J (for_each f cs)" if "\<And>c. c \<in> set cs \<Longrightarrow> keeps J (f c)" for J cs and f :: "LogicalCollection \<Rightarrow> ('s, unit) op"
    using that by (induction cs) (auto intro!: keeps_rules)
  show ?thesis
    unfolding RunOnce_def
    by (rule triple_bind, rule list_m, rule triple_pure, rule loop) (use one in blast)
qed

lemma stuck_act:
  fixes A :: "('m, 'x) Adapter_scheme" and w :: "('m, 'z) world_scheme"
  assumes "stuck i bid (meta_db w)"
  shows "stuck i bid (meta_db (act A cfg a w))"
proof (cases a)
  case (Serve r)
  have "keeps (over_db (stuck i bid)) (serve A cfg r :: (('m, 'z) world_scheme, _) op)"
    by (cases r) (simp_all only: serve.simps respond_def,
      (intro keeps_bind keeps_return stuck_handlers stuck_PutVectors stuck_DeleteVectors stuck_CreateIndex stuck_DeleteVectorBucket stuck_bucket_service)+)
  from keeps_snd [OF this, of w] show ?thesis using Serve assms by simp
qed (simp_all add: assms keeps_snd [OF stuck_RunOnce] keeps_snd [OF db_frame.frame_RunTTLSweep [where I = "\<lambda>d _. stuck i bid d"]])


definition half_deleted_state :: "unit world" where
  "half_deleted_state = (sample_state [])\<lparr>meta_db := (meta_db (sample_state []))
     \<lparr>collections := [(sample_coll [])\<lparr>c_Status := CollStatusDeleting\<rparr>]\<rparr>\<rparr>"


end
