(* ===== verification/VB_Gateway.thy ===== *)
theory VB_Gateway
  imports MN_VectorAPI VB_Runtime
begin

text \<open>
  The object layer of the gateway as the front end sees it (pkg/gateway/gateway.go): each method of
  the vector API converts the request, calls the extension and converts the response or the error.
  The extension is the runtime of the vector buckets. \<open>vector_server\<close> is the whole path of a
  request: route, handler, object layer, runtime.
\<close>

section \<open>Conversions\<close>

definition toVectorRequestContext :: "mn_RequestContext \<Rightarrow> RequestContext" where
  "toVectorRequestContext c = \<lparr>AccountID = mrc_AccountID c, Region = mrc_Region c, RequestID = mrc_RequestID c,
     Headers = mrc_Headers c\<rparr>"

definition toVectorTarget :: "mn_Target \<Rightarrow> Target" where
  "toVectorTarget t = \<lparr>VectorBucketName = mt_VectorBucketName t, VectorBucketARN = mt_VectorBucketARN t,
     IndexName = mt_IndexName t, IndexARN = mt_IndexARN t\<rparr>"

definition toVectorEncryptionConfiguration ::
  "mn_EncryptionConfiguration option \<Rightarrow> EncryptionConfiguration option" where
  "toVectorEncryptionConfiguration cfg = (case cfg of None \<Rightarrow> None
     | Some c \<Rightarrow> Some \<lparr>SSEType = mec_SSEType c, KMSKeyARN = mec_KMSKeyARN c\<rparr>)"

definition toMinioEncryptionConfiguration ::
  "EncryptionConfiguration option \<Rightarrow> mn_EncryptionConfiguration option" where
  "toMinioEncryptionConfiguration cfg = (case cfg of None \<Rightarrow> None
     | Some c \<Rightarrow> Some \<lparr>mec_SSEType = SSEType c, mec_KMSKeyARN = KMSKeyARN c\<rparr>)"

definition toVectorMetadataConfiguration ::
  "mn_MetadataConfiguration option \<Rightarrow> MetadataConfiguration option" where
  "toVectorMetadataConfiguration cfg = (case cfg of None \<Rightarrow> None
     | Some c \<Rightarrow> Some \<lparr>NonFilterableMetadataKeys = mmc_NonFilterableMetadataKeys c\<rparr>)"

text \<open>\<open>nil\<close> stays \<open>nil\<close>.\<close>

definition translateVectorError :: "goerr option \<Rightarrow> mn_error option" where
  "translateVectorError err = (case err of None \<Rightarrow> None
   | Some e \<Rightarrow> (let apiErr = TranslateError (Some e) in
       Some (VectorError \<lparr>vae_Code = ae_Code apiErr, vae_Message = ae_Message apiErr,
         vae_Status = ae_Status apiErr, vae_RetryAfter = ae_RetryAfter apiErr\<rparr>)))"

section \<open>The object layer\<close>

record 's Extension =
  ex_CreateVectorBucket :: "CreateVectorBucketRequest \<Rightarrow> ('s, string) op"
  ex_GetVectorBucket :: "GetVectorBucketRequest \<Rightarrow> ('s, GetVectorBucketResponse) op"
  ex_ListVectorBuckets :: "ListVectorBucketsRequest \<Rightarrow> ('s, ListVectorBucketsResponse) op"
  ex_DeleteVectorBucket :: "DeleteVectorBucketRequest \<Rightarrow> ('s, unit) op"
  ex_CreateIndex :: "CreateIndexRequest \<Rightarrow> ('s, string) op"
  ex_DeleteIndex :: "DeleteIndexRequest \<Rightarrow> ('s, unit) op"
  ex_ChangeIndexModel :: "ChangeIndexModelRequest \<Rightarrow> ('s, ChangeIndexModelResponse) op"
  ex_PutVectors :: "PutVectorsRequest \<Rightarrow> ('s, unit) op"
  ex_DeleteVectors :: "DeleteVectorsRequest \<Rightarrow> ('s, unit) op"
  ex_QueryVectors :: "QueryVectorsRequest \<Rightarrow> ('s, QueryVectorsResponse) op"

text \<open>The guard and the error path the methods share: \<open>n.vectorbucket\<close> may be \<open>nil\<close>.\<close>

definition extended :: "'s Extension option \<Rightarrow> ('s Extension \<Rightarrow> ('s, 'a) op) \<Rightarrow> ('a \<Rightarrow> 'b) \<Rightarrow> ('s, 'b) mn_call" where
  "extended n call conv s = (case n of
     None \<Rightarrow> (Inl (VectorError not_configured), s)
   | Some ext \<Rightarrow> (case call ext s of
       (Inl e, s') \<Rightarrow> (Inl (the (translateVectorError (Some e))), s')
     | (Inr a, s') \<Rightarrow> (Inr (conv a), s')))"

definition jfs_CreateVectorBucket where
  "jfs_CreateVectorBucket n req = extended n (\<lambda>ext. ex_CreateVectorBucket ext
     \<lparr>cvb_Ctx = toVectorRequestContext (mcb_Ctx req), cvb_VectorBucketName = mcb_VectorBucketName req,
      cvb_Encryption = toVectorEncryptionConfiguration (mcb_Encryption req), cvb_Tags = mcb_Tags req\<rparr>)
     (\<lambda>arn. \<lparr>mcbr_VectorBucketARN = arn\<rparr>)"

definition jfs_GetVectorBucket where
  "jfs_GetVectorBucket n req = extended n (\<lambda>ext. ex_GetVectorBucket ext
     \<lparr>gvb_Ctx = toVectorRequestContext (mgb_Ctx req), gvb_Target = toVectorTarget (mgb_Target req)\<rparr>)
     (\<lambda>resp. \<lparr>mgbr_VectorBucketARN = gvr_VectorBucketARN resp, mgbr_VectorBucketName = gvr_VectorBucketName resp,
        mgbr_CreationTime = gvr_CreationTime resp,
        mgbr_Encryption = toMinioEncryptionConfiguration (gvr_Encryption resp)\<rparr>)"

definition jfs_ListVectorBuckets where
  "jfs_ListVectorBuckets n req = extended n (\<lambda>ext. ex_ListVectorBuckets ext
     \<lparr>lvb_Ctx = toVectorRequestContext (mlb_Ctx req), lvb_MaxResults = mlb_MaxResults req,
      lvb_NextToken = mlb_NextToken req\<rparr>)
     (\<lambda>resp. \<lparr>mlbr_VectorBuckets = map (\<lambda>b. \<lparr>mbs_VectorBucketARN = vbs_VectorBucketARN b,
          mbs_VectorBucketName = vbs_VectorBucketName b, mbs_CreationTime = vbs_CreationTime b\<rparr>)
        (lvr_VectorBuckets resp), mlbr_NextToken = lvr_NextToken resp\<rparr>)"

definition jfs_DeleteVectorBucket where
  "jfs_DeleteVectorBucket n req = extended n (\<lambda>ext. ex_DeleteVectorBucket ext
     \<lparr>dvb_Ctx = toVectorRequestContext (mdb_Ctx req), dvb_Target = toVectorTarget (mdb_Target req)\<rparr>) (\<lambda>u. u)"

definition jfs_CreateIndex where
  "jfs_CreateIndex n req = extended n (\<lambda>ext. ex_CreateIndex ext
     \<lparr>ci_Ctx = toVectorRequestContext (mci_Ctx req), ci_Target = toVectorTarget (mci_Target req),
      ci_IndexName = mci_IndexName req, ci_DataType = mci_DataType req, ci_Dimension = mci_Dimension req,
      ci_DistanceMetric = mci_DistanceMetric req,
      ci_Encryption = toVectorEncryptionConfiguration (mci_Encryption req),
      ci_MetadataConfiguration = toVectorMetadataConfiguration (mci_MetadataConfiguration req),
      ci_Tags = mci_Tags req\<rparr>)
     (\<lambda>arn. \<lparr>mcir_IndexARN = arn\<rparr>)"

definition jfs_DeleteIndex where
  "jfs_DeleteIndex n req = extended n (\<lambda>ext. ex_DeleteIndex ext
     \<lparr>di_Ctx = toVectorRequestContext (mdi_Ctx req), di_Target = toVectorTarget (mdi_Target req)\<rparr>) (\<lambda>u. u)"

definition jfs_ChangeIndexModel where
  "jfs_ChangeIndexModel n req = extended n (\<lambda>ext. ex_ChangeIndexModel ext
     \<lparr>cim_Ctx = toVectorRequestContext (mcm_Ctx req), cim_Target = toVectorTarget (mcm_Target req),
      cim_IndexModel = mcm_IndexModel req\<rparr>)
     (\<lambda>resp. \<lparr>mcmr_IndexARN = cimr_IndexARN resp, mcmr_IndexModel = cimr_IndexModel resp,
        mcmr_State = cimr_State resp\<rparr>)"

definition jfs_PutVectors where
  "jfs_PutVectors n req = extended n (\<lambda>ext. ex_PutVectors ext
     \<lparr>pv_Ctx = toVectorRequestContext (mpv_Ctx req), pv_Target = toVectorTarget (mpv_Target req),
      pv_Vectors = map (\<lambda>v. \<lparr>piv_Key = mpi_Key v, piv_Data = mvd_Float32 (mpi_Data v),
        piv_Metadata = mpi_Metadata v\<rparr>) (mpv_Vectors req)\<rparr>) (\<lambda>u. u)"

definition jfs_DeleteVectors where
  "jfs_DeleteVectors n req = extended n (\<lambda>ext. ex_DeleteVectors ext
     \<lparr>dv_Ctx = toVectorRequestContext (mdv_Ctx req), dv_Target = toVectorTarget (mdv_Target req),
      dv_Keys = mdv_Keys req\<rparr>) (\<lambda>u. u)"

definition jfs_QueryVectors where
  "jfs_QueryVectors n req = extended n (\<lambda>ext. ex_QueryVectors ext
     \<lparr>qv_Ctx = toVectorRequestContext (mqv_Ctx req), qv_Target = toVectorTarget (mqv_Target req),
      qv_QueryVector = mvd_Float32 (mqv_QueryVector req), qv_TopK = mqv_TopK req, qv_Filter = mqv_Filter req,
      qv_ReturnDistance = mqv_ReturnDistance req, qv_ReturnMetadata = mqv_ReturnMetadata req\<rparr>)
     (\<lambda>resp. \<lparr>mqvr_DistanceMetric = qvr_DistanceMetric resp,
        mqvr_Vectors = map (\<lambda>v. \<lparr>mqr_Key = qrv_Key v, mqr_Distance = qrv_Distance v, mqr_Metadata = qrv_Metadata v\<rparr>)
          (qvr_Vectors resp)\<rparr>)"

definition jfsObjects :: "'s Extension option \<Rightarrow> 's VectorAPI" where
  "jfsObjects n = \<lparr>va_CreateVectorBucket = jfs_CreateVectorBucket n, va_GetVectorBucket = jfs_GetVectorBucket n,
     va_ListVectorBuckets = jfs_ListVectorBuckets n, va_DeleteVectorBucket = jfs_DeleteVectorBucket n,
     va_CreateIndex = jfs_CreateIndex n, va_DeleteIndex = jfs_DeleteIndex n,
     va_ChangeIndexModel = jfs_ChangeIndexModel n, va_PutVectors = jfs_PutVectors n,
     va_DeleteVectors = jfs_DeleteVectors n, va_QueryVectors = jfs_QueryVectors n\<rparr>"

text \<open>The runtime as the extension (runtime.go).\<close>

definition Runtime :: "('m, 'x) Adapter_scheme \<Rightarrow> Config \<Rightarrow> ('m, 'z) world_scheme Extension" where
  "Runtime A cfg = \<lparr>ex_CreateVectorBucket = CreateVectorBucket cfg, ex_GetVectorBucket = GetVectorBucket,
     ex_ListVectorBuckets = ListVectorBuckets, ex_DeleteVectorBucket = DeleteVectorBucket,
     ex_CreateIndex = CreateIndex A cfg, ex_DeleteIndex = DeleteIndex A, ex_ChangeIndexModel = ChangeIndexModel,
     ex_PutVectors = PutVectors A cfg, ex_DeleteVectors = DeleteVectors A, ex_QueryVectors = QueryVectors A cfg\<rparr>"

text \<open>The path of a request: \<open>None\<close> when it is no request of the vector API.\<close>

definition vector_server ::
  "json_codec \<Rightarrow> string \<Rightarrow> ('m, 'x) Adapter_scheme \<Rightarrow> Config \<Rightarrow> http_request \<Rightarrow> ('m, 'z) world_scheme \<Rightarrow>
   (http_response \<times> ('m, 'z) world_scheme) option" where
  "vector_server J region A cfg r w =
     (case route_vector J region (Some (jfsObjects (Some (Runtime A cfg)))) r of
        None \<Rightarrow> None | Some h \<Rightarrow> Some (h r w))"

section \<open>An HTTP request is one request of the runtime\<close>

fun request_ctx :: "request \<Rightarrow> RequestContext" where
  "request_ctx (ReqCreateVectorBucket r) = cvb_Ctx r"
| "request_ctx (ReqGetVectorBucket r) = gvb_Ctx r"
| "request_ctx (ReqListVectorBuckets r) = lvb_Ctx r"
| "request_ctx (ReqDeleteVectorBucket r) = dvb_Ctx r"
| "request_ctx (ReqCreateIndex r) = ci_Ctx r"
| "request_ctx (ReqDeleteIndex r) = di_Ctx r"
| "request_ctx (ReqChangeIndexModel r) = cim_Ctx r"
| "request_ctx (ReqPutVectors r) = pv_Ctx r"
| "request_ctx (ReqDeleteVectors r) = dv_Ctx r"
| "request_ctx (ReqQueryVectors r) = qv_Ctx r"

text \<open>The runtime served \<open>q\<close>, and \<open>resp\<close> is written from its answer.\<close>

definition answered ::
  "json_codec \<Rightarrow> ('m, 'x) Adapter_scheme \<Rightarrow> Config \<Rightarrow> request \<Rightarrow> ('m, 'z) world_scheme \<Rightarrow> http_response \<Rightarrow>
   ('m, 'z) world_scheme \<Rightarrow> bool" where
  "answered J A cfg q w resp w' \<longleftrightarrow> (case serve A cfg q w of
     (Inl e, v) \<Rightarrow> w' = v \<and> resp = writeVectorError J (the (translateVectorError (Some e)))
   | (Inr a, v) \<Rightarrow> w' = v \<and> (\<exists>t. resp = writeVectorSuccess J t))"

definition outcome ::
  "json_codec \<Rightarrow> string \<Rightarrow> ('m, 'x) Adapter_scheme \<Rightarrow> Config \<Rightarrow> http_request \<Rightarrow> ('m, 'z) world_scheme \<Rightarrow>
   http_response \<times> ('m, 'z) world_scheme \<Rightarrow> bool" where
  "outcome J region A cfg r w out \<longleftrightarrow>
     (snd out = w \<and> (\<exists>m. fst out = writeVectorError J (VectorError (mk_vector_error ''ValidationException'' m 400)))) \<or>
     (\<exists>q. request_ctx q = toVectorRequestContext (vectorRequestContext region r) \<and>
        answered J A cfg q w (fst out) (snd out))"

lemma handle_outcome:
  assumes "\<And>req. call api (set_ctx (vectorRequestContext region r) req) = extended (Some (Runtime A cfg)) (m req) conv"
    and "\<And>req. serve A cfg (q req) = respond f (m req (Runtime A cfg))"
    and "\<And>req. request_ctx (q req) = toVectorRequestContext (vectorRequestContext region r)"
  shows "outcome J region A cfg r w (handle J region (Some api) ty fs zero set_ctx call enc r w)"
proof (cases "decodeVectorRequest J ty fs zero r")
  case (Inl e)
  then show ?thesis by (auto simp: handle_def outcome_def)
next
  case (Inr req)
  have "answered J A cfg (q req) w (fst (handle J region (Some api) ty fs zero set_ctx call enc r w))
      (snd (handle J region (Some api) ty fs zero set_ctx call enc r w))"
    by (auto simp: answered_def handle_def Inr assms(1,2) extended_def respond_def bind_def return_def
        split: sum.splits prod.splits)
  with assms(3) show ?thesis unfolding outcome_def by blast
qed

lemmas jfs_defs = jfs_CreateVectorBucket_def jfs_GetVectorBucket_def jfs_ListVectorBuckets_def
  jfs_DeleteVectorBucket_def jfs_CreateIndex_def jfs_DeleteIndex_def jfs_ChangeIndexModel_def
  jfs_PutVectors_def jfs_DeleteVectors_def jfs_QueryVectors_def

lemmas handler_defs = CreateVectorBucketHandler_def GetVectorBucketHandler_def ListVectorBucketsHandler_def
  DeleteVectorBucketHandler_def CreateIndexHandler_def DeleteIndexHandler_def ChangeIndexModelHandler_def
  PutVectorsHandler_def DeleteVectorsHandler_def QueryVectorsHandler_def

lemma handlers_outcome:
  fixes A :: "('m, 'x) Adapter_scheme" and w :: "('m, 'z) world_scheme"
  shows "outcome J region A cfg r w (CreateVectorBucketHandler J region (Some (jfsObjects (Some (Runtime A cfg)))) r w)"
    "outcome J region A cfg r w (GetVectorBucketHandler J region (Some (jfsObjects (Some (Runtime A cfg)))) r w)"
    "outcome J region A cfg r w (ListVectorBucketsHandler J region (Some (jfsObjects (Some (Runtime A cfg)))) r w)"
    "outcome J region A cfg r w (DeleteVectorBucketHandler J region (Some (jfsObjects (Some (Runtime A cfg)))) r w)"
    "outcome J region A cfg r w (CreateIndexHandler J region (Some (jfsObjects (Some (Runtime A cfg)))) r w)"
    "outcome J region A cfg r w (DeleteIndexHandler J region (Some (jfsObjects (Some (Runtime A cfg)))) r w)"
    "outcome J region A cfg r w (ChangeIndexModelHandler J region (Some (jfsObjects (Some (Runtime A cfg)))) r w)"
    "outcome J region A cfg r w (PutVectorsHandler J region (Some (jfsObjects (Some (Runtime A cfg)))) r w)"
    "outcome J region A cfg r w (DeleteVectorsHandler J region (Some (jfsObjects (Some (Runtime A cfg)))) r w)"
    "outcome J region A cfg r w (QueryVectorsHandler J region (Some (jfsObjects (Some (Runtime A cfg)))) r w)"
  unfolding handler_defs
  by ((rule handle_outcome, unfold jfsObjects_def VectorAPI.simps jfs_defs, rule refl,
      unfold Runtime_def Extension.simps, rule serve.simps, simp)[1])+

lemma server_outcome:
  assumes "vector_server J region A cfg r w = Some out"
  shows "outcome J region A cfg r w out"
  using assms handlers_outcome [of J region A cfg r w]
  by (auto simp: vector_server_def route_vector_def vector_routes_def split: if_splits)

section \<open>Properties\<close>

text \<open>A run of the server: HTTP requests and the background work of the service.\<close>

inductive http_run :: "json_codec \<Rightarrow> string \<Rightarrow> ('m, 'x) Adapter_scheme \<Rightarrow> Config \<Rightarrow> ('m, 'z) world_scheme \<Rightarrow>
   ('m, 'z) world_scheme \<Rightarrow> bool" for J region A cfg w where
  http_start: "http_run J region A cfg w w"
| http_request: "http_run J region A cfg w v \<Longrightarrow> vector_server J region A cfg r v = Some (resp, v') \<Longrightarrow>
    http_run J region A cfg w v'"
| http_sweep: "http_run J region A cfg w v \<Longrightarrow> http_run J region A cfg w (act A cfg Sweep v)"
| http_migrate: "http_run J region A cfg w v \<Longrightarrow> http_run J region A cfg w (act A cfg Migrate v)"

lemma answered_run:
  "system_run A cfg w v \<Longrightarrow> answered J A cfg q v resp v' \<Longrightarrow> system_run A cfg w v'"
  using system_run.step [of A cfg w v "Serve q"] by (auto simp: answered_def split: prod.splits sum.splits)

lemma writeVectorError_status:
  assumes "\<And>e. \<exists>d. jc_Marshal J (enc_error e) = Inr d" and "vae_Status e \<noteq> 0"
  shows "rs_Status (writeVectorError J (VectorError e)) = vae_Status e"
    and "(''Retry-After'', ''5'') \<in> set (rs_Header (writeVectorError J (VectorError e))) \<longleftrightarrow> vae_RetryAfter e > 0"
proof -
  obtain d where "jc_Marshal J (enc_error e) = Inr d" using assms(1) by blast
  then show "rs_Status (writeVectorError J (VectorError e)) = vae_Status e"
    and "(''Retry-After'', ''5'') \<in> set (rs_Header (writeVectorError J (VectorError e))) \<longleftrightarrow> vae_RetryAfter e > 0"
    using assms(2) by (auto simp: writeVectorError_def writeResponse_def Let_def)
qed

lemma writeVectorSuccess_status:
  assumes "\<And>e. \<exists>d. jc_Marshal J (enc_error e) = Inr d"
  shows "rs_Status (writeVectorSuccess J t) \<in> {200, 204, 500}"
    and "rs_Status (writeVectorSuccess J t) \<noteq> 503"
    and "(''Retry-After'', ''5'') \<notin> set (rs_Header (writeVectorSuccess J t))"
  using writeVectorError_status [OF assms, of "mk_vector_error ''InternalServerException'' _ 500"]
  by (auto simp: writeVectorSuccess_def writeSuccessNoContent_def writeResponse_def mk_vector_error_def
      split: option.splits sum.splits)

text \<open>For a codec that can write every error, the status of a response is one of eight, and a client is
  told to retry exactly when the service is unavailable.\<close>

lemma http_status_codes:
  assumes "\<And>e. \<exists>d. jc_Marshal J (enc_error e) = Inr d"
    and "vector_server J region A cfg r w = Some (resp, w')"
  shows "rs_Status resp \<in> {200, 204, 400, 402, 404, 409, 500, 503} \<and>
    ((''Retry-After'', ''5'') \<in> set (rs_Header resp) \<longleftrightarrow> rs_Status resp = 503)"
proof -
  have err: "rs_Status (writeVectorError J (the (translateVectorError (Some e)))) \<in> {400, 402, 404, 409, 500, 503} \<and>
      ((''Retry-After'', ''5'') \<in> set (rs_Header (writeVectorError J (the (translateVectorError (Some e))))) \<longleftrightarrow>
       rs_Status (writeVectorError J (the (translateVectorError (Some e)))) = 503)"
    if "serve A cfg q w = (Inl e, v)" for q e v
  proof -
    from fails_withD [OF serve_fails_with that] obtain x where x: "x \<in> service_errors" "is_only x e" by blast
    note t = TranslateError_service [OF x]
    then show ?thesis
      using writeVectorError_status [OF assms(1), of "\<lparr>vae_Code = ae_Code (TranslateError (Some e)),
          vae_Message = ae_Message (TranslateError (Some e)), vae_Status = ae_Status (TranslateError (Some e)),
          vae_RetryAfter = ae_RetryAfter (TranslateError (Some e))\<rparr>"]
      by (auto simp: translateVectorError_def Let_def)
  qed
  from server_outcome [OF assms(2)] show ?thesis
  proof (unfold outcome_def fst_conv snd_conv, elim disjE conjE exE)
    fix m assume "resp = writeVectorError J (VectorError (mk_vector_error ''ValidationException'' m 400))"
    then show ?thesis
      using writeVectorError_status [OF assms(1), of "mk_vector_error ''ValidationException'' m 400"]
      by (simp add: mk_vector_error_def)
  next
    fix q assume q: "answered J A cfg q w resp w'"
    show ?thesis
    proof (cases "serve A cfg q w")
      case (Pair res v)
      then show ?thesis
        using q err [of q] writeVectorSuccess_status [OF assms(1)] by (cases res) (auto simp: answered_def)
    qed
  qed
qed

text \<open>A codec for sample requests: the body is the name of a bucket.\<close>

definition name_codec :: json_codec where
  "name_codec = \<lparr>jc_Decode = (\<lambda>b. if b = [] then Inl (New ''EOF'') else
       Inr (Jval b (JObj [(''vectorBucketName'', Jval b (JStr b)), (''accountId'', Jval b (JStr ''mallory''))]))),
     jc_TypeError = (\<lambda>ty v. New (''json: cannot unmarshal into '' @ ty)),
     jc_ParseFloat32 = (\<lambda>n. None), jc_Marshal = (\<lambda>t. Inr ''{}'')\<rparr>"

definition create_request :: "bytes \<Rightarrow> http_request" where
  "create_request body = \<lparr>hr_Method = ''POST'', hr_Path = ''/CreateVectorBucket'',
     hr_Header = [(''X-Amz-Account-Id'', [''acct''])], hr_Body = body\<rparr>"

definition answer :: "bytes \<Rightarrow> http_response \<times> unit world" where
  "answer body = the (vector_server name_codec [] DisabledAdapter DefaultConfig (create_request body) (empty_world ()))"

lemma sample_answer:
  "vector_server name_codec [] DisabledAdapter DefaultConfig (create_request body) (empty_world ()) =
     Some (fst (answer body), snd (answer body))"
  by (simp add: answer_def vector_server_def route_vector_def vector_routes_def create_request_def)

end
