(* ===== verification/VB_Milvus.thy ===== *)
theory VB_Milvus
  imports VB_Migration
begin


text \<open>
  The adapter of the integration build as the services use it
  (pkg/gateway/vectorbucket/adapter/milvus_adapter_integration.go), and what a migration needs of the Milvus
  client behind it. The laws of the client speak of the client's calls only; that the adapter gives the worker
  the laws it relies on is proved from them.
\<close>

section \<open>The adapter of the services\<close>

text \<open>A call that panics or does not return produces no result for its caller; the services see an error and
  an unchanged adapter. The laws below exclude the case.\<close>

definition returning :: "('s, 'a) pop \<Rightarrow> ('s, 'a) op" where
  "returning f s = (case f s of None \<Rightarrow> (Inl (New ''panic''), s) | Some p \<Rightarrow> p)"

definition milvus_adapter :: "('s, 'i) Client \<Rightarrow> 's MilvusAdapter Adapter" where
  "milvus_adapter C = \<lparr>
     LoadCollection = ma_LoadCollection C, ReleaseCollection = ma_ReleaseCollection C,
     ad_CreateCollection = ma_CreateCollection C, ad_DropCollection = ma_DropCollection C,
     ad_HasCollection = ma_HasCollection C, ad_CreateIndex = ma_CreateIndex C,
     ad_Insert = (\<lambda>name ids vectors metadataJSON timestamps.
       returning (ma_Insert C name ids vectors metadataJSON timestamps)),
     ad_Upsert = (\<lambda>name ids vectors metadataJSON timestamps.
       returning (ma_Upsert C name ids vectors metadataJSON timestamps)),
     ad_Delete = ma_Delete C, ad_Search = (\<lambda>name vector spec. returning (ma_Search C name vector spec)),
     ad_Scan = (\<lambda>name batchSize fn. returning (ma_Scan C name batchSize (\<lambda>rows a. Some (fn rows a)))),
     ad_Count = ma_Count C, ad_Close = ma_Close C\<rparr>"

section \<open>The Milvus client\<close>

text \<open>A result set that holds the records \<open>b\<close> in the four fields of a collection.\<close>

definition rows_of :: "ResultSet \<Rightarrow> VectorRecord list \<Rightarrow> bool" where
  "rows_of rs b \<longleftrightarrow> rs_ResultCount rs = int (length b) \<and>
     (\<exists>idc vc mc tc. rs_GetColumn rs ''id'' = Some idc \<and> rs_GetColumn rs ''vector'' = Some vc \<and>
        rs_GetColumn rs ''metadata'' = Some mc \<and> rs_GetColumn rs ''created_at'' = Some tc \<and>
        (\<forall>i < length b. col_GetAsString idc i = Inr (vr_ID (b ! i)) \<and>
           col_Get vc i = Inr (CellFloatVector (vr_Vector (b ! i))) \<and>
           col_Get mc i = Inr (CellBytes (vr_Metadata (b ! i))) \<and>
           col_GetAsInt64 tc i = Inr (vr_CreatedAt (b ! i))))"

text \<open>An iterator over the collection \<open>n\<close>, as long as its content stays \<open>d\<close>: it delivers the batches one after
  the other, then ends; it may fail at any point.\<close>

fun iterates ::
  "('s, 'i) Client \<Rightarrow> 's contents \<Rightarrow> string \<Rightarrow> (string \<rightharpoonup> VectorRecord) option \<Rightarrow> 'i \<Rightarrow> VectorRecord list list \<Rightarrow> bool" where
  "iterates C dat n d it [] \<longleftrightarrow> (\<forall>s. dat s n = d \<longrightarrow> (case fst (cl_Next C it s) of
     NextRows rs _ \<Rightarrow> rs_ResultCount rs = 0 | _ \<Rightarrow> True))"
| "iterates C dat n d it (b # bs) \<longleftrightarrow> (\<forall>s. dat s n = d \<longrightarrow> (case fst (cl_Next C it s) of
     NextErr _ \<Rightarrow> True | NextEOF \<Rightarrow> False
   | NextRows rs it' \<Rightarrow> b \<noteq> [] \<and> rows_of rs b \<and> iterates C dat n d it' bs))"

text \<open>\<open>Scan\<close> leaves the consistency level of its iterator at the default of the client, which is bounded
  staleness (milvus/client/milvusclient/iterator_option.go): the iterator delivers a content that the collection
  had some seconds ago. What a read may see is the parameter \<open>sees\<close>.\<close>

definition client_laws :: "('s, 'i) Client \<Rightarrow> staleness \<Rightarrow> 's contents \<Rightarrow> bool" where
  "client_laws C sees dat \<longleftrightarrow>
     (\<forall>k. (\<forall>addr. keeps_data dat k (cl_New C addr)) \<and> (\<forall>op. keeps_data dat k (cl_CreateIndex C op)) \<and>
        (\<forall>n. keeps_data dat k (cl_LoadCollection C n) \<and> keeps_data dat k (cl_AwaitLoad C n) \<and>
           keeps_data dat k (cl_ReleaseCollection C n) \<and> keeps_data dat k (cl_GetCollectionStats C n)) \<and>
        (\<forall>n sz fs. keeps_data dat k (cl_QueryIterator C n sz fs)) \<and>
        (\<forall>it s. dat (snd (cl_Next C it s)) k = dat s k) \<and>
        (\<forall>op. k \<noteq> co_Name op \<longrightarrow> keeps_data dat k (cl_CreateCollection C op)) \<and>
        (\<forall>n. k \<noteq> n \<longrightarrow> keeps_data dat k (cl_DropCollection C n)) \<and>
        (\<forall>op. k \<noteq> no_Name op \<longrightarrow> keeps_data dat k (cl_Upsert C op))) \<and>
     (\<forall>op s s'. cl_CreateCollection C op s = (Inr (), s') \<longrightarrow>
        dat s' (co_Name op) = Some (case dat s (co_Name op) of None \<Rightarrow> Map.empty | Some m \<Rightarrow> m)) \<and>
     (\<forall>op s s' m. cl_Upsert C op s = (Inr (), s') \<longrightarrow> dat s (no_Name op) = Some m \<longrightarrow>
        length (no_Vectors op) = length (no_IDs op) \<longrightarrow> length (no_Metadata op) = length (no_IDs op) \<longrightarrow>
        length (no_CreatedAt op) = length (no_IDs op) \<longrightarrow>
        dat s' (no_Name op) = Some (upserted (records (no_IDs op) (no_Vectors op) (no_Metadata op) (no_CreatedAt op)) m)) \<and>
     (\<forall>n sz it s s'. cl_QueryIterator C n sz [''id'', ''vector'', ''metadata'', ''created_at''] s = (Inr it, s') \<longrightarrow>
        (\<exists>bs d. distinct (map vr_ID (concat bs)) \<and> dat s n = Some d \<and> sees d (by_ID (concat bs)) \<and>
           iterates C dat n (Some d) it bs))"

text \<open>The statistics of a collection, where they are exact: its number of records, and nothing else.\<close>

definition stats_exact :: "('s, 'i) Client \<Rightarrow> 's contents \<Rightarrow> bool" where
  "stats_exact C dat \<longleftrightarrow> (\<forall>n s st s' d. cl_GetCollectionStats C n s = (Inr st, s') \<longrightarrow> dat s n = Some d \<longrightarrow>
     finite (dom d) \<and> st = [''row_count'' \<mapsto> Itoa (int (card (dom d)))])"

section \<open>The calls of the adapter\<close>

abbreviation at_service :: "'s contents \<Rightarrow> 's MilvusAdapter contents" where
  "at_service dat \<equiv> \<lambda>a. dat (ma_service a)"

lemma collect_values:
  assumes "\<And>i. i \<in> set is \<Longrightarrow> f i = Some (Inr (g i))"
  shows "collect f is out = Some (Inr (out @ map g is))"
  using assms by (induction "is" arbitrary: out) simp_all

lemma scan_batch_rows_of: "rows_of rs b \<Longrightarrow> scan_batch rs = Some (Inr b)"
proof -
  assume rows: "rows_of rs b"
  then have "scan_row_record rs i = Some (Inr (b ! i))" if "i < length b" for i
    using that by (auto simp: rows_of_def scan_row_record_def bytes_of_def)
  then have "scan_batch rs = Some (Inr ([] @ map ((!) b) [0..<nat (rs_ResultCount rs)]))"
    unfolding scan_batch_def using rows by (intro collect_values) (simp add: rows_of_def)
  with rows show ?thesis by (simp add: rows_of_def map_nth)
qed

lemma keeps_on_service: "keeps P f \<Longrightarrow> keeps (\<lambda>a. P (ma_service a)) (on_service f)"
  by (rule keepsI) (simp add: on_service_def keeps_iff split: prod.splits, metis snd_conv)

lemma keeps_ensureClient:
  fixes C :: "('s, 'i) Client"
  assumes "\<And>addr. keeps P (cl_New C addr)"
  shows "keeps (\<lambda>a. P (ma_service a)) (ensureClient C)"
proof (rule keepsI)
  fix a :: "'s MilvusAdapter" assume p: "P (ma_service a)"
  have "keeps (\<lambda>a. P (ma_service a)) (bind (map_err e (on_service (cl_New C (ma_addr a)))) (\<lambda>_.
      modify (\<lambda>a. a\<lparr>ma_client := True\<rparr>)))" for e
    by (intro keeps_bind keeps_map_err keeps_on_service assms) (simp add: keeps_iff modify_def)
  from keeps_snd [OF this] p show "P (ma_service (snd (ensureClient C a)))" by (simp add: ensureClient_def)
qed

lemma keeps_with_client:
  assumes "\<And>addr. keeps P (cl_New C addr)" and "keeps P f"
  shows "keeps (\<lambda>a. P (ma_service a)) (with_client C f)"
  unfolding with_client_def by (intro keeps_bind keeps_ensureClient keeps_on_service assms)

lemma with_client_Inr:
  assumes "with_client C f a = (Inr x, a')"
  obtains a0 where "ensureClient C a = (Inr (), a0)" and "f (ma_service a0) = (Inr x, ma_service a')"
proof -
  from assms obtain a0 where a0: "ensureClient C a = (Inr (), a0)" "on_service f a0 = (Inr x, a')"
    by (auto simp: with_client_def bind_eq_Inr)
  then have "f (ma_service a0) = (Inr x, ma_service a')"
    by (cases "f (ma_service a0)") (auto simp: on_service_def)
  with a0(1) that show thesis by blast
qed


section \<open>From the client to the adapter\<close>

lemma client_lawsD:
  assumes "client_laws C sees dat"
  shows "keeps (\<lambda>s. dat s k = v) (cl_New C addr)" "keeps (\<lambda>s. dat s k = v) (cl_CreateIndex C iop)"
    "keeps (\<lambda>s. dat s k = v) (cl_LoadCollection C n)" "keeps (\<lambda>s. dat s k = v) (cl_AwaitLoad C n)"
    "keeps (\<lambda>s. dat s k = v) (cl_ReleaseCollection C n)" "keeps (\<lambda>s. dat s k = v) (cl_GetCollectionStats C n)"
    "keeps (\<lambda>s. dat s k = v) (cl_QueryIterator C n sz fs)" "dat (snd (cl_Next C it s)) k = dat s k"
    "k \<noteq> co_Name cop \<Longrightarrow> keeps (\<lambda>s. dat s k = v) (cl_CreateCollection C cop)"
    "k \<noteq> n \<Longrightarrow> keeps (\<lambda>s. dat s k = v) (cl_DropCollection C n)"
    "k \<noteq> no_Name uop \<Longrightarrow> keeps (\<lambda>s. dat s k = v) (cl_Upsert C uop)"
  using conjunct1 [OF assms [unfolded client_laws_def], THEN spec, of k] by simp_all

lemma client_creates:
  assumes "client_laws C sees dat" and "cl_CreateCollection C op s = (Inr (), s')"
  shows "dat s' (co_Name op) = Some (case dat s (co_Name op) of None \<Rightarrow> Map.empty | Some m \<Rightarrow> m)"
  using assms(1) [unfolded client_laws_def, THEN conjunct2, THEN conjunct1] assms(2) by blast

lemma client_upserts:
  assumes "client_laws C sees dat" and "cl_Upsert C op s = (Inr (), s')" and "dat s (no_Name op) = Some m"
    and "length (no_Vectors op) = length (no_IDs op)" "length (no_Metadata op) = length (no_IDs op)"
      "length (no_CreatedAt op) = length (no_IDs op)"
  shows "dat s' (no_Name op) = Some (upserted (records (no_IDs op) (no_Vectors op) (no_Metadata op) (no_CreatedAt op)) m)"
  using assms(1) [unfolded client_laws_def, THEN conjunct2, THEN conjunct2, THEN conjunct1] assms(2-) by blast

lemma client_iterates:
  assumes "client_laws C sees dat"
    and "cl_QueryIterator C n sz [''id'', ''vector'', ''metadata'', ''created_at''] s = (Inr it, s')"
  obtains bs d where "distinct (map vr_ID (concat bs))" "dat s n = Some d" "sees d (by_ID (concat bs))"
    "iterates C dat n (Some d) it bs"
  using assms(1) [unfolded client_laws_def, THEN conjunct2, THEN conjunct2, THEN conjunct2] assms(2) by blast

lemma ensureClient_data:
  assumes "client_laws C sees dat" and "ensureClient C a = (r, a')"
  shows "dat (ma_service a') = dat (ma_service a)"
proof
  fix k
  show "dat (ma_service a') k = dat (ma_service a) k"
    using keeps_snd [OF keeps_ensureClient [where P = "\<lambda>s. dat s k = dat (ma_service a) k" and C = C], of a]
      client_lawsD(1) [OF assms(1)] assms(2) by simp
qed

lemma keeps_returning:
  "keeps P (returning f) \<longleftrightarrow> (\<forall>s r s'. P s \<longrightarrow> f s = Some (r, s') \<longrightarrow> P s')"
  by (auto simp: keeps_iff returning_def split: option.splits)

text \<open>The loop of \<open>Scan\<close>, on any iterator: what \<open>Next\<close> and the callback keep is kept.\<close>

lemma scan_loop_keeps:
  assumes "scan_loop C fn it a = Some y"
    and "\<And>i s. P s \<Longrightarrow> P (snd (cl_Next C i s))"
    and "\<And>rows a r a'. P (ma_service a) \<Longrightarrow> fn rows a = Some (r, a') \<Longrightarrow> P (ma_service a')"
    and "P (ma_service a)"
  shows "P (ma_service (snd y))"
proof -
  let ?Q = "\<lambda>C' fn' it a y. C' = C \<longrightarrow> fn' = fn \<longrightarrow> P (ma_service a) \<longrightarrow> P (ma_service (snd y))"
  have "?Q C fn it a y"
  proof (rule scan_loop.raw_induct [where P = ?Q, OF _ assms(1)], intro impI, goal_cases)
    case (1 loop C' fn' it a y)
    obtain ne s where nx: "cl_Next C it (ma_service a) = (ne, s)" by fastforce
    have s: "P s" using assms(2) [OF 1(5), of it] nx by simp
    show ?case
    proof (cases ne)
      case (NextRows rs it')
      with 1 nx s have hit: "P (ma_service a')"
        if "scan_batch rs = Some (Inr rows)" "fn rows (a\<lparr>ma_service := s\<rparr>) = Some (r, a')" for rows r a'
        using assms(3) [OF _ that(2)] by simp
      show ?thesis
        using 1(1) [of C fn it'] 1(2-4) NextRows nx s hit
        by (auto split: if_splits option.splits sum.splits prod.splits)
    qed (use 1 nx s in auto)
  qed
  with assms(4) show ?thesis by simp
qed

text \<open>On an iterator of the laws, the loop returns; when it returns no error, every batch was handed over.\<close>

lemma scan_loop_iterates:
  fixes fn :: "VectorRecord list \<Rightarrow> ('s MilvusAdapter, unit) op"
  assumes laws: "client_laws C sees dat" and keep: "\<And>rs v. keeps (\<lambda>a. dat (ma_service a) n = v) (fn rs)"
    and "iterates C dat n d it bs" and "dat (ma_service a) n = d"
  shows "\<exists>r a'. scan_loop C (\<lambda>rows a. Some (fn rows a)) it a = Some (r, a') \<and>
    (r = Inr () \<longrightarrow> handed (at_service dat) fn bs a a')"
  using assms(3,4)
proof (induction bs arbitrary: it a)
  case Nil
  have nx: "dat (snd (cl_Next C it (ma_service a))) = dat (ma_service a)"
    using client_lawsD(8) [OF laws] by (rule ext)
  have "case fst (cl_Next C it (ma_service a)) of NextRows rs _ \<Rightarrow> rs_ResultCount rs = 0 | _ \<Rightarrow> True"
    using Nil by simp
  with nx show ?case
    by (subst scan_loop.simps) (auto split: prod.splits iter_next.splits)
next
  case (Cons b bs)
  have nx: "dat (snd (cl_Next C it (ma_service a))) = dat (ma_service a)"
    using client_lawsD(8) [OF laws] by (rule ext)
  obtain ne s where eq: "cl_Next C it (ma_service a) = (ne, s)" by fastforce
  show ?case
  proof (cases ne)
    case (NextErr e)
    with eq show ?thesis by (subst scan_loop.simps) simp
  next
    case NextEOF
    with eq Cons.prems show ?thesis by (auto dest: spec [of _ "ma_service a"])
  next
    case (NextRows rs it')
    with eq Cons.prems have b: "b \<noteq> []" "rows_of rs b" and rest: "iterates C dat n d it' bs"
      by (auto dest: spec [of _ "ma_service a"])
    let ?a = "a\<lparr>ma_service := s\<rparr>"
    obtain r a1 where f: "fn b ?a = (r, a1)" by fastforce
    have da: "dat (ma_service ?a) = dat (ma_service a)" using nx eq by simp
    have "dat (ma_service a1) n = d"
      using keeps_snd [OF keep, of ?a d b] f da Cons.prems(2) by simp
    note IH = Cons.IH [OF rest this]
    have step: "scan_loop C (\<lambda>rows a. Some (fn rows a)) it a =
        (case r of Inl e \<Rightarrow> Some (Inl e, a1) | Inr _ \<Rightarrow> scan_loop C (\<lambda>rows a. Some (fn rows a)) it' a1)"
      using eq NextRows scan_batch_rows_of [OF b(2)] b f
      by (subst scan_loop.simps) (auto simp: rows_of_def split: sum.splits)
    show ?thesis
    proof (cases r)
      case (Inl e)
      with step show ?thesis by simp
    next
      case (Inr u)
      with step IH obtain r' a' where run: "scan_loop C (\<lambda>rows a. Some (fn rows a)) it a = Some (r', a')"
        "r' = Inr () \<longrightarrow> handed (at_service dat) fn bs a1 a'" by auto
      moreover have "handed (at_service dat) fn (b # bs) a a'" if "handed (at_service dat) fn bs a1 a'"
        unfolding handed.simps using that da f Inr by (intro exI [of _ ?a] exI [of _ a1]) simp
      ultimately show ?thesis by blast
    qed
  qed
qed


lemma keeps_with_data:
  assumes "client_laws C sees dat" and "keeps (\<lambda>s. dat s k = v) f"
  shows "keeps (\<lambda>a. dat (ma_service a) k = v) (with_client C f)"
  by (intro keeps_with_client [where P = "\<lambda>s. dat s k = v"] client_lawsD(1) [OF assms(1)] assms(2))

lemma write_keeps:
  assumes "client_laws C sees dat" and "k \<noteq> n"
  shows "keeps (\<lambda>a. dat (ma_service a) k = v) (returning (ma_Upsert C n ids vs ms ts))"
  unfolding keeps_returning
proof (intro allI impI)
  fix a r a' assume start: "dat (ma_service a) k = v" and run: "ma_Upsert C n ids vs ms ts a = Some (r, a')"
  obtain r0 a0 where ens: "ensureClient C a = (r0, a0)" by fastforce
  have a0: "dat (ma_service a0) k = v" using ensureClient_data [OF assms(1) ens] start by simp
  show "dat (ma_service a') k = v"
  proof (cases r0)
    case (Inr u)
    let ?op = "\<lparr>no_Name = n, no_IDs = ids, no_Dim = int (length (hd vs)), no_Vectors = vs, no_Metadata = ms,
      no_CreatedAt = ts\<rparr>"
    have "keeps (\<lambda>a. dat (ma_service a) k = v) (on_service (cl_Upsert C ?op))"
      by (intro keeps_on_service [where P = "\<lambda>s. dat s k = v"] client_lawsD(11) [OF assms(1)]) (simp add: assms(2))
    from keeps_snd [OF this a0] run ens Inr show ?thesis
      by (auto simp: ma_Upsert_def ma_write_def split: if_splits)
  qed (use run ens a0 in \<open>simp add: ma_Upsert_def ma_write_def\<close>)
qed

lemma write_stores:
  assumes "client_laws C sees dat" and "returning (ma_Upsert C n ids vs ms ts) a = (Inr (), a')"
    and "dat (ma_service a) n = Some m"
    and "length vs = length ids" "length ms = length ids" "length ts = length ids"
  shows "dat (ma_service a') n = Some (upserted (records ids vs ms ts) m)"
proof -
  obtain r0 a0 where ens: "ensureClient C a = (r0, a0)" by fastforce
  let ?op = "\<lparr>no_Name = n, no_IDs = ids, no_Dim = int (length (hd vs)), no_Vectors = vs, no_Metadata = ms,
    no_CreatedAt = ts\<rparr>"
  obtain r1 s1 where up: "cl_Upsert C ?op (ma_service a0) = (r1, s1)" by fastforce
  from assms(2) ens up have "r1 = Inr ()" "s1 = ma_service a'"
    by (auto simp: returning_def ma_Upsert_def ma_write_def on_service_def split: sum.splits if_splits)
  with client_upserts [OF assms(1), of ?op "ma_service a0"] up ensureClient_data [OF assms(1) ens] assms(3-)
  show ?thesis by simp
qed

lemma Scan_keeps:
  fixes fn :: "VectorRecord list \<Rightarrow> ('s MilvusAdapter, unit) op"
  assumes laws: "client_laws C sees dat" and fn: "\<And>rs v. keeps (\<lambda>a. dat (ma_service a) k = v) (fn rs)"
  shows "keeps (\<lambda>a. dat (ma_service a) k = v) (returning (ma_Scan C n b (\<lambda>rows a. Some (fn rows a))))"
  unfolding keeps_returning
proof (intro allI impI)
  fix a r a' assume start: "dat (ma_service a) k = v"
    and run: "ma_Scan C n b (\<lambda>rows a. Some (fn rows a)) a = Some (r, a')"
  let ?q = "with_client C (cl_QueryIterator C n (if b \<le> 0 then 1000 else b) [''id'', ''vector'', ''metadata'', ''created_at''])"
  obtain r0 a0 where q: "?q a = (r0, a0)" by fastforce
  have a0: "dat (ma_service a0) k = v"
    using keeps_snd [OF keeps_with_data [OF laws client_lawsD(7) [OF laws]] start] q by (metis snd_conv)
  show "dat (ma_service a') k = v"
  proof (cases r0)
    case (Inr it)
    with run q have "scan_loop C (\<lambda>rows a. Some (fn rows a)) it a0 = Some (r, a')" by (simp add: ma_Scan_def Let_def)
    then have "dat (ma_service (snd (r, a'))) k = v"
    proof (rule scan_loop_keeps [where P = "\<lambda>s. dat s k = v"])
      fix rows a1 r1 a2 assume "dat (ma_service a1) k = v" "Some (fn rows a1) = Some (r1, a2)"
      then show "dat (ma_service a2) k = v" using keeps_snd [OF fn, of a1 v rows] by simp
    qed (simp_all add: client_lawsD(8) [OF laws] a0)
    then show ?thesis by simp
  qed (use run q a0 in \<open>simp add: ma_Scan_def Let_def\<close>)
qed

lemma Scan_hands_over:
  fixes fn :: "VectorRecord list \<Rightarrow> ('s MilvusAdapter, unit) op"
  assumes laws: "client_laws C sees dat" and fn: "\<And>rs v. keeps (\<lambda>a. dat (ma_service a) n = v) (fn rs)"
    and run: "returning (ma_Scan C n b (\<lambda>rows a. Some (fn rows a))) a = (Inr (), a')"
  shows "\<exists>bs d. handed (at_service dat) fn bs a a' \<and> distinct (map vr_ID (concat bs)) \<and>
    dat (ma_service a) n = Some d \<and> sees d (by_ID (concat bs))"
proof -
  let ?f = "cl_QueryIterator C n (if b \<le> 0 then 1000 else b) [''id'', ''vector'', ''metadata'', ''created_at'']"
  obtain r0 a1 where q: "with_client C ?f a = (r0, a1)" by fastforce
  with run obtain it where it: "r0 = Inr it" by (cases r0) (auto simp: returning_def ma_Scan_def Let_def)
  with q obtain a0 where a0: "ensureClient C a = (Inr (), a0)" "?f (ma_service a0) = (Inr it, ma_service a1)"
    by (auto elim: with_client_Inr)
  have d0: "dat (ma_service a0) = dat (ma_service a)" by (rule ensureClient_data [OF laws a0(1)])
  have d1: "dat (ma_service a1) = dat (ma_service a)"
  proof
    fix k
    show "dat (ma_service a1) k = dat (ma_service a) k"
      using keeps_snd [OF client_lawsD(7) [OF laws], of "ma_service a0" k "dat (ma_service a) k"] a0(2) d0 by (metis snd_conv)
  qed
  from client_iterates [OF laws a0(2)] d0 obtain bs d where bs: "distinct (map vr_ID (concat bs))"
    "dat (ma_service a) n = Some d" "sees d (by_ID (concat bs))" and its: "iterates C dat n (Some d) it bs" by metis
  have "dat (ma_service a1) n = Some d" using d1 bs(2) by simp
  from scan_loop_iterates [where fn = fn, OF laws fn its this] obtain r a2 where
    lp: "scan_loop C (\<lambda>rows a. Some (fn rows a)) it a1 = Some (r, a2)" "r = Inr () \<longrightarrow> handed (at_service dat) fn bs a1 a2"
    by blast
  have "r = Inr ()" "a2 = a'" using run q it lp(1) by (simp_all add: returning_def ma_Scan_def Let_def)
  with lp(2) d1 have "handed (at_service dat) fn bs a a'" by (cases bs) simp_all
  with bs show ?thesis by blast
qed

lemma milvus_adapter_laws:
  assumes laws: "client_laws C sees dat"
  shows "data_laws (milvus_adapter C) sees (at_service dat)"
  unfolding data_laws_def
proof (intro conjI allI impI, goal_cases)
  case (7 n ids vs ms ts k v)
  then show ?case by (simp add: milvus_adapter_def write_keeps [OF laws])
next
  case (8 n d me a a')
  then obtain a0 where "ensureClient C a = (Inr (), a0)"
    "cl_CreateCollection C (newCreateCollectionOption n d) (ma_service a0) = (Inr (), ma_service a')"
    by (auto simp: milvus_adapter_def ma_CreateCollection_def elim: with_client_Inr)
  with client_creates [OF laws] ensureClient_data [OF laws] show ?case
    by (fastforce simp: newCreateCollectionOption_def)
next
  case (9 n ids vs ms ts a a' m)
  then show ?case using write_stores [OF laws] by (simp add: milvus_adapter_def)
next
  case (10 n b fn k v)
  then show ?case using Scan_keeps [OF laws, of k fn v n b] by (simp add: milvus_adapter_def)
next
  case (11 n b fn a a')
  then show ?case using Scan_hands_over [OF laws, of n fn b a a'] by (simp add: milvus_adapter_def)
qed (auto simp: milvus_adapter_def ma_LoadCollection_def ma_ReleaseCollection_def ma_Count_def ma_CreateIndex_def
    ma_CreateCollection_def ma_DropCollection_def submitCreateIndex_def newCreateCollectionOption_def Let_def
    intro!: keeps_with_data [OF laws] client_lawsD [OF laws] keeps_rules split: option.split)

lemma milvus_adapter_counts:
  assumes laws: "client_laws C sees dat" and ex: "stats_exact C dat"
  shows "counts_exact (milvus_adapter C) (at_service dat)"
  unfolding counts_exact_def
proof (intro allI impI)
  fix n a k a' d assume run: "ad_Count (milvus_adapter C) n a = (Inr k, a')" and d: "dat (ma_service a) n = Some d"
  let ?stats = "with_client C (cl_GetCollectionStats C n)"
  from run obtain st where st: "?stats a = (Inr st, a')" and k: "first_count [''row_count'', ''count''] st = Some k"
    by (auto simp: milvus_adapter_def ma_Count_def bind_eq_Inr return_def fail_def split: option.splits)
  from st obtain a0 where "ensureClient C a = (Inr (), a0)" "cl_GetCollectionStats C n (ma_service a0) = (Inr st, ma_service a')"
    by (elim with_client_Inr)
  with ensureClient_data [OF laws] d ex have "finite (dom d)" "st = [''row_count'' \<mapsto> Itoa (int (card (dom d)))]"
    unfolding stats_exact_def by metis+
  with k show "finite (dom d) \<and> k = int (card (dom d))"
    by (auto split: option.splits dest: ParseInt_Itoa_Some)
qed


section \<open>A client in memory\<close>

text \<open>Collections as lists of records, the latest first; an iterator is the list of the batches left. It does
  not see the latest \<open>lag\<close> records.\<close>

type_synonym mem = "string \<Rightarrow> VectorRecord list option"

fun uniq :: "VectorRecord list \<Rightarrow> VectorRecord list" where
  "uniq [] = []"
| "uniq (r # rs) = r # filter (\<lambda>x. vr_ID x \<noteq> vr_ID r) (uniq rs)"

definition mem_write :: "InsertOption \<Rightarrow> (mem, unit) op" where
  "mem_write op s = (case s (no_Name op) of
     None \<Rightarrow> (Inl (New ''collection not found''), s)
   | Some rs \<Rightarrow> (Inr (), s(no_Name op \<mapsto>
       rev (records (no_IDs op) (no_Vectors op) (no_Metadata op) (no_CreatedAt op)) @ rs)))"

definition mem_rows :: "VectorRecord list \<Rightarrow> ResultSet" where
  "mem_rows b = (let col = (\<lambda>g. \<lparr>col_Get = g, col_GetAsString = (\<lambda>i. Inr (vr_ID (b ! i))),
       col_GetAsInt64 = (\<lambda>i. Inr (vr_CreatedAt (b ! i)))\<rparr>)
   in \<lparr>rs_ResultCount = int (length b), rs_IDs = col (\<lambda>i. Inr (CellBytes (vr_ID (b ! i)))), rs_Scores = [],
       rs_GetColumn = (\<lambda>n. Some (col (\<lambda>i. Inr (if n = ''vector'' then CellFloatVector (vr_Vector (b ! i))
         else CellBytes (vr_Metadata (b ! i))))))\<rparr>)"

fun mem_next :: "VectorRecord list list \<Rightarrow> mem \<Rightarrow> VectorRecord list list iter_next \<times> mem" where
  "mem_next [] s = (NextEOF, s)"
| "mem_next (b # bs) s = (NextRows (mem_rows b) bs, s)"

definition mem_client :: "nat \<Rightarrow> (mem, VectorRecord list list) Client" where
  "mem_client lag = \<lparr>cl_New = (\<lambda>addr. return ()), cl_Close = return (),
     cl_CreateCollection = (\<lambda>op. modify (\<lambda>s. s(co_Name op \<mapsto> (case s (co_Name op) of None \<Rightarrow> [] | Some rs \<Rightarrow> rs)))),
     cl_DropCollection = (\<lambda>n. modify (\<lambda>s. s(n := None))), cl_HasCollection = (\<lambda>n s. (Inr (s n \<noteq> None), s)),
     cl_CreateIndex = (\<lambda>op. return ()), cl_LoadCollection = (\<lambda>n. return ()), cl_AwaitLoad = (\<lambda>n. return ()),
     cl_ReleaseCollection = (\<lambda>n. return ()), cl_Insert = mem_write, cl_Upsert = mem_write,
     cl_Delete = (\<lambda>n f ids. modify (\<lambda>s. s(n := map_option (filter (\<lambda>r. vr_ID r \<notin> set ids)) (s n)))),
     cl_Flush = (\<lambda>n. return ()), cl_AwaitFlush = (\<lambda>n. return ()), cl_Search = (\<lambda>op. return []),
     cl_QueryIterator = (\<lambda>n sz fs s. (case s n of None \<Rightarrow> (Inl (New ''collection not found''), s)
       | Some rs \<Rightarrow> (Inr (if drop lag (uniq rs) = [] then [] else [drop lag (uniq rs)]), s))),
     cl_Next = mem_next,
     cl_GetCollectionStats = (\<lambda>n s. (Inr [''row_count'' \<mapsto> (case s n of None \<Rightarrow> ''0'' | Some rs \<Rightarrow>
       Itoa (int (length (uniq rs))))], s))\<rparr>"

definition mem_data :: "mem contents" where
  "mem_data s n = map_option by_ID (s n)"

lemma by_ID_filter: "by_ID (filter (\<lambda>x. vr_ID x \<noteq> i) rs) = (by_ID rs)(i := None)"
  by (induction rs) (auto simp: by_ID_def fun_eq_iff)

lemma uniq_by_ID: "by_ID (uniq rs) = by_ID rs"
proof (induction rs)
  case (Cons r rs)
  have "by_ID (uniq (r # rs)) = (by_ID (filter (\<lambda>x. vr_ID x \<noteq> vr_ID r) (uniq rs)))(vr_ID r \<mapsto> r)"
    by (simp add: by_ID_def)
  also have "\<dots> = (by_ID rs)(vr_ID r \<mapsto> r)" by (simp add: by_ID_filter Cons)
  finally show ?case by (simp add: by_ID_def)
qed simp

lemma uniq_distinct: "distinct (map vr_ID (uniq rs))"
  by (induction rs) (auto simp: distinct_map inj_on_def)

lemma uniq_Nil [simp]: "uniq rs = [] \<longleftrightarrow> rs = []"
  by (cases rs) simp_all

lemma by_ID_rev_append: "by_ID (rev rs @ rs0) = upserted rs (by_ID rs0)"
proof (induction rs arbitrary: rs0)
  case (Cons r rs)
  have "by_ID (rev (r # rs) @ rs0) = upserted rs (by_ID (r # rs0))" using Cons [of "r # rs0"] by simp
  then show ?case by (simp add: by_ID_def upserted_def)
qed (simp add: upserted_def)

lemma rows_of_mem_rows: "rows_of (mem_rows b) b"
  by (simp add: rows_of_def mem_rows_def Let_def)

lemma snd_mem_next [simp]: "snd (mem_next it s) = s"
  by (cases it) simp_all

lemma by_ID_drop: "distinct (map vr_ID rs) \<Longrightarrow> by_ID (drop k rs) \<subseteq>\<^sub>m by_ID rs"
proof (induction rs arbitrary: k)
  case (Cons r rs)
  show ?case
  proof (cases k)
    case (Suc j)
    have "vr_ID r \<notin> dom (by_ID rs)" using Cons.prems by (auto simp: by_ID_def dom_map_of_conv_image_fst)
    then have "by_ID rs \<subseteq>\<^sub>m by_ID (r # rs)" by (auto simp: by_ID_def map_le_def)
    moreover have "by_ID (drop j rs) \<subseteq>\<^sub>m by_ID rs" using Cons by simp
    ultimately show ?thesis unfolding Suc drop_Suc_Cons by (rule map_le_trans [rotated])
  qed simp
qed (simp add: by_ID_def)

lemma card_by_ID: "finite (dom (by_ID rs)) \<and> card (dom (by_ID rs)) = length (uniq rs)"
proof -
  have "dom (by_ID (uniq rs)) = set (map vr_ID (uniq rs))" by (simp add: by_ID_def dom_map_of_conv_image_fst image_image)
  then show ?thesis using distinct_card [OF uniq_distinct, of rs] by (simp add: uniq_by_ID)
qed

lemma mem_client_laws: "client_laws (mem_client lag) (if lag = 0 then (\<lambda>d e. e = d) else (\<lambda>d e. e \<subseteq>\<^sub>m d)) mem_data"
  unfolding client_laws_def
proof (intro conjI allI impI, goal_cases)
  case (13 op s s' m)
  then show ?case
    by (auto simp: mem_client_def mem_write_def mem_data_def by_ID_rev_append split: option.splits)
next
  case (14 n sz it s s')
  then obtain rs where rs: "s n = Some rs" "it = (if drop lag (uniq rs) = [] then [] else [drop lag (uniq rs)])"
    by (auto simp: mem_client_def split: option.splits)
  have it: "concat it = drop lag (uniq rs)" using rs(2) by simp
  have "distinct (map vr_ID (concat it))" unfolding it drop_map [symmetric] by (rule distinct_drop [OF uniq_distinct])
  moreover have "by_ID (drop lag (uniq rs)) \<subseteq>\<^sub>m by_ID rs" using by_ID_drop [OF uniq_distinct] by (simp add: uniq_by_ID)
  ultimately show ?case using rs
    by (intro exI [of _ it] exI [of _ "by_ID rs"])
      (auto simp: mem_data_def it uniq_by_ID mem_client_def rows_of_mem_rows)
qed (auto simp: mem_client_def keeps_iff return_def modify_def mem_data_def mem_write_def by_ID_def
    split: option.splits)

lemma mem_client_stats: "stats_exact (mem_client lag) mem_data"
  by (auto simp: stats_exact_def mem_client_def mem_data_def card_by_ID)

definition migrating_row :: LogicalCollection where
  "migrating_row = (sample_coll ''UPGRADING'')\<lparr>c_TargetIndexType := ''hnsw'',
     c_SourcePhysicalName := ''vb_b1_c1'', c_TargetPhysicalName := ''vbh_b1_c1_mig''\<rparr>"

definition sample_mem :: mem where
  "sample_mem = [''vb_b1_c1'' \<mapsto> [\<lparr>vr_ID = ''k'', vr_Vector = [1, 2], vr_Metadata = [], vr_CreatedAt = 3\<rparr>]]"

definition migrating_world :: "mem MilvusAdapter world" where
  "migrating_world = \<lparr>ctrl = NewLoadController (\<lambda>_ _. 0) 4096 (1800 * 10 ^ 9) 50,
     milvus = NewMilvusAdapter ''localhost:19530'' sample_mem,
     clock = sconst 5, meta_db = \<lparr>buckets = [sample_bucket], collections = [migrating_row], outcomes = sconst None\<rparr>,
     uuids = sconst []\<rparr>"

end
