(* ===== verification/VB_Concurrency.thy ===== *)
theory VB_Concurrency
  imports VB_Controller
begin


text \<open>
  The load controller under concurrency. Every call of load_controller.go runs in a goroutine of its own; the
  mutex \<open>mu\<close> makes each locked region one step, the calls to Milvus outside of it are steps of their own, and
  the eviction loop, which calls Milvus with \<open>mu\<close> held, takes one step per candidate. The per-name load lock
  is the set of the names whose lock is held. Between any two steps other goroutines may run and other
  clients may change Milvus. VB_Controller describes the calls that are not interrupted; that they are runs of
  the steps below is proved here, and so is what survives interleaving and what does not.
\<close>

section \<open>Steps\<close>

text \<open>Where a call is.\<close>

datatype pc =
    Done "unit result"
  | Look1 string rat      \<comment> \<open>\<open>EnsureLoaded\<close>, before the first look at the map\<close>
  | AwaitLock string rat  \<comment> \<open>before \<open>lock.Lock()\<close>\<close>
  | Look2 string rat      \<comment> \<open>the load lock is held, before the second look\<close>
  | Evicting string rat   \<comment> \<open>in \<open>evictIfNeededLocked\<close>, both locks are held\<close>
  | Loading string rat    \<comment> \<open>before the call of \<open>LoadCollection\<close>\<close>
  | Store string rat      \<comment> \<open>before the region that adds the entry\<close>
  | RelLook string        \<comment> \<open>\<open>Release\<close>\<close>
  | RelCall string
  | RelDrop string
  | SweepLook             \<comment> \<open>\<open>RunTTLSweep\<close>\<close>
  | SweepCall "string list"
  | SweepDrop string "string list"
  | TouchCall string      \<comment> \<open>the methods with one locked region\<close>
  | PinCall string
  | UnpinCall string
  | IncCall string
  | DecCall string

record 'm conc =
  cw :: "'m cworld"
  mu :: "nat option"
  locks :: "string set"
  pcs :: "pc list"

abbreviation cc :: "('m, 'z) conc_scheme \<Rightarrow> LoadController" where
  "cc s \<equiv> ctrl (cw s)"

text \<open>A region of \<open>mu\<close> that runs a method to its end.\<close>

definition region :: "('m cworld, unit) op \<Rightarrow> 'm conc \<Rightarrow> (pc \<times> 'm conc) option" where
  "region f s = (if mu s \<noteq> None then None
     else case f (cw s) of (r, w) \<Rightarrow> Some (Done r, s\<lparr>cw := w\<rparr>))"

definition unlock :: "string \<Rightarrow> 'm conc \<Rightarrow> 'm conc" where
  "unlock name s = s\<lparr>locks := locks s - {name}\<rparr>"

text \<open>One turn of the loop of \<open>evictIfNeededLocked\<close>. On an error the deferred unlock of the load lock runs.\<close>

definition evict_turn ::
  "('m, 'x) LoadReleaser_scheme \<Rightarrow> string \<Rightarrow> rat \<Rightarrow> 'm conc \<Rightarrow> pc \<times> 'm conc" where
  "evict_turn A name estMemMB s =
     (let give_up = (\<lambda>e s. (Done (Inl e), unlock name (s\<lparr>mu := None\<rparr>))) in
      if \<not> over_budget estMemMB (cc s) then (Loading name estMemMB, s\<lparr>mu := None\<rparr>)
      else if lruOrder (cc s) = [] then give_up (New ''no collections to evict, budget exhausted'') s
      else (case List.find (evictable (cc s)) (lruOrder (cc s)) of
          None \<Rightarrow> give_up (New ''all loaded collections have in-flight queries, cannot evict'') s
        | Some candidate \<Rightarrow> (case ReleaseCollection A candidate (milvus (cw s)) of
            (Inl e, m) \<Rightarrow> give_up (Errorf [Lit ''release collection '', ArgS candidate, Lit '': '', ArgW e])
               (s\<lparr>cw := (cw s)\<lparr>milvus := m\<rparr>\<rparr>)
          | (Inr _, m) \<Rightarrow> (Evicting name estMemMB,
               s\<lparr>cw := (cw s)\<lparr>milvus := m, ctrl := drop_entry candidate (cc s)\<rparr>\<rparr>))))"

fun step_pc ::
  "('m, 'x) LoadReleaser_scheme \<Rightarrow> nat \<Rightarrow> pc \<Rightarrow> 'm conc \<Rightarrow> (pc \<times> 'm conc) option" where
  "step_pc A t (Done r) s = None"
| "step_pc A t (Look1 name est) s =
     (if mu s \<noteq> None then None
      else if IsLoaded name (cc s) then region (ensure_hit name) s
      else Some (AwaitLock name est, s))"
| "step_pc A t (AwaitLock name est) s =
     (if name \<in> locks s then None else Some (Look2 name est, s\<lparr>locks := insert name (locks s)\<rparr>))"
| "step_pc A t (Look2 name est) s =
     (if mu s \<noteq> None then None
      else if IsLoaded name (cc s) then map_option (apsnd (unlock name)) (region (ensure_hit name) s)
      else Some (Evicting name est, s\<lparr>mu := Some t\<rparr>))"
| "step_pc A t (Evicting name est) s = Some (evict_turn A name est s)"
| "step_pc A t (Loading name est) s =
     (case LoadCollection A name (milvus (cw s)) of
        (Inl e, m) \<Rightarrow> Some (Done (Inl (Errorf [Lit ''load collection '', ArgS name, Lit '': '', ArgW e])),
           unlock name (s\<lparr>cw := (cw s)\<lparr>milvus := m\<rparr>\<rparr>))
      | (Inr _, m) \<Rightarrow> Some (Store name est, s\<lparr>cw := (cw s)\<lparr>milvus := m\<rparr>\<rparr>))"
| "step_pc A t (Store name est) s =
     map_option (apsnd (unlock name)) (region (bind time_now (\<lambda>now. on_ctrl (add_entry now name est))) s)"
| "step_pc A t (RelLook name) s =
     (if mu s \<noteq> None then None
      else if IsLoaded name (cc s) then Some (RelCall name, s) else Some (Done (Inr ()), s))"
| "step_pc A t (RelCall name) s =
     (case ReleaseCollection A name (milvus (cw s)) of
        (Inl e, m) \<Rightarrow> Some (Done (Inl e), s\<lparr>cw := (cw s)\<lparr>milvus := m\<rparr>\<rparr>)
      | (Inr _, m) \<Rightarrow> Some (RelDrop name, s\<lparr>cw := (cw s)\<lparr>milvus := m\<rparr>\<rparr>))"
| "step_pc A t (RelDrop name) s = region (on_ctrl (drop_entry name)) s"
| "step_pc A t SweepLook s =
     (if mu s \<noteq> None then None
      else let now = shd (clock (cw s)) in
        Some (SweepCall (map fst (filter (\<lambda>(n, e). expired now (cc s) e) (ranged (cc s)))),
          s\<lparr>cw := (cw s)\<lparr>clock := stl (clock (cw s))\<rparr>\<rparr>))"
| "step_pc A t (SweepCall []) s = Some (Done (Inr ()), s)"
| "step_pc A t (SweepCall (name # rest)) s =
     Some (SweepDrop name rest, s\<lparr>cw := (cw s)\<lparr>milvus := snd (ReleaseCollection A name (milvus (cw s)))\<rparr>\<rparr>)"
| "step_pc A t (SweepDrop name rest) s =
     map_option (\<lambda>(_, s). (SweepCall rest, s)) (region (on_ctrl (drop_entry name)) s)"
| "step_pc A t (TouchCall name) s = region (Touch name) s"
| "step_pc A t (PinCall name) s = region (Pin name) s"
| "step_pc A t (UnpinCall name) s = region (Unpin name) s"
| "step_pc A t (IncCall name) s = region (InFlightInc name) s"
| "step_pc A t (DecCall name) s = region (InFlightDec name) s"

text \<open>The first point of each call.\<close>

fun starts :: "pc \<Rightarrow> bool" where
  "starts (Look1 n est) = True" | "starts (RelLook n) = True" | "starts SweepLook = True"
| "starts (TouchCall n) = True" | "starts (PinCall n) = True" | "starts (UnpinCall n) = True"
| "starts (IncCall n) = True" | "starts (DecCall n) = True" | "starts _ = False"

definition step_thread :: "('m, 'x) LoadReleaser_scheme \<Rightarrow> nat \<Rightarrow> 'm conc \<Rightarrow> 'm conc option" where
  "step_thread A t s = (if t < length (pcs s)
     then map_option (\<lambda>(c, s'). s'\<lparr>pcs := (pcs s)[t := c]\<rparr>) (step_pc A t (pcs s ! t) s) else None)"

inductive conc_run :: "('m, 'x) LoadReleaser_scheme \<Rightarrow> 'm conc \<Rightarrow> 'm conc \<Rightarrow> bool" for A s where
  start: "conc_run A s s"
| call: "conc_run A s v \<Longrightarrow> t < length (pcs v) \<Longrightarrow> pcs v ! t = Done r \<Longrightarrow> starts c \<Longrightarrow>
    conc_run A s (v\<lparr>pcs := (pcs v)[t := c]\<rparr>)"
| step: "conc_run A s v \<Longrightarrow> step_thread A t v = Some v' \<Longrightarrow> conc_run A s v'"
| others: "conc_run A s v \<Longrightarrow> conc_run A s (v\<lparr>cw := (cw v)\<lparr>milvus := m\<rparr>\<rparr>)"


section \<open>What a step does\<close>

text \<open>The name whose load lock a call holds, and the name it is about to add to the map.\<close>

fun crit :: "pc \<Rightarrow> string option" where
  "crit (Look2 n est) = Some n" | "crit (Evicting n est) = Some n" | "crit (Loading n est) = Some n"
| "crit (Store n est) = Some n" | "crit _ = None"

fun adding :: "pc \<Rightarrow> string option" where
  "adding (Evicting n est) = Some n" | "adding (Loading n est) = Some n" | "adding (Store n est) = Some n"
| "adding _ = None"

fun evicting :: "pc \<Rightarrow> bool" where
  "evicting (Evicting n est) = True" | "evicting _ = False"

fun loading :: "pc \<Rightarrow> bool" where
  "loading (Loading n est) = True" | "loading (Store n est) = True" | "loading _ = False"

lemma region_Some:
  "region f s = Some (c, s') \<longleftrightarrow> mu s = None \<and> c = Done (fst (f (cw s))) \<and> s' = s\<lparr>cw := snd (f (cw s))\<rparr>"
  by (auto simp: region_def split: prod.splits)

lemma unlock_fields [simp]:
  "cw (unlock n s) = cw s" "mu (unlock n s) = mu s" "locks (unlock n s) = locks s - {n}" "pcs (unlock n s) = pcs s"
  by (simp_all add: unlock_def)

lemma ctrl_simple_calls:
  fixes w :: "'m cworld"
  shows "ctrl (snd (ensure_hit n w)) = touch (shd (clock w)) n (ctrl w)"
    "ctrl (snd (Touch n w)) = touch (shd (clock w)) n (ctrl w)"
    "ctrl (snd (Pin n w)) = set_entry n (\<lambda>e. e\<lparr>le_Pinned := True\<rparr>) (ctrl w)"
    "ctrl (snd (Unpin n w)) = set_entry n (\<lambda>e. e\<lparr>le_Pinned := False\<rparr>) (ctrl w)"
    "ctrl (snd (InFlightInc n w)) = set_entry n (\<lambda>e. e\<lparr>le_InFlightCount := int64_of (le_InFlightCount e + 1)\<rparr>) (ctrl w)"
    "ctrl (snd (InFlightDec n w)) = set_entry n (\<lambda>e. if le_InFlightCount e > 0
       then e\<lparr>le_InFlightCount := le_InFlightCount e - 1\<rparr> else e) (ctrl w)"
    "ctrl (snd (on_ctrl (drop_entry n) w)) = drop_entry n (ctrl w)"
    "ctrl (snd (bind time_now (\<lambda>now. on_ctrl (add_entry now n est)) w)) = add_entry (shd (clock w)) n est (ctrl w)"
  by (simp_all add: ensure_hit_def Touch_def Pin_def Unpin_def InFlightInc_def InFlightDec_def bind_def time_now_def
      on_ctrl_def modify_def return_def touch_def)

lemma IsLoaded_touch [simp]: "IsLoaded m (touch now n c) = IsLoaded m c"
  by (simp add: touch_def IsLoaded_iff moveLRUToBack_def removeLRU_def Let_def)

lemma IsLoaded_set_entry [simp]: "IsLoaded m (set_entry n f c) = IsLoaded m c"
  by (simp add: IsLoaded_iff)

lemma IsLoaded_add [simp]: "IsLoaded m (add_entry now n est c) \<longleftrightarrow> m = n \<or> IsLoaded m c"
  by (auto simp: IsLoaded_iff add_entry_def dom_update)

lemma evict_turn_cases:
  assumes "evict_turn A n est s = (c, s')"
  obtains (fits) "c = Loading n est" "s' = s\<lparr>mu := None\<rparr>" "\<not> over_budget est (cc s)"
  | (error) e m where "c = Done (Inl e)" "s' = unlock n (s\<lparr>cw := (cw s)\<lparr>milvus := m\<rparr>, mu := None\<rparr>)"
  | (turn) candidate m where "c = Evicting n est" "evictable (cc s) candidate"
      "s' = s\<lparr>cw := (cw s)\<lparr>milvus := m, ctrl := drop_entry candidate (cc s)\<rparr>\<rparr>"
proof (cases "over_budget est (cc s)")
  case True
  show thesis
  proof (cases "List.find (evictable (cc s)) (lruOrder (cc s))")
    case None
    with True assms obtain e where "c = Done (Inl e)" "s' = unlock n (s\<lparr>mu := None\<rparr>)"
      by (simp add: evict_turn_def Let_def split: if_splits) blast+
    then show ?thesis by (intro error [of e "milvus (cw s)"]) simp_all
  next
    case (Some candidate)
    then have "lruOrder (cc s) \<noteq> []" and ev: "evictable (cc s) candidate" by (auto simp: find_Some_iff)
    moreover obtain r m where "ReleaseCollection A candidate (milvus (cw s)) = (r, m)" by fastforce
    ultimately have "(\<exists>e. c = Done (Inl e) \<and> s' = unlock n (s\<lparr>cw := (cw s)\<lparr>milvus := m\<rparr>, mu := None\<rparr>)) \<or>
        c = Evicting n est \<and> s' = s\<lparr>cw := (cw s)\<lparr>milvus := m, ctrl := drop_entry candidate (cc s)\<rparr>\<rparr>"
      using Some True assms by (cases r) (auto simp: evict_turn_def Let_def)
    then show ?thesis using error turn ev by blast
  qed
next
  case False
  with assms show ?thesis by (intro fits) (simp_all add: evict_turn_def Let_def)
qed

text \<open>The steps by their effect on the locks and on the map.\<close>

lemma step_pcs: "step_pc A t p s = Some (c, s') \<Longrightarrow> pcs s' = pcs s"
  by (cases "(A, t, p, s)" rule: step_pc.cases)
    (auto simp: region_Some evict_turn_def Let_def split: if_splits prod.splits sum.splits option.splits)

lemma step_locks:
  assumes "step_pc A t p s = Some (c, s')"
  shows "crit c = crit p \<and> locks s' = locks s \<or>
    (\<exists>n. crit p = None \<and> crit c = Some n \<and> n \<notin> locks s \<and> locks s' = insert n (locks s)) \<or>
    (\<exists>n. crit p = Some n \<and> crit c = None \<and> locks s' = locks s - {n})"
proof (cases "evicting p")
  case True
  then obtain n est where p: "p = Evicting n est" by (cases p) simp_all
  with assms have "evict_turn A n est s = (c, s')" by simp
  then show ?thesis by (cases rule: evict_turn_cases) (simp_all add: p)
next
  case False
  with assms show ?thesis
    by (cases "(A, t, p, s)" rule: step_pc.cases)
      (auto simp: region_Some Let_def split: if_splits prod.splits sum.splits)
qed

lemma step_mu:
  assumes "step_pc A t p s = Some (c, s')"
  shows "evicting c = evicting p \<and> mu s' = mu s \<or>
    mu s = None \<and> \<not> evicting p \<and> evicting c \<and> mu s' = Some t \<or>
    evicting p \<and> \<not> evicting c \<and> mu s' = None"
proof (cases "evicting p")
  case True
  then obtain n est where p: "p = Evicting n est" by (cases p) simp_all
  with assms have "evict_turn A n est s = (c, s')" by simp
  then show ?thesis by (cases rule: evict_turn_cases) (simp_all add: p)
next
  case False
  with assms show ?thesis
    by (cases "(A, t, p, s)" rule: step_pc.cases)
      (auto simp: region_Some Let_def split: if_splits prod.splits sum.splits)
qed

text \<open>The map grows only by the entry of a call that holds its load lock and saw the name missing.\<close>

lemma step_ctrl:
  assumes "step_pc A t p s = Some (c, s')"
  shows "(IsLoaded n (cc s') \<longrightarrow> IsLoaded n (cc s) \<or> crit p = Some n \<and> adding c = None) \<and>
    (adding c = Some n \<longrightarrow> adding p = Some n \<or> \<not> IsLoaded n (cc s) \<and> cc s' = cc s) \<and>
    (ctrl_ok (cc s) \<longrightarrow> (\<forall>k. adding p = Some k \<longrightarrow> \<not> IsLoaded k (cc s)) \<longrightarrow> ctrl_ok (cc s'))"
proof (cases "evicting p")
  case True
  then obtain m est where p: "p = Evicting m est" by (cases p) simp_all
  with assms have "evict_turn A m est s = (c, s')" by simp
  then show ?thesis by (cases rule: evict_turn_cases) (simp_all add: p ctrl_ok_drop_entry)
next
  case False
  with assms show ?thesis
    by (cases "(A, t, p, s)" rule: step_pc.cases)
      (auto simp: region_Some Let_def ctrl_simple_calls ctrl_ok_touch ctrl_ok_set_entry ctrl_ok_drop_entry
        ctrl_ok_add_entry split: if_splits prod.splits sum.splits)
qed


section \<open>The invariant of all interleavings\<close>

text \<open>A load lock is held by exactly one call; \<open>mu\<close> is held across steps only by a call that evicts; what a call
  is about to add is not in the map.\<close>

definition locks_ok :: "string set \<Rightarrow> pc list \<Rightarrow> bool" where
  "locks_ok L ps \<longleftrightarrow>
     (\<forall>i n. i < length ps \<longrightarrow> crit (ps ! i) = Some n \<longrightarrow> n \<in> L \<and> (\<forall>j < length ps. crit (ps ! j) = Some n \<longrightarrow> j = i)) \<and>
     (\<forall>n \<in> L. \<exists>i < length ps. crit (ps ! i) = Some n)"

definition mu_ok :: "nat option \<Rightarrow> pc list \<Rightarrow> bool" where
  "mu_ok m ps \<longleftrightarrow> (\<forall>i < length ps. evicting (ps ! i) \<longleftrightarrow> m = Some i) \<and> (\<forall>i. m = Some i \<longrightarrow> i < length ps)"

definition map_ok :: "LoadController \<Rightarrow> pc list \<Rightarrow> bool" where
  "map_ok c ps \<longleftrightarrow> ctrl_ok c \<and> (\<forall>i n. i < length ps \<longrightarrow> adding (ps ! i) = Some n \<longrightarrow> \<not> IsLoaded n c)"

definition conc_ok :: "('m, 'z) conc_scheme \<Rightarrow> bool" where
  "conc_ok s \<longleftrightarrow> locks_ok (locks s) (pcs s) \<and> mu_ok (mu s) (pcs s) \<and> map_ok (cc s) (pcs s)"

lemma adding_crit: "adding c = Some n \<Longrightarrow> crit c = Some n"
  by (cases c) simp_all

lemma starts_fresh: "starts c \<Longrightarrow> crit c = None \<and> adding c = None \<and> \<not> evicting c \<and> \<not> loading c"
  by (cases c) simp_all

lemma locks_okI:
  assumes "\<And>i n. i < length ps \<Longrightarrow> crit (ps ! i) = Some n \<Longrightarrow> n \<in> L"
    and "\<And>i j n. i < length ps \<Longrightarrow> j < length ps \<Longrightarrow> crit (ps ! i) = Some n \<Longrightarrow> crit (ps ! j) = Some n \<Longrightarrow> j = i"
    and "\<And>n. n \<in> L \<Longrightarrow> \<exists>i < length ps. crit (ps ! i) = Some n"
  shows "locks_ok L ps"
  using assms unfolding locks_ok_def by metis

lemma locks_okD:
  assumes "locks_ok L ps"
  shows "i < length ps \<Longrightarrow> crit (ps ! i) = Some n \<Longrightarrow> n \<in> L"
    and "i < length ps \<Longrightarrow> j < length ps \<Longrightarrow> crit (ps ! i) = Some n \<Longrightarrow> crit (ps ! j) = Some n \<Longrightarrow> j = i"
    and "n \<in> L \<Longrightarrow> \<exists>i < length ps. crit (ps ! i) = Some n"
  using assms unfolding locks_ok_def by simp_all

lemma locks_ok_update:
  assumes ok: "locks_ok L ps" and t: "t < length ps"
    and eff: "crit c = crit (ps ! t) \<and> L' = L \<or>
      (\<exists>n. crit (ps ! t) = None \<and> crit c = Some n \<and> n \<notin> L \<and> L' = insert n L) \<or>
      (\<exists>n. crit (ps ! t) = Some n \<and> crit c = None \<and> L' = L - {n})"
  shows "locks_ok L' (ps[t := c])"
  using eff
proof (elim disjE exE conjE)
  assume "crit c = crit (ps ! t)" "L' = L"
  moreover from this(1) have "crit (ps[t := c] ! i) = crit (ps ! i)" for i by (cases "i = t") (simp_all add: t)
  ultimately show ?thesis using ok by (simp add: locks_ok_def)
next
  fix n assume n: "crit (ps ! t) = None" "crit c = Some n" "n \<notin> L" "L' = insert n L"
  have new: "i = t \<and> k = n \<or> i \<noteq> t \<and> crit (ps ! i) = Some k \<and> k \<in> L"
    if "i < length ps" "crit (ps[t := c] ! i) = Some k" for i k
    using that n(2) t locks_okD(1) [OF ok] by (cases "i = t") auto
  show ?thesis
  proof (rule locks_okI)
    fix k assume "k \<in> L'"
    then consider "k = n" | i where "i < length ps" "crit (ps ! i) = Some k" using n(4) locks_okD(3) [OF ok] by auto
    then show "\<exists>i < length (ps[t := c]). crit (ps[t := c] ! i) = Some k"
    proof cases
      case 2
      with n(1) show ?thesis by (intro exI [of _ i]) (auto simp: nth_list_update t)
    qed (use n(2) t in auto)
  next
    fix i j k assume "i < length (ps[t := c])" "j < length (ps[t := c])" "crit (ps[t := c] ! i) = Some k" "crit (ps[t := c] ! j) = Some k"
    then show "j = i" using new [of i k] new [of j k] n(3) locks_okD(2) [OF ok, of i j k] by auto
  qed (use new n(4) in auto)
next
  fix n assume n: "crit (ps ! t) = Some n" "crit c = None" "L' = L - {n}"
  have new: "i \<noteq> t \<and> crit (ps ! i) = Some k \<and> k \<in> L \<and> k \<noteq> n"
    if "i < length ps" "crit (ps[t := c] ! i) = Some k" for i k
    using that n t locks_okD(1) [OF ok, of i k] locks_okD(2) [OF ok, of t i n] by (cases "i = t") auto
  show ?thesis
  proof (rule locks_okI)
    fix k assume "k \<in> L'"
    then obtain i where "i < length ps" "crit (ps ! i) = Some k" "k \<noteq> n" using n(3) locks_okD(3) [OF ok] by auto
    with n(1) show "\<exists>i < length (ps[t := c]). crit (ps[t := c] ! i) = Some k"
      by (intro exI [of _ i]) (auto simp: nth_list_update t)
  next
    fix i j k assume "i < length (ps[t := c])" "j < length (ps[t := c])" "crit (ps[t := c] ! i) = Some k" "crit (ps[t := c] ! j) = Some k"
    then show "j = i" using new [of i k] new [of j k] locks_okD(2) [OF ok, of i j k] by auto
  qed (use new n(3) in auto)
qed

lemma mu_ok_update:
  assumes "mu_ok m ps" and "t < length ps"
    and "evicting c = evicting (ps ! t) \<and> m' = m \<or>
      m = None \<and> \<not> evicting (ps ! t) \<and> evicting c \<and> m' = Some t \<or>
      evicting (ps ! t) \<and> \<not> evicting c \<and> m' = None"
  shows "mu_ok m' (ps[t := c])"
  using assms by (auto simp: mu_ok_def nth_list_update)

lemma conc_ok_step:
  assumes ok: "conc_ok s" and "step_thread A t s = Some s'"
  shows "conc_ok s'"
proof -
  let ?p = "pcs s ! t"
  from assms(2) obtain c s1 where t: "t < length (pcs s)" and st: "step_pc A t ?p s = Some (c, s1)"
    and s': "s' = s1\<lparr>pcs := (pcs s)[t := c]\<rparr>"
    by (auto simp: step_thread_def split: if_splits)
  have "locks_ok (locks s') (pcs s')" "mu_ok (mu s') (pcs s')"
    using ok t locks_ok_update [OF _ t step_locks [OF st]] mu_ok_update [OF _ t step_mu [OF st]]
    by (simp_all add: conc_ok_def s')
  moreover have "map_ok (cc s') (pcs s')"
  proof -
    have new: "\<not> IsLoaded n (cc s)" if "adding (pcs s ! i) = Some n" "i < length (pcs s)" for i n
      using ok that by (simp add: conc_ok_def map_ok_def)
    have "\<not> IsLoaded n (cc s1)" if "i < length (pcs s)" "adding ((pcs s)[t := c] ! i) = Some n" for i n
    proof (cases "i = t")
      case True
      with that t have "adding c = Some n" by simp
      with step_ctrl [OF st, of n] new t show ?thesis by auto
    next
      case False
      with that have a: "adding (pcs s ! i) = Some n" by simp
      then have "crit ?p \<noteq> Some n" using False ok that(1) t adding_crit [OF a] by (auto simp: conc_ok_def locks_ok_def)
      with step_ctrl [OF st, of n] new [OF a that(1)] show ?thesis by auto
    qed
    moreover have "ctrl_ok (cc s1)"
      using step_ctrl [OF st] new t ok by (simp add: conc_ok_def map_ok_def)
    ultimately show ?thesis by (simp add: map_ok_def s')
  qed
  ultimately show ?thesis by (simp add: conc_ok_def)
qed

lemma conc_ok_call:
  assumes "conc_ok s" and "t < length (pcs s)" and "pcs s ! t = Done r" and "starts c"
  shows "conc_ok (s\<lparr>pcs := (pcs s)[t := c]\<rparr>)"
proof -
  have "locks_ok (locks s) ((pcs s)[t := c])" "mu_ok (mu s) ((pcs s)[t := c])"
    using assms starts_fresh [OF assms(4)] locks_ok_update [of "locks s" "pcs s" t c "locks s"]
      mu_ok_update [of "mu s" "pcs s" t c "mu s"]
    by (simp_all add: conc_ok_def)
  moreover have "map_ok (cc s) ((pcs s)[t := c])"
    using assms(1,2) starts_fresh [OF assms(4)] by (auto simp: conc_ok_def map_ok_def nth_list_update split: if_splits)
  ultimately show ?thesis by (simp add: conc_ok_def)
qed

lemma conc_ok_run: "conc_run A s s' \<Longrightarrow> conc_ok s \<Longrightarrow> conc_ok s'"
  by (induction rule: conc_run.induct) (auto intro: conc_ok_step conc_ok_call, simp add: conc_ok_def)

text \<open>The controller as it starts: no call under way, no lock held.\<close>

definition quiet :: "'m conc \<Rightarrow> bool" where
  "quiet s \<longleftrightarrow> mu s = None \<and> locks s = {} \<and> (\<forall>c \<in> set (pcs s). \<exists>r. c = Done r)"

lemma conc_ok_quiet:
  assumes "quiet s" and "ctrl_ok (cc s)"
  shows "conc_ok s"
proof -
  have "crit (pcs s ! i) = None \<and> adding (pcs s ! i) = None \<and> \<not> evicting (pcs s ! i)" if "i < length (pcs s)" for i
    using assms(1) nth_mem [OF that] by (auto simp: quiet_def dest!: bspec)
  with assms show ?thesis by (simp add: conc_ok_def locks_ok_def mu_ok_def map_ok_def quiet_def)
qed


section \<open>How far the limit can be exceeded\<close>

lemma count_list_update:
  assumes "t < length xs"
  shows "length (filter P (xs[t := x])) + (if P (xs ! t) then 1 else 0) = length (filter P xs) + (if P x then 1 else 0)"
  using assms
proof (induction xs arbitrary: t)
  case (Cons y ys)
  then show ?case by (cases t) auto
qed simp

lemma length_update_le: "length (AList.update k v xs) \<le> Suc (length xs)"
  by (induction xs) (auto split: if_splits)

lemma entries_fields [simp]:
  "length (entries (touch now n c)) = length (entries c)" "maxLoaded (touch now n c) = maxLoaded c"
  "length (entries (set_entry n f c)) = length (entries c)" "maxLoaded (set_entry n f c) = maxLoaded c"
  "maxLoaded (add_entry now n est c) = maxLoaded c"
  by (simp_all add: touch_def set_entry_def moveLRUToBack_def removeLRU_def add_entry_def Let_def)

lemma length_drop_entry: "length (entries (drop_entry n c)) \<le> length (entries c)"
  by (simp add: drop_entry_def removeLRU_def)

lemma length_add_entry_le: "length (entries (add_entry now n est c)) \<le> Suc (length (entries c))"
  by (simp add: add_entry_def length_update_le)

lemmas step_sizes = length_drop_entry length_add_entry_le entries_fields

text \<open>A step that does not pass the check of the budget adds nothing to the entries and the loads under way.\<close>

lemma step_count:
  assumes "step_pc A t p s = Some (c, s')"
  shows "maxLoaded (cc s') = maxLoaded (cc s) \<and>
    (length (entries (cc s')) + of_bool (loading c) \<le> length (entries (cc s)) + of_bool (loading p) \<or>
     cc s' = cc s \<and> (maxLoaded (cc s) > 0 \<longrightarrow> int (length (entries (cc s))) < maxLoaded (cc s)))"
proof (cases "evicting p")
  case True
  then obtain m est where p: "p = Evicting m est" by (cases p) simp_all
  with assms have "evict_turn A m est s = (c, s')" by simp
  then show ?thesis by (cases rule: evict_turn_cases) (auto simp: p step_sizes over_budget_def)
next
  case False
  with assms show ?thesis
    by (cases "(A, t, p, s)" rule: step_pc.cases)
      (auto simp: region_Some Let_def ctrl_simple_calls step_sizes split: if_splits prod.splits sum.splits)
qed

definition bounded :: "('m, 'z) conc_scheme \<Rightarrow> bool" where
  "bounded s \<longleftrightarrow> (maxLoaded (cc s) > 0 \<longrightarrow>
     int (length (entries (cc s)) + length (filter loading (pcs s))) < maxLoaded (cc s) + int (length (pcs s)))"

lemma bounded_step:
  assumes b: "bounded s" and "step_thread A t s = Some s'"
  shows "bounded s'"
proof -
  let ?p = "pcs s ! t"
  from assms(2) obtain c s1 where t: "t < length (pcs s)" and st: "step_pc A t ?p s = Some (c, s1)"
    and s': "s' = s1\<lparr>pcs := (pcs s)[t := c]\<rparr>"
    by (auto simp: step_thread_def split: if_splits)
  have len: "length (filter loading ((pcs s)[t := c])) \<le> length (pcs s)"
    by (metis length_filter_le length_list_update)
  show ?thesis
    using b len step_count [OF st] count_list_update [OF t, of loading c]
    by (auto simp: bounded_def s' split: if_splits)
qed

lemma bounded_run: "conc_run A s s' \<Longrightarrow> bounded s \<Longrightarrow> bounded s' \<and> length (pcs s') = length (pcs s) \<and> maxLoaded (cc s') = maxLoaded (cc s)"
proof (induction rule: conc_run.induct)
  case (call v t r c)
  then show ?case
    using count_list_update [OF call.hyps(2), of loading c] starts_fresh [OF call.hyps(4)] by (auto simp: bounded_def)
next
  case (step v t v')
  then obtain c v1 where "step_pc A t (pcs v ! t) v = Some (c, v1)" "v' = v1\<lparr>pcs := (pcs v)[t := c]\<rparr>"
    by (auto simp: step_thread_def split: if_splits)
  with step bounded_step [OF _ step.hyps(2)] step_count show ?case by force
qed (auto simp: bounded_def)

section \<open>No call waits forever for a lock\<close>

lemma region_free: "mu s = None \<Longrightarrow> region f s \<noteq> None"
  by (simp add: region_def split: prod.splits)

text \<open>A call that waits for nothing but \<open>mu\<close> moves when \<open>mu\<close> is free.\<close>

lemma step_free:
  assumes "mu s = None" and "\<And>r. p \<noteq> Done r" and "\<And>n est. p \<noteq> AwaitLock n est"
  shows "step_pc A t p s \<noteq> None"
  using assms region_free [OF assms(1)]
  by (cases "(A, t, p, s)" rule: step_pc.cases) (auto simp: Let_def split: prod.splits sum.splits)

lemma step_thread_Some:
  "t < length (pcs s) \<Longrightarrow> step_pc A t (pcs s ! t) s \<noteq> None \<Longrightarrow> \<exists>s'. step_thread A t s = Some s'"
  by (auto simp: step_thread_def)

lemma conc_not_stuck:
  assumes ok: "conc_ok s" and t: "t < length (pcs s)" "\<And>r. pcs s ! t \<noteq> Done r"
  shows "\<exists>t' s'. step_thread A t' s = Some s'"
proof (cases "mu s")
  case (Some i)
  then have i: "i < length (pcs s)" "evicting (pcs s ! i)" using ok by (auto simp: conc_ok_def mu_ok_def)
  then have "step_pc A i (pcs s ! i) s \<noteq> None" by (cases "pcs s ! i") simp_all
  with i(1) show ?thesis by (blast dest: step_thread_Some)
next
  case None
  show ?thesis
  proof (cases "\<exists>n est. pcs s ! t = AwaitLock n est")
    case False
    then have "step_pc A t (pcs s ! t) s \<noteq> None" using t(2) by (intro step_free [OF None]) auto
    with t(1) show ?thesis by (blast dest: step_thread_Some)
  next
    case True
    then obtain n est where p: "pcs s ! t = AwaitLock n est" by blast
    show ?thesis
    proof (cases "n \<in> locks s")
      case True
      with ok obtain i where i: "i < length (pcs s)" "crit (pcs s ! i) = Some n"
        by (auto simp: conc_ok_def dest: locks_okD(3))
      then have "step_pc A i (pcs s ! i) s \<noteq> None" by (intro step_free [OF None]) auto
      with i(1) show ?thesis by (blast dest: step_thread_Some)
    next
      case False
      with p t show ?thesis by (intro exI [of _ t]) (simp add: step_thread_def)
    qed
  qed
qed


section \<open>Calls return\<close>

text \<open>How far a call is from its end, and the releases a sweep has left.\<close>

fun stage :: "pc \<Rightarrow> nat" where
  "stage (Done r) = 0" | "stage (Look1 n est) = 6" | "stage (AwaitLock n est) = 5" | "stage (Look2 n est) = 4"
| "stage (Evicting n est) = 3" | "stage (Loading n est) = 2" | "stage (Store n est) = 1"
| "stage (RelLook n) = 3" | "stage (RelCall n) = 2" | "stage (RelDrop n) = 1"
| "stage SweepLook = 2" | "stage (SweepCall ns) = 1" | "stage (SweepDrop n ns) = 1"
| "stage (TouchCall n) = 1" | "stage (PinCall n) = 1" | "stage (UnpinCall n) = 1"
| "stage (IncCall n) = 1" | "stage (DecCall n) = 1"

fun sweep_left :: "pc \<Rightarrow> nat" where
  "sweep_left (SweepCall ns) = 2 * length ns" | "sweep_left (SweepDrop n ns) = 2 * length ns + 1" | "sweep_left _ = 0"

lemma find_removes:
  assumes "List.find p xs = Some x"
  shows "length (remove1 x xs) < length xs"
proof -
  from assms have "x \<in> set xs" by (auto simp: find_Some_iff)
  then show ?thesis by (cases "xs = []") (simp_all add: length_remove1)
qed

lemma step_progress:
  assumes "step_pc A t p s = Some (c, s')"
  shows "stage c < stage p \<or> stage c = stage p \<and> sweep_left c < sweep_left p \<or>
    stage c = stage p \<and> sweep_left c = sweep_left p \<and> length (lruOrder (cc s')) < length (lruOrder (cc s))"
proof (cases "evicting p")
  case True
  then obtain n est where p: "p = Evicting n est" by (cases p) simp_all
  with assms have "evict_turn A n est s = (c, s')" by simp
  then show ?thesis
    by (cases "List.find (evictable (cc s)) (lruOrder (cc s))")
      (auto simp: p evict_turn_def Let_def drop_entry_def removeLRU_def unlock_def find_removes
        split: if_splits prod.splits sum.splits)
next
  case False
  with assms show ?thesis
    by (cases "(A, t, p, s)" rule: step_pc.cases)
      (auto simp: region_Some Let_def split: if_splits prod.splits sum.splits)
qed

lemma sum_list_update_nat:
  fixes f :: "'a \<Rightarrow> nat"
  assumes "t < length xs"
  shows "sum_list (map f (xs[t := x])) + f (xs ! t) = sum_list (map f xs) + f x"
  using assms
proof (induction xs arbitrary: t)
  case (Cons y ys)
  then show ?case by (cases t) auto
qed simp

definition conc_measure :: "(('m conc) \<times> ('m conc)) set" where
  "conc_measure = measures [\<lambda>s. sum_list (map stage (pcs s)), \<lambda>s. sum_list (map sweep_left (pcs s)),
     \<lambda>s. length (lruOrder (cc s))]"

lemma step_decreases:
  assumes "step_thread A t s = Some s'"
  shows "(s', s) \<in> conc_measure"
proof -
  from assms obtain c s1 where t: "t < length (pcs s)" and st: "step_pc A t (pcs s ! t) s = Some (c, s1)"
    and s': "s' = s1\<lparr>pcs := (pcs s)[t := c]\<rparr>"
    by (auto simp: step_thread_def split: if_splits)
  show ?thesis
    using step_progress [OF st] sum_list_update_nat [OF t, of stage c] sum_list_update_nat [OF t, of sweep_left c]
    by (auto simp: conc_measure_def s')
qed


section \<open>The calls of VB\_Controller are runs without interruption\<close>

inductive solo :: "('m, 'x) LoadReleaser_scheme \<Rightarrow> nat \<Rightarrow> 'm conc \<Rightarrow> 'm conc \<Rightarrow> bool" for A t s where
  solo_start: "solo A t s s"
| solo_turn: "solo A t s v \<Longrightarrow> step_thread A t v = Some v' \<Longrightarrow> solo A t s v'"

lemma solo_step:
  assumes "solo A t s v" and "t < length (pcs v)"
    and "map_option (\<lambda>(c, v1). v1\<lparr>pcs := (pcs v)[t := c]\<rparr>) (step_pc A t (pcs v ! t) v) = Some v'"
  shows "solo A t s v'"
proof (rule solo_turn [OF assms(1)])
  show "step_thread A t v = Some v'" using assms(2,3) by (simp add: step_thread_def)
qed

definition evicted :: "nat \<Rightarrow> string \<Rightarrow> rat \<Rightarrow> unit result \<times> 'm cworld \<Rightarrow> 'm conc \<Rightarrow> 'm conc" where
  "evicted t n est = (\<lambda>(r, w) v. (case r of
     Inl e \<Rightarrow> v\<lparr>cw := w, mu := None, locks := locks v - {n}, pcs := (pcs v)[t := Done (Inl e)]\<rparr>
   | Inr _ \<Rightarrow> v\<lparr>cw := w, mu := None, pcs := (pcs v)[t := Loading n est]\<rparr>))"

lemma evict_run:
  assumes "solo A t s v" and "t < length (pcs v)" and "pcs v ! t = Evicting n est" and "cw v = w"
  shows "solo A t s (evicted t n est (evictIfNeededLocked A est w) v)"
  using assms
proof (induction A est w arbitrary: v rule: evictIfNeededLocked.induct)
  case (1 A est w)
  note run = solo_step [OF 1(2,3)]
  show ?case
  proof (cases "over_budget est (ctrl w)")
    case False
    then show ?thesis using 1(4,5)
      by (intro run) (simp add: evict_turn_def evictIfNeededLocked.simps evicted_def)
  next
    case over: True
    show ?thesis
    proof (cases "List.find (evictable (ctrl w)) (lruOrder (ctrl w))")
      case None
      then show ?thesis using over 1(4,5)
        by (intro run) (simp add: evict_turn_def evictIfNeededLocked.simps evicted_def unlock_def Let_def)
    next
      case (Some candidate)
      then have lru: "lruOrder (ctrl w) \<noteq> []" by auto
      obtain r m where rel: "ReleaseCollection A candidate (milvus w) = (r, m)" by fastforce
      show ?thesis
      proof (cases r)
        case (Inl e)
        with over Some lru rel 1(4,5) show ?thesis
          by (intro run) (simp add: evict_turn_def evictIfNeededLocked.simps [of A est w] evicted_def unlock_def Let_def)
      next
        case (Inr u)
        let ?w = "w\<lparr>milvus := m, ctrl := drop_entry candidate (ctrl w)\<rparr>"
        have "solo A t s (v\<lparr>cw := ?w, pcs := (pcs v)[t := Evicting n est]\<rparr>)"
          using over Some lru rel Inr 1(4,5) by (intro run) (simp add: evict_turn_def Let_def)
        moreover have "(pcs v)[t := Evicting n est] = pcs v" using 1(4) by (metis list_update_id)
        ultimately have "solo A t s (v\<lparr>cw := ?w\<rparr>)" by simp
        from 1(1) [OF over lru Some rel [symmetric] Inr this] 1(3,4)
        have "solo A t s (evicted t n est (evictIfNeededLocked A est ?w) (v\<lparr>cw := ?w\<rparr>))" by simp
        then show ?thesis using over Some lru rel Inr
          by (simp add: evictIfNeededLocked.simps [of A est w] evicted_def split: prod.splits sum.splits)
      qed
    qed
  qed
qed

lemma load_run:
  assumes run: "solo A t s v" and t: "t < length (pcs v)" "pcs v ! t = Loading n est" "mu v = None"
    and res: "bind (map_err (\<lambda>e. Errorf [Lit ''load collection '', ArgS n, Lit '': '', ArgW e])
        (on_milvus (LoadCollection A n))) (\<lambda>_. bind time_now (\<lambda>now. on_ctrl (add_entry now n est))) (cw v) = (r, w')"
  shows "solo A t s (v\<lparr>cw := w', locks := locks v - {n}, pcs := (pcs v)[t := Done r]\<rparr>)"
proof -
  obtain r2 m2 where l: "LoadCollection A n (milvus (cw v)) = (r2, m2)" by fastforce
  show ?thesis
  proof (cases r2)
    case (Inl x)
    with l res have "r = Inl (Errorf [Lit ''load collection '', ArgS n, Lit '': '', ArgW x])" "w' = (cw v)\<lparr>milvus := m2\<rparr>"
      by (simp_all add: bind_def map_err_def on_milvus_def)
    then show ?thesis using t Inl l by (intro solo_step [OF run]) (simp_all add: unlock_def)
  next
    case (Inr u2)
    let ?v = "v\<lparr>cw := (cw v)\<lparr>milvus := m2\<rparr>, pcs := (pcs v)[t := Store n est]\<rparr>"
    have st: "solo A t s ?v" using t Inr l by (intro solo_step [OF run]) simp_all
    have "bind time_now (\<lambda>now. on_ctrl (add_entry now n est)) ((cw v)\<lparr>milvus := m2\<rparr>) = (r, w')"
      using l res Inr by (simp add: bind_def map_err_def on_milvus_def)
    then show ?thesis using t by (intro solo_step [OF st]) (simp_all add: region_def unlock_def)
  qed
qed

lemma ensure_run:
  fixes s :: "'m conc"
  assumes t: "t < length (pcs s)" "pcs s ! t = Look1 n est" and free: "mu s = None" "n \<notin> locks s"
    and res: "EnsureLoaded A n est (cw s) = (r, w')"
  shows "solo A t s (s\<lparr>cw := w', pcs := (pcs s)[t := Done r]\<rparr>)"
proof (cases "IsLoaded n (cc s)")
  case True
  with assms show ?thesis
    by (intro solo_step [OF solo_start]) (simp_all add: EnsureLoaded_def region_def)
next
  case False
  have "solo A t s (s\<lparr>pcs := (pcs s)[t := AwaitLock n est]\<rparr>)"
    using t free False by (intro solo_step [OF solo_start]) simp_all
  then have "solo A t s (s\<lparr>locks := insert n (locks s), pcs := (pcs s)[t := Look2 n est]\<rparr>)"
    by (rule solo_step) (use t free in simp_all)
  then have "solo A t s (s\<lparr>mu := Some t, locks := insert n (locks s), pcs := (pcs s)[t := Evicting n est]\<rparr>)"
    by (rule solo_step) (use t free False in simp_all)
  from evict_run [OF this, of n est "cw s"] t
  have ev: "solo A t s (evicted t n est (evictIfNeededLocked A est (cw s))
      (s\<lparr>mu := Some t, locks := insert n (locks s), pcs := (pcs s)[t := Evicting n est]\<rparr>))" by simp
  obtain r1 w1 where e: "evictIfNeededLocked A est (cw s) = (r1, w1)" by fastforce
  have [simp]: "s\<lparr>cw := a, mu := None, pcs := b\<rparr> = s\<lparr>cw := a, pcs := b\<rparr>" for a b
    using free(1) by (simp add: conc.equality)
  show ?thesis
  proof (cases r1)
    case (Inl x)
    with e res False have "r = Inl x" "w' = w1" by (auto simp: EnsureLoaded_def EnsureLoaded_locked_def bind_def)
    with ev e Inl free show ?thesis by (simp add: evicted_def)
  next
    case (Inr u)
    let ?v = "s\<lparr>cw := w1, locks := insert n (locks s), pcs := (pcs s)[t := Loading n est]\<rparr>"
    have "evicted t n est (Inr u, w1) (s\<lparr>mu := Some t, locks := insert n (locks s), pcs := (pcs s)[t := Evicting n est]\<rparr>) = ?v"
      by (rule conc.equality) (simp_all add: evicted_def free(1))
    with ev e Inr have ld: "solo A t s ?v" by simp
    from load_run [OF ld, of n est r w'] t free res False e Inr show ?thesis
      by (simp add: EnsureLoaded_def EnsureLoaded_locked_def bind_def)
  qed
qed

lemma release_run:
  assumes t: "t < length (pcs s)" "pcs s ! t = RelLook n" and free: "mu s = None"
    and res: "Release A n (cw s) = (r, w')"
  shows "solo A t s (s\<lparr>cw := w', pcs := (pcs s)[t := Done r]\<rparr>)"
proof (cases "IsLoaded n (cc s)")
  case False
  with assms show ?thesis by (intro solo_step [OF solo_start]) (simp_all add: Release_def)
next
  case True
  let ?v = "s\<lparr>pcs := (pcs s)[t := RelCall n]\<rparr>"
  have v: "solo A t s ?v" using t free True by (intro solo_step [OF solo_start]) simp_all
  obtain r1 m where rel: "ReleaseCollection A n (milvus (cw s)) = (r1, m)" by fastforce
  show ?thesis
  proof (cases r1)
    case (Inl e)
    with res rel True have "r = Inl e" "w' = (cw s)\<lparr>milvus := m\<rparr>" by (auto simp: Release_def bind_def on_milvus_def)
    then show ?thesis using t rel Inl by (intro solo_step [OF v]) simp_all
  next
    case (Inr u)
    let ?v2 = "s\<lparr>cw := (cw s)\<lparr>milvus := m\<rparr>, pcs := (pcs s)[t := RelDrop n]\<rparr>"
    have v2: "solo A t s ?v2" using t rel Inr by (intro solo_step [OF v]) simp_all
    have "on_ctrl (drop_entry n) ((cw s)\<lparr>milvus := m\<rparr>) = (r, w')"
      using res rel True Inr by (simp add: Release_def bind_def on_milvus_def)
    then show ?thesis using t free by (intro solo_step [OF v2]) (simp_all add: region_def)
  qed
qed

lemma sweep_loop_run:
  fixes v :: "'m conc"
  assumes "solo A t s v" and "t < length (pcs v)" and "pcs v ! t = SweepCall ns" and "mu v = None"
    and "for_each (\<lambda>name. bind (ignore (on_milvus (ReleaseCollection A name))) (\<lambda>_. on_ctrl (drop_entry name))) ns (cw v) = (r, w')"
  shows "solo A t s (v\<lparr>cw := w', pcs := (pcs v)[t := Done r]\<rparr>)"
  using assms
proof (induction ns arbitrary: v)
  case Nil
  then have "r = Inr ()" "w' = cw v" by (simp_all add: return_def)
  then show ?case using Nil(2,3) by (intro solo_step [OF Nil(1)]) simp_all
next
  case (Cons n ns)
  let ?m = "snd (ReleaseCollection A n (milvus (cw v)))"
  let ?v1 = "v\<lparr>cw := (cw v)\<lparr>milvus := ?m\<rparr>, pcs := (pcs v)[t := SweepDrop n ns]\<rparr>"
  let ?w = "(cw v)\<lparr>milvus := ?m, ctrl := drop_entry n (cc v)\<rparr>"
  let ?v2 = "v\<lparr>cw := ?w, pcs := (pcs v)[t := SweepCall ns]\<rparr>"
  have v1: "solo A t s ?v1" using Cons.prems(2,3) by (intro solo_step [OF Cons.prems(1)]) simp_all
  have v2: "solo A t s ?v2" using Cons.prems(2,4)
    by (intro solo_step [OF v1]) (simp_all add: region_def on_ctrl_def modify_def)
  have turn: "bind (ignore (on_milvus (ReleaseCollection A n))) (\<lambda>_. on_ctrl (drop_entry n)) (cw v) = (Inr (), ?w)"
    by (simp add: bind_def ignore_def on_milvus_def on_ctrl_def modify_def split: prod.split)
  have "for_each (\<lambda>name. bind (ignore (on_milvus (ReleaseCollection A name))) (\<lambda>_. on_ctrl (drop_entry name))) ns ?w = (r, w')"
    using Cons.prems(5) by (simp add: bind_def [of "bind _ _"] turn)
  then show ?case using Cons.IH [OF v2] Cons.prems(2,4) by simp
qed

lemma sweep_run:
  assumes t: "t < length (pcs s)" "pcs s ! t = SweepLook" and free: "mu s = None"
    and res: "RunTTLSweep A (cw s) = (r, w')"
  shows "solo A t s (s\<lparr>cw := w', pcs := (pcs s)[t := Done r]\<rparr>)"
proof -
  let ?ns = "map fst (filter (\<lambda>(n, e). expired (shd (clock (cw s))) (cc s) e) (ranged (cc s)))"
  let ?v = "s\<lparr>cw := (cw s)\<lparr>clock := stl (clock (cw s))\<rparr>, pcs := (pcs s)[t := SweepCall ?ns]\<rparr>"
  have v: "solo A t s ?v" using t free by (intro solo_step [OF solo_start]) (simp_all add: Let_def)
  have "for_each (\<lambda>name. bind (ignore (on_milvus (ReleaseCollection A name))) (\<lambda>_. on_ctrl (drop_entry name))) ?ns
      ((cw s)\<lparr>clock := stl (clock (cw s))\<rparr>) = (r, w')"
    using res by (simp add: RunTTLSweep_def bind_def [of time_now] bind_def [of "gets _"] time_now_def gets_def)
  with sweep_loop_run [OF v, of ?ns r w'] t free show ?thesis by simp
qed


section \<open>What removes an entry\<close>

text \<open>The steps that drop the entry of \<open>m\<close> for \<open>Release\<close> and for the sweep, and the calls that change its pin and
  its count of queries.\<close>

fun removes :: "string \<Rightarrow> pc \<Rightarrow> bool" where
  "removes m (RelDrop n) \<longleftrightarrow> n = m" | "removes m (SweepDrop n rest) \<longleftrightarrow> n = m" | "removes m _ = False"

fun adjusts :: "string \<Rightarrow> pc \<Rightarrow> bool" where
  "adjusts m (PinCall n) \<longleftrightarrow> n = m" | "adjusts m (UnpinCall n) \<longleftrightarrow> n = m"
| "adjusts m (IncCall n) \<longleftrightarrow> n = m" | "adjusts m (DecCall n) \<longleftrightarrow> n = m" | "adjusts m _ = False"

definition same_use :: "LoadEntry \<Rightarrow> LoadEntry \<Rightarrow> bool" where
  "same_use e e' \<longleftrightarrow> le_Pinned e' = le_Pinned e \<and> le_InFlightCount e' = le_InFlightCount e"

lemma step_entry:
  assumes st: "step_pc A t p s = Some (c, s')" and e: "entry (cc s) m = Some e" and pr: "protected e"
    and new: "\<forall>k. adding p = Some k \<longrightarrow> \<not> IsLoaded k (cc s)"
  shows "entry (cc s') m = None \<longleftrightarrow> removes m p"
    and "\<not> removes m p \<and> \<not> adjusts m p \<longrightarrow> (\<exists>e'. entry (cc s') m = Some e' \<and> same_use e e')"
proof -
  have "if removes m p then entry (cc s') m = None
    else \<exists>e'. entry (cc s') m = Some e' \<and> (\<not> adjusts m p \<longrightarrow> same_use e e')"
  proof (cases "evicting p")
    case True
    then obtain n est where p: "p = Evicting n est" by (cases p) simp_all
    with st have "evict_turn A n est s = (c, s')" by simp
    then show ?thesis
    proof (cases rule: evict_turn_cases)
      case (turn candidate m')
      then have "candidate \<noteq> m" using e pr by (auto simp: evictable_def protected_def)
      with turn e show ?thesis by (simp add: p entry_drop_entry same_use_def)
    qed (use e in \<open>simp_all add: p same_use_def\<close>)
  next
    case False
    have ld: "IsLoaded m (cc s)" using e by (simp add: IsLoaded_def)
    from False st e ld new show ?thesis
      by (cases "(A, t, p, s)" rule: step_pc.cases)
        (auto simp: region_Some Let_def ctrl_simple_calls entry_touch entry_set_entry entry_drop_entry entry_add_entry
          same_use_def split: if_splits prod.splits sum.splits)
  qed
  then show "entry (cc s') m = None \<longleftrightarrow> removes m p"
    "\<not> removes m p \<and> \<not> adjusts m p \<longrightarrow> (\<exists>e'. entry (cc s') m = Some e' \<and> same_use e e')"
    by (auto split: if_splits)
qed

text \<open>The list of a sweep.\<close>

lemma sweep_list:
  assumes "step_pc A t SweepLook s = Some (SweepCall ns, s')" and "ctrl_ok (cc s)" and "entry (cc s) m = Some e"
  shows "m \<in> set ns \<longleftrightarrow> expired (shd (clock (cw s))) (cc s) e"
proof -
  from assms(1) have "ns = expired_names (shd (clock (cw s))) (cc s)"
    by (simp add: Let_def expired_names_def split: if_splits)
  moreover have "(m, e) \<in> set (entries (cc s))" using assms(3) by (simp add: entry_def map_of_SomeD)
  ultimately show ?thesis using assms(2) by (simp add: expired_names_iff ctrl_ok_def)
qed

text \<open>The sweep on the way to one of its names.\<close>

lemma sweep_prefix:
  assumes "conc_run A s v" and "mu v = None" and "t < length (pcs v)" and "pcs v ! t = SweepCall (pre @ rest)"
    and "m \<notin> set pre"
  shows "\<exists>v'. conc_run A s v' \<and> mu v' = None \<and> pcs v' = (pcs v)[t := SweepCall rest] \<and> entry (cc v') m = entry (cc v) m"
  using assms
proof (induction pre arbitrary: v)
  case Nil
  then have "(pcs v)[t := SweepCall rest] = pcs v" by (metis append_Nil list_update_id)
  with Nil show ?case by (intro exI [of _ v]) simp
next
  case (Cons n pre)
  let ?w = "(cw v)\<lparr>milvus := snd (ReleaseCollection A n (milvus (cw v)))\<rparr>"
  let ?v1 = "v\<lparr>cw := ?w, pcs := (pcs v)[t := SweepDrop n (pre @ rest)]\<rparr>"
  let ?v2 = "v\<lparr>cw := ?w\<lparr>ctrl := drop_entry n (cc v)\<rparr>, pcs := (pcs v)[t := SweepCall (pre @ rest)]\<rparr>"
  have "step_thread A t v = Some ?v1" using Cons.prems(3,4) by (simp add: step_thread_def)
  with Cons.prems(1) have v1: "conc_run A s ?v1" by (rule conc_run.step)
  have "step_thread A t ?v1 = Some ?v2"
    using Cons.prems(2,3) by (simp add: step_thread_def region_def on_ctrl_def modify_def)
  with v1 have "conc_run A s ?v2" by (rule conc_run.step)
  from Cons.IH [OF this] Cons.prems(2,3,5) show ?case by (auto simp: entry_drop_entry)
qed

section \<open>Schedules\<close>

datatype event = Call nat pc | Step nat

fun run_events :: "('m, 'x) LoadReleaser_scheme \<Rightarrow> event list \<Rightarrow> 'm conc \<Rightarrow> 'm conc option" where
  "run_events A [] s = Some s"
| "run_events A (Call t c # es) s =
     (if t < length (pcs s) \<and> (case pcs s ! t of Done r \<Rightarrow> True | _ \<Rightarrow> False) \<and> starts c
      then run_events A es (s\<lparr>pcs := (pcs s)[t := c]\<rparr>) else None)"
| "run_events A (Step t # es) s = (case step_thread A t s of None \<Rightarrow> None | Some s' \<Rightarrow> run_events A es s')"

lemma run_events_append:
  "run_events A (es @ es') s = (case run_events A es s of None \<Rightarrow> None | Some v \<Rightarrow> run_events A es' v)"
  by (induction A es s rule: run_events.induct) (auto split: option.splits)

lemma run_events_conc_run: "conc_run A s v \<Longrightarrow> run_events A es v = Some s' \<Longrightarrow> conc_run A s s'"
proof (induction es arbitrary: v)
  case (Cons e es)
  show ?case
  proof (cases e)
    case (Call t c)
    with Cons.prems(2) obtain r where c: "t < length (pcs v)" "pcs v ! t = Done r" "starts c"
      by (auto split: if_splits pc.splits)
    with Call Cons.prems(2) have "run_events A es (v\<lparr>pcs := (pcs v)[t := c]\<rparr>) = Some s'" by simp
    from Cons.IH [OF conc_run.call [OF Cons.prems(1) c] this] show ?thesis .
  next
    case (Step t)
    with Cons.prems(2) obtain v1 where "step_thread A t v = Some v1" "run_events A es v1 = Some s'"
      by (auto split: option.splits)
    then show ?thesis using Cons.IH [OF conc_run.step [OF Cons.prems(1)]] by blast
  qed
qed simp

section \<open>Properties\<close>

text \<open>C16: Under every interleaving of the calls, whatever Milvus does between the steps, the map of the
  controller and its LRU list name the same collections, each once; and of the calls of \<open>EnsureLoaded\<close> at most
  one at a time is past the load lock of a collection. (\<open>Release\<close> and the sweep take no load lock and may work
  on the same collection meanwhile.)\<close>

theorem interleaving_keeps_bookkeeping:
  assumes "quiet s" and "ctrl_ok (cc s)" and "conc_run A s s'"
  shows "ctrl_ok (cc s') \<and>
    (\<forall>i j n. i < length (pcs s') \<longrightarrow> j < length (pcs s') \<longrightarrow> crit (pcs s' ! i) = Some n \<longrightarrow>
       crit (pcs s' ! j) = Some n \<longrightarrow> i = j)"
proof -
  have ok: "conc_ok s'" by (rule conc_ok_run [OF assms(3) conc_ok_quiet [OF assms(1,2)]])
  then show ?thesis using locks_okD(2) by (auto simp: conc_ok_def map_ok_def)
qed

text \<open>C17: Every call returns, whatever the schedule: from any state of an interleaving, the steps of the calls
  under way end, and they end only when every call has returned; no call waits forever for a lock.\<close>

theorem interleaved_calls_return:
  assumes "quiet s" and "ctrl_ok (cc s)" and "conc_run A s s'"
  shows "\<not> (\<exists>f. f 0 = s' \<and> (\<forall>i. \<exists>t. step_thread A t (f i) = Some (f (Suc i)))) \<and>
    (\<forall>v. (\<lambda>a b. \<exists>t. step_thread A t a = Some b)\<^sup>*\<^sup>* s' v \<longrightarrow> (\<nexists>t b. step_thread A t v = Some b) \<longrightarrow>
       (\<forall>c \<in> set (pcs v). \<exists>r. c = Done r))"
proof (intro conjI allI impI ballI)
  have wf: "wf (conc_measure :: ('a conc \<times> 'a conc) set)" by (simp add: conc_measure_def)
  show "\<not> (\<exists>f. f 0 = s' \<and> (\<forall>i. \<exists>t. step_thread A t (f i) = Some (f (Suc i))))"
    using wf step_decreases unfolding wf_iff_no_infinite_down_chain by blast
next
  fix v c assume run: "(\<lambda>a b. \<exists>t. step_thread A t a = Some b)\<^sup>*\<^sup>* s' v" and stop: "\<nexists>t b. step_thread A t v = Some b"
    and c: "c \<in> set (pcs v)"
  from run have "conc_run A s v" by induction (auto intro: assms(3) conc_run.step)
  then have "conc_ok v" by (rule conc_ok_run [OF _ conc_ok_quiet [OF assms(1,2)]])
  then show "\<exists>r. c = Done r" using conc_not_stuck [of v] stop c by (metis in_set_conv_nth)
qed

text \<open>C26: Calls that run at the same time can load more collections than the limit, since the check and the
  new entry are in different regions of the lock; the excess is less than the number of the calls.\<close>

theorem interleaving_overshoot_bounded:
  assumes "quiet s" and "0 < maxLoaded (cc s)" and "int (length (entries (cc s))) \<le> maxLoaded (cc s)"
    and "pcs s \<noteq> []" and "conc_run A s s'"
  shows "int (length (entries (cc s'))) < maxLoaded (cc s) + int (length (pcs s))"
proof -
  have "filter loading (pcs s) = []" using assms(1) by (auto simp: quiet_def filter_empty_conv)
  then have "bounded s" using assms(3,4) by (cases "pcs s") (auto simp: bounded_def)
  from bounded_run [OF assms(5) this] assms(2) show ?thesis by (auto simp: bounded_def)
qed

text \<open>C25: A call that is not interrupted does what VB_Controller says: when the mutex is free (and, for
  \<open>EnsureLoaded\<close>, the load lock of the name), the steps of one goroutine alone lead from the start of a call of
  \<open>EnsureLoaded\<close>, \<open>Release\<close> or \<open>RunTTLSweep\<close> to exactly the controller, the Milvus and the answer of the
  sequential operation, with the locks as they were.\<close>

theorem uninterrupted_calls:
  assumes "t < length (pcs s)" and "mu s = None"
  shows "(pcs s ! t = Look1 n est \<and> n \<notin> locks s \<longrightarrow> (case EnsureLoaded A n est (cw s) of (r, w') \<Rightarrow>
      solo A t s (s\<lparr>cw := w', pcs := (pcs s)[t := Done r]\<rparr>))) \<and>
    (pcs s ! t = RelLook n \<longrightarrow> (case Release A n (cw s) of (r, w') \<Rightarrow>
      solo A t s (s\<lparr>cw := w', pcs := (pcs s)[t := Done r]\<rparr>))) \<and>
    (pcs s ! t = SweepLook \<longrightarrow> (case RunTTLSweep A (cw s) of (r, w') \<Rightarrow>
      solo A t s (s\<lparr>cw := w', pcs := (pcs s)[t := Done r]\<rparr>)))"
  by (intro conjI impI; clarsimp split: prod.split)
    (intro ensure_run [OF assms(1) _ assms(2)] release_run [OF assms(1) _ assms(2)] sweep_run [OF assms(1) _ assms(2)];
      assumption)+

text \<open>C24: Whatever the schedule, the only steps that remove a collection that is pinned or has queries in flight
  are the last steps of \<open>Release\<close> and of a sweep, and these remove it always: neither looks at the entry again.
  Eviction never takes it; no step but a call that pins, unpins or counts a query of it changes its pin and its
  count; and a sweep that starts now does not list it.\<close>

theorem pinned_and_busy_survive:
  assumes "quiet s" and "ctrl_ok (cc s)" and "conc_run A s v" and "step_thread A t v = Some v'"
    and "entry (cc v) m = Some e" and "le_Pinned e \<or> le_InFlightCount e > 0"
  shows "(entry (cc v') m = None \<longleftrightarrow> removes m (pcs v ! t)) \<and>
    (\<not> removes m (pcs v ! t) \<and> \<not> adjusts m (pcs v ! t) \<longrightarrow> (\<exists>e'. entry (cc v') m = Some e' \<and> same_use e e')) \<and>
    (\<forall>ns. pcs v ! t = SweepLook \<and> pcs v' ! t = SweepCall ns \<longrightarrow> m \<notin> set ns)"
proof -
  have ok: "conc_ok v" by (rule conc_ok_run [OF assms(3) conc_ok_quiet [OF assms(1,2)]])
  from assms(4) obtain c v1 where t: "t < length (pcs v)" and st: "step_pc A t (pcs v ! t) v = Some (c, v1)"
    and v': "v' = v1\<lparr>pcs := (pcs v)[t := c]\<rparr>"
    by (auto simp: step_thread_def split: if_splits)
  have pr: "protected e" using assms(6) by (simp add: protected_def)
  have new: "\<forall>k. adding (pcs v ! t) = Some k \<longrightarrow> \<not> IsLoaded k (cc v)" using ok t by (simp add: conc_ok_def map_ok_def)
  have "m \<notin> set ns" if "pcs v ! t = SweepLook" "pcs v' ! t = SweepCall ns" for ns
    using that st t v' ok assms(5) pr sweep_list [of A t v ns v1 m e]
    by (auto simp: conc_ok_def map_ok_def expired_def protected_def)
  with step_entry [OF st assms(5) pr new] show ?thesis by (simp add: v')
qed

text \<open>C27: A sweep can release a collection that has a query in flight: whenever an expired collection is loaded,
  whatever Milvus does, there is a run in which a query for it (\<open>EnsureLoaded\<close>, then \<open>InFlightInc\<close>) completes
  between the two halves of a sweep, and then the sweep has called \<open>ReleaseCollection\<close> for it and its next step
  removes the entry, although the count of its queries is 1.\<close>

theorem sweep_releases_busy_collection:
  assumes "quiet s" and "ctrl_ok (cc s)" and "t < length (pcs s)" and "u < length (pcs s)" and "t \<noteq> u"
    and "entry (cc s) m = Some e" and "expired (shd (clock (cw s))) (cc s) e"
  shows "\<exists>v v' e' m0. conc_run A s v \<and> entry (cc v) m = Some e' \<and> le_InFlightCount e' = 1 \<and>
    pcs v ! u = Done (Inr ()) \<and> milvus (cw v) = snd (ReleaseCollection A m m0) \<and>
    step_thread A t v = Some v' \<and> entry (cc v') m = None"
proof -
  from assms(1,3,4) obtain rt ru where idle: "pcs s ! t = Done rt" "pcs s ! u = Done ru" and free: "mu s = None"
    unfolding quiet_def using nth_mem by blast
  let ?now = "shd (clock (cw s))"
  define ns where "ns = map fst (filter (\<lambda>(n, e). expired ?now (cc s) e) (ranged (cc s)))"
  let ?w1 = "(cw s)\<lparr>clock := stl (clock (cw s))\<rparr>"
  let ?s0 = "s\<lparr>pcs := (pcs s)[t := SweepLook]\<rparr>"
  let ?s1 = "s\<lparr>cw := ?w1, pcs := (pcs s)[t := SweepCall ns]\<rparr>"
  have "conc_run A s ?s0" by (rule conc_run.call [OF conc_run.start assms(3) idle(1)]) simp
  moreover have st: "step_pc A t SweepLook ?s0 = Some (SweepCall ns, ?s0\<lparr>cw := ?w1\<rparr>)"
    using free by (simp add: Let_def ns_def)
  then have "step_thread A t ?s0 = Some ?s1" using assms(3) by (simp add: step_thread_def)
  ultimately have run1: "conc_run A s ?s1" by (rule conc_run.step)
  have "m \<in> set ns" using sweep_list [OF st, of m e] assms(2,6,7) by simp
  then obtain pre post where ns: "ns = pre @ m # post" "m \<notin> set pre" by (meson split_list_first)
  have ld: "IsLoaded m (cc s)" using assms(6) by (simp add: IsLoaded_def)
  let ?s2 = "?s1\<lparr>pcs := (pcs ?s1)[u := Look1 m 0]\<rparr>"
  let ?w3 = "snd (ensure_hit m ?w1)"
  let ?s3 = "?s1\<lparr>cw := ?w3, pcs := (pcs ?s1)[u := Done (Inr ())]\<rparr>"
  have "conc_run A s ?s2" by (rule conc_run.call [OF run1, of u ru]) (use assms(4,5) idle in simp_all)
  moreover have "fst (ensure_hit m w) = Inr ()" for w :: "'a cworld"
    by (simp add: ensure_hit_def bind_def time_now_def on_ctrl_def modify_def)
  then have "step_thread A u ?s2 = Some ?s3"
    using assms(4) free ld by (simp add: step_thread_def region_def case_prod_beta)
  ultimately have run3: "conc_run A s ?s3" by (rule conc_run.step)
  let ?s4 = "?s3\<lparr>pcs := (pcs ?s3)[u := IncCall m]\<rparr>"
  let ?w5 = "snd (InFlightInc m ?w3)"
  let ?s5 = "?s3\<lparr>cw := ?w5, pcs := (pcs ?s3)[u := Done (Inr ())]\<rparr>"
  have "conc_run A s ?s4" by (rule conc_run.call [OF run3, of u "Inr ()"]) (use assms(4) in simp_all)
  moreover have "step_thread A u ?s4 = Some ?s5"
    using assms(4) free by (simp add: step_thread_def region_def case_prod_beta InFlightInc_def on_ctrl_def modify_def)
  ultimately have run5: "conc_run A s ?s5" by (rule conc_run.step)
  have "le_InFlightCount e = 0" using assms(7) by (simp add: expired_def)
  then obtain e5 where e5: "entry (ctrl ?w5) m = Some e5" "le_InFlightCount e5 = 1"
    using assms(6) by (simp add: ctrl_simple_calls entry_set_entry entry_touch int64_of_def)
  from sweep_prefix [OF run5, of t pre "m # post" m] assms(3,5) free ns obtain v where
    v: "conc_run A s v" "mu v = None" "pcs v = (pcs ?s5)[t := SweepCall (m # post)]" "entry (cc v) m = Some e5"
    using e5(1) by auto
  let ?w6 = "(cw v)\<lparr>milvus := snd (ReleaseCollection A m (milvus (cw v)))\<rparr>"
  let ?v6 = "v\<lparr>cw := ?w6, pcs := (pcs v)[t := SweepDrop m post]\<rparr>"
  have "step_thread A t v = Some ?v6" using assms(3) v(3) by (simp add: step_thread_def)
  with v(1) have run6: "conc_run A s ?v6" by (rule conc_run.step)
  obtain v7 where v7: "step_thread A t ?v6 = Some v7" "entry (cc v7) m = None"
    using assms(3) v(2,3) by (simp add: step_thread_def region_def on_ctrl_def modify_def entry_drop_entry)
  have "pcs ?v6 ! u = Done (Inr ())" using v(3) assms(4,5) by simp
  moreover have "entry (cc ?v6) m = Some e5" "milvus (cw ?v6) = snd (ReleaseCollection A m (milvus (cw v)))"
    using v(4) by simp_all
  ultimately show ?thesis using run6 e5(2) v7 by blast
qed

definition conc_of :: "'m cworld \<Rightarrow> nat \<Rightarrow> 'm conc" where
  "conc_of w n = \<lparr>cw = w, mu = None, locks = {}, pcs = replicate n (Done (Inr ()))\<rparr>"

lemma quiet_conc_of: "quiet (conc_of w n)"
  by (auto simp: quiet_def conc_of_def)

lemmas step_eval = conc_of_def step_thread_def sample_world_def sample_ctrl_def idle_world_def entry_of_def
  list_milvus_def IsLoaded_def entry_def evict_turn_def over_budget_def ranged_def sort_key_const usedMBLocked_def fadd_def fl_numeral
  evictable_def drop_entry_def removeLRU_def region_def ensure_hit_def touch_def set_entry_def moveLRUToBack_def
  bind_def map_err_def on_milvus_def time_now_def on_ctrl_def modify_def add_entry_def unlock_def Let_def
  expired_def time_Sub_def InFlightInc_def int64_of_def

definition tight_world :: "string list cworld" where
  "tight_world = \<lparr>ctrl = sample_ctrl\<lparr>maxLoaded := 1, entries := [], lruOrder := []\<rparr>, milvus = [], clock = sconst 100\<rparr>"

theorem interleaving_keeps_bookkeeping_witness:
  "\<exists>s'. run_events list_milvus [Call 0 SweepLook, Step 0, Call 1 (Look1 ''a'' 40), Step 1, Step 0, Step 0]
     (conc_of idle_world 2) = Some s' \<and> ctrl_ok (cc s')"
proof -
  obtain s' where s': "run_events list_milvus [Call 0 SweepLook, Step 0, Call 1 (Look1 ''a'' 40), Step 1, Step 0, Step 0]
     (conc_of idle_world 2) = Some s'"
    by (simp add: step_eval numeral_2_eq_2)
  have "ctrl_ok (cc (conc_of idle_world 2))"
    by (simp add: conc_of_def idle_world_def sample_ctrl_def ctrl_ok_def entry_of_def)
  from interleaving_keeps_bookkeeping [OF quiet_conc_of this run_events_conc_run [OF conc_run.start s']] s'
  show ?thesis by blast
qed

theorem interleaved_calls_return_witness:
  "\<exists>v s'. run_events list_milvus [Call 0 (Look1 ''c'' 30), Step 0, Step 0, Call 1 (Look1 ''c'' 30), Step 1]
     (conc_of sample_world 2) = Some v \<and> run_events list_milvus [Step 0, Step 0, Step 0, Step 0, Step 0, Step 1, Step 1] v = Some s' \<and>
     (\<forall>c \<in> set (pcs s'). \<exists>r. c = Done r)"
proof -
  let ?es = "[Call 0 (Look1 ''c'' 30), Step 0, Step 0, Call 1 (Look1 ''c'' 30), Step 1]"
  obtain v where v: "run_events list_milvus ?es (conc_of sample_world 2) = Some v"
    by (simp add: step_eval numeral_2_eq_2)
  let ?more = "[Step 0, Step 0, Step 0, Step 0, Step 0, Step 1, Step 1]"
  obtain s' where s': "run_events list_milvus (?es @ ?more) (conc_of sample_world 2) = Some s'" "length (pcs s') = 2"
    "step_thread list_milvus 0 s' = None" "step_thread list_milvus 1 s' = None"
    by (simp add: step_eval numeral_2_eq_2)
  have "ctrl_ok (cc (conc_of sample_world 2))" using sample_ok by (simp add: conc_of_def)
  note ret = interleaved_calls_return [OF quiet_conc_of this run_events_conc_run [OF conc_run.start s'(1)]]
  have "step_thread list_milvus t s' = None" for t
    using s'(2-4) by (cases "t < 2") (auto simp: less_2_cases_iff step_thread_def)
  with ret have "\<forall>c \<in> set (pcs s'). \<exists>r. c = Done r" by auto
  moreover have "run_events list_milvus ?more v = Some s'" 
    using s'(1) unfolding run_events_append v by (simp only: option.case)
  ultimately show ?thesis using v by blast
qed

theorem interleaving_overshoot_bounded_witness:
  "\<exists>s'. conc_run list_milvus (conc_of tight_world 2) s' \<and> maxLoaded (cc s') = 1 \<and> length (entries (cc s')) = 2 \<and>
     int (length (entries (cc s'))) < 1 + 2"
proof -
  let ?es = "[Call 0 (Look1 ''c'' 30), Step 0, Step 0, Step 0, Step 0, Call 1 (Look1 ''d'' 30), Step 1, Step 1, Step 1,
    Step 1, Step 0, Step 0, Step 1, Step 1]"
  obtain s' where s': "run_events list_milvus ?es (conc_of tight_world 2) = Some s'" "maxLoaded (cc s') = 1"
    "length (entries (cc s')) = 2"
    by (simp add: step_eval numeral_2_eq_2 tight_world_def)
  note run = run_events_conc_run [OF conc_run.start s'(1)]
  have "int (length (entries (cc s'))) < maxLoaded (cc (conc_of tight_world 2)) + int (length (pcs (conc_of tight_world 2)))"
    by (rule interleaving_overshoot_bounded [OF quiet_conc_of _ _ _ run])
      (simp_all add: conc_of_def tight_world_def sample_ctrl_def)
  with run s' show ?thesis by (intro exI [of _ s']) (simp add: conc_of_def tight_world_def)
qed

theorem uninterrupted_calls_witness:
  "case EnsureLoaded list_milvus ''c'' 30 sample_world of (r, w') \<Rightarrow>
     solo list_milvus 0 ((conc_of sample_world 1)\<lparr>pcs := [Look1 ''c'' 30]\<rparr>)
       ((conc_of sample_world 1)\<lparr>cw := w', pcs := [Done r]\<rparr>)"
  using uninterrupted_calls [of 0 "(conc_of sample_world 1)\<lparr>pcs := [Look1 ''c'' 30]\<rparr>" "''c''" 30 list_milvus]
  by (simp add: conc_of_def split: prod.splits)

lemma idle_ok: "ctrl_ok (cc (conc_of idle_world 2))"
  by (simp add: conc_of_def idle_world_def sample_ctrl_def ctrl_ok_def entry_of_def)

theorem sweep_releases_busy_collection_witness:
  "\<exists>v v' e'. conc_run list_milvus (conc_of idle_world 2) v \<and> entry (cc v) ''a'' = Some e' \<and> le_InFlightCount e' = 1 \<and>
     ''a'' \<notin> set (milvus (cw v)) \<and> step_thread list_milvus 0 v = Some v' \<and> entry (cc v') ''a'' = None"
proof -
  have "entry (cc (conc_of idle_world 2)) ''a'' = Some (snd (entry_of ''a'' 40 False))"
    "expired (shd (clock (cw (conc_of idle_world 2)))) (cc (conc_of idle_world 2)) (snd (entry_of ''a'' 40 False))"
    by (simp_all add: conc_of_def idle_world_def sample_ctrl_def entry_of_def entry_def expired_def time_Sub_def)
  from sweep_releases_busy_collection [OF quiet_conc_of idle_ok _ _ _ this, of 0 1 list_milvus] show ?thesis
    by (auto simp: conc_of_def list_milvus_def)
qed

theorem pinned_and_busy_survive_witness:
  "\<exists>v v' e. run_events list_milvus [Call 0 SweepLook, Step 0, Call 1 (IncCall ''a''), Step 1, Step 0]
       (conc_of idle_world 2) = Some v \<and> entry (cc v) ''a'' = Some e \<and> le_InFlightCount e > 0 \<and>
     step_thread list_milvus 0 v = Some v' \<and> entry (cc v') ''a'' = None"
proof -
  obtain v v' e where v: "run_events list_milvus [Call 0 SweepLook, Step 0, Call 1 (IncCall ''a''), Step 1, Step 0]
      (conc_of idle_world 2) = Some v" "entry (cc v) ''a'' = Some e" "le_InFlightCount e > 0"
      "step_thread list_milvus 0 v = Some v'" "removes ''a'' (pcs v ! 0)"
    by (simp add: step_eval numeral_2_eq_2)
  from pinned_and_busy_survive [OF quiet_conc_of idle_ok run_events_conc_run [OF conc_run.start v(1)] v(4,2)] v
  show ?thesis by blast
qed

end
