(* ===== verification/VB_Bridge.thy ===== *)
theory VB_Bridge
  imports MN_VectorAPI VB_Adapter
begin

text \<open>
  The Milvus bridge (milvus/bridge): a small HTTP server in front of the Milvus client
  (internal/api/types.go, internal/service/service.go, internal/httpserver/handler.go). The client
  is the one of the adapter, with the task of an index build that the bridge waits for. The
  multiplexer is \<open>net/http.ServeMux\<close> on paths without percent-encoding: paths are cleaned, a subtree
  without its slash is redirected, a path with another method is refused with 405; the
  body written for \<open>HEAD\<close> is dropped below it. \<open>None\<close> is a panic.
\<close>

section \<open>Requests and responses (api/types.go)\<close>

record br_SearchResult =
  bsr_ID :: string
  bsr_Score :: float32
  bsr_Metadata :: bytes

record br_CreateCollectionRequest =
  bcc_Name :: string
  bcc_Dim :: int
  bcc_Metric :: string

record br_CreateIndexRequest =
  bci_Name :: string
  bci_VectorCount :: int
  bci_Metric :: string

record br_ModifyVectorsRequest =
  bmv_Name :: string
  bmv_IDs :: "string list"
  bmv_Vectors :: "float32 list list"
  bmv_MetadataJSON :: "bytes list"
  bmv_Timestamps :: "int list"

record br_SearchRequest =
  bse_Name :: string
  bse_Vector :: "float32 list"
  bse_TopK :: int
  bse_Nprobe :: int
  bse_Filter :: string
  bse_Metric :: string

text \<open>A \<open>[]byte\<close> is text in base64, which the codec reads.\<close>

record bridge_codec = json_codec +
  jc_Base64 :: "string \<Rightarrow> goerr + bytes"

fun dec_bytes :: "bridge_codec \<Rightarrow> bytes dec" where
  "dec_bytes J (Jval raw JNull) old = Inr []"
| "dec_bytes J (Jval raw (JStr s)) old = jc_Base64 J s"
| "dec_bytes J (Jval raw v) old = Inl (jc_TypeError J ''[]uint8'' v)"

definition CreateCollection_fields :: "json_codec \<Rightarrow> br_CreateCollectionRequest fields" where
  "CreateCollection_fields J =
     [field ''name'' bcc_Name (\<lambda>x. bcc_Name_update (\<lambda>_. x)) (dec_string J),
      field ''dim'' bcc_Dim (\<lambda>x. bcc_Dim_update (\<lambda>_. x)) (dec_int J),
      field ''metric'' bcc_Metric (\<lambda>x. bcc_Metric_update (\<lambda>_. x)) (dec_string J)]"

definition br_CreateIndex_fields :: "json_codec \<Rightarrow> br_CreateIndexRequest fields" where
  "br_CreateIndex_fields J =
     [field ''name'' bci_Name (\<lambda>x. bci_Name_update (\<lambda>_. x)) (dec_string J),
      field ''vectorCount'' bci_VectorCount (\<lambda>x. bci_VectorCount_update (\<lambda>_. x)) (dec_int J),
      field ''metric'' bci_Metric (\<lambda>x. bci_Metric_update (\<lambda>_. x)) (dec_string J)]"

definition ModifyVectors_fields :: "bridge_codec \<Rightarrow> br_ModifyVectorsRequest fields" where
  "ModifyVectors_fields J = (let K = json_codec.truncate J in
     [field ''name'' bmv_Name (\<lambda>x. bmv_Name_update (\<lambda>_. x)) (dec_string K),
      field ''ids'' bmv_IDs (\<lambda>x. bmv_IDs_update (\<lambda>_. x)) (dec_slice K ''[]string'' (dec_string K) []),
      field ''vectors'' bmv_Vectors (\<lambda>x. bmv_Vectors_update (\<lambda>_. x))
        (dec_slice K ''[][]float32'' (dec_slice K ''[]float32'' (dec_float32 K) 0) []),
      field ''metadataJSON'' bmv_MetadataJSON (\<lambda>x. bmv_MetadataJSON_update (\<lambda>_. x))
        (dec_slice K ''[][]uint8'' (dec_bytes J) []),
      field ''timestamps'' bmv_Timestamps (\<lambda>x. bmv_Timestamps_update (\<lambda>_. x))
        (dec_slice K ''[]int64'' (dec_int K) 0)])"

definition Search_fields :: "json_codec \<Rightarrow> br_SearchRequest fields" where
  "Search_fields J =
     [field ''name'' bse_Name (\<lambda>x. bse_Name_update (\<lambda>_. x)) (dec_string J),
      field ''vector'' bse_Vector (\<lambda>x. bse_Vector_update (\<lambda>_. x)) (dec_slice J ''[]float32'' (dec_float32 J) 0),
      field ''topK'' bse_TopK (\<lambda>x. bse_TopK_update (\<lambda>_. x)) (dec_int J),
      field ''nprobe'' bse_Nprobe (\<lambda>x. bse_Nprobe_update (\<lambda>_. x)) (dec_int J),
      field ''filter'' bse_Filter (\<lambda>x. bse_Filter_update (\<lambda>_. x)) (dec_string J),
      field ''metric'' bse_Metric (\<lambda>x. bse_Metric_update (\<lambda>_. x)) (dec_string J)]"

definition enc_search_result :: "br_SearchResult \<Rightarrow> jout" where
  "enc_search_result r = OObj ([(''id'', OStr (bsr_ID r)), (''score'', OFloat32 (bsr_Score r))] @
     (if bsr_Metadata r = [] then [] else [(''metadata'', OBytes (bsr_Metadata r))]))"

text \<open>The results are appended to a nil slice: without any they are written as \<open>null\<close>.\<close>

definition enc_search_response :: "br_SearchResult list \<Rightarrow> jout" where
  "enc_search_response rs = OObj [(''results'', if rs = [] then ONull else OArr (map enc_search_result rs))]"

definition enc_has_collection :: "bool \<Rightarrow> jout" where
  "enc_has_collection b = OObj [(''exists'', OBool b)]"

definition enc_error_response :: "string \<Rightarrow> jout" where
  "enc_error_response m = OObj [(''error'', OStr m)]"

section \<open>The service\<close>

record ('s, 'i) BridgeClient = "('s, 'i) Client" +
  cl_AwaitIndex :: "string \<Rightarrow> ('s, unit) op"

definition br_primaryKeyMaxLength :: int where
  "br_primaryKeyMaxLength = 1024"

definition br_CreateCollection :: "('s, 'i) BridgeClient \<Rightarrow> br_CreateCollectionRequest \<Rightarrow> ('s, unit) op" where
  "br_CreateCollection C req = cl_CreateCollection C
     \<lparr>co_Name = bcc_Name req,
      co_Schema = [(new_field ''id'' FieldTypeVarChar)\<lparr>f_MaxLength := br_primaryKeyMaxLength, f_PrimaryKey := True\<rparr>,
        (new_field ''vector'' FieldTypeFloatVector)\<lparr>f_Dim := bcc_Dim req\<rparr>,
        new_field ''metadata'' FieldTypeJSON, new_field ''created_at'' FieldTypeInt64],
      co_ShardNum = 1, co_Mmap = True\<rparr>"

definition br_DropCollection :: "('s, 'i) BridgeClient \<Rightarrow> string \<Rightarrow> ('s, unit) op" where
  "br_DropCollection C name = cl_DropCollection C name"

definition br_HasCollection :: "('s, 'i) BridgeClient \<Rightarrow> string \<Rightarrow> ('s, bool) op" where
  "br_HasCollection C name = cl_HasCollection C name"

text \<open>The square root of a negative count is no number; its conversion is the least integer on amd64.\<close>

definition br_computeNlist :: "int \<Rightarrow> int" where
  "br_computeNlist vectorCount =
     (let nlist = (if vectorCount < 0 then - (2 ^ 63)
                   else int_of_float (fmul (fsqrt (float64 vectorCount)) 4));
          nlist = (if nlist < 1024 then 1024 else nlist)
      in if nlist > 65536 then 65536 else nlist)"

definition br_metricTypeFromString :: "string \<Rightarrow> MetricType" where
  "br_metricTypeFromString metric = (if metric = ''L2'' then L2 else if metric = ''COSINE'' then COSINE else COSINE)"

definition br_CreateIndex :: "('s, 'i) BridgeClient \<Rightarrow> br_CreateIndexRequest \<Rightarrow> ('s, unit) op" where
  "br_CreateIndex C req =
     bind (cl_CreateIndex C \<lparr>io_Name = bci_Name req, io_Field = ''vector'',
         io_Index = IvfSQ8Index (br_metricTypeFromString (bci_Metric req)) (br_computeNlist (bci_VectorCount req)),
         io_Mmap = True\<rparr>) (\<lambda>_.
     cl_AwaitIndex C (bci_Name req))"

definition br_LoadCollection :: "('s, 'i) BridgeClient \<Rightarrow> string \<Rightarrow> ('s, unit) op" where
  "br_LoadCollection C name = bind (cl_LoadCollection C name) (\<lambda>_. cl_AwaitLoad C name)"

definition br_ReleaseCollection :: "('s, 'i) BridgeClient \<Rightarrow> string \<Rightarrow> ('s, unit) op" where
  "br_ReleaseCollection C name = cl_ReleaseCollection C name"

text \<open>\<open>len(req.Vectors[0])\<close> panics without a vector.\<close>

definition br_columns :: "br_ModifyVectorsRequest \<Rightarrow> InsertOption option" where
  "br_columns req = (if bmv_Vectors req = [] then None
     else Some \<lparr>no_Name = bmv_Name req, no_IDs = bmv_IDs req, no_Dim = int (length (hd (bmv_Vectors req))),
       no_Vectors = bmv_Vectors req, no_Metadata = bmv_MetadataJSON req, no_CreatedAt = bmv_Timestamps req\<rparr>)"

definition br_Insert :: "('s, 'i) BridgeClient \<Rightarrow> br_ModifyVectorsRequest \<Rightarrow> ('s, unit) pop" where
  "br_Insert C req s = map_option (\<lambda>opt. cl_Insert C opt s) (br_columns req)"

definition br_Upsert :: "('s, 'i) BridgeClient \<Rightarrow> br_ModifyVectorsRequest \<Rightarrow> ('s, unit) pop" where
  "br_Upsert C req s = map_option (\<lambda>opt. cl_Upsert C opt s) (br_columns req)"

definition br_Delete :: "('s, 'i) BridgeClient \<Rightarrow> br_ModifyVectorsRequest \<Rightarrow> ('s, unit) op" where
  "br_Delete C req =
     bind (cl_Delete C (bmv_Name req) ''id'' (bmv_IDs req)) (\<lambda>_.
     bind (cl_Flush C (bmv_Name req)) (\<lambda>_. cl_AwaitFlush C (bmv_Name req)))"

definition br_search_item :: "ResultSet \<Rightarrow> nat \<Rightarrow> br_SearchResult result option" where
  "br_search_item rs i =
     (case col_GetAsString (rs_IDs rs) i of
        Inl e \<Rightarrow> Some (Inl e)
      | Inr rid \<Rightarrow>
          if i \<ge> length (rs_Scores rs) then None
          else (case rs_GetColumn rs ''metadata'' of
              None \<Rightarrow> Some (Inr \<lparr>bsr_ID = rid, bsr_Score = rs_Scores rs ! i, bsr_Metadata = []\<rparr>)
            | Some metaColumn \<Rightarrow> (case col_Get metaColumn i of
                Inl e \<Rightarrow> Some (Inl e)
              | Inr v \<Rightarrow> Some (Inr \<lparr>bsr_ID = rid, bsr_Score = rs_Scores rs ! i, bsr_Metadata = bytes_of v\<rparr>))))"

fun br_search_sets :: "ResultSet list \<Rightarrow> br_SearchResult list \<Rightarrow> br_SearchResult list result option" where
  "br_search_sets [] out = Some (Inr out)"
| "br_search_sets (rs # rss) out =
     (case collect (br_search_item rs) [0..<nat (rs_ResultCount rs)] out of
        None \<Rightarrow> None
      | Some (Inl e) \<Rightarrow> Some (Inl e)
      | Some (Inr out') \<Rightarrow> br_search_sets rss out')"

definition br_Search :: "('s, 'i) BridgeClient \<Rightarrow> br_SearchRequest \<Rightarrow> ('s, br_SearchResult list) pop" where
  "br_Search C req s =
     (case cl_Search C \<lparr>so_Name = bse_Name req, so_TopK = bse_TopK req, so_Vector = bse_Vector req,
         so_ANNSField = ''vector'', so_OutputFields = [''metadata''], so_AnnParam = IvfAnnParam (bse_Nprobe req),
         so_Filter = (if bse_Filter req \<noteq> [] then Some (bse_Filter req) else None)\<rparr> s of
        (Inl e, s') \<Rightarrow> Some (Inl e, s')
      | (Inr results, s') \<Rightarrow> map_option (\<lambda>r. (r, s')) (br_search_sets results []))"

section \<open>The handler\<close>

definition br_writeJSON :: "bridge_codec \<Rightarrow> int \<Rightarrow> jout \<Rightarrow> http_response" where
  "br_writeJSON J status body = \<lparr>rs_Status = status, rs_Header = [(''Content-Type'', ''application/json'')],
     rs_Body = (case jc_Marshal J body of Inr data \<Rightarrow> data @ [char_of (10 :: nat)] | Inl _ \<Rightarrow> [])\<rparr>"

definition br_writeError :: "bridge_codec \<Rightarrow> int \<Rightarrow> goerr \<Rightarrow> http_response" where
  "br_writeError J status err = br_writeJSON J status (enc_error_response (Error err))"

text \<open>\<open>http.Error\<close>\<close>

definition http_Error :: "string \<Rightarrow> int \<Rightarrow> http_response" where
  "http_Error text code = \<lparr>rs_Status = code, rs_Header = [(''Content-Type'', ''text/plain; charset=utf-8''),
     (''X-Content-Type-Options'', ''nosniff'')], rs_Body = text @ [char_of (10 :: nat)]\<rparr>"

definition http_NotFound :: http_response where
  "http_NotFound = http_Error ''404 page not found'' 404"

text \<open>\<open>run\<close>: the error of a call is a bad gateway.\<close>

definition br_run :: "bridge_codec \<Rightarrow> ('s, unit) pop \<Rightarrow> 's \<Rightarrow> (http_response \<times> 's) option" where
  "br_run J fn s = (case fn s of
     None \<Rightarrow> None
   | Some (Inl e, s') \<Rightarrow> Some (br_writeError J 502 e, s')
   | Some (Inr _, s') \<Rightarrow> Some (\<lparr>rs_Status = 204, rs_Header = [], rs_Body = []\<rparr>, s'))"

definition br_decodeJSON :: "bridge_codec \<Rightarrow> string \<Rightarrow> 'r fields \<Rightarrow> 'r \<Rightarrow> http_request \<Rightarrow> http_response + 'r" where
  "br_decodeJSON J ty fs zero r =
     (case jc_Decode J (hr_Body r) of
        Inl e \<Rightarrow> Inl (br_writeError J 400 e)
      | Inr v \<Rightarrow> (case dec_struct (json_codec.truncate J) ty fs v zero of
          Inl e \<Rightarrow> Inl (br_writeError J 400 e) | Inr req \<Rightarrow> Inr req))"

definition collections_prefix :: string where
  "collections_prefix = ''/v1/collections/''"

definition collectionNameFromPath :: "string \<Rightarrow> string \<Rightarrow> http_response + string" where
  "collectionNameFromPath path suffix =
     (case CutPrefix collections_prefix path of
        None \<Rightarrow> Inl (http_Error ''Not Found'' 404)
      | Some name \<Rightarrow>
          if name = [] then Inl (http_Error ''Not Found'' 404)
          else (let name = (if suffix \<noteq> [] then TrimSuffix (''/'' @ suffix) name else name)
                in if name = [] then Inl (http_Error ''Not Found'' 404) else Inr name))"

definition collectionNameAndActionFromPath :: "string \<Rightarrow> http_response + string \<times> string" where
  "collectionNameAndActionFromPath path =
     (case CutPrefix collections_prefix path of
        None \<Rightarrow> Inl (http_Error ''Not Found'' 404)
      | Some rest \<Rightarrow>
          if rest = [] then Inl (http_Error ''Not Found'' 404)
          else (let parts = Split (CHR ''/'') rest
                in if length parts \<noteq> 2 \<or> parts ! 0 = [] \<or> parts ! 1 = [] then Inl (http_Error ''Not Found'' 404)
                   else Inr (parts ! 0, parts ! 1)))"

type_synonym 's br_handler = "http_request \<Rightarrow> 's \<Rightarrow> (http_response \<times> 's) option"

definition lift_op :: "('s, 'a) op \<Rightarrow> ('s, 'a) pop" where
  "lift_op f s = Some (f s)"

definition with_json :: "bridge_codec \<Rightarrow> string \<Rightarrow> 'r fields \<Rightarrow> 'r \<Rightarrow> ('r \<Rightarrow> 's br_handler) \<Rightarrow> 's br_handler" where
  "with_json J ty fs zero h r s = (case br_decodeJSON J ty fs zero r of
     Inl resp \<Rightarrow> Some (resp, s) | Inr req \<Rightarrow> h req r s)"

definition zero_modify :: br_ModifyVectorsRequest where
  "zero_modify = \<lparr>bmv_Name = [], bmv_IDs = [], bmv_Vectors = [], bmv_MetadataJSON = [], bmv_Timestamps = []\<rparr>"

definition modify_handler ::
  "bridge_codec \<Rightarrow> (br_ModifyVectorsRequest \<Rightarrow> ('s, unit) pop) \<Rightarrow> 's br_handler" where
  "modify_handler J call = with_json J ''ModifyVectorsRequest'' (ModifyVectors_fields J) zero_modify
     (\<lambda>req r. br_run J (call req))"

definition drop_handler :: "bridge_codec \<Rightarrow> ('s, 'i) BridgeClient \<Rightarrow> 's br_handler" where
  "drop_handler J C r s = (case collectionNameFromPath (hr_Path r) [] of
     Inl resp \<Rightarrow> Some (resp, s) | Inr name \<Rightarrow> br_run J (lift_op (br_DropCollection C name)) s)"

definition has_handler :: "bridge_codec \<Rightarrow> ('s, 'i) BridgeClient \<Rightarrow> 's br_handler" where
  "has_handler J C r s = (case collectionNameFromPath (hr_Path r) [] of
     Inl resp \<Rightarrow> Some (resp, s)
   | Inr name \<Rightarrow> Some (case br_HasCollection C name s of
       (Inl e, s') \<Rightarrow> (br_writeError J 502 e, s')
     | (Inr b, s') \<Rightarrow> (br_writeJSON J 200 (enc_has_collection b), s')))"

definition action_handler :: "bridge_codec \<Rightarrow> ('s, 'i) BridgeClient \<Rightarrow> 's br_handler" where
  "action_handler J C r s = (case collectionNameAndActionFromPath (hr_Path r) of
     Inl resp \<Rightarrow> Some (resp, s)
   | Inr (name, suffix) \<Rightarrow>
       if suffix = ''load'' then br_run J (lift_op (br_LoadCollection C name)) s
       else if suffix = ''release'' then br_run J (lift_op (br_ReleaseCollection C name)) s
       else Some (http_NotFound, s))"

definition search_handler :: "bridge_codec \<Rightarrow> ('s, 'i) BridgeClient \<Rightarrow> 's br_handler" where
  "search_handler J C = with_json J ''SearchRequest'' (Search_fields (json_codec.truncate J))
     \<lparr>bse_Name = [], bse_Vector = [], bse_TopK = 0, bse_Nprobe = 0, bse_Filter = [], bse_Metric = []\<rparr>
     (\<lambda>req r s. case br_Search C req s of
        None \<Rightarrow> None
      | Some (Inl e, s') \<Rightarrow> Some (br_writeError J 502 e, s')
      | Some (Inr results, s') \<Rightarrow> Some (br_writeJSON J 200 (enc_search_response results), s'))"

text \<open>The patterns of \<open>NewHandler\<close>; one that ends in a slash stands for its subtree.\<close>

definition bridge_patterns :: "bridge_codec \<Rightarrow> ('s, 'i) BridgeClient \<Rightarrow> (string \<times> string \<times> 's br_handler) list" where
  "bridge_patterns J C =
     [(''POST'', ''/v1/collections'', with_json J ''CreateCollectionRequest''
         (CreateCollection_fields (json_codec.truncate J)) \<lparr>bcc_Name = [], bcc_Dim = 0, bcc_Metric = []\<rparr>
         (\<lambda>req r. br_run J (lift_op (br_CreateCollection C req)))),
      (''DELETE'', ''/v1/collections/'', drop_handler J C),
      (''GET'', ''/v1/collections/'', has_handler J C),
      (''POST'', ''/v1/collections/'', action_handler J C),
      (''POST'', ''/v1/indexes'', with_json J ''CreateIndexRequest''
         (br_CreateIndex_fields (json_codec.truncate J)) \<lparr>bci_Name = [], bci_VectorCount = 0, bci_Metric = []\<rparr>
         (\<lambda>req r. br_run J (lift_op (br_CreateIndex C req)))),
      (''POST'', ''/v1/vectors/insert'', modify_handler J (br_Insert C)),
      (''POST'', ''/v1/vectors/upsert'', modify_handler J (br_Upsert C)),
      (''POST'', ''/v1/vectors/delete'', modify_handler J (\<lambda>req. lift_op (br_Delete C req))),
      (''POST'', ''/v1/vectors/search'', search_handler J C),
      (''GET'', ''/healthz'', \<lambda>r s. Some (br_writeJSON J 200 (OObj [(''status'', OStr ''ok'')]), s))]"

section \<open>The multiplexer\<close>

fun join_segs :: "string list \<Rightarrow> string" where
  "join_segs [] = []"
| "join_segs (s # ss) = CHR ''/'' # s @ join_segs ss"

text \<open>\<open>path.Clean\<close> of a rooted path, on its segments; the accumulator is reversed.\<close>

fun clean_segs :: "string list \<Rightarrow> string list \<Rightarrow> string list" where
  "clean_segs [] acc = rev acc"
| "clean_segs (s # ss) acc =
     (if s = [] \<or> s = ''.'' then clean_segs ss acc
      else if s = ''..'' then clean_segs ss (drop 1 acc)
      else clean_segs ss (s # acc))"

definition cleanPath :: "string \<Rightarrow> string" where
  "cleanPath p =
     (if p = [] then ''/''
      else let p = (if hd p = CHR ''/'' then p else CHR ''/'' # p);
               np = join_segs (clean_segs (Split (CHR ''/'') p) [])
           in if np = [] then ''/''
              else if last p = CHR ''/'' then np @ ''/'' else np)"

definition pattern_matches :: "string \<Rightarrow> string \<Rightarrow> bool" where
  "pattern_matches pat path \<longleftrightarrow> pat = path \<or> (last pat = CHR ''/'' \<and> take (length pat) path = pat)"

text \<open>A pattern for \<open>GET\<close> also serves \<open>HEAD\<close>.\<close>

definition method_matches :: "string \<Rightarrow> string \<Rightarrow> bool" where
  "method_matches pm m \<longleftrightarrow> pm = m \<or> (pm = ''GET'' \<and> m = ''HEAD'')"

text \<open>The most specific match: the pattern that is the path itself before a subtree.\<close>

definition mux_find :: "(string \<times> string \<times> 'h) list \<Rightarrow> string \<Rightarrow> string \<Rightarrow> 'h option" where
  "mux_find pats m path =
     (case List.find (\<lambda>(pm, pat, h). method_matches pm m \<and> pat = path) pats of
        Some (_, _, h) \<Rightarrow> Some h
      | None \<Rightarrow> map_option (snd \<circ> snd) (List.find (\<lambda>(pm, pat, h). method_matches pm m \<and> pattern_matches pat path) pats))"

definition redirect :: "string \<Rightarrow> http_response" where
  "redirect location = \<lparr>rs_Status = 301, rs_Header = [(''Location'', location)], rs_Body = []\<rparr>"

definition ServeMux :: "(string \<times> string \<times> 's br_handler) list \<Rightarrow> 's br_handler" where
  "ServeMux pats r s =
     (let m = hr_Method r; path = cleanPath (hr_Path r);
          exact = (\<lambda>p. list_ex (\<lambda>(pm, pat, h). method_matches pm m \<and> pat = p) pats)
      in if \<not> exact path \<and> last path \<noteq> CHR ''/'' \<and> exact (path @ ''/'') then Some (redirect (path @ ''/''), s)
         else if path \<noteq> hr_Path r then Some (redirect path, s)
         else case mux_find pats m path of
             Some h \<Rightarrow> h r s
           | None \<Rightarrow> if list_ex (\<lambda>(pm, pat, h). pattern_matches pat path) pats
               then Some (http_Error ''Method Not Allowed'' 405, s) else Some (http_NotFound, s))"

definition NewHandler :: "bridge_codec \<Rightarrow> ('s, 'i) BridgeClient \<Rightarrow> 's br_handler" where
  "NewHandler J C = ServeMux (bridge_patterns J C)"

section \<open>Lemmas\<close>

lemma collect_map:
  assumes "\<And>i. f i = map_option (map_sum (\<lambda>e. e) g) (h i)"
  shows "collect f is (map g out) = map_option (map_sum (\<lambda>e. e) (map g)) (collect h is out)"
proof (induction "is" arbitrary: out)
  case (Cons i js)
  show ?case
  proof (cases "h i")
    case (Some r)
    then show ?thesis using Cons.IH [of "out @ [_]"] by (cases r) (simp_all add: assms)
  qed (simp add: assms)
qed simp

definition to_bridge :: "SearchResult \<Rightarrow> br_SearchResult" where
  "to_bridge r = \<lparr>bsr_ID = sr_ID r, bsr_Score = sr_Score r, bsr_Metadata = sr_Metadata r\<rparr>"

lemma br_search_item_eq: "br_search_item rs i = map_option (map_sum (\<lambda>e. e) to_bridge) (search_item rs i)"
  by (simp add: br_search_item_def search_item_def to_bridge_def split: sum.split option.split)

lemma br_search_sets_eq:
  "br_search_sets rss (map to_bridge out) = map_option (map_sum (\<lambda>e. e) (map to_bridge)) (search_sets rss out)"
proof (induction rss arbitrary: out)
  case (Cons rs rss)
  have "collect (br_search_item rs) is (map to_bridge out) =
      map_option (map_sum (\<lambda>e. e) (map to_bridge)) (collect (search_item rs) is out)" for "is"
    by (rule collect_map) (rule br_search_item_eq)
  then show ?case using Cons.IH by (simp split: option.split sum.split)
qed simp

lemma br_computeNlist_eq: "br_computeNlist = computeNlist"
  by (rule ext) (simp add: br_computeNlist_def computeNlist_def)

lemma br_metric_eq: "br_metricTypeFromString = metricTypeFromString"
  by (rule ext) (simp add: br_metricTypeFromString_def metricTypeFromString_def adapter_normalizeMetric_def)

text \<open>A connected adapter passes a call on to the service.\<close>

lemma with_client_connected: "ma_client a \<Longrightarrow> with_client C f a = on_service f a"
  by (simp add: with_client_def ensureClient_def bind_def)

section \<open>Paths\<close>

definition segment :: "string \<Rightarrow> bool" where
  "segment s \<longleftrightarrow> s \<noteq> [] \<and> CHR ''/'' \<notin> set s \<and> s \<noteq> ''.'' \<and> s \<noteq> ''..''"

lemma Split_join_segs:
  "list_all segment ss \<Longrightarrow> ss \<noteq> [] \<Longrightarrow> Split (CHR ''/'') (join_segs ss) = [] # ss"
proof (induction ss)
  case (Cons s ss)
  then have s: "CHR ''/'' \<notin> set s" by (simp add: segment_def)
  show ?case
  proof (cases ss)
    case Nil
    then show ?thesis using Split_no_sep [OF s] by simp
  next
    case (Cons s' ss')
    with Cons.IH Cons.prems have "Split (CHR ''/'') (join_segs ss) = [] # ss" by simp
    then have "Split (CHR ''/'') (s' @ join_segs ss') = ss" using Cons by simp
    then show ?thesis using Split_append [OF s, of "s' @ join_segs ss'"] Cons by simp
  qed
qed simp

lemma clean_segs_segments: "list_all segment ss \<Longrightarrow> clean_segs ss acc = rev acc @ ss"
  by (induction ss arbitrary: acc) (auto simp: segment_def)

lemma last_join_segs: "list_all segment ss \<Longrightarrow> ss \<noteq> [] \<Longrightarrow> last (join_segs ss) \<noteq> CHR ''/''"
proof (induction ss)
  case (Cons s ss)
  then have "s \<noteq> []" "CHR ''/'' \<notin> set s" by (simp_all add: segment_def)
  moreover from this have "last s \<noteq> CHR ''/''" using last_in_set [of s] by metis
  ultimately show ?case using Cons by (cases ss) simp_all
qed simp

lemma cleanPath_join_segs:
  assumes "list_all segment ss" and "ss \<noteq> []"
  shows "cleanPath (join_segs ss) = join_segs ss"
proof -
  have "join_segs ss \<noteq> []" "hd (join_segs ss) = CHR ''/''" using assms(2) by (cases ss; simp)+
  then show ?thesis
    using assms last_join_segs [OF assms] Split_join_segs [OF assms] clean_segs_segments [OF assms(1), of "[]"]
    by (simp add: cleanPath_def Let_def)
qed

lemma segment_consts [simp]: "segment ''v1''" "segment ''collections''" "segment ''load''" "segment ''release''"
  by (simp_all add: segment_def)

lemma mux_collection_paths:
  assumes "segment name"
  shows "NewHandler J C \<lparr>hr_Method = ''POST'', hr_Path = ''/v1/collections/'' @ name @ ''/load'', hr_Header = hs, hr_Body = b\<rparr> s =
      br_run J (lift_op (br_LoadCollection C name)) s"
    "NewHandler J C \<lparr>hr_Method = ''POST'', hr_Path = ''/v1/collections/'' @ name @ ''/release'', hr_Header = hs, hr_Body = b\<rparr> s =
      br_run J (lift_op (br_ReleaseCollection C name)) s"
    "NewHandler J C \<lparr>hr_Method = ''DELETE'', hr_Path = ''/v1/collections/'' @ name, hr_Header = hs, hr_Body = b\<rparr> s =
      br_run J (lift_op (br_DropCollection C name)) s"
proof -
  have no_slash: "CHR ''/'' \<notin> set name" "name \<noteq> []" using assms by (auto simp: segment_def)
  have clean: "cleanPath (''/v1/collections/'' @ name @ ''/load'') = ''/v1/collections/'' @ name @ ''/load''"
    "cleanPath (''/v1/collections/'' @ name @ ''/release'') = ''/v1/collections/'' @ name @ ''/release''"
    "cleanPath (''/v1/collections/'' @ name) = ''/v1/collections/'' @ name"
    using cleanPath_join_segs [of "[''v1'', ''collections'', name, ''load'']"]
      cleanPath_join_segs [of "[''v1'', ''collections'', name, ''release'']"]
      cleanPath_join_segs [of "[''v1'', ''collections'', name]"] assms by simp_all
  have parts: "collectionNameAndActionFromPath (''/v1/collections/'' @ name @ ''/load'') = Inr (name, ''load'')"
    "collectionNameAndActionFromPath (''/v1/collections/'' @ name @ ''/release'') = Inr (name, ''release'')"
    "collectionNameFromPath (''/v1/collections/'' @ name) [] = Inr name"
    using no_slash Split_append [OF no_slash(1), of "''load''"] Split_append [OF no_slash(1), of "''release''"]
    by (simp_all add: collectionNameAndActionFromPath_def collectionNameFromPath_def CutPrefix_def
        collections_prefix_def)
  show "NewHandler J C \<lparr>hr_Method = ''POST'', hr_Path = ''/v1/collections/'' @ name @ ''/load'', hr_Header = hs, hr_Body = b\<rparr> s =
      br_run J (lift_op (br_LoadCollection C name)) s"
    using clean(1) parts(1) no_slash
    by (simp add: NewHandler_def ServeMux_def bridge_patterns_def mux_find_def method_matches_def pattern_matches_def
        action_handler_def Let_def)
  show "NewHandler J C \<lparr>hr_Method = ''POST'', hr_Path = ''/v1/collections/'' @ name @ ''/release'', hr_Header = hs, hr_Body = b\<rparr> s =
      br_run J (lift_op (br_ReleaseCollection C name)) s"
    using clean(2) parts(2) no_slash
    by (simp add: NewHandler_def ServeMux_def bridge_patterns_def mux_find_def method_matches_def pattern_matches_def
        action_handler_def Let_def)
  show "NewHandler J C \<lparr>hr_Method = ''DELETE'', hr_Path = ''/v1/collections/'' @ name, hr_Header = hs, hr_Body = b\<rparr> s =
      br_run J (lift_op (br_DropCollection C name)) s"
    using clean(3) parts(3) no_slash
    by (simp add: NewHandler_def ServeMux_def bridge_patterns_def mux_find_def method_matches_def pattern_matches_def
        drop_handler_def Let_def)
qed

section \<open>Properties\<close>

definition in_adapter :: "'s MilvusAdapter \<Rightarrow> 'a \<times> 's \<Rightarrow> 'a \<times> 's MilvusAdapter" where
  "in_adapter a = (\<lambda>(r, s). (r, a\<lparr>ma_service := s\<rparr>))"

lemma on_service_in_adapter: "on_service f a = in_adapter a (f (ma_service a))"
  by (simp add: on_service_def in_adapter_def)

text \<open>C40: The bridge and the adapter do the same to Milvus. On a connected adapter, creating, dropping, loading and
  releasing a collection, inserting, upserting and deleting vectors and an IVF search are the call the
  bridge makes, with the same result, error or panic; building an index is the call of the adapter
  followed by waiting for the task, which the adapter does not do.\<close>

theorem bridge_agrees_with_adapter:
  fixes C :: "('s, 'i) BridgeClient" and a :: "'s MilvusAdapter"
  assumes "ma_client a"
  shows "let K = Client.truncate C; s = ma_service a in
     ma_CreateCollection K n dm mt a = in_adapter a (br_CreateCollection C \<lparr>bcc_Name = n, bcc_Dim = dm, bcc_Metric = mt\<rparr> s) \<and>
     ma_DropCollection K n a = in_adapter a (br_DropCollection C n s) \<and>
     ma_HasCollection K n a = in_adapter a (br_HasCollection C n s) \<and>
     ma_LoadCollection K n a = in_adapter a (br_LoadCollection C n s) \<and>
     ma_ReleaseCollection K n a = in_adapter a (br_ReleaseCollection C n s) \<and>
     ma_Insert K n ids vs ms ts a = map_option (in_adapter a) (br_Insert C \<lparr>bmv_Name = n, bmv_IDs = ids, bmv_Vectors = vs,
       bmv_MetadataJSON = ms, bmv_Timestamps = ts\<rparr> s) \<and>
     ma_Upsert K n ids vs ms ts a = map_option (in_adapter a) (br_Upsert C \<lparr>bmv_Name = n, bmv_IDs = ids, bmv_Vectors = vs,
       bmv_MetadataJSON = ms, bmv_Timestamps = ts\<rparr> s) \<and>
     ma_Delete K n ids a = in_adapter a (br_Delete C \<lparr>bmv_Name = n, bmv_IDs = ids, bmv_Vectors = vs,
       bmv_MetadataJSON = ms, bmv_Timestamps = ts\<rparr> s) \<and>
     map_option (map_prod (map_sum (\<lambda>e. e) (map to_bridge)) (\<lambda>a. a))
       (ma_Search K n v \<lparr>ss_IndexType = ''ivf_sq8'', ss_Tier = t, ss_Metric = mt, ss_NProbe = np, ss_HNSWEF = ef,
          ss_DiskANNSearchList = sl, ss_Filter = f, ss_TopK = k\<rparr> a) =
       map_option (in_adapter a) (br_Search C \<lparr>bse_Name = n, bse_Vector = v, bse_TopK = k, bse_Nprobe = np, bse_Filter = f,
          bse_Metric = mt\<rparr> s) \<and>
     bind (ma_CreateIndex K n \<lparr>is_IndexType = ''ivf_sq8'', is_Tier = t, is_VectorCount = cnt, is_Metric = mt,
          is_HNSWM = hm, is_HNSWEFConstruction = hc\<rparr>) (\<lambda>_. on_service (cl_AwaitIndex C n)) a =
       in_adapter a (br_CreateIndex C \<lparr>bci_Name = n, bci_VectorCount = cnt, bci_Metric = mt\<rparr> s)"
proof -
  note w = with_client_connected [OF assms] on_service_in_adapter
  have sets: "br_search_sets rss [] = map_option (map_sum (\<lambda>e. e) (map to_bridge)) (search_sets rss [])" for rss
    using br_search_sets_eq [of rss "[]"] by simp
  show ?thesis
    using assms unfolding Let_def
    apply (intro conjI)
    subgoal by (simp add: ma_CreateCollection_def w br_CreateCollection_def newCreateCollectionOption_def
        buildCollectionSchema_def primaryKeyMaxLength_def br_primaryKeyMaxLength_def Client.defs)
    subgoal by (simp add: ma_DropCollection_def w br_DropCollection_def Client.defs)
    subgoal by (simp add: ma_HasCollection_def w br_HasCollection_def Client.defs)
    subgoal by (simp add: ma_LoadCollection_def w br_LoadCollection_def Client.defs)
    subgoal by (simp add: ma_ReleaseCollection_def w br_ReleaseCollection_def Client.defs)
    subgoal by (simp add: ma_Insert_def ma_write_def ensureClient_def w br_Insert_def br_columns_def Client.defs)
    subgoal by (simp add: ma_Upsert_def ma_write_def ensureClient_def w br_Upsert_def br_columns_def Client.defs)
    subgoal by (simp add: ma_Delete_def deleteAndFlush_def w br_Delete_def Client.defs)
    subgoal by (simp add: ma_Search_def br_Search_def search_option_def w in_adapter_def sets Client.defs
        option.map_comp comp_def split: prod.split sum.split)
    subgoal by (simp add: ma_CreateIndex_def submitCreateIndex_def bind_def w br_CreateIndex_def in_adapter_def
        br_computeNlist_eq br_metric_eq Client.defs split: prod.split sum.split)
    done
qed

definition idle_client :: "(unit, unit) BridgeClient" where
  "idle_client = \<lparr>cl_New = (\<lambda>_. return ()), cl_Close = return (), cl_CreateCollection = (\<lambda>_. return ()),
     cl_DropCollection = (\<lambda>_. return ()), cl_HasCollection = (\<lambda>_. return True), cl_CreateIndex = (\<lambda>_. return ()),
     cl_LoadCollection = (\<lambda>_. return ()), cl_AwaitLoad = (\<lambda>_. return ()), cl_ReleaseCollection = (\<lambda>_. return ()),
     cl_Insert = (\<lambda>_. return ()), cl_Upsert = (\<lambda>_. return ()), cl_Delete = (\<lambda>_ _ _. return ()),
     cl_Flush = (\<lambda>_. return ()), cl_AwaitFlush = (\<lambda>_. return ()), cl_Search = (\<lambda>_. return []),
     cl_QueryIterator = (\<lambda>_ _ _. return ()), cl_Next = (\<lambda>_ s. (NextEOF, s)),
     cl_GetCollectionStats = (\<lambda>_. return Map.empty), cl_AwaitIndex = (\<lambda>_. fail (New ''index build failed''))\<rparr>"

theorem bridge_agrees_with_adapter_witness:
  "let a = \<lparr>ma_addr = [], ma_client = True, ma_service = ()\<rparr> in
   ma_Upsert (Client.truncate idle_client) ''c'' [] [] [] [] a =
     map_option (in_adapter a) (br_Upsert idle_client (zero_modify\<lparr>bmv_Name := ''c''\<rparr>) ())"
  using bridge_agrees_with_adapter [of "\<lparr>ma_addr = [], ma_client = True, ma_service = ()\<rparr>", where C = idle_client
      and n = "''c''" and ids = "[]" and vs = "[]" and ms = "[]" and ts = "[]"]
  by (simp add: Let_def zero_modify_def)

text \<open>The name of a collection survives the URL: for a name that is a path segment of its own, the paths the
  client builds from it are clean, reach the handler of their method, and act on exactly that
  collection.\<close>

lemma collection_paths_act_on_name:
  assumes "segment name"
  shows "NewHandler J C \<lparr>hr_Method = ''POST'', hr_Path = ''/v1/collections/'' @ name @ ''/load'', hr_Header = hs, hr_Body = b\<rparr> s =
      br_run J (lift_op (br_LoadCollection C name)) s \<and>
    NewHandler J C \<lparr>hr_Method = ''POST'', hr_Path = ''/v1/collections/'' @ name @ ''/release'', hr_Header = hs, hr_Body = b\<rparr> s =
      br_run J (lift_op (br_ReleaseCollection C name)) s \<and>
    NewHandler J C \<lparr>hr_Method = ''DELETE'', hr_Path = ''/v1/collections/'' @ name, hr_Header = hs, hr_Body = b\<rparr> s =
      br_run J (lift_op (br_DropCollection C name)) s"
  by (intro conjI mux_collection_paths [OF assms])

end
