(* ===== verification/JFS_Ranges.thy ===== *)
theory JFS_Ranges
  imports "HOL-Library.Word" "HOL-Library.Multiset"
begin


text \<open>
  The record locks of an owner (pkg/meta/utils.go): a list of ranges, ordered and without overlap, over which
  \<open>updateLocks\<close> lays a new range by splitting and merging. The lemmas say what that means byte by byte:
  \<open>held\<close> is the meaning of a list of ranges, \<open>lay\<close> is the first loop on lists and \<open>joined\<close> the last one.
\<close>

section \<open>Record locks\<close>

text \<open>The constants are those of Linux.\<close>

definition F_RDLCK :: "32 word" where "F_RDLCK = 0"
definition F_WRLCK :: "32 word" where "F_WRLCK = 1"
definition F_UNLCK :: "32 word" where "F_UNLCK = 2"

record plockRecord =
  pl_Type :: "32 word"
  pl_Pid :: "32 word"
  pl_Start :: "64 word"
  pl_End :: "64 word"

text \<open>One turn of the first loop, at index \<open>i\<close>. \<open>l\<close> is a copy of \<open>ls[i]\<close>; \<open>append\<close> adds at the end.\<close>

definition update_turn ::
  "nat \<Rightarrow> plockRecord list \<times> plockRecord \<Rightarrow> plockRecord list \<times> plockRecord" where
  "update_turn i = (\<lambda>(ls, nl).
     let l = ls ! i;
         (ls, nl) = (if pl_Start nl < pl_Start l \<and> pl_End nl \<ge> pl_Start l
           then (ls @ [nl\<lparr>pl_End := pl_Start l - 1\<rparr>], nl\<lparr>pl_Start := pl_Start l\<rparr>) else (ls, nl));
         (ls, l) = (if pl_Start nl > pl_Start l \<and> pl_Start nl \<le> pl_End l
           then let ls = ls @ [l\<lparr>pl_End := pl_Start nl - 1\<rparr>]; ls = ls[i := (ls ! i)\<lparr>pl_Start := pl_Start nl\<rparr>]
                in (ls, ls ! i)
           else (ls, l))
     in if pl_Start nl = pl_Start l
        then let ls = ls[i := (ls ! i)\<lparr>pl_Type := pl_Type nl, pl_Pid := pl_Pid nl\<rparr>];
                 ls = (if pl_End l > pl_End nl
                   then ls[i := (ls ! i)\<lparr>pl_End := pl_End nl\<rparr>] @ [l\<lparr>pl_Start := pl_End nl + 1\<rparr>] else ls)
             in (ls, nl\<lparr>pl_Start := pl_End (ls ! i) + 1\<rparr>)
        else (ls, nl))"

fun update_loop :: "nat list \<Rightarrow> plockRecord list \<times> plockRecord \<Rightarrow> plockRecord list \<times> plockRecord" where
  "update_loop [] st = st"
| "update_loop (i # is) (ls, nl) =
     (if pl_Start nl \<le> pl_End nl then update_loop is (update_turn i (ls, nl)) else (ls, nl))"

text \<open>The last loop removes unlocked and empty ranges and joins a range with the next one.\<close>

function merge_loop :: "nat \<Rightarrow> plockRecord list \<Rightarrow> plockRecord list" where
  "merge_loop i ls =
     (if i < length ls then
        if pl_Type (ls ! i) = F_UNLCK \<or> pl_Start (ls ! i) > pl_End (ls ! i)
        then merge_loop i (take i ls @ drop (i + 1) ls)
        else if i + 1 < length ls \<and> pl_Type (ls ! i) = pl_Type (ls ! (i + 1)) \<and> pl_Pid (ls ! i) = pl_Pid (ls ! (i + 1)) \<and>
            pl_End (ls ! i) + 1 = pl_Start (ls ! (i + 1))
        then merge_loop (i + 1) (ls[i := (ls ! i)\<lparr>pl_End := pl_End (ls ! (i + 1))\<rparr>,
               i + 1 := (ls ! (i + 1))\<lparr>pl_Start := pl_End (ls ! (i + 1)) + 1\<rparr>])
        else merge_loop (i + 1) ls
      else ls)"
  by pat_completeness auto

termination by (relation "measure (\<lambda>(i, ls). length ls - i)") auto

declare merge_loop.simps [simp del]

text \<open>\<open>sort.Slice\<close> by the start of the ranges, which are distinct.\<close>

definition updateLocks :: "plockRecord list \<Rightarrow> plockRecord \<Rightarrow> plockRecord list" where
  "updateLocks ls nl =
     (let (ls, nl) = update_loop [0..<length ls] (ls, nl);
          ls = (if pl_Start nl \<le> pl_End nl then ls @ [nl] else ls)
      in merge_loop 0 (sort_key pl_Start ls))"


section \<open>What a list of locks means\<close>

definition in_range :: "64 word \<Rightarrow> plockRecord \<Rightarrow> bool" where
  "in_range x l \<longleftrightarrow> pl_Start l \<le> x \<and> x \<le> pl_End l"

text \<open>The type and the process of the locks that cover a byte, with multiplicity.\<close>

definition held :: "plockRecord list \<Rightarrow> 64 word \<Rightarrow> (32 word \<times> 32 word) multiset" where
  "held ls x = image_mset (\<lambda>l. (pl_Type l, pl_Pid l)) (filter_mset (in_range x) (mset ls))"

lemma held_simps [simp]:
  "held [] x = {#}"
  "held (l # ls) x = (if in_range x l then {#(pl_Type l, pl_Pid l)#} else {#}) + held ls x"
  "held (ls @ ls') x = held ls x + held ls' x"
  by (simp_all add: held_def)

lemma held_sort_key [simp]: "held (sort_key f ls) x = held ls x"
  by (simp add: held_def)

definition before :: "plockRecord \<Rightarrow> plockRecord \<Rightarrow> bool" where
  "before a b \<longleftrightarrow> pl_End a < pl_Start b"

text \<open>The lists the code works on: ordered, without overlap, no empty and no unlocked range.\<close>

definition ranges_ok :: "plockRecord list \<Rightarrow> bool" where
  "ranges_ok ls \<longleftrightarrow> sorted_wrt before ls \<and> (\<forall>l \<in> set ls. pl_Start l \<le> pl_End l \<and> pl_End l < - 1)"

definition plocks_ok :: "plockRecord list \<Rightarrow> bool" where
  "plocks_ok ls \<longleftrightarrow> ranges_ok ls \<and> (\<forall>l \<in> set ls. pl_Type l \<noteq> F_UNLCK)"

text \<open>The lock on a byte.\<close>

definition lock_at :: "plockRecord list \<Rightarrow> 64 word \<Rightarrow> (32 word \<times> 32 word) option" where
  "lock_at ls x = map_option (\<lambda>l. (pl_Type l, pl_Pid l)) (List.find (in_range x) ls)"

lemma held_after: "\<forall>b \<in> set ls. x < pl_Start b \<Longrightarrow> held ls x = {#}"
  by (induction ls) (auto simp: in_range_def)

lemma held_lock_at:
  assumes "sorted_wrt before ls"
  shows "held ls x = (case lock_at ls x of None \<Rightarrow> {#} | Some v \<Rightarrow> {#v#})"
  using assms
proof (induction ls)
  case (Cons l ls)
  have "held ls x = {#}" if "in_range x l"
    using that Cons.prems by (intro held_after) (auto simp: before_def in_range_def)
  with Cons show ?case by (auto simp: lock_at_def)
qed (simp add: lock_at_def)

text \<open>Words without wrap-around.\<close>

lemma le_minus_1: "(a :: 64 word) < b \<Longrightarrow> x \<le> b - 1 \<longleftrightarrow> x < b"
  by (auto simp: less_eq_dec_iff)

lemma plus_1_le: "(a :: 64 word) < b \<Longrightarrow> a + 1 \<le> x \<longleftrightarrow> a < x"
  using inc_less_eq_iff [of a x] by auto

lemma less_plus_1: "(a :: 64 word) < b \<Longrightarrow> x < a + 1 \<longleftrightarrow> x \<le> a"
  using plus_1_le [of a b x] by auto

lemma minus_1_small: "(a :: 64 word) < b \<Longrightarrow> b \<le> c \<Longrightarrow> c < d \<Longrightarrow> b - 1 < d"
  using le_minus_1 [of a b "b - 1"] by auto


section \<open>Laying a range over the list\<close>

text \<open>A turn of the loop on its own element: the new element, the appended ranges, the rest of the new lock.\<close>

definition turn :: "plockRecord \<Rightarrow> plockRecord \<Rightarrow> plockRecord \<times> plockRecord list \<times> plockRecord" where
  "turn l nl =
     (let (A, nl) = (if pl_Start nl < pl_Start l \<and> pl_End nl \<ge> pl_Start l
           then ([nl\<lparr>pl_End := pl_Start l - 1\<rparr>], nl\<lparr>pl_Start := pl_Start l\<rparr>) else ([], nl));
         (A, l) = (if pl_Start nl > pl_Start l \<and> pl_Start nl \<le> pl_End l
           then (A @ [l\<lparr>pl_End := pl_Start nl - 1\<rparr>], l\<lparr>pl_Start := pl_Start nl\<rparr>) else (A, l))
     in if pl_Start nl = pl_Start l
        then let l' = l\<lparr>pl_Type := pl_Type nl, pl_Pid := pl_Pid nl\<rparr>;
                 (l', A) = (if pl_End l > pl_End nl
                   then (l'\<lparr>pl_End := pl_End nl\<rparr>, A @ [l\<lparr>pl_Start := pl_End nl + 1\<rparr>]) else (l', A))
             in (l', A, nl\<lparr>pl_Start := pl_End l' + 1\<rparr>)
        else (l, A, nl))"

lemma update_turn_turn:
  assumes "turn l nl = (l', A, nl')"
  shows "update_turn (length P) (P @ l # Q, nl) = (P @ l' # Q @ A, nl')"
  using assms by (auto simp: turn_def update_turn_def Let_def list_update_append nth_append split: if_splits prod.splits)

fun lay :: "plockRecord list \<Rightarrow> plockRecord \<Rightarrow> plockRecord list \<times> plockRecord list \<times> plockRecord" where
  "lay [] nl = ([], [], nl)"
| "lay (l # ls) nl = (if pl_Start nl \<le> pl_End nl
     then let (l', A, nl1) = turn l nl; (ls', A', nl2) = lay ls nl1 in (l' # ls', A @ A', nl2)
     else (l # ls, [], nl))"

lemma update_loop_stop: "\<not> pl_Start nl \<le> pl_End nl \<Longrightarrow> update_loop is (ls, nl) = (ls, nl)"
  by (cases "is") simp_all

lemma update_loop_lay:
  assumes "lay ls nl = (ls', A, nl')"
  shows "update_loop [length P..<length P + length ls] (P @ ls @ Q, nl) = (P @ ls' @ Q @ A, nl')"
  using assms
proof (induction ls nl arbitrary: P Q ls' A nl' rule: lay.induct)
  case (2 l ls nl)
  show ?case
  proof (cases "pl_Start nl \<le> pl_End nl")
    case True
    obtain l1 A1 nl1 where t: "turn l nl = (l1, A1, nl1)" by (metis surj_pair)
    obtain ls2 A2 where r: "lay ls nl1 = (ls2, A2, nl')" "ls' = l1 # ls2" "A = A1 @ A2"
      using 2(2) True t by (auto split: prod.splits)
    have upt: "[length P..<length P + length (l # ls)] = length P # [length (P @ [l1])..<length (P @ [l1]) + length ls]"
      by (simp add: upt_conv_Cons del: upt_Suc)
    have "update_loop [length P..<length P + length (l # ls)] (P @ (l # ls) @ Q, nl) =
        update_loop [length (P @ [l1])..<length (P @ [l1]) + length ls] ((P @ [l1]) @ ls @ Q @ A1, nl1)"
      unfolding upt using True update_turn_turn [OF t, of P "ls @ Q"] by simp
    also have "\<dots> = ((P @ [l1]) @ ls2 @ (Q @ A1) @ A2, nl')"
      using 2(1) [OF True t [symmetric] refl refl r(1), of "P @ [l1]" "Q @ A1"] by simp
    finally show ?thesis using r by simp
  next
    case False
    with 2(2) show ?thesis by (auto simp: update_loop_stop)
  qed
qed simp

text \<open>The two ways a turn goes.\<close>

lemma turn_cases:
  assumes "turn l nl = (l', A, nl')" and "pl_Start l \<le> pl_End l" and "pl_Start nl \<le> pl_End nl"
  obtains (apart) "l' = l" "A = []" "nl' = nl" "pl_End l < pl_Start nl \<or> pl_End nl < pl_Start l"
  | (overlap) B C e where "A = B @ C" "nl' = nl\<lparr>pl_Start := e + 1\<rparr>" "e = min (pl_End l) (pl_End nl)"
      "l' = l\<lparr>pl_Start := max (pl_Start l) (pl_Start nl), pl_Type := pl_Type nl, pl_Pid := pl_Pid nl, pl_End := e\<rparr>"
      "pl_Start l \<le> pl_End nl" "pl_Start nl \<le> pl_End l"
      "B = (if pl_Start nl < pl_Start l then [nl\<lparr>pl_End := pl_Start l - 1\<rparr>]
            else if pl_Start l < pl_Start nl then [l\<lparr>pl_End := pl_Start nl - 1\<rparr>] else [])"
      "C = (if pl_End nl < pl_End l then [l\<lparr>pl_Start := pl_End nl + 1\<rparr>] else [])"
proof (cases "pl_Start l \<le> pl_End nl \<and> pl_Start nl \<le> pl_End l")
  case True
  let ?B = "if pl_Start nl < pl_Start l then [nl\<lparr>pl_End := pl_Start l - 1\<rparr>]
            else if pl_Start l < pl_Start nl then [l\<lparr>pl_End := pl_Start nl - 1\<rparr>] else []"
  let ?C = "if pl_End nl < pl_End l then [l\<lparr>pl_Start := pl_End nl + 1\<rparr>] else []"
  have "turn l nl = (l\<lparr>pl_Start := max (pl_Start l) (pl_Start nl), pl_Type := pl_Type nl, pl_Pid := pl_Pid nl,
      pl_End := min (pl_End l) (pl_End nl)\<rparr>, ?B @ ?C, nl\<lparr>pl_Start := min (pl_End l) (pl_End nl) + 1\<rparr>)"
    using True by (cases "pl_Start nl" "pl_Start l" rule: linorder_cases)
      (auto simp: turn_def Let_def max_def min_def not_less)
  with assms(1) True show ?thesis by (intro overlap [of ?B ?C]) auto
next
  case False
  then have "turn l nl = (l, [], nl)" using assms(2,3) by (auto simp: turn_def Let_def)
  with assms(1) False show ?thesis by (intro apart) auto
qed

text \<open>One turn gives the bytes from the start of the new lock up to its new start to the new lock, and leaves
  the others as they were.\<close>

lemma turn_held:
  assumes "turn l nl = (l', A, nl')" and "pl_Start l \<le> pl_End l" and "pl_Start nl \<le> pl_End nl" and "pl_End nl < - 1"
  shows "held (l' # A) x = (if pl_Start nl \<le> x \<and> x \<le> pl_End nl
      then if x < pl_Start nl' then {#(pl_Type nl, pl_Pid nl)#} else {#}
      else held [l] x)"
  using assms(1-3)
proof (cases rule: turn_cases)
  case (overlap B C e)
  from overlap(3) assms(4) have e: "e < - 1" by (auto simp: min_def split: if_splits)
  have B: "held B x = (if pl_Start nl \<le> x \<and> x < pl_Start l then {#(pl_Type nl, pl_Pid nl)#}
      else if pl_Start l \<le> x \<and> x < pl_Start nl then {#(pl_Type l, pl_Pid l)#} else {#})"
    unfolding overlap(7) by (auto simp: in_range_def le_minus_1)
  have C: "held C x = (if pl_End nl < x \<and> x \<le> pl_End l then {#(pl_Type l, pl_Pid l)#} else {#})"
    unfolding overlap(8) by (auto simp: in_range_def plus_1_le)
  have l': "held [l'] x = (if pl_Start l \<le> x \<and> pl_Start nl \<le> x \<and> x \<le> pl_End l \<and> x \<le> pl_End nl
      then {#(pl_Type nl, pl_Pid nl)#} else {#})"
    unfolding overlap(3,4) by (auto simp: in_range_def)
  have s: "x < pl_Start nl' \<longleftrightarrow> x \<le> pl_End l \<and> x \<le> pl_End nl"
    unfolding overlap(2) by (simp add: less_plus_1 [OF e]) (simp add: overlap(3))
  have "held (l' # A) x = held [l'] x + held B x + held C x" by (simp add: overlap(1))
  moreover consider "x < pl_Start nl" | "pl_Start nl \<le> x" "x \<le> pl_End nl" | "pl_End nl < x" by fastforce
  then have "held [l'] x + held B x + held C x = (if pl_Start nl \<le> x \<and> x \<le> pl_End nl
      then if x < pl_Start nl' then {#(pl_Type nl, pl_Pid nl)#} else {#} else held [l] x)"
  proof cases
    case 1
    then have "\<not> pl_Start nl \<le> x" "\<not> pl_End nl < x" "x \<le> pl_End l" using overlap(6) assms(3) by auto
    with 1 show ?thesis unfolding B C l' s by (simp add: in_range_def)
  next
    case 2
    then have "\<not> x < pl_Start nl" "\<not> pl_End nl < x" "x < pl_Start l \<longrightarrow> x \<le> pl_End l" using assms(2) by auto
    with 2 show ?thesis unfolding B C l' s by (simp add: not_less)
  next
    case 3
    then have "pl_Start l \<le> x" "\<not> x < pl_Start l" "\<not> x < pl_Start nl" "\<not> x \<le> pl_End nl"
      using overlap(5) assms(3) by auto
    with 3 show ?thesis unfolding B C l' s by (simp add: in_range_def)
  qed
  ultimately show ?thesis by (rule trans)
qed (auto simp: in_range_def)


text \<open>What the ranges a turn makes keep.\<close>

lemma turn_ranges:
  assumes "turn l nl = (l', A, nl')" and "pl_Start l \<le> pl_End l" "pl_End l < - 1"
    and "pl_Start nl \<le> pl_End nl" "pl_End nl < - 1"
  shows "\<forall>k \<in> set (l' # A). pl_Start k \<le> pl_End k \<and> pl_End k < - 1"
    and "pl_End nl' = pl_End nl" "pl_Type nl' = pl_Type nl" "pl_Pid nl' = pl_Pid nl"
    and "pl_Start nl' = pl_Start nl \<or> (\<exists>e. e < - 1 \<and> pl_Start nl' = e + 1 \<and> e \<le> pl_End l \<and> pl_Start nl \<le> e)"
proof -
  have "(\<forall>k \<in> set (l' # A). pl_Start k \<le> pl_End k \<and> pl_End k < - 1) \<and>
    pl_End nl' = pl_End nl \<and> pl_Type nl' = pl_Type nl \<and> pl_Pid nl' = pl_Pid nl \<and>
    (pl_Start nl' = pl_Start nl \<or> (\<exists>e. e < - 1 \<and> pl_Start nl' = e + 1 \<and> e \<le> pl_End l \<and> pl_Start nl \<le> e))"
    using assms(1,2,4)
  proof (cases rule: turn_cases)
    case (overlap B C e)
    have e: "e < - 1" "e \<le> pl_End l" "pl_Start nl \<le> e" "pl_Start l \<le> e"
      unfolding overlap(3) using assms overlap(5,6) by (auto simp: min_def)
    moreover have "\<forall>k \<in> set B. pl_Start k \<le> pl_End k \<and> pl_End k < - 1"
      unfolding overlap(7) using assms(2-) overlap(5,6) by (auto simp: le_minus_1 intro: minus_1_small)
    moreover have "\<forall>k \<in> set C. pl_Start k \<le> pl_End k \<and> pl_End k < - 1"
      unfolding overlap(8) using assms(3) by (auto simp: inc_le)
    ultimately show ?thesis unfolding overlap(1,2,4) by auto
  qed (use assms in auto)
  then show "\<forall>k \<in> set (l' # A). pl_Start k \<le> pl_End k \<and> pl_End k < - 1"
    and "pl_End nl' = pl_End nl" "pl_Type nl' = pl_Type nl" "pl_Pid nl' = pl_Pid nl"
    and "pl_Start nl' = pl_Start nl \<or> (\<exists>e. e < - 1 \<and> pl_Start nl' = e + 1 \<and> e \<le> pl_End l \<and> pl_Start nl \<le> e)"
    by blast+
qed

lemma lay_held:
  assumes "ranges_ok ls" and "pl_End nl < - 1" and "lay ls nl = (ls', A, nl')"
  shows "pl_End nl' = pl_End nl \<and> pl_Type nl' = pl_Type nl \<and> pl_Pid nl' = pl_Pid nl \<and>
    (\<forall>k \<in> set (ls' @ A). pl_Start k \<le> pl_End k \<and> pl_End k < - 1) \<and>
    (\<forall>x. held (ls' @ A) x + (if in_range x nl' then {#(pl_Type nl, pl_Pid nl)#} else {#}) =
       (if in_range x nl then {#(pl_Type nl, pl_Pid nl)#} else held ls x))"
  using assms
proof (induction ls nl arbitrary: ls' A nl' rule: lay.induct)
  case (2 l ls nl)
  have ok: "ranges_ok ls" "pl_Start l \<le> pl_End l" "pl_End l < - 1" and bef: "\<forall>b \<in> set ls. pl_End l < pl_Start b"
    using 2(2) by (auto simp: ranges_ok_def before_def)
  show ?case
  proof (cases "pl_Start nl \<le> pl_End nl")
    case False
    with 2(2,4) show ?thesis by (auto simp: ranges_ok_def in_range_def)
  next
    case True
    obtain l1 A1 nl1 where t: "turn l nl = (l1, A1, nl1)" by (metis surj_pair)
    obtain ls2 A2 where r: "lay ls nl1 = (ls2, A2, nl')" "ls' = l1 # ls2" "A = A1 @ A2"
      using 2(4) True t by (auto split: prod.splits)
    note tr = turn_ranges [OF t ok(2,3) True 2(3)]
    note th = turn_held [OF t ok(2) True 2(3)]
    have "pl_End nl1 < - 1" using tr(2) 2(3) by simp
    note IH = 2(1) [OF True t [symmetric] refl refl ok(1) this r(1)]
    have "held (ls' @ A) x + (if in_range x nl' then {#(pl_Type nl, pl_Pid nl)#} else {#}) =
        (if in_range x nl then {#(pl_Type nl, pl_Pid nl)#} else held (l # ls) x)" for x
    proof -
      have "held (ls' @ A) x + (if in_range x nl' then {#(pl_Type nl, pl_Pid nl)#} else {#}) =
          held (l1 # A1) x + (held (ls2 @ A2) x + (if in_range x nl' then {#(pl_Type nl, pl_Pid nl)#} else {#}))"
        by (simp add: r)
      also have "\<dots> = held (l1 # A1) x + (if in_range x nl1 then {#(pl_Type nl, pl_Pid nl)#} else held ls x)"
      proof -
        have "held (ls2 @ A2) x + (if in_range x nl' then {#(pl_Type nl, pl_Pid nl)#} else {#}) =
            (if in_range x nl1 then {#(pl_Type nl, pl_Pid nl)#} else held ls x)"
          using IH unfolding tr(3,4) by blast
        then show ?thesis by (simp only:)
      qed
      also have "\<dots> = (if in_range x nl then {#(pl_Type nl, pl_Pid nl)#} else held [l] x + held ls x)"
      proof (cases "pl_Start nl1 = pl_Start nl")
        case True
        then show ?thesis unfolding th by (auto simp: in_range_def tr(2))
      next
        case False
        with tr(5) obtain e where e: "e < - 1" "pl_Start nl1 = e + 1" "e \<le> pl_End l" "pl_Start nl \<le> e" by blast
        have "held ls x = {#}" if "x \<le> e" using that e(3) bef by (intro held_after) auto
        then show ?thesis unfolding th using e(4)
          by (auto simp: in_range_def tr(2) e(2) less_plus_1 [OF e(1)] plus_1_le [OF e(1)] not_le)
      qed
      finally show ?thesis by simp
    qed
    moreover have "\<forall>k \<in> set (ls' @ A). pl_Start k \<le> pl_End k \<and> pl_End k < - 1"
      using IH tr(1) by (auto simp: r)
    ultimately show ?thesis using IH tr(2-4) by simp
  qed
qed (auto simp: in_range_def)


section \<open>Joining ranges\<close>

function joined :: "plockRecord list \<Rightarrow> plockRecord list" where
  "joined [] = []"
| "joined [l] = (if pl_Type l = F_UNLCK \<or> pl_Start l > pl_End l then [] else [l])"
| "joined (l # k # ks) =
     (if pl_Type l = F_UNLCK \<or> pl_Start l > pl_End l then joined (k # ks)
      else if pl_Type l = pl_Type k \<and> pl_Pid l = pl_Pid k \<and> pl_End l + 1 = pl_Start k
      then l\<lparr>pl_End := pl_End k\<rparr> # joined (k\<lparr>pl_Start := pl_End k + 1\<rparr> # ks)
      else l # joined (k # ks))"
  by pat_completeness auto

termination by (relation "measure length") auto

lemma merge_loop_joined: "i \<le> length ls \<Longrightarrow> merge_loop i ls = take i ls @ joined (drop i ls)"
proof (induction i ls rule: merge_loop.induct)
  case (1 i ls)
  show ?case
  proof (cases "i < length ls")
    case False
    with 1 show ?thesis by (simp add: merge_loop.simps)
  next
    case True
    then obtain l ks where d: "drop i ls = l # ks" "ls ! i = l" "drop (Suc i) ls = ks"
      by (metis Cons_nth_drop_Suc)
    have t: "take (Suc i) ls = take i ls @ [l]" using True d by (simp add: take_Suc_conv_app_nth)
    have ls: "ls = take i ls @ l # ks" using d(1) by (metis append_take_drop_id)
    have len: "length (take i ls) = i" using True by simp
    show ?thesis
    proof (cases "pl_Type l = F_UNLCK \<or> pl_Start l > pl_End l")
      case rm: True
      have "merge_loop i ls = merge_loop i (take i ls @ ks)"
        using True rm d by (simp add: merge_loop.simps [of i ls])
      also have "\<dots> = take i (take i ls @ ks) @ joined (drop i (take i ls @ ks))"
        using 1(1) True rm d by simp
      also have "\<dots> = take i ls @ joined ks" using len by simp
      also have "joined ks = joined (l # ks)" using rm by (cases ks) auto
      finally show ?thesis using d by simp
    next
      case keep: False
      show ?thesis
      proof (cases ks)
        case Nil
        then have n: "length ls = Suc i" using d(3) True by (simp add: Suc_leI le_antisym)
        then have "merge_loop i ls = merge_loop (Suc i) ls"
          using True keep d by (simp add: merge_loop.simps [of i ls])
        also have "\<dots> = ls" using n by (simp add: merge_loop.simps)
        finally show ?thesis using keep d Nil ls by simp
      next
        case (Cons k rest)
        then have k: "Suc i < length ls" "ls ! Suc i = k" using d(3) by (metis drop_eq_Nil list.distinct(1) not_less, metis nth_via_drop)
        show ?thesis
        proof (cases "pl_Type l = pl_Type k \<and> pl_Pid l = pl_Pid k \<and> pl_End l + 1 = pl_Start k")
          case join: True
          let ?ls = "ls[i := l\<lparr>pl_End := pl_End k\<rparr>, Suc i := k\<lparr>pl_Start := pl_End k + 1\<rparr>]"
          have eq: "?ls = (take i ls @ [l\<lparr>pl_End := pl_End k\<rparr>]) @ k\<lparr>pl_Start := pl_End k + 1\<rparr> # rest"
            using len by (subst ls) (simp add: Cons list_update_append)
          have "merge_loop i ls = merge_loop (Suc i) ?ls"
            using True keep join k d by (simp add: merge_loop.simps [of i ls])
          also have "\<dots> = take (Suc i) ?ls @ joined (drop (Suc i) ?ls)"
            using 1(2) True keep join k d by simp
          also have "\<dots> = take i ls @ joined (l # ks)"
            unfolding eq using keep join Cons len by simp
          finally show ?thesis using d by simp
        next
          case apart: False
          have "merge_loop i ls = merge_loop (Suc i) ls"
            using True keep apart k d by (auto simp: merge_loop.simps [of i ls])
          also have "\<dots> = take (Suc i) ls @ joined (drop (Suc i) ls)"
            using 1(3) True keep apart k d by simp
          finally show ?thesis using keep apart Cons d t by auto
        qed
      qed
    qed
  qed
qed

lemma joined_starts:
  "\<forall>k \<in> set ls. pl_End k < - 1 \<Longrightarrow> b \<in> set (joined ls) \<Longrightarrow> \<exists>a \<in> set ls. pl_Start a = pl_Start b \<and> pl_Start a \<le> pl_End a"
proof (induction ls rule: joined.induct)
  case (3 l k ks)
  show ?case
  proof (cases "pl_Type l = F_UNLCK \<or> pl_Start l > pl_End l")
    case True
    with 3 show ?thesis by auto
  next
    case keep: False
    show ?thesis
    proof (cases "pl_Type l = pl_Type k \<and> pl_Pid l = pl_Pid k \<and> pl_End l + 1 = pl_Start k")
      case False
      with 3 keep show ?thesis by auto
    next
      case True
      have "\<not> pl_End k + 1 \<le> pl_End k" using "3.prems"(1) by (auto simp: inc_less_eq_self_iff_eq)
      with 3 keep True show ?thesis by auto
    qed
  qed
qed (auto split: if_splits)

text \<open>Joining keeps the locked bytes, and the order of the ranges.\<close>

lemma joined_held:
  assumes "\<forall>k \<in> set (tl ls). pl_Start k \<le> pl_End k" and "\<forall>k \<in> set ls. pl_End k < - 1"
  shows "held (joined ls) x = filter_mset (\<lambda>v. fst v \<noteq> F_UNLCK) (held ls x)"
  using assms
proof (induction ls rule: joined.induct)
  case (3 l k ks)
  have k: "pl_Start k \<le> pl_End k" "pl_End k < - 1" "pl_End l < - 1" using "3.prems" by auto
  show ?case
  proof (cases "pl_Type l = F_UNLCK \<or> pl_Start l > pl_End l")
    case True
    then have "filter_mset (\<lambda>v. fst v \<noteq> F_UNLCK) (held [l] x) = {#}" by (auto simp: in_range_def)
    with True 3 show ?thesis by auto
  next
    case keep: False
    show ?thesis
    proof (cases "pl_Type l = pl_Type k \<and> pl_Pid l = pl_Pid k \<and> pl_End l + 1 = pl_Start k")
      case join: True
      let ?k = "k\<lparr>pl_Start := pl_End k + 1\<rparr>"
      have "held (joined (?k # ks)) x = filter_mset (\<lambda>v. fst v \<noteq> F_UNLCK) (held (?k # ks) x)"
        using 3(2) keep join "3.prems" by simp
      also have "held (?k # ks) x = held ks x"
        using k(2) by (auto simp: in_range_def plus_1_le [OF k(2)])
      finally have IH: "held (joined (?k # ks)) x = filter_mset (\<lambda>v. fst v \<noteq> F_UNLCK) (held ks x)" .
      have "in_range x (l\<lparr>pl_End := pl_End k\<rparr>) \<longleftrightarrow> in_range x l \<or> in_range x k"
        "\<not> (in_range x l \<and> in_range x k)"
        using keep join k plus_1_le [OF k(3), of x] by (auto simp: in_range_def)
      then show ?thesis using keep join IH by auto
    next
      case False
      with 3 keep show ?thesis by auto
    qed
  qed
qed (auto simp: in_range_def)

lemma joined_ok:
  assumes "sorted_wrt before ls" and "\<forall>k \<in> set (tl ls). pl_Start k \<le> pl_End k" and "\<forall>k \<in> set ls. pl_End k < - 1"
  shows "plocks_ok (joined ls)"
  using assms
proof (induction ls rule: joined.induct)
  case (3 l k ks)
  have k: "pl_Start k \<le> pl_End k" "pl_End k < - 1" "pl_End l < - 1" using "3.prems" by auto
  show ?case
  proof (cases "pl_Type l = F_UNLCK \<or> pl_Start l > pl_End l")
    case True
    with 3 show ?thesis by auto
  next
    case keep: False
    show ?thesis
    proof (cases "pl_Type l = pl_Type k \<and> pl_Pid l = pl_Pid k \<and> pl_End l + 1 = pl_Start k")
      case join: True
      let ?k = "k\<lparr>pl_Start := pl_End k + 1\<rparr>"
      have "\<forall>b \<in> set ks. before k b" using "3.prems"(1) by simp
      then have "\<forall>b \<in> set ks. before ?k b" by (simp add: before_def)
      then have "sorted_wrt before (?k # ks)" using "3.prems"(1) by simp
      then have IH: "plocks_ok (joined (?k # ks))" using 3(2) keep join "3.prems" by simp
      have "\<forall>b \<in> set (joined (?k # ks)). pl_End k < pl_Start b"
      proof
        fix b assume "b \<in> set (joined (?k # ks))"
        moreover have "\<forall>a \<in> set (?k # ks). pl_End a < - 1" using "3.prems"(3) by simp
        ultimately obtain a where "a \<in> set (?k # ks)" "pl_Start a = pl_Start b" "pl_Start a \<le> pl_End a"
          by (blast dest: joined_starts)
        moreover have "\<not> pl_End k + 1 \<le> pl_End k" using plus_1_le [OF k(2), of "pl_End k"] by simp
        ultimately show "pl_End k < pl_Start b" using "3.prems"(1) by (auto simp: before_def)
      qed
      moreover have "pl_Start l \<le> pl_End k" using keep join k plus_1_le [OF k(3), of "pl_Start k"] by auto
      ultimately show ?thesis using IH keep join k by (auto simp: plocks_ok_def ranges_ok_def before_def)
    next
      case apart: False
      then have IH: "plocks_ok (joined (k # ks))" using 3(3) keep "3.prems" by auto
      have "\<forall>b \<in> set (joined (k # ks)). pl_End l < pl_Start b"
        using "3.prems"(1,3) joined_starts [of "k # ks"] by (fastforce simp: before_def)
      with IH keep apart k show ?thesis by (auto simp: plocks_ok_def ranges_ok_def before_def)
    qed
  qed
qed (auto simp: plocks_ok_def ranges_ok_def)


section \<open>The result of updateLocks\<close>

lemma sorted_disjoint:
  assumes "sorted (map pl_Start ls)" and "\<forall>l \<in> set ls. pl_Start l \<le> pl_End l" and "\<And>x. size (held ls x) \<le> 1"
  shows "sorted_wrt before ls"
  using assms
proof (induction ls)
  case (Cons a ls)
  have "size (held ls x) \<le> 1" for x using Cons.prems(3) [of x] by (auto split: if_splits)
  with Cons have "sorted_wrt before ls" by simp
  moreover have "before a b" if b: "b \<in> set ls" for b
  proof (rule ccontr)
    assume "\<not> before a b"
    then have "in_range (pl_Start b) a" using Cons.prems(1) b by (auto simp: before_def in_range_def)
    moreover have "in_range (pl_Start b) b" using Cons.prems(2) b by (simp add: in_range_def)
    then have "(pl_Type b, pl_Pid b) \<in># held ls (pl_Start b)" using b by (auto simp: held_def)
    then have "0 < size (held ls (pl_Start b))" by (metis gr_zeroI size_eq_0_iff_empty empty_not_add_mset multi_member_split)
    ultimately show False using Cons.prems(3) [of "pl_Start b"] by simp
  qed
  ultimately show ?case by simp
qed simp

lemma in_set_tl: "k \<in> set (tl ls) \<Longrightarrow> k \<in> set ls"
  by (cases ls) simp_all

lemma updateLocks_held:
  assumes "ranges_ok ls" and "pl_Start nl \<le> pl_End nl" and "pl_End nl < - 1"
  shows "plocks_ok (updateLocks ls nl)"
    and "held (updateLocks ls nl) x = filter_mset (\<lambda>v. fst v \<noteq> F_UNLCK)
      (if in_range x nl then {#(pl_Type nl, pl_Pid nl)#} else held ls x)"
proof -
  obtain ls' A nl' where lay: "lay ls nl = (ls', A, nl')" by (metis surj_pair)
  note lh = lay_held [OF assms(1,3) lay]
  let ?all = "ls' @ A @ (if pl_Start nl' \<le> pl_End nl' then [nl'] else [])"
  have loop: "update_loop [0..<length ls] (ls, nl) = (ls' @ A, nl')"
    using update_loop_lay [OF lay, of "[]" "[]"] by simp
  have upd: "updateLocks ls nl = joined (sort_key pl_Start ?all)"
    unfolding updateLocks_def loop by (simp add: merge_loop_joined)
  have heldE: "held ?all x = (if in_range x nl then {#(pl_Type nl, pl_Pid nl)#} else held ls x)" for x
  proof -
    have "held ?all x = held (ls' @ A) x + (if in_range x nl' then {#(pl_Type nl, pl_Pid nl)#} else {#})"
      using lh by (auto simp: in_range_def)
    with lh show ?thesis by simp
  qed
  have fine: "\<forall>k \<in> set ?all. pl_Start k \<le> pl_End k \<and> pl_End k < - 1"
    using lh assms(3) by auto
  have one: "size (held ls x) \<le> 1" for x
    using held_lock_at [of ls x] assms(1) by (auto simp: ranges_ok_def split: option.splits)
  have sorted: "sorted_wrt before (sort_key pl_Start ?all)"
  proof (rule sorted_disjoint)
    show "size (held (sort_key pl_Start ?all) x) \<le> 1" for x
      using one by (simp only: held_sort_key heldE) simp
    show "sorted (map pl_Start (sort_key pl_Start ?all))" by (rule sorted_sort_key)
    show "\<forall>l \<in> set (sort_key pl_Start ?all). pl_Start l \<le> pl_End l" unfolding set_sort using fine by blast
  qed
  have tl: "\<forall>k \<in> set (tl (sort_key pl_Start ?all)). pl_Start k \<le> pl_End k"
  proof
    fix k assume "k \<in> set (tl (sort_key pl_Start ?all))"
    then have "k \<in> set (sort_key pl_Start ?all)" by (rule in_set_tl)
    then show "pl_Start k \<le> pl_End k" unfolding set_sort using fine by blast
  qed
  have ends: "\<forall>k \<in> set (sort_key pl_Start ?all). pl_End k < - 1" unfolding set_sort using fine by blast
  show "plocks_ok (updateLocks ls nl)"
    unfolding upd by (rule joined_ok [OF sorted tl ends])
  show "held (updateLocks ls nl) x = filter_mset (\<lambda>v. fst v \<noteq> F_UNLCK)
      (if in_range x nl then {#(pl_Type nl, pl_Pid nl)#} else held ls x)"
    unfolding upd joined_held [OF tl ends] held_sort_key heldE ..
qed

text \<open>Byte by byte: \<open>updateLocks\<close> sets the lock on the bytes of the new range and nothing else.\<close>

lemma updateLocks_lock_at:
  assumes "plocks_ok ls" and "pl_Start nl \<le> pl_End nl" and "pl_End nl < - 1"
  shows "lock_at (updateLocks ls nl) x =
    (if in_range x nl then if pl_Type nl = F_UNLCK then None else Some (pl_Type nl, pl_Pid nl) else lock_at ls x)"
proof -
  have ok: "ranges_ok ls" using assms(1) by (simp add: plocks_ok_def)
  have "sorted_wrt before (updateLocks ls nl)" "sorted_wrt before ls"
    using updateLocks_held(1) [OF ok assms(2,3)] ok by (simp_all add: plocks_ok_def ranges_ok_def)
  note den = held_lock_at [OF this(1), of x] held_lock_at [OF this(2), of x]
  have "fst v \<noteq> F_UNLCK" if "lock_at ls x = Some v" for v
    using that assms(1) by (auto simp: lock_at_def plocks_ok_def find_Some_iff)
  with updateLocks_held(2) [OF ok assms(2,3), of x] den show ?thesis
    by (auto split: option.splits if_splits)
qed


section \<open>Property\<close>

text \<open>C14: Laying a lock over the ranges of its owner changes exactly the bytes of the new range: they get the new
  lock, or none when it unlocks, every other byte keeps its lock; and the result is again ordered, without
  overlap, without empty and unlocked ranges. The splitting, sorting and merging does what a table of all
  bytes would.\<close>

theorem updateLocks_bytewise:
  assumes "plocks_ok ls" and "pl_Start nl \<le> pl_End nl" and "pl_End nl < - 1"
  shows "plocks_ok (updateLocks ls nl) \<and>
    lock_at (updateLocks ls nl) = (\<lambda>x.
      if pl_Start nl \<le> x \<and> x \<le> pl_End nl
      then if pl_Type nl = F_UNLCK then None else Some (pl_Type nl, pl_Pid nl) else lock_at ls x)"
proof
  have "ranges_ok ls" using assms(1) by (simp add: plocks_ok_def)
  then show "plocks_ok (updateLocks ls nl)" by (rule updateLocks_held(1) [OF _ assms(2,3)])
qed (simp add: updateLocks_lock_at [OF assms] in_range_def fun_eq_iff)

definition sample_plocks :: "plockRecord list" where
  "sample_plocks = [\<lparr>pl_Type = F_RDLCK, pl_Pid = 3, pl_Start = 0, pl_End = 9\<rparr>,
     \<lparr>pl_Type = F_WRLCK, pl_Pid = 3, pl_Start = 20, pl_End = 29\<rparr>]"

theorem updateLocks_bytewise_witness:
  "lock_at (updateLocks sample_plocks \<lparr>pl_Type = F_UNLCK, pl_Pid = 3, pl_Start = 5, pl_End = 24\<rparr>) 24 = None \<and>
   lock_at (updateLocks sample_plocks \<lparr>pl_Type = F_UNLCK, pl_Pid = 3, pl_Start = 5, pl_End = 24\<rparr>) 4 = Some (F_RDLCK, 3)"
proof -
  let ?nl = "\<lparr>pl_Type = F_UNLCK, pl_Pid = 3, pl_Start = 5, pl_End = 24\<rparr>"
  have "plocks_ok sample_plocks"
    by (simp add: plocks_ok_def ranges_ok_def before_def sample_plocks_def F_RDLCK_def F_WRLCK_def F_UNLCK_def)
  from updateLocks_bytewise [OF this, of ?nl] show ?thesis
    by (simp add: sample_plocks_def lock_at_def in_range_def)
qed

end
