(* ===== verification/JFS_Txn.thy ===== *)
theory JFS_Txn
  imports "HOL-Library.Stream"
begin


text \<open>
  The transactions of the JuiceFS metadata on a key-value engine (pkg/meta/tkv.go, \<open>txn\<close>) and the errors of the
  calls. The body of a transaction is a function on the state \<open>'s\<close> of the client and the engine; \<open>None\<close> is a
  panic. When a try is not committed, the writes of the body are dropped: \<open>discard s s'\<close> is what is left of
  the state \<open>s'\<close> after a body that was started in \<open>s\<close>.
\<close>

text \<open>\<open>syscall.Errno\<close>, 0 first, and the errors of the engine.\<close>

datatype Errno = E0 | EPERM | ENOENT | EINTR | EIO | EAGAIN | EACCES | EINVAL | ENOSPC | EROFS | ENOATTR | EDQUOT | ENOTSUP | EPIPE

datatype kverr = Eno Errno | RedisNil | OtherErr string

definition errno :: "kverr option \<Rightarrow> Errno" where
  "errno err = (case err of None \<Rightarrow> E0
   | Some (Eno e) \<Rightarrow> e
   | Some RedisNil \<Rightarrow> ENOENT
   | Some (OtherErr m) \<Rightarrow> if take 3 m = ''OOM'' then ENOSPC else EIO)"

text \<open>What the engine does with a try: it commits, or it finds a conflict with another client, which changed the
  state as the function says, or it fails. A try that was committed but is reported as failed is not modelled; the
  second look of \<open>doCompactChunk\<close>, which is meant for this case, therefore finds nothing new.\<close>

datatype 's engine_try = Commit | Conflict kverr "'s \<Rightarrow> 's" | Fails kverr

text \<open>The loop of \<open>txn\<close>: at most 50 tries, then the last error.\<close>

fun txn_tries :: "('s \<Rightarrow> 's \<Rightarrow> 's) \<Rightarrow> nat \<Rightarrow> 's engine_try stream \<Rightarrow> kverr option \<Rightarrow>
    ('s \<Rightarrow> (kverr option \<times> 's) option) \<Rightarrow> 's \<Rightarrow> (kverr option \<times> 's) option" where
  "txn_tries discard 0 os lastErr f s = Some (lastErr, s)"
| "txn_tries discard (Suc n) os lastErr f s =
     (case f s of None \<Rightarrow> None
      | Some (Some e, s') \<Rightarrow> Some (Some e, discard s s')
      | Some (None, s') \<Rightarrow> (case shd os of
          Commit \<Rightarrow> Some (None, s')
        | Conflict e other \<Rightarrow> txn_tries discard n (stl os) (Some e) f (other (discard s s'))
        | Fails e \<Rightarrow> Some (Some e, discard s s')))"

definition kv_txn :: "('s \<Rightarrow> 's \<Rightarrow> 's) \<Rightarrow> bool \<Rightarrow> 's engine_try stream \<Rightarrow> ('s \<Rightarrow> (kverr option \<times> 's) option) \<Rightarrow> 's \<Rightarrow>
    (kverr option \<times> 's) option" where
  "kv_txn discard readOnly os f s =
     (if readOnly then Some (Some (Eno EROFS), s) else txn_tries discard 50 os None f s)"

section \<open>The environment of a transaction\<close>

text \<open>What the engine and the other clients may do between two tries: \<open>Q\<close> holds between the states before and after.\<close>

definition try_ok :: "('s \<Rightarrow> 's \<Rightarrow> bool) \<Rightarrow> 's engine_try \<Rightarrow> bool" where
  "try_ok Q t \<longleftrightarrow> (case t of Commit \<Rightarrow> True | Conflict e other \<Rightarrow> e \<noteq> Eno E0 \<and> (\<forall>s. Q s (other s)) | Fails e \<Rightarrow> e \<noteq> Eno E0)"

lemma errno_E0: "errno err = E0 \<longleftrightarrow> err = None \<or> err = Some (Eno E0)"
  by (auto simp: errno_def split: option.splits kverr.splits)

text \<open>A transaction takes effect at most once, on a state that is reached by the others alone.\<close>

lemma txn_tries_run:
  assumes "txn_tries discard n os lastErr f s = Some (err, s')" and "\<And>t. t \<in> sset os \<Longrightarrow> try_ok Q t"
    and "reflp Q" and "transp Q" and "\<And>s e s'. f s = Some (e, s') \<Longrightarrow> e \<noteq> Some (Eno E0) \<and> Q s (discard s s')"
    and "if n = 0 then lastErr \<noteq> None else True" and "lastErr \<noteq> Some (Eno E0)"
  shows "\<exists>s1. Q s s1 \<and> (if err = None then f s1 = Some (None, s') else s' = s1) \<and> err \<noteq> Some (Eno E0)"
  using assms(1,2,6,7)
proof (induction n arbitrary: os lastErr s)
  case 0
  with \<open>reflp Q\<close> show ?case by (auto dest: reflpD)
next
  case (Suc n)
  obtain e1 s2 where f: "f s = Some (e1, s2)" using Suc.prems(1) by (auto split: option.splits prod.splits)
  note fs = assms(5) [OF f]
  have tl: "\<And>t. t \<in> sset (stl os) \<Longrightarrow> try_ok Q t" by (rule Suc.prems(2)) (rule stl_sset)
  have hd: "try_ok Q (shd os)" by (rule Suc.prems(2)) (rule shd_sset)
  show ?case
  proof (cases e1)
    case (Some e)
    with f Suc.prems(1) fs show ?thesis by auto
  next
    case None
    show ?thesis
    proof (cases "shd os")
      case (Conflict e other)
      with hd have o: "e \<noteq> Eno E0" "Q (discard s s2) (other (discard s s2))" by (simp_all add: try_ok_def)
      have "txn_tries discard n (stl os) (Some e) f (other (discard s s2)) = Some (err, s')" using Suc.prems(1) f None Conflict by simp
      then have "\<exists>s1. Q (other (discard s s2)) s1 \<and> (if err = None then f s1 = Some (None, s') else s' = s1) \<and> err \<noteq> Some (Eno E0)"
        by (rule Suc.IH) (use tl o(1) in auto)
      then show ?thesis using transpD [OF \<open>transp Q\<close>] fs o(2) by meson
    qed (use Suc.prems(1) f None hd fs \<open>reflp Q\<close> in \<open>auto simp: try_ok_def dest: reflpD\<close>)
  qed
qed

lemma kv_txn_run:
  assumes "kv_txn discard ro os f s = Some (err, s')" and "\<And>t. t \<in> sset os \<Longrightarrow> try_ok Q t"
    and "reflp Q" and "transp Q" and "\<And>s e s'. f s = Some (e, s') \<Longrightarrow> e \<noteq> Some (Eno E0) \<and> Q s (discard s s')"
  shows "\<exists>s1. Q s s1 \<and> (if err = None then f s1 = Some (None, s') else s' = s1) \<and> err \<noteq> Some (Eno E0)"
proof (cases ro)
  case False
  with assms(1) have "txn_tries discard 50 os None f s = Some (err, s')" by (simp add: kv_txn_def)
  from txn_tries_run [OF this assms(2-5)] show ?thesis by simp
qed (use assms(1) \<open>reflp Q\<close> in \<open>auto simp: kv_txn_def dest: reflpD\<close>)

end
