(* ===== verification/JFS_Buffer.thy ===== *)
theory JFS_Buffer
  imports "HOL-Library.Word"
begin


text \<open>
  The integer buffers of JuiceFS (pkg/utils/buffer.go): a fixed array with an offset, written and read in
  big-endian order. A read or a write beyond the array panics (\<open>None\<close>). The locale \<open>buffer_field\<close> is what the
  users of a buffer need of a pair of methods: what is written at the offset is what is read there.
\<close>

unbundle bit_operations_syntax

section \<open>The buffer\<close>

record Buffer =
  buf_off :: nat
  buf_buf :: "8 word list"

definition FromBuffer :: "8 word list \<Rightarrow> Buffer" where
  "FromBuffer bs = \<lparr>buf_off = 0, buf_buf = bs\<rparr>"

definition NewBuffer :: "32 word \<Rightarrow> Buffer" where
  "NewBuffer sz = FromBuffer (replicate (unat sz) 0)"

definition ReadBuffer :: "8 word list \<Rightarrow> Buffer" where
  "ReadBuffer bs = FromBuffer bs"

definition HasMore :: "Buffer \<Rightarrow> bool" where
  "HasMore b \<longleftrightarrow> buf_off b < length (buf_buf b)"

definition Left :: "Buffer \<Rightarrow> int" where
  "Left b = int (length (buf_buf b)) - int (buf_off b)"

definition Bytes :: "Buffer \<Rightarrow> 8 word list" where
  "Bytes b = buf_buf b"

text \<open>The assignment to and the slice \<open>b.buf[b.off : b.off+n]\<close>, and the step of the offset.\<close>

definition put_bytes :: "8 word list \<Rightarrow> Buffer \<Rightarrow> Buffer option" where
  "put_bytes v b = (let o1 = buf_off b; n = length v in
     if o1 + n \<le> length (buf_buf b)
     then Some \<lparr>buf_off = o1 + n, buf_buf = take o1 (buf_buf b) @ v @ drop (o1 + n) (buf_buf b)\<rparr> else None)"

definition get_bytes :: "nat \<Rightarrow> Buffer \<Rightarrow> (8 word list \<times> Buffer) option" where
  "get_bytes n b = (let o1 = buf_off b in
     if o1 + n \<le> length (buf_buf b)
     then Some (take n (drop o1 (buf_buf b)), b\<lparr>buf_off := o1 + n\<rparr>) else None)"

text \<open>\<open>binary.BigEndian\<close>\<close>

definition PutUint16 :: "16 word \<Rightarrow> 8 word list" where
  "PutUint16 v = [ucast (drop_bit 8 v), ucast v]"

definition Uint16 :: "8 word list \<Rightarrow> 16 word" where
  "Uint16 b = ucast (b ! 1) OR push_bit 8 (ucast (b ! 0))"

definition PutUint32 :: "32 word \<Rightarrow> 8 word list" where
  "PutUint32 v = [ucast (drop_bit 24 v), ucast (drop_bit 16 v), ucast (drop_bit 8 v), ucast v]"

definition Uint32 :: "8 word list \<Rightarrow> 32 word" where
  "Uint32 b = ucast (b ! 3) OR push_bit 8 (ucast (b ! 2)) OR push_bit 16 (ucast (b ! 1)) OR push_bit 24 (ucast (b ! 0))"

definition PutUint64 :: "64 word \<Rightarrow> 8 word list" where
  "PutUint64 v = [ucast (drop_bit 56 v), ucast (drop_bit 48 v), ucast (drop_bit 40 v), ucast (drop_bit 32 v),
     ucast (drop_bit 24 v), ucast (drop_bit 16 v), ucast (drop_bit 8 v), ucast v]"

definition Uint64 :: "8 word list \<Rightarrow> 64 word" where
  "Uint64 b = ucast (b ! 7) OR push_bit 8 (ucast (b ! 6)) OR push_bit 16 (ucast (b ! 5)) OR push_bit 24 (ucast (b ! 4)) OR
     push_bit 32 (ucast (b ! 3)) OR push_bit 40 (ucast (b ! 2)) OR push_bit 48 (ucast (b ! 1)) OR push_bit 56 (ucast (b ! 0))"

definition Put8 :: "8 word \<Rightarrow> Buffer \<Rightarrow> Buffer option" where
  "Put8 v = put_bytes [v]"

definition Get8 :: "Buffer \<Rightarrow> (8 word \<times> Buffer) option" where
  "Get8 b = map_option (\<lambda>(v, b'). (v ! 0, b')) (get_bytes 1 b)"

definition Put16 :: "16 word \<Rightarrow> Buffer \<Rightarrow> Buffer option" where
  "Put16 v = put_bytes (PutUint16 v)"

definition Get16 :: "Buffer \<Rightarrow> (16 word \<times> Buffer) option" where
  "Get16 b = map_option (\<lambda>(v, b'). (Uint16 v, b')) (get_bytes 2 b)"

definition Put32 :: "32 word \<Rightarrow> Buffer \<Rightarrow> Buffer option" where
  "Put32 v = put_bytes (PutUint32 v)"

definition Get32 :: "Buffer \<Rightarrow> (32 word \<times> Buffer) option" where
  "Get32 b = map_option (\<lambda>(v, b'). (Uint32 v, b')) (get_bytes 4 b)"

definition Put64 :: "64 word \<Rightarrow> Buffer \<Rightarrow> Buffer option" where
  "Put64 v = put_bytes (PutUint64 v)"

definition Get64 :: "Buffer \<Rightarrow> (64 word \<times> Buffer) option" where
  "Get64 b = map_option (\<lambda>(v, b'). (Uint64 v, b')) (get_bytes 8 b)"

definition Put :: "8 word list \<Rightarrow> Buffer \<Rightarrow> Buffer option" where
  "Put = put_bytes"

definition Get :: "nat \<Rightarrow> Buffer \<Rightarrow> (8 word list \<times> Buffer) option" where
  "Get = get_bytes"

text \<open>A loop \<open>for rb.HasMore()\<close> that appends what it reads. \<open>n\<close> bounds the turns; the length of the array is
  enough, since every turn consumes a byte (\<open>read_all_enough\<close> below).\<close>

fun read_all :: "(Buffer \<Rightarrow> ('a \<times> Buffer) option) \<Rightarrow> nat \<Rightarrow> Buffer \<Rightarrow> 'a list option" where
  "read_all rd n b = (if \<not> HasMore b then Some [] else
     (case n of 0 \<Rightarrow> None | Suc n' \<Rightarrow>
       Option.bind (rd b) (\<lambda>(x, b'). map_option (\<lambda>xs. x # xs) (read_all rd n' b'))))"

declare read_all.simps [simp del]

fun read_n :: "(Buffer \<Rightarrow> ('a \<times> Buffer) option) \<Rightarrow> nat \<Rightarrow> Buffer \<Rightarrow> ('a list \<times> Buffer) option" where
  "read_n rd 0 b = Some ([], b)"
| "read_n rd (Suc n) b = Option.bind (rd b) (\<lambda>(x, b). Option.bind (read_n rd n b) (\<lambda>(xs, b). Some (x # xs, b)))"

fun write_all :: "('a \<Rightarrow> Buffer \<Rightarrow> Buffer option) \<Rightarrow> 'a list \<Rightarrow> Buffer \<Rightarrow> Buffer option" where
  "write_all wr [] b = Some b"
| "write_all wr (x # xs) b = Option.bind (wr x b) (write_all wr xs)"

section \<open>Fields\<close>

lemma read_all_enough:
  assumes "\<And>b x b'. rd b = Some (x, b') \<Longrightarrow> HasMore b \<Longrightarrow> Left b' < Left b"
    and "Left b \<le> int n"
  shows "read_all rd (Suc n) b = read_all rd n b"
  using assms(2)
proof (induction n arbitrary: b)
  case 0
  then show ?case by (simp add: read_all.simps HasMore_def Left_def)
next
  case (Suc n)
  have "read_all rd (Suc n) b' = read_all rd n b'" if "rd b = Some (x, b')" "HasMore b" for x b'
    using Suc.IH Suc.prems assms(1) [OF that] by simp
  then show ?case
    by (simp add: read_all.simps [of rd "Suc (Suc n)" b] read_all.simps [of rd "Suc n" b] split: option.splits Option.bind_splits)
qed

text \<open>A buffer with the bytes \<open>a\<close> before the offset and \<open>c\<close> after it.\<close>

definition at :: "8 word list \<Rightarrow> 8 word list \<Rightarrow> Buffer" where
  "at a c = \<lparr>buf_off = length a, buf_buf = a @ c\<rparr>"

lemma FromBuffer_at: "FromBuffer bs = at [] bs" "ReadBuffer bs = at [] bs" "NewBuffer n = at [] (replicate (unat n) 0)"
  by (simp_all add: at_def FromBuffer_def ReadBuffer_def NewBuffer_def)

lemma HasMore_at [simp]: "HasMore (at a c) \<longleftrightarrow> c \<noteq> []"
  by (simp add: HasMore_def at_def)

lemma Bytes_at [simp]: "Bytes (at a c) = a @ c"
  by (simp add: Bytes_def at_def)

lemma put_bytes_at: "length v \<le> length c \<Longrightarrow> put_bytes v (at a c) = Some (at (a @ v) (drop (length v) c))"
  by (simp add: put_bytes_def at_def Let_def)

lemma put_bytes_panics: "length c < length v \<Longrightarrow> put_bytes v (at a c) = None"
  by (simp add: put_bytes_def at_def Let_def)

lemma get_bytes_at: "length v = n \<Longrightarrow> get_bytes n (at a (v @ c)) = Some (v, at (a @ v) c)"
  by (simp add: get_bytes_def at_def Let_def)

locale buffer_field =
  fixes enc :: "'a \<Rightarrow> 8 word list"
    and put :: "'a \<Rightarrow> Buffer \<Rightarrow> Buffer option"
    and get :: "Buffer \<Rightarrow> ('a \<times> Buffer) option"
    and valid :: "'a \<Rightarrow> bool"
  assumes put_at: "length (enc v) \<le> length c \<Longrightarrow> put v (at a c) = Some (at (a @ enc v) (drop (length (enc v)) c))"
    and put_short: "length c < length (enc v) \<Longrightarrow> put v (at a c) = None"
    and get_at: "valid v \<Longrightarrow> get (at a (enc v @ c)) = Some (v, at (a @ enc v) c)"
begin

text \<open>Reading from a buffer into which the value was written, at the place where it was written.\<close>

lemma get_put: "valid v \<Longrightarrow> put v (at a c) = Some b \<Longrightarrow> length (enc v) \<le> length c \<Longrightarrow>
    \<exists>c'. Bytes b = a @ enc v @ c' \<and> get (at a (enc v @ c')) = Some (v, b)"
  by (auto simp: put_at get_at)

lemma enc_inj: "valid v \<Longrightarrow> valid w \<Longrightarrow> enc v @ c = enc w @ c' \<Longrightarrow> v = w \<and> c = c'"
  using get_at [of v "[]" c] get_at [of w "[]" c'] by (simp add: at_def)

text \<open>The loops that write a list, that read as long as there is more, and that read a given number.\<close>

lemma write_all_at:
  "write_all put vs (at a c) = (if length (concat (map enc vs)) \<le> length c
     then Some (at (a @ concat (map enc vs)) (drop (length (concat (map enc vs))) c)) else None)"
proof (induction vs arbitrary: a c)
  case (Cons v vs)
  show ?case
  proof (cases "length (enc v) \<le> length c")
    case True
    then show ?thesis by (simp add: put_at Cons.IH add.commute le_diff_conv2)
  qed (simp add: put_short)
qed simp

text \<open>A buffer whose size was computed with wrap-around: the list is written completely or the call panics.\<close>

lemma write_all_new:
  assumes "n = of_nat (length (concat (map enc vs)))"
  shows "map_option Bytes (write_all put vs (NewBuffer n)) =
    (if length (concat (map enc vs)) < 2 ^ 32 then Some (concat (map enc vs)) else None)"
proof -
  let ?l = "length (concat (map enc vs))"
  have n: "unat n = ?l mod 2 ^ 32" unfolding assms by (simp add: unat_of_nat)
  show ?thesis
  proof (cases "?l < 2 ^ 32")
    case True
    with n show ?thesis by (simp add: FromBuffer_at write_all_at)
  next
    case False
    have "?l mod 2 ^ 32 < 2 ^ 32" by simp
    with False n have "unat n < ?l" by linarith
    with False show ?thesis by (simp add: FromBuffer_at write_all_at)
  qed
qed

lemma read_n_at: "list_all valid vs \<Longrightarrow> read_n get (length vs) (at a (concat (map enc vs) @ c)) = Some (vs, at (a @ concat (map enc vs)) c)"
  by (induction vs arbitrary: a) (simp_all add: get_at)

lemma read_all_at:
  assumes "\<And>v. enc v \<noteq> []" and "list_all valid vs" and "length vs \<le> n"
  shows "read_all get n (at a (concat (map enc vs))) = Some vs"
  using assms(2,3)
proof (induction vs arbitrary: a n)
  case (Cons v vs)
  then obtain n' where "n = Suc n'" by (cases n) auto
  with Cons assms(1) show ?case by (simp add: read_all.simps [of get "Suc n'"] get_at)
qed (simp add: read_all.simps)

lemma read_all_bytes:
  assumes "\<And>v. enc v \<noteq> []" and "list_all valid vs" and "d = concat (map enc vs)"
  shows "read_all get (length d) (FromBuffer d) = Some vs"
proof -
  have "length vs \<le> length (concat (map enc vs))"
  proof (induction vs)
    case (Cons v vs)
    then show ?case using assms(1) [of v] by (cases "enc v") simp_all
  qed simp
  then show ?thesis unfolding FromBuffer_at assms(3) by (intro read_all_at assms(1,2))
qed

end

lemma Uint16_PutUint16 [simp]: "Uint16 (PutUint16 v) = v"
proof (rule bit_word_eqI)
  fix n assume "n < LENGTH(16)"
  then consider "n < 8" | "8 \<le> n" "n < 16" by fastforce
  then show "bit (Uint16 (PutUint16 v)) n \<longleftrightarrow> bit v n"
    by cases (simp_all add: Uint16_def PutUint16_def bit_simps less_diff_conv2)
qed

lemma Uint32_PutUint32 [simp]: "Uint32 (PutUint32 v) = v"
proof (rule bit_word_eqI)
  fix n assume "n < LENGTH(32)"
  then consider "n < 8" | "8 \<le> n" "n < 16" | "16 \<le> n" "n < 24" | "24 \<le> n" "n < 32" by fastforce
  then show "bit (Uint32 (PutUint32 v)) n \<longleftrightarrow> bit v n"
    by cases (simp_all add: Uint32_def PutUint32_def bit_simps less_diff_conv2)
qed

lemma Uint64_PutUint64 [simp]: "Uint64 (PutUint64 v) = v"
proof (rule bit_word_eqI)
  fix n assume "n < LENGTH(64)"
  then consider "n < 8" | "8 \<le> n" "n < 16" | "16 \<le> n" "n < 24" | "24 \<le> n" "n < 32" | "32 \<le> n" "n < 40"
    | "40 \<le> n" "n < 48" | "48 \<le> n" "n < 56" | "56 \<le> n" "n < 64" by fastforce
  then show "bit (Uint64 (PutUint64 v)) n \<longleftrightarrow> bit v n"
    by cases (simp_all add: Uint64_def PutUint64_def bit_simps less_diff_conv2)
qed

lemma length_Put [simp]: "length (PutUint16 x) = 2" "length (PutUint32 v) = 4" "length (PutUint64 w) = 8"
  by (simp_all add: PutUint16_def PutUint32_def PutUint64_def)

interpretation f8: buffer_field "\<lambda>v. [v]" Put8 Get8 "\<lambda>_. True"
proof
  show "Get8 (at a ([v] @ c)) = Some (v, at (a @ [v]) c)" for a v c
    using get_bytes_at [of "[v]" 1 a c] by (simp add: Get8_def)
qed (simp_all add: Put8_def put_bytes_at put_bytes_panics)

interpretation f16: buffer_field PutUint16 Put16 Get16 "\<lambda>_. True"
  by unfold_locales (simp_all add: Put16_def Get16_def put_bytes_at put_bytes_panics get_bytes_at)

interpretation f32: buffer_field PutUint32 Put32 Get32 "\<lambda>_. True"
  by unfold_locales (simp_all add: Put32_def Get32_def put_bytes_at put_bytes_panics get_bytes_at)

interpretation f64: buffer_field PutUint64 Put64 Get64 "\<lambda>_. True"
  by unfold_locales (simp_all add: Put64_def Get64_def put_bytes_at put_bytes_panics get_bytes_at)

lemma Put_at: "length v \<le> length c \<Longrightarrow> Put v (at a c) = Some (at (a @ v) (drop (length v) c))"
  by (simp add: Put_def put_bytes_at)

lemma Get_at: "length v = n \<Longrightarrow> Get n (at a (v @ c)) = Some (v, at (a @ v) c)"
  by (simp add: Get_def get_bytes_at)

lemma Put_short: "length c < length v \<Longrightarrow> Put v (at a c) = None"
  by (simp add: Put_def put_bytes_panics)

text \<open>Writing field after field fails exactly when the whole does not fit.\<close>

lemma bind_put_short:
  assumes "\<And>a c. length c < n \<Longrightarrow> g (at a c) = None"
    and "\<And>a c. length v \<le> length c \<Longrightarrow> f (at a c) = Some (at (a @ v) (drop (length v) c))"
    and "\<And>a c. length c < length v \<Longrightarrow> f (at a c) = None"
    and "length c < length v + n"
  shows "Option.bind (f (at a c)) g = None"
  using assms by (cases "length v \<le> length c") simp_all

lemmas put_shorts = f8.put_short f16.put_short f32.put_short f64.put_short Put_short
lemmas put_rules = f8.put_at f16.put_at f32.put_at f64.put_at Put_at
lemmas get_rules = f8.get_at [OF TrueI] f16.get_at [OF TrueI] f32.get_at [OF TrueI] f64.get_at [OF TrueI] Get_at


end
