(* ===== verification/JFS_Locks.thy ===== *)
theory JFS_Locks
  imports JFS_Ranges JFS_Txn JFS_Buffer "HOL-Library.AList"
begin


text \<open>
  The file locks of JuiceFS on a key-value engine (pkg/meta/tkv_lock.go) with the form in which they are stored
  (pkg/meta/utils.go). A value of the store holds the locks of all owners of one inode. Go visits a map in
  any order: \<open>ord\<close> is the order a visit takes. A read beyond a value panics (\<open>None\<close>).
\<close>

section \<open>Stored locks\<close>

record lockOwner =
  lo_sid :: "64 word"
  lo_owner :: "64 word"

type_synonym bytes = "8 word list"

text \<open>The loops \<open>for rb.HasMore()\<close>.\<close>

definition read_plock :: "Buffer \<Rightarrow> (plockRecord \<times> Buffer) option" where
  "read_plock rb =
     Option.bind (Get32 rb) (\<lambda>(t, rb). Option.bind (Get32 rb) (\<lambda>(p, rb).
     Option.bind (Get64 rb) (\<lambda>(s, rb). Option.bind (Get64 rb) (\<lambda>(e, rb).
     Some (\<lparr>pl_Type = t, pl_Pid = p, pl_Start = s, pl_End = e\<rparr>, rb)))))"

definition read_flock :: "Buffer \<Rightarrow> ((lockOwner \<times> 8 word) \<times> Buffer) option" where
  "read_flock b =
     Option.bind (Get64 b) (\<lambda>(sid, b). Option.bind (Get64 b) (\<lambda>(owner, b). Option.bind (Get8 b) (\<lambda>(ltype, b).
     Some ((\<lparr>lo_sid = sid, lo_owner = owner\<rparr>, ltype), b))))"

definition read_owner :: "Buffer \<Rightarrow> ((lockOwner \<times> bytes) \<times> Buffer) option" where
  "read_owner b =
     Option.bind (Get64 b) (\<lambda>(sid, b). Option.bind (Get64 b) (\<lambda>(owner, b).
     Option.bind (Get32 b) (\<lambda>(n, b). Option.bind (Get (unat n) b) (\<lambda>(records, b).
     Some ((\<lparr>lo_sid = sid, lo_owner = owner\<rparr>, records), b)))))"

definition loadLocks :: "bytes \<Rightarrow> plockRecord list option" where
  "loadLocks d = read_all read_plock (length d) (FromBuffer d)"

definition write_plock :: "plockRecord \<Rightarrow> Buffer \<Rightarrow> Buffer option" where
  "write_plock l wb = Option.bind (Put32 (pl_Type l) wb) (\<lambda>wb. Option.bind (Put32 (pl_Pid l) wb) (\<lambda>wb.
     Option.bind (Put64 (pl_Start l) wb) (Put64 (pl_End l))))"

definition dumpLocks :: "plockRecord list \<Rightarrow> bytes option" where
  "dumpLocks ls = map_option Bytes (write_all write_plock ls (NewBuffer (of_nat (length ls) * 24)))"

definition put_all :: "('k \<times> 'v) list \<Rightarrow> ('k \<times> 'v) list" where
  "put_all kvs = foldl (\<lambda>m (k, v). AList.update k v m) [] kvs"

definition write_flock :: "lockOwner \<times> 8 word \<Rightarrow> Buffer \<Rightarrow> Buffer option" where
  "write_flock = (\<lambda>(k, l) b. Option.bind (Put64 (lo_sid k) b) (\<lambda>b. Option.bind (Put64 (lo_owner k) b) (Put8 l)))"

definition marshalFlock :: "(lockOwner \<times> 8 word) list \<Rightarrow> bytes option" where
  "marshalFlock ls = map_option Bytes (write_all write_flock ls (NewBuffer (of_nat (length ls) * 17)))"

definition unmarshalFlock :: "bytes \<Rightarrow> (lockOwner \<times> 8 word) list option" where
  "unmarshalFlock d = map_option put_all (read_all read_flock (length d) (FromBuffer d))"

definition write_owner :: "lockOwner \<times> bytes \<Rightarrow> Buffer \<Rightarrow> Buffer option" where
  "write_owner = (\<lambda>(k, records) b. Option.bind (Put64 (lo_sid k) b) (\<lambda>b. Option.bind (Put64 (lo_owner k) b) (\<lambda>b.
     Option.bind (Put32 (of_nat (length records)) b) (Put records))))"

definition marshalPlock :: "(lockOwner \<times> bytes) list \<Rightarrow> bytes option" where
  "marshalPlock ls = map_option Bytes (write_all write_owner ls
     (NewBuffer (sum_list (map (\<lambda>(k, l). 8 + 8 + 4 + of_nat (length l)) ls))))"

definition unmarshalPlock :: "bytes \<Rightarrow> (lockOwner \<times> bytes) list option" where
  "unmarshalPlock d = map_option put_all (read_all read_owner (length d) (FromBuffer d))"


section \<open>The store\<close>

text \<open>The values under the keys of an inode for flock and for record locks.\<close>

record lock_store =
  st_flock :: "64 word \<rightharpoonup> bytes"
  st_plock :: "64 word \<rightharpoonup> bytes"

text \<open>A transaction of the lock calls; when it is not committed the store is as before.\<close>

type_synonym lock_tx = "lock_store \<Rightarrow> (kverr option \<times> lock_store) option"

text \<open>The loop of a lock call: what the tries of each turn meet, what other clients do while it sleeps, and
  whether the context is canceled then. \<open>None\<close> also when it waits forever.\<close>

record attempt =
  at_tries :: "lock_store engine_try stream"
  at_others :: "lock_store \<Rightarrow> lock_store"
  at_canceled :: bool

partial_function (option) lock_loop ::
  "attempt stream \<Rightarrow> bool \<Rightarrow> bool \<Rightarrow> lock_tx \<Rightarrow> lock_store \<Rightarrow> (Errno \<times> lock_store) option" where
  "lock_loop as readOnly block f s =
     (case kv_txn (\<lambda>s _. s) readOnly (at_tries (shd as)) f s of
        None \<Rightarrow> None
      | Some (err, s') \<Rightarrow>
          if \<not> block \<or> err \<noteq> Some (Eno EAGAIN) then Some (errno err, s')
          else if at_canceled (shd as) then Some (EINTR, at_others (shd as) s')
          else lock_loop (stl as) readOnly block f (at_others (shd as) s'))"

section \<open>The calls\<close>

definition W :: "8 word" where "W = 87"
definition R :: "8 word" where "R = 82"

definition tx_get :: "(64 word \<rightharpoonup> bytes) \<Rightarrow> 64 word \<Rightarrow> bytes" where
  "tx_get m k = (case m k of None \<Rightarrow> [] | Some v \<Rightarrow> v)"

text \<open>The end of a transaction: the key is deleted with the last owner, or set.\<close>

definition put_flocks :: "((lockOwner \<times> 8 word) list \<Rightarrow> (lockOwner \<times> 8 word) list) \<Rightarrow> 64 word \<Rightarrow>
    (lockOwner \<times> 8 word) list \<Rightarrow> lock_tx" where
  "put_flocks ord inode ls s = (if ls = [] then Some (None, s\<lparr>st_flock := (st_flock s)(inode := None)\<rparr>)
     else map_option (\<lambda>v. (None, s\<lparr>st_flock := (st_flock s)(inode \<mapsto> v)\<rparr>)) (marshalFlock (ord ls)))"

definition Flock_tx :: "((lockOwner \<times> 8 word) list \<Rightarrow> (lockOwner \<times> 8 word) list) \<Rightarrow> 64 word \<Rightarrow> 64 word \<Rightarrow> 64 word \<Rightarrow>
    32 word \<Rightarrow> lock_tx" where
  "Flock_tx ord sid inode owner ltype s =
     (let lkey = \<lparr>lo_sid = sid, lo_owner = owner\<rparr> in
      Option.bind (unmarshalFlock (tx_get (st_flock s) inode)) (\<lambda>ls.
      if ltype = F_UNLCK then put_flocks ord inode (AList.delete lkey ls) s
      else if ltype = F_RDLCK then
        (if list_ex (\<lambda>(k, l). l = W \<and> k \<noteq> lkey) ls then Some (Some (Eno EAGAIN), s)
         else put_flocks ord inode (AList.update lkey R ls) s)
      else if ltype = F_WRLCK then
        (if AList.delete lkey ls \<noteq> [] then Some (Some (Eno EAGAIN), s)
         else put_flocks ord inode [(lkey, W)] s)
      else Some (Some (Eno EINVAL), s)))"

definition Flock where
  "Flock as readOnly ord sid inode owner ltype block =
     lock_loop as readOnly block (Flock_tx ord sid inode owner ltype)"

definition put_plocks :: "((lockOwner \<times> bytes) list \<Rightarrow> (lockOwner \<times> bytes) list) \<Rightarrow> 64 word \<Rightarrow>
    (lockOwner \<times> bytes) list \<Rightarrow> lock_tx" where
  "put_plocks ord inode owners s = (if owners = [] then Some (None, s\<lparr>st_plock := (st_plock s)(inode := None)\<rparr>)
     else map_option (\<lambda>v. (None, s\<lparr>st_plock := (st_plock s)(inode \<mapsto> v)\<rparr>)) (marshalPlock (ord owners)))"

definition conflicts :: "32 word \<Rightarrow> 64 word \<Rightarrow> 64 word \<Rightarrow> plockRecord \<Rightarrow> bool" where
  "conflicts ltype start end1 l \<longleftrightarrow>
     (ltype = F_WRLCK \<or> pl_Type l = F_WRLCK) \<and> end1 \<ge> pl_Start l \<and> start \<le> pl_End l"

text \<open>The loops over the other owners: is there a conflicting lock, and the first one.\<close>

fun any_conflict :: "32 word \<Rightarrow> 64 word \<Rightarrow> 64 word \<Rightarrow> (lockOwner \<times> bytes) list \<Rightarrow> bool option" where
  "any_conflict ltype start end1 [] = Some False"
| "any_conflict ltype start end1 ((k, d) # owners) =
     Option.bind (loadLocks d) (\<lambda>ls.
       if list_ex (conflicts ltype start end1) ls then Some True else any_conflict ltype start end1 owners)"

fun first_conflict ::
  "32 word \<Rightarrow> 64 word \<Rightarrow> 64 word \<Rightarrow> (lockOwner \<times> bytes) list \<Rightarrow> (lockOwner \<times> plockRecord) option option" where
  "first_conflict ltype start end1 [] = Some None"
| "first_conflict ltype start end1 ((k, d) # owners) =
     Option.bind (loadLocks d) (\<lambda>ls.
       case List.find (conflicts ltype start end1) ls of
         Some l \<Rightarrow> Some (Some (k, l)) | None \<Rightarrow> first_conflict ltype start end1 owners)"

definition Setlk_tx :: "((lockOwner \<times> bytes) list \<Rightarrow> (lockOwner \<times> bytes) list) \<Rightarrow> 64 word \<Rightarrow> 64 word \<Rightarrow> 64 word \<Rightarrow>
    32 word \<Rightarrow> 64 word \<Rightarrow> 64 word \<Rightarrow> 32 word \<Rightarrow> lock_tx" where
  "Setlk_tx ord sid inode owner ltype start end1 pid s =
     (let lkey = \<lparr>lo_sid = sid, lo_owner = owner\<rparr>;
          lock = \<lparr>pl_Type = ltype, pl_Pid = pid, pl_Start = start, pl_End = end1\<rparr> in
      Option.bind (unmarshalPlock (tx_get (st_plock s) inode)) (\<lambda>owners.
      let records = (case map_of owners lkey of None \<Rightarrow> [] | Some d \<Rightarrow> d) in
      if ltype = F_UNLCK then
        Option.bind (loadLocks records) (\<lambda>ls.
        if ls = [] then Some (None, s)
        else let ls = updateLocks ls lock in
          if ls = [] then put_plocks ord inode (AList.delete lkey owners) s
          else Option.bind (dumpLocks ls) (\<lambda>d. put_plocks ord inode (AList.update lkey d owners) s))
      else
        Option.bind (loadLocks records) (\<lambda>ls.
        let others = AList.delete lkey owners in
        Option.bind (any_conflict ltype start end1 (ord others)) (\<lambda>conflict.
        if conflict then Some (Some (Eno EAGAIN), s)
        else Option.bind (dumpLocks (updateLocks ls lock)) (\<lambda>d.
          put_plocks ord inode (AList.update lkey d others) s)))))"

definition Setlk where
  "Setlk as readOnly ord sid inode owner block ltype start end1 pid =
     lock_loop as readOnly block (Setlk_tx ord sid inode owner ltype start end1 pid)"

text \<open>The result of \<open>Getlk\<close>: the error and the four values behind the pointers. \<open>rd\<close> is the error of the
  read, if any.\<close>

definition Getlk :: "kverr option \<Rightarrow> ((lockOwner \<times> bytes) list \<Rightarrow> (lockOwner \<times> bytes) list) \<Rightarrow> 64 word \<Rightarrow> 64 word \<Rightarrow>
    64 word \<Rightarrow> 32 word \<Rightarrow> 64 word \<Rightarrow> 64 word \<Rightarrow> 32 word \<Rightarrow> lock_store \<Rightarrow>
    (Errno \<times> 32 word \<times> 64 word \<times> 64 word \<times> 32 word) option" where
  "Getlk rd ord sid inode owner ltype start end1 pid s =
     (if ltype = F_UNLCK then Some (E0, ltype, 0, 0, 0)
      else if rd \<noteq> None then Some (errno rd, ltype, start, end1, pid)
      else Option.bind (unmarshalPlock (tx_get (st_plock s) inode)) (\<lambda>owners.
        Option.bind (first_conflict ltype start end1 (ord (AList.delete \<lparr>lo_sid = sid, lo_owner = owner\<rparr> owners))) (\<lambda>c.
        Some (case c of
          Some (k, l) \<Rightarrow> (E0, pl_Type l, pl_Start l, pl_End l, if lo_sid k = sid then pl_Pid l else 0)
        | None \<Rightarrow> (E0, F_UNLCK, 0, 0, 0)))))"

text \<open>\<open>ListLocks\<close>: all locks of an inode with their owners; \<open>string(t)\<close> of a byte is its code point.\<close>

definition ListLocks :: "kverr option \<Rightarrow> kverr option \<Rightarrow> ((lockOwner \<times> 8 word) list \<Rightarrow> (lockOwner \<times> 8 word) list) \<Rightarrow>
    ((lockOwner \<times> bytes) list \<Rightarrow> (lockOwner \<times> bytes) list) \<Rightarrow> 64 word \<Rightarrow> lock_store \<Rightarrow>
    (kverr + (lockOwner \<times> plockRecord) list \<times> (lockOwner \<times> 8 word) list) option" where
  "ListLocks rf rp ford pord inode s =
     (case rf of Some e \<Rightarrow> Some (Inl e) | None \<Rightarrow>
      Option.bind (unmarshalFlock (tx_get (st_flock s) inode)) (\<lambda>fs.
      case rp of Some e \<Rightarrow> Some (Inl e) | None \<Rightarrow>
      Option.bind (unmarshalPlock (tx_get (st_plock s) inode)) (\<lambda>owners.
      Option.bind (those (map (\<lambda>(k, records). map_option (map (Pair k)) (loadLocks records)) (pord owners))) (\<lambda>plocks.
      Some (Inr (concat plocks, ford fs))))))"

section \<open>Encoding\<close>

definition plock_bytes :: "plockRecord \<Rightarrow> bytes" where
  "plock_bytes l = PutUint32 (pl_Type l) @ PutUint32 (pl_Pid l) @ PutUint64 (pl_Start l) @ PutUint64 (pl_End l)"

fun flock_bytes :: "lockOwner \<times> 8 word \<Rightarrow> bytes" where
  "flock_bytes (k, l) = PutUint64 (lo_sid k) @ PutUint64 (lo_owner k) @ [l]"

fun owner_bytes :: "lockOwner \<times> bytes \<Rightarrow> bytes" where
  "owner_bytes (k, d) = PutUint64 (lo_sid k) @ PutUint64 (lo_owner k) @ PutUint32 (of_nat (length d)) @ d"

lemma length_lock_bytes [simp]:
  "length (plock_bytes l) = 24" "length (flock_bytes x) = 17" "length (owner_bytes y) = 20 + length (snd y)"
  by (simp add: plock_bytes_def, cases x, simp, cases y, simp)

interpretation plk: buffer_field plock_bytes write_plock read_plock "\<lambda>_. True"
proof
  fix l :: plockRecord and a c :: bytes
  show "write_plock l (at a c) = None" if short: "length c < length (plock_bytes l)"
  proof -
    have s4: "Put64 (pl_End l) (at a c) = None" if "length c < 8" for a c using that by (simp add: put_shorts)
    have s3: "Option.bind (Put64 (pl_Start l) (at a c)) (Put64 (pl_End l)) = None" if "length c < 16" for a c
      by (rule bind_put_short [where v = "PutUint64 (pl_Start l)" and n = 8]) (use that in \<open>simp_all add: put_rules put_shorts s4\<close>)
    have s2: "Option.bind (Put32 (pl_Pid l) (at a c)) (\<lambda>wb. Option.bind (Put64 (pl_Start l) wb) (Put64 (pl_End l))) = None"
      if "length c < 20" for a c
      by (rule bind_put_short [where v = "PutUint32 (pl_Pid l)" and n = 16]) (use that in \<open>simp_all add: put_rules put_shorts s3\<close>)
    show ?thesis
      unfolding write_plock_def
      by (rule bind_put_short [where v = "PutUint32 (pl_Type l)" and n = 20]) (use short in \<open>simp_all add: put_rules put_shorts s2\<close>)
  qed
qed (simp_all add: write_plock_def read_plock_def plock_bytes_def put_rules get_rules)

interpretation flk: buffer_field flock_bytes write_flock read_flock "\<lambda>_. True"
proof
  fix x :: "lockOwner \<times> 8 word" and a c :: bytes
  obtain k l where x: "x = (k, l)" by fastforce
  show "write_flock x (at a c) = None" if short: "length c < length (flock_bytes x)"
  proof -
    have s2: "Option.bind (Put64 (lo_owner k) (at a c)) (Put8 l) = None" if "length c < 9" for a c
      by (rule bind_put_short [where v = "PutUint64 (lo_owner k)" and n = 1]) (use that in \<open>simp_all add: put_rules put_shorts\<close>)
    show ?thesis
      unfolding write_flock_def x prod.case
      by (rule bind_put_short [where v = "PutUint64 (lo_sid k)" and n = 9]) (use short in \<open>simp_all add: put_rules put_shorts s2\<close>)
  qed
  show "length (flock_bytes x) \<le> length c \<Longrightarrow> write_flock x (at a c) = Some (at (a @ flock_bytes x) (drop (length (flock_bytes x)) c))"
    by (simp add: x write_flock_def put_rules)
  show "read_flock (at a (flock_bytes x @ c)) = Some (x, at (a @ flock_bytes x) c)"
    using f8.get_at [OF TrueI, of _ l c] by (simp add: x read_flock_def get_rules)
qed

interpretation own: buffer_field owner_bytes write_owner read_owner "\<lambda>x. length (snd x) < 2 ^ 32"
proof
  fix x :: "lockOwner \<times> bytes" and a c :: bytes
  obtain k d where x: "x = (k, d)" by fastforce
  show "write_owner x (at a c) = None" if short: "length c < length (owner_bytes x)"
  proof -
    have s3: "Option.bind (Put32 (of_nat (length d)) (at a c)) (Put d) = None" if "length c < 4 + length d" for a c
      by (rule bind_put_short [where v = "PutUint32 (of_nat (length d))" and n = "length d"]) (use that in \<open>simp_all add: put_rules put_shorts\<close>)
    have s2: "Option.bind (Put64 (lo_owner k) (at a c)) (\<lambda>b. Option.bind (Put32 (of_nat (length d)) b) (Put d)) = None"
      if "length c < 12 + length d" for a c
      by (rule bind_put_short [where v = "PutUint64 (lo_owner k)" and n = "4 + length d"]) (use that in \<open>simp_all add: put_rules put_shorts s3\<close>)
    show ?thesis
      unfolding write_owner_def x prod.case
      by (rule bind_put_short [where v = "PutUint64 (lo_sid k)" and n = "12 + length d"]) (use short in \<open>simp_all add: x put_rules put_shorts s2\<close>)
  qed
  show "length (owner_bytes x) \<le> length c \<Longrightarrow> write_owner x (at a c) = Some (at (a @ owner_bytes x) (drop (length (owner_bytes x)) c))"
    by (simp add: x write_owner_def put_rules add.commute)
  show "length (snd x) < 2 ^ 32 \<Longrightarrow> read_owner (at a (owner_bytes x @ c)) = Some (x, at (a @ owner_bytes x) c)"
    by (simp add: x read_owner_def get_rules unat_of_nat)
qed

definition plocks_bytes :: "plockRecord list \<Rightarrow> bytes" where
  "plocks_bytes ls = concat (map plock_bytes ls)"

lemma length_plocks_bytes [simp]: "length (plocks_bytes ls) = 24 * length ls"
  by (induction ls) (simp_all add: plocks_bytes_def)

lemma loadLocks_bytes [simp]: "loadLocks (plocks_bytes ls) = Some ls"
  unfolding loadLocks_def
  by (rule plk.read_all_bytes) (simp_all add: plocks_bytes_def plock_bytes_def PutUint32_def list_all_iff)

lemma loadLocks_Nil [simp]: "loadLocks [] = Some []"
  using loadLocks_bytes [of "[]"] by (simp add: plocks_bytes_def)

lemma dumpLocks_eq: "dumpLocks ls = (if 24 * length ls < 2 ^ 32 then Some (plocks_bytes ls) else None)"
  unfolding dumpLocks_def
  by (subst plk.write_all_new) (simp_all add: plocks_bytes_def [symmetric])

lemma put_all_distinct: "distinct (map fst kvs) \<Longrightarrow> put_all kvs = kvs"
proof -
  have "distinct (map fst (m @ kvs)) \<Longrightarrow> foldl (\<lambda>m (k, v). AList.update k v m) m kvs = m @ kvs" for m
  proof (induction kvs arbitrary: m)
    case (Cons kv kvs)
    have "AList.update (fst kv) (snd kv) m = m @ [kv]"
      using Cons.prems by (induction m) auto
    with Cons.IH [of "m @ [kv]"] Cons.prems show ?case by (simp add: case_prod_unfold)
  qed simp
  from this [of "[]"] show "distinct (map fst kvs) \<Longrightarrow> put_all kvs = kvs" by (simp add: put_all_def)
qed

lemma unmarshalFlock_bytes:
  assumes "distinct (map fst ls)"
  shows "unmarshalFlock (concat (map flock_bytes ls)) = Some ls"
proof -
  have "flock_bytes v \<noteq> []" for v by (cases v) simp
  then have "read_all read_flock (length (concat (map flock_bytes ls))) (FromBuffer (concat (map flock_bytes ls))) = Some ls"
    by (intro flk.read_all_bytes) (simp_all add: list_all_iff)
  then show ?thesis using assms by (simp add: unmarshalFlock_def put_all_distinct)
qed

lemma length_concat_const: "(\<And>x. length (f x) = n) \<Longrightarrow> length (concat (map f xs)) = n * length xs"
  by (induction xs) simp_all

lemma marshalFlock_eq:
  "marshalFlock ls = (if 17 * length ls < 2 ^ 32 then Some (concat (map flock_bytes ls)) else None)"
  unfolding marshalFlock_def
  by (subst flk.write_all_new) (simp_all add: length_concat_const [where n = 17])

lemma unmarshalPlock_bytes:
  assumes "distinct (map fst os)" and "\<forall>(k, d) \<in> set os. length d < 2 ^ 32"
  shows "unmarshalPlock (concat (map owner_bytes os)) = Some os"
proof -
  have "owner_bytes v \<noteq> []" for v by (cases v) (simp add: PutUint64_def)
  then have "read_all read_owner (length (concat (map owner_bytes os))) (FromBuffer (concat (map owner_bytes os))) = Some os"
    by (intro own.read_all_bytes) (use assms(2) in \<open>auto simp: list_all_iff\<close>)
  then show ?thesis using assms(1) by (simp add: unmarshalPlock_def put_all_distinct)
qed

lemma marshalPlock_eq:
  "marshalPlock os = (if length (concat (map owner_bytes os)) < 2 ^ 32 then Some (concat (map owner_bytes os)) else None)"
proof -
  have "sum_list (map (\<lambda>(k, l). 8 + 8 + 4 + of_nat (length l)) os) = (of_nat (length (concat (map owner_bytes os))) :: 32 word)"
    by (induction os) auto
  then show ?thesis unfolding marshalPlock_def by (rule own.write_all_new)
qed


section \<open>The locks of an inode\<close>

definition owners_ok :: "(lockOwner \<times> plockRecord list) list \<Rightarrow> bool" where
  "owners_ok os \<longleftrightarrow> distinct (map fst os) \<and> (\<forall>(k, ls) \<in> set os. plocks_ok ls \<and> 24 * length ls < 2 ^ 32)"

abbreviation encoded :: "(lockOwner \<times> plockRecord list) list \<Rightarrow> (lockOwner \<times> bytes) list" where
  "encoded os \<equiv> map (apsnd plocks_bytes) os"

text \<open>The value of the store holds the locks \<open>os\<close> of the inode.\<close>

definition plocks_at :: "lock_store \<Rightarrow> 64 word \<Rightarrow> (lockOwner \<times> plockRecord list) list \<Rightarrow> bool" where
  "plocks_at s inode os \<longleftrightarrow> owners_ok os \<and> tx_get (st_plock s) inode = concat (map owner_bytes (encoded os))"

definition held_by :: "(lockOwner \<times> plockRecord list) list \<Rightarrow> lockOwner \<Rightarrow> 64 word \<Rightarrow> (32 word \<times> 32 word) option" where
  "held_by os k x = (case map_of os k of None \<Rightarrow> None | Some ls \<Rightarrow> lock_at ls x)"

text \<open>A lock of another owner stands in the way.\<close>

definition blocked :: "(lockOwner \<Rightarrow> 64 word \<Rightarrow> (32 word \<times> 32 word) option) \<Rightarrow> lockOwner \<Rightarrow> 32 word \<Rightarrow> 64 word \<Rightarrow> 64 word \<Rightarrow> bool" where
  "blocked h k ltype start end1 \<longleftrightarrow> (\<exists>k' x t p. k' \<noteq> k \<and> start \<le> x \<and> x \<le> end1 \<and> h k' x = Some (t, p) \<and>
     (ltype = F_WRLCK \<or> t = F_WRLCK))"

lemma blockedI:
  "k' \<noteq> k \<Longrightarrow> start \<le> x \<Longrightarrow> x \<le> end1 \<Longrightarrow> h k' x = Some (t, p) \<Longrightarrow> ltype = F_WRLCK \<or> t = F_WRLCK \<Longrightarrow> blocked h k ltype start end1"
  unfolding blocked_def by blast

lemma lock_at_member:
  assumes "plocks_ok ls" and "l \<in> set ls" and "in_range x l"
  shows "lock_at ls x = Some (pl_Type l, pl_Pid l)"
proof -
  have "(pl_Type l, pl_Pid l) \<in># held ls x" using assms(2,3) by (auto simp: held_def)
  moreover have "sorted_wrt before ls" using assms(1) by (simp add: plocks_ok_def ranges_ok_def)
  ultimately show ?thesis using held_lock_at [of ls x] by (auto split: option.splits)
qed

lemma lock_atE:
  assumes "lock_at ls x = Some v"
  obtains l where "l \<in> set ls" "in_range x l" "v = (pl_Type l, pl_Pid l)"
  using assms that by (auto simp: lock_at_def find_Some_iff dest: nth_mem)

lemma conflicts_iff:
  assumes "plocks_ok ls" and "start \<le> end1"
  shows "list_ex (conflicts ltype start end1) ls \<longleftrightarrow>
    (\<exists>x t p. start \<le> x \<and> x \<le> end1 \<and> lock_at ls x = Some (t, p) \<and> (ltype = F_WRLCK \<or> t = F_WRLCK))" (is "?L \<longleftrightarrow> ?R")
proof
  assume ?L
  then obtain l where l: "l \<in> set ls" "conflicts ltype start end1 l" by (auto simp: list_ex_iff)
  have ne: "pl_Start l \<le> pl_End l" using assms(1) l(1) by (auto simp: plocks_ok_def ranges_ok_def)
  let ?x = "max start (pl_Start l)"
  have "in_range ?x l" "start \<le> ?x" "?x \<le> end1" using l(2) ne assms(2) by (auto simp: conflicts_def in_range_def)
  moreover from this(1) have "lock_at ls ?x = Some (pl_Type l, pl_Pid l)" by (rule lock_at_member [OF assms(1) l(1)])
  ultimately show ?R using l(2) unfolding conflicts_def by blast
next
  assume ?R
  then obtain x t p where x: "start \<le> x" "x \<le> end1" "lock_at ls x = Some (t, p)" "ltype = F_WRLCK \<or> t = F_WRLCK" by blast
  then obtain l where "l \<in> set ls" "in_range x l" "t = pl_Type l" by (auto elim: lock_atE)
  with x show ?L by (auto simp: list_ex_iff conflicts_def in_range_def intro!: bexI [of _ l])
qed

lemma any_conflict_eq:
  "any_conflict ltype start end1 (encoded os) = Some (\<exists>(k, ls) \<in> set os. list_ex (conflicts ltype start end1) ls)"
  by (induction os) auto

lemma delete_encoded: "AList.delete k (encoded os) = encoded (AList.delete k os)"
  by (induction os) (auto simp: AList.delete_eq)

lemma update_encoded: "AList.update k (plocks_bytes ls) (encoded os) = encoded (AList.update k ls os)"
  by (induction os) auto

lemma encoded_perm:
  assumes "mset ys = mset (encoded os)"
  obtains os' where "ys = encoded os'" "mset os' = mset os"
proof -
  let ?dec = "apsnd (\<lambda>d. the (loadLocks d)) :: lockOwner \<times> bytes \<Rightarrow> lockOwner \<times> plockRecord list"
  have inv: "?dec (apsnd plocks_bytes x) = x" for x by (cases x) simp
  have "set ys = set (encoded os)" by (rule mset_eq_setD [OF assms])
  then have "\<forall>y \<in> set ys. apsnd plocks_bytes (?dec y) = y" by auto
  then have "ys = encoded (map ?dec ys)" by (simp add: map_idI)
  moreover have "mset (map ?dec ys) = image_mset ?dec (mset (encoded os))" unfolding mset_map assms ..
  then have "mset (map ?dec ys) = mset os" by (simp add: multiset.map_comp o_def inv)
  ultimately show thesis by (rule that)
qed

lemma owners_ok_perm:
  assumes "mset os' = mset os" and "owners_ok os"
  shows "owners_ok os'" and "held_by os' = held_by os"
proof -
  have set: "set os' = set os" by (rule mset_eq_setD [OF assms(1)])
  have "mset (map fst os') = mset (map fst os)" unfolding mset_map assms(1) ..
  then have dist: "distinct (map fst os')" using assms(2) mset_eq_imp_distinct_iff unfolding owners_ok_def by blast
  with set assms(2) show "owners_ok os'" by (auto simp: owners_ok_def)
  have "map_of os' = map_of os"
    using set dist assms(2) by (subst map_of_inject_set) (auto simp: owners_ok_def)
  then show "held_by os' = held_by os" by (simp add: held_by_def fun_eq_iff)
qed

lemma length_le_concat: "xs \<in> set xss \<Longrightarrow> length xs \<le> length (concat xss)"
  by (induction xss) auto

text \<open>Writing the owners back, in whatever order.\<close>

lemma put_plocks_at:
  assumes ok: "distinct (map fst os)" "\<forall>(k, ls) \<in> set os. plocks_ok ls" and ord: "\<And>xs. mset (ord xs) = mset xs"
  shows "case put_plocks ord inode (encoded os) s of
      None \<Rightarrow> 2 ^ 32 \<le> length (concat (map owner_bytes (encoded os)))
    | Some (e, s') \<Rightarrow> e = None \<and> (\<exists>os'. plocks_at s' inode os' \<and> held_by os' = held_by os) \<and>
        st_flock s' = st_flock s \<and> (\<forall>i. i \<noteq> inode \<longrightarrow> st_plock s' i = st_plock s i)"
proof (cases "os = []")
  case True
  then show ?thesis by (auto simp: put_plocks_def plocks_at_def owners_ok_def tx_get_def intro!: exI [of _ "[]"])
next
  case False
  from encoded_perm [OF ord [of "encoded os"]] obtain os' where os': "ord (encoded os) = encoded os'" "mset os' = mset os" by blast
  let ?v = "concat (map owner_bytes (encoded os'))"
  have len: "length ?v = length (concat (map owner_bytes (encoded os)))"
    using arg_cong [OF os'(2), of "\<lambda>m. \<Sum>x \<in># m. length (owner_bytes (apsnd plocks_bytes x))"]
    by (simp add: length_concat o_def flip: sum_mset_sum_list)
  show ?thesis
  proof (cases "length ?v < 2 ^ 32")
    case True
    have "24 * length ls < 2 ^ 32" if "(k, ls) \<in> set os" for k ls
    proof -
      have "owner_bytes (k, plocks_bytes ls) \<in> set (map owner_bytes (encoded os))" using that by force
      then have "length (owner_bytes (k, plocks_bytes ls)) \<le> length (concat (map owner_bytes (encoded os)))"
        by (rule length_le_concat)
      with len True show ?thesis by simp
    qed
    with ok have "owners_ok os" by (auto simp: owners_ok_def)
    from owners_ok_perm [OF os'(2) this] have "owners_ok os'" "held_by os' = held_by os" by simp_all
    with False True os' show ?thesis
      by (auto simp: put_plocks_def marshalPlock_eq plocks_at_def tx_get_def intro!: exI [of _ os'])
  next
    case False
    with \<open>os \<noteq> []\<close> len os' show ?thesis by (simp add: put_plocks_def marshalPlock_eq)
  qed
qed


section \<open>The size of a value\<close>

lemma length_turn: "turn l nl = (l', A, nl') \<Longrightarrow> length A \<le> 2"
  by (auto simp: turn_def Let_def split: if_splits prod.splits)

lemma length_lay: "lay ls nl = (ls', A, nl') \<Longrightarrow> length ls' = length ls \<and> length A \<le> 2 * length ls"
proof (induction ls nl arbitrary: ls' A nl' rule: lay.induct)
  case (2 l ls nl)
  show ?case
  proof (cases "pl_Start nl \<le> pl_End nl")
    case True
    obtain l1 A1 nl1 where t: "turn l nl = (l1, A1, nl1)" by (metis surj_pair)
    obtain ls2 A2 where "lay ls nl1 = (ls2, A2, nl')" "ls' = l1 # ls2" "A = A1 @ A2"
      using 2(2) True t by (auto split: prod.splits)
    with 2(1) [OF True t [symmetric]] length_turn [OF t] show ?thesis by fastforce
  qed (use 2(2) in auto)
qed simp

lemma length_joined: "length (joined ls) \<le> length ls"
  by (induction ls rule: joined.induct) auto

lemma length_updateLocks: "length (updateLocks ls nl) \<le> 3 * length ls + 1"
proof -
  obtain ls' A nl' where lay: "lay ls nl = (ls', A, nl')" by (metis surj_pair)
  let ?all = "ls' @ A @ (if pl_Start nl' \<le> pl_End nl' then [nl'] else [])"
  have "updateLocks ls nl = joined (sort_key pl_Start ?all)"
    using update_loop_lay [OF lay, of "[]" "[]"] by (simp add: updateLocks_def merge_loop_joined)
  then have "length (updateLocks ls nl) \<le> length ?all"
    using length_joined [of "sort_key pl_Start ?all"] by (simp only: length_sort)
  with length_lay [OF lay] show ?thesis by (simp split: if_splits)
qed

definition value_size :: "(lockOwner \<times> plockRecord list) list \<Rightarrow> nat" where
  "value_size os = length (concat (map owner_bytes (encoded os)))"

lemma value_size_simps [simp]:
  "value_size [] = 0" "value_size ((k, ls) # os) = 20 + 24 * length ls + value_size os"
  by (simp_all add: value_size_def)

lemma value_size_update:
  "value_size (AList.update k ls os) \<le>
     20 + 24 * length ls + value_size os - (case map_of os k of None \<Rightarrow> 0 | Some ls' \<Rightarrow> 20 + 24 * length ls')"
proof (induction os)
  case (Cons o1 os)
  have "(case map_of os k of None \<Rightarrow> 0 | Some ls' \<Rightarrow> 20 + 24 * length ls') \<le> value_size os"
    by (induction os) (auto split: option.splits)
  with Cons show ?case by (cases o1) auto
qed simp

lemma value_size_delete: "value_size (AList.delete k os) \<le> value_size os"
  by (induction os) (auto simp: AList.delete_eq)

lemma records_le: "map_of os k = Some ls \<Longrightarrow> 24 * length ls \<le> value_size os"
  by (induction os) (auto split: if_splits)

section \<open>One transaction of Setlk\<close>

text \<open>The lock of an owner on a byte of an inode, read from the store, and a store whose values are well formed.\<close>

definition holds :: "lock_store \<Rightarrow> 64 word \<Rightarrow> lockOwner \<Rightarrow> 64 word \<Rightarrow> (32 word \<times> 32 word) option" where
  "holds s inode k x =
     Option.bind (unmarshalPlock (tx_get (st_plock s) inode)) (\<lambda>owners. Option.bind (map_of owners k) (\<lambda>d.
       Option.bind (loadLocks d) (\<lambda>ls. lock_at ls x)))"

definition plocks_wf :: "lock_store \<Rightarrow> bool" where
  "plocks_wf s \<longleftrightarrow> (\<forall>inode. \<exists>os. plocks_at s inode os)"

lemma plocks_at_unmarshal:
  assumes "plocks_at s inode os"
  shows "unmarshalPlock (tx_get (st_plock s) inode) = Some (encoded os)"
proof -
  have "distinct (map fst (encoded os))" "\<forall>(k, d) \<in> set (encoded os). length d < 2 ^ 32"
    using assms by (auto simp: plocks_at_def owners_ok_def o_def)
  with assms unmarshalPlock_bytes [of "encoded os"] show ?thesis by (simp only: plocks_at_def)
qed

lemma map_of_encoded: "map_of (encoded os) k = map_option plocks_bytes (map_of os k)"
  by (induction os) auto

lemma plocks_at_holds: "plocks_at s inode os \<Longrightarrow> holds s inode k x = held_by os k x"
  by (simp add: holds_def plocks_at_unmarshal map_of_encoded held_by_def split: option.split)

lemma plocks_at_size: "plocks_at s inode os \<Longrightarrow> length (tx_get (st_plock s) inode) = value_size os"
  by (simp add: plocks_at_def value_size_def)

text \<open>What \<open>put_plocks\<close> leaves, in terms of the locks held.\<close>

definition stored :: "lock_store \<Rightarrow> 64 word \<Rightarrow> (lockOwner \<times> plockRecord list) list \<Rightarrow> lock_store \<Rightarrow> bool" where
  "stored s inode os s' \<longleftrightarrow> (\<exists>os'. plocks_at s' inode os' \<and> held_by os' = held_by os) \<and>
     st_flock s' = st_flock s \<and> (\<forall>i. i \<noteq> inode \<longrightarrow> st_plock s' i = st_plock s i)"

lemma stored_holds: "stored s inode os s' \<Longrightarrow> holds s' inode k x = held_by os k x"
  by (auto simp: stored_def plocks_at_holds)

lemma stored_other: "stored s inode os s' \<Longrightarrow> i \<noteq> inode \<Longrightarrow> holds s' i = holds s i"
  by (auto simp: stored_def holds_def tx_get_def fun_eq_iff)

lemma stored_wf:
  assumes "stored s inode os s'" and "plocks_wf s"
  shows "plocks_wf s'"
  unfolding plocks_wf_def
proof
  fix i
  show "\<exists>os. plocks_at s' i os"
    using assms by (cases "i = inode") (auto simp: stored_def plocks_wf_def plocks_at_def tx_get_def)
qed

lemma held_by_update: "held_by (AList.update k ls os) = (held_by os)(k := lock_at ls)"
  by (simp add: held_by_def update_conv fun_eq_iff)

lemma held_by_delete: "held_by (AList.delete k os) = (held_by os)(k := (\<lambda>x. None))"
  by (simp add: held_by_def delete_conv fun_eq_iff)

lemma held_by_Some: "held_by os k x = Some v \<longleftrightarrow> (\<exists>ls. map_of os k = Some ls \<and> lock_at ls x = Some v)"
  by (simp add: held_by_def split: option.split)

lemma owners_okD:
  assumes "owners_ok os" and "map_of os k = Some ls"
  shows "plocks_ok ls"
  using assms by (auto simp: owners_ok_def dest: map_of_SomeD)

lemma owners_ok_delete: "owners_ok os \<Longrightarrow> owners_ok (AList.delete k os)"
  using distinct_delete [of os k] by (auto simp: owners_ok_def) (auto simp: AList.delete_eq)

lemma blocked_conflicts:
  assumes ok: "owners_ok os" and ord: "\<And>xs. mset (ord xs) = mset xs" and "start \<le> end1"
  shows "any_conflict ltype start end1 (ord (encoded (AList.delete k os))) =
    Some (blocked (held_by os) k ltype start end1)"
proof -
  let ?os = "AList.delete k os"
  from encoded_perm [OF ord [of "encoded ?os"]] obtain os'
    where os': "ord (encoded ?os) = encoded os'" "mset os' = mset ?os" by blast
  have set: "set os' = set ?os" by (rule mset_eq_setD [OF os'(2)])
  have "(\<exists>(k', ls) \<in> set ?os. list_ex (conflicts ltype start end1) ls) \<longleftrightarrow> blocked (held_by os) k ltype start end1"
    (is "?L \<longleftrightarrow> _")
  proof -
    have mem: "(k', ls) \<in> set ?os \<longleftrightarrow> k' \<noteq> k \<and> map_of os k' = Some ls" for k' ls
      using ok by (auto simp: AList.delete_eq owners_ok_def)
    have "?L \<longleftrightarrow> (\<exists>k' ls. k' \<noteq> k \<and> map_of os k' = Some ls \<and> list_ex (conflicts ltype start end1) ls)"
      using mem by blast
    also have "\<dots> \<longleftrightarrow> (\<exists>k' ls x t p. k' \<noteq> k \<and> map_of os k' = Some ls \<and> start \<le> x \<and> x \<le> end1 \<and>
        lock_at ls x = Some (t, p) \<and> (ltype = F_WRLCK \<or> t = F_WRLCK))"
      using conflicts_iff [OF owners_okD [OF ok] \<open>start \<le> end1\<close>] by blast
    also have "\<dots> \<longleftrightarrow> blocked (held_by os) k ltype start end1"
      unfolding blocked_def held_by_Some by blast
    finally show ?thesis .
  qed
  then show ?thesis by (simp add: os'(1) any_conflict_eq set)
qed

text \<open>The new locks of the owner are those of \<open>updateLocks\<close>; \<open>granted\<close> says what they are, byte by byte.\<close>

definition granted :: "(lockOwner \<Rightarrow> 64 word \<Rightarrow> (32 word \<times> 32 word) option) \<Rightarrow> lockOwner \<Rightarrow> 32 word \<Rightarrow> 64 word \<Rightarrow>
    64 word \<Rightarrow> 32 word \<Rightarrow> lockOwner \<Rightarrow> 64 word \<Rightarrow> (32 word \<times> 32 word) option" where
  "granted h k ltype start end1 pid = (\<lambda>k' x.
     if k' = k \<and> start \<le> x \<and> x \<le> end1 then if ltype = F_UNLCK then None else Some (ltype, pid) else h k' x)"

lemma granted_update:
  assumes "plocks_ok ls" and "start \<le> end1" and "end1 < - 1" and "lock_at ls = held_by os k"
  shows "(held_by os)(k := lock_at (updateLocks ls \<lparr>pl_Type = ltype, pl_Pid = pid, pl_Start = start, pl_End = end1\<rparr>)) =
    granted (held_by os) k ltype start end1 pid"
proof -
  let ?nl = "\<lparr>pl_Type = ltype, pl_Pid = pid, pl_Start = start, pl_End = end1\<rparr>"
  have "lock_at (updateLocks ls ?nl) x = granted (held_by os) k ltype start end1 pid k x" for x
    using updateLocks_lock_at [OF assms(1), of ?nl x] assms(2-4) by (simp add: granted_def in_range_def)
  then show ?thesis by (auto simp: fun_eq_iff granted_def)
qed

lemma stored_size:
  assumes "distinct (map fst os)" and "\<forall>(k, ls) \<in> set os. plocks_ok ls" and "\<And>xs. mset (ord xs) = mset xs"
  shows "case put_plocks ord inode (encoded os) s of None \<Rightarrow> 2 ^ 32 \<le> value_size os
    | Some (e, s') \<Rightarrow> e = None \<and> stored s inode os s'"
  using put_plocks_at [OF assms, of inode s] by (simp add: value_size_def stored_def split: option.splits prod.splits)

lemma records_of:
  assumes "owners_ok os"
  obtains ls where "(case map_of (encoded os) k of None \<Rightarrow> [] | Some d \<Rightarrow> d) = plocks_bytes ls" "plocks_ok ls"
    "lock_at ls = held_by os k" "24 * length ls \<le> value_size os"
proof (cases "map_of os k")
  case None
  then show thesis
    by (intro that [of "[]"])
       (simp_all add: map_of_encoded plocks_bytes_def plocks_ok_def ranges_ok_def lock_at_def held_by_def fun_eq_iff)
next
  case (Some ls)
  then show thesis
    using owners_okD [OF assms Some] records_le [OF Some]
    by (intro that [of ls]) (simp_all add: map_of_encoded held_by_def fun_eq_iff)
qed

lemma owners_okD_all: "owners_ok os \<Longrightarrow> distinct (map fst os) \<and> (\<forall>(k, ls) \<in> set os. plocks_ok ls)"
  by (auto simp: owners_ok_def)

lemma lock_at_Nil: "lock_at [] = (\<lambda>x. None)"
  by (simp add: lock_at_def fun_eq_iff)

lemma owners_update:
  assumes "distinct (map fst os) \<and> (\<forall>(k, ls) \<in> set os. plocks_ok ls)" and "plocks_ok ls"
  shows "distinct (map fst (AList.update k ls os)) \<and> (\<forall>(k, ls) \<in> set (AList.update k ls os). plocks_ok ls)"
proof -
  have "set (AList.update k ls os) \<subseteq> insert (k, ls) (set os)" by (induction os) auto
  with assms distinct_update [of os k ls] show ?thesis by blast
qed

text \<open>Writing back the owners \<open>os'\<close>, whose locks are the granted ones.\<close>

lemma put_granted:
  assumes "distinct (map fst os') \<and> (\<forall>(k, ls) \<in> set os'. plocks_ok ls)" and ord: "\<And>xs. mset (ord xs) = mset xs"
    and "value_size os' \<le> n" and "held_by os' = h"
  shows "case put_plocks ord inode (encoded os') s of None \<Rightarrow> 2 ^ 32 \<le> n
    | Some (e, s') \<Rightarrow> e = None \<and> (\<exists>os2. stored s inode os2 s' \<and> held_by os2 = h)"
  using stored_size [of os' ord, OF _ _ ord, where inode = inode and s = s] assms(1,3,4) by (fastforce split: option.splits)

lemma dump_granted:
  assumes os: "distinct (map fst os) \<and> (\<forall>(k, ls) \<in> set os. plocks_ok ls)" and "plocks_ok ls"
    and ord: "\<And>xs. mset (ord xs) = mset xs"
    and "20 + 24 * length ls + value_size os \<le> n" and "(held_by os)(k := lock_at ls) = h"
  shows "case Option.bind (dumpLocks ls) (\<lambda>d. put_plocks ord inode (AList.update k d (encoded os)) s) of
      None \<Rightarrow> 2 ^ 32 \<le> n
    | Some (e, s') \<Rightarrow> e = None \<and> (\<exists>os2. stored s inode os2 s' \<and> held_by os2 = h)"
proof (cases "24 * length ls < 2 ^ 32")
  case True
  have "value_size (AList.update k ls os) \<le> n" using value_size_update [of k ls os] assms(4) by linarith
  moreover have "held_by (AList.update k ls os) = h" using assms(5) by (simp only: held_by_update)
  ultimately show ?thesis
    using put_granted [OF owners_update [OF os assms(2)] ord] True by (simp add: dumpLocks_eq update_encoded)
qed (use assms(4) in \<open>simp add: dumpLocks_eq\<close>)

lemma Setlk_tx_at:
  assumes "plocks_at s inode os" and ord: "\<And>xs. mset (ord xs) = mset xs" and range: "start \<le> end1" "end1 < - 1"
  shows "if ltype \<noteq> F_UNLCK \<and> blocked (held_by os) \<lparr>lo_sid = sid, lo_owner = owner\<rparr> ltype start end1
    then Setlk_tx ord sid inode owner ltype start end1 pid s = Some (Some (Eno EAGAIN), s)
    else case Setlk_tx ord sid inode owner ltype start end1 pid s of
      None \<Rightarrow> 2 ^ 32 \<le> 4 * value_size os + 44
    | Some (e, s') \<Rightarrow> e = None \<and> (\<exists>os2. stored s inode os2 s' \<and>
        held_by os2 = granted (held_by os) \<lparr>lo_sid = sid, lo_owner = owner\<rparr> ltype start end1 pid)"
proof -
  let ?k = "\<lparr>lo_sid = sid, lo_owner = owner\<rparr>"
  let ?lock = "\<lparr>pl_Type = ltype, pl_Pid = pid, pl_Start = start, pl_End = end1\<rparr>"
  have ok: "owners_ok os" using assms(1) by (simp add: plocks_at_def)
  note all = owners_okD_all [OF ok] and del = owners_okD_all [OF owners_ok_delete [OF ok]]
  obtain ls where ls: "(case map_of (encoded os) ?k of None \<Rightarrow> [] | Some d \<Rightarrow> d) = plocks_bytes ls" "plocks_ok ls"
    "lock_at ls = held_by os ?k" "24 * length ls \<le> value_size os" by (rule records_of [OF ok])
  note gr = granted_update [OF ls(2) range ls(3), of ltype pid]
  have okU: "plocks_ok (updateLocks ls ?lock)"
    using updateLocks_held(1) [of ls ?lock] ls(2) range by (simp add: plocks_ok_def)
  have size: "20 + 24 * length (updateLocks ls ?lock) + value_size os \<le> 4 * value_size os + 44"
    using length_updateLocks [of ls ?lock] ls(4) by linarith
  have sized: "20 + 24 * length (updateLocks ls ?lock) + value_size (AList.delete ?k os) \<le> 4 * value_size os + 44"
    using size value_size_delete [of ?k os] by linarith
  note dump = dump_granted [where ord = ord and k = ?k and inode = inode and s = s, OF _ okU ord]
  have delh: "(held_by (AList.delete ?k os))(?k := v) = (held_by os)(?k := v)" for v by (simp add: held_by_delete)
  consider (free) "ltype = F_UNLCK" "ls = []" | (last) "ltype = F_UNLCK" "ls \<noteq> []" "updateLocks ls ?lock = []"
    | (unlock) "ltype = F_UNLCK" "ls \<noteq> []" "updateLocks ls ?lock \<noteq> []"
    | (blocked) "ltype \<noteq> F_UNLCK" "blocked (held_by os) ?k ltype start end1"
    | (grant) "ltype \<noteq> F_UNLCK" "\<not> blocked (held_by os) ?k ltype start end1" by blast
  then show ?thesis
  proof cases
    case free
    have "stored s inode os s" using assms(1) by (auto simp: stored_def)
    moreover have "held_by os = granted (held_by os) ?k ltype start end1 pid"
      using free ls(3) by (auto simp: granted_def fun_eq_iff lock_at_def)
    ultimately show ?thesis using free ls(1) by (auto simp: Setlk_tx_def plocks_at_unmarshal [OF assms(1)])
  next
    case last
    have h: "held_by (AList.delete ?k os) = granted (held_by os) ?k ltype start end1 pid"
      using gr last(3) by (simp add: held_by_delete lock_at_Nil)
    have n: "value_size (AList.delete ?k os) \<le> 4 * value_size os + 44" using value_size_delete [of ?k os] by linarith
    show ?thesis
      using put_granted [OF del ord n h, where inode = inode and s = s] last ls(1)
      by (simp add: Setlk_tx_def Let_def plocks_at_unmarshal [OF assms(1)] delete_encoded)
  next
    case unlock
    then show ?thesis
      using dump [OF all size gr] ls(1) by (simp add: Setlk_tx_def Let_def plocks_at_unmarshal [OF assms(1)])
  next
    case blocked
    then show ?thesis
      using ls(1) blocked_conflicts [OF ok ord range(1)]
      by (simp add: Setlk_tx_def Let_def plocks_at_unmarshal [OF assms(1)] delete_encoded)
  next
    case grant
    then show ?thesis
      using dump [OF del sized] gr ls(1) blocked_conflicts [OF ok ord range(1)]
      by (simp add: Setlk_tx_def Let_def plocks_at_unmarshal [OF assms(1)] delete_encoded delh)
  qed
qed

section \<open>The locks of flock\<close>

definition flocks_at :: "lock_store \<Rightarrow> 64 word \<Rightarrow> (lockOwner \<times> 8 word) list \<Rightarrow> bool" where
  "flocks_at s inode ls \<longleftrightarrow> distinct (map fst ls) \<and> tx_get (st_flock s) inode = concat (map flock_bytes ls)"

definition flocks_wf :: "lock_store \<Rightarrow> bool" where
  "flocks_wf s \<longleftrightarrow> (\<forall>inode. \<exists>ls. flocks_at s inode ls)"

definition flock_of :: "lock_store \<Rightarrow> 64 word \<Rightarrow> lockOwner \<Rightarrow> 8 word option" where
  "flock_of s inode k = Option.bind (unmarshalFlock (tx_get (st_flock s) inode)) (\<lambda>ls. map_of ls k)"

lemma flocks_at_unmarshal: "flocks_at s inode ls \<Longrightarrow> unmarshalFlock (tx_get (st_flock s) inode) = Some ls"
  by (simp add: flocks_at_def unmarshalFlock_bytes)

lemma flocks_at_of: "flocks_at s inode ls \<Longrightarrow> flock_of s inode = map_of ls"
  by (simp add: flock_of_def flocks_at_unmarshal fun_eq_iff)

lemma put_flocks_at:
  assumes "distinct (map fst ls)" and ord: "\<And>xs. mset (ord xs) = mset xs" and "put_flocks ord inode ls s = Some (e, s')"
  shows "e = None \<and> (\<exists>ls'. flocks_at s' inode ls') \<and> flock_of s' inode = map_of ls \<and> st_plock s' = st_plock s \<and>
    (\<forall>i. i \<noteq> inode \<longrightarrow> st_flock s' i = st_flock s i)"
proof -
  have "mset (map fst (ord ls)) = mset (map fst ls)" unfolding mset_map ord ..
  then have d: "distinct (map fst (ord ls))" using assms(1) mset_eq_imp_distinct_iff by blast
  have m: "map_of (ord ls) = map_of ls"
    by (subst map_of_inject_set) (use d assms(1) mset_eq_setD [OF ord] in auto)
  have e: "e = None \<and> flocks_at s' inode (if ls = [] then [] else ord ls) \<and> st_plock s' = st_plock s \<and>
    (\<forall>i. i \<noteq> inode \<longrightarrow> st_flock s' i = st_flock s i)"
    using assms(1,3) d by (auto simp: put_flocks_def marshalFlock_eq flocks_at_def tx_get_def split: if_splits)
  then have "flock_of s' inode = map_of ls" using flocks_at_of [of s' inode] m by auto
  with e show ?thesis by blast
qed

text \<open>What a transaction of \<open>Flock\<close> does to the locks of its inode.\<close>

definition flock_free :: "(lockOwner \<Rightarrow> 8 word option) \<Rightarrow> lockOwner \<Rightarrow> 32 word \<Rightarrow> bool" where
  "flock_free h k ltype \<longleftrightarrow> (ltype = F_RDLCK \<longrightarrow> (\<forall>k'. k' \<noteq> k \<longrightarrow> h k' \<noteq> Some W)) \<and>
     (ltype = F_WRLCK \<longrightarrow> (\<forall>k'. k' \<noteq> k \<longrightarrow> h k' = None))"

lemma lock_consts [simp]: "F_RDLCK \<noteq> F_UNLCK" "F_WRLCK \<noteq> F_UNLCK" "F_RDLCK \<noteq> F_WRLCK" "F_WRLCK \<noteq> F_RDLCK" "R \<noteq> W" "W \<noteq> R"
  "F_UNLCK \<noteq> F_RDLCK" "F_UNLCK \<noteq> F_WRLCK"
  by (simp_all add: F_RDLCK_def F_UNLCK_def F_WRLCK_def R_def W_def)

lemma delete_Nil_iff: "AList.delete k ls = [] \<longleftrightarrow> (\<forall>k'. k' \<noteq> k \<longrightarrow> map_of ls k' = None)"
  by (force simp: AList.delete_eq filter_empty_conv map_of_eq_None_iff)

lemma Flock_tx_at:
  assumes at: "flocks_at s inode ls" and ord: "\<And>xs. mset (ord xs) = mset xs"
    and run: "Flock_tx ord sid inode owner ltype s = Some (e, s')"
  defines "k \<equiv> \<lparr>lo_sid = sid, lo_owner = owner\<rparr>"
  shows "if ltype \<notin> {F_UNLCK, F_RDLCK, F_WRLCK} then e = Some (Eno EINVAL) \<and> s' = s
    else if \<not> flock_free (flock_of s inode) k ltype then e = Some (Eno EAGAIN) \<and> s' = s
    else e = None \<and> (\<exists>ls'. flocks_at s' inode ls') \<and> st_plock s' = st_plock s \<and>
      (\<forall>i. i \<noteq> inode \<longrightarrow> st_flock s' i = st_flock s i) \<and>
      flock_of s' inode = (flock_of s inode)(k := if ltype = F_UNLCK then None else Some (if ltype = F_WRLCK then W else R))"
proof -
  note dec = flocks_at_unmarshal [OF at] and fo = flocks_at_of [OF at]
  have d: "distinct (map fst ls)" using at by (simp add: flocks_at_def)
  consider (un) "ltype = F_UNLCK" | (rd) "ltype = F_RDLCK" | (wr) "ltype = F_WRLCK"
    | (bad) "ltype \<notin> {F_UNLCK, F_RDLCK, F_WRLCK}" by blast
  then show ?thesis
  proof cases
    case un
    with run dec have "put_flocks ord inode (AList.delete k ls) s = Some (e, s')" by (simp add: Flock_tx_def k_def)
    from put_flocks_at [OF distinct_delete [OF d] ord this] un fo show ?thesis
      by (simp add: flock_free_def delete_conv')
  next
    case rd
    have free: "list_ex (\<lambda>(k', l). l = W \<and> k' \<noteq> k) ls \<longleftrightarrow> \<not> flock_free (flock_of s inode) k ltype"
      using d rd by (auto simp: list_ex_iff flock_free_def fo)
    show ?thesis
    proof (cases "flock_free (flock_of s inode) k ltype")
      case True
      with rd run dec free have "put_flocks ord inode (AList.update k R ls) s = Some (e, s')" by (simp add: Flock_tx_def k_def)
      from put_flocks_at [OF distinct_update [OF d] ord this] rd True fo show ?thesis by (simp add: update_conv')
    qed (use rd run dec free in \<open>simp add: Flock_tx_def k_def\<close>)
  next
    case wr
    have free: "AList.delete k ls = [] \<longleftrightarrow> flock_free (flock_of s inode) k ltype"
      using wr by (simp add: delete_Nil_iff flock_free_def fo)
    show ?thesis
    proof (cases "flock_free (flock_of s inode) k ltype")
      case True
      with wr run dec free have "put_flocks ord inode [(k, W)] s = Some (e, s')" by (simp add: Flock_tx_def k_def)
      from put_flocks_at [OF _ ord this] True wr fo show ?thesis
        by (auto simp: flock_free_def fun_eq_iff)
    qed (use wr run dec free in \<open>simp add: Flock_tx_def k_def\<close>)
  qed (use run dec in \<open>auto simp: Flock_tx_def\<close>)
qed

section \<open>Runs of all clients\<close>

text \<open>A step is a transaction of some client that commits; \<open>ord\<close> is a permutation. The range of a record lock
  ends before the last offset, which is where \<open>End + 1\<close> would wrap.\<close>

inductive lock_step :: "lock_store \<Rightarrow> lock_store \<Rightarrow> bool" where
  flock: "\<lbrakk>\<And>xs. mset (ord xs) = mset xs; Flock_tx ord sid inode owner ltype s = Some (None, s')\<rbrakk> \<Longrightarrow> lock_step s s'"
| setlk: "\<lbrakk>\<And>xs. mset (ord xs) = mset xs; start \<le> end1; end1 < - 1;
     Setlk_tx ord sid inode owner ltype start end1 pid s = Some (None, s')\<rbrakk> \<Longrightarrow> lock_step s s'"

definition empty_locks :: lock_store where
  "empty_locks = \<lparr>st_flock = Map.empty, st_plock = Map.empty\<rparr>"

text \<open>No byte has a write lock of one owner and a lock of another, and no inode a flock for writing and another.\<close>

definition exclusive :: "lock_store \<Rightarrow> bool" where
  "exclusive s \<longleftrightarrow> (\<forall>inode k k'. k \<noteq> k' \<longrightarrow>
     (\<forall>x t p. holds s inode k x = Some (t, p) \<longrightarrow> holds s inode k' x \<noteq> None \<longrightarrow> t \<noteq> F_WRLCK) \<and>
     (flock_of s inode k = Some W \<longrightarrow> flock_of s inode k' = None))"

lemma exclusiveD:
  assumes "exclusive s" and "k \<noteq> k'"
  shows "holds s inode k x = Some (t, p) \<Longrightarrow> holds s inode k' x \<noteq> None \<Longrightarrow> t \<noteq> F_WRLCK"
    and "flock_of s inode k = Some W \<Longrightarrow> flock_of s inode k' = None"
  using assms unfolding exclusive_def by blast+

lemma exclusiveI:
  assumes "\<And>inode k k' x t p. k \<noteq> k' \<Longrightarrow> holds s inode k x = Some (t, p) \<Longrightarrow> holds s inode k' x \<noteq> None \<Longrightarrow> t \<noteq> F_WRLCK"
    and "\<And>inode k k'. k \<noteq> k' \<Longrightarrow> flock_of s inode k = Some W \<Longrightarrow> flock_of s inode k' = None"
  shows "exclusive s"
  using assms unfolding exclusive_def by blast

definition lock_state_ok :: "lock_store \<Rightarrow> bool" where
  "lock_state_ok s \<longleftrightarrow> plocks_wf s \<and> flocks_wf s \<and> exclusive s"

lemma plocks_wf_at: "plocks_wf s \<Longrightarrow> (\<And>os. plocks_at s inode os \<Longrightarrow> thesis) \<Longrightarrow> thesis"
  unfolding plocks_wf_def by blast

lemma plocks_at_held: "plocks_at s inode os \<Longrightarrow> held_by os = holds s inode"
  by (simp add: plocks_at_holds fun_eq_iff)

text \<open>The outcome of a transaction of \<open>Setlk\<close> in terms of the locks held.\<close>

lemma Setlk_tx_outcome:
  fixes sid owner :: "64 word"
  assumes wf: "plocks_wf s" and ord: "\<And>xs. mset (ord xs) = mset xs" and range: "start \<le> end1" "end1 < - 1"
  defines "k \<equiv> \<lparr>lo_sid = sid, lo_owner = owner\<rparr>"
  shows "if ltype \<noteq> F_UNLCK \<and> blocked (holds s inode) k ltype start end1
    then Setlk_tx ord sid inode owner ltype start end1 pid s = Some (Some (Eno EAGAIN), s)
    else case Setlk_tx ord sid inode owner ltype start end1 pid s of
      None \<Rightarrow> 2 ^ 32 \<le> 4 * length (tx_get (st_plock s) inode) + 44
    | Some (e, s') \<Rightarrow> e = None \<and> plocks_wf s' \<and> st_flock s' = st_flock s \<and>
        holds s' = (holds s)(inode := granted (holds s inode) k ltype start end1 pid)"
proof -
  obtain os where at: "plocks_at s inode os" by (rule plocks_wf_at [OF wf])
  let ?tx = "Setlk_tx ord sid inode owner ltype start end1 pid s"
  have new: "plocks_wf s' \<and> st_flock s' = st_flock s \<and>
      holds s' = (holds s)(inode := granted (holds s inode) k ltype start end1 pid)"
    if "\<exists>os2. stored s inode os2 s' \<and> held_by os2 = granted (holds s inode) k ltype start end1 pid" for s'
  proof -
    from that obtain os2 where st: "stored s inode os2 s'" "held_by os2 = granted (holds s inode) k ltype start end1 pid" by blast
    have "holds s' i k' x = ((holds s)(inode := granted (holds s inode) k ltype start end1 pid)) i k' x" for i k' x
      using stored_holds [OF st(1), of k' x] stored_other [OF st(1), of i] st(2) by auto
    then have "holds s' = (holds s)(inode := granted (holds s inode) k ltype start end1 pid)" by (intro ext)
    with stored_wf [OF st(1) wf] st(1) show ?thesis by (simp add: stored_def)
  qed
  note out = Setlk_tx_at [OF at ord range, of ltype sid owner pid,
      unfolded plocks_at_held [OF at] plocks_at_size [OF at, symmetric] k_def [symmetric]]
  show ?thesis
  proof (cases "ltype \<noteq> F_UNLCK \<and> blocked (holds s inode) k ltype start end1")
    case False
    show ?thesis
    proof (cases ?tx)
      case (Some es)
      obtain e s' where es: "es = (e, s')" by fastforce
      have "e = None \<and> (\<exists>os2. stored s inode os2 s' \<and> held_by os2 = granted (holds s inode) k ltype start end1 pid)"
        using out False Some by (simp add: es)
      with new [of s'] show ?thesis using False Some by (simp add: es)
    qed (use out False in simp)
  qed (use out in simp)
qed

lemma Setlk_tx_commits:
  assumes "plocks_wf s" and "\<And>xs. mset (ord xs) = mset xs" and "start \<le> end1" "end1 < - 1"
    and "Setlk_tx ord sid inode owner ltype start end1 pid s = Some (None, s')"
  shows "(ltype \<noteq> F_UNLCK \<longrightarrow> \<not> blocked (holds s inode) \<lparr>lo_sid = sid, lo_owner = owner\<rparr> ltype start end1) \<and>
    plocks_wf s' \<and> st_flock s' = st_flock s \<and>
    holds s' = (holds s)(inode := granted (holds s inode) \<lparr>lo_sid = sid, lo_owner = owner\<rparr> ltype start end1 pid)"
  using Setlk_tx_outcome [OF assms(1-4), of ltype inode sid owner pid] assms(5) by (auto split: if_splits)

lemma flock_of_cong: "st_flock s' i = st_flock s i \<Longrightarrow> flock_of s' i = flock_of s i"
  by (simp add: flock_of_def tx_get_def fun_eq_iff)

lemma holds_cong: "st_plock s' i = st_plock s i \<Longrightarrow> holds s' i = holds s i"
  by (simp add: holds_def tx_get_def fun_eq_iff)

lemma flocks_at_cong: "st_flock s' i = st_flock s i \<Longrightarrow> flocks_at s' i = flocks_at s i"
  by (simp add: flocks_at_def tx_get_def fun_eq_iff)

lemma plocks_at_cong: "st_plock s' i = st_plock s i \<Longrightarrow> plocks_at s' i = plocks_at s i"
  by (simp add: plocks_at_def tx_get_def fun_eq_iff)

lemma granted_exclusive:
  assumes "\<forall>k k' x t p. k \<noteq> k' \<longrightarrow> h k x = Some (t, p) \<longrightarrow> h k' x \<noteq> None \<longrightarrow> t \<noteq> F_WRLCK"
    and "ltype \<noteq> F_UNLCK \<longrightarrow> \<not> blocked h k0 ltype start end1"
    and "k \<noteq> k'" and "granted h k0 ltype start end1 pid k x = Some (t, p)" and "granted h k0 ltype start end1 pid k' x \<noteq> None"
  shows "t \<noteq> F_WRLCK"
proof -
  have free: "h k2 x = Some (t2, p2) \<Longrightarrow> ltype \<noteq> F_WRLCK \<and> t2 \<noteq> F_WRLCK"
    if "k2 \<noteq> k0" "start \<le> x" "x \<le> end1" "ltype \<noteq> F_UNLCK" for k2 t2 p2
    using assms(2) that by (auto simp: blocked_def)
  have "h k x = Some (t, p) \<Longrightarrow> h k' x \<noteq> None \<Longrightarrow> t \<noteq> F_WRLCK" using assms(1,3) by blast
  with assms(3,4,5) free [of k] free [of k'] show ?thesis by (auto simp: granted_def split: if_splits)
qed

lemma Setlk_step_ok:
  assumes ok: "lock_state_ok s" and ord: "\<And>xs. mset (ord xs) = mset xs" and range: "start \<le> end1" "end1 < - 1"
    and run: "Setlk_tx ord sid inode owner ltype start end1 pid s = Some (None, s')"
  shows "lock_state_ok s'"
proof -
  have wf: "plocks_wf s" and ex: "exclusive s" and fw: "flocks_wf s" using ok by (simp_all add: lock_state_ok_def)
  note out = Setlk_tx_commits [OF wf ord range run]
  have fl: "flock_of s' i = flock_of s i" "flocks_at s' i = flocks_at s i" for i
    using out by (auto intro: flock_of_cong flocks_at_cong)
  have "exclusive s'"
  proof (rule exclusiveI)
    fix i k k' x t p
    assume kk: "k \<noteq> k'" and h: "holds s' i k x = Some (t, p)" "holds s' i k' x \<noteq> None"
    show "t \<noteq> F_WRLCK"
    proof (cases "i = inode")
      case True
      have "\<forall>k k' x t p. k \<noteq> k' \<longrightarrow> holds s inode k x = Some (t, p) \<longrightarrow> holds s inode k' x \<noteq> None \<longrightarrow> t \<noteq> F_WRLCK"
        using exclusiveD(1) [OF ex] by blast
      moreover note conjunct1 [OF out] kk
      moreover have "holds s' inode = granted (holds s inode) \<lparr>lo_sid = sid, lo_owner = owner\<rparr> ltype start end1 pid"
        using out by simp
      note h [unfolded True this]
      ultimately show ?thesis by (rule granted_exclusive)
    next
      case False
      with out have "holds s' i = holds s i" by simp
      with exclusiveD(1) [OF ex kk] h show ?thesis by simp
    qed
  qed (simp add: fl exclusiveD(2) [OF ex])
  with out fw show ?thesis by (simp add: lock_state_ok_def flocks_wf_def fl)
qed

lemma Flock_step_ok:
  assumes ok: "lock_state_ok s" and ord: "\<And>xs. mset (ord xs) = mset xs"
    and run: "Flock_tx ord sid inode owner ltype s = Some (None, s')"
  shows "lock_state_ok s'"
proof -
  have fw: "flocks_wf s" and pw: "plocks_wf s" and ex: "exclusive s" using ok by (simp_all add: lock_state_ok_def)
  obtain ls where at: "flocks_at s inode ls" using fw by (auto simp: flocks_wf_def)
  let ?k = "\<lparr>lo_sid = sid, lo_owner = owner\<rparr>"
  have out: "flock_free (flock_of s inode) ?k ltype" "\<exists>ls'. flocks_at s' inode ls'" "st_plock s' = st_plock s"
    "\<forall>i. i \<noteq> inode \<longrightarrow> st_flock s' i = st_flock s i"
    "flock_of s' inode = (flock_of s inode)(?k := if ltype = F_UNLCK then None else Some (if ltype = F_WRLCK then W else R))"
    "ltype \<in> {F_UNLCK, F_RDLCK, F_WRLCK}"
    using Flock_tx_at [OF at ord run] by (auto split: if_splits)
  have pl: "holds s' i = holds s i" "plocks_at s' i = plocks_at s i" for i
    using out(3) by (auto intro: holds_cong plocks_at_cong)
  have "exclusive s'"
  proof (rule exclusiveI)
    fix i k k'
    assume kk: "k \<noteq> k'" and h: "flock_of s' i k = Some W"
    show "flock_of s' i k' = None"
    proof (cases "i = inode")
      case True
      from exclusiveD(2) [OF ex kk, of inode] out(1,6) kk h show ?thesis
        by (auto simp: True out(5) flock_free_def split: if_splits)
    next
      case False
      with out(4) have "flock_of s' i = flock_of s i" by (intro flock_of_cong) simp
      with exclusiveD(2) [OF ex kk] h show ?thesis by simp
    qed
  qed (use exclusiveD(1) [OF ex] in \<open>simp add: pl\<close>)
  moreover have "\<exists>ls. flocks_at s' i ls" for i
    using out(2,4) fw flocks_at_cong [of s' i s] by (cases "i = inode") (auto simp: flocks_wf_def)
  ultimately show ?thesis using pw by (simp add: lock_state_ok_def flocks_wf_def plocks_wf_def pl)
qed

lemma lock_step_ok: "lock_step s s' \<Longrightarrow> lock_state_ok s \<Longrightarrow> lock_state_ok s'"
  by (induction rule: lock_step.induct) (auto intro: Setlk_step_ok Flock_step_ok)

lemma lock_run_ok: "lock_step\<^sup>*\<^sup>* s s' \<Longrightarrow> lock_state_ok s \<Longrightarrow> lock_state_ok s'"
  by (induction rule: rtranclp_induct) (auto intro: lock_step_ok)

lemma empty_locks_good: "lock_state_ok empty_locks"
proof -
  have "plocks_at empty_locks i []" "flocks_at empty_locks i []" for i
    by (simp_all add: plocks_at_def owners_ok_def flocks_at_def tx_get_def empty_locks_def)
  then have at: "plocks_wf empty_locks" "flocks_wf empty_locks" "holds empty_locks i k x = None" "flock_of empty_locks i k = None" for i k x
    using plocks_at_holds [of empty_locks i "[]"] flocks_at_of [of empty_locks i "[]"]
    by (auto simp: plocks_wf_def flocks_wf_def held_by_def)
  then show ?thesis by (simp add: lock_state_ok_def exclusive_def)
qed

section \<open>The calls\<close>

text \<open>What the engine and the other clients may do to the store while a call is under way.\<close>

definition env_ok :: "(lock_store \<Rightarrow> lock_store \<Rightarrow> bool) \<Rightarrow> attempt stream \<Rightarrow> bool" where
  "env_ok Q as \<longleftrightarrow> (\<forall>a \<in> sset as. (\<forall>s. Q s (at_others a s)) \<and> (\<forall>t \<in> sset (at_tries a). try_ok Q t))"

lemma env_ok_shd: "env_ok Q as \<Longrightarrow> Q s (at_others (shd as) s)"
  "env_ok Q as \<Longrightarrow> t \<in> sset (at_tries (shd as)) \<Longrightarrow> try_ok Q t"
  using shd_sset [of as] unfolding env_ok_def by blast+

lemma env_ok_stl: "env_ok Q as \<Longrightarrow> env_ok Q (stl as)"
  by (auto simp: env_ok_def dest: stl_sset)

text \<open>A transaction that is repeated takes effect once, on the store it is left with at last, or not at all.\<close>

lemma lock_loop_run:
  assumes "lock_loop as ro block f s = Some (e, s')" and "env_ok Q as"
    and "reflp Q" and "transp Q" and "\<And>s e s'. f s = Some (Some e, s') \<Longrightarrow> e \<noteq> Eno E0"
  shows "\<exists>s1. Q s s1 \<and> (if e = E0 then f s1 = Some (None, s') else s' = s1)"
proof -
  let ?P = "\<lambda>as ro block f s (r :: Errno \<times> lock_store).
    (\<forall>s e s'. f s = Some (Some e, s') \<longrightarrow> e \<noteq> Eno E0) \<longrightarrow> env_ok Q as \<longrightarrow>
      (\<exists>s1. Q s s1 \<and> (if fst r = E0 then f s1 = Some (None, snd r) else snd r = s1))"
  have "?P as ro block f s (e, s')"
  proof (rule lock_loop.raw_induct [where P = ?P, OF _ assms(1)], intro impI, goal_cases)
    case (1 loop as ro block f s r)
    note err = 1(3) [rule_format] and env = 1(4)
    obtain err s2 where t: "kv_txn (\<lambda>s _. s) ro (at_tries (shd as)) f s = Some (err, s2)"
      using 1(2) by (auto split: option.splits)
    have "\<exists>s1. Q s s1 \<and> (if err = None then f s1 = Some (None, s2) else s2 = s1) \<and> err \<noteq> Some (Eno E0)"
      by (rule kv_txn_run [OF t _ assms(3,4)]) (use env_ok_shd(2) [OF env] err reflpD [OF assms(3)] in blast)+
    then obtain s1
      where s1: "Q s s1" "if err = None then f s1 = Some (None, s2) else s2 = s1" "err \<noteq> Some (Eno E0)" by blast
    show ?case
    proof (cases "\<not> block \<or> err \<noteq> Some (Eno EAGAIN)")
      case True
      with 1(2) t have "r = (errno err, s2)" by simp
      with s1 show ?thesis by (auto simp: errno_E0)
    next
      case False
      with s1 have "Q s (at_others (shd as) s2)" using env_ok_shd(1) [OF env] assms(4) by (auto dest: transpD)
      moreover have "r = (EINTR, at_others (shd as) s2)" if "at_canceled (shd as)"
        using 1(2) t False that by simp
      moreover have "\<exists>s1. Q (at_others (shd as) s2) s1 \<and> (if fst r = E0 then f s1 = Some (None, snd r) else snd r = s1)"
        if "\<not> at_canceled (shd as)"
        by (rule 1(1) [rule_format, OF _ err env_ok_stl [OF env]]) (use 1(2) t False that in auto)
      ultimately show ?thesis using assms(4) by (cases "at_canceled (shd as)") (auto dest: transpD)
    qed
  qed
  with assms(2,5) show ?thesis by auto
qed

lemma env_ok_mono:
  assumes "env_ok Q as" and "\<And>s s'. Q s s' \<Longrightarrow> Q' s s'"
  shows "env_ok Q' as"
  using assms unfolding env_ok_def try_ok_def by (fastforce split: engine_try.splits)

text \<open>A call returns unless its transaction panics: at once when it does not block, and otherwise at the latest
  when it is canceled.\<close>

lemma txn_tries_returns:
  assumes "\<And>s. P s \<Longrightarrow> f s \<noteq> None" and "\<And>t. t \<in> sset os \<Longrightarrow> try_ok (\<lambda>s s'. P s \<longrightarrow> P s') t" and "P s"
  shows "\<exists>err s'. txn_tries (\<lambda>s _. s) n os lastErr f s = Some (err, s') \<and> (err = None \<or> P s')"
  using assms(2,3)
proof (induction n arbitrary: os lastErr s)
  case (Suc n)
  obtain e1 s2 where f: "f s = Some (e1, s2)" using assms(1) [OF Suc.prems(2)] by fastforce
  have hd: "try_ok (\<lambda>s s'. P s \<longrightarrow> P s') (shd os)" by (rule Suc.prems(1)) (rule shd_sset)
  show ?case
  proof (cases e1)
    case None
    show ?thesis
    proof (cases "shd os")
      case (Conflict e other)
      with hd Suc.prems(2) have "P (other s)" by (simp add: try_ok_def)
      then have "\<exists>err s'. txn_tries (\<lambda>s _. s) n (stl os) (Some e) f (other s) = Some (err, s') \<and> (err = None \<or> P s')"
        using Suc.IH [of "stl os" "other s" "Some e"] Suc.prems(1) [OF stl_sset] by blast
      with f None Conflict show ?thesis by auto
    qed (use f None Suc.prems(2) in auto)
  qed (use f Suc.prems(2) in auto)
qed auto

lemma kv_txn_returns:
  assumes "\<And>s. P s \<Longrightarrow> f s \<noteq> None" and "\<And>t. t \<in> sset os \<Longrightarrow> try_ok (\<lambda>s s'. P s \<longrightarrow> P s') t" and "P s"
  shows "\<exists>err s'. kv_txn (\<lambda>s _. s) ro os f s = Some (err, s') \<and> (err = None \<or> P s')"
  using txn_tries_returns [OF assms] assms(3) by (simp add: kv_txn_def)

lemma lock_loop_returns:
  assumes "\<And>s. P s \<Longrightarrow> f s \<noteq> None" and "env_ok (\<lambda>s s'. P s \<longrightarrow> P s') as" and "P s"
    and "block \<longrightarrow> at_canceled (as !! n)"
  shows "\<exists>e s'. lock_loop as ro block f s = Some (e, s')"
  using assms(2-4)
proof (induction n arbitrary: as s)
  case 0
  obtain err s' where "kv_txn (\<lambda>s _. s) ro (at_tries (shd as)) f s = Some (err, s')"
    using kv_txn_returns [of P f "at_tries (shd as)" s ro, OF assms(1) env_ok_shd(2) [OF 0(1)] 0(2)] by blast
  then show ?case by (subst lock_loop.simps) (use 0(3) in auto)
next
  case (Suc n)
  obtain err s' where t: "kv_txn (\<lambda>s _. s) ro (at_tries (shd as)) f s = Some (err, s')" "err = None \<or> P s'"
    using kv_txn_returns [of P f "at_tries (shd as)" s ro, OF assms(1) env_ok_shd(2) [OF Suc.prems(1)] Suc.prems(2)] by blast
  have "\<exists>e s2. lock_loop (stl as) ro block f (at_others (shd as) s') = Some (e, s2)" if "err \<noteq> None"
    by (rule Suc.IH) (use Suc.prems that t(2) env_ok_stl env_ok_shd(1) [OF Suc.prems(1), of s'] in auto)
  with t(1) show ?case by (subst lock_loop.simps) auto
qed

lemma first_conflict_eq:
  "\<exists>r. first_conflict ltype start end1 (encoded os) = Some r \<and>
     (case r of None \<Rightarrow> \<not> (\<exists>(k, ls) \<in> set os. list_ex (conflicts ltype start end1) ls)
      | Some (k, l) \<Rightarrow> \<exists>ls. (k, ls) \<in> set os \<and> l \<in> set ls \<and> conflicts ltype start end1 l)"
proof (induction os)
  case (Cons o1 os)
  obtain k ls where o1: "o1 = (k, ls)" by fastforce
  show ?case
  proof (cases "List.find (conflicts ltype start end1) ls")
    case None
    then have "\<not> list_ex (conflicts ltype start end1) ls" by (simp add: find_None_iff list_ex_iff)
    with Cons None o1 show ?thesis by (fastforce split: option.splits)
  next
    case (Some l)
    then have "l \<in> set ls" "conflicts ltype start end1 l" by (auto simp: find_Some_iff)
    with Some o1 show ?thesis by auto
  qed
qed simp

section \<open>Properties\<close>

lemma Setlk_tx_error:
  assumes "Setlk_tx ord sid inode owner ltype start end1 pid s = Some (Some e, s')"
  shows "e = Eno EAGAIN"
  using assms by (auto simp: Setlk_tx_def put_plocks_def Let_def Option.bind_eq_Some_conv split: if_splits)

lemma small_value: "length v < 2 ^ 30 - 11 \<Longrightarrow> \<not> 2 ^ 32 \<le> 4 * length v + 44"
  by simp

text \<open>C8: Locks exclude each other: whatever locks the clients take and release on an engine that starts empty, no byte
  is locked for writing by one owner and locked by another, and no inode has a flock for writing beside another
  flock.\<close>

theorem lock_run_exclusive:
  assumes "lock_step\<^sup>*\<^sup>* empty_locks s" and "k \<noteq> k'"
  shows "(holds s inode k x = Some (F_WRLCK, p) \<longrightarrow> holds s inode k' x = None) \<and>
    (flock_of s inode k = Some W \<longrightarrow> flock_of s inode k' = None)"
proof -
  have "exclusive s" using lock_run_ok [OF assms(1) empty_locks_good] by (simp add: lock_state_ok_def)
  from exclusiveD [OF this assms(2)] show ?thesis by blast
qed

lemma first_lock:
  obtains s where "lock_step\<^sup>*\<^sup>* empty_locks s" "holds s 7 \<lparr>lo_sid = 1, lo_owner = 9\<rparr> 15 = Some (F_WRLCK, 5)"
proof -
  let ?k = "\<lparr>lo_sid = 1, lo_owner = 9\<rparr>"
  have wf: "plocks_wf empty_locks" using empty_locks_good by (simp add: lock_state_ok_def)
  have none: "holds empty_locks i k x = None" for i k x
    using plocks_at_holds [of empty_locks i "[]"]
    by (simp add: plocks_at_def owners_ok_def tx_get_def empty_locks_def held_by_def)
  have "\<not> blocked (holds empty_locks 7) ?k F_WRLCK 10 20" by (simp add: blocked_def none)
  with Setlk_tx_outcome [OF wf, of id 10 20 F_WRLCK 7 1 9 5] obtain s where
    "Setlk_tx id 1 7 9 F_WRLCK 10 20 5 empty_locks = Some (None, s)" "holds s 7 = granted (holds empty_locks 7) ?k F_WRLCK 10 20 5"
    by (auto simp: tx_get_def empty_locks_def split: option.splits)
  moreover from this(1) have "lock_step empty_locks s" by (rule lock_step.setlk [rotated 3]) simp_all
  ultimately show thesis by (intro that [of s]) (simp_all add: granted_def)
qed

theorem lock_run_exclusive_witness:
  "\<exists>s. lock_step\<^sup>*\<^sup>* empty_locks s \<and> holds s 7 \<lparr>lo_sid = 1, lo_owner = 9\<rparr> 15 = Some (F_WRLCK, 5) \<and>
     holds s 7 \<lparr>lo_sid = 2, lo_owner = 9\<rparr> 15 = None"
proof -
  obtain s where s: "lock_step\<^sup>*\<^sup>* empty_locks s" "holds s 7 \<lparr>lo_sid = 1, lo_owner = 9\<rparr> 15 = Some (F_WRLCK, 5)"
    by (rule first_lock)
  from lock_run_exclusive [OF s(1), of "\<lparr>lo_sid = 1, lo_owner = 9\<rparr>" "\<lparr>lo_sid = 2, lo_owner = 9\<rparr>" 7 15 5] s
  show ?thesis by auto
qed

text \<open>C12: A call of \<open>Setlk\<close>, repeated by the engine and by its own loop as often as it is, takes effect at most
  once. \<open>others\<close> is what the other clients may do to the store meanwhile, any part of the lock calls. When the
  call returns 0, it did so on a store \<open>s1\<close> that the others alone had reached, in which no lock of another
  owner stood in its way, and it changed the locks of its owner on its range and nothing else; when it returns
  an error, the store is one the others alone have reached.\<close>

theorem Setlk_outcome:
  assumes "lock_step\<^sup>*\<^sup>* empty_locks s" and "\<And>xs. mset (ord xs) = mset xs" and "start \<le> end1" "end1 < - 1"
    and "reflp others" and "transp others" and "\<And>s s'. others s s' \<Longrightarrow> lock_step\<^sup>*\<^sup>* s s'"
    and "env_ok others as" and "Setlk as ro ord sid inode owner block ltype start end1 pid s = Some (e, s')"
  shows "\<exists>s1. others s s1 \<and>
    (if e = E0
     then (ltype \<noteq> F_UNLCK \<longrightarrow> \<not> blocked (holds s1 inode) \<lparr>lo_sid = sid, lo_owner = owner\<rparr> ltype start end1) \<and>
       holds s' = (holds s1)(inode := granted (holds s1 inode) \<lparr>lo_sid = sid, lo_owner = owner\<rparr> ltype start end1 pid) \<and>
       st_flock s' = st_flock s1
     else s' = s1)"
proof -
  have "\<exists>s1. others s s1 \<and> (if e = E0
      then Setlk_tx ord sid inode owner ltype start end1 pid s1 = Some (None, s') else s' = s1)"
    by (rule lock_loop_run [OF assms(9) [unfolded Setlk_def] assms(8) assms(5,6)])
       (auto dest: Setlk_tx_error)
  then obtain s1 where s1: "others s s1"
    "if e = E0 then Setlk_tx ord sid inode owner ltype start end1 pid s1 = Some (None, s') else s' = s1" by blast
  have "plocks_wf s1" using lock_run_ok [OF rtranclp_trans [OF assms(1) assms(7) [OF s1(1)]] empty_locks_good]
    by (simp add: lock_state_ok_def)
  from Setlk_tx_commits [OF this assms(2-4)] s1 show ?thesis by (intro exI [of _ s1]) (auto split: if_splits)
qed

definition calm :: "attempt stream" where
  "calm = sconst \<lparr>at_tries = sconst Commit, at_others = id, at_canceled = False\<rparr>"

lemma env_ok_calm: "reflp Q \<Longrightarrow> env_ok Q calm"
  by (simp add: env_ok_def calm_def try_ok_def reflpD)

lemma Setlk_calm:
  "Setlk calm False ord sid inode owner False ltype start end1 pid s =
     map_option (\<lambda>(err, s'). (errno err, if err = None then s' else s)) (Setlk_tx ord sid inode owner ltype start end1 pid s)"
  unfolding Setlk_def
  by (subst lock_loop.simps)
     (auto simp: calm_def kv_txn_def numeral_eq_Suc split: option.splits)

lemma second_lock:
  obtains s where "lock_step\<^sup>*\<^sup>* empty_locks s" "Setlk_tx id 2 7 9 F_RDLCK 15 30 6 s = Some (Some (Eno EAGAIN), s)"
proof -
  obtain s where s: "lock_step\<^sup>*\<^sup>* empty_locks s" "holds s 7 \<lparr>lo_sid = 1, lo_owner = 9\<rparr> 15 = Some (F_WRLCK, 5)"
    by (rule first_lock)
  have wf: "plocks_wf s" using lock_run_ok [OF s(1) empty_locks_good] by (simp add: lock_state_ok_def)
  have "blocked (holds s 7) \<lparr>lo_sid = 2, lo_owner = 9\<rparr> F_RDLCK 15 30"
    by (rule blockedI [where h = "holds s 7", OF _ _ _ s(2)]) simp_all
  then have "Setlk_tx id 2 7 9 F_RDLCK 15 30 6 s = Some (Some (Eno EAGAIN), s)"
    using Setlk_tx_outcome [OF wf, of id 15 30 F_RDLCK 7 2 9 6] by simp
  with s(1) show thesis by (rule that)
qed

theorem Setlk_outcome_witness:
  "\<exists>s s'. lock_step\<^sup>*\<^sup>* empty_locks s \<and> Setlk calm False id 2 7 9 False F_RDLCK 15 30 6 s = Some (EAGAIN, s') \<and>
     s' = s"
proof -
  obtain s where s: "lock_step\<^sup>*\<^sup>* empty_locks s" "Setlk_tx id 2 7 9 F_RDLCK 15 30 6 s = Some (Some (Eno EAGAIN), s)"
    by (rule second_lock)
  have call: "Setlk calm False id 2 7 9 False F_RDLCK 15 30 6 s = Some (EAGAIN, s)"
    using s(2) by (simp add: Setlk_calm errno_def)
  from Setlk_outcome [where others = "(=)", OF s(1) _ _ _ _ _ _ env_ok_calm call] have "\<exists>s1. s = s1 \<and> s = s1"
    by (simp add: reflp_def transp_def)
  with call s(1) show ?thesis by blast
qed

text \<open>C31: A call of \<open>Setlk\<close> returns. One that does not block returns whatever the engine and the other clients
  do, one that blocks at the latest when it is canceled, as long as the value of the inode stays below a
  gigabyte: beyond that the length of the buffer, a 32-bit number, wraps.\<close>

theorem Setlk_returns:
  assumes "lock_step\<^sup>*\<^sup>* empty_locks s" and "\<And>xs. mset (ord xs) = mset xs" and "start \<le> end1" "end1 < - 1"
    and "length (tx_get (st_plock s) inode) < 2 ^ 30 - 11"
    and "env_ok (\<lambda>s s'. lock_step\<^sup>*\<^sup>* s s' \<and>
      (length (tx_get (st_plock s) inode) < 2 ^ 30 - 11 \<longrightarrow> length (tx_get (st_plock s') inode) < 2 ^ 30 - 11)) as"
    and "block \<longrightarrow> at_canceled (as !! n)"
  shows "\<exists>e s'. Setlk as ro ord sid inode owner block ltype start end1 pid s = Some (e, s')"
proof -
  let ?P = "\<lambda>s. lock_step\<^sup>*\<^sup>* empty_locks s \<and> length (tx_get (st_plock s) inode) < 2 ^ 30 - 11"
  have "Setlk_tx ord sid inode owner ltype start end1 pid s \<noteq> None" if "?P s" for s
  proof -
    have "plocks_wf s" using lock_run_ok [OF _ empty_locks_good] that by (simp add: lock_state_ok_def)
    from Setlk_tx_outcome [OF this assms(2-4), of ltype inode sid owner pid] that show ?thesis
      using small_value [of "tx_get (st_plock s) inode"]
      by (cases "Setlk_tx ord sid inode owner ltype start end1 pid s") (auto split: if_splits)
  qed
  moreover have "env_ok (\<lambda>s s'. ?P s \<longrightarrow> ?P s') as"
    by (rule env_ok_mono [OF assms(6)]) (auto intro: rtranclp_trans)
  ultimately show ?thesis
    unfolding Setlk_def using assms(1,5,7) by (intro lock_loop_returns [of ?P]) simp_all
qed

theorem Setlk_returns_witness:
  "\<exists>e s'. Setlk calm False id 1 7 9 False F_WRLCK 10 20 5 empty_locks = Some (e, s')"
proof (rule Setlk_returns [where n = 0])
  show "env_ok (\<lambda>s s'. lock_step\<^sup>*\<^sup>* s s' \<and>
      (length (tx_get (st_plock s) 7) < 2 ^ 30 - 11 \<longrightarrow> length (tx_get (st_plock s') 7) < 2 ^ 30 - 11)) calm"
    by (rule env_ok_calm) (simp add: reflp_def)
qed (simp_all add: tx_get_def empty_locks_def)

text \<open>C32: \<open>Getlk\<close> and \<open>Setlk\<close> agree: \<open>Getlk\<close> answers \<open>F_UNLCK\<close> exactly when a lock of this type on this range
  would be granted, and otherwise it reports the range and the type of a lock another owner holds that stands
  in the way, with its process when that is a process of the same client.\<close>

theorem Getlk_reports_conflict:
  assumes "lock_step\<^sup>*\<^sup>* empty_locks s" and "\<And>xs. mset (ord xs) = mset xs" and "start \<le> end1" "end1 < - 1"
    and "ltype \<noteq> F_UNLCK"
  shows "\<exists>t st en p. Getlk None ord sid inode owner ltype start end1 pid s = Some (E0, t, st, en, p) \<and>
    (t \<noteq> F_UNLCK \<longleftrightarrow> Setlk_tx ord sid inode owner ltype start end1 pid s = Some (Some (Eno EAGAIN), s)) \<and>
    (t \<noteq> F_UNLCK \<longrightarrow> st \<le> end1 \<and> start \<le> en \<and> (ltype = F_WRLCK \<or> t = F_WRLCK) \<and>
      (\<exists>k pk. k \<noteq> \<lparr>lo_sid = sid, lo_owner = owner\<rparr> \<and> p = (if lo_sid k = sid then pk else 0) \<and>
         (\<forall>x. st \<le> x \<and> x \<le> en \<longrightarrow> holds s inode k x = Some (t, pk))))"
proof -
  let ?k = "\<lparr>lo_sid = sid, lo_owner = owner\<rparr>"
  have wf: "plocks_wf s" using lock_run_ok [OF assms(1) empty_locks_good] by (simp add: lock_state_ok_def)
  obtain os where at: "plocks_at s inode os" by (rule plocks_wf_at [OF wf])
  have ok: "owners_ok os" using at by (simp add: plocks_at_def)
  let ?os = "AList.delete ?k os"
  obtain os' where os': "ord (encoded ?os) = encoded os'" "mset os' = mset ?os"
    using encoded_perm [OF assms(2) [of "encoded ?os"]] by blast
  have set: "set os' = set ?os" by (rule mset_eq_setD [OF os'(2)])
  obtain r where r: "first_conflict ltype start end1 (encoded os') = Some r"
    "case r of None \<Rightarrow> \<not> (\<exists>(k, ls) \<in> set os'. list_ex (conflicts ltype start end1) ls)
      | Some (k, l) \<Rightarrow> \<exists>ls. (k, ls) \<in> set os' \<and> l \<in> set ls \<and> conflicts ltype start end1 l"
    using first_conflict_eq by blast
  have get: "Getlk None ord sid inode owner ltype start end1 pid s = Some (case r of
      Some (k, l) \<Rightarrow> (E0, pl_Type l, pl_Start l, pl_End l, if lo_sid k = sid then pl_Pid l else 0)
    | None \<Rightarrow> (E0, F_UNLCK, 0, 0, 0))"
    using assms(5) by (simp add: Getlk_def plocks_at_unmarshal [OF at] delete_encoded os'(1) r(1))
  have blk: "(\<exists>(k, ls) \<in> set os'. list_ex (conflicts ltype start end1) ls) \<longleftrightarrow> blocked (holds s inode) ?k ltype start end1"
    using blocked_conflicts [OF ok assms(2,3), of ltype ?k]
    by (simp add: os'(1) any_conflict_eq plocks_at_held [OF at])
  have set_blk: "blocked (holds s inode) ?k ltype start end1 \<longleftrightarrow>
      Setlk_tx ord sid inode owner ltype start end1 pid s = Some (Some (Eno EAGAIN), s)"
    using Setlk_tx_outcome [OF wf assms(2-4), of ltype inode sid owner pid] assms(5) by (auto split: if_splits)
  show ?thesis
  proof (cases r)
    case None
    then show ?thesis using get r(2) blk set_blk by simp
  next
    case (Some kl)
    obtain k l where kl: "kl = (k, l)" by fastforce
    obtain ls where ls: "(k, ls) \<in> set os'" "l \<in> set ls" "conflicts ltype start end1 l" using r(2) Some kl by auto
    have k: "k \<noteq> ?k" "map_of os k = Some ls" using ls(1) ok unfolding set by (auto simp: AList.delete_eq owners_ok_def)
    have pok: "plocks_ok ls" by (rule owners_okD [OF ok k(2)])
    have "holds s inode k x = Some (pl_Type l, pl_Pid l)" if "pl_Start l \<le> x" "x \<le> pl_End l" for x
      using lock_at_member [OF pok ls(2), of x] that k(2) by (simp add: plocks_at_holds [OF at] held_by_def in_range_def)
    moreover have "blocked (holds s inode) ?k ltype start end1" using blk ls by (auto simp: list_ex_iff)
    moreover have "pl_Type l \<noteq> F_UNLCK" using pok ls(2) by (simp add: plocks_ok_def)
    ultimately show ?thesis using get Some kl k(1) ls(3) set_blk unfolding conflicts_def by auto
  qed
qed

theorem Getlk_reports_conflict_witness:
  "\<exists>s t st en p. Getlk None id 2 7 9 F_RDLCK 15 30 6 s = Some (E0, t, st, en, p) \<and> t = F_WRLCK \<and> st \<le> 30 \<and> 15 \<le> en"
proof -
  obtain s where s: "lock_step\<^sup>*\<^sup>* empty_locks s" "Setlk_tx id 2 7 9 F_RDLCK 15 30 6 s = Some (Some (Eno EAGAIN), s)"
    by (rule second_lock)
  from Getlk_reports_conflict [OF s(1), of id 15 30 F_RDLCK 2 7 9 6] s(2) show ?thesis by auto
qed

text \<open>The same for \<open>Flock\<close>.\<close>

lemma Flock_tx_error:
  assumes "Flock_tx ord sid inode owner ltype s = Some (Some e, s')"
  shows "e = Eno EAGAIN \<or> e = Eno EINVAL"
  using assms by (auto simp: Flock_tx_def put_flocks_def Let_def Option.bind_eq_Some_conv split: if_splits)

lemma Flock_outcome:
  assumes "lock_step\<^sup>*\<^sup>* empty_locks s" and "\<And>xs. mset (ord xs) = mset xs" and "env_ok lock_step\<^sup>*\<^sup>* as"
    and "Flock as ro ord sid inode owner ltype block s = Some (e, s')"
  shows "\<exists>s1. lock_step\<^sup>*\<^sup>* s s1 \<and>
    (if e = E0
     then flock_free (flock_of s1 inode) \<lparr>lo_sid = sid, lo_owner = owner\<rparr> ltype \<and> st_plock s' = st_plock s1 \<and>
       flock_of s' inode = (flock_of s1 inode)(\<lparr>lo_sid = sid, lo_owner = owner\<rparr> :=
         if ltype = F_UNLCK then None else Some (if ltype = F_WRLCK then W else R))
     else s' = s1)"
proof -
  have "\<exists>s1. lock_step\<^sup>*\<^sup>* s s1 \<and> (if e = E0 then Flock_tx ord sid inode owner ltype s1 = Some (None, s') else s' = s1)"
    by (rule lock_loop_run [OF assms(4) [unfolded Flock_def] assms(3)])
       (auto intro!: reflpI transpI dest: Flock_tx_error)
  then obtain s1 where s1: "lock_step\<^sup>*\<^sup>* s s1"
    "if e = E0 then Flock_tx ord sid inode owner ltype s1 = Some (None, s') else s' = s1" by blast
  have "flocks_wf s1" using lock_run_ok [OF rtranclp_trans [OF assms(1) s1(1)] empty_locks_good] by (simp add: lock_state_ok_def)
  then obtain ls where "flocks_at s1 inode ls" by (auto simp: flocks_wf_def)
  from Flock_tx_at [OF this assms(2), of sid owner ltype None s'] s1 show ?thesis
    by (intro exI [of _ s1]) (auto split: if_splits)
qed

text \<open>\<open>ListLocks\<close> lists every lock that is held, and no other.\<close>

lemma those_map_encoded:
  "those (map (\<lambda>(k, records). map_option (map (Pair k)) (loadLocks records)) (encoded os)) = Some (map (\<lambda>(k, ls). map (Pair k) ls) os)"
  by (induction os) auto

lemma ListLocks_complete:
  assumes "lock_step\<^sup>*\<^sup>* empty_locks s" and "\<And>xs. mset (ford xs) = mset xs" and "\<And>xs. mset (pord xs) = mset xs"
  shows "\<exists>ps fs. ListLocks None None ford pord inode s = Some (Inr (ps, fs)) \<and>
    (\<forall>k x v. holds s inode k x = Some v \<longleftrightarrow> (\<exists>l. (k, l) \<in> set ps \<and> in_range x l \<and> v = (pl_Type l, pl_Pid l))) \<and>
    (\<forall>k t. flock_of s inode k = Some t \<longleftrightarrow> (k, t) \<in> set fs)"
proof -
  have ok: "plocks_wf s" "flocks_wf s" using lock_run_ok [OF assms(1) empty_locks_good] by (simp_all add: lock_state_ok_def)
  obtain os where at: "plocks_at s inode os" by (rule plocks_wf_at [OF ok(1)])
  obtain fs where fat: "flocks_at s inode fs" using ok(2) by (auto simp: flocks_wf_def)
  obtain os' where os': "pord (encoded os) = encoded os'" "mset os' = mset os" using encoded_perm [OF assms(3) [of "encoded os"]] by blast
  have oko: "owners_ok os" using at by (simp add: plocks_at_def)
  let ?ps = "concat (map (\<lambda>(k, ls). map (Pair k) ls) os')"
  have mem: "(k, l) \<in> set ?ps \<longleftrightarrow> (\<exists>ls. map_of os k = Some ls \<and> l \<in> set ls)" for k l
    using mset_eq_setD [OF os'(2)] oko by (force simp: owners_ok_def)
  have "holds s inode k x = Some v \<longleftrightarrow> (\<exists>l. (k, l) \<in> set ?ps \<and> in_range x l \<and> v = (pl_Type l, pl_Pid l))" for k x v
    unfolding mem plocks_at_holds [OF at] held_by_Some
    using lock_at_member [OF owners_okD [OF oko]] by (auto elim!: lock_atE)
  moreover have "flock_of s inode k = Some t \<longleftrightarrow> (k, t) \<in> set (ford fs)" for k t
    using fat mset_eq_setD [OF assms(2) [of fs]] by (simp add: flocks_at_of [OF fat]) (simp add: flocks_at_def)
  moreover have "ListLocks None None ford pord inode s = Some (Inr (?ps, ford fs))"
    by (simp add: ListLocks_def flocks_at_unmarshal [OF fat] plocks_at_unmarshal [OF at] os'(1) those_map_encoded del: map_map)
  ultimately show ?thesis by blast
qed

end
