(* ===== verification/JFS_ACL.thy ===== *)
theory JFS_ACL
  imports JFS_Buffer
begin


text \<open>
  The access control lists of JuiceFS (pkg/acl): the rules with their encoding, the check of an access and the
  relation to the permission bits (acl.go), and the cache of rules by id and by checksum (cache.go). A list of
  entries is a value: the code never changes one in place. The mutex of the cache makes each of its methods one
  step.
\<close>

unbundle bit_operations_syntax

section \<open>Rules\<close>

record Entry =
  en_Id :: "32 word"
  en_Perm :: "16 word"

type_synonym Entries = "Entry list"

text \<open>\<open>Entries.IsEqual\<close>: the loop over the indices, after the lengths.\<close>

fun entries_loop :: "Entries \<Rightarrow> Entries \<Rightarrow> bool" where
  "entries_loop (e # es) (f # fs) = (if en_Id e \<noteq> en_Id f \<or> en_Perm e \<noteq> en_Perm f then False else entries_loop es fs)"
| "entries_loop _ _ = True"

definition Entries_IsEqual :: "Entries \<Rightarrow> Entries \<Rightarrow> bool" where
  "Entries_IsEqual es other = (if length es \<noteq> length other then False else entries_loop es other)"

definition write_entry :: "Entry \<Rightarrow> Buffer \<Rightarrow> Buffer option" where
  "write_entry e w = Option.bind (Put32 (en_Id e) w) (Put16 (en_Perm e))"

definition read_entry :: "Buffer \<Rightarrow> (Entry \<times> Buffer) option" where
  "read_entry r = Option.bind (Get32 r) (\<lambda>(i, r). Option.bind (Get16 r) (\<lambda>(p, r). Some (\<lparr>en_Id = i, en_Perm = p\<rparr>, r)))"

definition Entries_Encode :: "Entries \<Rightarrow> 8 word list option" where
  "Entries_Encode es = map_option Bytes (write_all write_entry es (NewBuffer (of_nat (length es * 6))))"

text \<open>\<open>Decode\<close> appends to the list it is called on.\<close>

definition Entries_Decode :: "8 word list \<Rightarrow> Entries \<Rightarrow> Entries option" where
  "Entries_Decode data es = map_option (\<lambda>xs. es @ xs) (read_all read_entry (length data) (ReadBuffer data))"

record Rule =
  Owner :: "16 word"
  Group :: "16 word"
  Mask :: "16 word"
  Other :: "16 word"
  NamedUsers :: Entries
  NamedGroups :: Entries

text \<open>\<open>Dup\<close> of a nil pointer is nil.\<close>

definition Rule_Dup :: "Rule option \<Rightarrow> Rule option" where
  "Rule_Dup r = (case r of Some r \<Rightarrow> Some r | None \<Rightarrow> None)"

definition Rule_Encode :: "Rule \<Rightarrow> 8 word list option" where
  "Rule_Encode r =
     (let w = NewBuffer (of_nat (16 + (length (NamedUsers r) + length (NamedGroups r)) * 6)) in
      map_option Bytes
        (Option.bind (Put16 (Owner r) w) (\<lambda>w. Option.bind (Put16 (Group r) w) (\<lambda>w.
         Option.bind (Put16 (Mask r) w) (\<lambda>w. Option.bind (Put16 (Other r) w) (\<lambda>w.
         Option.bind (Put32 (of_nat (length (NamedUsers r))) w) (\<lambda>w. Option.bind (write_all write_entry (NamedUsers r) w) (\<lambda>w.
         Option.bind (Put32 (of_nat (length (NamedGroups r))) w) (write_all write_entry (NamedGroups r))))))))))"

definition Rule_Decode :: "8 word list \<Rightarrow> Rule option" where
  "Rule_Decode buf =
     Option.bind (Get16 (ReadBuffer buf)) (\<lambda>(o1, rb). Option.bind (Get16 rb) (\<lambda>(g, rb).
     Option.bind (Get16 rb) (\<lambda>(m, rb). Option.bind (Get16 rb) (\<lambda>(t, rb).
     Option.bind (Get32 rb) (\<lambda>(uCnt, rb). Option.bind (read_n read_entry (unat uCnt) rb) (\<lambda>(us, rb).
     Option.bind (Get32 rb) (\<lambda>(gCnt, rb). Option.bind (read_n read_entry (unat gCnt) rb) (\<lambda>(gs, rb).
     Some \<lparr>Owner = o1, Group = g, Mask = m, Other = t, NamedUsers = us, NamedGroups = gs\<rparr>))))))))"

text \<open>The zero value of the type, and the rule with nothing set.\<close>

definition zero_Rule :: Rule where
  "zero_Rule = \<lparr>Owner = 0, Group = 0, Mask = 0, Other = 0, NamedUsers = [], NamedGroups = []\<rparr>"

definition EmptyRule :: Rule where
  "EmptyRule = \<lparr>Owner = 0xFFFF, Group = 0xFFFF, Mask = 0xFFFF, Other = 0xFFFF, NamedUsers = [], NamedGroups = []\<rparr>"

definition Rule_IsEmpty :: "Rule \<Rightarrow> bool" where
  "Rule_IsEmpty r \<longleftrightarrow> length (NamedUsers r) + length (NamedGroups r) = 0 \<and>
     Owner r AND Group r AND Other r AND Mask r = 0xFFFF"

definition IsMinimal :: "Rule \<Rightarrow> bool" where
  "IsMinimal r \<longleftrightarrow> length (NamedGroups r) + length (NamedUsers r) = 0 \<and> Mask r = 0xFFFF"

definition Rule_IsEqual :: "Rule \<Rightarrow> Rule \<Rightarrow> bool" where
  "Rule_IsEqual r other =
     (if Owner r \<noteq> Owner other \<or> Group r \<noteq> Group other \<or> Mask r \<noteq> Mask other \<or> Other r \<noteq> Other other then False
      else Entries_IsEqual (NamedUsers r) (NamedUsers other) \<and> Entries_IsEqual (NamedGroups r) (NamedGroups other))"

definition InheritPerms :: "16 word \<Rightarrow> Rule \<Rightarrow> Rule" where
  "InheritPerms mode r =
     (let r = (if Owner r = 0xFFFF then r\<lparr>Owner := drop_bit 6 mode AND 7\<rparr> else r);
          r = (if Group r = 0xFFFF then r\<lparr>Group := drop_bit 3 mode AND 7\<rparr> else r)
      in if Other r = 0xFFFF then r\<lparr>Other := mode AND 7\<rparr> else r)"

definition SetMode :: "16 word \<Rightarrow> Rule \<Rightarrow> Rule" where
  "SetMode mode r =
     (let r = r\<lparr>Owner := (Owner r AND 0xFFF8) OR (drop_bit 6 mode AND 7)\<rparr>;
          r = (if IsMinimal r then r\<lparr>Group := (Group r AND 0xFFF8) OR (drop_bit 3 mode AND 7)\<rparr>
               else r\<lparr>Mask := (Mask r AND 0xFFF8) OR (drop_bit 3 mode AND 7)\<rparr>)
      in r\<lparr>Other := (Other r AND 0xFFF8) OR (mode AND 7)\<rparr>)"

definition GetMode :: "Rule \<Rightarrow> 16 word" where
  "GetMode r =
     (if IsMinimal r then push_bit 6 (Owner r AND 7) OR push_bit 3 (Group r AND 7) OR (Other r AND 7)
      else push_bit 6 (Owner r AND 7) OR push_bit 3 (Mask r AND 7) OR (Other r AND 7))"

definition ChildAccessACL :: "16 word \<Rightarrow> Rule \<Rightarrow> Rule" where
  "ChildAccessACL mode r =
     \<lparr>Owner = drop_bit 6 mode AND 7 AND Owner r, Group = Group r, Mask = drop_bit 3 mode AND 7 AND Mask r,
      Other = mode AND 7 AND Other r, NamedUsers = NamedUsers r, NamedGroups = NamedGroups r\<rparr>"

text \<open>\<open>crc32.Checksum\<close> with the table of Castagnoli's polynomial, bit by bit.\<close>

definition crc_bit :: "32 word \<Rightarrow> 32 word" where
  "crc_bit c = (if bit c 0 then drop_bit 1 c XOR 0x82F63B78 else drop_bit 1 c)"

definition crc32c :: "8 word list \<Rightarrow> 32 word" where
  "crc32c bs = NOT (foldl (\<lambda>c b. (crc_bit ^^ 8) (c XOR ucast b)) (NOT 0) bs)"

definition Checksum :: "Rule \<Rightarrow> 32 word option" where
  "Checksum r = map_option crc32c (Rule_Encode r)"

text \<open>The permission \<open>p\<close> grants what the mask of the request asks for.\<close>

definition grants :: "16 word \<Rightarrow> 8 word \<Rightarrow> bool" where
  "grants p mMask \<longleftrightarrow> (ucast (p AND 7) :: 8 word) AND mMask = mMask"

text \<open>The two loops over the groups: \<open>None\<close> when they return true, otherwise whether a group matched.\<close>

fun owner_groups :: "Rule \<Rightarrow> 32 word \<Rightarrow> 8 word \<Rightarrow> 32 word list \<Rightarrow> bool \<Rightarrow> bool option" where
  "owner_groups r fGid mMask [] matched = Some matched"
| "owner_groups r fGid mMask (gid # gids) matched =
     (if gid = fGid then if grants (Group r AND Mask r) mMask then None else owner_groups r fGid mMask gids True
      else owner_groups r fGid mMask gids matched)"

fun named_groups :: "Rule \<Rightarrow> 8 word \<Rightarrow> 32 word \<Rightarrow> Entries \<Rightarrow> bool \<Rightarrow> bool option" where
  "named_groups r mMask gid [] matched = Some matched"
| "named_groups r mMask gid (nGrp # es) matched =
     (if gid = en_Id nGrp then if grants (en_Perm nGrp AND Mask r) mMask then None else named_groups r mMask gid es True
      else named_groups r mMask gid es matched)"

fun all_groups :: "Rule \<Rightarrow> 8 word \<Rightarrow> 32 word list \<Rightarrow> bool \<Rightarrow> bool option" where
  "all_groups r mMask [] matched = Some matched"
| "all_groups r mMask (gid # gids) matched =
     Option.bind (named_groups r mMask gid (NamedGroups r) matched) (all_groups r mMask gids)"

definition CanAccess :: "Rule \<Rightarrow> 32 word \<Rightarrow> 32 word list \<Rightarrow> 32 word \<Rightarrow> 32 word \<Rightarrow> 8 word \<Rightarrow> bool" where
  "CanAccess r uid gids fUid fGid mMask =
     (if uid = fUid then grants (Owner r) mMask
      else case List.find (\<lambda>nUser. uid = en_Id nUser) (NamedUsers r) of
        Some nUser \<Rightarrow> grants (en_Perm nUser AND Mask r) mMask
      | None \<Rightarrow>
        (case Option.bind (owner_groups r fGid mMask gids False) (all_groups r mMask gids) of
           None \<Rightarrow> True
         | Some isGrpMatched \<Rightarrow> if isGrpMatched then False else grants (Other r) mMask))"

section \<open>The cache\<close>

text \<open>A nil rule is an empty slot. The map of the rules, to which entries are only added, is a list; a map read at a
  missing key gives the zero value.\<close>

record cache =
  maxId :: "32 word"
  id2Rule :: "(32 word \<times> Rule option) list"
  cksum2Id :: "32 word \<rightharpoonup> 32 word list"

definition NewCache :: cache where
  "NewCache = \<lparr>maxId = 0, id2Rule = [], cksum2Id = Map.empty\<rparr>"

definition cache_Clear :: "cache \<Rightarrow> cache" where
  "cache_Clear c = \<lparr>maxId = 0, id2Rule = [], cksum2Id = Map.empty\<rparr>"

definition cache_GetAll :: "cache \<Rightarrow> (32 word \<times> Rule option) list" where
  "cache_GetAll c = id2Rule c"

definition cache_Size :: "cache \<Rightarrow> nat" where
  "cache_Size c = length (id2Rule c)"

text \<open>The loop from 1 below \<open>n\<close>, in 32 bits.\<close>

definition GetMissIds :: "cache \<Rightarrow> 32 word list" where
  "GetMissIds c =
     (if of_nat (cache_Size c) = maxId c then []
      else let n = maxId c + 1 in filter (\<lambda>i. map_of (id2Rule c) i = None) (map of_nat [1..<unat n]))"

definition cache_Get :: "32 word \<Rightarrow> cache \<Rightarrow> Rule option" where
  "cache_Get i c = (case map_of (id2Rule c) i of Some r \<Rightarrow> r | None \<Rightarrow> None)"

definition ids_of :: "(32 word \<rightharpoonup> 32 word list) \<Rightarrow> 32 word \<Rightarrow> 32 word list" where
  "ids_of m k = (case m k of None \<Rightarrow> [] | Some ids \<Rightarrow> ids)"

definition cache_Put :: "32 word \<Rightarrow> Rule option \<Rightarrow> cache \<Rightarrow> cache option" where
  "cache_Put i r c =
     (if map_of (id2Rule c) i \<noteq> None then Some c
      else let c = (if i > maxId c then c\<lparr>maxId := i\<rparr> else c);
               c = c\<lparr>id2Rule := id2Rule c @ [(i, r)]\<rparr>
      in case r of None \<Rightarrow> Some c
         | Some r \<Rightarrow> map_option (\<lambda>k. c\<lparr>cksum2Id := (cksum2Id c)(k \<mapsto>
             ids_of (cksum2Id c) k @ [i])\<rparr>) (Checksum r))"

text \<open>Comparing with a nil rule panics.\<close>

fun find_id :: "Rule \<Rightarrow> cache \<Rightarrow> 32 word list \<Rightarrow> 32 word option" where
  "find_id r c [] = Some 0"
| "find_id r c (i # ids) = (case cache_Get i c of None \<Rightarrow> None
     | Some other \<Rightarrow> if Rule_IsEqual r other then Some i else find_id r c ids)"

definition cache_GetId :: "Rule option \<Rightarrow> cache \<Rightarrow> 32 word option" where
  "cache_GetId r c = (case r of None \<Rightarrow> Some 0 | Some r \<Rightarrow>
     Option.bind (Checksum r) (\<lambda>k. case cksum2Id c k of None \<Rightarrow> Some 0 | Some ids \<Rightarrow> find_id r c ids))"

section \<open>Encoding\<close>

definition entry_bytes :: "Entry \<Rightarrow> 8 word list" where
  "entry_bytes e = PutUint32 (en_Id e) @ PutUint16 (en_Perm e)"

lemma length_entry_bytes [simp]: "length (entry_bytes e) = 6"
  by (simp add: entry_bytes_def)

interpretation ent: buffer_field entry_bytes write_entry read_entry "\<lambda>_. True"
proof
  fix e :: Entry and a c :: "8 word list"
  show "write_entry e (at a c) = None" if short: "length c < length (entry_bytes e)"
    unfolding write_entry_def
    by (rule bind_put_short [where v = "PutUint32 (en_Id e)" and n = 2]) (use short in \<open>simp_all add: put_rules put_shorts\<close>)
qed (simp_all add: write_entry_def read_entry_def entry_bytes_def put_rules get_rules)

lemma length_entries [simp]: "length (concat (map entry_bytes es)) = 6 * length es"
  by (induction es) simp_all

text \<open>A list of entries is written completely or the call panics, and is read back behind what was there.\<close>

lemma Entries_Encode_eq:
  "Entries_Encode es = (if 6 * length es < 2 ^ 32 then Some (concat (map entry_bytes es)) else None)"
  unfolding Entries_Encode_def by (subst ent.write_all_new) (simp_all add: mult.commute)

lemma Entries_read_back:
  assumes "Entries_Encode es = Some d"
  shows "Entries_Decode d fs = Some (fs @ es)"
proof -
  have "d = concat (map entry_bytes es)" using assms by (simp add: Entries_Encode_eq split: if_splits)
  moreover have "entry_bytes e \<noteq> []" for e by (simp add: entry_bytes_def PutUint32_def)
  ultimately have "read_all read_entry (length d) (FromBuffer d) = Some es"
    by (intro ent.read_all_bytes) (simp_all add: list_all_iff)
  then show ?thesis by (simp add: Entries_Decode_def ReadBuffer_def)
qed

definition rule_bytes :: "Rule \<Rightarrow> 8 word list" where
  "rule_bytes r = PutUint16 (Owner r) @ PutUint16 (Group r) @ PutUint16 (Mask r) @ PutUint16 (Other r) @
     PutUint32 (of_nat (length (NamedUsers r))) @ concat (map entry_bytes (NamedUsers r)) @
     PutUint32 (of_nat (length (NamedGroups r))) @ concat (map entry_bytes (NamedGroups r))"

definition rule_size :: "Rule \<Rightarrow> nat" where
  "rule_size r = 16 + 6 * (length (NamedUsers r) + length (NamedGroups r))"

lemma length_rule_bytes: "length (rule_bytes r) = rule_size r"
  by (simp add: rule_bytes_def rule_size_def)

lemma Rule_Encode_bytes:
  assumes "rule_size r < 2 ^ 32"
  shows "Rule_Encode r = Some (rule_bytes r)"
proof -
  let ?n = "16 + 6 * (length (NamedUsers r) + length (NamedGroups r))"
  have "unat (of_nat (16 + (length (NamedUsers r) + length (NamedGroups r)) * 6) :: 32 word) = ?n"
    using assms unfolding unat_of_nat by (simp add: rule_size_def mult.commute)
  then have buf: "NewBuffer (of_nat (16 + (length (NamedUsers r) + length (NamedGroups r)) * 6)) = at [] (replicate ?n 0)"
    by (simp only: FromBuffer_at)
  show ?thesis
    unfolding Rule_Encode_def Let_def buf by (simp add: put_rules ent.write_all_at rule_bytes_def)
qed

lemma Rule_Decode_bytes:
  assumes "rule_size r < 2 ^ 32"
  shows "Rule_Decode (rule_bytes r) = Some r"
proof -
  have "length (NamedUsers r) < 2 ^ 32" "length (NamedGroups r) < 2 ^ 32" using assms by (simp_all add: rule_size_def)
  then show ?thesis
    by (simp add: Rule_Decode_def rule_bytes_def FromBuffer_at get_rules ent.read_n_at list_all_iff unat_of_nat
        ent.read_n_at [where c = "[]", simplified])
qed

section \<open>Permission bits\<close>

lemma entries_loop_eq: "length es = length fs \<Longrightarrow> entries_loop es fs \<longleftrightarrow> es = fs"
  by (induction es fs rule: entries_loop.induct) (auto simp: Entry.equality)

lemma Rule_IsEqual_iff [simp]: "Rule_IsEqual r s \<longleftrightarrow> r = s"
proof -
  have "Entries_IsEqual es fs \<longleftrightarrow> es = fs" for es fs by (auto simp: Entries_IsEqual_def entries_loop_eq)
  then show ?thesis by (cases r; cases s) (auto simp: Rule_IsEqual_def)
qed

text \<open>The check of POSIX: the owner, a named user, the groups of which one must grant the request, the others.\<close>

definition posix_access :: "Rule \<Rightarrow> 32 word \<Rightarrow> 32 word list \<Rightarrow> 32 word \<Rightarrow> 32 word \<Rightarrow> 8 word \<Rightarrow> bool" where
  "posix_access r uid gids fUid fGid mMask =
     (let groups = (if fGid \<in> set gids then [Group r] else []) @
            map en_Perm (filter (\<lambda>e. en_Id e \<in> set gids) (NamedGroups r)) in
      if uid = fUid then grants (Owner r) mMask
      else case map_of (map (\<lambda>e. (en_Id e, en_Perm e)) (NamedUsers r)) uid of
        Some p \<Rightarrow> grants (p AND Mask r) mMask
      | None \<Rightarrow> if groups = [] then grants (Other r) mMask else \<exists>p \<in> set groups. grants (p AND Mask r) mMask)"

lemma owner_groups_eq:
  "owner_groups r fGid mMask gids matched =
     (if fGid \<in> set gids \<and> grants (Group r AND Mask r) mMask then None else Some (matched \<or> fGid \<in> set gids))"
  by (induction gids arbitrary: matched) auto

lemma named_groups_eq:
  "named_groups r mMask gid es matched =
     (if \<exists>e \<in> set es. en_Id e = gid \<and> grants (en_Perm e AND Mask r) mMask then None
      else Some (matched \<or> (\<exists>e \<in> set es. en_Id e = gid)))"
  by (induction es arbitrary: matched) auto

lemma all_groups_eq:
  "all_groups r mMask gids matched =
     (if \<exists>e \<in> set (NamedGroups r). en_Id e \<in> set gids \<and> grants (en_Perm e AND Mask r) mMask then None
      else Some (matched \<or> (\<exists>e \<in> set (NamedGroups r). en_Id e \<in> set gids)))"
  by (induction gids arbitrary: matched) (auto simp: named_groups_eq)

lemma find_map_of:
  "map_of (map (\<lambda>e. (en_Id e, en_Perm e)) es) uid = map_option en_Perm (List.find (\<lambda>e. uid = en_Id e) es)"
  by (induction es) auto

text \<open>The loops over the groups with their early returns and the flag agree with the definition.\<close>

lemma CanAccess_eq: "CanAccess r uid gids fUid fGid mMask = posix_access r uid gids fUid fGid mMask"
proof -
  define gs where "gs = (if fGid \<in> set gids then [Group r] else []) @ map en_Perm (filter (\<lambda>e. en_Id e \<in> set gids) (NamedGroups r))"
  have loops: "Option.bind (owner_groups r fGid mMask gids False) (all_groups r mMask gids) =
      (if \<exists>p \<in> set gs. grants (p AND Mask r) mMask then None else Some (gs \<noteq> []))"
    unfolding gs_def by (auto simp: owner_groups_eq all_groups_eq filter_empty_conv)
  show ?thesis
    unfolding CanAccess_def posix_access_def Let_def find_map_of loops gs_def [symmetric]
    by (auto split: option.split)
qed

lemma mask_numerals: "(7 :: 16 word) = mask 3" "(0xFFF8 :: 16 word) = NOT (mask 3)" "(0x1FF :: 16 word) = mask 9"
  by (simp_all add: mask_eq_exp_minus_1)

lemma set_low: "((x AND 0xFFF8) OR (y AND 7)) AND 7 = y AND (7 :: 16 word)"
  unfolding mask_numerals by (rule bit_word_eqI) (auto simp: bit_simps)

lemma set_high: "((x AND 0xFFF8) OR (y AND 7)) AND 0xFFF8 = x AND (0xFFF8 :: 16 word)"
  unfolding mask_numerals by (rule bit_word_eqI) (auto simp: bit_simps)

lemma mode_parts:
  "push_bit 6 (drop_bit 6 mode AND 7) OR push_bit 3 (drop_bit 3 mode AND 7) OR (mode AND 7) = mode AND (0x1FF :: 16 word)"
  unfolding mask_numerals
proof (rule bit_word_eqI)
  fix n assume "n < LENGTH(16)"
  then consider "n < 3" | "3 \<le> n" "n < 6" | "6 \<le> n" "n < 9" | "9 \<le> n" by linarith
  then show "bit (push_bit 6 (drop_bit 6 mode AND mask 3) OR push_bit 3 (drop_bit 3 mode AND mask 3) OR mode AND mask 3) n =
    bit (mode AND mask 9) n"
    using \<open>n < LENGTH(16)\<close> by cases (auto simp: bit_simps)
qed

text \<open>A rule keeps its kind under \<open>SetMode\<close> unless its mask is one of the eight values next to the unset one.\<close>

lemma IsMinimal_SetMode:
  assumes "IsMinimal r \<or> NamedUsers r \<noteq> [] \<or> NamedGroups r \<noteq> [] \<or> Mask r AND 0xFFF8 \<noteq> 0xFFF8"
  shows "IsMinimal (SetMode mode r) = IsMinimal r"
proof -
  have "(Mask r AND 0xFFF8) OR (drop_bit 3 mode AND 7) \<noteq> 0xFFFF" if "Mask r AND 0xFFF8 \<noteq> 0xFFF8"
    using set_high [of "Mask r" "drop_bit 3 mode"] that by auto
  with assms show ?thesis by (auto simp: IsMinimal_def SetMode_def Let_def)
qed

lemma GetMode_SetMode:
  assumes "IsMinimal r \<or> NamedUsers r \<noteq> [] \<or> NamedGroups r \<noteq> [] \<or> Mask r AND 0xFFF8 \<noteq> 0xFFF8"
  shows "GetMode (SetMode mode r) = mode AND 0x1FF"
proof -
  have bits: "Owner (SetMode mode r) AND 7 = drop_bit 6 mode AND 7" "Other (SetMode mode r) AND 7 = mode AND 7"
    "(if IsMinimal r then Group (SetMode mode r) else Mask (SetMode mode r)) AND 7 = drop_bit 3 mode AND 7"
    by (simp_all add: SetMode_def Let_def set_low IsMinimal_def)
  have "GetMode s = push_bit 6 (Owner s AND 7) OR push_bit 3 ((if IsMinimal s then Group s else Mask s) AND 7) OR (Other s AND 7)" for s
    by (simp add: GetMode_def)
  then show ?thesis by (simp only: IsMinimal_SetMode [OF assms] bits mode_parts)
qed

text \<open>What an access ACL made from a default ACL grants, the mode asked for grants as well.\<close>

lemma ChildAccessACL_mode:
  "GetMode (ChildAccessACL mode r) AND NOT mode = 0" "\<not> IsMinimal (ChildAccessACL mode r)"
proof -
  have m: "drop_bit 3 mode AND 7 AND Mask r \<noteq> 0xFFFF"
  proof
    assume "drop_bit 3 mode AND 7 AND Mask r = 0xFFFF"
    then have "bit (drop_bit 3 mode AND 7 AND Mask r) 15" by (simp only:) simp
    then show False by (simp add: bit_simps)
  qed
  then show nm: "\<not> IsMinimal (ChildAccessACL mode r)" by (simp add: IsMinimal_def ChildAccessACL_def)
  show "GetMode (ChildAccessACL mode r) AND NOT mode = 0"
    unfolding GetMode_def using nm
    by (auto simp: ChildAccessACL_def mask_numerals bit_eq_iff bit_simps)
qed

section \<open>The cache and its contract\<close>

definition has_id :: "32 word \<Rightarrow> cache \<Rightarrow> bool" where
  "has_id i c \<longleftrightarrow> map_of (id2Rule c) i \<noteq> None"

text \<open>The ids are distinct, not zero and not above the maximum, and under a checksum are the ids of the rules that
  have it.\<close>

definition cache_ok :: "cache \<Rightarrow> bool" where
  "cache_ok c \<longleftrightarrow> distinct (map fst (id2Rule c)) \<and> (\<forall>(i, r) \<in> set (id2Rule c). i \<noteq> 0 \<and> i \<le> maxId c) \<and>
     (\<forall>k i. (\<exists>ids. cksum2Id c k = Some ids \<and> i \<in> set ids) \<longleftrightarrow>
       (\<exists>r. map_of (id2Rule c) i = Some (Some r) \<and> Checksum r = Some k))"

text \<open>What the metadata relies on: a rule that was put is found by its id and by its contents.\<close>

locale rule_cache =
  fixes put :: "32 word \<Rightarrow> Rule option \<Rightarrow> 'c \<Rightarrow> 'c option"
    and get :: "32 word \<Rightarrow> 'c \<Rightarrow> Rule option"
    and getId :: "Rule option \<Rightarrow> 'c \<Rightarrow> 32 word option"
    and has :: "32 word \<Rightarrow> 'c \<Rightarrow> bool"
    and ok :: "'c \<Rightarrow> bool"
    and fits :: "Rule \<Rightarrow> bool"
  assumes put_ok: "ok c \<Longrightarrow> i \<noteq> 0 \<Longrightarrow> put i ro c = Some c' \<Longrightarrow> ok c'"
    and put_total: "fits r \<Longrightarrow> put i (Some r) c \<noteq> None"
    and get_put: "put i ro c = Some c' \<Longrightarrow> get j c' = (if j = i \<and> \<not> has i c then ro else get j c)"
    and has_put: "put i ro c = Some c' \<Longrightarrow> has j c' \<longleftrightarrow> j = i \<or> has j c"
    and getId_sound: "ok c \<Longrightarrow> getId (Some r) c = Some i \<Longrightarrow> i \<noteq> 0 \<Longrightarrow> get i c = Some r"
    and getId_complete: "ok c \<Longrightarrow> getId (Some r) c = Some 0 \<Longrightarrow> get j c \<noteq> Some r"
    and getId_total: "ok c \<Longrightarrow> fits r \<Longrightarrow> getId (Some r) c \<noteq> None"
begin

text \<open>Looking a rule up and putting it under a new id when it is not there, as \<open>saveACL\<close> and \<open>insertACL\<close> do.\<close>

definition find_or_put :: "32 word \<Rightarrow> Rule \<Rightarrow> 'c \<Rightarrow> (32 word \<times> 'c) option" where
  "find_or_put new r c = Option.bind (getId (Some r) c) (\<lambda>i.
     if i = 0 then map_option (Pair new) (put new (Some r) c) else Some (i, c))"

lemma find_or_put_total: "ok c \<Longrightarrow> fits r \<Longrightarrow> find_or_put new r c \<noteq> None"
  using getId_total put_total by (fastforce simp: find_or_put_def)

lemma find_or_put_gives:
  assumes "ok c" and "new \<noteq> 0" and "\<not> has new c" and "find_or_put new r c = Some (i, c')"
  shows "ok c' \<and> i \<noteq> 0 \<and> get i c' = Some r \<and> (\<forall>j. j \<noteq> new \<longrightarrow> get j c' = get j c) \<and>
    ((\<exists>j. get j c = Some r) \<longrightarrow> c' = c)"
proof -
  obtain i0 where i0: "getId (Some r) c = Some i0"
    using assms(4) by (auto simp: find_or_put_def Option.bind_eq_Some_conv)
  show ?thesis
  proof (cases "i0 = 0")
    case True
    with i0 assms(4) have p: "put new (Some r) c = Some c'" "i = new" by (auto simp: find_or_put_def)
    from getId_complete [OF assms(1)] i0 True have "\<nexists>j. get j c = Some r" by blast
    with put_ok [OF assms(1,2) p(1)] get_put [OF p(1)] assms(2,3) p(2) show ?thesis by auto
  next
    case False
    with i0 assms(4) have "i = i0" "c' = c" by (auto simp: find_or_put_def)
    with getId_sound [OF assms(1) i0 False] False assms(1) show ?thesis by auto
  qed
qed

lemma put_gets:
  assumes "put i r c = Some c'" and "get j c \<noteq> None" and "\<And>j. get j c \<noteq> None \<Longrightarrow> has j c"
  shows "get j c' = get j c"
  using get_put [OF assms(1), of j] assms(2,3) by auto

end

lemma cache_Put_cases:
  assumes "cache_Put i r c = Some c'"
  shows "has_id i c \<and> c' = c \<or> \<not> has_id i c \<and> id2Rule c' = id2Rule c @ [(i, r)] \<and>
    maxId c' = (if i > maxId c then i else maxId c) \<and>
    (case r of None \<Rightarrow> cksum2Id c' = cksum2Id c
     | Some r \<Rightarrow> \<exists>k. Checksum r = Some k \<and> cksum2Id c' = (cksum2Id c)(k \<mapsto> ids_of (cksum2Id c) k @ [i]))"
proof (cases r)
  case (Some r1)
  then show ?thesis using assms by (cases "Checksum r1") (auto simp: cache_Put_def has_id_def Let_def split: if_splits)
qed (use assms in \<open>auto simp: cache_Put_def has_id_def Let_def split: if_splits\<close>)

lemma cache_Put_map:
  assumes "cache_Put i r c = Some c'"
  shows "map_of (id2Rule c') j = (if j = i \<and> \<not> has_id i c then Some r else map_of (id2Rule c) j)"
  using cache_Put_cases [OF assms] by (auto simp: has_id_def map_add_def split: option.splits)

lemma cache_Put_ok:
  assumes "cache_ok c" and "i \<noteq> 0" and put: "cache_Put i r c = Some c'"
  shows "cache_ok c'"
proof (cases "has_id i c")
  case True
  with cache_Put_cases [OF put] assms(1) show ?thesis by simp
next
  case False
  note put' = cache_Put_cases [OF put]
  have new: "i \<notin> set (map fst (id2Rule c))" using False by (simp add: has_id_def map_of_eq_None_iff)
  have ids: "distinct (map fst (id2Rule c'))" "\<forall>(j, r) \<in> set (id2Rule c'). j \<noteq> 0 \<and> j \<le> maxId c'"
    using assms(1,2) put' False new by (auto simp: cache_ok_def)
  have old: "(\<exists>ids. cksum2Id c k = Some ids \<and> j \<in> set ids) \<longleftrightarrow> (\<exists>r. map_of (id2Rule c) j = Some (Some r) \<and> Checksum r = Some k)" for k j
    using assms(1) by (simp add: cache_ok_def)
  have "(\<exists>ids. cksum2Id c' k = Some ids \<and> j \<in> set ids) \<longleftrightarrow> (\<exists>r. map_of (id2Rule c') j = Some (Some r) \<and> Checksum r = Some k)" for k j
  proof (cases r)
    case None
    then show ?thesis using put' False old [of k j] cache_Put_map [OF put, of j] by (auto simp: has_id_def)
  next
    case (Some r1)
    then obtain k1 where k1: "Checksum r1 = Some k1"
      "cksum2Id c' = (cksum2Id c)(k1 \<mapsto> ids_of (cksum2Id c) k1 @ [i])"
      using put' False by auto
    have "(\<exists>ids. cksum2Id c' k = Some ids \<and> j \<in> set ids) \<longleftrightarrow> (\<exists>ids. cksum2Id c k = Some ids \<and> j \<in> set ids) \<or> k = k1 \<and> j = i"
      using k1(2) by (auto simp: ids_of_def split: option.splits)
    moreover have "map_of (id2Rule c) i = None" using False by (simp add: has_id_def)
    ultimately show ?thesis using old [of k j] cache_Put_map [OF put, of j] False Some k1(1) by auto
  qed
  with ids show ?thesis by (simp add: cache_ok_def)
qed

lemma NewCache_ok: "cache_ok NewCache"
  by (simp add: cache_ok_def NewCache_def)

lemma find_id_spec:
  assumes "\<forall>i \<in> set ids. cache_Get i c \<noteq> None \<and> i \<noteq> 0"
  shows "\<exists>i. find_id r c ids = Some i \<and> (i \<noteq> 0 \<longrightarrow> cache_Get i c = Some r) \<and> (i = 0 \<longrightarrow> (\<forall>j \<in> set ids. cache_Get j c \<noteq> Some r))"
  using assms
proof (induction ids)
  case (Cons a ids)
  then obtain y where "cache_Get a c = Some y" "a \<noteq> 0" by auto
  with Cons show ?case by (cases "r = y") auto
qed simp

lemma cache_Get_iff: "cache_Get i c = Some r \<longleftrightarrow> map_of (id2Rule c) i = Some (Some r)"
  by (auto simp: cache_Get_def split: option.splits)

lemma cache_GetId_spec:
  assumes ok: "cache_ok c" and k: "Checksum r = Some k"
  shows "\<exists>i. cache_GetId (Some r) c = Some i \<and> (i \<noteq> 0 \<longrightarrow> cache_Get i c = Some r) \<and> (i = 0 \<longrightarrow> (\<forall>j. cache_Get j c \<noteq> Some r))"
proof (cases "cksum2Id c k")
  case None
  have "cache_Get j c \<noteq> Some r" for j
  proof
    assume "cache_Get j c = Some r"
    then have "\<exists>ids. cksum2Id c k = Some ids \<and> j \<in> set ids" using ok k unfolding cache_ok_def cache_Get_iff by blast
    with None show False by simp
  qed
  with None k show ?thesis by (simp add: cache_GetId_def)
next
  case (Some ids)
  have ids: "j \<in> set ids \<longleftrightarrow> (\<exists>r. map_of (id2Rule c) j = Some (Some r) \<and> Checksum r = Some k)" for j
  proof -
    have "(\<exists>ids. cksum2Id c k = Some ids \<and> j \<in> set ids) \<longleftrightarrow> (\<exists>r. map_of (id2Rule c) j = Some (Some r) \<and> Checksum r = Some k)"
      using ok unfolding cache_ok_def by blast
    then show ?thesis by (simp add: Some)
  qed
  have ne: "i \<noteq> 0" if "map_of (id2Rule c) i = Some ro" for i ro
    using ok map_of_SomeD [OF that] by (auto simp: cache_ok_def)
  have "\<forall>i \<in> set ids. cache_Get i c \<noteq> None \<and> i \<noteq> 0"
    using ids ne by (auto simp: cache_Get_def)
  from find_id_spec [OF this, of r] obtain i where i: "find_id r c ids = Some i" "i \<noteq> 0 \<longrightarrow> cache_Get i c = Some r"
    "i = 0 \<longrightarrow> (\<forall>j \<in> set ids. cache_Get j c \<noteq> Some r)" by blast
  have "j \<in> set ids" if "cache_Get j c = Some r" for j using that ids k by (auto simp: cache_Get_iff)
  with i k Some show ?thesis by (auto simp: cache_GetId_def)
qed

lemma Checksum_fits: "rule_size r < 2 ^ 32 \<Longrightarrow> Checksum r = Some (crc32c (rule_bytes r))"
  by (simp add: Checksum_def Rule_Encode_bytes)

interpretation acls: rule_cache cache_Put cache_Get cache_GetId has_id cache_ok "\<lambda>r. rule_size r < 2 ^ 32"
proof
  show "cache_ok c \<Longrightarrow> i \<noteq> 0 \<Longrightarrow> cache_Put i r c = Some c' \<Longrightarrow> cache_ok c'" for c i r c' by (rule cache_Put_ok)
  show "rule_size r < 2 ^ 32 \<Longrightarrow> cache_Put i (Some r) c \<noteq> None" for r i c
    by (auto simp: cache_Put_def Let_def Checksum_fits)
  show "cache_Get j c' = (if j = i \<and> \<not> has_id i c then r else cache_Get j c)" if "cache_Put i r c = Some c'" for i r c c' j
    using cache_Put_map [OF that, of j] by (simp add: cache_Get_def)
  show "has_id j c' \<longleftrightarrow> j = i \<or> has_id j c" if "cache_Put i r c = Some c'" for i r c c' j
    using cache_Put_map [OF that, of j] by (auto simp: has_id_def)
  show "cache_Get i c = Some r" if "cache_ok c" "cache_GetId (Some r) c = Some i" "i \<noteq> 0" for c r i
    using that cache_GetId_spec [OF that(1), of r] by (cases "Checksum r") (auto simp: cache_GetId_def)
  show "cache_Get j c \<noteq> Some r" if "cache_ok c" "cache_GetId (Some r) c = Some 0" for c r j
    using that cache_GetId_spec [OF that(1), of r] by (cases "Checksum r") (auto simp: cache_GetId_def)
  show "cache_GetId (Some r) c \<noteq> None" if "cache_ok c" "rule_size r < 2 ^ 32" for c r
    using cache_GetId_spec [OF that(1) Checksum_fits [OF that(2)]] by auto
qed

text \<open>The missing ids are those from 1 to the maximum that have no entry; the short cut by the size is right because
  the ids lie in that range.\<close>

lemma GetMissIds_exact:
  assumes ok: "cache_ok c" and "maxId c \<noteq> - 1"
  shows "set (GetMissIds c) = {i. i \<noteq> 0 \<and> i \<le> maxId c \<and> \<not> has_id i c}"
proof -
  let ?ids = "fst ` set (id2Rule c)" and ?all = "{i. i \<noteq> 0 \<and> i \<le> maxId c}"
  have inv: "unat (of_nat n :: 32 word) = n" if "n \<le> unat (maxId c)" for n
    using that unsigned_less [of "maxId c", where ?'a = nat] by (simp add: unat_of_nat)
  have img: "of_nat ` {1..unat (maxId c)} = ?all"
  proof (intro equalityI subsetI)
    fix i assume "i \<in> ?all"
    then show "i \<in> of_nat ` {1..unat (maxId c)}"
      by (intro image_eqI [where x = "unat i"]) (auto simp: word_le_nat_alt Suc_le_eq unat_gt_0)
  next
    fix i :: "32 word" assume "i \<in> of_nat ` {1..unat (maxId c)}"
    then obtain n where n: "i = of_nat n" "1 \<le> n" "n \<le> unat (maxId c)" by auto
    then have "unat i = n" using inv by simp
    with n show "i \<in> ?all" by (auto simp: word_le_nat_alt)
  qed
  have "inj_on (of_nat :: nat \<Rightarrow> 32 word) {1..unat (maxId c)}" by (rule inj_on_inverseI [where g = unat]) (simp add: inv)
  from card_image [OF this] have card: "card ?all = unat (maxId c)" "finite ?all" unfolding img by simp_all
  have sub: "?ids \<subseteq> ?all" using ok by (auto simp: cache_ok_def)
  have len: "card ?ids = length (id2Rule c)"
    using ok distinct_card [of "map fst (id2Rule c)"] by (simp add: cache_ok_def)
  have has: "has_id i c \<longleftrightarrow> i \<in> ?ids" for i by (simp add: has_id_def map_of_eq_None_iff)
  show ?thesis
  proof (cases "of_nat (cache_Size c) = maxId c")
    case True
    have "length (id2Rule c) \<le> unat (maxId c)" using card_mono [OF card(2) sub] card(1) len by simp
    then have "length (id2Rule c) = unat (maxId c)"
      using True inv [of "length (id2Rule c)"] by (simp add: cache_Size_def)
    then have "?ids = ?all" using card_subset_eq [OF card(2) sub] card(1) len by simp
    with True show ?thesis by (auto simp: GetMissIds_def has)
  next
    case False
    have n: "unat (maxId c + 1) = unat (maxId c) + 1"
      using assms(2) by (metis Suc_eq_plus1 add.commute add.inverse_inverse add_eq_0_iff unatSuc)
    have "set [1..<unat (maxId c) + 1] = {1..unat (maxId c)}" by auto
    then have "set (map of_nat [1..<unat (maxId c + 1)]) = ?all" by (simp only: n set_map img)
    with False show ?thesis by (auto simp: GetMissIds_def Let_def has_id_def)
  qed
qed

end
