(* ===== verification/JFS_Attr.thy ===== *)
theory JFS_Attr
  imports JFS_ACL
begin


text \<open>
  The attributes of an inode (pkg/meta/interface.go) with their stored form, and the permission bits
  (pkg/meta/utils.go, pkg/meta/base.go). Times are signed in Go and are kept here as 64-bit words.
\<close>

unbundle bit_operations_syntax

section \<open>Attributes\<close>

record Attr =
  Flags :: "8 word"
  Typ :: "8 word"
  Mode :: "16 word"
  Uid :: "32 word"
  Gid :: "32 word"
  Rdev :: "32 word"
  Atime :: "64 word"
  Mtime :: "64 word"
  Ctime :: "64 word"
  Atimensec :: "32 word"
  Mtimensec :: "32 word"
  Ctimensec :: "32 word"
  Nlink :: "32 word"
  Length :: "64 word"
  Parent :: "64 word"
  Full :: bool
  KeepCache :: bool
  AccessACL :: "32 word"
  DefaultACL :: "32 word"

definition zero_Attr :: Attr where
  "zero_Attr = \<lparr>Flags = 0, Typ = 0, Mode = 0, Uid = 0, Gid = 0, Rdev = 0, Atime = 0, Mtime = 0, Ctime = 0,
     Atimensec = 0, Mtimensec = 0, Ctimensec = 0, Nlink = 0, Length = 0, Parent = 0, Full = False, KeepCache = False,
     AccessACL = 0, DefaultACL = 0\<rparr>"

text \<open>The sum of the ids is a 32-bit number.\<close>

definition Attr_Marshal :: "Attr \<Rightarrow> 8 word list option" where
  "Attr_Marshal attr =
     (let size = 36 + 24 + 4 + 8;
          size = (if AccessACL attr OR DefaultACL attr \<noteq> 0 then size + 8 else size);
          w = NewBuffer size in
      map_option Bytes
       (Option.bind (Put8 (Flags attr) w) (\<lambda>w.
        Option.bind (Put16 (push_bit 12 (ucast (Typ attr)) OR (Mode attr AND 0xfff)) w) (\<lambda>w.
        Option.bind (Put32 (Uid attr) w) (\<lambda>w. Option.bind (Put32 (Gid attr) w) (\<lambda>w.
        Option.bind (Put64 (Atime attr) w) (\<lambda>w. Option.bind (Put32 (Atimensec attr) w) (\<lambda>w.
        Option.bind (Put64 (Mtime attr) w) (\<lambda>w. Option.bind (Put32 (Mtimensec attr) w) (\<lambda>w.
        Option.bind (Put64 (Ctime attr) w) (\<lambda>w. Option.bind (Put32 (Ctimensec attr) w) (\<lambda>w.
        Option.bind (Put32 (Nlink attr) w) (\<lambda>w. Option.bind (Put64 (Length attr) w) (\<lambda>w.
        Option.bind (Put32 (Rdev attr) w) (\<lambda>w. Option.bind (Put64 (Parent attr) w) (\<lambda>w.
        if AccessACL attr + DefaultACL attr > 0
        then Option.bind (Put32 (AccessACL attr) w) (Put32 (DefaultACL attr)) else Some w))))))))))))))))"

text \<open>\<open>Unmarshal\<close> overwrites the fields it reads.\<close>

definition Attr_Unmarshal :: "8 word list \<Rightarrow> Attr \<Rightarrow> Attr option" where
  "Attr_Unmarshal buf attr =
     (if buf = [] then Some attr else
      Option.bind (Get8 (FromBuffer buf)) (\<lambda>(flags, rb). Option.bind (Get16 rb) (\<lambda>(mode, rb).
      Option.bind (Get32 rb) (\<lambda>(uid, rb). Option.bind (Get32 rb) (\<lambda>(gid, rb).
      Option.bind (Get64 rb) (\<lambda>(atime, rb). Option.bind (Get32 rb) (\<lambda>(atimensec, rb).
      Option.bind (Get64 rb) (\<lambda>(mtime, rb). Option.bind (Get32 rb) (\<lambda>(mtimensec, rb).
      Option.bind (Get64 rb) (\<lambda>(ctime, rb). Option.bind (Get32 rb) (\<lambda>(ctimensec, rb).
      Option.bind (Get32 rb) (\<lambda>(nlink, rb). Option.bind (Get64 rb) (\<lambda>(len, rb).
      Option.bind (Get32 rb) (\<lambda>(rdev, rb).
      let attr = attr\<lparr>Flags := flags, Mode := mode AND 0xfff, Typ := ucast (drop_bit 12 mode), Uid := uid, Gid := gid,
            Atime := atime, Atimensec := atimensec, Mtime := mtime, Mtimensec := mtimensec, Ctime := ctime,
            Ctimensec := ctimensec, Nlink := nlink, Length := len, Rdev := rdev\<rparr> in
      Option.bind (if Left rb \<ge> 8 then map_option (apfst (\<lambda>p. attr\<lparr>Parent := p\<rparr>)) (Get64 rb) else Some (attr, rb)) (\<lambda>(attr, rb).
      let attr = attr\<lparr>Full := True\<rparr> in
      if Left rb \<ge> 8
      then Option.bind (Get32 rb) (\<lambda>(access, rb). Option.bind (Get32 rb) (\<lambda>(default, rb).
        Some (attr\<lparr>AccessACL := access, DefaultACL := default\<rparr>)))
      else Some attr)))))))))))))))"

definition Attr_reset :: "Attr \<Rightarrow> Attr" where
  "Attr_reset attr = attr\<lparr>Flags := 0, Mode := 0, Typ := 0, Uid := 0, Gid := 0, Atime := 0, Atimensec := 0, Mtime := 0,
     Mtimensec := 0, Ctime := 0, Ctimensec := 0, Nlink := 0, Length := 0, Rdev := 0, Parent := 0, AccessACL := 0,
     DefaultACL := 0, Full := False\<rparr>"

text \<open>The identity of a caller.\<close>

record Context =
  ctx_Uid :: "32 word"
  ctx_Gid :: "32 word"
  ctx_Gids :: "32 word list"
  ctx_CheckPermission :: bool

fun containsGid :: "32 word list \<Rightarrow> 32 word \<Rightarrow> bool" where
  "containsGid [] gid = False"
| "containsGid (g # gs) gid = (if g = gid then True else containsGid gs gid)"

definition accessMode :: "Attr \<Rightarrow> 32 word \<Rightarrow> 32 word list \<Rightarrow> 8 word" where
  "accessMode attr uid gids =
     (if uid = 0 then 0x7
      else let mode = Mode attr in
        if uid = Uid attr then ucast (drop_bit 6 mode) AND 7
        else if containsGid gids (Gid attr) then ucast (drop_bit 3 mode) AND 7
        else ucast (mode AND 7))"

definition TypeDirectory :: "8 word" where "TypeDirectory = 2"

text \<open>\<open>clearSUGID\<close> on Linux, for both modes it changes.\<close>

definition clearSUGID :: "Context \<Rightarrow> Attr \<Rightarrow> Attr \<Rightarrow> Attr \<times> Attr" where
  "clearSUGID ctx cur set1 =
     (if Typ cur \<noteq> TypeDirectory then
        if ctx_Uid ctx \<noteq> 0 \<or> drop_bit 3 (Mode cur) AND 1 \<noteq> 0
        then (cur\<lparr>Mode := Mode cur AND 0x3FF\<rparr>, set1\<lparr>Mode := Mode set1 AND 0x3FF\<rparr>)
        else (cur\<lparr>Mode := Mode cur AND 0x7FF\<rparr>, set1\<lparr>Mode := Mode set1 AND 0x7FF\<rparr>)
      else (cur, set1))"

section \<open>Stored attributes\<close>

definition attr_bytes :: "Attr \<Rightarrow> 8 word list" where
  "attr_bytes a = [Flags a] @ PutUint16 (push_bit 12 (ucast (Typ a)) OR (Mode a AND 0xfff)) @ PutUint32 (Uid a) @ PutUint32 (Gid a) @
     PutUint64 (Atime a) @ PutUint32 (Atimensec a) @ PutUint64 (Mtime a) @ PutUint32 (Mtimensec a) @
     PutUint64 (Ctime a) @ PutUint32 (Ctimensec a) @ PutUint32 (Nlink a) @ PutUint64 (Length a) @ PutUint32 (Rdev a) @
     PutUint64 (Parent a)"

definition acl_bytes :: "Attr \<Rightarrow> 8 word list" where
  "acl_bytes a = (if AccessACL a = 0 \<and> DefaultACL a = 0 then [] else PutUint32 (AccessACL a) @ PutUint32 (DefaultACL a))"

text \<open>The ids do not add up to zero by wrapping around.\<close>

definition acl_ids_ok :: "Attr \<Rightarrow> bool" where
  "acl_ids_ok a \<longleftrightarrow> (AccessACL a + DefaultACL a = 0 \<longrightarrow> AccessACL a = 0 \<and> DefaultACL a = 0)"

definition attr_ok :: "Attr \<Rightarrow> bool" where
  "attr_ok a \<longleftrightarrow> acl_ids_ok a \<and> Typ a < 16 \<and> Mode a < 0x1000 \<and> Full a \<and> \<not> KeepCache a"

lemma or_eq_0_iff_word: "(x :: 32 word) OR y = 0 \<longleftrightarrow> x = 0 \<and> y = 0"
  by (auto simp: bit_eq_iff bit_or_iff)

lemma acl_bytes_set: "\<not> (AccessACL a = 0 \<and> DefaultACL a = 0) \<Longrightarrow> acl_bytes a = PutUint32 (AccessACL a) @ PutUint32 (DefaultACL a)"
  by (simp only: acl_bytes_def if_False)

text \<open>One byte of the buffer is never used.\<close>

lemma Attr_Marshal_bytes:
  assumes "acl_ids_ok a"
  shows "Attr_Marshal a = Some (attr_bytes a @ acl_bytes a @ [0])"
proof (cases "AccessACL a = 0 \<and> DefaultACL a = 0")
  case True
  then show ?thesis
    by (simp add: Attr_Marshal_def FromBuffer_at put_rules attr_bytes_def acl_bytes_def)
next
  case False
  with assms have "AccessACL a + DefaultACL a > 0" "AccessACL a OR DefaultACL a \<noteq> 0"
    by (auto simp: acl_ids_ok_def word_neq_0_conv or_eq_0_iff_word)
  then show ?thesis
    unfolding acl_bytes_set [OF False] by (simp add: Attr_Marshal_def FromBuffer_at put_rules attr_bytes_def)
qed

lemma bit_small:
  fixes w :: "'a::len word"
  assumes "w < 2 ^ k" and "k < LENGTH('a)" and "k \<le> n"
  shows "\<not> bit w n"
proof -
  have "take_bit k w = w" using assms by (simp add: less_mask_eq take_bit_eq_mask word_less_nat_alt)
  then show ?thesis using assms(3) by (metis bit_take_bit_iff leD)
qed

lemma mode_typ:
  fixes t :: "8 word" and m :: "16 word"
  assumes "t < 16" and "m < 0x1000"
  shows "(push_bit 12 (ucast t) OR (m AND 0xfff)) AND 0xfff = m"
    and "ucast (drop_bit 12 (push_bit 12 (ucast t) OR (m AND 0xfff) :: 16 word)) = t"
proof -
  have fff: "(0xfff :: 16 word) = mask 12" by (simp add: mask_eq_exp_minus_1)
  have t: "n < 4" if "bit t n" for n using that bit_small [of t 4 n] assms(1) by (cases "4 \<le> n") auto
  have m: "n < 12" if "bit m n" for n using that bit_small [of m 12 n] assms(2) by (cases "12 \<le> n") auto
  show "(push_bit 12 (ucast t) OR (m AND 0xfff)) AND 0xfff = m"
    unfolding fff by (rule bit_word_eqI) (auto simp: bit_simps dest: m)
  show "ucast (drop_bit 12 (push_bit 12 (ucast t) OR (m AND 0xfff) :: 16 word)) = t"
    unfolding fff by (rule bit_word_eqI) (auto simp: bit_simps dest: t)
qed

lemma Get8_Cons: "Get8 (at a (v # c)) = Some (v, at (a @ [v]) c)"
  using f8.get_at [OF TrueI, of a v c] by simp

lemma Left_at [simp]: "Left (at a c) = int (length c)"
  by (simp add: Left_def at_def)

text \<open>Over another value, what is stored without ids leaves the ids of that value in place.\<close>

definition over_attr :: "Attr \<Rightarrow> Attr \<Rightarrow> Attr" where
  "over_attr a b = (if AccessACL b = 0 \<and> DefaultACL b = 0
     then b\<lparr>AccessACL := AccessACL a, DefaultACL := DefaultACL a, KeepCache := KeepCache a\<rparr> else b\<lparr>KeepCache := KeepCache a\<rparr>)"

lemma Attr_Unmarshal_over:
  assumes "attr_ok b"
  shows "Attr_Unmarshal (attr_bytes b @ acl_bytes b @ [0]) a = Some (over_attr a b)"
proof -
  have b: "Typ b < 16" "Mode b < 0x1000" "Full b" "\<not> KeepCache b" using assms by (simp_all add: attr_ok_def)
  note bits = mode_typ [OF b(1,2)] mode_typ(2) [OF b(1,2), simplified]
  show ?thesis
  proof (cases "AccessACL b = 0 \<and> DefaultACL b = 0")
    case True
    then show ?thesis using b
      by (simp add: over_attr_def Attr_Unmarshal_def attr_bytes_def acl_bytes_def FromBuffer_at get_rules Get8_Cons bits Let_def)
  next
    case False
    show ?thesis using b False unfolding acl_bytes_set [OF False] over_attr_def if_not_P [OF False]
      by (simp add: Attr_Unmarshal_def attr_bytes_def FromBuffer_at get_rules Get8_Cons bits Let_def)
  qed
qed

lemma over_zero: "attr_ok b \<Longrightarrow> over_attr zero_Attr b = b"
  by (cases b) (auto simp: over_attr_def zero_Attr_def attr_ok_def)

lemma Attr_Unmarshal_bytes:
  assumes "attr_ok a"
  shows "Attr_Unmarshal (attr_bytes a @ acl_bytes a @ [0]) zero_Attr = Some a"
  using Attr_Unmarshal_over [OF assms, of zero_Attr] over_zero [OF assms] by simp

lemma Attr_Marshal_KeepCache: "Attr_Marshal (a\<lparr>KeepCache := k\<rparr>) = Attr_Marshal a"
  by (simp add: Attr_Marshal_def Let_def cong: if_cong)

lemma attr_read_back: "attr_ok a \<Longrightarrow> Option.bind (Attr_Marshal a) (\<lambda>d. Attr_Unmarshal d zero_Attr) = Some a"
  by (simp add: Attr_Marshal_bytes attr_ok_def) (simp add: Attr_Unmarshal_bytes attr_ok_def)

section \<open>Permission bits and rules\<close>

lemma containsGid_iff [simp]: "containsGid gids gid \<longleftrightarrow> gid \<in> set gids"
  by (induction gids) auto

lemma GetMode_bits:
  "ucast (drop_bit 6 (GetMode r)) AND 7 = (ucast (Owner r AND 7) :: 8 word)"
  "ucast (drop_bit 3 (GetMode r)) AND 7 = (ucast ((if IsMinimal r then Group r else Mask r) AND 7) :: 8 word)"
  "ucast (GetMode r AND 7) = (ucast (Other r AND 7) :: 8 word)"
proof -
  define g where "g = (if IsMinimal r then Group r else Mask r)"
  have mode: "GetMode r = push_bit 6 (Owner r AND 7) OR push_bit 3 (g AND 7) OR (Other r AND 7)"
    by (simp add: GetMode_def g_def)
  have seven: "(7 :: 8 word) = mask 3" by (simp add: mask_eq_exp_minus_1)
  show "ucast (drop_bit 6 (GetMode r)) AND 7 = (ucast (Owner r AND 7) :: 8 word)"
    unfolding mode seven mask_numerals(1) by (rule bit_word_eqI) (auto simp: bit_simps)
  show "ucast (drop_bit 3 (GetMode r)) AND 7 = (ucast ((if IsMinimal r then Group r else Mask r) AND 7) :: 8 word)"
    unfolding mode seven mask_numerals(1) g_def [symmetric] by (rule bit_word_eqI) (auto simp: bit_simps)
  show "ucast (GetMode r AND 7) = (ucast (Other r AND 7) :: 8 word)"
    unfolding mode mask_numerals(1) by (rule bit_word_eqI) (auto simp: bit_simps)
qed

text \<open>A rule without mask and named entries grants what its permission bits grant.\<close>

lemma minimal_CanAccess:
  assumes "IsMinimal r" and "uid \<noteq> 0" and "Mode a = GetMode r"
  shows "CanAccess r uid gids (Uid a) (Gid a) m \<longleftrightarrow> accessMode a uid gids AND m = m"
proof -
  have r: "NamedUsers r = []" "NamedGroups r = []" "Mask r = - 1" using assms(1) by (simp_all add: IsMinimal_def)
  show ?thesis
    using assms(1,2) r
    by (simp add: CanAccess_eq posix_access_def accessMode_def assms(3) GetMode_bits grants_def Let_def)
qed

section \<open>Properties\<close>

text \<open>C21: The check of an access by an ACL is the one of POSIX: the loops over the groups, with their early returns and
  their flag, decide as the definition does; and a rule without mask and named entries decides, for every user
  but root, as the permission bits that stand for it.\<close>

theorem CanAccess_posix:
  "CanAccess r uid gids (Uid a) (Gid a) m = posix_access r uid gids (Uid a) (Gid a) m \<and>
   (IsMinimal r \<longrightarrow> uid \<noteq> 0 \<longrightarrow> Mode a = GetMode r \<longrightarrow>
     (CanAccess r uid gids (Uid a) (Gid a) m \<longleftrightarrow> accessMode a uid gids AND m = m))"
  by (intro conjI impI CanAccess_eq minimal_CanAccess)

definition sample_rule :: Rule where
  "sample_rule = \<lparr>Owner = 7, Group = 5, Mask = 0xFFFF, Other = 0, NamedUsers = [], NamedGroups = []\<rparr>"

theorem CanAccess_posix_witness:
  "CanAccess sample_rule 3 [8] 0 8 4 \<longleftrightarrow> accessMode (zero_Attr\<lparr>Mode := GetMode sample_rule, Gid := 8\<rparr>) 3 [8] AND 4 = 4"
  using CanAccess_posix [of sample_rule 3 "[8]" "zero_Attr\<lparr>Mode := GetMode sample_rule, Gid := 8\<rparr>" 4, THEN conjunct2]
  by (simp add: IsMinimal_def sample_rule_def zero_Attr_def)

text \<open>C36: Attributes, rules and lists of entries are read back as they were stored. Attributes keep their mode and
  type when these fit into twelve and four bits, and their ids of ACLs unless these wrap around to zero when they are
  added; rules and entries when their size fits into 32 bits.\<close>

theorem stored_forms_read_back:
  "(attr_ok a \<longrightarrow> (\<exists>d. Attr_Marshal a = Some d \<and> Attr_Unmarshal d zero_Attr = Some a)) \<and>
   (rule_size r < 2 ^ 32 \<longrightarrow> (\<exists>d. Rule_Encode r = Some d \<and> Rule_Decode d = Some r)) \<and>
   (\<forall>d fs. Entries_Encode es = Some d \<longrightarrow> Entries_Decode d fs = Some (fs @ es))"
  using Attr_Marshal_bytes Attr_Unmarshal_bytes Rule_Encode_bytes Rule_Decode_bytes Entries_read_back
  by (auto simp: attr_ok_def)

theorem stored_forms_read_back_witness:
  "\<exists>d. Attr_Marshal (zero_Attr\<lparr>Mode := 0x1ED, AccessACL := 3, Full := True\<rparr>) = Some d \<and>
     Attr_Unmarshal d zero_Attr = Some (zero_Attr\<lparr>Mode := 0x1ED, AccessACL := 3, Full := True\<rparr>)"
  using stored_forms_read_back [of "zero_Attr\<lparr>Mode := 0x1ED, AccessACL := 3, Full := True\<rparr>"]
  by (simp add: attr_ok_def acl_ids_ok_def zero_Attr_def)

end
