(* ===== verification/JFS_Facl.thy ===== *)
theory JFS_Facl
  imports JFS_Attr JFS_Txn
begin


text \<open>
  Access control lists and attributes in the metadata on a key-value engine (pkg/meta/base.go and
  pkg/meta/tkv.go): the rules are stored once and referred to by id, the client keeps a cache of them, and a
  transaction that is not committed loses its writes but not what it put into the cache. The clock is a
  parameter; reading attributes through the cache of open files is in JFS_Meta.
\<close>

unbundle bit_operations_syntax

section \<open>State\<close>

text \<open>The client's cache; the counter of rules, which is increased in transactions of its own, with the errors these
  meet; the errors of the reads of \<open>doGetFacl\<close>; the values under the keys of the inodes and of the rules.\<close>

record facl_world =
  aclCache :: cache
  aclCounter :: "64 word"
  incs :: "kverr option stream"
  reads :: "kverr option stream"
  inode_vals :: "64 word \<rightharpoonup> 8 word list"
  acl_vals :: "32 word \<rightharpoonup> 8 word list"

text \<open>What is left of a body that is not committed.\<close>

definition roll_back :: "facl_world \<Rightarrow> facl_world \<Rightarrow> facl_world" where
  "roll_back w w' = w'\<lparr>inode_vals := inode_vals w, acl_vals := acl_vals w\<rparr>"

definition TypeAccess :: "8 word" where "TypeAccess = 1"
definition TypeDefault :: "8 word" where "TypeDefault = 2"

definition getAttrACLId :: "Attr \<Rightarrow> 8 word \<Rightarrow> 32 word" where
  "getAttrACLId attr aclType = (if aclType = TypeAccess then AccessACL attr
     else if aclType = TypeDefault then DefaultACL attr else 0)"

definition setAttrACLId :: "8 word \<Rightarrow> 32 word \<Rightarrow> Attr \<Rightarrow> Attr" where
  "setAttrACLId aclType i attr = (if aclType = TypeAccess then attr\<lparr>AccessACL := i\<rparr>
     else if aclType = TypeDefault then attr\<lparr>DefaultACL := i\<rparr> else attr)"

section \<open>Rules\<close>

definition put_cache :: "32 word \<Rightarrow> Rule option \<Rightarrow> facl_world \<Rightarrow> facl_world option" where
  "put_cache i r w = map_option (\<lambda>c. w\<lparr>aclCache := c\<rparr>) (cache_Put i r (aclCache w))"

definition getACL :: "32 word \<Rightarrow> facl_world \<Rightarrow> ((kverr + Rule option) \<times> facl_world) option" where
  "getACL i w =
     (if i = 0 then Some (Inr None, w)
      else case cache_Get i (aclCache w) of
        Some cRule \<Rightarrow> Some (Inr (Some cRule), w)
      | None \<Rightarrow> (case acl_vals w i of
          None \<Rightarrow> Some (Inl (Eno EIO), w)
        | Some val \<Rightarrow> Option.bind (Rule_Decode val) (\<lambda>rule.
            map_option (\<lambda>w. (Inr (Some rule), w)) (put_cache i (Some rule) w))))"

text \<open>\<open>tx.gets\<close> returns nil for a missing key.\<close>

fun load_misses :: "32 word list \<Rightarrow> facl_world \<Rightarrow> facl_world option" where
  "load_misses [] w = Some w"
| "load_misses (i # ids) w =
     (let data = (case acl_vals w i of None \<Rightarrow> [] | Some d \<Rightarrow> d) in
      Option.bind (if data \<noteq> [] then Rule_Decode data else Some zero_Rule) (\<lambda>rule.
      Option.bind (put_cache i (Some rule) w) (load_misses ids)))"

definition tryLoadMissACLs :: "facl_world \<Rightarrow> facl_world option" where
  "tryLoadMissACLs w = load_misses (GetMissIds (aclCache w)) w"

definition incrCounter :: "facl_world \<Rightarrow> (kverr + 64 word) \<times> facl_world" where
  "incrCounter w = (let w' = w\<lparr>incs := stl (incs w)\<rparr> in
     case shd (incs w) of Some e \<Rightarrow> (Inl e, w')
     | None \<Rightarrow> (Inr (aclCounter w + 1), w'\<lparr>aclCounter := aclCounter w + 1\<rparr>))"

definition insertACL :: "Rule option \<Rightarrow> facl_world \<Rightarrow> ((kverr + 32 word) \<times> facl_world) option" where
  "insertACL ro w = (case ro of None \<Rightarrow> Some (Inr 0, w) | Some rule \<Rightarrow>
     if Rule_IsEmpty rule then Some (Inr 0, w)
     else Option.bind (tryLoadMissACLs w) (\<lambda>w.
       Option.bind (cache_GetId (Some rule) (aclCache w)) (\<lambda>aclId.
       if aclId = 0 then
         (case incrCounter w of
            (Inl e, w) \<Rightarrow> Some (Inl e, w)
          | (Inr newId, w) \<Rightarrow> let aclId = ucast newId in
              Option.bind (Rule_Encode rule) (\<lambda>d.
              map_option (\<lambda>w. (Inr aclId, w))
                (put_cache aclId (Some rule) (w\<lparr>acl_vals := (acl_vals w)(aclId \<mapsto> d)\<rparr>))))
       else Some (Inr aclId, w))))"

text \<open>\<open>saveACL\<close>, used when a dump is loaded.\<close>

definition saveACL :: "Rule option \<Rightarrow> 32 word \<Rightarrow> cache \<Rightarrow> (32 word \<times> 32 word \<times> cache) option" where
  "saveACL ro aclMaxId c = (case ro of None \<Rightarrow> Some (0, aclMaxId, c) | Some rule \<Rightarrow>
     Option.bind (cache_GetId (Some rule) c) (\<lambda>i.
     if i = 0 then map_option (\<lambda>c. (aclMaxId + 1, aclMaxId + 1, c)) (cache_Put (aclMaxId + 1) (Some rule) c)
     else Some (i, aclMaxId, c)))"

section \<open>Setting and reading an ACL\<close>

definition FlagImmutable :: "8 word" where "FlagImmutable = 1"

text \<open>The state of the transaction has the rule behind the caller's pointer beside the world: \<open>InheritPerms\<close>
  changes it in place, also for the next try.\<close>

definition store_attr :: "64 word \<Rightarrow> Attr \<Rightarrow> facl_world \<Rightarrow> facl_world option" where
  "store_attr ino attr w = map_option (\<lambda>d. w\<lparr>inode_vals := (inode_vals w)(ino \<mapsto> d)\<rparr>) (Attr_Marshal attr)"

definition finish_facl :: "64 word \<Rightarrow> 8 word \<Rightarrow> 64 word \<times> 32 word \<Rightarrow> 32 word \<Rightarrow> 16 word \<Rightarrow> Attr \<Rightarrow> facl_world \<Rightarrow>
    facl_world option" where
  "finish_facl ino aclType now oriACL oriMode attr w =
     (if oriACL \<noteq> getAttrACLId attr aclType \<or> oriMode \<noteq> Mode attr
      then store_attr ino (attr\<lparr>Ctime := fst now, Ctimensec := snd now\<rparr>) w else Some w)"

definition doSetFacl_tx :: "Context \<Rightarrow> 64 word \<Rightarrow> 8 word \<Rightarrow> 64 word \<times> 32 word \<Rightarrow> facl_world \<times> Rule \<Rightarrow>
    (kverr option \<times> facl_world \<times> Rule) option" where
  "doSetFacl_tx ctx ino aclType now = (\<lambda>(w, rule).
     case inode_vals w ino of None \<Rightarrow> Some (Some (Eno ENOENT), w, rule)
     | Some val \<Rightarrow> Option.bind (Attr_Unmarshal val zero_Attr) (\<lambda>attr.
       if ctx_Uid ctx \<noteq> 0 \<and> ctx_Uid ctx \<noteq> Uid attr then Some (Some (Eno EPERM), w, rule)
       else if Flags attr AND FlagImmutable \<noteq> 0 then Some (Some (Eno EPERM), w, rule)
       else let oriACL = getAttrACLId attr aclType; oriMode = Mode attr;
                attr = (if ctx_Uid ctx \<noteq> 0 \<and> \<not> containsGid (ctx_Gids ctx) (Gid attr)
                  then attr\<lparr>Mode := Mode attr AND 0xBFF\<rparr> else attr) in
       if Rule_IsEmpty rule then
         map_option (\<lambda>w. (None, w, rule)) (finish_facl ino aclType now oriACL oriMode (setAttrACLId aclType 0 attr) w)
       else if IsMinimal rule \<and> aclType = TypeAccess then
         let attr = setAttrACLId aclType 0 attr;
             attr = attr\<lparr>Mode := (Mode attr AND 0xE00) OR
               (push_bit 6 (Owner rule AND 7) OR push_bit 3 (Group rule AND 7) OR (Other rule AND 7))\<rparr> in
         map_option (\<lambda>w. (None, w, rule)) (finish_facl ino aclType now oriACL oriMode attr w)
       else let rule = InheritPerms (Mode attr) rule in
         Option.bind (insertACL (Some rule) w) (\<lambda>(res, w). case res of
           Inl e \<Rightarrow> Some (Some e, w, rule)
         | Inr aclId \<Rightarrow>
           let attr = setAttrACLId aclType aclId attr;
               attr = (if aclType = TypeAccess then attr\<lparr>Mode := (Mode attr AND 0xE00) OR
                 (push_bit 6 (Owner rule AND 7) OR push_bit 3 (Mask rule AND 7) OR (Other rule AND 7))\<rparr> else attr) in
           map_option (\<lambda>w. (None, w, rule)) (finish_facl ino aclType now oriACL oriMode attr w))))"

definition doSetFacl :: "bool \<Rightarrow> (facl_world \<times> Rule) engine_try stream \<Rightarrow> Context \<Rightarrow> 64 word \<Rightarrow> 8 word \<Rightarrow> 64 word \<times> 32 word \<Rightarrow>
    Rule \<Rightarrow> facl_world \<Rightarrow> (Errno \<times> facl_world) option" where
  "doSetFacl readOnly os ctx ino aclType now rule w =
     map_option (\<lambda>(err, w, r). (errno err, w))
       (kv_txn (\<lambda>s s'. (roll_back (fst s) (fst s'), snd s')) readOnly os (doSetFacl_tx ctx ino aclType now) (w, rule))"

definition RootInode :: "64 word" where "RootInode = 1"
definition TrashInode :: "64 word" where "TrashInode = 0x7FFFFFFF10000000"

definition IsNormal :: "64 word \<Rightarrow> bool" where
  "IsNormal i \<longleftrightarrow> i \<ge> RootInode \<and> i < TrashInode"

definition SetFacl where
  "SetFacl readOnly os ctx ino aclType now rule w =
     (if aclType \<noteq> TypeAccess \<and> aclType \<noteq> TypeDefault then Some (EINVAL, w)
      else if \<not> IsNormal ino then Some (EPERM, w)
      else doSetFacl readOnly os ctx ino aclType now rule w)"

text \<open>The transaction of \<open>doGetFacl\<close> is tried once.\<close>

definition doGetFacl :: "64 word \<Rightarrow> 8 word \<Rightarrow> 32 word \<Rightarrow> facl_world \<Rightarrow> ((Errno + Rule) \<times> facl_world) option" where
  "doGetFacl ino aclType aclId w =
     (let rd = shd (reads w); w = w\<lparr>reads := stl (reads w)\<rparr> in
      case rd of Some e \<Rightarrow> Some (Inl (errno (Some e)), w) | None \<Rightarrow>
      Option.bind
        (if aclId = 0 then
           (case inode_vals w ino of None \<Rightarrow> Some (Inl ENOENT)
            | Some val \<Rightarrow> map_option (\<lambda>attr. Inr (getAttrACLId attr aclType)) (Attr_Unmarshal val zero_Attr))
         else Some (Inr aclId))
        (\<lambda>found. case found of Inl e \<Rightarrow> Some (Inl e, w) | Inr aclId \<Rightarrow>
          map_option (\<lambda>(res, w). (case res of Inl e \<Rightarrow> Inl (errno (Some e)) | Inr None \<Rightarrow> Inl ENOATTR | Inr (Some r) \<Rightarrow> Inr r, w))
            (getACL aclId w)))"

section \<open>Checking an access and merging attributes\<close>

text \<open>\<open>Access\<close> on attributes that are complete.\<close>

definition Access :: "Context \<Rightarrow> 64 word \<Rightarrow> 8 word \<Rightarrow> Attr \<Rightarrow> facl_world \<Rightarrow> (Errno \<times> facl_world) option" where
  "Access ctx inode mmask attr w =
     (if ctx_Uid ctx = 0 then Some (E0, w)
      else if \<not> ctx_CheckPermission ctx then Some (E0, w)
      else if AccessACL attr \<noteq> 0 \<and> Mode attr AND 0x38 \<noteq> 0 then
        map_option (\<lambda>(res, w). (case res of Inl st \<Rightarrow> st
            | Inr rule \<Rightarrow> if CanAccess rule (ctx_Uid ctx) (ctx_Gids ctx) (Uid attr) (Gid attr) mmask then E0 else EACCES, w))
          (doGetFacl inode TypeAccess (AccessACL attr) w)
      else let mode = accessMode attr (ctx_Uid ctx) (ctx_Gids ctx) in
        Some (if mode AND mmask \<noteq> mmask then EACCES else E0, w))"

definition SetAttrMode :: "16 word" where "SetAttrMode = 0x1"
definition SetAttrUID :: "16 word" where "SetAttrUID = 0x2"
definition SetAttrGID :: "16 word" where "SetAttrGID = 0x4"
definition SetAttrAtime :: "16 word" where "SetAttrAtime = 0x10"
definition SetAttrMtime :: "16 word" where "SetAttrMtime = 0x20"
definition SetAttrAtimeNow :: "16 word" where "SetAttrAtimeNow = 0x80"
definition SetAttrMtimeNow :: "16 word" where "SetAttrMtimeNow = 0x100"
definition SetAttrFlag :: "16 word" where "SetAttrFlag = 0x8000"
definition MODE_MASK_W :: "8 word" where "MODE_MASK_W = 2"

text \<open>The variables of \<open>mergeAttr\<close> that change: \<open>dirtyAttr\<close>, the caller's \<open>attr\<close> and \<open>rule\<close>, \<open>changed\<close>.\<close>

record merge =
  mg_dirty :: Attr
  mg_attr :: Attr
  mg_rule :: "Rule option"
  mg_changed :: bool

definition merge_start :: "Context \<Rightarrow> 16 word \<Rightarrow> Attr \<Rightarrow> Attr \<Rightarrow> Rule option \<Rightarrow> merge" where
  "merge_start ctx set1 cur attr rule =
     (let owner = (set1 AND (SetAttrUID OR SetAttrGID) \<noteq> 0);
          attr = (if owner \<and> set1 AND SetAttrMode \<noteq> 0 then attr\<lparr>Mode := Mode attr OR (Mode cur AND 0xC00)\<rparr> else attr)
      in if Mode cur AND 0xC00 \<noteq> 0 \<and> owner
         then let (dirty, attr) = clearSUGID ctx cur attr in \<lparr>mg_dirty = dirty, mg_attr = attr, mg_rule = rule, mg_changed = True\<rparr>
         else \<lparr>mg_dirty = cur, mg_attr = attr, mg_rule = rule, mg_changed = False\<rparr>)"

definition merge_gid :: "Context \<Rightarrow> 16 word \<Rightarrow> Attr \<Rightarrow> merge \<Rightarrow> Errno + merge" where
  "merge_gid ctx set1 cur mg =
     (if set1 AND SetAttrGID \<noteq> 0 then
        if ctx_Uid ctx \<noteq> 0 \<and> ctx_Uid ctx \<noteq> Uid cur then Inl EPERM
        else if Gid cur \<noteq> Gid (mg_attr mg) then
          if ctx_CheckPermission ctx \<and> ctx_Uid ctx \<noteq> 0 \<and> \<not> containsGid (ctx_Gids ctx) (Gid (mg_attr mg)) then Inl EPERM
          else Inr (mg\<lparr>mg_dirty := (mg_dirty mg)\<lparr>Gid := Gid (mg_attr mg)\<rparr>, mg_changed := True\<rparr>)
        else Inr mg
      else Inr mg)"

definition merge_uid :: "Context \<Rightarrow> 16 word \<Rightarrow> Attr \<Rightarrow> merge \<Rightarrow> Errno + merge" where
  "merge_uid ctx set1 cur mg =
     (if set1 AND SetAttrUID \<noteq> 0 \<and> Uid cur \<noteq> Uid (mg_attr mg) then
        if ctx_CheckPermission ctx \<and> ctx_Uid ctx \<noteq> 0 then Inl EPERM
        else Inr (mg\<lparr>mg_dirty := (mg_dirty mg)\<lparr>Uid := Uid (mg_attr mg)\<rparr>, mg_changed := True\<rparr>)
      else Inr mg)"

definition merge_mode :: "Context \<Rightarrow> 16 word \<Rightarrow> Attr \<Rightarrow> merge \<Rightarrow> Errno + merge" where
  "merge_mode ctx set1 cur mg =
     (if set1 AND SetAttrMode \<noteq> 0 then
        let attr = mg_attr mg;
            attr = (if ctx_Uid ctx \<noteq> 0 \<and> Mode attr AND 0x400 \<noteq> 0 \<and> ctx_Gid ctx \<noteq> Gid cur
              then attr\<lparr>Mode := Mode attr AND 0xBFF\<rparr> else attr);
            mg = mg\<lparr>mg_attr := attr\<rparr> in
        case mg_rule mg of
          Some rule \<Rightarrow>
            let rule = SetMode (Mode attr) rule in
            Inr (mg\<lparr>mg_rule := Some rule, mg_dirty := (mg_dirty mg)\<lparr>Mode := (Mode attr AND 0xE00) OR GetMode rule\<rparr>,
                    mg_changed := True\<rparr>)
        | None \<Rightarrow>
            if Mode attr \<noteq> Mode cur then
              if ctx_Uid ctx \<noteq> 0 \<and> ctx_Uid ctx \<noteq> Uid cur \<and>
                 (Mode cur AND 0x3FF \<noteq> Mode attr AND 0x3FF \<or> Mode attr AND 0x400 > Mode cur AND 0x400 \<or>
                  Mode attr AND 0x800 > Mode cur AND 0x800)
              then Inl EPERM
              else Inr (mg\<lparr>mg_dirty := (mg_dirty mg)\<lparr>Mode := Mode attr\<rparr>, mg_changed := True\<rparr>)
            else Inr mg
      else Inr mg)"

text \<open>\<open>m.Access(ctx, inode, MODE_MASK_W, cur)\<close> with the test that follows it.\<close>

definition write_denied :: "Context \<Rightarrow> 64 word \<Rightarrow> Attr \<Rightarrow> facl_world \<Rightarrow> (bool \<times> facl_world) option" where
  "write_denied ctx inode cur w = map_option (\<lambda>(st, w). (ctx_Uid ctx \<noteq> Uid cur \<and> st \<noteq> E0, w)) (Access ctx inode MODE_MASK_W cur w)"

definition merge_atime :: "Context \<Rightarrow> 64 word \<Rightarrow> 16 word \<Rightarrow> Attr \<Rightarrow> 64 word \<times> 32 word \<Rightarrow> merge \<Rightarrow> facl_world \<Rightarrow>
    ((Errno + merge) \<times> facl_world) option" where
  "merge_atime ctx inode set1 cur now mg w =
     (let attr = mg_attr mg in
      if set1 AND SetAttrAtimeNow \<noteq> 0 \<or> set1 AND SetAttrAtime \<noteq> 0 \<and> sint (Atime attr) < 0 then
        map_option (\<lambda>(denied, w). (if denied then Inl EACCES
          else Inr (mg\<lparr>mg_dirty := (mg_dirty mg)\<lparr>Atime := fst now, Atimensec := snd now\<rparr>, mg_changed := True\<rparr>), w))
          (write_denied ctx inode cur w)
      else if set1 AND SetAttrAtime \<noteq> 0 \<and> (Atime cur \<noteq> Atime attr \<or> Atimensec cur \<noteq> Atimensec attr) then
        if Uid cur = 0 \<and> ctx_Uid ctx \<noteq> 0 then Some (Inl EPERM, w)
        else map_option (\<lambda>(denied, w). (if denied then Inl EACCES
          else Inr (mg\<lparr>mg_dirty := (mg_dirty mg)\<lparr>Atime := Atime attr, Atimensec := Atimensec attr\<rparr>, mg_changed := True\<rparr>), w))
          (write_denied ctx inode cur w)
      else Some (Inr mg, w))"

definition merge_mtime :: "Context \<Rightarrow> 64 word \<Rightarrow> 16 word \<Rightarrow> Attr \<Rightarrow> 64 word \<times> 32 word \<Rightarrow> merge \<Rightarrow> facl_world \<Rightarrow>
    ((Errno + merge) \<times> facl_world) option" where
  "merge_mtime ctx inode set1 cur now mg w =
     (let attr = mg_attr mg in
      if set1 AND SetAttrMtimeNow \<noteq> 0 \<or> set1 AND SetAttrMtime \<noteq> 0 \<and> sint (Mtime attr) < 0 then
        map_option (\<lambda>(denied, w). (if denied then Inl EACCES
          else Inr (mg\<lparr>mg_dirty := (mg_dirty mg)\<lparr>Mtime := fst now, Mtimensec := snd now\<rparr>, mg_changed := True\<rparr>), w))
          (write_denied ctx inode cur w)
      else if set1 AND SetAttrMtime \<noteq> 0 \<and> (Mtime cur \<noteq> Mtime attr \<or> Mtimensec cur \<noteq> Mtimensec attr) then
        if Uid cur = 0 \<and> ctx_Uid ctx \<noteq> 0 then Some (Inl EPERM, w)
        else map_option (\<lambda>(denied, w). (if denied then Inl EACCES
          else Inr (mg\<lparr>mg_dirty := (mg_dirty mg)\<lparr>Mtime := Mtime attr, Mtimensec := Mtimensec attr\<rparr>, mg_changed := True\<rparr>), w))
          (write_denied ctx inode cur w)
      else Some (Inr mg, w))"

definition merge_flag :: "16 word \<Rightarrow> merge \<Rightarrow> merge" where
  "merge_flag set1 mg = (if set1 AND SetAttrFlag \<noteq> 0
     then mg\<lparr>mg_dirty := (mg_dirty mg)\<lparr>Flags := Flags (mg_attr mg)\<rparr>, mg_changed := True\<rparr> else mg)"

text \<open>The result is an error, or the variables; \<open>mg_changed\<close> tells whether \<open>dirtyAttr\<close> is returned or nil. On an error
  the caller's \<open>attr\<close> and \<open>rule\<close> are not used again.\<close>

definition mergeAttr :: "Context \<Rightarrow> 64 word \<Rightarrow> 16 word \<Rightarrow> Attr \<Rightarrow> Attr \<Rightarrow> 64 word \<times> 32 word \<Rightarrow> Rule option \<Rightarrow> facl_world \<Rightarrow>
    ((Errno + merge) \<times> facl_world) option" where
  "mergeAttr ctx inode set1 cur attr now rule w =
     (let mg = merge_start ctx set1 cur attr rule in
      case merge_gid ctx set1 cur mg of Inl e \<Rightarrow> Some (Inl e, w) | Inr mg \<Rightarrow>
      case merge_uid ctx set1 cur mg of Inl e \<Rightarrow> Some (Inl e, w) | Inr mg \<Rightarrow>
      case merge_mode ctx set1 cur mg of Inl e \<Rightarrow> Some (Inl e, w) | Inr mg \<Rightarrow>
      Option.bind (merge_atime ctx inode set1 cur now mg w) (\<lambda>(res, w). case res of Inl e \<Rightarrow> Some (Inl e, w) | Inr mg \<Rightarrow>
      Option.bind (merge_mtime ctx inode set1 cur now mg w) (\<lambda>(res, w). case res of Inl e \<Rightarrow> Some (Inl e, w) | Inr mg \<Rightarrow>
      let mg = merge_flag set1 mg in
      Some (Inr (if \<not> mg_changed mg then mg\<lparr>mg_attr := cur\<rparr> else mg), w))))"

text \<open>The state of the transaction has the caller's \<open>attr\<close> beside the world; the test of the parent is for the trash.\<close>

definition doSetAttr_tx :: "Context \<Rightarrow> 64 word \<Rightarrow> 16 word \<Rightarrow> 64 word \<times> 32 word \<Rightarrow> facl_world \<times> Attr \<Rightarrow>
    (kverr option \<times> facl_world \<times> Attr) option" where
  "doSetAttr_tx ctx inode set1 now = (\<lambda>(w, attr).
     case inode_vals w inode of None \<Rightarrow> Some (Some (Eno ENOENT), w, attr)
     | Some a \<Rightarrow> Option.bind (Attr_Unmarshal a zero_Attr) (\<lambda>cur.
       if Parent cur > TrashInode then Some (Some (Eno EPERM), w, attr)
       else Option.bind (getACL (AccessACL cur) w) (\<lambda>(res, w). case res of
         Inl e \<Rightarrow> Some (Some e, w, attr)
       | Inr rule \<Rightarrow>
         Option.bind (mergeAttr ctx inode set1 cur attr now (Rule_Dup rule) w) (\<lambda>(res, w). case res of
           Inl st \<Rightarrow> Some (Some (Eno st), w, attr)
         | Inr mg \<Rightarrow>
           if \<not> mg_changed mg then Some (None, w, mg_attr mg)
           else Option.bind (insertACL (mg_rule mg) w) (\<lambda>(res, w). case res of
             Inl e \<Rightarrow> Some (Some e, w, mg_attr mg)
           | Inr aclId \<Rightarrow>
             let dirty = (mg_dirty mg)\<lparr>AccessACL := aclId, Ctime := fst now, Ctimensec := snd now\<rparr> in
             map_option (\<lambda>w. (None, w, dirty)) (store_attr inode dirty w))))))"

definition doSetAttr :: "bool \<Rightarrow> (facl_world \<times> Attr) engine_try stream \<Rightarrow> Context \<Rightarrow> 64 word \<Rightarrow> 16 word \<Rightarrow> 64 word \<times> 32 word \<Rightarrow>
    Attr \<Rightarrow> facl_world \<Rightarrow> (Errno \<times> facl_world \<times> Attr) option" where
  "doSetAttr readOnly os ctx inode set1 now attr w =
     map_option (\<lambda>(err, w, attr). (errno err, w, attr))
       (kv_txn (\<lambda>s s'. (roll_back (fst s) (fst s'), snd s')) readOnly os (doSetAttr_tx ctx inode set1 now) (w, attr))"

section \<open>Consistency of the cache and the store\<close>

text \<open>A rule in the cache is the stored one, or the zero rule for an id that has none; the ids in use have been counted.\<close>

definition acl_consistent :: "facl_world \<Rightarrow> bool" where
  "acl_consistent w \<longleftrightarrow> cache_ok (aclCache w) \<and> unat (maxId (aclCache w)) \<le> unat (aclCounter w) \<and> unat (aclCounter w) < 2 ^ 31 \<and>
     (\<forall>i d. acl_vals w i = Some d \<longrightarrow> unat i \<le> unat (aclCounter w) \<and> (\<exists>r. d = rule_bytes r \<and> rule_size r < 2 ^ 32)) \<and>
     (\<forall>i r. cache_Get i (aclCache w) = Some r \<longrightarrow> acl_vals w i = Some (rule_bytes r) \<or> acl_vals w i = None \<and> r = zero_Rule)"

lemma acl_consistentD:
  assumes "acl_consistent w"
  shows "cache_ok (aclCache w)" "unat (maxId (aclCache w)) \<le> unat (aclCounter w)" "unat (aclCounter w) < 2 ^ 31"
    and "acl_vals w i = Some d \<Longrightarrow> unat i \<le> unat (aclCounter w)"
    and "acl_vals w i = Some d \<Longrightarrow> \<exists>r. d = rule_bytes r \<and> rule_size r < 2 ^ 32"
    and "cache_Get i (aclCache w) = Some r \<Longrightarrow> acl_vals w i = Some (rule_bytes r) \<or> acl_vals w i = None \<and> r = zero_Rule"
  using assms unfolding acl_consistent_def by blast+

lemma rule_bytes_nonempty: "rule_bytes r \<noteq> []"
  by (simp add: rule_bytes_def PutUint16_def)

lemma size_zero_Rule [simp]: "rule_size zero_Rule = 16"
  by (simp add: rule_size_def zero_Rule_def)

text \<open>What is read from the store for an id.\<close>

definition stored_rule :: "32 word \<Rightarrow> facl_world \<Rightarrow> Rule option" where
  "stored_rule i w = (let data = (case acl_vals w i of None \<Rightarrow> [] | Some d \<Rightarrow> d) in
     if data \<noteq> [] then Rule_Decode data else Some zero_Rule)"

lemma stored_rule_cases:
  assumes "acl_consistent w"
  obtains r where "stored_rule i w = Some r" "rule_size r < 2 ^ 32"
    "acl_vals w i = Some (rule_bytes r) \<or> acl_vals w i = None \<and> r = zero_Rule"
proof (cases "acl_vals w i")
  case None
  show thesis by (rule that [of zero_Rule]) (simp_all add: stored_rule_def None)
next
  case (Some d)
  with acl_consistentD(5) [OF assms] obtain r where r: "d = rule_bytes r" "rule_size r < 2 ^ 32" by blast
  show thesis by (rule that [OF _ r(2)]) (simp_all add: stored_rule_def Some r(1) Rule_Decode_bytes [OF r(2)] rule_bytes_nonempty)
qed

lemma put_cache_acl:
  assumes "acl_consistent w" and "i \<noteq> 0" and "unat i \<le> unat (aclCounter w)" and "rule_size r < 2 ^ 32"
    and "acl_vals w i = Some (rule_bytes r) \<or> acl_vals w i = None \<and> r = zero_Rule"
  obtains c where "put_cache i (Some r) w = Some (w\<lparr>aclCache := c\<rparr>)" "acl_consistent (w\<lparr>aclCache := c\<rparr>)"
    "has_id i c" "maxId c = (if i > maxId (aclCache w) then i else maxId (aclCache w))"
proof -
  obtain c where c: "cache_Put i (Some r) (aclCache w) = Some c" using acls.put_total [OF assms(4)] by blast
  have mx: "maxId c = (if i > maxId (aclCache w) then i else maxId (aclCache w))"
  proof (cases "has_id i (aclCache w)")
    case True
    then obtain ro where "(i, ro) \<in> set (id2Rule (aclCache w))" by (auto simp: has_id_def dest: map_of_SomeD)
    then have "i \<le> maxId (aclCache w)" using acl_consistentD(1) [OF assms(1)] by (auto simp: cache_ok_def)
    with True cache_Put_cases [OF c] show ?thesis by auto
  qed (use cache_Put_cases [OF c] in auto)
  have "cache_Get j c = Some r' \<Longrightarrow> acl_vals w j = Some (rule_bytes r') \<or> acl_vals w j = None \<and> r' = zero_Rule" for j r'
    using acls.get_put [OF c, of j] acl_consistentD(6) [OF assms(1), of j r'] assms(5) by (auto split: if_splits)
  then have "acl_consistent (w\<lparr>aclCache := c\<rparr>)"
    using assms(1,3) mx acls.put_ok [OF acl_consistentD(1) [OF assms(1)] assms(2) c] by (auto simp: acl_consistent_def)
  moreover have "has_id i c" using acls.has_put [OF c] by blast
  ultimately show thesis using mx by (intro that [of c]) (simp_all add: put_cache_def c)
qed

lemma load_misses_consistent:
  assumes "acl_consistent w" and "\<forall>i \<in> set ids. i \<noteq> 0 \<and> i \<le> maxId (aclCache w)"
  shows "\<exists>c. load_misses ids w = Some (w\<lparr>aclCache := c\<rparr>) \<and> acl_consistent (w\<lparr>aclCache := c\<rparr>) \<and> maxId c = maxId (aclCache w)"
  using assms
proof (induction ids arbitrary: w)
  case Nil
  then show ?case by (intro exI [of _ "aclCache w"]) simp
next
  case (Cons i ids)
  obtain r where r: "stored_rule i w = Some r" "rule_size r < 2 ^ 32"
    "acl_vals w i = Some (rule_bytes r) \<or> acl_vals w i = None \<and> r = zero_Rule" by (rule stored_rule_cases [OF Cons.prems(1)])
  have "unat i \<le> unat (aclCounter w)"
    using Cons.prems(2) acl_consistentD(2) [OF Cons.prems(1)] by (auto simp: word_le_nat_alt)
  with Cons.prems(2) obtain c where c: "put_cache i (Some r) w = Some (w\<lparr>aclCache := c\<rparr>)" "acl_consistent (w\<lparr>aclCache := c\<rparr>)"
    "maxId c = (if i > maxId (aclCache w) then i else maxId (aclCache w))"
    by (auto elim: put_cache_acl [OF Cons.prems(1) _ _ r(2,3)])
  have "maxId c = maxId (aclCache w)" using c(3) Cons.prems(2) by auto
  with Cons.IH [OF c(2)] Cons.prems(2) c(1) r(1) show ?case by (auto simp: stored_rule_def Let_def)
qed

lemma tryLoadMissACLs_consistent:
  assumes "acl_consistent w"
  obtains c where "tryLoadMissACLs w = Some (w\<lparr>aclCache := c\<rparr>)" "acl_consistent (w\<lparr>aclCache := c\<rparr>)"
proof -
  have "maxId (aclCache w) \<noteq> - 1"
  proof
    assume "maxId (aclCache w) = - 1"
    then have "unat (maxId (aclCache w)) = 2 ^ 32 - 1" by (simp add: unsigned_minus_1_eq_mask mask_eq_exp_minus_1)
    with acl_consistentD(2,3) [OF assms] show False by simp
  qed
  then have "\<forall>i \<in> set (GetMissIds (aclCache w)). i \<noteq> 0 \<and> i \<le> maxId (aclCache w)"
    using GetMissIds_exact [OF acl_consistentD(1) [OF assms]] by simp
  from load_misses_consistent [OF assms this] show thesis using that by (auto simp: tryLoadMissACLs_def)
qed

text \<open>After \<open>insertACL\<close> the rule is stored under the id it returns.\<close>

lemma insertACL_stores:
  assumes con: "acl_consistent w" and "\<not> Rule_IsEmpty rule" and "rule \<noteq> zero_Rule" and size: "rule_size rule < 2 ^ 32"
    and "shd (incs w) = None" and small: "unat (aclCounter w) + 1 < 2 ^ 31"
  obtains i w' where "insertACL (Some rule) w = Some (Inr i, w')" "i \<noteq> 0" "unat i < 2 ^ 31"
    "acl_vals w' i = Some (rule_bytes rule)" "acl_consistent w'" "inode_vals w' = inode_vals w" "reads w' = reads w"
proof -
  obtain c where c: "tryLoadMissACLs w = Some (w\<lparr>aclCache := c\<rparr>)" "acl_consistent (w\<lparr>aclCache := c\<rparr>)"
    by (rule tryLoadMissACLs_consistent [OF con])
  let ?w = "w\<lparr>aclCache := c\<rparr>"
  have ok: "cache_ok c" using acl_consistentD(1) [OF c(2)] by simp
  obtain i0 where i0: "cache_GetId (Some rule) c = Some i0" using acls.getId_total [OF ok size] by blast
  show thesis
  proof (cases "i0 = 0")
    case False
    with acls.getId_sound [OF ok i0] have "cache_Get i0 (aclCache ?w) = Some rule" by simp
    with acl_consistentD(6) [OF c(2) this] assms(3) have val: "acl_vals ?w i0 = Some (rule_bytes rule)" by blast
    then have "unat i0 < 2 ^ 31" using acl_consistentD(4) [OF c(2) val] acl_consistentD(3) [OF c(2)] by simp
    with False val c i0 assms(2) show thesis by (intro that [of i0 ?w]) (simp_all add: insertACL_def)
  next
    case True
    let ?new = "ucast (aclCounter w + 1) :: 32 word"
    have cnt: "unat (aclCounter w + 1) = unat (aclCounter w) + 1"
      using small by (simp add: unat_word_ariths)
    have new: "unat ?new = unat (aclCounter w) + 1"
      using small cnt by (simp add: unsigned_ucast_eq take_bit_nat_eq_self)
    let ?w2 = "?w\<lparr>incs := stl (incs w), aclCounter := aclCounter w + 1, acl_vals := (acl_vals w)(?new \<mapsto> rule_bytes rule)\<rparr>"
    have above: "unat i \<le> unat (aclCounter w)" if "has_id i c" for i
    proof -
      from that obtain ro where "(i, ro) \<in> set (id2Rule c)" by (auto simp: has_id_def dest: map_of_SomeD)
      then have "i \<le> maxId c" using ok by (auto simp: cache_ok_def)
      with acl_consistentD(2) [OF c(2)] show ?thesis by (simp add: word_le_nat_alt)
    qed
    have fresh: "\<not> has_id ?new c" "acl_vals w ?new = None"
      using above [of ?new] acl_consistentD(4) [OF con, of ?new] new by (force, cases "acl_vals w ?new") auto
    have con2: "acl_consistent ?w2"
      unfolding acl_consistent_def
    proof (intro conjI allI impI)
      show "unat i \<le> unat (aclCounter ?w2)" if "acl_vals ?w2 i = Some d" for i d
        using that new cnt acl_consistentD(4) [OF con, of i d] by (auto split: if_splits)
      show "\<exists>r. d = rule_bytes r \<and> rule_size r < 2 ^ 32" if "acl_vals ?w2 i = Some d" for i d
        using that size acl_consistentD(5) [OF con, of i d] by (auto split: if_splits)
      show "acl_vals ?w2 i = Some (rule_bytes r) \<or> acl_vals ?w2 i = None \<and> r = zero_Rule"
        if g: "cache_Get i (aclCache ?w2) = Some r" for i r
      proof -
        have "i \<noteq> ?new" using g fresh(1) by (auto simp: cache_Get_iff has_id_def)
        with acl_consistentD(6) [OF c(2), of i r] g show ?thesis by simp
      qed
    qed (use ok acl_consistentD(2) [OF c(2)] cnt small in simp_all)
    have ne: "?new \<noteq> 0" using new by (metis add_is_0 one_neq_zero unat_0)
    obtain c2 where c2: "put_cache ?new (Some rule) ?w2 = Some (?w2\<lparr>aclCache := c2\<rparr>)" "acl_consistent (?w2\<lparr>aclCache := c2\<rparr>)"
      using put_cache_acl [OF con2 ne _ size] new cnt by auto
    have "insertACL (Some rule) w = Some (Inr ?new, ?w2\<lparr>aclCache := c2\<rparr>)"
      using assms(2,5) c(1) i0 True c2(1) Rule_Encode_bytes [OF size]
      by (simp add: insertACL_def incrCounter_def Let_def)
    moreover have "unat ?new < 2 ^ 31" using new small by linarith
    ultimately show thesis using ne c2(2) by (intro that [where i = ?new and w' = "?w2\<lparr>aclCache := c2\<rparr>"]) simp_all
  qed
qed

section \<open>A transaction that sets an ACL\<close>

text \<open>The mode after the set-group-id bit is cleared for a caller outside the group, and the attributes with the id of
  the rule.\<close>

definition sgid_mode :: "Context \<Rightarrow> Attr \<Rightarrow> 16 word" where
  "sgid_mode ctx a = (if ctx_Uid ctx \<noteq> 0 \<and> \<not> containsGid (ctx_Gids ctx) (Gid a) then Mode a AND 0xBFF else Mode a)"

definition acl_mode :: "16 word \<Rightarrow> Rule \<Rightarrow> 16 word" where
  "acl_mode m r = (m AND 0xE00) OR (push_bit 6 (Owner r AND 7) OR push_bit 3 (Mask r AND 7) OR (Other r AND 7))"

definition with_acl :: "Context \<Rightarrow> 8 word \<Rightarrow> Rule \<Rightarrow> 32 word \<Rightarrow> Attr \<Rightarrow> Attr" where
  "with_acl ctx aclType r i a = (let m = sgid_mode ctx a; a = setAttrACLId aclType i (a\<lparr>Mode := m\<rparr>) in
     if aclType = TypeAccess then a\<lparr>Mode := acl_mode m r\<rparr> else a)"

text \<open>The caller may set the ACL, which is one that is stored as a rule.\<close>

definition may_set :: "Context \<Rightarrow> 64 word \<Rightarrow> 8 word \<Rightarrow> Rule \<Rightarrow> Attr \<Rightarrow> facl_world \<Rightarrow> bool" where
  "may_set ctx ino aclType rule a w \<longleftrightarrow> inode_vals w ino = Attr_Marshal a \<and> attr_ok a \<and>
     unat (AccessACL a) < 2 ^ 31 \<and> unat (DefaultACL a) < 2 ^ 31 \<and> (ctx_Uid ctx = 0 \<or> ctx_Uid ctx = Uid a) \<and>
     Flags a AND FlagImmutable = 0 \<and> aclType \<in> {TypeAccess, TypeDefault} \<and> IsNormal ino \<and> \<not> Rule_IsEmpty rule \<and>
     \<not> (IsMinimal rule \<and> aclType = TypeAccess) \<and> rule_size rule < 2 ^ 32"

lemma acl_types [simp]: "TypeAccess \<noteq> TypeDefault" "TypeDefault \<noteq> TypeAccess"
  by (simp_all add: TypeAccess_def TypeDefault_def)

lemma InheritPerms_keeps [simp]:
  "NamedUsers (InheritPerms m r) = NamedUsers r" "NamedGroups (InheritPerms m r) = NamedGroups r" "Mask (InheritPerms m r) = Mask r"
  "rule_size (InheritPerms m r) = rule_size r" "IsMinimal (InheritPerms m r) = IsMinimal r"
  by (simp_all add: InheritPerms_def Let_def rule_size_def IsMinimal_def)

lemma low_perm: "(x AND 7 :: 16 word) \<noteq> 0xFFFF"
proof
  assume "x AND 7 = (0xFFFF :: 16 word)"
  then have "bit (x AND 7 :: 16 word) 15" by (simp only:) simp
  then show False by (simp add: bit_simps)
qed

lemma InheritPerms_set: "Owner (InheritPerms m r) \<noteq> 0xFFFF" "Group (InheritPerms m r) \<noteq> 0xFFFF" "Other (InheritPerms m r) \<noteq> 0xFFFF"
  using low_perm by (simp_all add: InheritPerms_def Let_def)

lemma InheritPerms_idem: "InheritPerms m' (InheritPerms m r) = InheritPerms m r"
  using InheritPerms_set [of m r] by (simp add: InheritPerms_def [of m'])

lemma and_max: "x AND y = - 1 \<Longrightarrow> x = (- 1 :: 16 word)"
  by (metis and.commute and.left_idem and.left_neutral)

lemma InheritPerms_not_empty: "\<not> Rule_IsEmpty (InheritPerms m r)"
proof
  assume "Rule_IsEmpty (InheritPerms m r)"
  then have "Owner (InheritPerms m r) AND (Group (InheritPerms m r) AND Other (InheritPerms m r) AND Mask r) = - 1"
    by (simp add: Rule_IsEmpty_def and.assoc)
  then have "Owner (InheritPerms m r) = - 1" by (rule and_max)
  then show False using InheritPerms_set(1) [of m r] by simp
qed

lemma acl_mode_small: "m < 0x1000 \<Longrightarrow> acl_mode m r < 0x1000"
proof -
  have e00: "(0xE00 :: 16 word) = push_bit 9 (mask 3)" by (simp add: mask_eq_exp_minus_1)
  have "acl_mode m r AND mask 12 = acl_mode m r"
    unfolding acl_mode_def mask_numerals(1) e00
    by (rule bit_word_eqI) (auto simp: bit_simps)
  then show ?thesis using and_mask_less' [of 12 "acl_mode m r"] by simp
qed

lemma attr_stored: "attr_ok a \<Longrightarrow> Attr_Marshal a = Some d \<Longrightarrow> Attr_Unmarshal d zero_Attr = Some a"
  using attr_read_back [of a] by simp

lemma sgid_mode_small: "Mode a < 0x1000 \<Longrightarrow> sgid_mode ctx a < 0x1000"
  using word_and_le1 [of "Mode a" "0xBFF"] by (auto simp: sgid_mode_def intro: le_less_trans)

lemma with_acl_ok:
  assumes "attr_ok a" and "unat (AccessACL a) < 2 ^ 31" "unat (DefaultACL a) < 2 ^ 31" and "unat i < 2 ^ 31"
    and "aclType \<in> {TypeAccess, TypeDefault}"
  shows "attr_ok (with_acl ctx aclType r i a)" "getAttrACLId (with_acl ctx aclType r i a) aclType = i"
proof -
  have add: "x + y = 0 \<Longrightarrow> x = 0 \<and> y = 0" if "unat x < 2 ^ 31" "unat y < 2 ^ 31" for x y :: "32 word"
  proof -
    assume "x + y = 0"
    then have "(unat x + unat y) mod 2 ^ 32 = 0" using unat_word_ariths(1) [of x y] by simp
    with that have "unat x = 0" "unat y = 0" by simp_all
    then show ?thesis by (simp add: unat_eq_0)
  qed
  have m: "sgid_mode ctx a < 0x1000" "acl_mode (sgid_mode ctx a) r < 0x1000"
    using assms(1) by (simp_all add: attr_ok_def sgid_mode_small acl_mode_small)
  have ids: "i + AccessACL a = 0 \<Longrightarrow> i = 0 \<and> AccessACL a = 0" "i + DefaultACL a = 0 \<Longrightarrow> i = 0 \<and> DefaultACL a = 0"
    using add assms(2-4) by auto
  show "attr_ok (with_acl ctx aclType r i a)"
    using assms(1,5) m ids by (auto simp: with_acl_def Let_def setAttrACLId_def attr_ok_def acl_ids_ok_def add.commute)
  show "getAttrACLId (with_acl ctx aclType r i a) aclType = i"
    using assms(5) by (auto simp: with_acl_def Let_def setAttrACLId_def getAttrACLId_def)
qed

text \<open>With the inode as it was, the attributes read back have the id of the rule, stored again or not.\<close>

lemma finish_facl_stores:
  assumes "inode_vals w ino = Attr_Marshal a" and "attr_ok a" and "attr_ok b"
  obtains b' w' where "finish_facl ino aclType now (getAttrACLId a aclType) (Mode a) b w = Some w'"
    "w' = w\<lparr>inode_vals := inode_vals w'\<rparr>" "inode_vals w' ino = Attr_Marshal b'" "attr_ok b'" "getAttrACLId b' aclType = getAttrACLId b aclType"
proof (cases "getAttrACLId a aclType \<noteq> getAttrACLId b aclType \<or> Mode a \<noteq> Mode b")
  case True
  let ?b = "b\<lparr>Ctime := fst now, Ctimensec := snd now\<rparr>"
  have ok: "attr_ok ?b" using assms(3) by (simp add: attr_ok_def acl_ids_ok_def)
  then have "Attr_Marshal ?b = Some (attr_bytes ?b @ acl_bytes ?b @ [0])" by (intro Attr_Marshal_bytes) (simp add: attr_ok_def)
  then show thesis
    using True ok
    by (intro that [of "w\<lparr>inode_vals := (inode_vals w)(ino \<mapsto> attr_bytes ?b @ acl_bytes ?b @ [0])\<rparr>" ?b])
       (simp_all add: finish_facl_def store_attr_def getAttrACLId_def)
next
  case False
  then show thesis using assms by (intro that [of w a]) (simp_all add: finish_facl_def)
qed

lemma doSetFacl_tx_insert:
  assumes "may_set ctx ino aclType rule a w"
  shows "doSetFacl_tx ctx ino aclType now (w, rule) =
    Option.bind (insertACL (Some (InheritPerms (sgid_mode ctx a) rule)) w) (\<lambda>(res, w'). case res of
      Inl e \<Rightarrow> Some (Some e, w', InheritPerms (sgid_mode ctx a) rule)
    | Inr i \<Rightarrow> map_option (\<lambda>w'. (None, w', InheritPerms (sgid_mode ctx a) rule))
        (finish_facl ino aclType now (getAttrACLId a aclType) (Mode a) (with_acl ctx aclType (InheritPerms (sgid_mode ctx a) rule) i a) w'))"
proof -
  have ms: "inode_vals w ino = Attr_Marshal a" "attr_ok a" "ctx_Uid ctx = 0 \<or> ctx_Uid ctx = Uid a" "Flags a AND FlagImmutable = 0"
    "\<not> Rule_IsEmpty rule" "\<not> (IsMinimal rule \<and> aclType = TypeAccess)" using assms by (simp_all add: may_set_def)
  have "Attr_Marshal a = Some (attr_bytes a @ acl_bytes a @ [0])" using ms(2) by (intro Attr_Marshal_bytes) (simp add: attr_ok_def)
  then obtain d where d: "inode_vals w ino = Some d" "Attr_Unmarshal d zero_Attr = Some a"
    using ms(1,2) attr_stored by auto
  define b where "b = (if ctx_Uid ctx \<noteq> 0 \<and> \<not> containsGid (ctx_Gids ctx) (Gid a) then a\<lparr>Mode := Mode a AND 0xBFF\<rparr> else a)"
  have b: "b = a\<lparr>Mode := sgid_mode ctx a\<rparr>" by (simp add: b_def sgid_mode_def)
  have wa: "with_acl ctx aclType r i a = (if aclType = TypeAccess
      then (setAttrACLId aclType i b)\<lparr>Mode := (Mode (setAttrACLId aclType i b) AND 0xE00) OR
        (push_bit 6 (Owner r AND 7) OR push_bit 3 (Mask r AND 7) OR (Other r AND 7))\<rparr>
      else setAttrACLId aclType i b)" for r i
    by (simp add: with_acl_def b acl_mode_def Let_def setAttrACLId_def)
  have bm: "Mode b = sgid_mode ctx a" by (simp add: b)
  have np: "\<not> (ctx_Uid ctx \<noteq> 0 \<and> ctx_Uid ctx \<noteq> Uid a)" "\<not> (Flags a AND FlagImmutable \<noteq> 0)" using ms(3,4) by blast+
  show ?thesis
    unfolding doSetFacl_tx_def prod.case d(1) option.case d(2) Option.bind.simps Let_def b_def [symmetric] bm
      if_not_P [OF np(1)] if_not_P [OF np(2)] if_not_P [OF ms(5)] if_not_P [OF ms(6)] wa
    by (rule refl)
qed

section \<open>One try and the next\<close>

lemma consistent_inodes [simp]: "acl_consistent (w\<lparr>inode_vals := x\<rparr>) = acl_consistent w"
  by (simp add: acl_consistent_def)

text \<open>The rule can be stored: it is not the zero rule and there is an id for it.\<close>

definition can_store :: "Rule \<Rightarrow> facl_world \<Rightarrow> bool" where
  "can_store r w \<longleftrightarrow> r \<noteq> zero_Rule \<and> shd (incs w) = None \<and> unat (aclCounter w) + 1 < 2 ^ 31"

lemma may_setD:
  assumes "may_set ctx ino aclType rule a w"
  shows "inode_vals w ino = Attr_Marshal a" "attr_ok a" "unat (AccessACL a) < 2 ^ 31" "unat (DefaultACL a) < 2 ^ 31"
    "aclType \<in> {TypeAccess, TypeDefault}" "rule_size rule < 2 ^ 32" "IsNormal ino"
  using assms by (simp_all add: may_set_def)

lemma set_after_insert:
  assumes "may_set ctx ino aclType rule a w" and "insertACL (Some (InheritPerms (sgid_mode ctx a) rule)) w = Some (Inr i, w1)"
    and "inode_vals w1 = inode_vals w" and "unat i < 2 ^ 31"
  obtains w' b where "doSetFacl_tx ctx ino aclType now (w, rule) = Some (None, w', InheritPerms (sgid_mode ctx a) rule)"
    "w' = w1\<lparr>inode_vals := inode_vals w'\<rparr>" "inode_vals w' ino = Attr_Marshal b" "attr_ok b" "getAttrACLId b aclType = i"
proof -
  note d = may_setD [OF assms(1)]
  note new = with_acl_ok [OF d(2,3,4) assms(4) d(5), of ctx "InheritPerms (sgid_mode ctx a) rule"]
  have "inode_vals w1 ino = Attr_Marshal a" using assms(3) d(1) by simp
  from finish_facl_stores [OF this d(2) new(1), of aclType now] new(2) obtain w' b where
    f: "finish_facl ino aclType now (getAttrACLId a aclType) (Mode a) (with_acl ctx aclType (InheritPerms (sgid_mode ctx a) rule) i a) w1 = Some w'"
    and b: "w' = w1\<lparr>inode_vals := inode_vals w'\<rparr>" "inode_vals w' ino = Attr_Marshal b" "attr_ok b" "getAttrACLId b aclType = i" by metis
  have "doSetFacl_tx ctx ino aclType now (w, rule) = Some (None, w', InheritPerms (sgid_mode ctx a) rule)"
    by (simp add: doSetFacl_tx_insert [OF assms(1)] assms(2) f)
  with b show thesis by (intro that)
qed

lemma set_once:
  assumes "acl_consistent w" and "may_set ctx ino aclType rule a w" and "can_store (InheritPerms (sgid_mode ctx a) rule) w"
  obtains i w' b where "doSetFacl_tx ctx ino aclType now (w, rule) = Some (None, w', InheritPerms (sgid_mode ctx a) rule)"
    "i \<noteq> 0" "acl_vals w' i = Some (rule_bytes (InheritPerms (sgid_mode ctx a) rule))" "acl_consistent w'"
    "inode_vals w' ino = Attr_Marshal b" "attr_ok b" "getAttrACLId b aclType = i"
proof -
  let ?r = "InheritPerms (sgid_mode ctx a) rule"
  have size: "rule_size ?r < 2 ^ 32" using may_setD(6) [OF assms(2)] by simp
  obtain i w1 where ins: "insertACL (Some ?r) w = Some (Inr i, w1)" "i \<noteq> 0" "unat i < 2 ^ 31"
    "acl_vals w1 i = Some (rule_bytes ?r)" "acl_consistent w1" "inode_vals w1 = inode_vals w"
    using insertACL_stores [OF assms(1) InheritPerms_not_empty _ size] assms(3) unfolding can_store_def by metis
  obtain w' b where w': "doSetFacl_tx ctx ino aclType now (w, rule) = Some (None, w', ?r)" "w' = w1\<lparr>inode_vals := inode_vals w'\<rparr>"
    "inode_vals w' ino = Attr_Marshal b" "attr_ok b" "getAttrACLId b aclType = i"
    by (rule set_after_insert [OF assms(2) ins(1,6,3)])
  have "acl_vals w' = acl_vals w1" by (subst w'(2)) simp
  moreover have "acl_consistent w'" by (subst w'(2)) (simp add: ins(5))
  ultimately show thesis using w' ins by (intro that [of w' i b]) simp_all
qed

text \<open>What a client with an empty cache reads.\<close>

definition another_client :: "facl_world \<Rightarrow> facl_world" where
  "another_client w = w\<lparr>aclCache := NewCache, reads := sconst None\<rparr>"

lemma another_client_reads:
  assumes "inode_vals w ino = Attr_Marshal b" and "attr_ok b" and "getAttrACLId b aclType = i" and "i \<noteq> 0"
  shows "acl_vals w i = None \<Longrightarrow> \<exists>w'. doGetFacl ino aclType 0 (another_client w) = Some (Inl EIO, w')"
    and "acl_vals w i = Some (rule_bytes r) \<Longrightarrow> rule_size r < 2 ^ 32 \<Longrightarrow>
      \<exists>w'. doGetFacl ino aclType 0 (another_client w) = Some (Inr r, w')"
proof -
  have "Attr_Marshal b = Some (attr_bytes b @ acl_bytes b @ [0])" using assms(2) by (intro Attr_Marshal_bytes) (simp add: attr_ok_def)
  then obtain d where d: "inode_vals w ino = Some d" "Attr_Unmarshal d zero_Attr = Some b" using assms(1,2) attr_stored by auto
  have none: "cache_Get i NewCache = None" by (simp add: cache_Get_def NewCache_def)
  show "\<exists>w'. doGetFacl ino aclType 0 (another_client w) = Some (Inl EIO, w')" if "acl_vals w i = None"
    using that d assms(3,4) none by (simp add: doGetFacl_def another_client_def getACL_def errno_def Let_def)
  show "\<exists>w'. doGetFacl ino aclType 0 (another_client w) = Some (Inr r, w')"
    if val: "acl_vals w i = Some (rule_bytes r)" and size: "rule_size r < 2 ^ 32"
  proof -
    obtain c where "cache_Put i (Some r) NewCache = Some c" using acls.put_total [OF size] by blast
    then show ?thesis
      using val d assms(3,4) none Rule_Decode_bytes [OF size]
      by (simp add: doGetFacl_def another_client_def getACL_def put_cache_def Let_def)
  qed
qed

text \<open>A client whose cached rules are the stored ones reads the stored rule.\<close>

definition cache_agrees :: "facl_world \<Rightarrow> cache \<Rightarrow> bool" where
  "cache_agrees w c \<longleftrightarrow> (\<forall>j x. cache_Get j c = Some x \<longrightarrow> (\<exists>d. acl_vals w j = Some d \<and> Rule_Decode d = Some x))"

lemma agreeing_client_reads:
  assumes "inode_vals w ino = Attr_Marshal b" and "attr_ok b" and "getAttrACLId b aclType = i" and "i \<noteq> 0"
    and val: "acl_vals w i = Some (rule_bytes r)" and size: "rule_size r < 2 ^ 32" and agree: "cache_agrees w c"
  shows "\<exists>w'. doGetFacl ino aclType 0 (w\<lparr>aclCache := c, reads := sconst None\<rparr>) = Some (Inr r, w')"
proof -
  have "Attr_Marshal b = Some (attr_bytes b @ acl_bytes b @ [0])" using assms(2) by (intro Attr_Marshal_bytes) (simp add: attr_ok_def)
  then obtain d where d: "inode_vals w ino = Some d" "Attr_Unmarshal d zero_Attr = Some b" using assms(1,2) attr_stored by auto
  show ?thesis
  proof (cases "cache_Get i c")
    case None
    obtain c' where "cache_Put i (Some r) c = Some c'" using acls.put_total [OF size] by blast
    then show ?thesis
      using val d assms(3,4) None Rule_Decode_bytes [OF size]
      by (simp add: doGetFacl_def getACL_def put_cache_def Let_def)
  next
    case (Some x)
    then obtain d' where "acl_vals w i = Some d'" "Rule_Decode d' = Some x" using agree unfolding cache_agrees_def by blast
    with val Rule_Decode_bytes [OF size] have "x = r" by simp
    with Some d assms(3,4) show ?thesis by (simp add: doGetFacl_def getACL_def Let_def)
  qed
qed

text \<open>The second try, after the first one was rolled back: the rule is found in the cache and not stored.\<close>

lemma all_known:
  assumes ok: "cache_ok c" "cache_ok c'" and put: "cache_Put i r c = Some c'" and "GetMissIds c = []" and "i = maxId c + 1" and "unat i < 2 ^ 31" and "i \<noteq> 0"
  shows "GetMissIds c' = []"
proof -
  have small: "x \<noteq> - 1" if "unat x < 2 ^ 31" for x :: "32 word"
    using that by (auto simp: unsigned_minus_1_eq_mask mask_eq_exp_minus_1)
  have mx: "unat i = unat (maxId c) + 1"
    using assms(5,7) by (metis Suc_eq_plus1 add.commute unatSuc)
  have new: "maxId c < i" using mx by (simp add: word_less_nat_alt)
  then have "\<not> has_id i c"
    using ok(1) by (auto simp: has_id_def cache_ok_def dest!: map_of_SomeD)
  with cache_Put_cases [OF put] new have m': "maxId c' = i" by auto
  have "has_id j c" if "j \<noteq> 0" "j \<le> maxId c" for j
    using GetMissIds_exact [OF ok(1)] small [of "maxId c"] mx assms(4,6) that by auto
  moreover have "j \<le> maxId c" if "j \<le> i" "j \<noteq> i" for j
    using that mx by (simp add: word_le_nat_alt) (metis le_antisym not_less_eq_eq word_unat_eq_iff)
  ultimately have "set (GetMissIds c') = {}"
    using GetMissIds_exact [OF ok(2)] small [of i] m' assms(6) acls.has_put [OF put] by auto
  then show ?thesis by simp
qed

text \<open>The body again, in a world in which the cache has the rule and nothing else happened.\<close>

lemma insert_cached:
  assumes "cache_ok (aclCache w)" and "GetMissIds (aclCache w) = []" and "rule_size r < 2 ^ 32" and "\<not> Rule_IsEmpty r"
    and "\<And>j. cache_Get j (aclCache w) = Some r \<longleftrightarrow> j = i"
  shows "insertACL (Some r) w = Some (Inr i, w)"
proof -
  obtain i0 where i0: "cache_GetId (Some r) (aclCache w) = Some i0" using acls.getId_total [OF assms(1,3)] by blast
  moreover have "i0 \<noteq> 0" using acls.getId_complete [OF assms(1), of r i] assms(5) i0 by auto
  moreover from acls.getId_sound [OF assms(1) i0 this] have "i0 = i" using assms(5) by simp
  ultimately show ?thesis using assms(2,4) by (simp add: insertACL_def tryLoadMissACLs_def)
qed

lemma insert_new:
  assumes con: "acl_consistent w" and none: "GetMissIds (aclCache w) = []" and up: "unat (maxId (aclCache w)) = unat (aclCounter w)"
    and size: "rule_size r < 2 ^ 32" and "\<not> Rule_IsEmpty r" and "can_store r w" and new: "\<And>j. cache_Get j (aclCache w) \<noteq> Some r"
  obtains i w1 where "insertACL (Some r) w = Some (Inr i, w1)" "inode_vals w1 = inode_vals w" "i \<noteq> 0" "unat i < 2 ^ 31"
    "acl_vals w i = None" "cache_ok (aclCache w1)" "GetMissIds (aclCache w1) = []"
    "\<forall>j. cache_Get j (aclCache w1) = Some r \<longleftrightarrow> j = i"
proof -
  let ?i = "ucast (aclCounter w + 1) :: 32 word" and ?c = "aclCache w"
  have st: "shd (incs w) = None" "unat (aclCounter w) + 1 < 2 ^ 31" using assms(6) by (simp_all add: can_store_def)
  have ok: "cache_ok ?c" by (rule acl_consistentD(1) [OF con])
  have "unat (aclCounter w + 1) = unat (aclCounter w) + 1" using st(2) by (simp add: unat_word_ariths)
  then have ui: "unat ?i = unat (aclCounter w) + 1" using st(2) by (simp add: unsigned_ucast_eq take_bit_nat_eq_self)
  have ne: "?i \<noteq> 0" using ui by (metis add_is_0 one_neq_zero unat_0)
  have mx: "?i = maxId ?c + 1" using ui up st(2) by (simp add: word_unat_eq_iff unat_word_ariths)
  have gid: "cache_GetId (Some r) ?c = Some 0"
    using acls.getId_total [OF ok size] acls.getId_sound [OF ok] new by (metis not_None_eq)
  obtain c1 where c1: "cache_Put ?i (Some r) ?c = Some c1" using acls.put_total [OF size] by blast
  have fresh: "\<not> has_id ?i ?c"
    using ok ui up by (auto simp: has_id_def cache_ok_def word_le_nat_alt dest!: map_of_SomeD)
  have ok1: "cache_ok c1" by (rule acls.put_ok [OF ok ne c1])
  have "GetMissIds c1 = []" by (rule all_known [OF ok ok1 c1 none mx _ ne]) (use ui st(2) in linarith)
  moreover have "cache_Get j c1 = Some r \<longleftrightarrow> j = ?i" for j using acls.get_put [OF c1, of j] fresh new by auto
  moreover have "acl_vals w ?i = None" using acl_consistentD(4) [OF con, of ?i] ui by (cases "acl_vals w ?i") auto
  moreover have "insertACL (Some r) w = Some (Inr ?i, w\<lparr>aclCache := c1, incs := stl (incs w), aclCounter := aclCounter w + 1,
      acl_vals := (acl_vals w)(?i \<mapsto> rule_bytes r)\<rparr>)"
    using assms(5) none gid st(1) c1 Rule_Encode_bytes [OF size]
    by (simp add: insertACL_def tryLoadMissACLs_def incrCounter_def put_cache_def Let_def)
  moreover have "unat ?i < 2 ^ 31" using ui st(2) by linarith
  ultimately show thesis
    using ne ok1
    by (intro that [of ?i "w\<lparr>aclCache := c1, incs := stl (incs w), aclCounter := aclCounter w + 1,
      acl_vals := (acl_vals w)(?i \<mapsto> rule_bytes r)\<rparr>"]) simp_all
qed

section \<open>Properties\<close>

text \<open>C18: Setting an ACL that is neither empty nor zero nor a minimal access rule: when the first try of the transaction commits,
  \<open>SetFacl\<close> returns 0, and every client whose cached rules are the stored ones (in particular one with an empty cache)
  reads the rule that was set, with the permissions it left open taken from the mode; the own cache and the store stay
  consistent. (A client that has cached the zero rule under the id is not covered: it does not read the rule.)\<close>

theorem SetFacl_read_by_others:
  assumes "acl_consistent w" and "may_set ctx ino aclType rule a w"
    and "can_store (InheritPerms (sgid_mode ctx a) rule) w" and "shd os = Commit"
  shows "\<exists>w'. SetFacl False os ctx ino aclType now rule w = Some (E0, w') \<and> acl_consistent w' \<and>
    (\<forall>c. cache_agrees w' c \<longrightarrow> (\<exists>w''. doGetFacl ino aclType 0 (w'\<lparr>aclCache := c, reads := sconst None\<rparr>) =
       Some (Inr (InheritPerms (sgid_mode ctx a) rule), w'')))"
proof -
  let ?r = "InheritPerms (sgid_mode ctx a) rule"
  obtain i w' b where w': "doSetFacl_tx ctx ino aclType now (w, rule) = Some (None, w', ?r)" "i \<noteq> 0"
    "acl_vals w' i = Some (rule_bytes ?r)" "acl_consistent w'" "inode_vals w' ino = Attr_Marshal b" "attr_ok b" "getAttrACLId b aclType = i"
    by (rule set_once [OF assms(1-3)])
  have "rule_size ?r < 2 ^ 32" using may_setD(6) [OF assms(2)] by simp
  from agreeing_client_reads [OF w'(5-7,2,3) this] have
    "\<forall>c. cache_agrees w' c \<longrightarrow> (\<exists>w''. doGetFacl ino aclType 0 (w'\<lparr>aclCache := c, reads := sconst None\<rparr>) = Some (Inr ?r, w''))"
    by blast
  moreover have "SetFacl False os ctx ino aclType now rule w = Some (E0, w')"
    using may_setD(5,7) [OF assms(2)] w'(1) assms(4)
    by (auto simp: SetFacl_def doSetFacl_def kv_txn_def numeral_eq_Suc errno_def)
  ultimately show ?thesis using w'(4) by blast
qed

text \<open>C19: A conflict loses the rule: when the engine finds a conflict at the first try and commits the second, \<open>SetFacl\<close>
  returns 0 and the inode refers to the rule, but the rule is not stored, and another client that reads the ACL fails
  with \<open>EIO\<close>. The first try has put the rule into the cache, so the second takes it for one that is stored.\<close>

theorem conflict_loses_rule:
  assumes "acl_consistent w" and "GetMissIds (aclCache w) = []" and "unat (maxId (aclCache w)) = unat (aclCounter w)"
    and "may_set ctx ino aclType rule a w" and "can_store (InheritPerms (sgid_mode ctx a) rule) w"
    and "\<And>j. cache_Get j (aclCache w) \<noteq> Some (InheritPerms (sgid_mode ctx a) rule)"
    and "shd os = Conflict e id" and "shd (stl os) = Commit"
  shows "\<exists>w' w''. SetFacl False os ctx ino aclType now rule w = Some (E0, w') \<and> acl_vals w' = acl_vals w \<and>
    doGetFacl ino aclType 0 (another_client w') = Some (Inl EIO, w'')"
proof -
  let ?r = "InheritPerms (sgid_mode ctx a) rule"
  have size: "rule_size ?r < 2 ^ 32" using may_setD(6) [OF assms(4)] by simp
  obtain i w1 where ins: "insertACL (Some ?r) w = Some (Inr i, w1)" "inode_vals w1 = inode_vals w" "i \<noteq> 0" "unat i < 2 ^ 31"
    "acl_vals w i = None" "cache_ok (aclCache w1)" "GetMissIds (aclCache w1) = []"
    "\<forall>j. cache_Get j (aclCache w1) = Some ?r \<longleftrightarrow> j = i"
    by (rule insert_new [OF assms(1-3) size InheritPerms_not_empty assms(5,6)])
  obtain w2 where first: "doSetFacl_tx ctx ino aclType now (w, rule) = Some (None, w2, ?r)" "w2 = w1\<lparr>inode_vals := inode_vals w2\<rparr>"
    by (rule set_after_insert [OF assms(4) ins(1,2,4)])
  let ?w3 = "roll_back w w2"
  have c3: "aclCache ?w3 = aclCache w1" "inode_vals ?w3 = inode_vals w" "acl_vals ?w3 = acl_vals w"
    by (subst first(2)) (simp_all add: roll_back_def)
  have again: "may_set ctx ino aclType ?r a ?w3"
    using assms(4) c3(2) InheritPerms_not_empty by (simp add: may_set_def)
  have "insertACL (Some ?r) ?w3 = Some (Inr i, ?w3)"
    by (rule insert_cached) (use ins(6-8) size InheritPerms_not_empty c3(1) in simp_all)
  then have "insertACL (Some (InheritPerms (sgid_mode ctx a) ?r)) ?w3 = Some (Inr i, ?w3)" by (simp add: InheritPerms_idem)
  from set_after_insert [OF again this refl ins(4), of now] obtain w' b where
    w': "doSetFacl_tx ctx ino aclType now (?w3, ?r) = Some (None, w', ?r)" "w' = ?w3\<lparr>inode_vals := inode_vals w'\<rparr>"
    "inode_vals w' ino = Attr_Marshal b" "attr_ok b" "getAttrACLId b aclType = i" by (auto simp: InheritPerms_idem)
  have vals: "acl_vals w' = acl_vals w" by (subst w'(2)) (simp add: c3(3))
  then obtain w'' where "doGetFacl ino aclType 0 (another_client w') = Some (Inl EIO, w'')"
    using another_client_reads(1) [OF w'(3-5) ins(3)] ins(5) by auto
  moreover have "SetFacl False os ctx ino aclType now rule w = Some (E0, w')"
    using may_setD(5,7) [OF assms(4)] first(1) w'(1) assms(7,8)
    by (auto simp: SetFacl_def doSetFacl_def kv_txn_def numeral_eq_Suc errno_def)
  ultimately show ?thesis using vals by blast
qed

section \<open>Samples\<close>

definition sample_acl :: Rule where
  "sample_acl = \<lparr>Owner = 7, Group = 5, Mask = 7, Other = 0, NamedUsers = [\<lparr>en_Id = 3, en_Perm = 6\<rparr>], NamedGroups = []\<rparr>"

definition sample_attr :: Attr where
  "sample_attr = zero_Attr\<lparr>Typ := 1, Mode := 0x1A4, Uid := 3, Full := True\<rparr>"

definition sample_facl :: facl_world where
  "sample_facl = \<lparr>aclCache = NewCache, aclCounter = 0, incs = sconst None, reads = sconst None,
     inode_vals = [5 \<mapsto> attr_bytes sample_attr @ [0]], acl_vals = Map.empty\<rparr>"

definition root :: Context where
  "root = \<lparr>ctx_Uid = 0, ctx_Gid = 0, ctx_Gids = [0], ctx_CheckPermission = True\<rparr>"

lemma sample_facl_ok:
  "acl_consistent sample_facl" "may_set root 5 TypeAccess sample_acl sample_attr sample_facl"
  "InheritPerms (sgid_mode root sample_attr) sample_acl = sample_acl" "can_store sample_acl sample_facl"
  "GetMissIds (aclCache sample_facl) = []" "cache_Get j (aclCache sample_facl) = None"
proof -
  have "Attr_Marshal sample_attr = Some (attr_bytes sample_attr @ acl_bytes sample_attr @ [0])"
    by (rule Attr_Marshal_bytes) (simp add: acl_ids_ok_def sample_attr_def zero_Attr_def)
  moreover have "acl_bytes sample_attr = []" by (simp add: acl_bytes_def sample_attr_def zero_Attr_def)
  ultimately show "may_set root 5 TypeAccess sample_acl sample_attr sample_facl"
    by (simp add: may_set_def sample_facl_def attr_ok_def acl_ids_ok_def root_def IsNormal_def RootInode_def TrashInode_def
        Rule_IsEmpty_def IsMinimal_def sample_acl_def rule_size_def)
       (simp add: sample_attr_def zero_Attr_def)
qed (simp_all add: acl_consistent_def sample_facl_def NewCache_ok cache_Get_def GetMissIds_def cache_Size_def NewCache_def
    InheritPerms_def sample_acl_def can_store_def zero_Rule_def NewCache_ok [unfolded NewCache_def])

theorem SetFacl_read_by_others_witness:
  "\<exists>w' w''. SetFacl False (sconst Commit) root 5 TypeAccess (9, 0) sample_acl sample_facl = Some (E0, w') \<and>
     doGetFacl 5 TypeAccess 0 (another_client w') = Some (Inr sample_acl, w'')"
proof -
  have "cache_agrees w' NewCache" for w' by (simp add: cache_agrees_def cache_Get_def NewCache_def)
  with SetFacl_read_by_others [OF sample_facl_ok(1,2), of "sconst Commit" "(9, 0)"] sample_facl_ok(3,4) show ?thesis
    unfolding another_client_def by auto
qed

theorem conflict_loses_rule_witness:
  "\<exists>w' w''. SetFacl False (Conflict (OtherErr ''conflict'') id ## sconst Commit) root 5 TypeAccess (9, 0) sample_acl sample_facl =
       Some (E0, w') \<and> doGetFacl 5 TypeAccess 0 (another_client w') = Some (Inl EIO, w'')"
  using conflict_loses_rule [OF sample_facl_ok(1,5) _ sample_facl_ok(2),
      of "Conflict (OtherErr ''conflict'') id ## sconst Commit" "OtherErr ''conflict''" "(9, 0)"] sample_facl_ok(3,4,6)
  by (auto simp: sample_facl_def NewCache_def)

section \<open>Rules of a dump\<close>

text \<open>\<open>saveACL\<close> gives every rule an id under which the cache has it, and the same id again.\<close>

lemma saveACL_gives:
  assumes "cache_ok c" and "\<not> has_id (aclMaxId + 1) c" and "aclMaxId + 1 \<noteq> 0" and "saveACL (Some r) aclMaxId c = Some (i, m, c')"
  shows "cache_ok c' \<and> i \<noteq> 0 \<and> cache_Get i c' = Some r \<and> ((\<exists>j. cache_Get j c = Some r) \<longrightarrow> c' = c)"
proof -
  have "acls.find_or_put (aclMaxId + 1) r c = Some (i, c')"
    using assms(4) by (auto simp: saveACL_def acls.find_or_put_def Option.bind_eq_Some_conv split: if_splits)
  from acls.find_or_put_gives [OF assms(1,3,2) this] show ?thesis by blast
qed

section \<open>Missing rules and modes\<close>

lemma put_cache_get:
  assumes "put_cache i r w = Some w'"
  shows "cache_Get j (aclCache w') = (if j = i \<and> \<not> has_id i (aclCache w) then r else cache_Get j (aclCache w))"
    and "has_id j (aclCache w') \<longleftrightarrow> j = i \<or> has_id j (aclCache w)" and "acl_vals w' = acl_vals w"
  using assms acls.get_put [of i r "aclCache w"] acls.has_put [of i r "aclCache w"]
  by (auto simp: put_cache_def)

lemma load_misses_keeps:
  "load_misses ids w = Some w' \<Longrightarrow> has_id i (aclCache w) \<Longrightarrow> cache_Get i (aclCache w') = cache_Get i (aclCache w)"
proof (induction ids arbitrary: w)
  case (Cons j ids)
  then obtain r w1 where "put_cache j (Some r) w = Some w1" "load_misses ids w1 = Some w'"
    by (auto simp: Let_def Option.bind_eq_Some_conv)
  with Cons.IH [of w1] Cons.prems(2) put_cache_get(1,2) [of j "Some r" w w1 i] show ?case by auto
qed simp

lemma load_misses_zero:
  "load_misses ids w = Some w' \<Longrightarrow> i \<in> set ids \<Longrightarrow> \<not> has_id i (aclCache w) \<Longrightarrow> acl_vals w i = None \<Longrightarrow>
     cache_Get i (aclCache w') = Some zero_Rule"
proof (induction ids arbitrary: w)
  case (Cons j ids)
  obtain r w1 where w1: "stored_rule j w = Some r" "put_cache j (Some r) w = Some w1" "load_misses ids w1 = Some w'"
    using Cons.prems(1) by (auto simp: Let_def Option.bind_eq_Some_conv stored_rule_def)
  note g = put_cache_get(1,2) [OF w1(2), of i] put_cache_get(3) [OF w1(2)]
  show ?case
  proof (cases "j = i")
    case True
    then have "r = zero_Rule" using w1(1) Cons.prems(4) by (simp add: stored_rule_def)
    with g True Cons.prems(3) load_misses_keeps [OF w1(3), of i] show ?thesis by simp
  next
    case False
    with g Cons.prems have "cache_Get i (aclCache w') = Some zero_Rule" by (intro Cons.IH [OF w1(3)]) auto
    then show ?thesis .
  qed
qed simp

lemma zero_Rule_denies: "CanAccess zero_Rule uid gids fUid fGid m \<longleftrightarrow> m = 0"
  by (auto simp: CanAccess_eq posix_access_def zero_Rule_def grants_def Let_def)

text \<open>C37: A rule that is stored late stays hidden: when a client looks for the rules it misses while the transaction that
  stores rule \<open>i\<close> is under way in another client, it caches the zero rule for \<open>i\<close>; whatever is stored under \<open>i\<close> then,
  this client goes on deciding by the zero rule, which denies every access.\<close>

theorem missing_rule_hides_stored:
  assumes "tryLoadMissACLs w = Some w1" and "i \<in> set (GetMissIds (aclCache w))" and "i \<noteq> 0" and "acl_vals w i = None"
    and "aclCache w2 = aclCache w1" and "acl_vals w2 i = Some (rule_bytes r)"
  shows "getACL i w2 = Some (Inr (Some zero_Rule), w2) \<and> (\<forall>uid gids fUid fGid m. CanAccess zero_Rule uid gids fUid fGid m \<longleftrightarrow> m = 0)"
proof -
  have "\<not> has_id i (aclCache w)" using assms(2) by (auto simp: GetMissIds_def Let_def has_id_def split: if_splits)
  with assms(1,2,4) have "cache_Get i (aclCache w1) = Some zero_Rule" by (auto simp: tryLoadMissACLs_def intro: load_misses_zero)
  with assms(3,5) show ?thesis by (simp add: getACL_def zero_Rule_denies)
qed

text \<open>C38: The mode of an inode that has an ACL can be changed by anyone. A caller who is neither root nor the owner and
  asks for other permission bits is refused with \<open>EPERM\<close> when the inode has no ACL; when it has one, the request is
  granted and the new mode has the permission bits that were asked for.\<close>

theorem chmod_owner_check:
  assumes "ctx_Uid ctx \<noteq> 0" and "ctx_Uid ctx \<noteq> Uid cur" and "Mode attr AND 0x3FF \<noteq> Mode cur AND 0x3FF"
    and "Mode attr AND 0x400 = 0"
    and "IsMinimal r \<or> NamedUsers r \<noteq> [] \<or> NamedGroups r \<noteq> [] \<or> Mask r AND 0xFFF8 \<noteq> 0xFFF8"
  shows "mergeAttr ctx inode SetAttrMode cur attr now None w = Some (Inl EPERM, w) \<and>
    (\<exists>mg. mergeAttr ctx inode SetAttrMode cur attr now (Some r) w = Some (Inr mg, w) \<and> mg_changed mg \<and>
       Mode (mg_dirty mg) = (Mode attr AND 0xE00) OR (Mode attr AND 0x1FF))"
proof -
  let ?mg = "\<lambda>rule. \<lparr>mg_dirty = cur, mg_attr = attr, mg_rule = rule, mg_changed = False\<rparr>"
  note flags = SetAttrMode_def SetAttrUID_def SetAttrGID_def SetAttrAtime_def SetAttrMtime_def SetAttrAtimeNow_def
    SetAttrMtimeNow_def SetAttrFlag_def
  have pre: "merge_start ctx SetAttrMode cur attr rule = ?mg rule" "merge_gid ctx SetAttrMode cur mg = Inr mg"
    "merge_uid ctx SetAttrMode cur mg = Inr mg" for rule mg
    by (simp_all add: merge_start_def merge_gid_def merge_uid_def flags)
  have post: "merge_atime ctx inode SetAttrMode cur now mg w = Some (Inr mg, w)"
    "merge_mtime ctx inode SetAttrMode cur now mg w = Some (Inr mg, w)" "merge_flag SetAttrMode mg = mg" for mg
    by (simp_all add: merge_atime_def merge_mtime_def merge_flag_def flags)
  have "merge_mode ctx SetAttrMode cur (?mg None) = Inl EPERM"
    using assms(1-4) by (auto simp: merge_mode_def Let_def flags)
  moreover have "merge_mode ctx SetAttrMode cur (?mg (Some r)) =
      Inr \<lparr>mg_dirty = cur\<lparr>Mode := (Mode attr AND 0xE00) OR GetMode (SetMode (Mode attr) r)\<rparr>, mg_attr = attr,
        mg_rule = Some (SetMode (Mode attr) r), mg_changed = True\<rparr>"
    using assms(4) by (simp add: merge_mode_def Let_def flags)
  ultimately show ?thesis
    using GetMode_SetMode [OF assms(5), of "Mode attr"] by (simp add: mergeAttr_def pre post Let_def)
qed

definition nobody :: Context where
  "nobody = \<lparr>ctx_Uid = 9, ctx_Gid = 9, ctx_Gids = [9], ctx_CheckPermission = True\<rparr>"

theorem chmod_owner_check_witness:
  "mergeAttr nobody 5 SetAttrMode sample_attr (zero_Attr\<lparr>Mode := 0x1FF\<rparr>) (9, 0) None sample_facl = Some (Inl EPERM, sample_facl) \<and>
   (\<exists>mg. mergeAttr nobody 5 SetAttrMode sample_attr (zero_Attr\<lparr>Mode := 0x1FF\<rparr>) (9, 0) (Some sample_acl) sample_facl =
      Some (Inr mg, sample_facl) \<and> Mode (mg_dirty mg) = 0x1FF)"
  using chmod_owner_check [of nobody sample_attr "zero_Attr\<lparr>Mode := 0x1FF\<rparr>" sample_acl 5 "(9, 0)" sample_facl]
  by (auto simp: nobody_def sample_attr_def zero_Attr_def sample_acl_def)

definition gap_facl :: facl_world where
  "gap_facl = sample_facl\<lparr>aclCache := \<lparr>maxId = 2, id2Rule = [(2, Some sample_acl)], cksum2Id = Map.empty\<rparr>, aclCounter := 2\<rparr>"

theorem missing_rule_hides_stored_witness:
  "\<exists>w1. tryLoadMissACLs gap_facl = Some w1 \<and>
     (let w2 = w1\<lparr>acl_vals := [1 \<mapsto> rule_bytes sample_acl]\<rparr> in getACL 1 w2 = Some (Inr (Some zero_Rule), w2))"
proof -
  have "[Suc 0..<3] = [1, 2]" by (simp add: numeral_3_eq_3)
  then have miss: "GetMissIds (aclCache gap_facl) = [1]" "acl_vals gap_facl 1 = None"
    by (simp_all add: GetMissIds_def gap_facl_def cache_Size_def sample_facl_def Let_def)
  obtain w1 where w1: "tryLoadMissACLs gap_facl = Some w1"
    using acls.put_total [of zero_Rule 1 "aclCache gap_facl"] miss
    by (auto simp: tryLoadMissACLs_def put_cache_def)
  from missing_rule_hides_stored [OF w1, of 1 "w1\<lparr>acl_vals := [1 \<mapsto> rule_bytes sample_acl]\<rparr>" sample_acl] miss
  have "getACL 1 (w1\<lparr>acl_vals := [1 \<mapsto> rule_bytes sample_acl]\<rparr>) = Some (Inr (Some zero_Rule), w1\<lparr>acl_vals := [1 \<mapsto> rule_bytes sample_acl]\<rparr>)"
    by simp
  with w1 show ?thesis by (auto simp: Let_def)
qed

end
