(* ===== verification/JFS_Slices.thy ===== *)
theory JFS_Slices
  imports JFS_Buffer
begin

text \<open>
  The slices of a file's chunk (juicefs pkg/meta/slice.go). A chunk keeps the list of the slices written to it, oldest first; a
  read builds a tree of non-overlapping pieces by cutting the tree at both ends of every newer
  slice, and lists the pieces in order. Positions and lengths are 32-bit words that wrap; the
  identifier 0 is a hole. Trees are never shared, so cutting in place is a function from a tree to
  the two trees it returns.
\<close>

unbundle bit_operations_syntax

section \<open>Slices\<close>

text \<open>A stored slice, and a tree of slices: \<open>NilSlice\<close> is the nil pointer.\<close>

record slice =
  sl_id :: "64 word"
  sl_size :: "32 word"
  sl_off :: "32 word"
  sl_len :: "32 word"
  sl_pos :: "32 word"

datatype slice_tree = NilSlice | Node slice (left: slice_tree) (right: slice_tree)

record Slice =
  S_Id :: "64 word"
  S_Size :: "32 word"
  S_Off :: "32 word"
  S_Len :: "32 word"

definition newSlice :: "32 word \<Rightarrow> 64 word \<Rightarrow> 32 word \<Rightarrow> 32 word \<Rightarrow> 32 word \<Rightarrow> slice_tree" where
  "newSlice pos i cleng off ln = (if ln = 0 then NilSlice
     else Node \<lparr>sl_id = i, sl_size = cleng, sl_off = off, sl_len = ln, sl_pos = pos\<rparr> NilSlice NilSlice)"

definition sliceBytes :: nat where
  "sliceBytes = 24"

definition marshalSlice :: "slice \<Rightarrow> 8 word list option" where
  "marshalSlice s =
     Option.bind (Put32 (sl_pos s) (NewBuffer (of_nat sliceBytes))) (\<lambda>w.
     Option.bind (Put64 (sl_id s) w) (\<lambda>w.
     Option.bind (Put32 (sl_size s) w) (\<lambda>w.
     Option.bind (Put32 (sl_off s) w) (\<lambda>w.
     Option.bind (Put32 (sl_len s) w) (\<lambda>w. Some (Bytes w))))))"

definition slice_read :: "8 word list \<Rightarrow> slice option" where
  "slice_read bs =
     Option.bind (Get32 (ReadBuffer bs)) (\<lambda>(p, rb).
     Option.bind (Get64 rb) (\<lambda>(i, rb).
     Option.bind (Get32 rb) (\<lambda>(sz, rb).
     Option.bind (Get32 rb) (\<lambda>(f, rb).
     Option.bind (Get32 rb) (\<lambda>(n, rb).
     Some \<lparr>sl_id = i, sl_size = sz, sl_off = f, sl_len = n, sl_pos = p\<rparr>)))))"

text \<open>A corrupt value makes \<open>readSlices\<close> return nil: the inner \<open>None\<close>.\<close>

fun readSlices :: "8 word list list \<Rightarrow> slice list option option" where
  "readSlices [] = Some (Some [])"
| "readSlices (v # vs) =
     (if length v \<noteq> sliceBytes then Some None
      else Option.bind (slice_read v) (\<lambda>s. map_option (map_option (\<lambda>ss. s # ss)) (readSlices vs)))"

fun read_from :: "nat \<Rightarrow> 8 word list \<Rightarrow> slice list option" where
  "read_from 0 b = Some []"
| "read_from (Suc n) b = Option.bind (slice_read b) (\<lambda>s. map_option (\<lambda>ss. s # ss) (read_from n (drop sliceBytes b)))"

definition readSliceBuf :: "8 word list \<Rightarrow> slice list option option" where
  "readSliceBuf b = (if length b mod sliceBytes \<noteq> 0 then Some None
     else map_option Some (read_from (length b div sliceBytes) b))"

text \<open>The distance from \<open>pos\<close> to the slice at the root: the hole a cut outside of it fills.\<close>

fun gap :: "slice_tree \<Rightarrow> 32 word \<Rightarrow> 32 word" where
  "gap NilSlice pos = 0"
| "gap (Node s l r) pos = (if pos \<le> sl_pos s then sl_pos s - pos else pos - sl_pos s - sl_len s)"

function cut :: "slice_tree \<Rightarrow> 32 word \<Rightarrow> slice_tree \<times> slice_tree" where
  "cut NilSlice pos = (NilSlice, NilSlice)"
| "cut (Node s l r) pos =
     (if pos \<le> sl_pos s then
        (let l0 = (if l = NilSlice then newSlice pos 0 0 0 (sl_pos s - pos) else l);
             (lft, l') = cut l0 pos
         in (lft, Node s l' r))
      else if pos < sl_pos s + sl_len s then
        (let d = pos - sl_pos s;
             rgt = newSlice pos (sl_id s) (sl_size s) (sl_off s + d) (sl_len s - d)
         in (Node (s\<lparr>sl_len := d\<rparr>) l NilSlice,
             (case rgt of NilSlice \<Rightarrow> NilSlice | Node q _ _ \<Rightarrow> Node q NilSlice r)))
      else
        (let r0 = (if r = NilSlice then newSlice (sl_pos s + sl_len s) 0 0 0 (pos - sl_pos s - sl_len s) else r);
             (r', rgt) = cut r0 pos
         in (Node s l r', rgt)))"
  by pat_completeness auto

termination
proof (relation "measure (\<lambda>(t, pos). 2 * size t + (if gap t pos = 0 then 0 else 1))", goal_cases)
  case 1
  show ?case by simp
next
  case (2 s l r pos)
  then show ?case by (cases l) (auto simp: newSlice_def)
next
  case (3 s l r pos)
  then show ?case by (cases r) (auto simp: newSlice_def)
qed

text \<open>\<open>visit\<close> calls the function on the slices in order.\<close>

fun visit :: "slice_tree \<Rightarrow> (slice \<Rightarrow> 'a \<Rightarrow> 'a) \<Rightarrow> 'a \<Rightarrow> 'a" where
  "visit NilSlice f a = a"
| "visit (Node s l r) f a = visit r f (f s (visit l f a))"

definition build_step :: "slice_tree \<Rightarrow> slice \<Rightarrow> slice_tree" where
  "build_step root s =
     (let (l, rgt) = cut root (sl_pos s); (_, r) = cut rgt (sl_pos s + sl_len s) in Node s l r)"

definition append_slice :: "slice \<Rightarrow> 32 word \<times> Slice list \<Rightarrow> 32 word \<times> Slice list" where
  "append_slice s = (\<lambda>(pos, chunk).
     let (pos, chunk) = (if sl_pos s > pos
           then (sl_pos s, chunk @ [\<lparr>S_Id = 0, S_Size = sl_pos s - pos, S_Off = 0, S_Len = sl_pos s - pos\<rparr>])
           else (pos, chunk))
     in (pos + sl_len s, chunk @ [\<lparr>S_Id = sl_id s, S_Size = sl_size s, S_Off = sl_off s, S_Len = sl_len s\<rparr>]))"

definition buildSlice :: "slice list \<Rightarrow> Slice list" where
  "buildSlice ss = snd (visit (foldl build_step NilSlice ss) append_slice (0, []))"

text \<open>The loop of \<open>compactChunk\<close> drops holes at both ends while more than one piece is left.\<close>

function trim_holes :: "32 word \<Rightarrow> Slice list \<Rightarrow> 32 word \<times> Slice list" where
  "trim_holes pos chunk =
     (if length chunk > 1 then
        (if S_Id (hd chunk) = 0 then trim_holes (pos + S_Len (hd chunk)) (tl chunk)
         else if S_Id (last chunk) = 0 then trim_holes pos (butlast chunk)
         else (pos, chunk))
      else (pos, chunk))"
  by pat_completeness auto

termination by (relation "measure (\<lambda>(pos, chunk). length chunk)") auto

definition compactChunk :: "slice list \<Rightarrow> 32 word \<times> 32 word \<times> Slice list" where
  "compactChunk ss =
     (let (pos, chunk) = trim_holes 0 (buildSlice ss);
          chunk = (case chunk of [c] \<Rightarrow> if S_Id c = 0 then [c\<lparr>S_Len := 1\<rparr>] else [c] | _ \<Rightarrow> chunk)
      in (pos, sum_list (map S_Len chunk), chunk))"

function skip_from :: "slice list \<Rightarrow> nat \<Rightarrow> nat" where
  "skip_from chunk skipped =
     (if skipped < length chunk then
        (let ss = drop skipped chunk; (pos, size1, c) = compactChunk ss; first = hd ss
         in if sl_len first < push_bit 20 1 \<or> sl_len first * 5 < size1 \<or> size1 = 0 then skipped
            else if \<not> (pos = sl_pos first \<and> S_Id (hd c) = sl_id first \<and> S_Off (hd c) = sl_off first \<and>
                S_Len (hd c) = sl_len first) then skipped
            else if first \<in> set (tl ss) then skipped
            else skip_from chunk (skipped + 1))
      else skipped)"
  by pat_completeness auto

termination by (relation "measure (\<lambda>(chunk, skipped). length chunk - skipped)") auto

definition skipSome :: "slice list \<Rightarrow> nat" where
  "skipSome chunk = skip_from chunk 0"

declare trim_holes.simps [simp del] skip_from.simps [simp del]

section \<open>Encoding\<close>

definition slice_bytes :: "slice \<Rightarrow> 8 word list" where
  "slice_bytes s = PutUint32 (sl_pos s) @ PutUint64 (sl_id s) @ PutUint32 (sl_size s) @ PutUint32 (sl_off s) @
     PutUint32 (sl_len s)"

lemma length_slice_bytes [simp]: "length (slice_bytes s) = sliceBytes"
  by (simp add: slice_bytes_def sliceBytes_def)

lemma marshalSlice_eq: "marshalSlice s = Some (slice_bytes s)"
  by (simp add: marshalSlice_def FromBuffer_at put_rules sliceBytes_def slice_bytes_def)

lemma slice_read_eq: "slice_read (slice_bytes s @ rest) = Some s"
  by (simp add: slice_read_def FromBuffer_at get_rules slice_bytes_def)

lemma read_from_concat: "read_from (length ss) (concat (map slice_bytes ss) @ rest) = Some ss"
  by (induction ss) (simp_all add: slice_read_eq)

lemma readSlices_eq: "readSlices (map slice_bytes ss) = Some (Some ss)"
  using slice_read_eq [of _ "[]"] by (induction ss) simp_all

lemma length_concat_slice_bytes: "length (concat (map slice_bytes ss)) = sliceBytes * length ss"
  by (induction ss) simp_all

section \<open>What a tree and a chunk hold at a position\<close>

text \<open>A hole or the byte of an object: its identifier and the offset into it.\<close>

definition piece_at :: "64 word \<Rightarrow> 32 word \<Rightarrow> nat \<Rightarrow> (64 word \<times> 32 word) option" where
  "piece_at i off d = (if i = 0 then None else Some (i, off + of_nat d))"

definition slice_end :: "slice \<Rightarrow> nat" where
  "slice_end s = unat (sl_pos s) + unat (sl_len s)"

definition covers :: "slice \<Rightarrow> nat \<Rightarrow> bool" where
  "covers s q \<longleftrightarrow> unat (sl_pos s) \<le> q \<and> q < slice_end s"

definition slice_at :: "slice \<Rightarrow> nat \<Rightarrow> (64 word \<times> 32 word) option" where
  "slice_at s q = piece_at (sl_id s) (sl_off s) (q - unat (sl_pos s))"

text \<open>The reference: the newest slice that covers the position decides.\<close>

fun latest :: "slice list \<Rightarrow> nat \<Rightarrow> (64 word \<times> 32 word) option" where
  "latest [] q = None"
| "latest (s # ss) q = (if list_ex (\<lambda>s. covers s q) ss then latest ss q else if covers s q then slice_at s q else None)"

fun tree_at :: "slice_tree \<Rightarrow> nat \<Rightarrow> (64 word \<times> 32 word) option" where
  "tree_at NilSlice q = None"
| "tree_at (Node s l r) q =
     (if q < unat (sl_pos s) then tree_at l q else if q < slice_end s then slice_at s q else tree_at r q)"

text \<open>The pieces of a tree are not empty, do not wrap and fill an interval without gaps.\<close>

fun spans :: "nat \<Rightarrow> slice_tree \<Rightarrow> nat \<Rightarrow> bool" where
  "spans lo NilSlice hi \<longleftrightarrow> lo = hi"
| "spans lo (Node s l r) hi \<longleftrightarrow> sl_len s \<noteq> 0 \<and> slice_end s < 2 ^ 32 \<and> spans lo l (unat (sl_pos s)) \<and>
     spans (slice_end s) r hi"

fun chunk_at :: "Slice list \<Rightarrow> nat \<Rightarrow> (64 word \<times> 32 word) option" where
  "chunk_at [] q = None"
| "chunk_at (c # cs) q = (if q < unat (S_Len c) then piece_at (S_Id c) (S_Off c) q else chunk_at cs (q - unat (S_Len c)))"

lemma spans_le: "spans lo t hi \<Longrightarrow> lo \<le> hi"
  by (induction t arbitrary: lo hi) (fastforce simp: slice_end_def)+

lemma tree_at_outside: "spans lo t hi \<Longrightarrow> q < lo \<or> hi \<le> q \<Longrightarrow> tree_at t q = None"
proof (induction t arbitrary: lo hi)
  case (Node s l r)
  then have "lo \<le> unat (sl_pos s)" "slice_end s \<le> hi" "unat (sl_pos s) \<le> slice_end s"
    using spans_le by (auto simp: slice_end_def)
  with Node show ?case by fastforce
qed simp

lemma unat_slice_end: "slice_end s < 2 ^ 32 \<Longrightarrow> unat (sl_pos s + sl_len s) = slice_end s"
  by (simp add: slice_end_def unat_add_lem [THEN iffD1])

lemma newSlice_hole:
  assumes "unat p \<le> hi" and "hi < 2 ^ 32" and "unat n = hi - unat p"
  shows "spans (unat p) (newSlice p 0 0 0 n) hi" "tree_at (newSlice p 0 0 0 n) q = None"
  using assms by (auto simp: newSlice_def slice_end_def slice_at_def piece_at_def simp flip: unat_eq_zero)

section \<open>Cutting\<close>

text \<open>Cutting splits a tree at a position: the left part ends there, the right part begins there, holes fill what
  the tree does not reach, and no position changes what it holds.\<close>

definition cut_ok :: "nat \<Rightarrow> slice_tree \<Rightarrow> nat \<Rightarrow> nat \<Rightarrow> slice_tree \<times> slice_tree \<Rightarrow> bool" where
  "cut_ok lo t hi p lr \<longleftrightarrow> spans (min lo p) (fst lr) p \<and> spans p (snd lr) (max hi p) \<and>
     (\<forall>q. tree_at (fst lr) q = (if q < p then tree_at t q else None)) \<and>
     (\<forall>q. tree_at (snd lr) q = (if q < p then None else tree_at t q))"

lemma unat_32: "unat (x :: 32 word) < 2 ^ 32"
  using unsigned_less [of x] by simp

lemma cut_ok_left:
  assumes "spans lo (Node s l r) hi" and "p \<le> unat (sl_pos s)" and "cut_ok lo0 l0 (unat (sl_pos s)) p lr"
    and "min lo0 p = min lo p" and "\<And>q. tree_at l0 q = tree_at l q"
  shows "cut_ok lo (Node s l r) hi p (fst lr, Node s (snd lr) r)"
proof -
  have "slice_end s \<le> hi" "unat (sl_pos s) \<le> slice_end s"
    using assms(1) spans_le by (auto simp: slice_end_def)
  then have "max hi p = hi" "max (unat (sl_pos s)) p = unat (sl_pos s)" using assms(2) by simp_all
  with assms show ?thesis by (auto simp: cut_ok_def)
qed

lemma cut_ok_right:
  assumes "spans lo (Node s l r) hi" and "slice_end s \<le> p" and "cut_ok (slice_end s) r0 hi0 p lr"
    and "max hi0 p = max hi p" and "\<And>q. tree_at r0 q = tree_at r q"
  shows "cut_ok lo (Node s l r) hi p (Node s l (fst lr), snd lr)"
proof -
  have "lo \<le> unat (sl_pos s)" "unat (sl_pos s) \<le> slice_end s"
    using assms(1) spans_le by (auto simp: slice_end_def)
  then have "min lo p = lo" "min (slice_end s) p = slice_end s" using assms(2) by simp_all
  with assms \<open>unat (sl_pos s) \<le> slice_end s\<close> show ?thesis by (auto simp: cut_ok_def)
qed

lemma cut_ok_middle:
  fixes p :: "32 word"
  assumes "spans lo (Node s l r) hi" and "unat (sl_pos s) < unat p" and "unat p < slice_end s"
  defines "d \<equiv> p - sl_pos s"
  shows "cut_ok lo (Node s l r) hi (unat p) (Node (s\<lparr>sl_len := d\<rparr>) l NilSlice,
    Node \<lparr>sl_id = sl_id s, sl_size = sl_size s, sl_off = sl_off s + d, sl_len = sl_len s - d, sl_pos = p\<rparr> NilSlice r)"
proof -
  have d: "unat d = unat p - unat (sl_pos s)"
    using assms(2) unfolding d_def by (simp add: unat_sub word_le_nat_alt)
  then have rest: "unat (sl_len s - d) = slice_end s - unat p"
    using assms(2,3) by (subst unat_sub) (auto simp: slice_end_def word_le_nat_alt)
  have "d \<noteq> 0" "sl_len s - d \<noteq> 0"
    using d rest assms(2,3) by (simp_all flip: unat_eq_zero)
  moreover have "lo \<le> unat (sl_pos s)" "slice_end s \<le> hi" using assms(1) spans_le by auto
  moreover have "sl_off s + d + of_nat (q - unat p) = sl_off s + of_nat (q - unat (sl_pos s))" if "unat p \<le> q" for q
  proof -
    have "q - unat (sl_pos s) = unat d + (q - unat p)" using d assms(2) that by simp
    then show ?thesis by simp
  qed
  ultimately show ?thesis
    using assms(1-3) d rest
    by (auto simp: cut_ok_def slice_end_def slice_at_def piece_at_def min_def max_def)
qed

lemma cut_case_left:
  assumes sp: "spans lo (Node s l r) hi" and a: "p \<le> sl_pos s"
    and l0: "l0 = (if l = NilSlice then newSlice p 0 0 0 (sl_pos s - p) else l)"
    and IH: "\<And>lo hi. spans lo l0 hi \<Longrightarrow> l0 \<noteq> NilSlice \<Longrightarrow> hi < 2 ^ 32 \<Longrightarrow> cut_ok lo l0 hi (unat p) (cut l0 p)"
  shows "cut_ok lo (Node s l r) hi (unat p) (fst (cut l0 p), Node s (snd (cut l0 p)) r)"
proof -
  define k where "k = (if l = NilSlice then unat p else lo)"
  have p: "unat p \<le> unat (sl_pos s)" and n: "unat (sl_pos s - p) = unat (sl_pos s) - unat p"
    using a by (simp_all add: word_le_nat_alt unat_sub)
  note hole = newSlice_hole [OF p unat_32 n]
  have sp0: "spans k l0 (unat (sl_pos s))" using sp hole(1) by (simp add: l0 k_def)
  have "cut_ok k l0 (unat (sl_pos s)) (unat p) (cut l0 p)"
  proof (cases "l0 = NilSlice")
    case True
    then have "sl_pos s = p" by (auto simp: l0 newSlice_def split: if_splits)
    with True sp0 show ?thesis by (simp add: cut_ok_def)
  qed (use IH [OF sp0] unat_32 in blast)
  moreover have "tree_at l0 q = tree_at l q" for q using hole(2) by (simp add: l0)
  moreover have "min k (unat p) = min lo (unat p)" using sp p by (auto simp: k_def)
  ultimately show ?thesis by (intro cut_ok_left [OF sp p])
qed

lemma cut_case_right:
  assumes sp: "spans lo (Node s l r) hi" and c: "\<not> p < sl_pos s + sl_len s" and hi: "hi < 2 ^ 32"
    and r0: "r0 = (if r = NilSlice then newSlice (sl_pos s + sl_len s) 0 0 0 (p - sl_pos s - sl_len s) else r)"
    and IH: "\<And>lo hi. spans lo r0 hi \<Longrightarrow> r0 \<noteq> NilSlice \<Longrightarrow> hi < 2 ^ 32 \<Longrightarrow> cut_ok lo r0 hi (unat p) (cut r0 p)"
  shows "cut_ok lo (Node s l r) hi (unat p) (Node s l (fst (cut r0 p)), snd (cut r0 p))"
proof -
  define k where "k = (if r = NilSlice then unat p else hi)"
  have e: "slice_end s < 2 ^ 32" using sp by simp
  have p: "slice_end s \<le> unat p" using c unat_slice_end [OF e] by (simp add: word_less_nat_alt)
  have "unat (p - (sl_pos s + sl_len s)) = unat p - slice_end s"
    using p unat_slice_end [OF e] by (simp add: unat_sub word_le_nat_alt)
  then have n: "unat (p - sl_pos s - sl_len s) = unat p - slice_end s" by (simp add: diff_diff_eq)
  note hole = newSlice_hole [of "sl_pos s + sl_len s" "unat p", unfolded unat_slice_end [OF e], OF p unat_32 n]
  have sp0: "spans (slice_end s) r0 k" using sp hole(1) by (simp add: r0 k_def)
  have k: "k < 2 ^ 32" using unat_32 hi by (simp only: k_def split: if_split) blast
  have "cut_ok (slice_end s) r0 k (unat p) (cut r0 p)"
  proof (cases "r0 = NilSlice")
    case True
    then have "r = NilSlice" "p - sl_pos s - sl_len s = 0" by (auto simp: r0 newSlice_def split: if_splits)
    then have "slice_end s = unat p" "k = unat p" using n p by (simp_all add: k_def)
    with True show ?thesis by (simp add: cut_ok_def)
  qed (use IH [OF sp0] k in blast)
  moreover have "tree_at r0 q = tree_at r q" for q using hole(2) by (simp add: r0)
  moreover have "max k (unat p) = max hi (unat p)" using sp p by (auto simp: k_def)
  ultimately show ?thesis by (intro cut_ok_right [OF sp p])
qed

lemma cut_spec: "spans lo t hi \<Longrightarrow> t \<noteq> NilSlice \<Longrightarrow> hi < 2 ^ 32 \<Longrightarrow> cut_ok lo t hi (unat p) (cut t p)"
proof (induction t p arbitrary: lo hi rule: cut.induct)
  case (2 s l r p)
  note sp = "2.prems"(1)
  consider (a) "p \<le> sl_pos s" | (b) "\<not> p \<le> sl_pos s" "p < sl_pos s + sl_len s"
    | (c) "\<not> p \<le> sl_pos s" "\<not> p < sl_pos s + sl_len s" by blast
  then show ?case
  proof cases
    case a
    show ?thesis using cut_case_left [OF sp a refl "2.IH"(1) [OF a refl]] a by (simp add: Let_def case_prod_beta)
  next
    case b
    then have m: "unat (sl_pos s) < unat p" "unat p < slice_end s"
      using unat_slice_end [of s] sp by (simp_all add: word_less_nat_alt word_le_nat_alt)
    then have "sl_len s - (p - sl_pos s) \<noteq> 0" by (auto simp: slice_end_def unat_sub word_le_nat_alt)
    then show ?thesis using cut_ok_middle [OF sp m] b by (simp add: Let_def newSlice_def)
  next
    case c
    show ?thesis
      using cut_case_right [OF sp c(2) "2.prems"(3) refl "2.IH"(2) [OF c refl]] c by (simp add: Let_def case_prod_beta)
  qed
qed simp

section \<open>Building\<close>

text \<open>The tree of a list of slices is empty or fills the interval from the first to the last position written.\<close>

definition writable :: "slice \<Rightarrow> bool" where
  "writable s \<longleftrightarrow> sl_len s \<noteq> 0 \<and> slice_end s < 2 ^ 32"

definition tree_ok :: "slice_tree \<Rightarrow> bool" where
  "tree_ok t \<longleftrightarrow> t = NilSlice \<or> (\<exists>lo hi. spans lo t hi \<and> hi < 2 ^ 32)"

lemma cut_upper:
  assumes "t = NilSlice \<or> spans lo t hi" and "hi < 2 ^ 32"
  shows "t = NilSlice \<or> spans (unat p) (snd (cut t p)) (max hi (unat p))"
    and "tree_at (snd (cut t p)) q = (if q < unat p then None else tree_at t q)"
  using assms cut_spec [of lo t hi p] by (cases "t = NilSlice"; simp add: cut_ok_def)+

lemma cut_lower:
  assumes "t = NilSlice \<or> spans lo t hi" and "hi < 2 ^ 32"
  shows "t = NilSlice \<or> spans (min lo (unat p)) (fst (cut t p)) (unat p)"
    and "tree_at (fst (cut t p)) q = (if q < unat p then tree_at t q else None)"
  using assms cut_spec [of lo t hi p] by (cases "t = NilSlice"; simp add: cut_ok_def)+

lemma build_step_ok:
  assumes "tree_ok t" and "writable s"
  shows "tree_ok (build_step t s)"
    and "tree_at (build_step t s) q = (if covers s q then slice_at s q else tree_at t q)"
proof -
  define p e where "p = sl_pos s" and "e = sl_pos s + sl_len s"
  obtain lo hi where t: "t = NilSlice \<or> spans lo t hi" "hi < 2 ^ 32"
    using assms(1) by (auto simp: tree_ok_def intro: that [of 0 0])
  have e: "unat e = slice_end s" using assms(2) unat_slice_end by (simp add: e_def writable_def)
  define l rgt where "l = fst (cut t p)" and "rgt = snd (cut t p)"
  define r where "r = snd (cut rgt e)"
  have step: "build_step t s = Node s l r"
    by (simp add: build_step_def p_def e_def l_def rgt_def r_def case_prod_beta)
  have hi': "max hi (unat p) < 2 ^ 32" using t(2) unat_32 [of p] by simp
  have rgt: "rgt = NilSlice \<or> spans (unat p) rgt (max hi (unat p))"
    using cut_upper(1) [OF t, of p] by (auto simp: rgt_def)
  note at = cut_lower(2) [OF t, of p, folded l_def] cut_upper(2) [OF t, of p, folded rgt_def]
    cut_upper(2) [OF rgt hi', of e, folded r_def]
  have "unat p \<le> slice_end s" by (simp add: p_def slice_end_def)
  then show "tree_at (build_step t s) q = (if covers s q then slice_at s q else tree_at t q)"
    using at e by (auto simp: step covers_def p_def)
  show "tree_ok (build_step t s)"
  proof (cases "t = NilSlice")
    case True
    then have "build_step t s = Node s NilSlice NilSlice" by (simp add: build_step_def)
    then have "spans (unat (sl_pos s)) (build_step t s) (slice_end s)" using assms(2) by (simp add: writable_def)
    then show ?thesis using assms(2) unfolding tree_ok_def writable_def by blast
  next
    case False
    then have "spans (min lo (unat p)) l (unat p)" using cut_lower(1) [OF t, of p] by (simp add: l_def)
    moreover have "\<exists>h. spans (slice_end s) r h \<and> h < 2 ^ 32"
    proof (cases "rgt = NilSlice")
      case True
      then show ?thesis using assms(2) by (auto simp: r_def writable_def)
    next
      case False
      then show ?thesis
        using cut_upper(1) [OF rgt hi', of e] hi' unat_32 [of e] e by (auto simp: r_def)
    qed
    ultimately show ?thesis using assms(2) by (auto simp: step tree_ok_def writable_def p_def)
  qed
qed

lemma build_ok:
  assumes "list_all writable ss"
  shows "tree_ok (foldl build_step NilSlice ss)"
    and "tree_at (foldl build_step NilSlice ss) q = latest ss q"
proof -
  have *: "tree_ok (foldl build_step t ss) \<and> tree_at (foldl build_step t ss) q =
      (if list_ex (\<lambda>s. covers s q) ss then latest ss q else tree_at t q)" if "tree_ok t" for t
    using assms that
    by (induction ss arbitrary: t) (auto simp: build_step_ok)
  have none: "\<not> list_ex (\<lambda>s. covers s q) ss \<Longrightarrow> latest ss q = None"
    by (induction ss) auto
  show "tree_ok (foldl build_step NilSlice ss)" "tree_at (foldl build_step NilSlice ss) q = latest ss q"
    using * [of NilSlice] none by (auto simp: tree_ok_def)
qed

section \<open>Listing\<close>

definition total_len :: "Slice list \<Rightarrow> nat" where
  "total_len cs = sum_list (map (\<lambda>c. unat (S_Len c)) cs)"

lemma chunk_at_append: "chunk_at (cs @ ds) q = (if q < total_len cs then chunk_at cs q else chunk_at ds (q - total_len cs))"
  by (induction cs arbitrary: q) (auto simp: total_len_def)

lemma chunk_at_beyond: "total_len cs \<le> q \<Longrightarrow> chunk_at cs q = None"
  by (induction cs arbitrary: q) (auto simp: total_len_def)

text \<open>After listing a part of a tree, the pieces so far have the length of the position reached and hold what the
  part holds.\<close>

lemma total_len_simps [simp]: "total_len [] = 0" "total_len (cs @ ds) = total_len cs + total_len ds" "total_len (c # cs) = unat (S_Len c) + total_len cs"
  by (simp_all add: total_len_def)

lemma append_slice_next:
  assumes "total_len cs = unat pos" and "sl_pos s = pos" and "slice_end s < 2 ^ 32"
  shows "append_slice s (pos, cs) = (pos + sl_len s, cs @ [\<lparr>S_Id = sl_id s, S_Size = sl_size s, S_Off = sl_off s, S_Len = sl_len s\<rparr>])"
    and "unat (pos + sl_len s) = slice_end s"
  using assms unat_slice_end [of s] by (auto simp: append_slice_def)

lemma visit_spans:
  assumes "spans lo t hi" and "total_len cs = lo" and "unat pos = lo"
  shows "\<exists>pos' ds. visit t append_slice (pos, cs) = (pos', cs @ ds) \<and> unat pos' = hi \<and> lo + total_len ds = hi \<and>
    (\<forall>q. lo \<le> q \<longrightarrow> chunk_at ds (q - lo) = tree_at t q)"
  using assms
proof (induction t arbitrary: lo hi pos cs)
  case (Node s l r)
  let ?c = "\<lparr>S_Id = sl_id s, S_Size = sl_size s, S_Off = sl_off s, S_Len = sl_len s\<rparr>"
  from Node.IH(1) [of lo "unat (sl_pos s)" cs pos] Node.prems obtain p1 d1 where
    l: "visit l append_slice (pos, cs) = (p1, cs @ d1)" "unat p1 = unat (sl_pos s)" "lo + total_len d1 = unat (sl_pos s)"
      "\<And>q. lo \<le> q \<Longrightarrow> chunk_at d1 (q - lo) = tree_at l q" by auto
  have p1: "sl_pos s = p1" using l(2) by (simp add: word_unat_eq_iff)
  have "total_len (cs @ d1) = unat p1" "slice_end s < 2 ^ 32" using l(2,3) Node.prems by simp_all
  note s = append_slice_next [OF this(1) p1 this(2)]
  have "total_len ((cs @ d1) @ [?c]) = slice_end s" using l(3) Node.prems by (simp add: slice_end_def)
  moreover have "spans (slice_end s) r hi" using Node.prems by simp
  ultimately obtain p2 d2 where
    r: "visit r append_slice (p1 + sl_len s, (cs @ d1) @ [?c]) = (p2, ((cs @ d1) @ [?c]) @ d2)" "unat p2 = hi"
      "slice_end s + total_len d2 = hi" "\<And>q. slice_end s \<le> q \<Longrightarrow> chunk_at d2 (q - slice_end s) = tree_at r q"
    using Node.IH(2) [OF _ _ s(2)] by blast
  have "chunk_at (d1 @ ?c # d2) (q - lo) = tree_at (Node s l r) q" if q: "lo \<le> q" for q
  proof -
    have "q - lo - total_len d1 = q - unat (sl_pos s)" "q - lo < total_len d1 \<longleftrightarrow> q < unat (sl_pos s)" using l(3) q by auto
    then show ?thesis using l(4) [OF q] r(4) [of q] by (auto simp: chunk_at_append slice_end_def slice_at_def)
  qed
  moreover have "lo + total_len (d1 @ ?c # d2) = hi" using l(3) r(3) by (simp add: slice_end_def)
  moreover have "visit (Node s l r) append_slice (pos, cs) = (p2, cs @ (d1 @ ?c # d2))" using l(1) s(1) r(1) by simp
  ultimately show ?case using r(2) by blast
qed simp

text \<open>The hole before the first slice is listed first.\<close>

definition hole :: "nat \<Rightarrow> Slice" where
  "hole n = \<lparr>S_Id = 0, S_Size = of_nat n, S_Off = 0, S_Len = of_nat n\<rparr>"

lemma visit_leading_hole:
  assumes "spans lo t hi" and "t \<noteq> NilSlice" and "0 < lo"
  shows "visit t append_slice (0, []) = visit t append_slice (of_nat lo, [hole lo])"
  using assms
proof (induction t arbitrary: hi)
  case (Node s l r)
  show ?case
  proof (cases "l = NilSlice")
    case True
    then have "sl_pos s = of_nat lo" "sl_pos s \<noteq> 0" using Node.prems by auto
    then show ?thesis using True by (simp add: append_slice_def hole_def word_gt_0)
  next
    case False
    then have "visit l append_slice (0, []) = visit l append_slice (of_nat lo, [hole lo])"
      using Node.IH(1) [of "unat (sl_pos s)"] Node.prems by simp
    then show ?thesis by simp
  qed
qed simp

lemma unat_of_nat_32: "n < 2 ^ 32 \<Longrightarrow> unat (of_nat n :: 32 word) = n"
  by (simp add: unsigned_of_nat take_bit_nat_eq_self)

lemma chunk_at_hole: "lo < 2 ^ 32 \<Longrightarrow> chunk_at (hole lo # cs) q = (if q < lo then None else chunk_at cs (q - lo))"
  by (simp add: hole_def piece_at_def unat_of_nat_32)

lemma buildSlice_content:
  assumes "list_all writable ss"
  shows "chunk_at (buildSlice ss) q = latest ss q" and "total_len (buildSlice ss) < 2 ^ 32"
proof -
  define t where "t = foldl build_step NilSlice ss"
  have at: "tree_at t q = latest ss q" for q using build_ok(2) [OF assms] by (simp add: t_def)
  have b: "buildSlice ss = snd (visit t append_slice (0, []))" by (simp add: buildSlice_def t_def)
  have "chunk_at (buildSlice ss) q = latest ss q \<and> total_len (buildSlice ss) < 2 ^ 32"
  proof (cases "t = NilSlice")
    case True
    then show ?thesis using at [of q] b by simp
  next
    case False
    then obtain lo hi where t: "spans lo t hi" "hi < 2 ^ 32" using build_ok(1) [OF assms] by (auto simp: tree_ok_def t_def)
    have lo: "lo < 2 ^ 32" using t spans_le by fastforce
    define cs where "cs = (if lo = 0 then [] else [hole lo])"
    have cs: "total_len cs = lo" "unat (of_nat lo :: 32 word) = lo"
      using lo by (simp_all add: cs_def hole_def unat_of_nat_32)
    have "visit t append_slice (0, []) = visit t append_slice (of_nat lo, cs)"
      using visit_leading_hole [OF t(1) False] by (simp add: cs_def)
    then obtain ds where ds: "buildSlice ss = cs @ ds" "lo + total_len ds = hi"
      "\<And>q. lo \<le> q \<Longrightarrow> chunk_at ds (q - lo) = tree_at t q"
      using visit_spans [OF t(1) cs] b by auto
    have "chunk_at (cs @ ds) q = tree_at t q"
    proof (cases "q < lo")
      case True
      then show ?thesis using tree_at_outside [OF t(1)] lo by (simp add: cs_def chunk_at_hole del: chunk_at.simps)
    next
      case False
      then show ?thesis using ds(3) [of q] cs(1) by (simp add: chunk_at_append)
    qed
    then show ?thesis using ds(1,2) cs(1) t(2) at by simp
  qed
  then show "chunk_at (buildSlice ss) q = latest ss q" "total_len (buildSlice ss) < 2 ^ 32" by auto
qed

text \<open>When the first slice spans the whole chunk, the list does too.\<close>

lemma build_step_spans:
  assumes "spans 0 t hi" and "hi < 2 ^ 32" and "writable s" and "slice_end s \<le> hi"
  shows "spans 0 (build_step t s) hi"
proof -
  define p e where "p = sl_pos s" and "e = sl_pos s + sl_len s"
  have e: "unat e = slice_end s" using assms(3) unat_slice_end by (simp add: e_def writable_def)
  have lt: "unat p < slice_end s" using assms(3) unat_gt_0 [of "sl_len s"] by (simp add: p_def slice_end_def writable_def)
  then have "t \<noteq> NilSlice" using assms(1,4) by auto
  from cut_spec [OF assms(1) this assms(2), of p] have l: "spans 0 (fst (cut t p)) (unat p)" and r: "spans (unat p) (snd (cut t p)) hi"
    using lt assms(4) by (simp_all add: cut_ok_def)
  from r lt assms(4) have "snd (cut t p) \<noteq> NilSlice" by auto
  from cut_spec [OF r this assms(2), of e] have "spans (slice_end s) (snd (cut (snd (cut t p)) e)) hi"
    using e assms(4) by (simp add: cut_ok_def)
  with l assms(3) show ?thesis by (simp add: build_step_def case_prod_beta p_def e_def writable_def)
qed

lemma buildSlice_full:
  assumes "list_all (\<lambda>s. writable s \<and> slice_end s \<le> n) ss" and "writable h" and "sl_pos h = 0" and "slice_end h = n"
  shows "total_len (buildSlice (h # ss)) = n"
proof -
  have n: "n < 2 ^ 32" using assms(2,4) by (simp add: writable_def)
  have "spans 0 (foldl build_step t ss) n" if "spans 0 t n" for t
    using assms(1) that by (induction ss arbitrary: t) (auto intro: build_step_spans [OF _ n])
  moreover have "spans 0 (build_step NilSlice h) n" using assms(2-4) by (simp add: build_step_def writable_def)
  ultimately have "spans 0 (foldl build_step NilSlice (h # ss)) n" by simp
  from visit_spans [OF this, of "[]" 0] show ?thesis by (auto simp: buildSlice_def)
qed

text \<open>Every piece is a part of a slice, or a hole, and not empty.\<close>

definition comes_from :: "slice set \<Rightarrow> 64 word \<Rightarrow> 32 word \<Rightarrow> bool" where
  "comes_from S i size1 \<longleftrightarrow> i = 0 \<or> (\<exists>s \<in> S. sl_id s = i \<and> sl_size s = size1)"

lemma comes_from_hole: "comes_from S 0 n"
  by (simp add: comes_from_def)

fun tree_from :: "slice set \<Rightarrow> slice_tree \<Rightarrow> bool" where
  "tree_from S NilSlice = True"
| "tree_from S (Node s l r) = (comes_from S (sl_id s) (sl_size s) \<and> sl_len s \<noteq> 0 \<and> tree_from S l \<and> tree_from S r)"

lemma cut_from: "tree_from S t \<Longrightarrow> tree_from S (fst (cut t p)) \<and> tree_from S (snd (cut t p))"
proof (induction t p rule: cut.induct)
  case (2 s l r p)
  from 2 comes_from_hole show ?case
    by (auto simp: Let_def case_prod_beta newSlice_def split: slice_tree.splits if_splits)
qed simp

lemma build_from: "tree_from S t \<Longrightarrow> set ss \<subseteq> S \<Longrightarrow> \<forall>s \<in> set ss. sl_len s \<noteq> 0 \<Longrightarrow> tree_from S (foldl build_step t ss)"
proof (induction ss arbitrary: t)
  case (Cons s ss)
  have "comes_from S (sl_id s) (sl_size s)" "sl_len s \<noteq> 0" using Cons.prems(2,3) by (auto simp: comes_from_def)
  then have "tree_from S (build_step t s)" using cut_from [OF Cons.prems(1)] cut_from by (auto simp: build_step_def case_prod_beta)
  from Cons.IH [OF this] Cons.prems(2,3) show ?case by simp
qed simp

lemma visit_from:
  "tree_from S t \<Longrightarrow> \<forall>c \<in> set cs. comes_from S (S_Id c) (S_Size c) \<and> S_Len c \<noteq> 0 \<Longrightarrow>
     \<forall>c \<in> set (snd (visit t append_slice (pos, cs))). comes_from S (S_Id c) (S_Size c) \<and> S_Len c \<noteq> 0"
proof (induction t arbitrary: pos cs)
  case (Node s l r)
  obtain p1 c1 where v: "visit l append_slice (pos, cs) = (p1, c1)" by fastforce
  with Node.IH(1) [of cs pos] Node.prems have c1: "\<forall>c \<in> set c1. comes_from S (S_Id c) (S_Size c) \<and> S_Len c \<noteq> 0" by simp
  obtain p2 c2 where a: "append_slice s (p1, c1) = (p2, c2)" by fastforce
  then have "\<forall>c \<in> set c2. comes_from S (S_Id c) (S_Size c) \<and> S_Len c \<noteq> 0"
    using c1 Node.prems(1) comes_from_hole by (auto simp: append_slice_def split: if_splits)
  with Node.IH(2) [of c2 p2] Node.prems(1) show ?case by (simp add: v a)
qed simp

lemma buildSlice_from:
  assumes "list_all writable ss" and "c \<in> set (buildSlice ss)"
  shows "comes_from (set ss) (S_Id c) (S_Size c)" "S_Len c \<noteq> 0"
  using visit_from [OF build_from [of "set ss" NilSlice ss], of "[]" 0] assms by (auto simp: buildSlice_def list_all_iff writable_def)

section \<open>Compaction\<close>

definition same_from :: "nat \<Rightarrow> Slice list \<Rightarrow> nat \<Rightarrow> Slice list \<Rightarrow> bool" where
  "same_from a cs b ds \<longleftrightarrow> a \<le> b \<and> b + total_len ds \<le> a + total_len cs \<and>
     (\<forall>q. (if q < a then None else chunk_at cs (q - a)) = (if q < b then None else chunk_at ds (q - b)))"

lemma same_from_refl: "same_from a cs a cs"
  by (simp add: same_from_def)

lemma same_from_trans: "same_from a cs b ds \<Longrightarrow> same_from b ds c es \<Longrightarrow> same_from a cs c es"
  by (simp add: same_from_def)

lemma same_from_drop_first:
  assumes "S_Id c = 0"
  shows "same_from a (c # cs) (a + unat (S_Len c)) cs"
  using assms by (auto simp: same_from_def piece_at_def diff_diff_add)

lemma same_from_drop_last:
  assumes "S_Id (last cs) = 0" and "cs \<noteq> []"
  shows "same_from a cs a (butlast cs)"
proof -
  obtain ds c where "cs = ds @ [c]" "S_Id c = 0" using assms by (metis append_butlast_last_id)
  then show ?thesis by (auto simp: same_from_def chunk_at_append piece_at_def chunk_at_beyond)
qed

lemma trim_holes_same:
  assumes "unat pos + total_len cs < 2 ^ 32" and "trim_holes pos cs = (pos', ds)"
  shows "same_from (unat pos) cs (unat pos') ds \<and>
    (length ds > 1 \<longrightarrow> S_Id (hd ds) \<noteq> 0 \<and> S_Id (last ds) \<noteq> 0)"
  using assms
proof (induction pos cs rule: trim_holes.induct)
  case (1 pos cs)
  note step = "1.prems"(2) [unfolded trim_holes.simps [of pos cs]]
  show ?case
  proof (cases "length cs > 1")
    case True
    then obtain c cs' where cs: "cs = c # cs'" "cs' \<noteq> []" by (cases cs) auto
    consider (a) "S_Id c = 0" | (b) "S_Id c \<noteq> 0" "S_Id (last cs) = 0" | (d) "S_Id c \<noteq> 0" "S_Id (last cs) \<noteq> 0" by blast
    then show ?thesis
    proof cases
      case a
      have u: "unat (pos + S_Len c) = unat pos + unat (S_Len c)"
        using "1.prems"(1) cs by (intro unat_add_lem [THEN iffD1]) simp
      have "same_from (unat (pos + S_Len c)) cs' (unat pos') ds \<and>
          (length ds > 1 \<longrightarrow> S_Id (hd ds) \<noteq> 0 \<and> S_Id (last ds) \<noteq> 0)"
        using "1.IH"(1) [OF True] "1.prems"(1) step a cs True u by simp
      then show ?thesis using same_from_drop_first [OF a, of "unat pos" cs'] same_from_trans cs u by metis
    next
      case b
      have "total_len (butlast cs) \<le> total_len cs" using same_from_drop_last [OF b(2)] cs by (simp add: same_from_def)
      then have "same_from (unat pos) (butlast cs) (unat pos') ds \<and>
          (length ds > 1 \<longrightarrow> S_Id (hd ds) \<noteq> 0 \<and> S_Id (last ds) \<noteq> 0)"
        using "1.IH"(2) [OF True] "1.prems"(1) step b cs True by simp
      then show ?thesis using same_from_drop_last [OF b(2)] same_from_trans cs by blast
    next
      case d
      then have "ds = cs" "pos' = pos" using step True cs by simp_all
      then show ?thesis using d cs by (simp add: same_from_refl)
    qed
  qed (use step in \<open>simp add: same_from_refl\<close>)
qed

lemma unat_sum_32:
  "sum_list (map unat ws) < 2 ^ 32 \<Longrightarrow> unat (sum_list ws :: 32 word) = sum_list (map unat ws)"
  by (induction ws) (auto simp: unat_add_lem [THEN iffD1])

lemma unat_sum_total: "total_len cs < 2 ^ 32 \<Longrightarrow> unat (sum_list (map S_Len cs)) = total_len cs"
  using unat_sum_32 [of "map S_Len cs"] by (simp add: total_len_def comp_def)

lemma compactChunk_content:
  assumes "list_all writable ss" and "compactChunk ss = (pos, sz, cs)"
  shows "latest ss q = (if q < unat pos then None else chunk_at cs (q - unat pos))"
    and "unat sz = total_len cs" and "length cs > 1 \<Longrightarrow> S_Id (hd cs) \<noteq> 0 \<and> S_Id (last cs) \<noteq> 0"
proof -
  obtain ds where ds: "trim_holes 0 (buildSlice ss) = (pos, ds)"
    and cs: "cs = (case ds of [c] \<Rightarrow> if S_Id c = 0 then [c\<lparr>S_Len := 1\<rparr>] else [c] | _ \<Rightarrow> ds)" and sz: "sz = sum_list (map S_Len cs)"
    using assms(2) by (auto simp: compactChunk_def Let_def split: prod.splits)
  note b = buildSlice_content [OF assms(1)]
  have same: "same_from 0 (buildSlice ss) (unat pos) ds" and ends: "length ds > 1 \<Longrightarrow> S_Id (hd ds) \<noteq> 0 \<and> S_Id (last ds) \<noteq> 0"
    using trim_holes_same [OF _ ds] b(2) by simp_all
  have at: "chunk_at cs q = chunk_at ds q" for q by (auto simp: cs piece_at_def split: list.split)
  show "latest ss q = (if q < unat pos then None else chunk_at cs (q - unat pos))"
    using same b(1) [of q] at by (auto simp: same_from_def split: if_splits)
  have "total_len ds < 2 ^ 32" using same b(2) by (simp add: same_from_def)
  then have "total_len cs < 2 ^ 32" by (auto simp: cs split: list.split)
  then show "unat sz = total_len cs" by (simp add: sz unat_sum_total)
  show "S_Id (hd cs) \<noteq> 0 \<and> S_Id (last cs) \<noteq> 0" if "length cs > 1"
    using that ends by (auto simp: cs split: list.splits if_splits)
qed

text \<open>The compacted chunk does not reach beyond the slices.\<close>

definition ends_within :: "nat \<Rightarrow> slice_tree \<Rightarrow> bool" where
  "ends_within n t \<longleftrightarrow> t = NilSlice \<or> (\<exists>lo hi. spans lo t hi \<and> hi \<le> n)"

lemma build_step_within:
  assumes "ends_within n t" and "n < 2 ^ 32" and "writable s" and "slice_end s \<le> n"
  shows "ends_within n (build_step t s)"
proof (cases "t = NilSlice")
  case True
  then have "spans (unat (sl_pos s)) (build_step t s) (slice_end s)" using assms(3) by (simp add: build_step_def writable_def)
  then show ?thesis using assms(4) by (auto simp: ends_within_def)
next
  case False
  then obtain lo hi where t: "spans lo t hi" "hi \<le> n" using assms(1) by (auto simp: ends_within_def)
  define p e where "p = sl_pos s" and "e = sl_pos s + sl_len s"
  have e: "unat e = slice_end s" using assms(3) unat_slice_end by (simp add: e_def writable_def)
  have p: "unat p \<le> n" using assms(4) by (simp add: p_def slice_end_def)
  have hi: "hi < 2 ^ 32" "max hi (unat p) < 2 ^ 32" using t(2) assms(2) p by simp_all
  from cut_spec [OF t(1) False hi(1), of p] have l: "spans (min lo (unat p)) (fst (cut t p)) (unat p)"
    and r: "spans (unat p) (snd (cut t p)) (max hi (unat p))" by (simp_all add: cut_ok_def)
  have "\<exists>h. spans (slice_end s) (snd (cut (snd (cut t p)) e)) h \<and> h \<le> n"
  proof (cases "snd (cut t p) = NilSlice")
    case True
    then show ?thesis using assms(4) by auto
  next
    case nn: False
    from cut_spec [OF r nn hi(2), of e] show ?thesis using e t(2) p assms(4) by (auto simp: cut_ok_def)
  qed
  then obtain h where "spans (slice_end s) (snd (cut (snd (cut t p)) e)) h" "h \<le> n" by blast
  with l assms(3) have "spans (min lo (unat p)) (build_step t s) h"
    by (simp add: build_step_def case_prod_beta p_def e_def writable_def)
  with \<open>h \<le> n\<close> show ?thesis by (auto simp: ends_within_def)
qed

lemma buildSlice_within:
  assumes "list_all (\<lambda>s. writable s \<and> slice_end s \<le> n) ss" and "n < 2 ^ 32"
  shows "total_len (buildSlice ss) \<le> n"
proof -
  define t where "t = foldl build_step NilSlice ss"
  have "ends_within n (foldl build_step t ss)" if "ends_within n t" for t
    using assms(1) that by (induction ss arbitrary: t) (auto intro: build_step_within [OF _ assms(2)])
  then have w: "ends_within n t" by (simp add: t_def ends_within_def)
  have b: "buildSlice ss = snd (visit t append_slice (0, []))" by (simp add: buildSlice_def t_def)
  show ?thesis
  proof (cases "t = NilSlice")
    case False
    then obtain lo hi where t: "spans lo t hi" "hi \<le> n" using w by (auto simp: ends_within_def)
    have lo: "lo < 2 ^ 32" using t spans_le assms(2) by fastforce
    define cs where "cs = (if lo = 0 then [] else [hole lo])"
    have cs: "total_len cs = lo" "unat (of_nat lo :: 32 word) = lo" using lo by (simp_all add: cs_def hole_def unat_of_nat_32)
    have "visit t append_slice (0, []) = visit t append_slice (of_nat lo, cs)"
      using visit_leading_hole [OF t(1) False] by (simp add: cs_def)
    then show ?thesis using visit_spans [OF t(1) cs] b t(2) cs(1) by auto
  qed (simp add: b)
qed

lemma trim_holes_subset: "trim_holes pos cs = (pos', ds) \<Longrightarrow> set ds \<subseteq> set cs"
proof (induction pos cs rule: trim_holes.induct)
  case (1 pos cs)
  have "set (tl cs) \<subseteq> set cs" "set (butlast cs) \<subseteq> set cs" by (cases cs) (auto dest: in_set_butlastD)
  with 1 show ?case by (auto simp: trim_holes.simps [of pos cs] split: if_splits)
qed

lemma compactChunk_within:
  assumes "list_all (\<lambda>s. writable s \<and> slice_end s \<le> n) ss" and "n < 2 ^ 32" and "compactChunk ss = (pos, sz, cs)"
  shows "unat pos + unat sz \<le> n" and "c \<in> set cs \<Longrightarrow> comes_from (set ss) (S_Id c) (S_Size c)"
proof -
  have wr: "list_all writable ss" using assms(1) by (simp add: list_all_iff)
  obtain ds where ds: "trim_holes 0 (buildSlice ss) = (pos, ds)"
    and cs: "cs = (case ds of [c] \<Rightarrow> if S_Id c = 0 then [c\<lparr>S_Len := 1\<rparr>] else [c] | _ \<Rightarrow> ds)"
    using assms(3) by (auto simp: compactChunk_def Let_def split: prod.splits)
  have sub: "set ds \<subseteq> set (buildSlice ss)" by (rule trim_holes_subset [OF ds])
  have same: "unat pos + total_len ds \<le> total_len (buildSlice ss)"
    using trim_holes_same [OF _ ds] buildSlice_content(2) [OF wr] by (simp add: same_from_def)
  have "total_len cs \<le> total_len ds"
  proof (cases "\<exists>c. ds = [c] \<and> S_Id c = 0")
    case True
    then obtain c where c: "ds = [c]" "S_Id c = 0" by blast
    then have "S_Len c \<noteq> 0" using sub buildSlice_from(2) [OF wr, of c] by simp
    then have "0 < unat (S_Len c)" by (simp add: unat_gt_0)
    with c cs show ?thesis by simp
  next
    case False
    then show ?thesis by (auto simp: cs split: list.split)
  qed
  then show "unat pos + unat sz \<le> n"
    using same buildSlice_within [OF assms(1,2)] compactChunk_content(2) [OF wr assms(3)] by linarith
  have "\<exists>d \<in> set ds. S_Id c = S_Id d \<and> S_Size c = S_Size d" if "c \<in> set cs" using that by (auto simp: cs split: list.splits if_splits)
  then show "c \<in> set cs \<Longrightarrow> comes_from (set ss) (S_Id c) (S_Size c)" using sub buildSlice_from(1) [OF wr] by auto
qed

section \<open>Properties\<close>

text \<open>C10: A read sees the last write. For slices that are not empty and end within 32 bits, the list
  built for a chunk holds, at every position, the byte of the newest slice that covers it, or a hole.\<close>

theorem buildSlice_reads_latest_write:
  assumes "list_all writable ss"
  shows "chunk_at (buildSlice ss) q = latest ss q"
  using buildSlice_content(1) [OF assms] .

definition written :: "nat \<Rightarrow> nat \<Rightarrow> nat \<Rightarrow> slice" where
  "written i p n = \<lparr>sl_id = of_nat i, sl_size = of_nat n, sl_off = 0, sl_len = of_nat n, sl_pos = of_nat p\<rparr>"

lemma writable_written: "0 < n \<Longrightarrow> p + n < 2 ^ 32 \<Longrightarrow> writable (written i p n)"
  by (simp add: writable_def written_def slice_end_def unat_of_nat_32 flip: unat_eq_zero)

theorem buildSlice_reads_latest_write_witness:
  "chunk_at (buildSlice [written 1 0 100, written 2 40 20]) 50 = Some (2, 10)"
  using buildSlice_reads_latest_write [of "[written 1 0 100, written 2 40 20]" 50]
  by (simp add: writable_def covers_def slice_end_def slice_at_def piece_at_def written_def)

text \<open>C11: Compaction loses nothing: the compacted chunk starts at the position returned, has the size returned,
  and holds at every position what the slices held; only holes at its ends are left out.\<close>

theorem compactChunk_preserves_content:
  assumes "list_all writable ss" and "compactChunk ss = (pos, sz, cs)"
  shows "(\<forall>q. latest ss q = (if q < unat pos then None else chunk_at cs (q - unat pos))) \<and>
    unat sz = total_len cs \<and> (length cs > 1 \<longrightarrow> S_Id (hd cs) \<noteq> 0 \<and> S_Id (last cs) \<noteq> 0)"
  using compactChunk_content [OF assms] by blast

theorem compactChunk_preserves_content_witness:
  "case compactChunk [written 1 0 100, written 2 40 20] of (pos, sz, cs) \<Rightarrow> unat sz = total_len cs"
  using compactChunk_preserves_content [of "[written 1 0 100, written 2 40 20]"]
  by (auto simp: writable_written split: prod.split)

text \<open>One round of \<open>skipSome\<close>: the slice at the front is skipped only when it is the first piece of its chunk.\<close>

definition skippable :: "slice list \<Rightarrow> nat \<Rightarrow> bool" where
  "skippable chunk i \<longleftrightarrow> (\<exists>sz c. compactChunk (drop i chunk) = (sl_pos (chunk ! i), sz, c) \<and> c \<noteq> [] \<and>
     S_Id (hd c) = sl_id (chunk ! i) \<and> S_Off (hd c) = sl_off (chunk ! i) \<and> S_Len (hd c) = sl_len (chunk ! i))"

lemma compactChunk_size: "compactChunk ss = (pos, sz, c) \<Longrightarrow> sz = sum_list (map S_Len c)"
  by (auto simp: compactChunk_def Let_def split: prod.splits)

lemma skip_from_cases:
  "skip_from chunk k = k \<or> (k < length chunk \<and> skippable chunk k \<and> skip_from chunk k = skip_from chunk (k + 1))"
proof (cases "k < length chunk")
  case True
  obtain pos sz c where cc: "compactChunk (drop k chunk) = (pos, sz, c)" by (metis prod_cases3)
  have hd: "hd (drop k chunk) = chunk ! k" using True by (simp add: hd_drop_conv_nth)
  show ?thesis
    using True compactChunk_size [OF cc]
    by (subst (1 2) skip_from.simps) (auto simp: cc hd Let_def skippable_def)
qed (simp add: skip_from.simps)

lemma skip_from_skippable:
  assumes "k \<le> i" and "i < skip_from chunk k"
  shows "i < length chunk \<and> skippable chunk i"
  using assms
proof (induction "length chunk - k" arbitrary: k)
  case 0
  then show ?case using skip_from_cases [of chunk k] by auto
next
  case (Suc n)
  from skip_from_cases [of chunk k] Suc.prems have step: "k < length chunk" "skippable chunk k"
    "skip_from chunk k = skip_from chunk (k + 1)" by auto
  show ?case
  proof (cases "i = k")
    case False
    then show ?thesis using Suc.hyps(1) [of "k + 1"] Suc.hyps(2) Suc.prems step(3) by simp
  qed (use step in simp)
qed

text \<open>Compaction skips only slices that are whole. A slice that \<open>skipSome\<close> leaves out is still visible in every
  byte, no newer slice hides a part of it, and before it nothing newer is visible.\<close>

lemma skipSome_skips_whole_slices:
  assumes "list_all writable chunk" and "i < skipSome chunk"
  shows "i < length chunk \<and>
    (\<forall>q. covers (chunk ! i) q \<longrightarrow> latest (drop i chunk) q = slice_at (chunk ! i) q) \<and>
    (\<forall>q. q < unat (sl_pos (chunk ! i)) \<longrightarrow> latest (drop i chunk) q = None)"
proof -
  let ?s = "chunk ! i"
  have i: "i < length chunk" "skippable chunk i"
    using skip_from_skippable [of 0 i chunk] assms(2) by (simp_all add: skipSome_def)
  then obtain sz c where c: "compactChunk (drop i chunk) = (sl_pos ?s, sz, c)" "c \<noteq> []"
    "S_Id (hd c) = sl_id ?s" "S_Off (hd c) = sl_off ?s" "S_Len (hd c) = sl_len ?s" by (auto simp: skippable_def)
  have "list_all writable (drop i chunk)" using assms(1) by (auto simp: list_all_iff dest: in_set_dropD)
  note at = compactChunk_content(1) [OF this c(1)]
  have "latest (drop i chunk) q = slice_at ?s q" if "covers ?s q" for q
    using at [of q] that c(2-5) by (cases c) (auto simp: covers_def slice_end_def slice_at_def)
  with i(1) at show ?thesis by simp
qed

text \<open>Slices read back as they were stored: a marshalled slice has 24 bytes, and both readers return the slices
  that were written, without a panic.\<close>

lemma slices_read_back:
  "marshalSlice s = Some (slice_bytes s) \<and> length (slice_bytes s) = sliceBytes \<and>
   readSlices (map slice_bytes ss) = Some (Some ss) \<and>
   readSliceBuf (concat (map slice_bytes ss)) = Some (Some ss)"
proof -
  have "read_from (length ss) (concat (map slice_bytes ss)) = Some ss" using read_from_concat [of ss "[]"] by simp
  then show ?thesis
    by (simp add: marshalSlice_eq readSlices_eq readSliceBuf_def length_concat_slice_bytes sliceBytes_def
        del: length_concat)
qed

end
