(* ===== verification/JFS_Open.thy ===== *)
theory JFS_Open
  imports JFS_Attr JFS_Slices Go_Prelude "HOL-Library.AList"
begin

text \<open>
  The cache of open files (pkg/meta/openfile.go): for every open inode its attributes, the number of its handles and
  the slices of the chunks that were read. The mutex of the cache makes each method one step. The map of files is an
  association list; \<open>ord\<close> is the order in which Go visits it. Slices that are nil are the empty list, which
  \<open>buildSlice\<close> never returns for a chunk that is cached. The locale \<open>chunk_cache\<close> is what the reads and writes of a
  file need of the cache.
\<close>

section \<open>Open files\<close>

definition invalidateAllChunks :: "32 word" where "invalidateAllChunks = 0xFFFFFFFF"
definition invalidateAttrOnly :: "32 word" where "invalidateAttrOnly = 0xFFFFFFFE"

record openFile =
  of_attr :: Attr
  of_refs :: int
  of_lastCheck :: int
  of_first :: "Slice list"
  of_chunks :: "32 word \<rightharpoonup> Slice list"

text \<open>A new file of the pool, which is also what \<open>release\<close> leaves of one.\<close>

definition released :: openFile where
  "released = \<lparr>of_attr = zero_Attr, of_refs = 0, of_lastCheck = 0, of_first = [], of_chunks = Map.empty\<rparr>"

definition openFile_invalidateChunk :: "openFile \<Rightarrow> openFile" where
  "openFile_invalidateChunk f = f\<lparr>of_first := [], of_chunks := Map.empty\<rparr>"

record openfiles =
  ofs_expire :: int
  ofs_limit :: "64 word"
  ofs_files :: "(64 word \<times> openFile) list"

definition newOpenFiles :: "int \<Rightarrow> 64 word \<Rightarrow> openfiles" where
  "newOpenFiles expire limit = \<lparr>ofs_expire = expire, ofs_limit = limit, ofs_files = []\<rparr>"

definition find_file :: "64 word \<Rightarrow> openfiles \<Rightarrow> openFile option" where
  "find_file ino o1 = map_of (ofs_files o1) ino"

definition put_file :: "64 word \<Rightarrow> openFile \<Rightarrow> openfiles \<Rightarrow> openfiles" where
  "put_file ino f o1 = o1\<lparr>ofs_files := AList.update ino f (ofs_files o1)\<rparr>"

definition drop_file :: "64 word \<Rightarrow> openfiles \<Rightarrow> openfiles" where
  "drop_file ino o1 = o1\<lparr>ofs_files := AList.delete ino (ofs_files o1)\<rparr>"

text \<open>\<open>time.Second*time.Duration(time.Now().Unix()-of.lastCheck) < o.expire\<close>\<close>

definition not_expired :: "int \<Rightarrow> openFile \<Rightarrow> openfiles \<Rightarrow> bool" where
  "not_expired now f o1 \<longleftrightarrow> int64_of (10 ^ 9 * int64_of (now - of_lastCheck f)) < ofs_expire o1"

text \<open>The variables of a round of \<open>cleanup\<close>.\<close>

record sweep =
  sw_files :: openfiles
  sw_cnt :: nat
  sw_deleted :: int
  sw_candidate :: "(64 word \<times> openFile) option"
  sw_done :: bool

definition cleanup_turn :: "int \<Rightarrow> int \<Rightarrow> 64 word \<times> openFile \<Rightarrow> sweep \<Rightarrow> sweep" where
  "cleanup_turn todel now = (\<lambda>(ino, f) s.
     if sw_done s then s
     else let s = s\<lparr>sw_cnt := sw_cnt s + 1\<rparr>; drop1 = (\<lambda>i s. s\<lparr>sw_files := drop_file i (sw_files s), sw_deleted := sw_deleted s + 1\<rparr>) in
     if sw_cnt s > 1000 \<or> todel > 0 \<and> sw_deleted s \<ge> todel then s\<lparr>sw_done := True\<rparr>
     else if of_refs f \<le> 0 then
       if int64_of (now - of_lastCheck f) > 3600 * 12 then drop1 ino s
       else if todel = 0 then s
       else (case sw_candidate s of
         None \<Rightarrow> s\<lparr>sw_candidate := if ino = 0 then None else Some (ino, f)\<rparr>
       | Some (cIno, cOf) \<Rightarrow>
           drop1 (if of_lastCheck f < of_lastCheck cOf then ino else cIno) (s\<lparr>sw_candidate := None\<rparr>))
     else s)"

text \<open>A round of \<open>cleanup\<close>, which runs in a goroutine of its own.\<close>

definition cleanup :: "((64 word \<times> openFile) list \<Rightarrow> (64 word \<times> openFile) list) \<Rightarrow> int \<Rightarrow> openfiles \<Rightarrow> openfiles" where
  "cleanup ord now o1 =
     (let n = int (length (ofs_files o1));
          todel = (if ofs_limit o1 > 0 \<and> n > sint (ofs_limit o1) then n - sint (ofs_limit o1) else 0)
      in sw_files (fold (cleanup_turn todel now) (ord (ofs_files o1))
           \<lparr>sw_files = o1, sw_cnt = 0, sw_deleted = 0, sw_candidate = None, sw_done = False\<rparr>))"

text \<open>An attribute pointer is an option: nil is \<open>None\<close>.\<close>

definition OpenCheck :: "64 word \<Rightarrow> Attr option \<Rightarrow> int \<Rightarrow> openfiles \<Rightarrow> bool \<times> Attr option \<times> openfiles" where
  "OpenCheck ino attr now o1 = (case find_file ino o1 of
     Some f \<Rightarrow> if not_expired now f o1
       then (True, map_option (\<lambda>_. of_attr f) attr, put_file ino (f\<lparr>of_refs := of_refs f + 1\<rparr>) o1)
       else (False, attr, o1)
   | None \<Rightarrow> (False, attr, o1))"

definition ofs_Open :: "64 word \<Rightarrow> Attr option \<Rightarrow> int \<Rightarrow> openfiles \<Rightarrow> Attr option \<times> openfiles" where
  "ofs_Open ino attr now o1 =
     (let (f, attr) = (case find_file ino o1 of
            None \<Rightarrow> (released, attr)
          | Some f \<Rightarrow> (case attr of
              Some a \<Rightarrow> if Mtime a = Mtime (of_attr f) \<and> Mtimensec a = Mtimensec (of_attr f)
                then (f, Some (a\<lparr>KeepCache := KeepCache (of_attr f)\<rparr>)) else (openFile_invalidateChunk f, attr)
            | None \<Rightarrow> (openFile_invalidateChunk f, attr)));
          f = (case attr of Some a \<Rightarrow> f\<lparr>of_attr := a\<rparr> | None \<Rightarrow> f);
          f = f\<lparr>of_attr := (of_attr f)\<lparr>KeepCache := True\<rparr>, of_refs := of_refs f + 1, of_lastCheck := now\<rparr>
      in (attr, put_file ino f o1))"

definition ofs_Close :: "64 word \<Rightarrow> openfiles \<Rightarrow> bool \<times> openfiles" where
  "ofs_Close ino o1 = (case find_file ino o1 of
     Some f \<Rightarrow> let f = f\<lparr>of_refs := of_refs f - 1\<rparr> in (of_refs f \<le> 0, put_file ino f o1)
   | None \<Rightarrow> (True, o1))"

definition ofs_Check :: "64 word \<Rightarrow> int \<Rightarrow> openfiles \<Rightarrow> Attr option" where
  "ofs_Check ino now o1 = (case find_file ino o1 of
     Some f \<Rightarrow> if not_expired now f o1 then Some (of_attr f) else None
   | None \<Rightarrow> None)"

definition ofs_Update :: "64 word \<Rightarrow> Attr option \<Rightarrow> int \<Rightarrow> openfiles \<Rightarrow> bool \<times> Attr option \<times> openfiles" where
  "ofs_Update ino attr now o1 = (case attr of
     None \<Rightarrow> (False, attr, o1)
   | Some a \<Rightarrow> (case find_file ino o1 of
       Some f \<Rightarrow>
         let (f, a) = (if Mtime a \<noteq> Mtime (of_attr f) \<or> Mtimensec a \<noteq> Mtimensec (of_attr f)
               then (openFile_invalidateChunk f, a) else (f, a\<lparr>KeepCache := KeepCache (of_attr f)\<rparr>))
         in (True, Some a, put_file ino (f\<lparr>of_attr := a, of_lastCheck := now\<rparr>) o1)
     | None \<Rightarrow> (False, attr, o1)))"

definition IsOpen :: "64 word \<Rightarrow> openfiles \<Rightarrow> bool" where
  "IsOpen ino o1 = (case find_file ino o1 of Some f \<Rightarrow> of_refs f > 0 | None \<Rightarrow> False)"

definition ReadChunk :: "64 word \<Rightarrow> 32 word \<Rightarrow> openfiles \<Rightarrow> Slice list option" where
  "ReadChunk ino indx o1 = (case find_file ino o1 of
     None \<Rightarrow> None
   | Some f \<Rightarrow> if indx = 0 then if of_first f \<noteq> [] then Some (of_first f) else None else of_chunks f indx)"

definition CacheChunk :: "64 word \<Rightarrow> 32 word \<Rightarrow> Slice list \<Rightarrow> openfiles \<Rightarrow> openfiles" where
  "CacheChunk ino indx cs o1 = (case find_file ino o1 of
     None \<Rightarrow> o1
   | Some f \<Rightarrow> put_file ino (if indx = 0 then f\<lparr>of_first := cs\<rparr> else f\<lparr>of_chunks := (of_chunks f)(indx \<mapsto> cs)\<rparr>) o1)"

definition InvalidateChunk :: "64 word \<Rightarrow> 32 word \<Rightarrow> openfiles \<Rightarrow> openfiles" where
  "InvalidateChunk ino indx o1 = (case find_file ino o1 of
     Some f \<Rightarrow> let f = (if indx = invalidateAllChunks then openFile_invalidateChunk f
           else if indx = 0 then f\<lparr>of_first := []\<rparr> else f\<lparr>of_chunks := (of_chunks f)(indx := None)\<rparr>)
       in put_file ino (f\<lparr>of_lastCheck := 0\<rparr>) o1
   | None \<Rightarrow> o1)"

section \<open>What the reads and writes need\<close>

text \<open>A cache of chunks: what is found was put there and was not invalidated since. \<open>covers i j\<close> says that
  invalidating \<open>i\<close> drops the chunk \<open>j\<close>.\<close>

locale chunk_cache =
  fixes look :: "'k \<Rightarrow> 'i \<Rightarrow> 'c \<Rightarrow> 'v option"
    and store :: "'k \<Rightarrow> 'i \<Rightarrow> 'v \<Rightarrow> 'c \<Rightarrow> 'c"
    and forget :: "'k \<Rightarrow> 'i \<Rightarrow> 'c \<Rightarrow> 'c"
    and covers :: "'i \<Rightarrow> 'i \<Rightarrow> bool"
  assumes look_store: "look k i (store k' i' v c) = Some u \<Longrightarrow> (k' = k \<and> i' = i \<and> u = v) \<or> look k i c = Some u"
    and look_forget: "look k i (forget k' i' c) = Some u \<Longrightarrow> look k i c = Some u \<and> \<not> (k' = k \<and> covers i' i)"
begin

text \<open>Every cached chunk agrees with the store of the engine.\<close>

definition coherent :: "('k \<Rightarrow> 'i \<Rightarrow> 'v \<Rightarrow> bool) \<Rightarrow> 'c \<Rightarrow> bool" where
  "coherent valid c \<longleftrightarrow> (\<forall>k i u. look k i c = Some u \<longrightarrow> valid k i u)"

text \<open>A change of the cache that adds nothing.\<close>

definition shrinks :: "'c \<Rightarrow> 'c \<Rightarrow> bool" where
  "shrinks c c' \<longleftrightarrow> (\<forall>k i u. look k i c' = Some u \<longrightarrow> look k i c = Some u)"

lemma coherent_store: "coherent valid c \<Longrightarrow> valid k i v \<Longrightarrow> coherent valid (store k i v c)"
  by (auto simp: coherent_def dest: look_store)

lemma coherent_shrinks: "coherent valid c \<Longrightarrow> shrinks c c' \<Longrightarrow> coherent valid c'"
  by (auto simp: coherent_def shrinks_def)

lemma coherent_forget:
  assumes "coherent valid c" and "\<And>k' j u. \<not> (k' = k \<and> covers i j) \<Longrightarrow> valid k' j u \<Longrightarrow> valid' k' j u"
  shows "coherent valid' (forget k i c)"
  using assms(1) look_forget unfolding coherent_def by (blast intro: assms(2))

lemma shrinks_refl: "shrinks c c"
  by (simp add: shrinks_def)

lemma shrinks_trans: "shrinks a b \<Longrightarrow> shrinks b c \<Longrightarrow> shrinks a c"
  by (simp add: shrinks_def)

lemma shrinks_forget: "shrinks c (forget k i c)"
  by (auto simp: shrinks_def dest: look_forget)

end

lemma find_put [simp]: "find_file i (put_file j f o1) = (if i = j then Some f else find_file i o1)"
  by (simp add: find_file_def put_file_def update_conv')

lemma find_drop: "find_file i (drop_file j o1) = (if i = j then None else find_file i o1)"
  by (simp add: find_file_def drop_file_def AList.delete_conv')

definition drops :: "32 word \<Rightarrow> 32 word \<Rightarrow> bool" where
  "drops i j \<longleftrightarrow> i = invalidateAllChunks \<or> i = j"

interpretation chunks: chunk_cache ReadChunk CacheChunk InvalidateChunk drops
proof
  show "(k' = k \<and> i' = i \<and> u = v) \<or> ReadChunk k i c = Some u" if "ReadChunk k i (CacheChunk k' i' v c) = Some u" for k i k' i' v c u
    using that by (auto simp: ReadChunk_def CacheChunk_def split: option.splits if_splits)
  show "ReadChunk k i c = Some u \<and> \<not> (k' = k \<and> drops i' i)" if "ReadChunk k i (InvalidateChunk k' i' c) = Some u" for k i k' i' c u
    using that by (auto simp: ReadChunk_def InvalidateChunk_def openFile_invalidateChunk_def drops_def Let_def split: option.splits if_splits)
qed

section \<open>The other calls\<close>

lemma shrinks_put:
  assumes "\<And>g. find_file ino o1 = Some g \<Longrightarrow> of_first f \<in> {[], of_first g} \<and> of_chunks f \<subseteq>\<^sub>m of_chunks g"
    and "find_file ino o1 = None \<Longrightarrow> of_first f = [] \<and> of_chunks f = Map.empty"
  shows "chunks.shrinks o1 (put_file ino f o1)"
  unfolding chunks.shrinks_def
proof (intro allI impI)
  fix k i u assume r: "ReadChunk k i (put_file ino f o1) = Some u"
  show "ReadChunk k i o1 = Some u"
  proof (cases "k = ino")
    case True
    with r assms show ?thesis
      by (cases "find_file ino o1") (auto simp: ReadChunk_def map_le_def dom_def split: if_splits)
  qed (use r in \<open>auto simp: ReadChunk_def\<close>)
qed

lemma shrinks_put_open:
  "find_file ino o1 = Some g \<Longrightarrow> of_first f \<in> {[], of_first g} \<Longrightarrow> of_chunks f \<subseteq>\<^sub>m of_chunks g \<Longrightarrow>
     chunks.shrinks o1 (put_file ino f o1)"
  by (rule shrinks_put) auto

lemma shrinks_OpenCheck: "chunks.shrinks o1 (snd (snd (OpenCheck ino attr now o1)))"
  by (auto simp: OpenCheck_def chunks.shrinks_refl intro!: shrinks_put split: option.split)

lemma shrinks_Open: "chunks.shrinks o1 (snd (ofs_Open ino attr now o1))"
proof (cases "find_file ino o1")
  case None
  then show ?thesis by (cases attr) (simp_all add: ofs_Open_def released_def shrinks_put)
next
  case (Some f)
  then show ?thesis
    by (cases attr) (simp_all add: ofs_Open_def openFile_invalidateChunk_def shrinks_put_open [OF Some])
qed

lemma shrinks_Close: "chunks.shrinks o1 (snd (ofs_Close ino o1))"
  by (auto simp: ofs_Close_def Let_def chunks.shrinks_refl intro!: shrinks_put split: option.split)

lemma shrinks_Update: "chunks.shrinks o1 (snd (snd (ofs_Update ino attr now o1)))"
  by (auto simp: ofs_Update_def Let_def openFile_invalidateChunk_def chunks.shrinks_refl intro!: shrinks_put split: option.split)

text \<open>A round of \<open>cleanup\<close> only drops files, and none that is open.\<close>

definition keeps_open :: "openfiles \<Rightarrow> openfiles \<Rightarrow> bool" where
  "keeps_open o1 o2 \<longleftrightarrow> (\<forall>i. find_file i o2 = find_file i o1 \<or> find_file i o2 = None \<and> \<not> IsOpen i o1)"

lemma keeps_open_shrinks: "keeps_open o1 o2 \<Longrightarrow> chunks.shrinks o1 o2"
  unfolding chunks.shrinks_def
proof (intro allI impI)
  fix k i u assume o2: "keeps_open o1 o2" and r: "ReadChunk k i o2 = Some u"
  from o2 have "find_file k o2 = find_file k o1 \<or> find_file k o2 = None" by (auto simp: keeps_open_def)
  with r show "ReadChunk k i o1 = Some u" by (auto simp: ReadChunk_def)
qed

lemma cleanup_turn_keeps:
  assumes "find_file ino o1 = Some f"
    and "keeps_open o1 (sw_files s)" and "\<And>i g. sw_candidate s = Some (i, g) \<Longrightarrow> find_file i o1 = Some g \<and> of_refs g \<le> 0"
  shows "keeps_open o1 (sw_files (cleanup_turn todel now (ino, f) s)) \<and>
    (\<forall>i g. sw_candidate (cleanup_turn todel now (ino, f) s) = Some (i, g) \<longrightarrow> find_file i o1 = Some g \<and> of_refs g \<le> 0)"
proof -
  have d: "keeps_open o1 (drop_file i (sw_files s))" if "find_file i o1 = Some g" "of_refs g \<le> 0" for i g
    using assms(2) that by (auto simp: keeps_open_def find_drop IsOpen_def)
  show ?thesis
  proof (cases "sw_candidate s")
    case None
    with assms(1,2) d [OF assms(1)] show ?thesis by (simp add: cleanup_turn_def Let_def)
  next
    case (Some c)
    then obtain i g where c: "sw_candidate s = Some (i, g)" by (cases c) auto
    from assms(3) [OF this] d have "keeps_open o1 (drop_file i (sw_files s))" by blast
    with c assms(1,2) assms(3) [OF c] d [OF assms(1)] show ?thesis by (simp add: cleanup_turn_def Let_def)
  qed
qed

lemma cleanup_keeps_open:
  assumes "distinct (map fst (ofs_files o1))" and "set (ord (ofs_files o1)) = set (ofs_files o1)"
  shows "keeps_open o1 (cleanup ord now o1)"
proof -
  let ?ok = "\<lambda>s. keeps_open o1 (sw_files s) \<and> (\<forall>i g. sw_candidate s = Some (i, g) \<longrightarrow> find_file i o1 = Some g \<and> of_refs g \<le> 0)"
  have "?ok (fold (cleanup_turn todel now) xs s)" if "?ok s" "set xs \<subseteq> set (ofs_files o1)" for xs s todel
    using that
  proof (induction xs arbitrary: s)
    case (Cons x xs)
    obtain i f where x: "x = (i, f)" by fastforce
    have "find_file i o1 = Some f" using Cons.prems(2) x assms(1) by (simp add: find_file_def)
    with Cons.prems have "?ok (cleanup_turn todel now x s)" using cleanup_turn_keeps unfolding x by blast
    from Cons.IH [OF this] Cons.prems(2) show ?case by simp
  qed simp
  from this [of "\<lparr>sw_files = o1, sw_cnt = 0, sw_deleted = 0, sw_candidate = None, sw_done = False\<rparr>" "ord (ofs_files o1)"]
  show ?thesis unfolding cleanup_def Let_def using assms(2) by (simp add: keeps_open_def)
qed

end
