(* ===== verification/JFS_Meta.thy ===== *)
theory JFS_Meta
  imports JFS_Facl JFS_Open
begin

text \<open>
  The state of a client of the metadata on a key-value engine, reading attributes through the cache of open files
  (pkg/meta/base.go, \<open>GetAttr\<close>) and the space and directory quotas (pkg/meta/quota.go). \<open>None\<close> is a panic or a call that
  does not return. The clock is a stream: every call of a method that looks at it takes one value. A goroutine that only updates the
  statistics runs at once.
\<close>

section \<open>State\<close>

record Quota =
  MaxSpace :: int
  MaxInodes :: int
  UsedSpace :: int
  UsedInodes :: int
  q_newSpace :: int
  q_newInodes :: int

record dirStat =
  ds_length :: int
  ds_space :: int
  ds_inodes :: int

definition zero_dirStat :: dirStat where
  "zero_dirStat = \<lparr>ds_length = 0, ds_space = 0, ds_inodes = 0\<rparr>"

text \<open>The fields of \<open>Config\<close> and \<open>Format\<close> that are used, and the inode that is mounted as the root.\<close>

record settings =
  conf_OpenCache :: int
  conf_ReadOnly :: bool
  conf_AtimeMode :: string
  conf_MaxDeletes :: int
  fmt_Capacity :: "64 word"
  fmt_Inodes :: "64 word"
  fmt_TrashDays :: int
  fmt_DirStats :: bool
  m_root :: "64 word"

text \<open>The attributes and rules with their cache (\<open>fw_acl\<close>), the open files, the clock, the outcomes of the reads with a time limit,
  the statistics, the ids for new slices, the chunks that are being compacted; then what the engine stores: the slices of a chunk,
  the counters of the slices, the slices to be deleted later, the parents of an inode with several links;
  and the object storage.\<close>

record 'o file_world =
  fw_acl :: facl_world
  fw_of :: openfiles
  fw_clock :: "(64 word \<times> 32 word) stream"
  fw_timeouts :: "bool stream"
  usedSpace :: int
  newSpace :: int
  usedInodes :: int
  newInodes :: int
  dirStats :: "64 word \<Rightarrow> dirStat"
  dirQuotas :: "64 word \<rightharpoonup> Quota"
  dirParents :: "64 word \<rightharpoonup> 64 word"
  freeSlices :: "64 word \<times> 64 word"
  nextChunk :: "64 word"
  compacting :: "64 word list"
  chunk_vals :: "64 word \<times> 32 word \<rightharpoonup> 8 word list"
  slice_refs :: "64 word \<times> 32 word \<rightharpoonup> int"
  delSlices :: "64 word \<times> 64 word \<rightharpoonup> 8 word list"
  link_parents :: "64 word \<Rightarrow> (64 word \<times> int) list"
  objects :: 'o

text \<open>What is left of the body of a transaction that is not committed.\<close>

definition drop_writes :: "'o file_world \<Rightarrow> 'o file_world \<Rightarrow> 'o file_world" where
  "drop_writes w w' = w'\<lparr>fw_acl := roll_back (fw_acl w) (fw_acl w'), chunk_vals := chunk_vals w, slice_refs := slice_refs w,
     delSlices := delSlices w, link_parents := link_parents w\<rparr>"

definition clock_now :: "'o file_world \<Rightarrow> (64 word \<times> 32 word) \<times> 'o file_world" where
  "clock_now w = (shd (fw_clock w), w\<lparr>fw_clock := stl (fw_clock w)\<rparr>)"

definition on_acl :: "(facl_world \<Rightarrow> ('a \<times> facl_world) option) \<Rightarrow> 'o file_world \<Rightarrow> ('a \<times> 'o file_world) option" where
  "on_acl f w = map_option (\<lambda>(a, acl). (a, w\<lparr>fw_acl := acl\<rparr>)) (f (fw_acl w))"

section \<open>Reading attributes\<close>

text \<open>The transaction of a point read is tried once; \<open>reads\<close> holds its errors.\<close>

definition point_read :: "'o file_world \<Rightarrow> kverr option \<times> 'o file_world" where
  "point_read w = (shd (reads (fw_acl w)), w\<lparr>fw_acl := (fw_acl w)\<lparr>reads := stl (reads (fw_acl w))\<rparr>\<rparr>)"

definition doGetAttr :: "64 word \<Rightarrow> Attr \<Rightarrow> 'o file_world \<Rightarrow> (Errno \<times> Attr \<times> 'o file_world) option" where
  "doGetAttr inode attr w = (case point_read w of
     (Some e, w) \<Rightarrow> Some (errno (Some e), attr, w)
   | (None, w) \<Rightarrow> (case inode_vals (fw_acl w) inode of
       None \<Rightarrow> Some (ENOENT, attr, w)
     | Some val \<Rightarrow> map_option (\<lambda>a. (E0, a, w)) (Attr_Unmarshal val attr)))"

definition checkRoot :: "settings \<Rightarrow> 64 word \<Rightarrow> 64 word" where
  "checkRoot m inode = (if inode = 0 then RootInode else if inode = RootInode then m_root m else inode)"

definition isTrash :: "64 word \<Rightarrow> bool" where
  "isTrash ino \<longleftrightarrow> ino \<ge> TrashInode"

text \<open>The attributes of the root and of the trash when they cannot be read in time.\<close>

definition default_dir :: "64 word \<Rightarrow> Attr \<Rightarrow> Attr" where
  "default_dir inode attr = attr\<lparr>Typ := TypeDirectory, Mode := if inode = TrashInode then 0x16D else 0x1FF, Nlink := 2,
     Length := 4096, Parent := RootInode, Full := True\<rparr>"

definition update_open :: "64 word \<Rightarrow> Attr \<Rightarrow> 'o file_world \<Rightarrow> Attr \<times> 'o file_world" where
  "update_open inode attr w =
     (let (now, w) = clock_now w; (_, a, o1) = ofs_Update inode (Some attr) (sint (fst now)) (fw_of w)
      in (the a, w\<lparr>fw_of := o1\<rparr>))"

text \<open>The read itself, with its time limit for the root and the trash, and what is noted of the attributes that were read.\<close>

definition timed_GetAttr :: "64 word \<Rightarrow> Attr \<Rightarrow> 'o file_world \<Rightarrow> (Errno \<times> Attr \<times> 'o file_world) option" where
  "timed_GetAttr inode attr w =
     (if inode = RootInode \<or> inode = TrashInode then
        map_option (\<lambda>(err, a, w'). (E0, if \<not> shd (fw_timeouts w) \<and> err = E0 then a else default_dir inode attr, w'))
          (doGetAttr inode zero_Attr (w\<lparr>fw_timeouts := stl (fw_timeouts w)\<rparr>))
      else doGetAttr inode attr w)"

definition note_attr :: "64 word \<Rightarrow> Attr \<Rightarrow> 'o file_world \<Rightarrow> Attr \<times> 'o file_world" where
  "note_attr inode attr w =
     (let (attr, w) = update_open inode attr w in
      (attr, if Typ attr = TypeDirectory \<and> inode \<noteq> RootInode \<and> \<not> isTrash (Parent attr)
        then w\<lparr>dirParents := (dirParents w)(inode \<mapsto> Parent attr)\<rparr> else w))"

definition GetAttr :: "settings \<Rightarrow> 64 word \<Rightarrow> Attr \<Rightarrow> 'o file_world \<Rightarrow> (Errno \<times> Attr \<times> 'o file_world) option" where
  "GetAttr m inode0 attr w =
     (let inode = checkRoot m inode0; (now, w) = clock_now w in
      case (if conf_OpenCache m > 0 then ofs_Check inode (sint (fst now)) (fw_of w) else None) of
        Some a \<Rightarrow> Some (E0, a, w)
      | None \<Rightarrow> map_option (\<lambda>(err, attr, w). if err = E0 then (err, note_attr inode attr w) else (err, attr, w))
          (timed_GetAttr inode attr w))"

section \<open>Quotas\<close>

definition Quota_check :: "Quota \<Rightarrow> int \<Rightarrow> int \<Rightarrow> bool" where
  "Quota_check q space inodes \<longleftrightarrow>
     space > 0 \<and> MaxSpace q > 0 \<and> int64_of (UsedSpace q + q_newSpace q + space) > MaxSpace q \<or>
     inodes > 0 \<and> MaxInodes q > 0 \<and> int64_of (UsedInodes q + q_newInodes q + inodes) > MaxInodes q"

definition Quota_update :: "int \<Rightarrow> int \<Rightarrow> Quota \<Rightarrow> Quota" where
  "Quota_update space inodes q = q\<lparr>q_newSpace := int64_of (q_newSpace q + space), q_newInodes := int64_of (q_newInodes q + inodes)\<rparr>"

definition getDirParent :: "settings \<Rightarrow> 64 word \<Rightarrow> 'o file_world \<Rightarrow> (64 word \<times> Errno \<times> 'o file_world) option" where
  "getDirParent m inode w = (case dirParents w inode of
     Some parent \<Rightarrow> Some (parent, E0, w)
   | None \<Rightarrow> map_option (\<lambda>(st, attr, w). (Parent attr, st, w)) (GetAttr m inode zero_Attr w))"

text \<open>The loop up to the root; it does not end when a directory is its own ancestor.\<close>

partial_function (option) quota_walk ::
  "settings \<Rightarrow> (Quota \<Rightarrow> bool) \<Rightarrow> 64 word \<Rightarrow> 'o file_world \<Rightarrow> (bool \<times> 'o file_world) option" where
  "quota_walk m exceeded inode w =
     (if (case dirQuotas w inode of Some q \<Rightarrow> exceeded q | None \<Rightarrow> False) then Some (True, w)
      else if inode \<le> RootInode then Some (False, w)
      else Option.bind (getDirParent m inode w) (\<lambda>(parent, st, w).
        if st \<noteq> E0 then Some (False, w) else quota_walk m exceeded parent w))"

definition checkDirQuota :: "settings \<Rightarrow> 64 word \<Rightarrow> int \<Rightarrow> int \<Rightarrow> 'o file_world \<Rightarrow> (bool \<times> 'o file_world) option" where
  "checkDirQuota m inode space inodes w =
     (if \<not> fmt_DirStats m then Some (False, w) else quota_walk m (\<lambda>q. Quota_check q space inodes) inode w)"

fun check_parents :: "settings \<Rightarrow> int \<Rightarrow> int \<Rightarrow> 64 word list \<Rightarrow> 'o file_world \<Rightarrow> (Errno \<times> 'o file_world) option" where
  "check_parents m space inodes [] w = Some (E0, w)"
| "check_parents m space inodes (ino # ps) w = Option.bind (checkDirQuota m ino space inodes w) (\<lambda>(over, w).
     if over then Some (EDQUOT, w) else check_parents m space inodes ps w)"

definition checkQuota :: "settings \<Rightarrow> int \<Rightarrow> int \<Rightarrow> 64 word list \<Rightarrow> 'o file_world \<Rightarrow> (Errno \<times> 'o file_world) option" where
  "checkQuota m space inodes parents w =
     (if space \<le> 0 \<and> inodes \<le> 0 then Some (E0, w)
      else if space > 0 \<and> fmt_Capacity m > 0 \<and> int64_of (usedSpace w + newSpace w + space) > sint (fmt_Capacity m) then Some (ENOSPC, w)
      else if inodes > 0 \<and> fmt_Inodes m > 0 \<and> int64_of (usedInodes w + newInodes w + inodes) > sint (fmt_Inodes m) then Some (ENOSPC, w)
      else if \<not> fmt_DirStats m then Some (E0, w)
      else check_parents m space inodes parents w)"

partial_function (option) update_walk ::
  "settings \<Rightarrow> (Quota \<Rightarrow> Quota) \<Rightarrow> 64 word \<Rightarrow> 'o file_world \<Rightarrow> 'o file_world option" where
  "update_walk m upd inode w =
     (let w = (case dirQuotas w inode of Some q \<Rightarrow> w\<lparr>dirQuotas := (dirQuotas w)(inode \<mapsto> upd q)\<rparr> | None \<Rightarrow> w) in
      if inode \<le> RootInode then Some w
      else Option.bind (getDirParent m inode w) (\<lambda>(parent, st, w). if st \<noteq> E0 then Some w else update_walk m upd parent w))"

definition updateDirQuota :: "settings \<Rightarrow> 64 word \<Rightarrow> int \<Rightarrow> int \<Rightarrow> 'o file_world \<Rightarrow> 'o file_world option" where
  "updateDirQuota m inode space inodes w =
     (if \<not> fmt_DirStats m then Some w else update_walk m (Quota_update space inodes) inode w)"

definition updateDirStat :: "settings \<Rightarrow> 64 word \<Rightarrow> int \<Rightarrow> int \<Rightarrow> int \<Rightarrow> 'o file_world \<Rightarrow> 'o file_world" where
  "updateDirStat m ino len space inodes w =
     (if \<not> fmt_DirStats m then w
      else let stat = dirStats w ino in
        w\<lparr>dirStats := (dirStats w)(ino := stat\<lparr>ds_length := int64_of (ds_length stat + len),
          ds_inodes := int64_of (ds_inodes stat + inodes), ds_space := int64_of (ds_space stat + space)\<rparr>)\<rparr>)"

definition updateStats :: "int \<Rightarrow> int \<Rightarrow> 'o file_world \<Rightarrow> 'o file_world" where
  "updateStats space inodes w = w\<lparr>newSpace := int64_of (newSpace w + space), newInodes := int64_of (newInodes w + inodes)\<rparr>"

text \<open>\<open>getParents\<close> reads inside a transaction, \<open>doGetParents\<close> on its own.\<close>

definition getParents :: "64 word \<Rightarrow> 64 word \<Rightarrow> 'o file_world \<Rightarrow> 64 word list" where
  "getParents inode parent w = (if parent > 0 then [parent] else map fst (filter (\<lambda>(p, n). n > 0) (link_parents w inode)))"

definition doGetParents :: "64 word \<Rightarrow> 'o file_world \<Rightarrow> (64 word \<times> int) list \<times> 'o file_world" where
  "doGetParents inode w = (case point_read w of
     (Some e, w) \<Rightarrow> ([], w)
   | (None, w) \<Rightarrow> (filter (\<lambda>(p, n). n > 0) (link_parents w inode), w))"

fun update_parents :: "settings \<Rightarrow> int \<Rightarrow> int \<Rightarrow> (64 word \<times> int) list \<Rightarrow> 'o file_world \<Rightarrow> 'o file_world option" where
  "update_parents m len space [] w = Some w"
| "update_parents m len space ((p, v) # ps) w =
     Option.bind (updateDirQuota m p (int64_of (space * v)) 0 (updateDirStat m p (int64_of (len * v)) (int64_of (space * v)) 0 w))
       (update_parents m len space ps)"

definition updateParentStat :: "settings \<Rightarrow> 64 word \<Rightarrow> 64 word \<Rightarrow> int \<Rightarrow> int \<Rightarrow> 'o file_world \<Rightarrow> 'o file_world option" where
  "updateParentStat m inode parent len space w =
     (if len = 0 \<and> space = 0 then Some w
      else let w = updateStats space 0 w in
        if \<not> fmt_DirStats m then Some w
        else if parent > 0 then updateDirQuota m parent space 0 (updateDirStat m parent len space 0 w)
        else let (ps, w) = doGetParents inode w in update_parents m len space ps w)"

section \<open>What the checks leave alone\<close>

text \<open>The values of the engine and the ids are the same and the cache of open files holds no chunk it did not hold before.\<close>

definition same_engine :: "'o file_world \<Rightarrow> 'o file_world \<Rightarrow> bool" where
  "same_engine w w' \<longleftrightarrow> inode_vals (fw_acl w') = inode_vals (fw_acl w) \<and> acl_vals (fw_acl w') = acl_vals (fw_acl w) \<and>
     chunk_vals w' = chunk_vals w \<and> slice_refs w' = slice_refs w \<and> delSlices w' = delSlices w \<and>
     link_parents w' = link_parents w \<and> objects w' = objects w"

definition quiet_step :: "'o file_world \<Rightarrow> 'o file_world \<Rightarrow> bool" where
  "quiet_step w w' \<longleftrightarrow> same_engine w w' \<and> chunks.shrinks (fw_of w) (fw_of w') \<and> freeSlices w' = freeSlices w \<and> nextChunk w' = nextChunk w"

named_theorems quiet_rules \<open>calls that change neither the values of the engine nor add to the cache\<close>

lemma quiet_refl [simp]: "quiet_step w w"
  by (simp add: quiet_step_def same_engine_def chunks.shrinks_refl)

lemma quiet_trans [trans]: "quiet_step a b \<Longrightarrow> quiet_step b c \<Longrightarrow> quiet_step a c"
  by (auto simp: quiet_step_def same_engine_def elim: chunks.shrinks_trans)

lemma quiet_fields:
  "quiet_step w (w\<lparr>fw_clock := c\<rparr>)" "quiet_step w (w\<lparr>fw_timeouts := t\<rparr>)" "quiet_step w (w\<lparr>dirParents := d\<rparr>)"
  "quiet_step w (w\<lparr>dirQuotas := q\<rparr>)" "quiet_step w (w\<lparr>dirStats := s\<rparr>)" "quiet_step w (w\<lparr>newSpace := n\<rparr>)" "quiet_step w (w\<lparr>newInodes := n\<rparr>)"
  "quiet_step w (w\<lparr>compacting := ks\<rparr>)"
  by (simp_all add: quiet_step_def same_engine_def chunks.shrinks_refl)

lemma quiet_of: "chunks.shrinks (fw_of w) o1 \<Longrightarrow> quiet_step w (w\<lparr>fw_of := o1\<rparr>)"
  by (simp add: quiet_step_def same_engine_def)

lemma quiet_clock: "quiet_step w (snd (clock_now w))"
  by (simp add: clock_now_def quiet_fields)

lemma quiet_point_read: "quiet_step w (snd (point_read w))"
  by (simp add: point_read_def quiet_step_def same_engine_def chunks.shrinks_refl)

lemma getACL_values:
  "getACL i a = Some (r, a') \<Longrightarrow> inode_vals a' = inode_vals a \<and> acl_vals a' = acl_vals a"
  by (auto simp: getACL_def put_cache_def Option.bind_eq_Some_conv split: if_splits option.splits)

lemma doGetFacl_values:
  "doGetFacl ino t i a = Some (r, a') \<Longrightarrow> inode_vals a' = inode_vals a \<and> acl_vals a' = acl_vals a"
proof -
  assume g: "doGetFacl ino t i a = Some (r, a')"
  show ?thesis
  proof (cases "shd (reads a)")
    case None
    with g obtain found where f: "(case found of Inl e \<Rightarrow> Some (Inl e, a\<lparr>reads := stl (reads a)\<rparr>) | Inr k \<Rightarrow>
        map_option (\<lambda>(res, w). (case res of Inl e \<Rightarrow> Inl (errno (Some e)) | Inr None \<Rightarrow> Inl ENOATTR | Inr (Some r) \<Rightarrow> Inr r, w))
          (getACL k (a\<lparr>reads := stl (reads a)\<rparr>))) = Some (r, a')"
      by (auto simp: doGetFacl_def Let_def Option.bind_eq_Some_conv simp del: map_option_eq_Some)
    then show ?thesis by (cases found) (auto dest: getACL_values)
  qed (use g in \<open>auto simp: doGetFacl_def\<close>)
qed

lemma quiet_Access [quiet_rules]: "on_acl (Access ctx inode mm attr) w = Some (st, w') \<Longrightarrow> quiet_step w w'"
  by (auto simp: on_acl_def Access_def Let_def quiet_step_def same_engine_def chunks.shrinks_refl dest: doGetFacl_values split: if_splits)

lemma quiet_doGetAttr [quiet_rules]: "doGetAttr inode attr w = Some (st, a, w') \<Longrightarrow> quiet_step w w'"
  using quiet_point_read [of w] by (auto simp: doGetAttr_def split: prod.splits option.splits)

lemma quiet_update_open: "quiet_step w (snd (update_open inode attr w))"
proof -
  obtain now w1 where c: "clock_now w = (now, w1)" by fastforce
  have "quiet_step w w1" using quiet_clock [of w] c by simp
  also have "quiet_step w1 (w1\<lparr>fw_of := snd (snd (ofs_Update inode (Some attr) (sint (fst now)) (fw_of w1)))\<rparr>)"
    by (rule quiet_of, rule shrinks_Update)
  finally show ?thesis by (auto simp: update_open_def c split: prod.split)
qed

lemma quiet_timed_GetAttr: "timed_GetAttr inode attr w = Some (st, a, w') \<Longrightarrow> quiet_step w w'"
  using quiet_trans [OF quiet_fields(2)] quiet_doGetAttr by (fastforce simp: timed_GetAttr_def split: if_splits)

lemma quiet_note_attr: "quiet_step w (snd (note_attr inode attr w))"
  using quiet_update_open [of w inode attr] by (auto simp: note_attr_def intro: quiet_trans quiet_fields split: prod.split)

lemma quiet_GetAttr [quiet_rules]:
  assumes "GetAttr m inode0 attr w = Some (st, a, w')"
  shows "quiet_step w w'"
proof -
  define inode where "inode = checkRoot m inode0"
  obtain now w1 where c: "clock_now w = (now, w1)" by fastforce
  have w1: "quiet_step w w1" using quiet_clock [of w] c by simp
  show ?thesis
  proof (cases "if conf_OpenCache m > 0 then ofs_Check inode (sint (fst now)) (fw_of w1) else None")
    case None
    with assms obtain e1 a1 w2 where rd: "timed_GetAttr inode attr w1 = Some (e1, a1, w2)"
      and rest: "(if e1 = E0 then (e1, note_attr inode a1 w2) else (e1, a1, w2)) = (st, a, w')"
      unfolding GetAttr_def Let_def inode_def [symmetric] c by auto
    have "quiet_step w2 w'" using rest quiet_note_attr [of w2 inode a1] by (auto split: if_splits)
    with w1 quiet_timed_GetAttr [OF rd] show ?thesis using quiet_trans by blast
  next
    case (Some b)
    with assms w1 show ?thesis unfolding GetAttr_def Let_def inode_def [symmetric] c by simp
  qed
qed

lemma quiet_getDirParent [quiet_rules]: "getDirParent m inode w = Some (p, st, w') \<Longrightarrow> quiet_step w w'"
  by (auto simp: getDirParent_def split: option.splits dest: quiet_GetAttr)

lemma quiet_quota_walk [quiet_rules]:
  assumes "quota_walk m exceeded inode w = Some (r, w')"
  shows "quiet_step w w'"
proof -
  have "quiet_step w (snd (r, w'))"
  proof (rule quota_walk.raw_induct [where P = "\<lambda>m ex i w y. quiet_step w (snd y)", OF _ assms], goal_cases)
    case (1 f m ex i w y)
    from "1"(2) consider "snd y = w" | p st w1 where "getDirParent m i w = Some (p, st, w1)" "snd y = w1 \<or> f m ex p w1 = Some y"
      by (fastforce simp: Option.bind_eq_Some_conv split: if_splits)
    then show ?case
    proof cases
      case 2
      with "1"(1) quiet_getDirParent [OF 2(1)] show ?thesis using quiet_trans by blast
    qed simp
  qed
  then show ?thesis by simp
qed

lemma quiet_update_walk [quiet_rules]:
  assumes "update_walk m upd inode w = Some w'"
  shows "quiet_step w w'"
proof (rule update_walk.raw_induct [where P = "\<lambda>m upd i w w'. quiet_step w w'", OF _ assms], goal_cases)
  case (1 f m upd i w w')
  define w0 where "w0 = (case dirQuotas w i of Some q \<Rightarrow> w\<lparr>dirQuotas := (dirQuotas w)(i \<mapsto> upd q)\<rparr> | None \<Rightarrow> w)"
  have w0: "quiet_step w w0" by (auto simp: w0_def quiet_fields split: option.split)
  from "1"(2) have "(if i \<le> RootInode then Some w0 else Option.bind (getDirParent m i w0)
      (\<lambda>(p, st, w). if st \<noteq> E0 then Some w else f m upd p w)) = Some w'" unfolding w0_def Let_def .
  then consider "w' = w0" | p st w1 where "getDirParent m i w0 = Some (p, st, w1)" "w' = w1 \<or> f m upd p w1 = Some w'"
    by (fastforce simp: Option.bind_eq_Some_conv split: if_splits)
  then show ?case
  proof cases
    case 2
    with "1"(1) quiet_getDirParent [OF 2(1)] w0 show ?thesis using quiet_trans by blast
  qed (use w0 in simp)
qed

lemma quiet_checkDirQuota [quiet_rules]: "checkDirQuota m inode space inodes w = Some (r, w') \<Longrightarrow> quiet_step w w'"
  by (auto simp: checkDirQuota_def split: if_splits dest: quiet_quota_walk)

lemma quiet_check_parents: "check_parents m space inodes ps w = Some (r, w') \<Longrightarrow> quiet_step w w'"
proof (induction ps arbitrary: w)
  case (Cons p ps)
  then obtain over w1 where "checkDirQuota m p space inodes w = Some (over, w1)" "w' = w1 \<or> check_parents m space inodes ps w1 = Some (r, w')"
    by (fastforce simp: Option.bind_eq_Some_conv split: if_splits)
  with Cons.IH quiet_checkDirQuota show ?case using quiet_trans by blast
qed simp

lemma quiet_checkQuota [quiet_rules]: "checkQuota m space inodes ps w = Some (r, w') \<Longrightarrow> quiet_step w w'"
  by (auto simp: checkQuota_def split: if_splits dest: quiet_check_parents)

lemma quiet_updateDirQuota [quiet_rules]: "updateDirQuota m inode space inodes w = Some w' \<Longrightarrow> quiet_step w w'"
  by (auto simp: updateDirQuota_def split: if_splits dest: quiet_update_walk)

lemma quiet_updateDirStat: "quiet_step w (updateDirStat m ino len space inodes w)"
  by (simp add: updateDirStat_def Let_def quiet_fields)

lemma quiet_updateStats: "quiet_step w (updateStats space inodes w)"
  by (simp add: updateStats_def quiet_step_def same_engine_def chunks.shrinks_refl)

lemma quiet_doGetParents: "quiet_step w (snd (doGetParents inode w))"
  using quiet_point_read [of w] by (auto simp: doGetParents_def split: prod.split option.split)

lemma quiet_update_parents: "update_parents m len space ps w = Some w' \<Longrightarrow> quiet_step w w'"
proof (induction ps arbitrary: w)
  case (Cons pv ps)
  obtain p v where pv: "pv = (p, v)" by fastforce
  let ?w = "updateDirStat m p (int64_of (len * v)) (int64_of (space * v)) 0 w"
  from Cons.prems obtain w1 where "updateDirQuota m p (int64_of (space * v)) 0 ?w = Some w1" "update_parents m len space ps w1 = Some w'"
    unfolding pv by (auto simp: Option.bind_eq_Some_conv)
  from quiet_trans [OF quiet_updateDirStat quiet_trans [OF quiet_updateDirQuota [OF this(1)] Cons.IH [OF this(2)]]] show ?case .
qed simp

lemma quiet_updateParentStat [quiet_rules]:
  assumes "updateParentStat m inode parent len space w = Some w'"
  shows "quiet_step w w'"
proof -
  define w1 where "w1 = updateStats space 0 w"
  obtain ps w2 where g: "doGetParents inode w1 = (ps, w2)" by fastforce
  have s: "quiet_step w w1" "quiet_step w1 w2" using quiet_updateStats quiet_doGetParents [of w1 inode] g by (auto simp: w1_def)
  show ?thesis
  proof (cases "(len = 0 \<and> space = 0) \<or> \<not> fmt_DirStats m")
    case True
    then show ?thesis using assms s(1) unfolding updateParentStat_def Let_def w1_def [symmetric] by (auto split: if_splits)
  next
    case False
    show ?thesis
    proof (cases "parent > 0")
      case True
      with False assms have "updateDirQuota m parent space 0 (updateDirStat m parent len space 0 w1) = Some w'"
        unfolding updateParentStat_def Let_def w1_def [symmetric] by (auto split: if_splits)
      from quiet_trans [OF quiet_trans [OF s(1) quiet_updateDirStat] quiet_updateDirQuota [OF this]] show ?thesis .
    next
      assume "\<not> parent > 0"
      with False assms g have "update_parents m len space ps w2 = Some w'"
        unfolding updateParentStat_def Let_def w1_def [symmetric] by (auto split: if_splits)
      from quiet_trans [OF quiet_trans [OF s] quiet_update_parents [OF this]] show ?thesis .
    qed
  qed
qed

end
