(* ===== verification/JFS_File.thy ===== *)
theory JFS_File
  imports JFS_Meta
begin

text \<open>
  The data of a file in the metadata: reading, writing, truncating, allocating and copying ranges on a key-value engine
  (pkg/meta/tkv.go) with the calls of a client around them (pkg/meta/base.go). A file is a sequence of chunks of 64 MB; the value of a
  chunk is the list of its slices, oldest first. \<open>os\<close> says what the engine does with each try of a transaction.
\<close>

unbundle bit_operations_syntax

section \<open>Transactions on a file\<close>

definition file_txn :: "settings \<Rightarrow> ('o file_world \<times> 'x) engine_try stream \<Rightarrow>
    ('o file_world \<times> 'x \<Rightarrow> (kverr option \<times> 'o file_world \<times> 'x) option) \<Rightarrow> 'o file_world \<times> 'x \<Rightarrow>
    (Errno \<times> 'o file_world \<times> 'x) option" where
  "file_txn m os f s = map_option (\<lambda>(err, s'). (errno err, s'))
     (kv_txn (\<lambda>s s'. (drop_writes (fst s) (fst s'), snd s')) (conf_ReadOnly m) os f s)"

definition ChunkSize :: "64 word" where "ChunkSize = 0x4000000"

definition chunk_val :: "64 word \<Rightarrow> 32 word \<Rightarrow> 'o file_world \<Rightarrow> 8 word list" where
  "chunk_val inode indx w = (case chunk_vals w (inode, indx) of None \<Rightarrow> [] | Some v \<Rightarrow> v)"

definition set_chunk :: "64 word \<Rightarrow> 32 word \<Rightarrow> 8 word list \<Rightarrow> 'o file_world \<Rightarrow> 'o file_world" where
  "set_chunk inode indx v w = w\<lparr>chunk_vals := (chunk_vals w)((inode, indx) \<mapsto> v)\<rparr>"

text \<open>\<open>tx.append(m.chunkKey(inode, indx), marshalSlice(...))\<close>\<close>

definition append_chunk :: "64 word \<Rightarrow> 32 word \<Rightarrow> slice \<Rightarrow> 'o file_world \<Rightarrow> 'o file_world option" where
  "append_chunk inode indx s w = map_option (\<lambda>b. set_chunk inode indx (chunk_val inode indx w @ b) w) (marshalSlice s)"

definition hole :: "32 word \<Rightarrow> 32 word \<Rightarrow> slice" where
  "hole pos n = \<lparr>sl_id = 0, sl_size = 0, sl_off = 0, sl_len = n, sl_pos = pos\<rparr>"

text \<open>\<open>tx.set(m.inodeKey(inode), m.marshal(attr))\<close>\<close>

definition set_attr :: "64 word \<Rightarrow> Attr \<Rightarrow> 'o file_world \<Rightarrow> 'o file_world option" where
  "set_attr inode attr w = map_option (\<lambda>a. w\<lparr>fw_acl := a\<rparr>) (store_attr inode attr (fw_acl w))"

definition align4K :: "64 word \<Rightarrow> int" where
  "align4K len = (if len = 0 then 4096 else sint (push_bit 12 (drop_bit 12 (len - 1) + 1) :: 64 word))"

definition with_times :: "64 word \<times> 32 word \<Rightarrow> 64 word \<times> 32 word \<Rightarrow> Attr \<Rightarrow> Attr" where
  "with_times mtime now attr = attr\<lparr>Mtime := fst mtime, Mtimensec := snd mtime, Ctime := fst now, Ctimensec := snd now\<rparr>"

definition TypeFile :: "8 word" where "TypeFile = 1"
definition TypeFIFO :: "8 word" where "TypeFIFO = 4"
definition FlagAppend :: "8 word" where "FlagAppend = 2"

text \<open>The results behind the pointers of \<open>doWrite\<close>, \<open>doTruncate\<close> and \<open>doFallocate\<close>; they survive a try that is repeated.\<close>

record file_out =
  fo_num :: nat
  fo_delta :: dirStat
  fo_attr :: Attr

definition zero_out :: "Attr \<Rightarrow> file_out" where
  "zero_out attr = \<lparr>fo_num = 0, fo_delta = zero_dirStat, fo_attr = attr\<rparr>"

section \<open>Writing\<close>

text \<open>The loop that looks for a slice among those of the chunk.\<close>

function has_slice :: "8 word list \<Rightarrow> 8 word list \<Rightarrow> bool" where
  "has_slice val bs = (if bs = [] then False else take sliceBytes bs = val \<or> has_slice val (drop sliceBytes bs))"
  by pat_completeness auto

termination by (relation "measure (\<lambda>(val, bs). length bs)") (auto simp: sliceBytes_def)

declare has_slice.simps [simp del]

definition doWrite_tx :: "settings \<Rightarrow> 64 word \<Rightarrow> 32 word \<Rightarrow> 32 word \<Rightarrow> Slice \<Rightarrow> 64 word \<times> 32 word \<Rightarrow>
    'o file_world \<times> file_out \<Rightarrow> (kverr option \<times> 'o file_world \<times> file_out) option" where
  "doWrite_tx m inode indx off s mtime = (\<lambda>(w, out).
     let out = out\<lparr>fo_delta := zero_dirStat, fo_attr := zero_Attr\<rparr>; chunk = chunk_val inode indx w in
     case inode_vals (fw_acl w) inode of None \<Rightarrow> Some (Some (Eno ENOENT), w, out)
     | Some val \<Rightarrow> Option.bind (Attr_Unmarshal val zero_Attr) (\<lambda>attr.
       if Typ attr \<noteq> TypeFile then Some (Some (Eno EPERM), w, out\<lparr>fo_attr := attr\<rparr>)
       else if length chunk mod sliceBytes \<noteq> 0 then Some (Some (Eno EIO), w, out\<lparr>fo_attr := attr\<rparr>)
       else let newleng = ucast indx * ChunkSize + ucast off + ucast (S_Len s);
                (delta, attr) = (if newleng > Length attr
                  then (\<lparr>ds_length = sint (newleng - Length attr), ds_space = int64_of (align4K newleng - align4K (Length attr)),
                    ds_inodes = 0\<rparr>, attr\<lparr>Length := newleng\<rparr>) else (zero_dirStat, attr));
                out = out\<lparr>fo_delta := delta, fo_attr := attr\<rparr> in
       Option.bind (checkQuota m (ds_space delta) 0 (getParents inode (Parent attr) w) w) (\<lambda>(err, w).
       if err \<noteq> E0 then Some (Some (Eno err), w, out)
       else let (now, w) = clock_now w; attr = with_times mtime now attr; out = out\<lparr>fo_attr := attr\<rparr> in
         Option.bind (marshalSlice \<lparr>sl_id = S_Id s, sl_size = S_Size s, sl_off = S_Off s, sl_len = S_Len s, sl_pos = off\<rparr>) (\<lambda>v.
         if has_slice v chunk then Some (None, w, out)
         else let v = chunk @ v in
           map_option (\<lambda>w. (None, set_chunk inode indx v w, out\<lparr>fo_num := length v div sliceBytes\<rparr>)) (set_attr inode attr w)))))"

definition doWrite where
  "doWrite m os inode indx off s mtime w = file_txn m os (doWrite_tx m inode indx off s mtime) (w, zero_out zero_Attr)"

section \<open>Truncating\<close>

text \<open>The scan that appends a hole to the chunks strictly between the first and the last one.\<close>

definition fill_between :: "64 word \<Rightarrow> 32 word \<Rightarrow> 32 word \<Rightarrow> 8 word list \<Rightarrow> 'o file_world \<Rightarrow> 'o file_world" where
  "fill_between inode lo hi buf w = w\<lparr>chunk_vals := (\<lambda>(i, k).
     if i = inode \<and> lo \<le> k \<and> k < hi then map_option (\<lambda>v. v @ buf) (chunk_vals w (i, k)) else chunk_vals w (i, k))\<rparr>"

definition truncate_chunks :: "64 word \<Rightarrow> 64 word \<Rightarrow> 64 word \<Rightarrow> 'o file_world \<Rightarrow> 'o file_world option" where
  "truncate_chunks inode lo hi w =
     Option.bind (if hi div ChunkSize - lo div ChunkSize > 1
       then map_option (\<lambda>buf. fill_between inode (ucast (lo div ChunkSize) + 1) (ucast (hi div ChunkSize)) buf w)
         (marshalSlice (hole 0 (ucast ChunkSize)))
       else Some w) (\<lambda>w.
     let l = (if hi > (lo div ChunkSize + 1) * ChunkSize then ucast ChunkSize - ucast (lo mod ChunkSize)
              else ucast (hi - lo)) in
     Option.bind (append_chunk inode (ucast (lo div ChunkSize)) (hole (ucast (lo mod ChunkSize)) l) w) (\<lambda>w.
     if hi > (lo div ChunkSize + 1) * ChunkSize \<and> hi mod ChunkSize > 0
     then append_chunk inode (ucast (hi div ChunkSize)) (hole 0 (ucast (hi mod ChunkSize))) w else Some w))"

definition doTruncate_tx :: "settings \<Rightarrow> Context \<Rightarrow> 64 word \<Rightarrow> 8 word \<Rightarrow> 64 word \<Rightarrow> bool \<Rightarrow>
    'o file_world \<times> file_out \<Rightarrow> (kverr option \<times> 'o file_world \<times> file_out) option" where
  "doTruncate_tx m ctx inode flags len skipPermCheck = (\<lambda>(w, out).
     let out = out\<lparr>fo_delta := zero_dirStat\<rparr> in
     case inode_vals (fw_acl w) inode of None \<Rightarrow> Some (Some (Eno ENOENT), w, out)
     | Some val \<Rightarrow> Option.bind (Attr_Unmarshal val zero_Attr) (\<lambda>t.
       if Typ t \<noteq> TypeFile \<or> Flags t AND (FlagImmutable OR (Flags t AND FlagAppend)) \<noteq> 0 \<or> (flags = 0 \<and> Parent t > TrashInode)
       then Some (Some (Eno EPERM), w, out)
       else Option.bind (if skipPermCheck then Some (E0, w) else on_acl (Access ctx inode MODE_MASK_W t) w) (\<lambda>(st, w).
       if st \<noteq> E0 then Some (Some (Eno st), w, out)
       else if len = Length t then Some (None, w, out\<lparr>fo_attr := t\<rparr>)
       else let delta = \<lparr>ds_length = int64_of (sint len - sint (Length t)),
                  ds_space = int64_of (align4K len - align4K (Length t)), ds_inodes = 0\<rparr>; out = out\<lparr>fo_delta := delta\<rparr> in
       Option.bind (checkQuota m (ds_space delta) 0 (getParents inode (Parent t) w) w) (\<lambda>(err, w).
       if err \<noteq> E0 then Some (Some (Eno err), w, out)
       else Option.bind (truncate_chunks inode (min (Length t) len) (max (Length t) len) w) (\<lambda>w.
         let (now, w) = clock_now w; t = with_times now now (t\<lparr>Length := len\<rparr>) in
         map_option (\<lambda>w. (None, w, out\<lparr>fo_attr := t\<rparr>)) (set_attr inode t w))))))"

definition doTruncate where
  "doTruncate m os ctx inode flags len attr skipPermCheck w =
     file_txn m os (doTruncate_tx m ctx inode flags len skipPermCheck) (w, zero_out attr)"

section \<open>Allocating\<close>

definition fallocKeepSize :: "8 word" where "fallocKeepSize = 0x01"
definition fallocPunchHole :: "8 word" where "fallocPunchHole = 0x02"
definition fallocCollapesRange :: "8 word" where "fallocCollapesRange = 0x08"
definition fallocZeroRange :: "8 word" where "fallocZeroRange = 0x10"
definition fallocInsertRange :: "8 word" where "fallocInsertRange = 0x20"

text \<open>The part of the range that lies in the chunk of its first byte.\<close>

definition in_chunk :: "64 word \<Rightarrow> 64 word \<Rightarrow> 64 word" where
  "in_chunk off size1 = (if off mod ChunkSize + size1 > ChunkSize then ChunkSize - off mod ChunkSize else size1)"

text \<open>The size of a chunk as a number.\<close>

definition CS :: nat where "CS = 2 ^ 26"

lemma CS_pos [simp]: "0 < CS"
  by (simp add: CS_def)

lemma unat_ChunkSize: "unat ChunkSize = CS"
  by (simp add: ChunkSize_def CS_def)

lemma unat_mod_Chunk: "unat (off mod ChunkSize) = unat off mod CS"
  by (simp only: unat_mod unat_ChunkSize)

lemma unat_div_Chunk: "unat (off div ChunkSize) = unat off div CS"
  by (simp only: unat_div unat_ChunkSize)

lemma unat_Chunk_minus: "unat (ChunkSize - off mod ChunkSize) = CS - unat off mod CS"
  by (simp add: unat_sub word_le_nat_alt unat_ChunkSize unat_mod_Chunk)

text \<open>The sum in the code can wrap around; then the whole range counts as one part.\<close>

lemma unat_in_chunk:
  "unat (in_chunk off size1) =
     (if unat off mod CS + unat size1 < 2 ^ 64 then min (unat size1) (CS - unat off mod CS) else unat size1)"
proof -
  let ?c = "off mod ChunkSize"
  have c: "unat ?c < CS" unfolding unat_mod_Chunk by simp
  have C: "CS < 2 ^ 64" by (simp add: CS_def)
  have s: "unat size1 < 2 ^ 64" using unsigned_less [of size1] by simp
  have sum: "unat (?c + size1) = (unat ?c + unat size1) mod 2 ^ 64" by (simp add: unat_word_ariths)
  have "ChunkSize < ?c + size1 \<longleftrightarrow> CS < unat ?c + unat size1 \<and> unat ?c + unat size1 < 2 ^ 64"
  proof (cases "unat ?c + unat size1 < 2 ^ 64")
    case True
    then show ?thesis by (simp add: word_less_nat_alt sum unat_ChunkSize)
  next
    case False
    then have "(unat ?c + unat size1) mod 2 ^ 64 = unat ?c + unat size1 - 2 ^ 64"
      using c s C by (simp add: le_mod_geq not_less)
    with False c s C show ?thesis by (simp add: word_less_nat_alt sum unat_ChunkSize)
  qed
  then show ?thesis using c by (auto simp: in_chunk_def unat_Chunk_minus unat_mod_Chunk)
qed

lemma in_chunk_le: "in_chunk off size1 \<le> size1"
  by (simp add: word_le_nat_alt unat_in_chunk)

lemma in_chunk_decreases:
  assumes "size1 \<noteq> 0"
  shows "unat (size1 - in_chunk off size1) < unat size1"
proof -
  have "0 < unat size1" using assms by (simp add: unat_gt_0)
  moreover have "(0::nat) < CS - unat off mod CS" by simp
  ultimately have "0 < unat (in_chunk off size1)" by (simp add: unat_in_chunk)
  with \<open>0 < unat size1\<close> in_chunk_le [of off size1] show ?thesis by (simp add: unat_sub)
qed

function zero_range :: "64 word \<Rightarrow> 64 word \<Rightarrow> 64 word \<Rightarrow> 'o file_world \<Rightarrow> 'o file_world option" where
  "zero_range inode off size1 w =
     (if size1 > 0
      then let l = in_chunk off size1 in
        Option.bind (append_chunk inode (ucast (off div ChunkSize)) (hole (ucast (off mod ChunkSize)) (ucast l)) w)
          (zero_range inode (off + l) (size1 - l))
      else Some w)"
  by pat_completeness auto

termination
  by (relation "measure (\<lambda>(inode, off, size1, w). unat size1)") (simp_all add: in_chunk_decreases word_neq_0_conv)

declare zero_range.simps [simp del]

definition alloc_length :: "8 word \<Rightarrow> 64 word \<Rightarrow> 64 word \<Rightarrow> 64 word \<Rightarrow> 64 word" where
  "alloc_length mode off size1 old = (if off + size1 > old \<and> mode AND fallocKeepSize = 0 then off + size1 else old)"

definition zero_old :: "64 word \<Rightarrow> 8 word \<Rightarrow> 64 word \<Rightarrow> 64 word \<Rightarrow> 64 word \<Rightarrow> 'o file_world \<Rightarrow> 'o file_world option" where
  "zero_old inode mode off size1 old w =
     (if mode AND (fallocZeroRange OR fallocPunchHole) \<noteq> 0 \<and> off < old
      then zero_range inode off (if off + size1 > old then old - off else size1) w else Some w)"

definition doFallocate_tx :: "settings \<Rightarrow> Context \<Rightarrow> 64 word \<Rightarrow> 8 word \<Rightarrow> 64 word \<Rightarrow> 64 word \<Rightarrow>
    'o file_world \<times> file_out \<Rightarrow> (kverr option \<times> 'o file_world \<times> file_out) option" where
  "doFallocate_tx m ctx inode mode off size1 = (\<lambda>(w, out).
     let out = out\<lparr>fo_delta := zero_dirStat\<rparr> in
     case inode_vals (fw_acl w) inode of None \<Rightarrow> Some (Some (Eno ENOENT), w, out)
     | Some val \<Rightarrow> Option.bind (Attr_Unmarshal val zero_Attr) (\<lambda>t.
       if Typ t = TypeFIFO then Some (Some (Eno EPIPE), w, out)
       else if Typ t \<noteq> TypeFile \<or> Flags t AND FlagImmutable \<noteq> 0 then Some (Some (Eno EPERM), w, out)
       else Option.bind (on_acl (Access ctx inode MODE_MASK_W t) w) (\<lambda>(st, w).
       if st \<noteq> E0 then Some (Some (Eno st), w, out)
       else if Flags t AND FlagAppend \<noteq> 0 \<and> mode AND NOT fallocKeepSize \<noteq> 0 then Some (Some (Eno EPERM), w, out)
       else let old = Length t; len = alloc_length mode off size1 old;
                delta = \<lparr>ds_length = int64_of (sint len - sint old), ds_space = int64_of (align4K len - align4K old), ds_inodes = 0\<rparr>;
                out = out\<lparr>fo_delta := delta\<rparr> in
       Option.bind (checkQuota m (ds_space delta) 0 (getParents inode (Parent t) w) w) (\<lambda>(err, w).
       if err \<noteq> E0 then Some (Some (Eno err), w, out)
       else let (now, w) = clock_now w; t = with_times now now (t\<lparr>Length := len\<rparr>) in
         Option.bind (set_attr inode t w) (\<lambda>w.
         map_option (\<lambda>w. (None, w, out\<lparr>fo_attr := t\<rparr>)) (zero_old inode mode off size1 old w))))))"

definition doFallocate where
  "doFallocate m os ctx inode mode off size1 w =
     file_txn m os (doFallocate_tx m ctx inode mode off size1) (w, zero_out zero_Attr)"

section \<open>Copying a range\<close>

record copy_out =
  co_newLength :: int
  co_newSpace :: int
  co_copied :: "64 word"
  co_outLength :: "64 word"
  co_attr :: Attr

text \<open>\<open>tx.incrBy(m.sliceKey(id, size), n)\<close>\<close>

definition ref_count :: "64 word \<Rightarrow> 32 word \<Rightarrow> 'o file_world \<Rightarrow> int" where
  "ref_count i size1 w = (case slice_refs w (i, size1) of None \<Rightarrow> 0 | Some n \<Rightarrow> n)"

definition incr_ref :: "64 word \<Rightarrow> 32 word \<Rightarrow> int \<Rightarrow> 'o file_world \<Rightarrow> 'o file_world" where
  "incr_ref i size1 n w = w\<lparr>slice_refs := (slice_refs w)((i, size1) \<mapsto> int64_of (ref_count i size1 w + n))\<rparr>"

text \<open>A slice is appended to the target, and its counter is increased unless it is a hole.\<close>

definition share_slice :: "64 word \<Rightarrow> 32 word \<Rightarrow> slice \<Rightarrow> 'o file_world \<Rightarrow> 'o file_world option" where
  "share_slice fout indx s w =
     map_option (\<lambda>w. if sl_id s > 0 then incr_ref (sl_id s) (sl_size s) 1 w else w) (append_chunk fout indx s w)"

definition slice_of :: "32 word \<Rightarrow> Slice \<Rightarrow> slice" where
  "slice_of pos s = \<lparr>sl_id = S_Id s, sl_size = S_Size s, sl_off = S_Off s, sl_len = S_Len s, sl_pos = pos\<rparr>"

text \<open>The part of a piece at \<open>pos\<close> that lies in the range that is copied, with its position.\<close>

definition clip :: "64 word \<Rightarrow> 64 word \<Rightarrow> 64 word \<Rightarrow> Slice \<Rightarrow> Slice \<times> 64 word" where
  "clip offIn size1 pos s =
     (let (s, pos) = (if pos < offIn
            then (s\<lparr>S_Off := S_Off s + ucast (offIn - pos), S_Len := S_Len s - ucast (offIn - pos)\<rparr>, offIn) else (s, pos));
          s = (if pos + ucast (S_Len s) > offIn + size1
            then s\<lparr>S_Len := S_Len s - ucast (pos + ucast (S_Len s) - (offIn + size1))\<rparr> else s)
      in (s, pos))"

definition copy_piece :: "64 word \<Rightarrow> 64 word \<Rightarrow> 64 word \<Rightarrow> 64 word \<Rightarrow> Slice \<Rightarrow> 64 word \<Rightarrow> 'o file_world \<Rightarrow> 'o file_world option" where
  "copy_piece offIn size1 fout offOut s pos w =
     (if pos < offIn + size1 \<and> pos + ucast (S_Len s) > offIn
      then let (s, pos) = clip offIn size1 pos s;
               doff = pos - offIn + offOut; indx = ucast (doff div ChunkSize); dpos = ucast (doff mod ChunkSize) in
        if dpos + S_Len s > ucast ChunkSize
        then let skip = ucast ChunkSize - dpos in
          Option.bind (share_slice fout indx (slice_of dpos (s\<lparr>S_Len := skip\<rparr>)) w)
            (share_slice fout (indx + 1) (slice_of 0 (s\<lparr>S_Off := S_Off s + skip, S_Len := S_Len s - skip\<rparr>)))
        else share_slice fout indx (slice_of dpos s) w
      else Some w)"

fun copy_pieces :: "64 word \<Rightarrow> 64 word \<Rightarrow> 64 word \<Rightarrow> 64 word \<Rightarrow> Slice list \<Rightarrow> 64 word \<Rightarrow> 'o file_world \<Rightarrow>
    (64 word \<times> 'o file_world) option" where
  "copy_pieces offIn size1 fout offOut [] coff w = Some (coff, w)"
| "copy_pieces offIn size1 fout offOut (s # cs) coff w =
     Option.bind (copy_piece offIn size1 fout offOut s coff w)
       (copy_pieces offIn size1 fout offOut cs (coff + ucast (S_Len s)))"

partial_function (option) copy_loop :: "(32 word \<Rightarrow> slice list) \<Rightarrow> 64 word \<Rightarrow> 64 word \<Rightarrow> 64 word \<Rightarrow> 64 word \<Rightarrow> 64 word \<Rightarrow>
    'o file_world \<Rightarrow> 'o file_world option" where
  "copy_loop chunks offIn size1 fout offOut coff w =
     (if coff < offIn + size1
      then if coff mod ChunkSize \<noteq> 0 then None
        else Option.bind (copy_pieces offIn size1 fout offOut
            (buildSlice (hole 0 (ucast ChunkSize) # chunks (ucast (coff div ChunkSize)))) coff w)
          (\<lambda>(coff, w). copy_loop chunks offIn size1 fout offOut coff w)
      else Some w)"

text \<open>The slices of the source; a corrupt value gives the inner \<open>None\<close>.\<close>

fun read_chunks :: "64 word \<Rightarrow> 32 word list \<Rightarrow> 'o file_world \<Rightarrow> (32 word \<Rightarrow> slice list) option option" where
  "read_chunks fin [] w = Some (Some (\<lambda>_. []))"
| "read_chunks fin (i # is) w = (case chunk_vals w (fin, i) of
     None \<Rightarrow> read_chunks fin is w
   | Some v \<Rightarrow> Option.bind (readSliceBuf v) (\<lambda>r. case r of
       None \<Rightarrow> Some None
     | Some ss \<Rightarrow> map_option (map_option (\<lambda>f. f(i := ss))) (read_chunks fin is w)))"

definition chunk_range :: "32 word \<Rightarrow> 32 word \<Rightarrow> 32 word list" where
  "chunk_range lo hi = map of_nat [unat lo ..< Suc (unat hi)]"

definition CopyFileRange_tx :: "settings \<Rightarrow> 64 word \<Rightarrow> 64 word \<Rightarrow> 64 word \<Rightarrow> 64 word \<Rightarrow> 64 word \<Rightarrow>
    'o file_world \<times> copy_out \<Rightarrow> (kverr option \<times> 'o file_world \<times> copy_out) option" where
  "CopyFileRange_tx m fin offIn fout offOut size0 = (\<lambda>(w, out).
     let out = out\<lparr>co_newLength := 0, co_newSpace := 0\<rparr> in
     case (inode_vals (fw_acl w) fin, inode_vals (fw_acl w) fout) of
       (Some sval, Some val) \<Rightarrow> Option.bind (Attr_Unmarshal sval zero_Attr) (\<lambda>sattr.
         if Typ sattr \<noteq> TypeFile then Some (Some (Eno EINVAL), w, out)
         else if offIn \<ge> Length sattr then Some (None, w, out\<lparr>co_copied := 0\<rparr>)
         else let size1 = (if offIn + size0 > Length sattr then Length sattr - offIn else size0) in
         Option.bind (Attr_Unmarshal val zero_Attr) (\<lambda>attr. let out = out\<lparr>co_attr := attr\<rparr> in
         if Typ attr \<noteq> TypeFile then Some (Some (Eno EINVAL), w, out)
         else if Flags attr AND FlagImmutable \<noteq> 0 \<or> Flags attr AND FlagAppend \<noteq> 0 then Some (Some (Eno EPERM), w, out)
         else let newleng = offOut + size1;
                  (out, attr) = (if newleng > Length attr
                    then (out\<lparr>co_newLength := sint (newleng - Length attr),
                        co_newSpace := int64_of (align4K newleng - align4K (Length attr))\<rparr>, attr\<lparr>Length := newleng\<rparr>)
                    else (out, attr)) in
         Option.bind (checkQuota m (co_newSpace out) 0 (getParents fout (Parent attr) w) w) (\<lambda>(err, w).
         if err \<noteq> E0 then Some (Some (Eno err), w, out\<lparr>co_attr := attr\<rparr>)
         else let (now, w) = clock_now w; attr = with_times now now attr;
                  out = out\<lparr>co_attr := attr, co_outLength := Length attr\<rparr> in
         Option.bind (read_chunks fin (chunk_range (ucast (offIn div ChunkSize)) (ucast ((offIn + size1) div ChunkSize))) w) (\<lambda>r. case r of
           None \<Rightarrow> Some (Some (Eno EIO), w, out)
         | Some chunks \<Rightarrow> Option.bind (copy_loop chunks offIn size1 fout offOut (offIn div ChunkSize * ChunkSize) w) (\<lambda>w.
             map_option (\<lambda>w. (None, w, out\<lparr>co_copied := size1\<rparr>)) (set_attr fout attr w))))))
     | _ \<Rightarrow> Some (Some (Eno ENOENT), w, out))"

definition invalidate :: "64 word \<Rightarrow> 32 word \<Rightarrow> 'o file_world \<Rightarrow> 'o file_world" where
  "invalidate inode indx w = w\<lparr>fw_of := InvalidateChunk inode indx (fw_of w)\<rparr>"

definition CopyFileRange where
  "CopyFileRange m os fin offIn fout offOut size1 copied outLength w =
     Option.bind (file_txn m os (CopyFileRange_tx m fin offIn fout offOut size1)
       (w, \<lparr>co_newLength = 0, co_newSpace = 0, co_copied = copied, co_outLength = outLength, co_attr = zero_Attr\<rparr>)) (\<lambda>(st, w, out).
     map_option (\<lambda>w. (st, out, invalidate fout invalidateAllChunks w))
       (if st = E0 then updateParentStat m fout (Parent (co_attr out)) (co_newLength out) (co_newSpace out) w else Some w))"

section \<open>New slices and compaction\<close>

text \<open>A transaction on one key of which only the success matters: the error, if any, is the next of \<open>incs\<close>.\<close>

definition key_txn :: "settings \<Rightarrow> 'o file_world \<Rightarrow> kverr option \<times> 'o file_world" where
  "key_txn m w = (if conf_ReadOnly m then (Some (Eno EROFS), w)
     else (shd (incs (fw_acl w)), w\<lparr>fw_acl := (fw_acl w)\<lparr>incs := stl (incs (fw_acl w))\<rparr>\<rparr>))"

definition sliceIdBatch :: "64 word" where "sliceIdBatch = 4096"

definition NewSlice :: "settings \<Rightarrow> 'o file_world \<Rightarrow> (Errno + 64 word) \<times> 'o file_world" where
  "NewSlice m w =
     (let (err, w) = (if fst (freeSlices w) \<ge> snd (freeSlices w)
            then case key_txn m w of
              (Some e, w) \<Rightarrow> (Some e, w)
            | (None, w) \<Rightarrow> let v = nextChunk w + sliceIdBatch in (None, w\<lparr>nextChunk := v, freeSlices := (v - sliceIdBatch, v)\<rparr>)
            else (None, w)) in
      case err of Some e \<Rightarrow> (Inl (errno (Some e)), w)
      | None \<Rightarrow> (Inr (fst (freeSlices w)), w\<lparr>freeSlices := (fst (freeSlices w) + 1, snd (freeSlices w))\<rparr>))"

text \<open>The callbacks that the client of the metadata registers for the messages \<open>CompactChunk\<close> and \<open>DeleteSlice\<close>: they work
  on the object storage and answer with an error or not.\<close>

record 'o callbacks =
  msg_CompactChunk :: "Slice list \<Rightarrow> 64 word \<Rightarrow> 'o \<Rightarrow> bool \<times> 'o"
  msg_DeleteSlice :: "64 word \<Rightarrow> 32 word \<Rightarrow> 'o \<Rightarrow> bool \<times> 'o"

definition deleteSlice :: "settings \<Rightarrow> 'o callbacks \<Rightarrow> 64 word \<Rightarrow> 32 word \<Rightarrow> 'o file_world \<Rightarrow> 'o file_world" where
  "deleteSlice m cb i size1 w =
     (if i = 0 \<or> conf_MaxDeletes m = 0 then w
      else case msg_DeleteSlice cb i size1 (objects w) of
        (False, ob) \<Rightarrow> w\<lparr>objects := ob\<rparr>
      | (True, ob) \<Rightarrow> (case key_txn m (w\<lparr>objects := ob\<rparr>) of
          (Some e, w) \<Rightarrow> w
        | (None, w) \<Rightarrow> w\<lparr>slice_refs := (slice_refs w)((i, size1) := None)\<rparr>))"

definition cleanupZeroRef :: "settings \<Rightarrow> 64 word \<Rightarrow> 32 word \<Rightarrow> 'o file_world \<Rightarrow> 'o file_world" where
  "cleanupZeroRef m i size1 w = (case key_txn m w of
     (Some e, w) \<Rightarrow> w
   | (None, w) \<Rightarrow> if ref_count i size1 w \<noteq> 0 then w else w\<lparr>slice_refs := (slice_refs w)((i, size1) := None)\<rparr>)"

fun drop_refs :: "slice list \<Rightarrow> 'o file_world \<Rightarrow> 'o file_world" where
  "drop_refs [] w = w"
| "drop_refs (s # ss) w = drop_refs ss (if sl_id s > 0 then incr_ref (sl_id s) (sl_size s) (- 1) w else w)"

definition doCompactChunk_tx :: "64 word \<Rightarrow> 32 word \<Rightarrow> 8 word list \<Rightarrow> slice list \<Rightarrow> nat \<Rightarrow> 32 word \<Rightarrow> 64 word \<Rightarrow> 32 word \<Rightarrow>
    8 word list option \<Rightarrow> 'o file_world \<times> unit \<Rightarrow> (kverr option \<times> 'o file_world \<times> unit) option" where
  "doCompactChunk_tx inode indx buf ss skipped pos i size1 delayed = (\<lambda>(w, u).
     let buf2 = chunk_val inode indx w in
     if length buf2 < length buf \<or> buf \<noteq> take (length buf) buf2 then Some (Some (Eno EINVAL), w, u)
     else Option.bind (marshalSlice \<lparr>sl_id = i, sl_size = size1, sl_off = 0, sl_len = size1, sl_pos = pos\<rparr>) (\<lambda>b.
       let w = set_chunk inode indx (take (skipped * sliceBytes) buf2 @ b @ drop (length buf) buf2) w;
           w = w\<lparr>slice_refs := (slice_refs w)((i, size1) \<mapsto> 0)\<rparr> in
       Some (None, case delayed of
         Some d \<Rightarrow> if d = [] then w else let (now, w) = clock_now w in w\<lparr>delSlices := (delSlices w)((fst now, i) \<mapsto> d)\<rparr>
       | None \<Rightarrow> drop_refs ss w, u)))"

fun delete_unused :: "settings \<Rightarrow> 'o callbacks \<Rightarrow> slice list \<Rightarrow> 'o file_world \<Rightarrow> 'o file_world" where
  "delete_unused m cb [] w = w"
| "delete_unused m cb (s # ss) w = delete_unused m cb ss
     (if sl_id s > 0 then case key_txn m w of
        (Some e, w) \<Rightarrow> w
      | (None, w) \<Rightarrow> if ref_count (sl_id s) (sl_size s) w < 0 then deleteSlice m cb (sl_id s) (sl_size s) w else w
      else w)"

definition doCompactChunk where
  "doCompactChunk m cb os inode indx buf ss skipped pos i size1 delayed w =
     map_option (\<lambda>(st, w, u).
       let (st, w) = (if st \<noteq> E0 \<and> st \<noteq> EINVAL
             then case point_read w of
               (Some e, w) \<Rightarrow> (st, w)
             | (None, w) \<Rightarrow> (if slice_refs w (i, size1) \<noteq> None then E0 else EINVAL, w)
             else (st, w)) in
       if st = EINVAL then (case key_txn m w of (Some e, w) \<Rightarrow> (st, w) | (None, w) \<Rightarrow> (st, incr_ref i size1 (- 1) w))
       else if st = E0 then
         let w = cleanupZeroRef m i size1 w in (st, if delayed = None then delete_unused m cb ss w else w)
       else (st, w))
     (file_txn m os (doCompactChunk_tx inode indx buf ss skipped pos i size1 delayed) (w, ()))"

definition encodeDelayedSlice :: "64 word \<Rightarrow> 32 word \<Rightarrow> 8 word list option" where
  "encodeDelayedSlice i size1 = Option.bind (Put64 i (NewBuffer 12)) (\<lambda>b. map_option Bytes (Put32 size1 b))"

fun delayed_slices :: "slice list \<Rightarrow> 8 word list option" where
  "delayed_slices [] = Some []"
| "delayed_slices (s # ss) = (if sl_id s > 0
     then Option.bind (encodeDelayedSlice (sl_id s) (sl_size s)) (\<lambda>b. map_option (\<lambda>bs. b @ bs) (delayed_slices ss))
     else delayed_slices ss)"

fun origin_bytes :: "slice list \<Rightarrow> 8 word list option" where
  "origin_bytes [] = Some []"
| "origin_bytes (s # ss) = Option.bind (marshalSlice s) (\<lambda>b. map_option (\<lambda>bs. b @ bs) (origin_bytes ss))"

definition maxCompactSlices :: nat where "maxCompactSlices = 1000"
definition maxSlices :: nat where "maxSlices = 2500"

definition doRead :: "64 word \<Rightarrow> 32 word \<Rightarrow> 'o file_world \<Rightarrow> ((Errno + slice list option) \<times> 'o file_world) option" where
  "doRead inode indx w = (case point_read w of
     (Some e, w) \<Rightarrow> Some (Inl (errno (Some e)), w)
   | (None, w) \<Rightarrow> map_option (\<lambda>ss. (Inr ss, w)) (readSliceBuf (chunk_val inode indx w)))"

text \<open>Overlap of a skipped slice with the range of the new one: the code panics.\<close>

definition overlaps :: "32 word \<Rightarrow> 32 word \<Rightarrow> slice \<Rightarrow> bool" where
  "overlaps pos size1 s \<longleftrightarrow> pos + size1 > sl_pos s \<and> sl_pos s + sl_len s > pos"

text \<open>What \<open>compactChunk\<close> does between marking the chunk and unmarking it. The first result tells whether it came to the end.\<close>

definition compact_marked :: "settings \<Rightarrow> 'o callbacks \<Rightarrow> ('o file_world \<times> unit) engine_try stream \<Rightarrow> bool \<Rightarrow> 64 word \<Rightarrow> 32 word \<Rightarrow>
    'o file_world \<Rightarrow> (bool \<times> 'o file_world) option" where
  "compact_marked m cb os once inode indx w =
     Option.bind (doRead inode indx w) (\<lambda>(r, w). case r of
       Inl st \<Rightarrow> Some (False, w) | Inr None \<Rightarrow> Some (False, w)
     | Inr (Some ss) \<Rightarrow>
       if once \<and> length ss < maxSlices then Some (False, w)
       else let ss = take maxCompactSlices ss; skipped = skipSome ss; compacted = drop skipped ss;
                (pos, size1, slices) = compactChunk compacted in
         if length compacted < 2 \<or> size1 = 0 then Some (False, w)
         else if list_ex (overlaps pos size1) (take skipped ss) then None
         else case NewSlice m w of
           (Inl st, w) \<Rightarrow> Some (False, w)
         | (Inr i, w) \<Rightarrow> (case msg_CompactChunk cb slices i (objects w) of
             (False, ob) \<Rightarrow> Some (False, w\<lparr>objects := ob\<rparr>)
           | (True, ob) \<Rightarrow>
               Option.bind (if fmt_TrashDays m > 0 then map_option Some (delayed_slices compacted) else Some None) (\<lambda>dsbuf.
               Option.bind (origin_bytes ss) (\<lambda>origin.
               Option.bind (doCompactChunk m cb os inode indx origin compacted skipped pos i size1 dsbuf (w\<lparr>objects := ob\<rparr>)) (\<lambda>(st, w).
               Some (True, if st = EINVAL then deleteSlice m cb i size1 w else if st = E0 then invalidate inode indx w else w))))))"

definition compact_key :: "64 word \<Rightarrow> 32 word \<Rightarrow> 64 word" where
  "compact_key inode indx = inode + push_bit 40 (ucast indx)"

text \<open>A call that has to wait for another compaction of the chunk does not return here: nothing else runs in between.\<close>

partial_function (option) base_compactChunk :: "settings \<Rightarrow> 'o callbacks \<Rightarrow> ('o file_world \<times> unit) engine_try stream stream \<Rightarrow> bool \<Rightarrow> bool \<Rightarrow>
    bool \<Rightarrow> 64 word \<Rightarrow> 32 word \<Rightarrow> 'o file_world \<Rightarrow> 'o file_world option" where
  "base_compactChunk m cb oss canceled once force inode indx w =
     (let k = compact_key inode indx in
      if canceled then Some w
      else if once \<or> force then
        if k \<in> set (compacting w) then None
        else Option.bind (compact_marked m cb (shd oss) once inode indx (w\<lparr>compacting := k # compacting w\<rparr>)) (\<lambda>(end1, w).
          let w = w\<lparr>compacting := removeAll k (compacting w)\<rparr> in
          if end1 \<and> force then base_compactChunk m cb (stl oss) canceled once force inode indx w else Some w)
      else if length (compacting w) > 10 \<or> k \<in> set (compacting w) then Some w
      else map_option (\<lambda>(end1, w). w\<lparr>compacting := removeAll k (compacting w)\<rparr>)
        (compact_marked m cb (shd oss) once inode indx (w\<lparr>compacting := k # compacting w\<rparr>)))"

section \<open>The calls of a client\<close>

definition nanos :: "64 word \<Rightarrow> 32 word \<Rightarrow> int" where
  "nanos sec nsec = sint sec * 10 ^ 9 + uint nsec"

definition relatimeNeedUpdate :: "Attr \<Rightarrow> 64 word \<times> 32 word \<Rightarrow> bool" where
  "relatimeNeedUpdate attr now \<longleftrightarrow>
     (let atime = nanos (Atime attr) (Atimensec attr) in
      nanos (Mtime attr) (Mtimensec attr) > atime \<or> nanos (Ctime attr) (Ctimensec attr) > atime \<or>
      nanos (fst now) (snd now) - atime > 24 * 3600 * 10 ^ 9)"

definition atimeNeedsUpdate :: "settings \<Rightarrow> Attr \<Rightarrow> 64 word \<times> 32 word \<Rightarrow> bool" where
  "atimeNeedsUpdate m attr now \<longleftrightarrow>
     conf_AtimeMode m \<noteq> ''noatime'' \<and> relatimeNeedUpdate attr now \<or>
     conf_AtimeMode m = ''strictatime'' \<and> nanos (fst now) (snd now) - nanos (Atime attr) (Atimensec attr) > 10 ^ 9"

text \<open>The state of the transaction has \<open>attr\<close> and \<open>updated\<close> beside the world.\<close>

definition doTouchAtime_tx :: "settings \<Rightarrow> 64 word \<Rightarrow> 64 word \<times> 32 word \<Rightarrow> 'o file_world \<times> Attr \<times> bool \<Rightarrow>
    (kverr option \<times> 'o file_world \<times> Attr \<times> bool) option" where
  "doTouchAtime_tx m inode now = (\<lambda>(w, attr, updated). case inode_vals (fw_acl w) inode of
     None \<Rightarrow> Some (Some (Eno ENOENT), w, attr, updated)
   | Some a \<Rightarrow> Option.bind (Attr_Unmarshal a attr) (\<lambda>attr.
       if \<not> atimeNeedsUpdate m attr now then Some (None, w, attr, updated)
       else let attr = attr\<lparr>Atime := fst now, Atimensec := snd now\<rparr> in
         map_option (\<lambda>w. (None, w, attr, True)) (set_attr inode attr w)))"

definition touchAtime :: "settings \<Rightarrow> ('o file_world \<times> Attr \<times> bool) engine_try stream \<Rightarrow> 64 word \<Rightarrow> Attr option \<Rightarrow> 'o file_world \<Rightarrow>
    'o file_world option" where
  "touchAtime m os inode attr w =
     (if conf_AtimeMode m = ''noatime'' \<or> conf_ReadOnly m then Some w
      else let attr = (case attr of Some a \<Rightarrow> a
             | None \<Rightarrow> (case find_file inode (fw_of w) of Some f \<Rightarrow> of_attr f | None \<Rightarrow> zero_Attr));
               (now, w) = clock_now w in
        if Full attr \<and> \<not> atimeNeedsUpdate m attr now then Some w
        else map_option (\<lambda>(st, w, attr, updated). if updated then snd (update_open inode attr w) else w)
          (file_txn m os (doTouchAtime_tx m inode now) (w, attr, False)))"

definition InvalidateChunkCache :: "64 word \<Rightarrow> 32 word \<Rightarrow> 'o file_world \<Rightarrow> Errno \<times> 'o file_world" where
  "InvalidateChunkCache inode indx w = (E0, invalidate inode indx w)"

text \<open>\<open>Read\<close> without the goroutine it may start to compact the chunk, and without the deferred call of \<open>touchAtime\<close>.\<close>

definition read_slices :: "64 word \<Rightarrow> 32 word \<Rightarrow> 'o file_world \<Rightarrow> (Errno \<times> Slice list \<times> 'o file_world) option" where
  "read_slices inode indx w = (case ReadChunk inode indx (fw_of w) of
     Some ss \<Rightarrow> Some (E0, ss, w)
   | None \<Rightarrow> Option.bind (doRead inode indx w) (\<lambda>(r, w). case r of
       Inl st \<Rightarrow> Some (st, [], w)
     | Inr None \<Rightarrow> Some (EIO, [], w)
     | Inr (Some ss) \<Rightarrow>
         if ss = [] then map_option (\<lambda>(st, attr, w). (if st \<noteq> E0 then st else if Typ attr \<noteq> TypeFile then EPERM else E0, [], w))
           (doGetAttr inode zero_Attr w)
         else let slices = buildSlice ss in Some (E0, slices, w\<lparr>fw_of := CacheChunk inode indx slices (fw_of w)\<rparr>)))"

definition Read where
  "Read m os inode indx w = Option.bind (read_slices inode indx w) (\<lambda>(st, slices, w).
     map_option (\<lambda>w. (st, slices, w)) (if st = E0 then touchAtime m os inode None w else Some w))"

text \<open>\<open>oss\<close> is for the compaction that \<open>Write\<close> runs itself when the chunk has too many slices.\<close>

definition Write where
  "Write m cb canceled os oss inode indx off s mtime w =
     Option.bind (doWrite m os inode indx off s mtime w) (\<lambda>(st, w, out).
     map_option (\<lambda>w. (st, invalidate inode indx w))
      (if st = E0 then
         Option.bind (updateParentStat m inode (Parent (fo_attr out)) (ds_length (fo_delta out)) (ds_space (fo_delta out)) w) (\<lambda>w.
         if (fo_num out mod 100 = 99 \<or> fo_num out > 350) \<and> fo_num out \<ge> maxSlices
         then base_compactChunk m cb oss canceled True False inode indx w else Some w)
       else Some w))"

definition Truncate where
  "Truncate m os ctx inode flags len attr skipPermCheck w =
     Option.bind (doTruncate m os ctx inode flags len attr skipPermCheck w) (\<lambda>(st, w, out).
     map_option (\<lambda>w. (st, fo_attr out, invalidate inode invalidateAllChunks w))
      (if st = E0 then updateParentStat m inode (Parent (fo_attr out)) (ds_length (fo_delta out)) (ds_space (fo_delta out)) w else Some w))"

definition Fallocate where
  "Fallocate m os ctx inode mode off size1 flength w =
     (if mode AND fallocCollapesRange \<noteq> 0 \<and> mode \<noteq> fallocCollapesRange then Some (EINVAL, flength, w)
      else if mode AND fallocInsertRange \<noteq> 0 \<and> mode \<noteq> fallocInsertRange then Some (EINVAL, flength, w)
      else if mode = fallocInsertRange \<or> mode = fallocCollapesRange then Some (ENOTSUP, flength, w)
      else if mode AND fallocPunchHole \<noteq> 0 \<and> mode AND fallocKeepSize = 0 then Some (EINVAL, flength, w)
      else if size1 = 0 then Some (EINVAL, flength, w)
      else Option.bind (doFallocate m os ctx inode mode off size1 w) (\<lambda>(st, w, out).
        map_option (\<lambda>w. (st, if st = E0 then Length (fo_attr out) else flength, invalidate inode invalidateAllChunks w))
         (if st = E0 then updateParentStat m inode (Parent (fo_attr out)) (ds_length (fo_delta out)) (ds_space (fo_delta out)) w else Some w)))"

definition O_WRONLY :: "32 word" where "O_WRONLY = 0x1"
definition O_RDWR :: "32 word" where "O_RDWR = 0x2"
definition O_TRUNC :: "32 word" where "O_TRUNC = 0x200"
definition O_APPEND :: "32 word" where "O_APPEND = 0x400"

definition open_mask :: "32 word \<Rightarrow> 8 word" where
  "open_mask flags = (let acc = flags AND (O_WRONLY OR O_RDWR) in
     if acc = 0 then if flags AND 0x20 \<noteq> 0 then 1 else 4
     else if acc = O_WRONLY then 2 else if acc = O_RDWR then 6 else 0)"

text \<open>\<open>Open\<close> without the deferred call of \<open>touchAtime\<close>; the attributes are not nil.\<close>

definition open_file :: "settings \<Rightarrow> Context \<Rightarrow> 64 word \<Rightarrow> 32 word \<Rightarrow> Attr \<Rightarrow> 'o file_world \<Rightarrow> (Errno \<times> Attr \<times> 'o file_world) option" where
  "open_file m ctx inode flags attr w =
     (let (now, w) = clock_now w;
          (hit, a, o1) = (if conf_OpenCache m > 0 then OpenCheck inode (Some attr) (sint (fst now)) (fw_of w) else (False, Some attr, fw_of w)) in
      if hit then Some (E0, the a, w\<lparr>fw_of := o1\<rparr>)
      else Option.bind (if \<not> Full attr then GetAttr m inode attr w else Some (E0, attr, w)) (\<lambda>(st, attr, w).
        if st \<noteq> E0 then Some (st, attr, w)
        else Option.bind (on_acl (Access ctx inode (open_mask flags) attr) w) (\<lambda>(st, w).
          if st \<noteq> E0 then Some (st, attr, w)
          else if (Flags attr AND FlagImmutable \<noteq> 0 \<or> Parent attr > TrashInode) \<and> flags AND (O_WRONLY OR O_RDWR) \<noteq> 0
          then Some (EPERM, attr, w)
          else if Flags attr AND FlagAppend \<noteq> 0 \<and>
            (flags AND (O_WRONLY OR O_RDWR) \<noteq> 0 \<and> flags AND O_APPEND = 0 \<or> flags AND O_TRUNC \<noteq> 0)
          then Some (EPERM, attr, w)
          else let (now, w) = clock_now w; (a, o1) = ofs_Open inode (Some attr) (sint (fst now)) (fw_of w) in
            Some (E0, the a, w\<lparr>fw_of := o1\<rparr>))))"

definition base_Open where
  "base_Open m os ctx inode flags attr w =
     (if conf_ReadOnly m \<and> flags AND (O_WRONLY OR O_RDWR OR O_TRUNC OR O_APPEND) \<noteq> 0 then Some (EROFS, attr, w)
      else Option.bind (open_file m ctx inode flags attr w) (\<lambda>(st, attr, w).
        map_option (\<lambda>w. (st, attr, w)) (if st = E0 then touchAtime m os inode (Some attr) w else Some w)))"

definition SetAttr where
  "SetAttr m os ctx inode0 set1 now attr w =
     (let inode = checkRoot m inode0 in
      map_option (\<lambda>(st, acl, attr). let w = w\<lparr>fw_acl := acl\<rparr> in
        if st = E0 then let (attr, w) = update_open inode attr (invalidate inode invalidateAttrOnly w) in (st, attr, w)
        else (st, attr, w))
       (doSetAttr (conf_ReadOnly m) os ctx inode set1 now attr (fw_acl w)))"

end
