(* ===== verification/JFS_FileData.thy ===== *)
theory JFS_FileData
  imports JFS_File
begin

text \<open>
  What the operations of JFS_File do to the bytes of a file. A byte is a hole or the byte of an object: its identifier and
  the offset into it. \<open>file_at\<close> reads a position off the stored chunks; the lemmas give the effect of each change of the
  chunks as a function on positions.
\<close>

unbundle bit_operations_syntax

section \<open>The bytes of a file\<close>

text \<open>A slice that lies within its chunk, and a value that holds such slices.\<close>

definition fits :: "slice \<Rightarrow> bool" where
  "fits s \<longleftrightarrow> sl_len s \<noteq> 0 \<and> slice_end s \<le> CS"

definition chunk_is :: "'o file_world \<Rightarrow> 64 word \<Rightarrow> 32 word \<Rightarrow> slice list \<Rightarrow> bool" where
  "chunk_is w inode indx ss \<longleftrightarrow> chunk_val inode indx w = concat (map slice_bytes ss) \<and> list_all fits ss"

definition chunks_ok :: "'o file_world \<Rightarrow> bool" where
  "chunks_ok w \<longleftrightarrow> (\<forall>inode indx. \<exists>ss. chunk_is w inode indx ss)"

definition slices_at :: "'o file_world \<Rightarrow> 64 word \<Rightarrow> 32 word \<Rightarrow> slice list" where
  "slices_at w inode indx = (case readSliceBuf (chunk_val inode indx w) of Some (Some ss) \<Rightarrow> ss | _ \<Rightarrow> [])"

text \<open>The index of a chunk is a 32-bit number: positions beyond \<open>2 ^ 58\<close> do not exist.\<close>

definition file_limit :: nat where
  "file_limit = 2 ^ 32 * CS"

definition file_at :: "'o file_world \<Rightarrow> 64 word \<Rightarrow> nat \<Rightarrow> (64 word \<times> 32 word) option" where
  "file_at w inode q = (if q < file_limit then latest (slices_at w inode (of_nat (q div CS))) (q mod CS) else None)"

definition overwrite :: "nat \<Rightarrow> nat \<Rightarrow> (nat \<Rightarrow> 'b) \<Rightarrow> (nat \<Rightarrow> 'b) \<Rightarrow> nat \<Rightarrow> 'b" where
  "overwrite lo n g f q = (if lo \<le> q \<and> q < lo + n then g (q - lo) else f q)"

lemma readSliceBuf_concat: "readSliceBuf (concat (map slice_bytes ss)) = Some (Some ss)"
proof -
  have "length (concat (map slice_bytes ss)) div sliceBytes = length ss"
    by (simp only: length_concat_slice_bytes) (simp add: sliceBytes_def)
  then show ?thesis
    using read_from_concat [of ss "[]"] by (simp add: readSliceBuf_def length_concat_slice_bytes)
qed

lemma chunk_is_slices: "chunk_is w inode indx ss \<Longrightarrow> slices_at w inode indx = ss"
  by (simp add: chunk_is_def slices_at_def readSliceBuf_concat)

lemma chunks_okD: "chunks_ok w \<Longrightarrow> chunk_is w inode indx (slices_at w inode indx)"
  unfolding chunks_ok_def using chunk_is_slices by blast

lemma chunk_is_read: "chunk_is w inode indx ss \<Longrightarrow> readSliceBuf (chunk_val inode indx w) = Some (Some ss)"
  by (simp add: chunk_is_def readSliceBuf_concat)

lemma fits_writable: "fits s \<Longrightarrow> writable s"
  by (simp add: fits_def writable_def CS_def)

lemma latest_snoc: "latest (ss @ [s]) q = (if covers s q then slice_at s q else latest ss q)"
  by (induction ss) auto

lemma latest_none: "\<not> list_ex (\<lambda>s. covers s q) ss \<Longrightarrow> latest ss q = None"
  by (induction ss) auto

lemma latest_append: "latest (as @ bs) q = (if list_ex (\<lambda>s. covers s q) bs then latest bs q else latest as q)"
proof (induction bs rule: rev_induct)
  case (snoc b bs)
  then show ?case by (simp add: latest_snoc flip: append_assoc)
qed simp

text \<open>Only the values of the chunks matter.\<close>

lemma file_at_cong: "chunk_vals w' = chunk_vals w \<Longrightarrow> file_at w' = file_at w" "chunk_vals w' = chunk_vals w \<Longrightarrow> chunks_ok w' = chunks_ok w"
  by (auto simp: file_at_def slices_at_def chunk_val_def chunks_ok_def chunk_is_def fun_eq_iff)

lemma of_nat_indx:
  assumes "q < file_limit"
  shows "of_nat (q div CS) = (indx :: 32 word) \<longleftrightarrow> q div CS = unat indx"
proof -
  have "q div CS < 2 ^ 32" using assms unfolding file_limit_def by (rule less_mult_imp_div_less)
  from unat_of_nat_32 [OF this] show ?thesis by (metis word_unat_eq_iff)
qed


section \<open>Appending slices\<close>

lemma set_chunk_val: "chunk_val i k (set_chunk inode indx v w) = (if i = inode \<and> k = indx then v else chunk_val i k w)"
  by (simp add: chunk_val_def set_chunk_def)

lemma append_chunk_eq: "append_chunk inode indx s w = Some (set_chunk inode indx (chunk_val inode indx w @ slice_bytes s) w)"
  by (simp add: append_chunk_def marshalSlice_eq)

lemma covers_byte:
  assumes "slice_end s \<le> CS"
  shows "q div CS = unat indx \<and> covers s (q mod CS) \<longleftrightarrow>
    unat indx * CS + unat (sl_pos s) \<le> q \<and> q < unat indx * CS + unat (sl_pos s) + unat (sl_len s)"
proof -
  define d r where "d = q div CS" and "r = q mod CS"
  have q: "q = d * CS + r" "r < CS" by (simp_all add: d_def r_def)
  have "d = unat indx" if "unat indx * CS \<le> q" "q < (unat indx + 1) * CS"
    unfolding d_def using that by (simp add: div_nat_eqI mult.commute)
  with assms q show ?thesis
    unfolding d_def [symmetric] r_def [symmetric] by (auto simp: covers_def slice_end_def)
qed

lemma unat_indx_bound: "unat (indx :: 32 word) * CS + CS \<le> file_limit"
  using mult_le_mono1 [OF Suc_leI [OF unat_32 [of indx]], of CS] by (simp add: file_limit_def)

text \<open>What a change of one chunk by one slice does to the slices and to the file.\<close>

lemma append_slices:
  assumes "chunks_ok w" and "fits s" and "append_chunk inode indx s w = Some w'"
  shows "chunks_ok w'" "slices_at w' i k = (if i = inode \<and> k = indx then slices_at w inode indx @ [s] else slices_at w i k)"
    "w' = w\<lparr>chunk_vals := chunk_vals w'\<rparr>"
proof -
  have w': "w' = set_chunk inode indx (chunk_val inode indx w @ slice_bytes s) w" using assms(3) by (simp add: append_chunk_eq)
  have ck: "chunk_is w' i k (if i = inode \<and> k = indx then slices_at w inode indx @ [s] else slices_at w i k)" for i k
    using chunks_okD [OF assms(1), of i k] chunks_okD [OF assms(1), of inode indx] assms(2) by (auto simp: chunk_is_def w' set_chunk_val)
  show "chunks_ok w'" unfolding chunks_ok_def using ck by blast
  show "slices_at w' i k = (if i = inode \<and> k = indx then slices_at w inode indx @ [s] else slices_at w i k)"
    by (rule chunk_is_slices [OF ck])
  show "w' = w\<lparr>chunk_vals := chunk_vals w'\<rparr>" by (simp add: w' set_chunk_def)
qed


lemma append_file_at:
  assumes "chunks_ok w" and "fits s" and "append_chunk inode indx s w = Some w'"
  shows "chunks_ok w'"
    and "file_at w' inode = overwrite (unat indx * CS + unat (sl_pos s)) (unat (sl_len s)) (piece_at (sl_id s) (sl_off s)) (file_at w inode)"
    and "i \<noteq> inode \<Longrightarrow> file_at w' i = file_at w i" and "w' = w\<lparr>chunk_vals := chunk_vals w'\<rparr>"
proof -
  note sl = append_slices(2) [OF assms]
  show "chunks_ok w'" "w' = w\<lparr>chunk_vals := chunk_vals w'\<rparr>" using append_slices(1,3) [OF assms] by simp_all
  show "i \<noteq> inode \<Longrightarrow> file_at w' i = file_at w i" by (simp add: file_at_def sl fun_eq_iff)
  have e: "slice_end s \<le> CS" using assms(2) by (simp add: fits_def)
  show "file_at w' inode = overwrite (unat indx * CS + unat (sl_pos s)) (unat (sl_len s)) (piece_at (sl_id s) (sl_off s)) (file_at w inode)"
  proof
    fix q
    show "file_at w' inode q = overwrite (unat indx * CS + unat (sl_pos s)) (unat (sl_len s)) (piece_at (sl_id s) (sl_off s)) (file_at w inode) q"
    proof (cases "q < file_limit")
      case True
      have "slice_at s (q mod CS) = piece_at (sl_id s) (sl_off s) (q - (unat indx * CS + unat (sl_pos s)))"
        if "q div CS = unat indx"
        using that div_mult_mod_eq [of q "CS"] by (metis slice_at_def diff_add_inverse diff_diff_left)
      with covers_byte [OF e, of q indx] True show ?thesis
        by (cases "q div CS = unat indx"; cases "covers s (q mod CS)")
          (auto simp: file_at_def sl latest_snoc of_nat_indx [OF True] overwrite_def)
    next
      case False
      with e unat_indx_bound [of indx] show ?thesis by (auto simp: file_at_def overwrite_def slice_end_def)
    qed
  qed
qed


section \<open>Holes\<close>

text \<open>The slices of the chunk \<open>k\<close> before and after the positions of \<open>S\<close> have become holes: at most one hole is appended, which
  covers exactly the positions of the chunk that are in \<open>S\<close>. A chunk without slices may get any holes, or none.\<close>

definition padded :: "nat set \<Rightarrow> nat \<Rightarrow> slice list \<Rightarrow> slice list \<Rightarrow> bool" where
  "padded S k ss ss' \<longleftrightarrow> (if ss = [] then list_all (\<lambda>s. sl_id s = 0) ss'
     else ss' = ss \<and> (\<forall>q < CS. k * CS + q \<notin> S) \<or>
       (\<exists>h. ss' = ss @ [h] \<and> fits h \<and> sl_id h = 0 \<and> (\<forall>q < CS. covers h q \<longleftrightarrow> k * CS + q \<in> S)))"

lemma fits_covers: "fits s \<Longrightarrow> covers s (unat (sl_pos s)) \<and> unat (sl_pos s) < CS"
  using unat_gt_0 [of "sl_len s"] by (auto simp: fits_def covers_def slice_end_def)

lemma padded_empty: "(\<forall>q < CS. k * CS + q \<notin> S) \<Longrightarrow> padded S k ss ss"
  by (simp add: padded_def)

lemma padded_join:
  assumes "padded S k a b" and "padded T k b c" and "\<And>x y. x \<in> S \<Longrightarrow> y \<in> T \<Longrightarrow> x div CS \<noteq> y div CS"
  shows "padded (S \<union> T) k a c"
proof (cases "a = []")
  case True
  with assms(1,2) show ?thesis by (auto simp: padded_def split: if_splits)
next
  case False
  have apart: "\<not> (k * CS + q \<in> S \<and> k * CS + q' \<in> T)" if "q < CS" "q' < CS" for q q'
    using assms(3) [of "k * CS + q" "k * CS + q'"] that by auto
  have b: "b \<noteq> []" using assms(1) False by (auto simp: padded_def)
  from assms(1) False consider "b = a" "\<forall>q < CS. k * CS + q \<notin> S"
    | h where "b = a @ [h]" "fits h" "sl_id h = 0" "\<forall>q < CS. covers h q \<longleftrightarrow> k * CS + q \<in> S" by (auto simp: padded_def)
  then show ?thesis
  proof cases
    case 1
    with assms(2) False show ?thesis by (auto simp: padded_def)
  next
    case 2
    have "k * CS + q \<notin> T" if "q < CS" for q using apart [OF _ that] fits_covers [OF 2(2)] 2(4) by blast
    moreover have "c = b"
      using assms(2) b fits_covers calculation by (fastforce simp: padded_def)
    ultimately show ?thesis using 2 False by (auto simp: padded_def)
  qed
qed

text \<open>What changes a file by turning the positions of \<open>S\<close> into holes.\<close>

definition punch :: "nat set \<Rightarrow> (nat \<Rightarrow> 'b option) \<Rightarrow> nat \<Rightarrow> 'b option" where
  "punch S f q = (if q \<in> S then None else f q)"

definition punches :: "64 word \<Rightarrow> nat set \<Rightarrow> 'o file_world \<Rightarrow> 'o file_world \<Rightarrow> bool" where
  "punches inode S w w' \<longleftrightarrow> chunks_ok w' \<and> (\<forall>k. padded S (unat k) (slices_at w inode k) (slices_at w' inode k)) \<and>
     (\<forall>i k. i \<noteq> inode \<longrightarrow> slices_at w' i k = slices_at w i k) \<and> w' = w\<lparr>chunk_vals := chunk_vals w'\<rparr>"

lemma latest_holes: "list_all (\<lambda>s. sl_id s = 0) ss \<Longrightarrow> latest ss q = None"
  by (induction ss) (auto simp: slice_at_def piece_at_def)

lemma padded_latest:
  assumes "padded S k ss ss'" and "q < CS"
  shows "latest ss' q = (if k * CS + q \<in> S then None else latest ss q)"
  using assms by (auto simp: padded_def latest_snoc latest_holes slice_at_def piece_at_def split: if_splits)

lemma punches_file_at:
  assumes "punches inode S w w'"
  shows "file_at w' inode = punch S (file_at w inode)" and "i \<noteq> inode \<Longrightarrow> file_at w' i = file_at w i"
proof -
  have "file_at w' inode q = punch S (file_at w inode) q" for q
  proof (cases "q < file_limit")
    case True
    let ?k = "of_nat (q div CS) :: 32 word"
    have k: "unat ?k * CS + q mod CS = q" using of_nat_indx [OF True, of ?k] by simp
    have "padded S (unat ?k) (slices_at w inode ?k) (slices_at w' inode ?k)" using assms by (simp add: punches_def)
    from padded_latest [OF this, of "q mod CS"] k True show ?thesis by (simp add: file_at_def punch_def)
  qed (simp add: file_at_def punch_def)
  then show "file_at w' inode = punch S (file_at w inode)" ..
  show "i \<noteq> inode \<Longrightarrow> file_at w' i = file_at w i" using assms by (simp add: punches_def file_at_def fun_eq_iff)
qed

lemma punches_join:
  assumes "punches inode S w w1" and "punches inode T w1 w2" and "\<And>x y. x \<in> S \<Longrightarrow> y \<in> T \<Longrightarrow> x div CS \<noteq> y div CS"
  shows "punches inode (S \<union> T) w w2"
proof -
  have "w2 = w\<lparr>chunk_vals := chunk_vals w2\<rparr>" using assms(1,2) unfolding punches_def
    by (metis file_world.surjective file_world.update_convs(15))
  moreover have "padded (S \<union> T) (unat k) (slices_at w inode k) (slices_at w2 inode k)" for k
    by (rule padded_join [of S _ _ "slices_at w1 inode k"]) (use assms in \<open>auto simp: punches_def\<close>)
  ultimately show ?thesis using assms(1,2) by (auto simp: punches_def)
qed

lemma punches_refl: "chunks_ok w \<Longrightarrow> punches inode {} w w"
  by (simp add: punches_def padded_empty)

text \<open>Two ranges next to each other, with the end of a chunk between them.\<close>

lemma chunks_apart: "x < m * CS \<Longrightarrow> m * CS \<le> y \<Longrightarrow> x div CS \<noteq> y div CS"
  by (metis div_less_iff_less_mult less_eq_div_iff_mult_less_eq CS_pos not_less)

lemma punches_ranges:
  assumes "punches inode {lo..<m * CS} w w1" and "punches inode {m * CS..<hi} w1 w2" and "lo \<le> m * CS" and "m * CS \<le> hi"
  shows "punches inode {lo..<hi} w w2"
proof -
  have "punches inode ({lo..<m * CS} \<union> {m * CS..<hi}) w w2"
    by (rule punches_join [OF assms(1,2)]) (use chunks_apart in fastforce)
  then show ?thesis using assms(3,4) by (simp add: ivl_disj_un)
qed

lemma punches_ranges_rev:
  assumes "punches inode {m * CS..<hi} w w1" and "punches inode {lo..<m * CS} w1 w2" and "lo \<le> m * CS" and "m * CS \<le> hi"
  shows "punches inode {lo..<hi} w w2"
proof -
  have "punches inode ({m * CS..<hi} \<union> {lo..<m * CS}) w w2"
    by (rule punches_join [OF assms(1,2)]) (use chunks_apart in fastforce)
  then show ?thesis using assms(3,4) by (simp add: Un_commute ivl_disj_un)
qed

lemma append_hole:
  assumes "chunks_ok w" and "n \<noteq> 0" and "unat pos + unat n \<le> CS"
    and "append_chunk inode indx (hole pos n) w = Some w'"
  shows "punches inode {unat indx * CS + unat pos ..< unat indx * CS + unat pos + unat n} w w'"
proof -
  have f: "fits (hole pos n)" using assms(2,3) by (simp add: fits_def hole_def slice_end_def)
  note a = append_slices [OF assms(1) f assms(4)]
  let ?S = "{unat indx * CS + unat pos ..< unat indx * CS + unat pos + unat n}"
  have "padded ?S (unat k) (slices_at w inode k) (slices_at w' inode k)" for k
  proof (cases "k = indx")
    case True
    have "covers (hole pos n) q \<longleftrightarrow> unat k * CS + q \<in> ?S" for q using True by (auto simp: covers_def hole_def slice_end_def)
    with True f show ?thesis by (simp add: a(2) padded_def) (simp add: hole_def)
  next
    case False
    have "unat k * CS + q \<notin> ?S" if "q < CS" for q
    proof
      assume s: "unat k * CS + q \<in> ?S"
      define r where "r = unat k * CS + q - unat indx * CS"
      have r: "unat k * CS + q = unat indx * CS + r" "r < CS" using s assms(3) by (auto simp: r_def)
      have "unat k = (unat k * CS + q) div CS" "(unat indx * CS + r) div CS = unat indx" using that r(2) by simp_all
      with r(1) False show False by (simp add: word_unat_eq_iff)
    qed
    with False show ?thesis by (simp add: a(2) padded_empty)
  qed
  with a show ?thesis unfolding punches_def by simp
qed


lemma unat_chunk_pos [simp]: "unat (ucast ((x :: 64 word) mod ChunkSize) :: 32 word) = unat x mod CS"
proof -
  have "unat x mod CS < 2 ^ 32" by (rule less_trans [OF mod_less_divisor]) (simp_all add: CS_def)
  then show ?thesis by (simp add: unsigned_ucast_eq unat_mod_Chunk take_bit_nat_eq_self)
qed

lemma unat_chunk_indx:
  assumes "unat (x :: 64 word) < file_limit"
  shows "unat (ucast (x div ChunkSize) :: 32 word) = unat x div CS"
proof -
  have "unat x div CS < 2 ^ 32" using assms unfolding file_limit_def by (rule less_mult_imp_div_less)
  then show ?thesis by (simp add: unsigned_ucast_eq unat_div_Chunk take_bit_nat_eq_self)
qed


lemma file_limit_64: "file_limit < 2 ^ 64"
  by (simp add: file_limit_def CS_def)

lemma unat_add_64: "unat (a :: 64 word) + unat b < 2 ^ 64 \<Longrightarrow> unat (a + b) = unat a + unat b"
  by (simp add: unat_word_ariths)

lemma unat_mult_64: "unat (a :: 64 word) * unat b < 2 ^ 64 \<Longrightarrow> unat (a * b) = unat a * unat b"
  by (simp add: unat_word_ariths)

lemma chunk_split: "x div CS * CS + x mod CS = x"
  by simp

lemma unat_ucast_32: "unat (x :: 64 word) < 2 ^ 32 \<Longrightarrow> unat (ucast x :: 32 word) = unat x"
  by (simp add: unsigned_ucast_eq take_bit_nat_eq_self)

text \<open>The loop of \<open>doFallocate\<close> turns exactly the range into a hole.\<close>

lemma zero_range_punches:
  assumes "chunks_ok w" and "unat off + unat size1 \<le> file_limit"
  shows "\<exists>w'. zero_range inode off size1 w = Some w' \<and> punches inode {unat off..<unat off + unat size1} w w'"
  using assms
proof (induction inode off size1 w rule: zero_range.induct)
  case (1 inode off size1 w)
  show ?case
  proof (cases "size1 = 0")
    case True
    then show ?thesis using "1.prems"(1) by (simp add: zero_range.simps punches_refl)
  next
    case False
    let ?l = "in_chunk off size1"
    have s: "0 < unat size1" using False by (simp add: unat_gt_0)
    have off: "unat off < file_limit" using s "1.prems"(2) by simp
    have m: "unat off mod CS < CS" by simp
    have "unat off mod CS + unat size1 < 2 ^ 64"
      using "1.prems"(2) file_limit_64 mod_less_eq_dividend [of "unat off" CS] by linarith
    then have l: "unat ?l = min (unat size1) (CS - unat off mod CS)"
      by (simp add: unat_in_chunk)
    have fit: "unat off mod CS + unat ?l \<le> CS" using m unfolding l by linarith
    have lpos: "0 < unat ?l" using s m by (simp add: l)
    have l32: "unat (ucast ?l :: 32 word) = unat ?l" by (rule unat_ucast_32) (use l in \<open>simp add: CS_def\<close>)
    then have n0: "(ucast ?l :: 32 word) \<noteq> 0" using lpos by (metis unat_0 less_numeral_extra(3))
    let ?s = "hole (ucast (off mod ChunkSize)) (ucast ?l)"
    obtain w1 where w1: "append_chunk inode (ucast (off div ChunkSize)) ?s w = Some w1" by (simp add: append_chunk_eq)
    have p1: "punches inode {unat off..<unat off + unat ?l} w w1"
      using append_hole [OF "1.prems"(1) n0 _ w1] fit by (simp add: l32 unat_chunk_indx [OF off] chunk_split)
    have le: "?l \<le> size1" by (rule in_chunk_le)
    have rest: "unat (off + ?l) = unat off + unat ?l" "unat (size1 - ?l) = unat size1 - unat ?l"
      using "1.prems"(2) file_limit_64 l le by (simp_all add: unat_add_64 unat_sub)
    have "chunks_ok w1" using p1 by (simp add: punches_def)
    then obtain w' where w': "zero_range inode (off + ?l) (size1 - ?l) w1 = Some w'"
      "punches inode {unat off + unat ?l..<unat off + unat size1} w1 w'"
      using "1.IH" [OF _ refl w1] False "1.prems"(2) rest l by (auto simp: word_neq_0_conv)
    have "punches inode {unat off..<unat off + unat size1} w w'"
    proof (cases "unat ?l = unat size1")
      case True
      then have "?l = size1" by (simp add: word_unat_eq_iff)
      with p1 w'(1) show ?thesis by (simp add: zero_range.simps)
    next
      case False
      then have "unat off + unat ?l = (unat off div CS + 1) * CS"
        using l m div_mult_mod_eq [of "unat off" CS] unfolding add_mult_distrib mult_1 by linarith
      from punches_ranges [OF p1 [unfolded this] w'(2) [unfolded this]] this l show ?thesis by simp
    qed
    moreover have "zero_range inode off size1 w = Some w'"
      using False w1 w'(1) by (subst zero_range.simps) (simp add: word_neq_0_conv)
    ultimately show ?thesis by blast
  qed
qed

lemma fill_between_punches:
  assumes "chunks_ok w"
  shows "punches inode {unat lo * CS..<unat hi * CS} w (fill_between inode lo hi (slice_bytes (hole 0 (ucast ChunkSize))) w)"
proof -
  let ?h = "hole 0 (ucast ChunkSize)" let ?w = "fill_between inode lo hi (slice_bytes ?h) w"
  have c32: "unat (ucast ChunkSize :: 32 word) = CS" by (simp add: ChunkSize_def CS_def)
  then have h: "fits ?h" by (simp add: fits_def hole_def slice_end_def) (metis CS_pos less_irrefl unat_0)
  have cov: "covers ?h q \<longleftrightarrow> q < CS" "sl_id ?h = 0" for q
    using c32 by (simp_all add: covers_def hole_def slice_end_def)
  define in_range where "in_range i k \<longleftrightarrow> i = inode \<and> lo \<le> k \<and> k < hi \<and> chunk_vals w (i, k) \<noteq> None" for i k
  have val: "chunk_val i k ?w = (if in_range i k then chunk_val i k w @ slice_bytes ?h else chunk_val i k w)" for i k
    by (auto simp: chunk_val_def fill_between_def in_range_def split: option.split)
  have isk: "chunk_is ?w i k (if in_range i k then slices_at w i k @ [?h] else slices_at w i k)" for i k
    using chunks_okD [OF assms, of i k] h by (simp add: chunk_is_def val)
  note sl = chunk_is_slices [OF isk]
  have "padded {unat lo * CS..<unat hi * CS} (unat k) (slices_at w inode k) (slices_at ?w inode k)" for k
  proof -
    have r: "unat k * CS + q \<in> {unat lo * CS..<unat hi * CS} \<longleftrightarrow> lo \<le> k \<and> k < hi" if "q < CS" for q
    proof -
      have "(unat k * CS + q) div CS = unat k" using that by simp
      then show ?thesis unfolding word_le_nat_alt word_less_nat_alt
        by (metis atLeastLessThan_iff less_eq_div_iff_mult_less_eq div_less_iff_less_mult CS_pos)
    qed
    have "slices_at w inode k = []" if "chunk_vals w (inode, k) = None"
      using chunk_is_slices [of w inode k "[]"] that by (simp add: chunk_is_def chunk_val_def)
    then show ?thesis using h r cov by (auto simp: sl padded_def in_range_def)
  qed
  moreover have "chunks_ok ?w" unfolding chunks_ok_def using isk by blast
  moreover have "slices_at ?w i k = slices_at w i k" if "i \<noteq> inode" for i k using sl that by (simp add: in_range_def)
  ultimately show ?thesis by (simp add: punches_def) (simp add: fill_between_def)
qed


text \<open>What \<open>doTruncate\<close> does to the chunks between the old and the new length: first when both lie in one chunk, then when
  the range reaches into later ones.\<close>

lemma unat_ucast_Chunk: "unat (ucast ChunkSize :: 32 word) = CS"
  by (simp add: ChunkSize_def CS_def)

lemma unat_next_chunk:
  assumes "unat (lo :: 64 word) < file_limit"
  shows "unat ((lo div ChunkSize + 1) * ChunkSize) = (unat lo div CS + 1) * CS"
proof -
  have d: "unat lo div CS < 2 ^ 32" using assms unfolding file_limit_def by (rule less_mult_imp_div_less)
  then have n: "unat (lo div ChunkSize + 1) = unat lo div CS + 1" by (subst unat_add_64) (simp_all add: unat_div_Chunk)
  have "(unat lo div CS + 1) * CS \<le> file_limit" using mult_le_mono1 [OF Suc_leI [OF d], of CS] by (simp add: file_limit_def)
  with file_limit_64 show ?thesis by (subst unat_mult_64) (simp_all add: n unat_ChunkSize)
qed

lemma truncate_one_chunk:
  assumes "chunks_ok w" and "lo < hi" and "unat hi < file_limit" and "unat hi \<le> (unat lo div CS + 1) * CS"
  shows "\<exists>w'. truncate_chunks inode lo hi w = Some w' \<and> punches inode {unat lo..<unat hi} w w'"
proof -
  have ab: "unat lo < unat hi" "unat lo < file_limit" using assms(2,3) by (simp_all add: word_less_nat_alt)
  have b: "unat hi div CS \<le> unat lo div CS + 1" using div_le_mono [OF assms(4), of CS] by simp
  have n: "unat (hi - lo) = unat hi - unat lo" using ab by (simp add: unat_sub word_le_nat_alt)
  have fit: "unat lo mod CS + (unat hi - unat lo) \<le> CS" 
    using assms(4) div_mult_mod_eq [of "unat lo" CS] ab(1) unfolding add_mult_distrib mult_1 by linarith
  have n32: "unat (ucast (hi - lo) :: 32 word) = unat hi - unat lo"
    by (subst unat_ucast_32) (use n fit in \<open>simp_all add: CS_def\<close>)
  then have n0: "(ucast (hi - lo) :: 32 word) \<noteq> 0" using ab(1) by (metis unat_0 zero_less_diff less_numeral_extra(3))
  obtain w' where w': "append_chunk inode (ucast (lo div ChunkSize)) (hole (ucast (lo mod ChunkSize)) (ucast (hi - lo))) w = Some w'"
    by (simp add: append_chunk_eq)
  have "punches inode {unat lo..<unat hi} w w'"
    using append_hole [OF assms(1) n0 _ w'] fit ab(1) by (simp add: n32 unat_chunk_indx [OF ab(2)] chunk_split)
  moreover have "\<not> hi > (lo div ChunkSize + 1) * ChunkSize" "\<not> hi div ChunkSize - lo div ChunkSize > 1"
    using assms(4) unat_next_chunk [OF ab(2)] b div_le_mono [OF less_imp_le [OF ab(1)], of CS]
    by (simp_all add: word_less_nat_alt word_le_nat_alt unat_sub unat_div_Chunk)
  ultimately show ?thesis using w' by (simp add: truncate_chunks_def)
qed

lemma truncate_more_chunks:
  assumes "chunks_ok w" and "unat hi < file_limit" and "(unat lo div CS + 1) * CS < unat hi"
  shows "\<exists>w'. truncate_chunks inode lo hi w = Some w' \<and> punches inode {unat lo..<unat hi} w w'"
proof -
  define da db where "da = unat lo div CS" and "db = unat hi div CS"
  have lt: "unat lo < (da + 1) * CS"
    using mod_less_divisor [OF CS_pos, of "unat lo"] div_mult_mod_eq [of "unat lo" CS] unfolding da_def add_mult_distrib mult_1 by linarith
  have lo: "unat lo < file_limit" using lt assms(2,3) by (simp add: da_def)
  have db: "da + 1 \<le> db" using div_le_mono [OF less_imp_le [OF assms(3)], of CS] by (simp add: da_def db_def)
  have db32: "db < 2 ^ 32" using assms(2) unfolding file_limit_def db_def by (rule less_mult_imp_div_less)
  have hi: "db * CS \<le> unat hi" "unat hi = db * CS + unat hi mod CS" by (simp_all add: db_def)
  have ilo: "unat (ucast (lo div ChunkSize) + 1 :: 32 word) = da + 1"
    using unat_chunk_indx [OF lo] db db32 by (simp add: unat_word_ariths da_def)
  have ihi: "unat (ucast (hi div ChunkSize) :: 32 word) = db" using unat_chunk_indx [OF assms(2)] by (simp add: db_def)
  have gap: "hi div ChunkSize - lo div ChunkSize > 1 \<longleftrightarrow> da + 1 < db"
    using db by (auto simp: word_less_nat_alt unat_sub word_le_nat_alt unat_div_Chunk da_def db_def)
  have beyond: "hi > (lo div ChunkSize + 1) * ChunkSize" using assms(3) unat_next_chunk [OF lo] by (simp add: word_less_nat_alt)
  define w1 where "w1 = (if da + 1 < db then fill_between inode (ucast (lo div ChunkSize) + 1) (ucast (hi div ChunkSize))
      (slice_bytes (hole 0 (ucast ChunkSize))) w else w)"
  have p1: "punches inode {(da + 1) * CS..<db * CS} w w1"
    using fill_between_punches [OF assms(1), of inode "ucast (lo div ChunkSize) + 1" "ucast (hi div ChunkSize)"] db
      punches_refl [OF assms(1)] by (auto simp: w1_def ilo ihi)
  let ?l = "ucast ChunkSize - ucast (lo mod ChunkSize) :: 32 word"
  have l: "unat ?l = CS - unat lo mod CS" using mod_less_divisor [OF CS_pos, of "unat lo"]
    by (simp add: unat_sub word_le_nat_alt unat_ucast_Chunk)
  then have l0: "?l \<noteq> 0" using mod_less_divisor [OF CS_pos, of "unat lo"] by (metis unat_0 zero_less_diff less_numeral_extra(3))
  obtain w2 where w2: "append_chunk inode (ucast (lo div ChunkSize)) (hole (ucast (lo mod ChunkSize)) ?l) w1 = Some w2"
    by (simp add: append_chunk_eq)
  have ok1: "chunks_ok w1" using p1 by (simp add: punches_def)
  have "unat lo + (CS - unat lo mod CS) = (da + 1) * CS"
    using mod_less_divisor [OF CS_pos, of "unat lo"] div_mult_mod_eq [of "unat lo" CS] unfolding da_def add_mult_distrib mult_1 by linarith
  then have p2: "punches inode {unat lo..<(da + 1) * CS} w1 w2"
    using append_hole [OF ok1 l0 _ w2] mod_less_divisor [OF CS_pos, of "unat lo"]
    by (simp add: l unat_chunk_indx [OF lo] chunk_split less_imp_le)
  have p12: "punches inode {unat lo..<db * CS} w w2"
    by (rule punches_ranges_rev [OF p1 p2 less_imp_le [OF lt] mult_le_mono1 [OF db]])
  have run: "truncate_chunks inode lo hi w = Option.bind (append_chunk inode (ucast (lo div ChunkSize)) (hole (ucast (lo mod ChunkSize)) ?l) w1)
      (\<lambda>w. if hi mod ChunkSize > 0 then append_chunk inode (ucast (hi div ChunkSize)) (hole 0 (ucast (hi mod ChunkSize))) w else Some w)"
    using beyond gap by (cases "da + 1 < db") (simp_all add: truncate_chunks_def marshalSlice_eq w1_def)
  show ?thesis
  proof (cases "hi mod ChunkSize > 0")
    case True
    obtain w3 where w3: "append_chunk inode (ucast (hi div ChunkSize)) (hole 0 (ucast (hi mod ChunkSize))) w2 = Some w3"
      by (simp add: append_chunk_eq)
    have h0: "(ucast (hi mod ChunkSize) :: 32 word) \<noteq> 0" using True
      by (metis unat_chunk_pos unat_mod_Chunk unat_0 word_unat_eq_iff less_irrefl)
    have ok2: "chunks_ok w2" using p2 by (simp add: punches_def)
    have "punches inode {db * CS..<unat hi} w2 w3"
      using append_hole [OF ok2 h0 _ w3] hi(2) mod_less_divisor [OF CS_pos, of "unat hi"] by (simp add: ihi less_imp_le)
    from punches_ranges [OF p12 this _ hi(1)] have "punches inode {unat lo..<unat hi} w w3" using lt db
      by (meson le_trans less_imp_le mult_le_mono1)
    then show ?thesis using w2 w3 True by (simp add: run)
  next
    case False
    then have "unat hi mod CS = 0" by (metis unat_mod_Chunk unat_0 word_neq_0_conv)
    then have "unat hi = db * CS" using hi(2) by simp
    then show ?thesis using p12 w2 False by (simp add: run)
  qed
qed

lemma truncate_chunks_punches:
  "chunks_ok w \<Longrightarrow> lo < hi \<Longrightarrow> unat hi < file_limit \<Longrightarrow>
     \<exists>w'. truncate_chunks inode lo hi w = Some w' \<and> punches inode {unat lo..<unat hi} w w'"
  using truncate_one_chunk truncate_more_chunks by (metis not_less)


section \<open>The end of a file\<close>

text \<open>\<open>B\<close> is what the object storage holds at an offset of an object.\<close>

type_synonym blocks = "64 word \<times> 32 word \<Rightarrow> 8 word"

definition byte :: "blocks \<Rightarrow> (64 word \<times> 32 word) option \<Rightarrow> 8 word" where
  "byte B x = (case x of None \<Rightarrow> 0 | Some y \<Rightarrow> B y)"

lemma byte_None [simp]: "byte B None = 0"
  by (simp add: byte_def)

text \<open>A slice has only zeros from \<open>L\<close> on.\<close>

definition ends_by :: "blocks \<Rightarrow> slice \<Rightarrow> nat \<Rightarrow> bool" where
  "ends_by B s L \<longleftrightarrow> (\<forall>q \<ge> L. covers s q \<longrightarrow> byte B (slice_at s q) = 0)"

lemma ends_by_hole: "sl_id s = 0 \<Longrightarrow> ends_by B s L"
  by (simp add: ends_by_def slice_at_def piece_at_def)

lemma ends_by_end: "slice_end s \<le> L \<Longrightarrow> ends_by B s L"
  by (simp add: ends_by_def covers_def)

text \<open>How a chunk came to its slices, with the length of the file inside the chunk: the file grows, a slice is written before its end, or
  the file is cut off with zeros up to its old end.\<close>

inductive grown :: "blocks \<Rightarrow> slice list \<Rightarrow> nat \<Rightarrow> bool" for B where
  grown_nil: "grown B [] L"
| grown_more: "grown B ss L \<Longrightarrow> L \<le> L' \<Longrightarrow> grown B ss L'"
| grown_slice: "grown B ss L \<Longrightarrow> ends_by B s L \<Longrightarrow> grown B (ss @ [s]) L"
| grown_cut: "grown B ss L \<Longrightarrow> ends_by B s L' \<Longrightarrow> \<forall>q. L' \<le> q \<and> q < L \<longrightarrow> covers s q \<Longrightarrow> grown B (ss @ [s]) L'"

lemma grown_list: "list_all (\<lambda>s. ends_by B s L) ss \<Longrightarrow> grown B ss L"
  by (induction ss rule: rev_induct) (auto intro: grown_nil grown_slice)

lemma grown_tail: "grown B ss L \<Longrightarrow> L \<le> q \<Longrightarrow> byte B (latest ss q) = 0"
proof (induction rule: grown.induct)
  case (grown_cut ss L s L')
  then show ?case by (cases "covers s q"; cases "q < L") (auto simp: latest_snoc ends_by_def)
qed (auto simp: latest_snoc ends_by_def)

lemma ends_by_cong: "(\<And>off. B' (sl_id s, off) = B (sl_id s, off)) \<Longrightarrow> ends_by B' s L = ends_by B s L"
  by (simp add: ends_by_def byte_def slice_at_def piece_at_def)

lemma grown_cong: "grown B ss L \<Longrightarrow> (\<And>s off. s \<in> set ss \<Longrightarrow> B' (sl_id s, off) = B (sl_id s, off)) \<Longrightarrow> grown B' ss L"
proof (induction rule: grown.induct)
  case (grown_slice ss L s)
  then show ?case using ends_by_cong [of B' s B L] by (auto intro: grown.intros)
next
  case (grown_cut ss L s L')
  then show ?case using ends_by_cong [of B' s B L'] by (auto intro: grown.intros)
qed (auto intro: grown.intros)

text \<open>The part of the length that lies in a chunk.\<close>

definition rel_len :: "nat \<Rightarrow> nat \<Rightarrow> nat" where
  "rel_len len k = min CS (len - k * CS)"

definition grown_file :: "blocks \<Rightarrow> 'o file_world \<Rightarrow> 64 word \<Rightarrow> nat \<Rightarrow> bool" where
  "grown_file B w inode len \<longleftrightarrow> (\<forall>k. grown B (slices_at w inode k) (rel_len len (unat k)))"

lemma rel_len_mono: "len \<le> len' \<Longrightarrow> rel_len len k \<le> rel_len len' k"
  by (auto simp: rel_len_def)

lemma rel_len_less: "q < CS \<Longrightarrow> q < rel_len len k \<longleftrightarrow> k * CS + q < len"
  by (auto simp: rel_len_def)

lemma grown_file_more: "grown_file B w inode len \<Longrightarrow> len \<le> len' \<Longrightarrow> grown_file B w inode len'"
  unfolding grown_file_def using grown_more [OF _ rel_len_mono] by blast

lemma grown_file_slice:
  assumes "grown_file B w inode len" and "unat indx * CS + slice_end s \<le> len" and "fits s"
    and "\<And>k. slices_at w' inode k = (if k = indx then slices_at w inode indx @ [s] else slices_at w inode k)"
  shows "grown_file B w' inode len"
proof -
  have "ends_by B s (rel_len len (unat indx))" using assms(2,3) by (intro ends_by_end) (auto simp: rel_len_def fits_def)
  with assms(1,4) grown_slice show ?thesis by (auto simp: grown_file_def)
qed

lemma grown_padded:
  assumes "grown B ss L" and "padded S k ss ss'"
  shows "grown B ss' L"
proof (cases "ss = []")
  case True
  then show ?thesis using assms(2) by (auto simp: padded_def list_all_iff ends_by_hole intro!: grown_list)
qed (use assms in \<open>auto simp: padded_def ends_by_hole intro: grown_slice\<close>)

lemma grown_padded_cut:
  assumes "grown B ss (rel_len hi k)" and "padded {lo..<hi} k ss ss'" and "lo \<le> hi"
  shows "grown B ss' (rel_len lo k)"
proof (cases "ss = []")
  case True
  then show ?thesis using assms(2) by (auto simp: padded_def list_all_iff ends_by_hole intro!: grown_list)
next
  case False
  have le: "rel_len hi k \<le> rel_len lo k" if "\<forall>q < CS. k * CS + q \<notin> {lo..<hi}"
  proof (rule ccontr)
    assume "\<not> rel_len hi k \<le> rel_len lo k"
    then have "rel_len lo k < CS" "lo \<le> k * CS + rel_len lo k" "k * CS + rel_len lo k < hi" by (auto simp: rel_len_def)
    with that show False by auto
  qed
  from assms(2) False consider "ss' = ss" "\<forall>q < CS. k * CS + q \<notin> {lo..<hi}"
    | h where "ss' = ss @ [h]" "sl_id h = 0" "\<forall>q < CS. covers h q \<longleftrightarrow> k * CS + q \<in> {lo..<hi}" by (auto simp: padded_def)
  then show ?thesis
  proof cases
    case 1
    with assms(1) le show ?thesis by (auto intro: grown_more)
  next
    case 2
    have "covers h q" if "rel_len lo k \<le> q" "q < rel_len hi k" for q
    proof -
      have "q < CS" using that by (simp add: rel_len_def)
      moreover have "lo \<le> k * CS + q" using that calculation rel_len_less [of q lo k] by simp
      ultimately show ?thesis using 2(3) that rel_len_less [of q hi k] by simp
    qed
    with assms(1) 2 show ?thesis by (auto simp: ends_by_hole intro: grown_cut)
  qed
qed

lemma grown_file_punches:
  assumes "punches inode S w w'"
  shows "grown_file B w inode len \<Longrightarrow> grown_file B w' inode len"
    and "S = {lo..<hi} \<Longrightarrow> lo \<le> hi \<Longrightarrow> grown_file B w inode hi \<Longrightarrow> grown_file B w' inode lo"
  using assms grown_padded grown_padded_cut unfolding punches_def grown_file_def by blast+

section \<open>Files as lengths and contents\<close>

definition stored :: "'o file_world \<Rightarrow> 64 word \<Rightarrow> Attr \<Rightarrow> bool" where
  "stored w inode a \<longleftrightarrow> inode_vals (fw_acl w) inode = Attr_Marshal a \<and> attr_ok a"

definition tail_ok :: "blocks \<Rightarrow> 'o file_world \<Rightarrow> 64 word \<Rightarrow> Attr \<Rightarrow> bool" where
  "tail_ok B w inode a \<longleftrightarrow> (Typ a = TypeFile \<longrightarrow> unat (Length a) < file_limit \<and> grown_file B w inode (unat (Length a)))"

text \<open>The invariant of the files: the values of the engine can be read, and what lies behind the end of a file is blank.\<close>

definition files_ok :: "blocks \<Rightarrow> 'o file_world \<Rightarrow> bool" where
  "files_ok B w \<longleftrightarrow> chunks_ok w \<and>
     (\<forall>inode. inode_vals (fw_acl w) inode \<noteq> None \<longrightarrow> (\<exists>a. stored w inode a \<and> tail_ok B w inode a))"

text \<open>The abstract file: its length and its bytes.\<close>

type_synonym afile = "nat \<times> (nat \<Rightarrow> 8 word)"

definition bytes :: "blocks \<Rightarrow> 'o file_world \<Rightarrow> 64 word \<Rightarrow> nat \<Rightarrow> 8 word" where
  "bytes B w inode q = byte B (file_at w inode q)"

definition view :: "blocks \<Rightarrow> 'o file_world \<Rightarrow> 64 word \<Rightarrow> afile option" where
  "view B w inode = Option.bind (inode_vals (fw_acl w) inode) (\<lambda>v.
     map_option (\<lambda>a. (unat (Length a), bytes B w inode)) (Attr_Unmarshal v zero_Attr))"

definition af_write :: "nat \<Rightarrow> nat \<Rightarrow> (nat \<Rightarrow> 8 word) \<Rightarrow> afile \<Rightarrow> afile" where
  "af_write lo n g = (\<lambda>(len, f). (max len (lo + n), overwrite lo n g f))"

definition af_truncate :: "nat \<Rightarrow> afile \<Rightarrow> afile" where
  "af_truncate l = (\<lambda>(len, f). (l, \<lambda>q. if q < l then f q else 0))"

text \<open>The length after an allocation, and the range that is zeroed, cut off at the old end.\<close>

definition af_fallocate :: "8 word \<Rightarrow> nat \<Rightarrow> nat \<Rightarrow> afile \<Rightarrow> afile" where
  "af_fallocate mode off n = (\<lambda>(len, f). (if mode AND fallocKeepSize = 0 then max len (off + n) else len,
     if mode AND (fallocZeroRange OR fallocPunchHole) \<noteq> 0 then overwrite off (min len (off + n) - off) (\<lambda>_. 0) f else f))"

lemma byte_overwrite: "(\<lambda>q. byte B (overwrite lo n g f q)) = overwrite lo n (\<lambda>q. byte B (g q)) (\<lambda>q. byte B (f q))"
  by (simp add: overwrite_def fun_eq_iff)

lemma bytes_punched: "file_at w' inode = punch S (file_at w inode) \<Longrightarrow> bytes B w' inode = (\<lambda>q. if q \<in> S then 0 else bytes B w inode q)"
  by (auto simp: bytes_def punch_def byte_def)

lemma tail_bytes:
  assumes "grown_file B w inode len" and "len \<le> q"
  shows "bytes B w inode q = 0"
proof (cases "q < file_limit")
  case True
  let ?k = "of_nat (q div CS) :: 32 word"
  have k: "unat ?k * CS + q mod CS = q" using of_nat_indx [OF True, of ?k] by simp
  have "\<not> q mod CS < rel_len len (unat ?k)" using rel_len_less [of "q mod CS" len "unat ?k"] k assms(2) by simp
  then show ?thesis using grown_tail [of B "slices_at w inode ?k" "rel_len len (unat ?k)" "q mod CS"] assms(1) True
    by (simp add: grown_file_def bytes_def file_at_def)
qed (simp add: bytes_def file_at_def)


lemma stored_read: "stored w inode a \<Longrightarrow> \<exists>v. inode_vals (fw_acl w) inode = Some v \<and> Attr_Unmarshal v zero_Attr = Some a"
  using attr_read_back [of a] by (auto simp: stored_def Option.bind_eq_Some_conv)

lemma stored_view: "stored w inode a \<Longrightarrow> view B w inode = Some (unat (Length a), bytes B w inode)"
  using stored_read by (force simp: view_def)

lemma files_okD:
  assumes "files_ok B w"
  shows "chunks_ok w" and "inode_vals (fw_acl w) inode = Some v \<Longrightarrow> \<exists>a. stored w inode a \<and> tail_ok B w inode a \<and> Attr_Unmarshal v zero_Attr = Some a"
  using assms stored_read by (fastforce simp: files_ok_def)+

text \<open>Only the slices of the chunks matter.\<close>

lemma slices_at_cong: "chunk_vals w' = chunk_vals w \<Longrightarrow> slices_at w' = slices_at w"
  by (simp add: slices_at_def chunk_val_def fun_eq_iff)

lemma file_at_slices: "slices_at w' i = slices_at w i \<Longrightarrow> file_at w' i = file_at w i"
  by (simp add: file_at_def fun_eq_iff)

lemma bytes_slices: "slices_at w' i = slices_at w i \<Longrightarrow> bytes B w' i = bytes B w i"
  using file_at_slices [of w' i w] by (simp add: bytes_def fun_eq_iff)

lemma grown_file_slices: "slices_at w' i = slices_at w i \<Longrightarrow> grown_file B w' i = grown_file B w i"
  by (simp add: grown_file_def fun_eq_iff)

lemma engine_files:
  assumes "inode_vals (fw_acl w') = inode_vals (fw_acl w)" and "chunk_vals w' = chunk_vals w"
  shows "files_ok B w' = files_ok B w" "view B w' = view B w" "slices_at w' = slices_at w" "stored w' = stored w"
proof -
  show sl: "slices_at w' = slices_at w" by (rule slices_at_cong [OF assms(2)])
  show s: "stored w' = stored w" by (simp add: fun_eq_iff stored_def assms)
  have f: "file_at w' = file_at w" by (rule file_at_cong(1) [OF assms(2)])
  show "view B w' = view B w" by (simp add: fun_eq_iff view_def bytes_def [abs_def] assms f)
  show "files_ok B w' = files_ok B w"
    using file_at_cong(2) [OF assms(2)] by (simp add: files_ok_def tail_ok_def grown_file_def sl assms s)
qed

lemma same_engine_files:
  assumes "same_engine w w'"
  shows "files_ok B w' = files_ok B w" "view B w' = view B w" "slices_at w' = slices_at w" "stored w' = stored w"
  using engine_files [of w' w] assms by (simp_all add: same_engine_def)

lemma quiet_files: "quiet_step w w' \<Longrightarrow> files_ok B w' = files_ok B w" "quiet_step w w' \<Longrightarrow> view B w' = view B w"
  "quiet_step w w' \<Longrightarrow> slices_at w' = slices_at w" "quiet_step w w' \<Longrightarrow> stored w' = stored w"
  using same_engine_files by (auto simp: quiet_step_def)

lemma set_attr_stores:
  assumes "attr_ok a"
  obtains w' where "set_attr inode a w = Some w'" "stored w' inode a" "\<And>i b. i \<noteq> inode \<Longrightarrow> stored w' i b = stored w i b"
    "chunk_vals w' = chunk_vals w" "slice_refs w' = slice_refs w" "objects w' = objects w" "fw_of w' = fw_of w"
    "inode_vals (fw_acl w') = (inode_vals (fw_acl w))(inode := Attr_Marshal a)"
proof -
  obtain d where d: "Attr_Marshal a = Some d" using assms Attr_Marshal_bytes by (auto simp: attr_ok_def)
  show thesis
    by (rule that [of "w\<lparr>fw_acl := (fw_acl w)\<lparr>inode_vals := (inode_vals (fw_acl w))(inode \<mapsto> d)\<rparr>\<rparr>"]) (use assms d in \<open>auto simp: set_attr_def store_attr_def stored_def\<close>)
qed

text \<open>One file changes as \<open>F\<close> says, the others stay as they are.\<close>

definition updates :: "blocks \<Rightarrow> 64 word \<Rightarrow> (afile \<Rightarrow> afile) \<Rightarrow> 'o file_world \<Rightarrow> 'o file_world \<Rightarrow> bool" where
  "updates B inode F w w' \<longleftrightarrow> files_ok B w' \<and> view B w' = (view B w)(inode := map_option F (view B w inode)) \<and>
     (\<forall>i k. i \<noteq> inode \<longrightarrow> slices_at w' i k = slices_at w i k) \<and> objects w' = objects w \<and> chunks.shrinks (fw_of w) (fw_of w')"

lemma updates_quiet:
  "quiet_step w w' \<Longrightarrow> files_ok B w \<Longrightarrow> view B w inode = Some x \<Longrightarrow> F x = x \<Longrightarrow> updates B inode F w w'"
  using quiet_files [of w w'] by (auto simp: updates_def quiet_step_def same_engine_def)

text \<open>The common end of the transactions: the chunks of one inode were changed, and its attributes are stored.\<close>

lemma finish_update:
  assumes ok: "files_ok B w" and a: "stored w inode a" and w1: "quiet_step w w1"
    and w2: "chunks_ok w2" "\<And>i k. i \<noteq> inode \<Longrightarrow> slices_at w2 i k = slices_at w1 i k"
      "inode_vals (fw_acl w2) = (inode_vals (fw_acl w1))(inode := Attr_Marshal b)"
      "objects w2 = objects w1" "chunks.shrinks (fw_of w1) (fw_of w2)"
    and b: "attr_ok b" "tail_ok B w2 inode b" "(unat (Length b), bytes B w2 inode) = F (unat (Length a), bytes B w1 inode)"
  shows "updates B inode F w w2"
proof -
  have st: "stored w2 i c = (if i = inode then stored w2 inode c else stored w i c)" for i c
    using w1 w2(3) by (simp add: stored_def quiet_step_def same_engine_def)
  have b2: "stored w2 inode b" using w2(3) b(1) by (simp add: stored_def)
  have sl: "slices_at w1 = slices_at w" by (rule quiet_files(3) [OF w1])
  then have fa: "bytes B w1 = bytes B w" using bytes_slices [of w1 _ w B] by (auto simp: fun_eq_iff)
  have sl2: "slices_at w2 i = slices_at w i" if "i \<noteq> inode" for i using w2(2) that sl by (simp add: fun_eq_iff)
  have "\<exists>c. stored w2 i c \<and> tail_ok B w2 i c" if "inode_vals (fw_acl w2) i \<noteq> None" for i
  proof (cases "i = inode")
    case False
    with that w1 w2(3) have "inode_vals (fw_acl w) i \<noteq> None" by (simp add: quiet_step_def same_engine_def)
    then obtain c where "stored w i c" "tail_ok B w i c" using ok by (auto simp: files_ok_def)
    with False show ?thesis using grown_file_slices [OF sl2 [OF False]] by (auto simp: st tail_ok_def)
  qed (use b2 b(2) in blast)
  then have "files_ok B w2" using w2(1) by (simp add: files_ok_def)
  moreover have "view B w2 i = ((view B w)(inode := map_option F (view B w inode))) i" for i
  proof (cases "i = inode")
    case True
    then show ?thesis using stored_view [OF b2] stored_view [OF a] b(3) fa by simp
  next
    case False
    have "bytes B w2 i = bytes B w i" by (rule bytes_slices [OF sl2 [OF False]])
    with False show ?thesis using w1 w2(3) by (simp add: view_def quiet_step_def same_engine_def)
  qed
  moreover have "objects w2 = objects w" using w1 w2(4) by (simp add: quiet_step_def same_engine_def)
  moreover have "chunks.shrinks (fw_of w) (fw_of w2)" using w1 w2(5) chunks.shrinks_trans by (auto simp: quiet_step_def)
  ultimately show ?thesis using sl2 by (auto simp: updates_def)
qed


section \<open>Writing\<close>

lemma slice_bytes_inj: "slice_bytes s = slice_bytes t \<longleftrightarrow> s = t"
  using slice_read_eq [of s "[]"] slice_read_eq [of t "[]"] by (metis option.inject)

lemma has_slice_concat: "has_slice (slice_bytes s) (concat (map slice_bytes ss)) \<longleftrightarrow> s \<in> set ss"
proof (induction ss)
  case (Cons t ss)
  have "slice_bytes t \<noteq> []" by (metis length_slice_bytes sliceBytes_def list.size(3) zero_neq_numeral)
  then show ?case using Cons by (subst has_slice.simps) (auto simp: slice_bytes_inj)
qed (simp add: has_slice.simps)

lemma attr_ok_changes:
  "attr_ok a \<Longrightarrow> attr_ok (with_times t now a)" "attr_ok a \<Longrightarrow> attr_ok (a\<lparr>Length := l\<rparr>)"
  "attr_ok a \<Longrightarrow> attr_ok (a\<lparr>Atime := x, Atimensec := y\<rparr>)"
  by (simp_all add: attr_ok_def acl_ids_ok_def with_times_def)

lemma with_times_fields [simp]: "Length (with_times t now a) = Length a" "Typ (with_times t now a) = Typ a" "Parent (with_times t now a) = Parent a"
  by (simp_all add: with_times_def)

text \<open>The steps of a body of \<open>doWrite\<close> that is committed.\<close>

lemma doWrite_tx_steps:
  assumes "doWrite_tx m inode indx off s mtime (w, out) = Some (None, w', out')"
    and "inode_vals (fw_acl w) inode = Some v" and "Attr_Unmarshal v zero_Attr = Some a"
  obtains w1 now where "quiet_step w w1" "Typ a = TypeFile"
    "let leng = ucast indx * ChunkSize + ucast off + ucast (S_Len s);
         b = with_times mtime now (a\<lparr>Length := max (Length a) leng\<rparr>); chunk = chunk_val inode indx w
     in if has_slice (slice_bytes (slice_of off s)) chunk then w' = w1
        else \<exists>w2. set_attr inode b w1 = Some w2 \<and> w' = set_chunk inode indx (chunk @ slice_bytes (slice_of off s)) w2"
proof -
  define leng where "leng = ucast indx * ChunkSize + ucast off + ucast (S_Len s)"
  define a1 where "a1 = (if leng > Length a then a\<lparr>Length := leng\<rparr> else a)"
  have a1: "a1 = a\<lparr>Length := max (Length a) leng\<rparr>" by (simp add: a1_def max_def)
  have ty: "Typ a = TypeFile" using assms by (auto simp: doWrite_tx_def Let_def split: if_splits)
  have md: "length (chunk_val inode indx w) mod sliceBytes = 0"
    using assms ty by (auto simp: doWrite_tx_def Let_def split: if_splits)
  obtain dl w0 where q: "checkQuota m dl 0 (getParents inode (Parent a) w) w = Some (E0, w0)"
    and rest: "let (now, w1) = clock_now w0; b = with_times mtime now a1 in
      if has_slice (slice_bytes (slice_of off s)) (chunk_val inode indx w) then w' = w1
      else \<exists>w2. set_attr inode b w1 = Some w2 \<and> w' = set_chunk inode indx (chunk_val inode indx w @ slice_bytes (slice_of off s)) w2"
    using assms ty md
    by (cases "leng > Length a")
       (auto simp: doWrite_tx_def Let_def Option.bind_eq_Some_conv marshalSlice_eq slice_of_def a1_def
          leng_def [symmetric] split: if_splits prod.splits)
  obtain now w1 where c: "clock_now w0 = (now, w1)" by fastforce
  have "quiet_step w w1" using quiet_checkQuota [OF q] quiet_clock [of w0] quiet_trans c by (metis snd_conv)
  from that [OF this ty, of now] rest show thesis unfolding a1 c Let_def leng_def by simp
qed

lemma unat_newleng:
  assumes "unat (indx :: 32 word) * CS + unat (off :: 32 word) + unat (n :: 32 word) < file_limit"
  shows "unat (ucast indx * ChunkSize + ucast off + ucast n :: 64 word) = unat indx * CS + unat off + unat n"
proof -
  have u: "unat (ucast x :: 64 word) = unat (x :: 32 word)" for x by (simp add: unsigned_ucast_eq take_bit_nat_eq_self order.strict_trans [OF unat_32])
  have p: "unat (ucast indx * ChunkSize :: 64 word) = unat indx * CS"
    using assms file_limit_64 by (subst unat_mult_64) (simp_all add: u unat_ChunkSize)
  show ?thesis
    using assms file_limit_64 by (subst unat_add_64, subst unat_add_64) (simp_all add: u p unat_add_64)
qed

lemma unat_max: "unat (max a b) = max (unat a) (unat b)"
  by (simp add: max_def word_le_nat_alt)

text \<open>A write changes the bytes of its range and nothing else, and extends the file when it ends behind it. A slice that the chunk
  holds already is not written again.\<close>

lemma doWrite_tx_effect:
  assumes ok: "files_ok B w" and run: "doWrite_tx m inode indx off s mtime (w, out) = Some (None, w', out')"
    and len: "S_Len s \<noteq> 0" "unat off + unat (S_Len s) \<le> CS" "unat indx * CS + unat off + unat (S_Len s) < file_limit"
  shows "if slice_of off s \<in> set (slices_at w inode indx) then quiet_step w w'
    else updates B inode (af_write (unat indx * CS + unat off) (unat (S_Len s)) (\<lambda>q. byte B (piece_at (S_Id s) (S_Off s) q))) w w' \<and>
      (\<forall>k. slices_at w' inode k = (if k = indx then slices_at w inode indx @ [slice_of off s] else slices_at w inode k))"
proof -
  obtain v where v: "inode_vals (fw_acl w) inode = Some v"
    using run by (auto simp: doWrite_tx_def Let_def split: option.splits)
  obtain a where a: "stored w inode a" "tail_ok B w inode a" "Attr_Unmarshal v zero_Attr = Some a"
    using files_okD(2) [OF ok v] by blast
  have ck: "chunk_is w inode indx (slices_at w inode indx)" by (rule chunks_okD [OF files_okD(1) [OF ok]])
  define leng where "leng = (ucast indx * ChunkSize + ucast off + ucast (S_Len s) :: 64 word)"
  have leng: "unat leng = unat indx * CS + unat off + unat (S_Len s)" unfolding leng_def by (rule unat_newleng [OF len(3)])
  obtain w1 now where w1: "quiet_step w w1" and ty: "Typ a = TypeFile" and rest: "let
      b = with_times mtime now (a\<lparr>Length := max (Length a) leng\<rparr>); chunk = chunk_val inode indx w
     in if has_slice (slice_bytes (slice_of off s)) chunk then w' = w1
        else \<exists>w2. set_attr inode b w1 = Some w2 \<and> w' = set_chunk inode indx (chunk @ slice_bytes (slice_of off s)) w2"
    using doWrite_tx_steps [OF run v a(3)] unfolding leng_def Let_def by metis
  have has: "has_slice (slice_bytes (slice_of off s)) (chunk_val inode indx w) \<longleftrightarrow> slice_of off s \<in> set (slices_at w inode indx)"
    using ck by (simp add: chunk_is_def has_slice_concat)
  show ?thesis
  proof (cases "slice_of off s \<in> set (slices_at w inode indx)")
    case True
    with rest has w1 show ?thesis by (simp add: Let_def)
  next
    case False
    let ?b = "with_times mtime now (a\<lparr>Length := max (Length a) leng\<rparr>)" and ?s = "slice_of off s"
    have bok: "attr_ok ?b" using a(1) by (simp add: stored_def attr_ok_changes)
    obtain w2 where w2: "set_attr inode ?b w1 = Some w2" "w' = set_chunk inode indx (chunk_val inode indx w @ slice_bytes ?s) w2"
      using rest has False by (auto simp: Let_def)
    obtain w2' where set2: "set_attr inode ?b w1 = Some w2'" "chunk_vals w2' = chunk_vals w1" "objects w2' = objects w1" "fw_of w2' = fw_of w1"
      "inode_vals (fw_acl w2') = (inode_vals (fw_acl w1))(inode := Attr_Marshal ?b)"
      by (rule set_attr_stores [OF bok, of inode w1])
    have [simp]: "w2' = w2" using w2(1) set2(1) by simp
    have cv: "chunk_vals w2 = chunk_vals w" using set2(2) w1 by (simp add: quiet_step_def same_engine_def)
    have app: "append_chunk inode indx ?s w2 = Some w'"
      using w2(2) cv by (simp add: append_chunk_eq chunk_val_def)
    have fit: "fits ?s" using len by (simp add: fits_def slice_of_def slice_end_def)
    have ok2: "chunks_ok w2" using files_okD(1) [OF ok] file_at_cong(2) [OF cv] by simp
    have sl: "slices_at w2 = slices_at w" "slices_at w1 = slices_at w" using slices_at_cong [OF cv] quiet_files(3) [OF w1] by simp_all
    note new = append_slices(2) [OF ok2 fit app, unfolded sl]
    have f: "file_at w' inode = overwrite (unat indx * CS + unat off) (unat (S_Len s)) (piece_at (S_Id s) (S_Off s)) (file_at w1 inode)"
      using append_file_at(2) [OF ok2 fit app] file_at_slices [of w2 _ w1] sl by (simp add: slice_of_def)
    have "updates B inode (af_write (unat indx * CS + unat off) (unat (S_Len s)) (\<lambda>q. byte B (piece_at (S_Id s) (S_Off s) q))) w w'"
    proof (rule finish_update [OF ok a(1) w1 append_slices(1) [OF ok2 fit app]])
      show "slices_at w' i k = slices_at w1 i k" if "i \<noteq> inode" for i k using new that sl(2) by simp
      show "inode_vals (fw_acl w') = (inode_vals (fw_acl w1))(inode := Attr_Marshal ?b)" "objects w' = objects w1"
        "chunks.shrinks (fw_of w1) (fw_of w')"
        using set2 by (simp_all add: w2(2) set_chunk_def chunks.shrinks_refl)
      have "grown_file B w inode (unat (max (Length a) leng))"
        using grown_file_more [of _ w inode "unat (Length a)"] a(2) ty by (simp add: tail_ok_def unat_max)
      then have "grown_file B w' inode (unat (max (Length a) leng))"
        by (rule grown_file_slice [where s = ?s and indx = indx]) (use fit new leng in \<open>auto simp: slice_of_def slice_end_def unat_max\<close>)
      then show "tail_ok B w' inode ?b" using a(2) ty len(3) leng by (auto simp: tail_ok_def unat_max)
      show "(unat (Length ?b), bytes B w' inode) = af_write (unat indx * CS + unat off) (unat (S_Len s)) (\<lambda>q. byte B (piece_at (S_Id s) (S_Off s) q))
          (unat (Length a), bytes B w1 inode)"
        by (simp add: af_write_def bytes_def [abs_def] f byte_overwrite leng unat_max add.assoc)
    qed (rule bok)
    with False new show ?thesis by simp
  qed
qed


section \<open>Truncating and allocating\<close>

lemma doTruncate_tx_steps:
  assumes "doTruncate_tx m ctx inode flags len skip (w, out) = Some (None, w', out')"
    and "inode_vals (fw_acl w) inode = Some v" and "Attr_Unmarshal v zero_Attr = Some a"
  shows "Typ a = TypeFile \<and> (if len = Length a then quiet_step w w'
    else \<exists>w1 w2 now. quiet_step w w1 \<and> truncate_chunks inode (min (Length a) len) (max (Length a) len) w1 = Some w2 \<and>
      set_attr inode (with_times now now (a\<lparr>Length := len\<rparr>)) (snd (clock_now w2)) = Some w')"
proof -
  have ty: "Typ a = TypeFile" using assms by (auto simp: doTruncate_tx_def Let_def split: if_splits)
  obtain w0 where acc: "(if skip then Some (E0, w) else on_acl (Access ctx inode MODE_MASK_W a) w) = Some (E0, w0)"
    and rest: "if len = Length a then w' = w0 else \<exists>dl w1 w2. checkQuota m dl 0 (getParents inode (Parent a) w0) w0 = Some (E0, w1) \<and>
      truncate_chunks inode (min (Length a) len) (max (Length a) len) w1 = Some w2 \<and>
      set_attr inode (with_times (fst (clock_now w2)) (fst (clock_now w2)) (a\<lparr>Length := len\<rparr>)) (snd (clock_now w2)) = Some w'"
    using assms ty
    by (cases skip) (auto simp: doTruncate_tx_def Let_def Option.bind_eq_Some_conv split_beta split: if_splits)
  have q0: "quiet_step w w0" using acc quiet_Access by (auto split: if_splits)
  show ?thesis
  proof (cases "len = Length a")
    case False
    with rest obtain dl w1 w2 where q: "checkQuota m dl 0 (getParents inode (Parent a) w0) w0 = Some (E0, w1)"
      and t: "truncate_chunks inode (min (Length a) len) (max (Length a) len) w1 = Some w2"
        "set_attr inode (with_times (fst (clock_now w2)) (fst (clock_now w2)) (a\<lparr>Length := len\<rparr>)) (snd (clock_now w2)) = Some w'"
      by auto
    have "quiet_step w w1" using q0 quiet_checkQuota [OF q] by (rule quiet_trans)
    with t False ty show ?thesis by (simp only: if_False simp_thms) blast
  qed (use rest q0 ty in simp)
qed

lemma unat_min: "unat (min a b) = min (unat a) (unat b)"
  by (simp add: min_def word_le_nat_alt)

lemma punches_same: "punches inode S w w' \<Longrightarrow> slice_refs w' = slice_refs w \<and> fw_acl w' = fw_acl w \<and> objects w' = objects w \<and> fw_of w' = fw_of w"
  unfolding punches_def by (metis file_world.select_convs file_world.surjective file_world.update_convs(15))

text \<open>The slices that are not holes are the same.\<close>

definition same_data :: "'o file_world \<Rightarrow> 'o file_world \<Rightarrow> bool" where
  "same_data w w' \<longleftrightarrow> (\<forall>j k. filter (\<lambda>s. sl_id s \<noteq> 0) (slices_at w' j k) = filter (\<lambda>s. sl_id s \<noteq> 0) (slices_at w j k))"

lemma same_data_slices: "slices_at w' = slices_at w \<Longrightarrow> same_data w w'"
  by (simp add: same_data_def)

lemma padded_data: "padded S k ss ss' \<Longrightarrow> filter (\<lambda>s. sl_id s \<noteq> 0) ss' = filter (\<lambda>s. sl_id s \<noteq> 0) ss"
  by (auto simp: padded_def list_all_iff filter_empty_conv split: if_splits)

lemma punches_data:
  assumes "punches inode S w w'"
  shows "same_data w w'"
  unfolding same_data_def
proof (intro allI)
  fix j k
  show "filter (\<lambda>s. sl_id s \<noteq> 0) (slices_at w' j k) = filter (\<lambda>s. sl_id s \<noteq> 0) (slices_at w j k)"
    using assms padded_data [of S "unat k" "slices_at w inode k" "slices_at w' inode k"] by (cases "j = inode") (auto simp: punches_def)
qed

lemma quiet_data: "quiet_step w w' \<Longrightarrow> same_data w w' \<and> slice_refs w' = slice_refs w"
  using same_data_slices [OF quiet_files(3)] by (auto simp: quiet_step_def same_engine_def)

text \<open>Truncating sets the length and leaves only holes behind it.\<close>

lemma doTruncate_tx_effect:
  assumes ok: "files_ok B w" and run: "doTruncate_tx m ctx inode flags len skip (w, out) = Some (None, w', out')"
    and len: "unat len < file_limit"
  shows "updates B inode (af_truncate (unat len)) w w' \<and> same_data w w' \<and> slice_refs w' = slice_refs w"
proof -
  obtain v where v: "inode_vals (fw_acl w) inode = Some v"
    using run by (auto simp: doTruncate_tx_def Let_def split: option.splits)
  obtain a where a: "stored w inode a" "tail_ok B w inode a" "Attr_Unmarshal v zero_Attr = Some a"
    using files_okD(2) [OF ok v] by blast
  note st = doTruncate_tx_steps [OF run v a(3)]
  have ty: "Typ a = TypeFile" using st by simp
  have tail: "unat (Length a) < file_limit" "grown_file B w inode (unat (Length a))" using a(2) ty by (simp_all add: tail_ok_def)
  note z = tail_bytes [OF tail(2)]
  show ?thesis
  proof (cases "len = Length a")
    case True
    have "af_truncate (unat len) (unat (Length a), bytes B w inode) = (unat (Length a), bytes B w inode)"
      using z True by (auto simp: af_truncate_def)
    with st True show ?thesis using updates_quiet [OF _ ok stored_view [OF a(1)]] quiet_data [of w w'] by simp
  next
    case False
    with st obtain w1 w2 now where w1: "quiet_step w w1"
      and t: "truncate_chunks inode (min (Length a) len) (max (Length a) len) w1 = Some w2"
      and s: "set_attr inode (with_times now now (a\<lparr>Length := len\<rparr>)) (snd (clock_now w2)) = Some w'" by auto
    let ?b = "with_times now now (a\<lparr>Length := len\<rparr>)"
    define lo hi where "lo = min (unat (Length a)) (unat len)" and "hi = max (unat (Length a)) (unat len)"
    have c1: "chunks_ok w1" using files_okD(1) [of _ w1] quiet_files(1) [OF w1] ok by blast
    have lt: "min (Length a) len < max (Length a) len" using False by (simp add: min_def max_def) (metis linorder_neqE not_less)
    have "unat (max (Length a) len) < file_limit" using tail(1) len by (simp add: unat_max)
    from truncate_chunks_punches [OF c1 lt this, of inode] t have p: "punches inode {lo..<hi} w1 w2"
      by (auto simp: unat_max unat_min lo_def hi_def)
    have sl: "slices_at w1 = slices_at w" by (rule quiet_files(3) [OF w1])
    have bok: "attr_ok ?b" using a(1) by (simp add: stored_def attr_ok_changes)
    obtain w3 where set3: "set_attr inode ?b (snd (clock_now w2)) = Some w3" "chunk_vals w3 = chunk_vals (snd (clock_now w2))"
      "slice_refs w3 = slice_refs (snd (clock_now w2))" "objects w3 = objects (snd (clock_now w2))" "fw_of w3 = fw_of (snd (clock_now w2))"
      "inode_vals (fw_acl w3) = (inode_vals (fw_acl (snd (clock_now w2))))(inode := Attr_Marshal ?b)"
      by (rule set_attr_stores [OF bok, of inode "snd (clock_now w2)"])
    have [simp]: "w3 = w'" using s set3(1) by simp
    have cv: "chunk_vals w' = chunk_vals w2" using set3(2) by (simp add: clock_now_def)
    note sl2 = slices_at_cong [OF cv]
    have "file_at w' inode = punch {lo..<hi} (file_at w1 inode)" using punches_file_at(1) [OF p] file_at_cong(1) [OF cv] by simp
    note new = bytes_punched [OF this, of B]
    have b1: "bytes B w1 inode = bytes B w inode" using bytes_slices [of w1 inode w] sl by simp
    have g: "grown_file B w1 inode hi"
      using grown_file_more [OF tail(2), of hi] grown_file_slices [of w1 inode w] sl by (simp add: hi_def)
    have "updates B inode (af_truncate (unat len)) w w'"
    proof (rule finish_update [OF ok a(1) w1])
      show "chunks_ok w'" using p file_at_cong(2) [OF cv] by (simp add: punches_def)
      show "slices_at w' i k = slices_at w1 i k" if "i \<noteq> inode" for i k
        using p that sl2 by (simp add: punches_def)
      show "inode_vals (fw_acl w') = (inode_vals (fw_acl w1))(inode := Attr_Marshal ?b)" "objects w' = objects w1"
        "chunks.shrinks (fw_of w1) (fw_of w')"
        using set3 punches_same [OF p] by (simp_all add: clock_now_def chunks.shrinks_refl)
      have "grown_file B w2 inode (unat len)"
        using grown_file_punches(1) [OF p g] grown_file_punches(2) [OF p refl _ g]
        by (cases "unat (Length a) \<le> unat len") (simp_all add: lo_def hi_def max_def min_def split: if_splits)
      then show "tail_ok B w' inode ?b" using len grown_file_slices [of w' inode w2] sl2 by (simp add: tail_ok_def)
      show "(unat (Length ?b), bytes B w' inode) = af_truncate (unat len) (unat (Length a), bytes B w1 inode)"
        using z by (auto simp: af_truncate_def new b1 lo_def hi_def fun_eq_iff)
    qed (rule bok)
    then show ?thesis using punches_data [OF p] punches_same [OF p] set3(3) quiet_data [OF w1] sl sl2 by (simp add: same_data_def clock_now_def)
  qed
qed

lemma doFallocate_tx_steps:
  assumes "doFallocate_tx m ctx inode mode off n (w, out) = Some (None, w', out')"
    and "inode_vals (fw_acl w) inode = Some v" and "Attr_Unmarshal v zero_Attr = Some a"
  obtains w1 w2 now where "quiet_step w w1" "Typ a = TypeFile"
    "set_attr inode (with_times now now (a\<lparr>Length := alloc_length mode off n (Length a)\<rparr>)) w1 = Some w2"
    "zero_old inode mode off n (Length a) w2 = Some w'"
proof -
  have ty: "Typ a = TypeFile" using assms by (auto simp: doFallocate_tx_def Let_def split: if_splits)
  have nf: "TypeFile \<noteq> TypeFIFO" by (simp add: TypeFile_def TypeFIFO_def)
  let ?b = "\<lambda>w1. with_times (fst (clock_now w1)) (fst (clock_now w1)) (a\<lparr>Length := alloc_length mode off n (Length a)\<rparr>)"
  obtain w0 dl w1 w2 where acc: "on_acl (Access ctx inode MODE_MASK_W a) w = Some (E0, w0)"
    and q: "checkQuota m dl 0 (getParents inode (Parent a) w0) w0 = Some (E0, w1)"
    and s: "set_attr inode (?b w1) (snd (clock_now w1)) = Some w2" "zero_old inode mode off n (Length a) w2 = Some w'"
    using assms ty nf
    by (auto simp: doFallocate_tx_def Let_def Option.bind_eq_Some_conv split_beta split: if_split_asm)
  have "quiet_step w (snd (clock_now w1))"
    using quiet_trans [OF quiet_trans [OF quiet_Access [OF acc] quiet_checkQuota [OF q]] quiet_clock] .
  from that [OF this ty s] show thesis .
qed

lemma zero_old_effect:
  assumes "chunks_ok w" and "unat old < file_limit" and "unat off + unat n < 2 ^ 64" and "zero_old inode mode off n old w = Some w'"
  shows "punches inode {unat off..<if mode AND (fallocZeroRange OR fallocPunchHole) \<noteq> 0 then min (unat old) (unat off + unat n) else 0} w w'"
proof (cases "mode AND (fallocZeroRange OR fallocPunchHole) \<noteq> 0 \<and> off < old")
  case True
  have sum: "unat (off + n) = unat off + unat n" by (rule unat_add_64 [OF assms(3)])
  define sz where "sz = (if off + n > old then old - off else n)"
  have sz: "unat off + unat sz = min (unat old) (unat off + unat n)"
    using True sum by (auto simp: sz_def word_less_nat_alt unat_sub word_le_nat_alt)
  then have "unat off + unat sz \<le> file_limit" using assms(2) by simp
  from zero_range_punches [OF assms(1) this, of inode] assms(4) True show ?thesis by (simp add: zero_old_def sz_def [symmetric] sz)
next
  case False
  then have "w' = w" using assms(4) by (auto simp: zero_old_def split: if_splits)
  moreover have "{unat off..<if mode AND (fallocZeroRange OR fallocPunchHole) \<noteq> 0 then min (unat old) (unat off + unat n) else 0} = {}"
    using False by (auto simp: word_less_nat_alt)
  ultimately show ?thesis using punches_refl [OF assms(1)] by simp
qed

text \<open>Allocating changes the length unless it is to be kept, and zeroes the range up to the old end.\<close>

lemma doFallocate_tx_effect:
  assumes ok: "files_ok B w" and run: "doFallocate_tx m ctx inode mode off n (w, out) = Some (None, w', out')"
    and len: "unat off + unat n < file_limit"
  shows "updates B inode (af_fallocate mode (unat off) (unat n)) w w' \<and> same_data w w' \<and> slice_refs w' = slice_refs w"
proof -
  obtain v where v: "inode_vals (fw_acl w) inode = Some v"
    using run by (auto simp: doFallocate_tx_def Let_def split: option.splits)
  obtain a where a: "stored w inode a" "tail_ok B w inode a" "Attr_Unmarshal v zero_Attr = Some a"
    using files_okD(2) [OF ok v] by blast
  let ?l = "alloc_length mode off n (Length a)"
  obtain w1 w2 now where w1: "quiet_step w w1" and ty: "Typ a = TypeFile"
    and s: "set_attr inode (with_times now now (a\<lparr>Length := ?l\<rparr>)) w1 = Some w2"
    and z: "zero_old inode mode off n (Length a) w2 = Some w'"
    by (rule doFallocate_tx_steps [OF run v a(3)])
  let ?b = "with_times now now (a\<lparr>Length := ?l\<rparr>)"
  have tail: "unat (Length a) < file_limit" "grown_file B w inode (unat (Length a))" using a(2) ty by (simp_all add: tail_ok_def)
  have l64: "unat off + unat n < 2 ^ 64" using len file_limit_64 by simp
  have l: "unat ?l = (if mode AND fallocKeepSize = 0 then max (unat (Length a)) (unat off + unat n) else unat (Length a))"
    using unat_add_64 [OF l64] by (auto simp: alloc_length_def word_less_nat_alt)
  have bok: "attr_ok ?b" using a(1) by (simp add: stored_def attr_ok_changes)
  obtain w2' where set2: "set_attr inode ?b w1 = Some w2'" "chunk_vals w2' = chunk_vals w1" "slice_refs w2' = slice_refs w1" "objects w2' = objects w1" "fw_of w2' = fw_of w1"
    "inode_vals (fw_acl w2') = (inode_vals (fw_acl w1))(inode := Attr_Marshal ?b)"
    by (rule set_attr_stores [OF bok, of inode w1])
  have [simp]: "w2' = w2" using s set2(1) by simp
  have sl: "slices_at w1 = slices_at w" "slices_at w2 = slices_at w"
    using quiet_files(3) [OF w1] slices_at_cong [of w2 w1] set2(2) by simp_all
  have c2: "chunks_ok w2" using file_at_cong(2) [of w2 w1] set2(2) files_okD(1) [of B w1] quiet_files(1) [OF w1] ok by simp
  note p = zero_old_effect [OF c2 tail(1) l64 z]
  note new = bytes_punched [OF punches_file_at(1) [OF p], of B]
  have b1: "bytes B w2 inode = bytes B w inode" "bytes B w1 inode = bytes B w inode"
    using bytes_slices [of w2 inode w] bytes_slices [of w1 inode w] sl by simp_all
  have "updates B inode (af_fallocate mode (unat off) (unat n)) w w'"
  proof (rule finish_update [OF ok a(1) w1])
    show "chunks_ok w'" using p by (simp add: punches_def)
    show "slices_at w' i k = slices_at w1 i k" if "i \<noteq> inode" for i k using p that sl by (simp add: punches_def)
    show "inode_vals (fw_acl w') = (inode_vals (fw_acl w1))(inode := Attr_Marshal ?b)" "objects w' = objects w1"
      "chunks.shrinks (fw_of w1) (fw_of w')"
      using set2 punches_same [OF p] by (simp_all add: chunks.shrinks_refl)
    have "grown_file B w2 inode (unat ?l)"
      using grown_file_more [OF tail(2), of "unat ?l"] grown_file_slices [of w2 inode w] sl l by simp
    then show "tail_ok B w' inode ?b" using grown_file_punches(1) [OF p] tail(1) len l by (simp add: tail_ok_def)
    show "(unat (Length ?b), bytes B w' inode) = af_fallocate mode (unat off) (unat n) (unat (Length a), bytes B w1 inode)"
      by (auto simp: af_fallocate_def new b1 l overwrite_def fun_eq_iff)
  qed (rule bok)
  then show ?thesis using punches_data [OF p] punches_same [OF p] set2(3) quiet_data [OF w1] sl by (simp add: same_data_def)
qed

end
