(* ===== verification/JFS_FileCopy.thy ===== *)
theory JFS_FileCopy
  imports JFS_FileData
begin

text \<open>
  \<open>CopyFileRange\<close> (pkg/meta/tkv.go) on the bytes of files: each piece of the source is clipped to the range, moved, and appended to one or
  two chunks of the target; together they write the bytes of the source to the target.
\<close>


section \<open>Copying\<close>

text \<open>The positions of \<open>S\<close> in the source, moved from \<open>offIn\<close> to \<open>offOut\<close>, now hold what \<open>g\<close> says.\<close>

definition paste :: "nat set \<Rightarrow> nat \<Rightarrow> nat \<Rightarrow> (nat \<Rightarrow> 'b) \<Rightarrow> (nat \<Rightarrow> 'b) \<Rightarrow> nat \<Rightarrow> 'b" where
  "paste S offIn offOut g f q = (if offOut \<le> q \<and> q - offOut + offIn \<in> S then g (q - offOut + offIn) else f q)"

lemma paste_paste: "paste T a b g (paste S a b g f) = paste (S \<union> T) a b g f"
  by (auto simp: paste_def fun_eq_iff)

lemma paste_empty [simp]: "paste {} a b g f = f"
  by (auto simp: paste_def fun_eq_iff)

lemma paste_range: "paste {offIn..<offIn + n} offIn offOut g f = overwrite offOut n (\<lambda>q. g (offIn + q)) f"
  by (auto simp: paste_def overwrite_def fun_eq_iff add.commute)

text \<open>What a change by appended slices keeps: the other files, and the end \<open>L\<close> of this one.\<close>

definition extends :: "64 word \<Rightarrow> nat \<Rightarrow> 'o file_world \<Rightarrow> 'o file_world \<Rightarrow> bool" where
  "extends fout L w w' \<longleftrightarrow> chunks_ok w' \<and> (\<forall>i k. i \<noteq> fout \<longrightarrow> slices_at w' i k = slices_at w i k) \<and>
     (\<forall>B. grown_file B w fout L \<longrightarrow> grown_file B w' fout L) \<and>
     fw_acl w' = fw_acl w \<and> fw_of w' = fw_of w \<and> objects w' = objects w"

lemma extends_refl: "chunks_ok w \<Longrightarrow> extends fout L w w"
  by (simp add: extends_def)

lemma extends_trans: "extends fout L w w1 \<Longrightarrow> extends fout L w1 w2 \<Longrightarrow> extends fout L w w2"
  by (auto simp: extends_def)

lemma chunk_vals_refs: "chunk_vals (incr_ref i n d w) = chunk_vals w"
  by (simp add: incr_ref_def)

lemma share_slice_effect:
  assumes "chunks_ok w" and "fits s" and "unat indx * CS + slice_end s \<le> L"
  shows "\<exists>w'. share_slice fout indx s w = Some w' \<and> extends fout L w w' \<and>
    file_at w' fout = overwrite (unat indx * CS + unat (sl_pos s)) (unat (sl_len s)) (piece_at (sl_id s) (sl_off s)) (file_at w fout)"
proof -
  obtain w1 where w1: "append_chunk fout indx s w = Some w1" by (simp add: append_chunk_eq)
  define w' where "w' = (if sl_id s > 0 then incr_ref (sl_id s) (sl_size s) 1 w1 else w1)"
  have cv: "chunk_vals w' = chunk_vals w1" by (simp add: w'_def chunk_vals_refs)
  note a = append_slices [OF assms(1,2) w1]
  have sl: "slices_at w' = slices_at w1" by (rule slices_at_cong [OF cv])
  have "grown_file B w' fout L" if "grown_file B w fout L" for B
    by (rule grown_file_slice [OF that _ assms(2)]) (use assms(3) a(2) sl in auto)
  moreover have "fw_acl w1 = fw_acl w \<and> fw_of w1 = fw_of w \<and> objects w1 = objects w" using w1 by (auto simp: append_chunk_eq set_chunk_def)
  then have "fw_acl w' = fw_acl w \<and> fw_of w' = fw_of w \<and> objects w' = objects w" by (simp add: w'_def incr_ref_def)
  ultimately have "extends fout L w w'" using a(1,2) file_at_cong(2) [OF cv] sl by (simp add: extends_def)
  with append_file_at(2) [OF assms(1,2) w1] w1 file_at_cong(1) [OF cv] show ?thesis by (auto simp: share_slice_def w'_def)
qed


lemma clip_effect:
  assumes "pos < offIn + n" and "pos + ucast (S_Len s) > offIn"
    and "unat pos + unat (S_Len s) < 2 ^ 64" and "unat offIn + unat n < 2 ^ 64" and "S_Len s \<noteq> 0" and "n \<noteq> 0"
  obtains s' a where "clip offIn n pos s = (s', a)" "unat a = max (unat pos) (unat offIn)" "S_Id s' = S_Id s" "S_Size s' = S_Size s"
    "unat (S_Len s') = min (unat pos + unat (S_Len s)) (unat offIn + unat n) - unat a" "unat (S_Len s') \<le> unat (S_Len s)" "S_Len s' \<noteq> 0"
    "S_Off s' = S_Off s + of_nat (unat a - unat pos)" "unat a + unat (S_Len s') \<le> unat offIn + unat n"
    "unat a + unat (S_Len s') \<le> unat pos + unat (S_Len s)"
proof -
  have u: "unat (ucast x :: 64 word) = unat (x :: 32 word)" for x
    by (simp add: unsigned_ucast_eq take_bit_nat_eq_self order.strict_trans [OF unat_32])
  have c: "unat pos < unat offIn + unat n" "unat offIn < unat pos + unat (S_Len s)"
    using assms by (simp_all add: word_less_nat_alt unat_add_64 u)
  define d where "d = unat offIn - unat pos"
  define s1 where "s1 = (if pos < offIn then s\<lparr>S_Off := S_Off s + ucast (offIn - pos), S_Len := S_Len s - ucast (offIn - pos)\<rparr> else s)"
  define a where "a = (if pos < offIn then offIn else pos)"
  have a: "unat a = max (unat pos) (unat offIn)" by (auto simp: a_def word_less_nat_alt)
  have d32: "unat (ucast (offIn - pos) :: 32 word) = d" "(ucast (offIn - pos) :: 32 word) = of_nat d" if "pos < offIn"
  proof -
    have "unat (offIn - pos) = d" using that by (simp add: d_def unat_sub word_le_nat_alt less_imp_le word_less_nat_alt)
    moreover have "d < 2 ^ 32" using c(2) unat_32 [of "S_Len s"] by (simp add: d_def)
    ultimately show u32: "unat (ucast (offIn - pos) :: 32 word) = d" using unat_ucast_32 by simp
    show "(ucast (offIn - pos) :: 32 word) = of_nat d" unfolding word_unat_eq_iff u32 using \<open>d < 2 ^ 32\<close> by (simp add: unat_of_nat_32)
  qed
  have l1: "unat (S_Len s1) = unat (S_Len s) - d"
    using d32 c(2) by (auto simp: s1_def unat_sub word_le_nat_alt d_def word_less_nat_alt)
  have o1: "S_Off s1 = S_Off s + of_nat (unat a - unat pos)"
    using d32 a by (auto simp: s1_def d_def word_less_nat_alt)
  have sum: "unat a + unat (S_Len s1) = unat pos + unat (S_Len s)" using a l1 c(2) by (auto simp: d_def)
  define s2 where "s2 = (if a + ucast (S_Len s1) > offIn + n then s1\<lparr>S_Len := S_Len s1 - ucast (a + ucast (S_Len s1) - (offIn + n))\<rparr> else s1)"
  have ua: "unat (a + ucast (S_Len s1)) = unat pos + unat (S_Len s)" "unat (offIn + n) = unat offIn + unat n"
    using sum assms(3,4) by (simp_all add: unat_add_64 u)
  have l2: "unat (S_Len s2) = min (unat pos + unat (S_Len s)) (unat offIn + unat n) - unat a"
  proof (cases "a + ucast (S_Len s1) > offIn + n")
    case True
    let ?e = "a + ucast (S_Len s1) - (offIn + n)"
    have e: "unat ?e = unat pos + unat (S_Len s) - (unat offIn + unat n)" "unat offIn + unat n < unat pos + unat (S_Len s)"
      using True ua by (simp_all add: unat_sub word_le_nat_alt word_less_nat_alt)
    have "unat a \<le> unat offIn + unat n" using a c(1) by simp
    then have "unat ?e \<le> unat (S_Len s1)" using e sum by linarith
    moreover have "unat (ucast ?e :: 32 word) = unat ?e" by (rule unat_ucast_32) (use calculation unat_32 [of "S_Len s1"] in linarith)
    ultimately have "unat (S_Len s2) = unat (S_Len s1) - unat ?e" using True by (simp add: s2_def unat_sub word_le_nat_alt)
    with e sum show ?thesis by simp
  next
    case False
    then show ?thesis using ua sum by (simp add: s2_def word_less_nat_alt)
  qed
  have cl: "clip offIn n pos s = (s2, a)"
    by (simp add: clip_def s1_def s2_def a_def Let_def split: if_split)
  have same: "S_Id s2 = S_Id s" "S_Size s2 = S_Size s" "S_Off s2 = S_Off s + of_nat (unat a - unat pos)" using o1 by (simp_all add: s2_def s1_def)
  have n0: "unat (S_Len s2) \<noteq> 0"
    using l2 a c assms(5,6) unat_gt_0 [of n] unat_gt_0 [of "S_Len s"] by (auto simp: max_def min_def not_le)
  then have m: "unat a + unat (S_Len s2) = min (unat pos + unat (S_Len s)) (unat offIn + unat n)" using l2 by simp
  have b: "unat a + unat (S_Len s2) \<le> unat offIn + unat n" "unat a + unat (S_Len s2) \<le> unat pos + unat (S_Len s)"
    unfolding m by simp_all
  have "unat pos \<le> unat a" using a by simp
  then have "unat (S_Len s2) \<le> unat (S_Len s)" using b(2) by linarith
  moreover have "S_Len s2 \<noteq> 0" using n0 by auto
  ultimately show thesis using that [OF cl a same(1,2) l2 _ _ same(3) b] by blast
qed

lemma piece_at_shift: "piece_at i (off + of_nat d) q = piece_at i off (d + q)"
  by (simp add: piece_at_def add.assoc)

text \<open>A piece that is copied ends up in one chunk of the target or in two.\<close>

lemma place_piece:
  assumes "chunks_ok w" and "S_Len s \<noteq> 0" and "unat (S_Len s) \<le> CS" and "unat doff + unat (S_Len s) \<le> L" and "L < file_limit"
  defines "indx \<equiv> ucast (doff div ChunkSize)" and "dpos \<equiv> ucast (doff mod ChunkSize)"
  shows "\<exists>w'. (if dpos + S_Len s > ucast ChunkSize
        then let skip = ucast ChunkSize - dpos in
          Option.bind (share_slice fout indx (slice_of dpos (s\<lparr>S_Len := skip\<rparr>)) w)
            (share_slice fout (indx + 1) (slice_of 0 (s\<lparr>S_Off := S_Off s + skip, S_Len := S_Len s - skip\<rparr>)))
        else share_slice fout indx (slice_of dpos s) w) = Some w' \<and> extends fout L w w' \<and>
    file_at w' fout = overwrite (unat doff) (unat (S_Len s)) (piece_at (S_Id s) (S_Off s)) (file_at w fout)"
proof -
  have lim: "unat doff < file_limit" using assms(4,5) by simp
  have i: "unat indx = unat doff div CS" unfolding indx_def by (rule unat_chunk_indx [OF lim])
  have p: "unat dpos = unat doff mod CS" "unat dpos < CS" by (simp_all add: dpos_def)
  have split: "unat indx * CS + unat dpos = unat doff" using i p by simp
  have big: "2 * CS < 2 ^ 32" by (simp add: CS_def)
  have sum: "unat (dpos + S_Len s) = unat dpos + unat (S_Len s)"
    using p(2) assms(3) big by (intro unat_add_lem [THEN iffD1]) simp
  show ?thesis
  proof (cases "dpos + S_Len s > ucast ChunkSize")
    case False
    then have le: "unat dpos + unat (S_Len s) \<le> CS" using sum by (simp add: word_less_nat_alt unat_ucast_Chunk)
    have "fits (slice_of dpos s)" using assms(2) le by (simp add: fits_def slice_of_def slice_end_def)
    from share_slice_effect [OF assms(1) this, of indx L fout] False assms(4) split show ?thesis
      by (auto simp: slice_of_def slice_end_def)
  next
    case True
    define skip where "skip = ucast ChunkSize - dpos"
    have sk: "unat skip = CS - unat dpos" using p(2) by (simp add: skip_def unat_sub word_le_nat_alt unat_ucast_Chunk)
    have gt: "CS < unat dpos + unat (S_Len s)" using True sum by (simp add: word_less_nat_alt unat_ucast_Chunk)
    have rest: "unat (S_Len s - skip) = unat (S_Len s) - unat skip" using sk gt by (simp add: unat_sub word_le_nat_alt)
    let ?s1 = "slice_of dpos (s\<lparr>S_Len := skip\<rparr>)" and ?s2 = "slice_of 0 (s\<lparr>S_Off := S_Off s + skip, S_Len := S_Len s - skip\<rparr>)"
    have n0: "skip \<noteq> 0" "S_Len s - skip \<noteq> 0" using sk rest gt p(2) by (auto simp: unat_eq_zero [symmetric])
    have f: "fits ?s1" "fits ?s2" using n0 sk rest p(2) assms(3) by (simp_all add: fits_def slice_of_def slice_end_def)
    have next_indx: "unat (indx + 1) * CS = unat doff + unat skip"
    proof -
      have "unat doff + unat skip = (unat indx + 1) * CS" using split sk p(2) by simp
      moreover have "unat indx + 1 < 2 ^ 32"
      proof -
        have "unat doff + unat skip < file_limit" using assms(4,5) sk gt p(2) by linarith
        with calculation have "(unat indx + 1) * CS < 2 ^ 32 * CS" unfolding file_limit_def by (simp only:)
        then show ?thesis using mult_less_cancel2 by blast
      qed
      then have "unat (indx + 1) = unat indx + 1" by (simp add: unat_word_ariths)
      ultimately show ?thesis by simp
    qed
    have e1: "unat indx * CS + slice_end ?s1 \<le> L" using split sk gt p(2) assms(4) by (simp add: slice_of_def slice_end_def)
    obtain w1 where w1: "share_slice fout indx ?s1 w = Some w1" "extends fout L w w1"
      "file_at w1 fout = overwrite (unat doff) (unat skip) (piece_at (S_Id s) (S_Off s)) (file_at w fout)"
      using share_slice_effect [OF assms(1) f(1) e1] split by (auto simp: slice_of_def)
    have c1: "chunks_ok w1" using w1(2) by (simp add: extends_def)
    have e2: "unat (indx + 1) * CS + slice_end ?s2 \<le> L"
      unfolding next_indx using rest sk gt p(2) assms(4) by (simp add: slice_of_def slice_end_def)
    obtain w2 where w2: "share_slice fout (indx + 1) ?s2 w1 = Some w2" "extends fout L w1 w2"
      "file_at w2 fout = overwrite (unat doff + unat skip) (unat (S_Len s) - unat skip) (piece_at (S_Id s) (S_Off s + skip)) (file_at w1 fout)"
      using share_slice_effect [OF c1 f(2) e2] rest unfolding next_indx by (auto simp: slice_of_def)
    have "unat skip \<le> unat (S_Len s)" using sk gt p(2) by simp
    moreover have "piece_at (S_Id s) (S_Off s + skip) q = piece_at (S_Id s) (S_Off s) (unat skip + q)" for q
      using piece_at_shift [of "S_Id s" "S_Off s" "unat skip"] by simp
    ultimately have "file_at w2 fout = overwrite (unat doff) (unat (S_Len s)) (piece_at (S_Id s) (S_Off s)) (file_at w fout)"
      unfolding w2(3) w1(3) by (auto simp: overwrite_def fun_eq_iff)
    with True w1 w2 extends_trans [OF w1(2) w2(2)] show ?thesis by (auto simp: skip_def [symmetric])
  qed
qed

lemma copy_piece_effect:
  assumes "chunks_ok w" and "S_Len s \<noteq> 0" and "unat (S_Len s) \<le> CS" and "n \<noteq> 0"
    and "unat coff + unat (S_Len s) \<le> file_limit" and "unat offIn + unat n \<le> file_limit"
    and "unat offOut + unat n \<le> L" and "L < file_limit"
    and g: "\<And>x. unat coff \<le> x \<Longrightarrow> x < unat coff + unat (S_Len s) \<Longrightarrow> g x = piece_at (S_Id s) (S_Off s) (x - unat coff)"
  shows "\<exists>w'. copy_piece offIn n fout offOut s coff w = Some w' \<and> extends fout L w w' \<and>
    file_at w' fout = paste ({unat coff..<unat coff + unat (S_Len s)} \<inter> {unat offIn..<unat offIn + unat n}) (unat offIn) (unat offOut) g (file_at w fout)"
proof (cases "coff < offIn + n \<and> coff + ucast (S_Len s) > offIn")
  case False
  have u: "unat (ucast (S_Len s) :: 64 word) = unat (S_Len s)"
    by (simp add: unsigned_ucast_eq take_bit_nat_eq_self order.strict_trans [OF unat_32])
  have e: "{unat coff..<unat coff + unat (S_Len s)} \<inter> {unat offIn..<unat offIn + unat n} = {}"
    using False assms(5,6) file_limit_64 u by (auto simp: word_less_nat_alt unat_add_64)
  have "copy_piece offIn n fout offOut s coff w = Some w" unfolding copy_piece_def using False by (simp only: if_False)
  then show ?thesis using extends_refl [OF assms(1)] unfolding e paste_empty by blast
next
  case True
  have b64: "unat coff + unat (S_Len s) < 2 ^ 64" "unat offIn + unat n < 2 ^ 64" using assms(5,6) file_limit_64 by simp_all
  obtain s' a where c: "clip offIn n coff s = (s', a)" "unat a = max (unat coff) (unat offIn)" "S_Id s' = S_Id s"
    and len: "unat (S_Len s') = min (unat coff + unat (S_Len s)) (unat offIn + unat n) - unat a" "unat (S_Len s') \<le> unat (S_Len s)" "S_Len s' \<noteq> 0"
      "S_Off s' = S_Off s + of_nat (unat a - unat coff)" "unat a + unat (S_Len s') \<le> unat offIn + unat n"
      "unat a + unat (S_Len s') \<le> unat coff + unat (S_Len s)"
    using clip_effect [OF conjunct1 [OF True] conjunct2 [OF True] b64 assms(2,4)] by metis
  define doff where "doff = a - offIn + offOut"
  have "unat (a - offIn) = unat a - unat offIn" using c(2) by (simp add: unat_sub word_le_nat_alt)
  then have doff: "unat doff = unat a - unat offIn + unat offOut"
    unfolding doff_def using len(5) c(2) assms(7,8) file_limit_64 by (subst unat_add_64) simp_all
  have b: "unat doff + unat (S_Len s') \<le> L" using doff len(5) c(2) assms(7) by simp
  have "unat (S_Len s') \<le> CS" using len(2) assms(3) by simp
  from place_piece [OF assms(1) len(3) this b assms(8), of fout] obtain w' where
    w': "copy_piece offIn n fout offOut s coff w = Some w'" "extends fout L w w'"
      "file_at w' fout = overwrite (unat doff) (unat (S_Len s')) (piece_at (S_Id s') (S_Off s')) (file_at w fout)"
    using True unfolding copy_piece_def c(1) doff_def by (auto simp: Let_def)
  have "overwrite (unat doff) (unat (S_Len s')) (piece_at (S_Id s') (S_Off s')) f q =
      paste ({unat coff..<unat coff + unat (S_Len s)} \<inter> {unat offIn..<unat offIn + unat n}) (unat offIn) (unat offOut) g f q" for f q
  proof (cases "unat doff \<le> q \<and> q < unat doff + unat (S_Len s')")
    case inside: True
    define x where "x = q - unat offOut + unat offIn"
    have x: "unat a + (q - unat doff) = x" "unat a \<le> x" "x < unat a + unat (S_Len s')"
      using inside doff c(2) by (auto simp: x_def)
    have "g x = piece_at (S_Id s) (S_Off s) (x - unat coff)" using x len(6) c(2) by (intro g) auto
    also have "\<dots> = piece_at (S_Id s') (S_Off s') (q - unat doff)"
    proof -
      have d: "x - unat coff = unat a - unat coff + (q - unat doff)" using x(1) c(2) by linarith
      show ?thesis unfolding d c(3) len(4) by (rule piece_at_shift [symmetric])
    qed
    finally have gx: "g x = piece_at (S_Id s') (S_Off s') (q - unat doff)" .
    have "x \<in> {unat coff..<unat coff + unat (S_Len s)} \<inter> {unat offIn..<unat offIn + unat n}"
      using x(2,3) len(5,6) c(2) by simp
    moreover have "unat offOut \<le> q" using inside doff by linarith
    ultimately show ?thesis using inside gx unfolding overwrite_def paste_def x_def [symmetric] by simp
  next
    case outside: False
    have "\<not> (unat offOut \<le> q \<and> q - unat offOut + unat offIn \<in> {unat coff..<unat coff + unat (S_Len s)} \<inter> {unat offIn..<unat offIn + unat n})"
    proof
      assume h: "unat offOut \<le> q \<and> q - unat offOut + unat offIn \<in> {unat coff..<unat coff + unat (S_Len s)} \<inter> {unat offIn..<unat offIn + unat n}"
      define x where "x = q - unat offOut + unat offIn"
      have h': "unat coff \<le> x" "x < unat coff + unat (S_Len s)" "unat offIn \<le> x" "x < unat offIn + unat n" using h unfolding x_def [symmetric] by simp_all
      then have x: "x < min (unat coff + unat (S_Len s)) (unat offIn + unat n)" "unat a \<le> x" "unat offIn \<le> unat a" using c(2) by simp_all
      then have "x < unat a + unat (S_Len s')" using len(1) by linarith
      with outside doff x(2,3) h show False unfolding x_def by linarith
    qed
    with outside show ?thesis by (auto simp: overwrite_def paste_def)
  qed
  with w' show ?thesis by (auto simp: fun_eq_iff)
qed

lemma copy_pieces_effect:
  assumes "chunks_ok w" and "\<And>s. s \<in> set cs \<Longrightarrow> S_Len s \<noteq> 0" and "total_len cs \<le> CS" and "n \<noteq> 0"
    and "unat coff + total_len cs \<le> file_limit" and "unat offIn + unat n \<le> file_limit"
    and "unat offOut + unat n \<le> L" and "L < file_limit"
    and "\<And>x. unat coff \<le> x \<Longrightarrow> x < unat coff + total_len cs \<Longrightarrow> g x = chunk_at cs (x - unat coff)"
  shows "\<exists>coff' w'. copy_pieces offIn n fout offOut cs coff w = Some (coff', w') \<and> unat coff' = unat coff + total_len cs \<and> extends fout L w w' \<and>
    file_at w' fout = paste ({unat coff..<unat coff + total_len cs} \<inter> {unat offIn..<unat offIn + unat n}) (unat offIn) (unat offOut) g (file_at w fout)"
  using assms(1,2,3,5,9)
proof (induction cs arbitrary: coff w)
  case Nil
  then show ?case by (simp add: extends_refl)
next
  case (Cons s cs)
  let ?R = "{unat offIn..<unat offIn + unat n}"
  have s0: "S_Len s \<noteq> 0" "unat (S_Len s) \<le> CS" "unat coff + unat (S_Len s) \<le> file_limit" using Cons.prems by auto
  have g1: "g x = piece_at (S_Id s) (S_Off s) (x - unat coff)" if "unat coff \<le> x" "x < unat coff + unat (S_Len s)" for x
  proof -
    have "x - unat coff < unat (S_Len s)" using that by linarith
    then show ?thesis using Cons.prems(5) [of x] that by simp
  qed
  obtain w1 where w1: "copy_piece offIn n fout offOut s coff w = Some w1" "extends fout L w w1"
    "file_at w1 fout = paste ({unat coff..<unat coff + unat (S_Len s)} \<inter> ?R) (unat offIn) (unat offOut) g (file_at w fout)"
    using copy_piece_effect [OF Cons.prems(1) s0(1,2) assms(4) s0(3) assms(6-8) g1, where fout = fout] by metis
  let ?c = "coff + ucast (S_Len s)"
  have "unat (ucast (S_Len s) :: 64 word) = unat (S_Len s)"
    by (simp add: unsigned_ucast_eq take_bit_nat_eq_self order.strict_trans [OF unat_32])
  then have c: "unat ?c = unat coff + unat (S_Len s)" using s0(3) file_limit_64 by (subst unat_add_64) simp_all
  have c1: "chunks_ok w1" using w1(2) by (simp add: extends_def)
  have g2: "g x = chunk_at cs (x - unat ?c)" if "unat ?c \<le> x" "x < unat ?c + total_len cs" for x
  proof -
    have "\<not> x - unat coff < unat (S_Len s)" "x - unat coff - unat (S_Len s) = x - unat ?c" using that c by linarith+
    then show ?thesis using Cons.prems(5) [of x] that c by simp
  qed
  obtain coff' w2 where w2: "copy_pieces offIn n fout offOut cs ?c w1 = Some (coff', w2)" "unat coff' = unat ?c + total_len cs"
    "extends fout L w1 w2"
    "file_at w2 fout = paste ({unat ?c..<unat ?c + total_len cs} \<inter> ?R) (unat offIn) (unat offOut) g (file_at w1 fout)"
    using Cons.IH [OF c1 _ _ _ g2] Cons.prems(2,3,4) c by (auto simp: add.assoc)
  have "{unat coff..<unat coff + unat (S_Len s)} \<inter> ?R \<union> {unat ?c..<unat ?c + total_len cs} \<inter> ?R = {unat coff..<unat coff + total_len (s # cs)} \<inter> ?R"
    using c by auto
  with w1(3) w2(4) have "file_at w2 fout = paste ({unat coff..<unat coff + total_len (s # cs)} \<inter> ?R) (unat offIn) (unat offOut) g (file_at w fout)"
    by (simp only: paste_paste)
  with w1(1) w2(1,2) c extends_trans [OF w1(2) w2(3)] show ?case by simp
qed

text \<open>The hole in front makes the pieces of a chunk fill it.\<close>

lemma chunk_pieces:
  assumes "list_all fits ss"
  shows "total_len (buildSlice (hole 0 (ucast ChunkSize) # ss)) = CS"
    and "chunk_at (buildSlice (hole 0 (ucast ChunkSize) # ss)) q = latest ss q"
    and "s \<in> set (buildSlice (hole 0 (ucast ChunkSize) # ss)) \<Longrightarrow> S_Len s \<noteq> 0"
    and "s \<in> set (buildSlice (hole 0 (ucast ChunkSize) # ss)) \<Longrightarrow> comes_from (set ss) (S_Id s) (S_Size s)"
proof -
  let ?h = "hole 0 (ucast ChunkSize)"
  have C: "CS < 2 ^ 32" by (simp add: CS_def)
  have e: "slice_end ?h = CS" "sl_pos ?h = 0" "sl_id ?h = 0" by (simp_all add: slice_end_def hole_def unat_ucast_Chunk)
  have h: "writable ?h" using e(1) C by (simp add: writable_def) (metis CS_pos hole_def less_irrefl slice.select_convs(4) unat_0 unat_ucast_Chunk)
  have ss: "list_all (\<lambda>s. writable s \<and> slice_end s \<le> CS) ss"
    using assms by (auto simp: list_all_iff fits_writable) (simp add: fits_def)
  show "total_len (buildSlice (?h # ss)) = CS" by (rule buildSlice_full [OF ss h e(2,1)])
  have wr: "list_all writable (?h # ss)" using ss h by (auto simp: list_all_iff)
  have "latest (?h # ss) q = latest ss q" using latest_none [of q ss] by (simp add: slice_at_def piece_at_def e(3))
  then show "chunk_at (buildSlice (?h # ss)) q = latest ss q" using buildSlice_content(1) [OF wr] by simp
  show "s \<in> set (buildSlice (?h # ss)) \<Longrightarrow> S_Len s \<noteq> 0" by (rule buildSlice_from(2) [OF wr])
  show "s \<in> set (buildSlice (?h # ss)) \<Longrightarrow> comes_from (set ss) (S_Id s) (S_Size s)"
    using buildSlice_from(1) [OF wr] e(3) by (fastforce simp: comes_from_def)
qed

lemma read_chunks_eq:
  assumes "chunks_ok w"
  shows "\<exists>f. read_chunks fin ks w = Some (Some f) \<and> (\<forall>k \<in> set ks. f k = slices_at w fin k)"
proof (induction ks)
  case (Cons k ks)
  then obtain f where f: "read_chunks fin ks w = Some (Some f)" "\<forall>k \<in> set ks. f k = slices_at w fin k" by blast
  show ?case
  proof (cases "chunk_vals w (fin, k)")
    case None
    have "slices_at w fin k = []" using chunk_is_slices [of w fin k "[]"] None by (simp add: chunk_is_def chunk_val_def)
    have d: "f j = []" if "read_chunks fin js w = Some (Some f)" "j \<notin> set js" for f js j
      using that
    proof (induction js arbitrary: f)
      case (Cons i js)
      then show ?case by (auto split: option.splits simp: Option.bind_eq_Some_conv)
    qed simp
    have "f k = slices_at w fin k" using f(2) d [OF f(1)] \<open>slices_at w fin k = []\<close> by metis
    with f None show ?thesis by auto
  next
    case (Some v)
    have "readSliceBuf v = Some (Some (slices_at w fin k))"
      using chunk_is_read [OF chunks_okD [OF assms, of fin k]] Some by (simp add: chunk_val_def)
    with f Some show ?thesis by auto
  qed
qed simp


lemma copy_loop_effect:
  assumes "chunks_ok w" and "n \<noteq> 0" and "unat offIn + unat n \<le> file_limit" and "unat offOut + unat n \<le> L" and "L < file_limit"
    and src: "\<And>k. unat offIn div CS \<le> unat k \<Longrightarrow> unat k * CS < unat offIn + unat n \<Longrightarrow> list_all fits (chunks k)"
    and g: "\<And>x. unat offIn div CS \<le> x div CS \<Longrightarrow> x div CS * CS < unat offIn + unat n \<Longrightarrow> g x = latest (chunks (of_nat (x div CS))) (x mod CS)"
    and "unat coff = m * CS" and "unat offIn div CS \<le> m"
  shows "\<exists>w'. copy_loop chunks offIn n fout offOut coff w = Some w' \<and> extends fout L w w' \<and>
    file_at w' fout = paste ({unat coff..} \<inter> {unat offIn..<unat offIn + unat n}) (unat offIn) (unat offOut) g (file_at w fout)"
  using assms(1,8,9)
proof (induction "unat offIn + unat n - unat coff" arbitrary: coff m w rule: less_induct)
  case less
  let ?R = "{unat offIn..<unat offIn + unat n}"
  have sum: "unat (offIn + n) = unat offIn + unat n" using assms(3) file_limit_64 by (simp add: unat_add_64)
  show ?case
  proof (cases "coff < offIn + n")
    case False
    then have e: "{unat coff..} \<inter> ?R = {}" using sum by (auto simp: word_less_nat_alt)
    have "copy_loop chunks offIn n fout offOut coff w = Some w" using False by (simp add: copy_loop.simps)
    then show ?thesis unfolding e paste_empty using extends_refl [OF less.prems(1)] by blast
  next
    case True
    then have lt: "m * CS < unat offIn + unat n" using sum less.prems(2) by (simp add: word_less_nat_alt)
    then have "m * CS < 2 ^ 32 * CS" using assms(3) unfolding file_limit_def by linarith
    then have m: "m < 2 ^ 32" using mult_less_cancel2 by blast
    then have end1: "m * CS + CS \<le> file_limit" using mult_le_mono1 [OF Suc_leI [OF m], of CS] by (simp add: file_limit_def)
    have lim: "unat coff < file_limit" using lt assms(3) less.prems(2) by simp
    define k where "k = (ucast (coff div ChunkSize) :: 32 word)"
    have k: "unat k = m" unfolding k_def using unat_chunk_indx [OF lim] less.prems(2) by simp
    have mod0: "coff mod ChunkSize = 0" using less.prems(2) unat_mod_Chunk [of coff] by (simp add: word_unat_eq_iff)
    define cs where "cs = buildSlice (hole 0 (ucast ChunkSize) # chunks k)"
    have fk: "list_all fits (chunks k)" using src [of k] k less.prems(3) lt by simp
    note pc = chunk_pieces [OF fk, folded cs_def]
    have gx: "g x = chunk_at cs (x - unat coff)" if "unat coff \<le> x" "x < unat coff + total_len cs" for x
    proof -
      define r where "r = x - m * CS"
      have x: "x = m * CS + r" "r < CS" using that pc(1) less.prems(2) by (simp_all add: r_def)
      then have dm: "x div CS = m" "x mod CS = r" by simp_all
      have "of_nat m = k" using k by (metis m unat_of_nat_32 word_unat_eq_iff)
      then show ?thesis using g [of x] dm less.prems(2,3) lt pc(2) by (simp add: r_def)
    qed
    have "unat coff + total_len cs \<le> file_limit" using end1 pc(1) less.prems(2) by simp
    then obtain coff' w1 where w1: "copy_pieces offIn n fout offOut cs coff w = Some (coff', w1)" "unat coff' = unat coff + CS" "extends fout L w w1"
      "file_at w1 fout = paste ({unat coff..<unat coff + CS} \<inter> ?R) (unat offIn) (unat offOut) g (file_at w fout)"
      using copy_pieces_effect [where cs = cs and g = g and fout = fout, OF less.prems(1) pc(3) _ assms(2) _ assms(3-5) gx] pc(1) by auto
    have c1: "chunks_ok w1" using w1(3) by (simp add: extends_def)
    have "unat offIn + unat n - unat coff' < unat offIn + unat n - unat coff"
      using w1(2) lt less.prems(2) CS_pos by linarith
    moreover have "unat coff' = (m + 1) * CS" using w1(2) less.prems(2) by simp
    ultimately obtain w2 where w2: "copy_loop chunks offIn n fout offOut coff' w1 = Some w2" "extends fout L w1 w2"
      "file_at w2 fout = paste ({unat coff'..} \<inter> ?R) (unat offIn) (unat offOut) g (file_at w1 fout)"
      using less.hyps [of coff' w1 "m + 1"] c1 less.prems(3) by auto
    have "{unat coff..<unat coff + CS} \<inter> ?R \<union> {unat coff'..} \<inter> ?R = {unat coff..} \<inter> ?R" using w1(2) by auto
    with w1(4) w2(3) have "file_at w2 fout = paste ({unat coff..} \<inter> ?R) (unat offIn) (unat offOut) g (file_at w fout)"
      by (simp only: paste_paste)
    moreover have "copy_loop chunks offIn n fout offOut coff w = Some w2"
      using True mod0 w1(1) w2(1) by (subst copy_loop.simps) (simp add: k_def [symmetric] cs_def [symmetric])
    ultimately show ?thesis using extends_trans [OF w1(3) w2(2)] by blast
  qed
qed

text \<open>What is read of the source: the slices of every chunk that has a byte of the range.\<close>

lemma read_range:
  assumes "chunks_ok w" and lim: "unat offIn + unat n < file_limit"
    and rd: "read_chunks fin (chunk_range (ucast (offIn div ChunkSize)) (ucast ((offIn + n) div ChunkSize))) w = Some (Some chunks)"
    and k: "unat offIn div CS \<le> unat k" "unat k * CS < unat offIn + unat n"
  shows "chunks k = slices_at w fin k"
proof -
  let ?lo = "ucast (offIn div ChunkSize) :: 32 word" and ?hi = "ucast ((offIn + n) div ChunkSize) :: 32 word"
  have sum: "unat (offIn + n) = unat offIn + unat n" using lim file_limit_64 by (simp add: unat_add_64)
  have lo: "unat ?lo = unat offIn div CS" using lim by (intro unat_chunk_indx) simp
  have hi: "unat ?hi = (unat offIn + unat n) div CS" using lim sum by (subst unat_chunk_indx) simp_all
  have "unat k \<le> (unat offIn + unat n) div CS" using k(2) by (simp add: less_eq_div_iff_mult_less_eq)
  moreover have "of_nat (unat k) = k" by simp
  ultimately have "k \<in> set (chunk_range ?lo ?hi)" unfolding chunk_range_def set_map set_upt lo hi using k(1)
    by (metis atLeastLessThan_iff imageI le_imp_less_Suc)
  then show ?thesis using read_chunks_eq [OF assms(1), of fin "chunk_range ?lo ?hi"] rd by auto
qed

text \<open>Reading the source and running the loop.\<close>

lemma copy_range_effect:
  assumes "chunks_ok w" and "n \<noteq> 0" and "unat offIn + unat n < file_limit" and "unat offOut + unat n \<le> L" and "L < file_limit"
  shows "\<exists>chunks w'. read_chunks fin (chunk_range (ucast (offIn div ChunkSize)) (ucast ((offIn + n) div ChunkSize))) w = Some (Some chunks) \<and>
    copy_loop chunks offIn n fout offOut (offIn div ChunkSize * ChunkSize) w = Some w' \<and> extends fout L w w' \<and>
    file_at w' fout = overwrite (unat offOut) (unat n) (\<lambda>q. file_at w fin (unat offIn + q)) (file_at w fout)"
proof -
  obtain chunks where ch: "read_chunks fin (chunk_range (ucast (offIn div ChunkSize)) (ucast ((offIn + n) div ChunkSize))) w = Some (Some chunks)"
    using read_chunks_eq [OF assms(1)] by blast
  note rng = read_range [OF assms(1,3) ch]
  have "unat offIn div CS * CS < 2 ^ 64" using assms(3) file_limit_64 div_times_less_eq_dividend [of "unat offIn" CS] by linarith
  then have coff: "unat (offIn div ChunkSize * ChunkSize) = unat offIn div CS * CS"
    by (subst unat_mult_64) (simp_all add: unat_div_Chunk unat_ChunkSize)
  have s: "list_all fits (chunks k)" if "unat offIn div CS \<le> unat k" "unat k * CS < unat offIn + unat n" for k
    using rng [OF that] chunks_okD [OF assms(1), of fin k] by (simp add: chunk_is_def)
  have g: "file_at w fin x = latest (chunks (of_nat (x div CS))) (x mod CS)"
    if "unat offIn div CS \<le> x div CS" "x div CS * CS < unat offIn + unat n" for x
  proof -
    have lt: "x div CS * CS < 2 ^ 32 * CS" using that(2) assms(3) unfolding file_limit_def by linarith
    then have d: "x div CS < 2 ^ 32" using mult_less_cancel2 by blast
    have "x < file_limit" using d unfolding file_limit_def by (metis CS_pos div_less_iff_less_mult)
    moreover have "unat (of_nat (x div CS) :: 32 word) = x div CS" by (rule unat_of_nat_32 [OF d])
    ultimately show ?thesis using rng [of "of_nat (x div CS)"] that by (simp add: file_at_def)
  qed
  have set_eq: "{unat offIn div CS * CS..} \<inter> {unat offIn..<unat offIn + unat n} = {unat offIn..<unat offIn + unat n}"
    using order_trans [OF div_times_less_eq_dividend [of "unat offIn" CS]] by auto
  obtain w' where "copy_loop chunks offIn n fout offOut (offIn div ChunkSize * ChunkSize) w = Some w'" "extends fout L w w'"
    "file_at w' fout = paste {unat offIn..<unat offIn + unat n} (unat offIn) (unat offOut) (file_at w fin) (file_at w fout)"
    using copy_loop_effect [where g = "file_at w fin" and chunks = chunks and fout = fout, OF assms(1,2) less_imp_le [OF assms(3)] assms(4,5) s g coff order_refl]
    unfolding coff set_eq by blast
  then show ?thesis using ch unfolding paste_range by blast
qed

lemma CopyFileRange_tx_steps:
  assumes run: "CopyFileRange_tx m fin offIn fout offOut size0 (w, out) = Some (None, w', out')"
    and sv: "inode_vals (fw_acl w) fin = Some sv" "Attr_Unmarshal sv zero_Attr = Some sa"
    and v: "inode_vals (fw_acl w) fout = Some v" "Attr_Unmarshal v zero_Attr = Some a"
  defines "n \<equiv> if offIn + size0 > Length sa then Length sa - offIn else size0"
  shows "Typ sa = TypeFile \<and> (if offIn \<ge> Length sa then w' = w else Typ a = TypeFile \<and>
    (\<exists>w1 w2 now chunks. quiet_step w w1 \<and>
      read_chunks fin (chunk_range (ucast (offIn div ChunkSize)) (ucast ((offIn + n) div ChunkSize))) w1 = Some (Some chunks) \<and>
      copy_loop chunks offIn n fout offOut (offIn div ChunkSize * ChunkSize) w1 = Some w2 \<and>
      set_attr fout (with_times now now (a\<lparr>Length := max (Length a) (offOut + n)\<rparr>)) w2 = Some w'))"
proof -
  have ty: "Typ sa = TypeFile" using run sv v by (auto simp: CopyFileRange_tx_def Let_def split: if_splits)
  show ?thesis
  proof (cases "offIn \<ge> Length sa")
    case True
    then show ?thesis using run sv v ty by (auto simp: CopyFileRange_tx_def Let_def)
  next
    case False
    define a1 where "a1 = (if offOut + n > Length a then a\<lparr>Length := offOut + n\<rparr> else a)"
    have a1: "a1 = a\<lparr>Length := max (Length a) (offOut + n)\<rparr>" by (simp add: a1_def max_def)
    have ty2: "Typ a = TypeFile" using run sv v ty False by (auto simp: CopyFileRange_tx_def Let_def split: if_splits)
    obtain dl ps w0 chunks w2 where q: "checkQuota m dl 0 ps w = Some (E0, w0)"
      and rd: "read_chunks fin (chunk_range (ucast (offIn div ChunkSize)) (ucast ((offIn + n) div ChunkSize))) (snd (clock_now w0)) = Some (Some chunks)"
      and cl: "copy_loop chunks offIn n fout offOut (offIn div ChunkSize * ChunkSize) (snd (clock_now w0)) = Some w2"
      and st: "set_attr fout (with_times (fst (clock_now w0)) (fst (clock_now w0)) a1) w2 = Some w'"
      using run sv v ty ty2 False
      by (cases "offOut + n > Length a")
        (auto simp: CopyFileRange_tx_def Let_def n_def [symmetric] a1_def Option.bind_eq_Some_conv split_beta split: if_split_asm option.split_asm)
    have "quiet_step w (snd (clock_now w0))" by (rule quiet_trans [OF quiet_checkQuota [OF q] quiet_clock])
    with rd cl st [unfolded a1] ty ty2 False show ?thesis by (simp only: if_False simp_thms) blast
  qed
qed

text \<open>A copy writes the bytes of the source, as they were before, to the target; it is cut off at the end of the source.\<close>

definition af_copy :: "afile \<Rightarrow> nat \<Rightarrow> nat \<Rightarrow> nat \<Rightarrow> afile \<Rightarrow> afile" where
  "af_copy src offIn offOut n = (if offIn < fst src then af_write offOut (min n (fst src - offIn)) (\<lambda>q. snd src (offIn + q)) else id)"

lemma CopyFileRange_tx_effect:
  assumes ok: "files_ok B w" and run: "CopyFileRange_tx m fin offIn fout offOut size0 (w, out) = Some (None, w', out')"
    and src: "view B w fin = Some (len, f)"
    and size: "size0 \<noteq> 0" "unat offIn + unat size0 < 2 ^ 64" "unat offOut + min (unat size0) (len - unat offIn) < file_limit"
  shows "updates B fout (af_copy (len, f) (unat offIn) (unat offOut) (unat size0)) w w'"
proof -
  obtain sv v where v: "inode_vals (fw_acl w) fin = Some sv" "inode_vals (fw_acl w) fout = Some v"
    using run by (auto simp: CopyFileRange_tx_def Let_def split: option.splits)
  obtain sa where sa: "stored w fin sa" "tail_ok B w fin sa" "Attr_Unmarshal sv zero_Attr = Some sa"
    using files_okD(2) [OF ok v(1)] by blast
  obtain a where a: "stored w fout a" "tail_ok B w fout a" "Attr_Unmarshal v zero_Attr = Some a"
    using files_okD(2) [OF ok v(2)] by blast
  have lf: "len = unat (Length sa)" "f = bytes B w fin" using src stored_view [OF sa(1)] by simp_all
  define n where "n = (if offIn + size0 > Length sa then Length sa - offIn else size0)"
  note st = CopyFileRange_tx_steps [OF run v(1) sa(3) v(2) a(3), folded n_def]
  show ?thesis
  proof (cases "offIn \<ge> Length sa")
    case True
    then have "af_copy (len, f) (unat offIn) (unat offOut) (unat size0) = id" by (simp add: af_copy_def lf word_le_nat_alt)
    with st True show ?thesis using updates_quiet [OF _ ok stored_view [OF a(1)]] by simp
  next
    case False
    then have lt: "unat offIn < len" by (simp add: lf word_le_nat_alt)
    have sum: "unat (offIn + size0) = unat offIn + unat size0" by (rule unat_add_64 [OF size(2)])
    have n: "unat n = min (unat size0) (len - unat offIn)"
      using lt sum unfolding n_def lf by (auto simp: word_less_nat_alt unat_sub word_le_nat_alt)
    have n0: "n \<noteq> 0" using n lt size(1) by (auto simp: unat_gt_0 [symmetric] min_def split: if_splits)
    have slim: "len < file_limit" using sa(2) st by (simp add: tail_ok_def lf)
    have b: "unat offIn + unat n < file_limit" "unat offOut + unat n < file_limit" using n lt slim size(3) by simp_all
    obtain w1 w2 now chunks where w1: "quiet_step w w1" and ty: "Typ a = TypeFile"
      and rd: "read_chunks fin (chunk_range (ucast (offIn div ChunkSize)) (ucast ((offIn + n) div ChunkSize))) w1 = Some (Some chunks)"
      and cl: "copy_loop chunks offIn n fout offOut (offIn div ChunkSize * ChunkSize) w1 = Some w2"
      and s: "set_attr fout (with_times now now (a\<lparr>Length := max (Length a) (offOut + n)\<rparr>)) w2 = Some w'"
      using st False by (simp only: if_False simp_thms) blast
    let ?b = "with_times now now (a\<lparr>Length := max (Length a) (offOut + n)\<rparr>)"
    define L where "L = max (unat (Length a)) (unat offOut + unat n)"
    have tl: "unat (Length a) < file_limit" "grown_file B w fout (unat (Length a))" using a(2) ty by (simp_all add: tail_ok_def)
    have L: "unat (max (Length a) (offOut + n)) = L" "unat offOut + unat n \<le> L" "L < file_limit"
      using b(2) tl(1) file_limit_64 by (simp_all add: unat_max L_def unat_add_64)
    have c1: "chunks_ok w1" using files_okD(1) [of B w1] quiet_files(1) [OF w1] ok by simp
    have e: "extends fout L w1 w2" "file_at w2 fout = overwrite (unat offOut) (unat n) (\<lambda>q. file_at w1 fin (unat offIn + q)) (file_at w1 fout)"
      using copy_range_effect [OF c1 n0 b(1) L(2,3), of fin fout] rd cl by auto
    have sl: "slices_at w1 = slices_at w" by (rule quiet_files(3) [OF w1])
    have bok: "attr_ok ?b" using a(1) by (simp add: stored_def attr_ok_changes)
    obtain w3 where set3: "set_attr fout ?b w2 = Some w3" "chunk_vals w3 = chunk_vals w2" "objects w3 = objects w2" "fw_of w3 = fw_of w2"
      "inode_vals (fw_acl w3) = (inode_vals (fw_acl w2))(fout := Attr_Marshal ?b)"
      by (rule set_attr_stores [OF bok, of fout w2])
    have [simp]: "w3 = w'" using s set3(1) by simp
    note sl3 = slices_at_cong [OF set3(2)]
    have bs: "bytes B w' fout = overwrite (unat offOut) (unat n) (\<lambda>q. bytes B w1 fin (unat offIn + q)) (bytes B w1 fout)"
      using file_at_cong(1) [OF set3(2)] e(2) by (simp add: bytes_def [abs_def] byte_overwrite)
    have b1: "bytes B w1 fin = bytes B w fin" by (rule bytes_slices) (simp add: sl)
    show ?thesis
    proof (rule finish_update [OF ok a(1) w1])
      show "chunks_ok w'" using e(1) file_at_cong(2) [OF set3(2)] by (simp add: extends_def)
      show "slices_at w' i k = slices_at w1 i k" if "i \<noteq> fout" for i k using e(1) that sl3 by (simp add: extends_def)
      show "inode_vals (fw_acl w') = (inode_vals (fw_acl w1))(fout := Attr_Marshal ?b)" "objects w' = objects w1"
        "chunks.shrinks (fw_of w1) (fw_of w')"
        using set3 e(1) by (simp_all add: extends_def chunks.shrinks_refl)
      have "grown_file B w1 fout L"
        using grown_file_more [OF tl(2), of L] grown_file_slices [of w1 fout w] sl by (simp add: L_def)
      then have "grown_file B w2 fout L" using e(1) by (simp add: extends_def)
      then show "tail_ok B w' fout ?b" using L grown_file_slices [of w' fout w2] sl3 by (simp add: tail_ok_def)
      show "(unat (Length ?b), bytes B w' fout) = af_copy (len, f) (unat offIn) (unat offOut) (unat size0) (unat (Length a), bytes B w1 fout)"
        using lt by (simp add: af_copy_def af_write_def bs b1 L(1) lf(2) n [symmetric]) (simp add: L_def)
    qed (rule bok)
  qed
qed

end
