(* ===== verification/JFS_FileCompact.thy ===== *)
theory JFS_FileCompact
  imports JFS_FileCopy
begin

text \<open>
  Compaction (\<open>compactChunk\<close> of pkg/meta/slice.go, \<open>doCompactChunk\<close> of pkg/meta/tkv.go) on the bytes of files: the slices of a
  chunk behind the skipped ones are replaced by one slice of a new object, the bytes of the file stay, and the counters of the objects
  stay at least as large as the number of references to them.
\<close>

unbundle bit_operations_syntax


section \<open>The slices of a compacted chunk\<close>

text \<open>A slice that is skipped is visible: what it covers is decided by the skipped slices.\<close>

lemma newest_cover:
  assumes "list_ex (\<lambda>s. covers s q) ss"
  obtains i where "i < length ss" "covers (ss ! i) q" "latest ss q = slice_at (ss ! i) q" "\<forall>j. i < j \<and> j < length ss \<longrightarrow> \<not> covers (ss ! j) q"
  using assms
proof (induction ss arbitrary: thesis rule: rev_induct)
  case (snoc s ss)
  show ?case
  proof (cases "covers s q")
    case True
    then show ?thesis by (intro snoc.prems(1) [of "length ss"]) (auto simp: latest_snoc)
  next
    case False
    then obtain i where "i < length ss" "covers (ss ! i) q" "latest ss q = slice_at (ss ! i) q"
      "\<forall>j. i < j \<and> j < length ss \<longrightarrow> \<not> covers (ss ! j) q" using snoc.IH snoc.prems(2) by auto
    with False show ?thesis by (intro snoc.prems(1) [of i]) (auto simp: latest_snoc nth_append less_Suc_eq)
  qed
qed simp

lemma skip_visible:
  assumes "list_all writable ss" and "list_ex (\<lambda>s. covers s q) (take (skipSome ss) ss)"
  shows "latest ss q = latest (take (skipSome ss) ss) q"
proof -
  let ?A = "take (skipSome ss) ss"
  obtain i where i: "i < length ?A" "covers (?A ! i) q" "latest ?A q = slice_at (?A ! i) q" by (rule newest_cover [OF assms(2)])
  have k: "i < skipSome ss" "i < length ss" "?A ! i = ss ! i" using i(1) by simp_all
  have v: "latest (drop i ss) q = slice_at (ss ! i) q" using skipSome_skips_whole_slices [OF assms(1) k(1)] i(2) k(3) by simp
  have "list_ex (\<lambda>s. covers s q) (drop i ss)" using i(2) k by (auto simp: list_ex_iff Cons_nth_drop_Suc [symmetric])
  then have "latest ss q = latest (drop i ss) q" using latest_append [of "take i ss" "drop i ss" q] by simp
  with v i(3) k(3) show ?thesis by simp
qed

lemma skipped_slice_visible:
  assumes "list_all writable ss" and "a \<in> set (take (skipSome ss) ss)" and "covers a q"
  shows "latest ss q = slice_at a q"
proof -
  obtain i where i: "i < skipSome ss" "i < length ss" "a = ss ! i" using assms(2) by (auto simp: in_set_conv_nth)
  have "list_ex (\<lambda>s. covers s q) (drop i ss)" using assms(3) i by (auto simp: list_ex_iff Cons_nth_drop_Suc [symmetric])
  then have "latest ss q = latest (drop i ss) q" using latest_append [of "take i ss" "drop i ss" q] by simp
  then show ?thesis using skipSome_skips_whole_slices [OF assms(1) i(1)] assms(3) i(3) by simp
qed

text \<open>The slice that replaces the compacted ones, and what its object has to hold.\<close>

definition new_slice :: "64 word \<Rightarrow> 32 word \<Rightarrow> 32 word \<Rightarrow> slice" where
  "new_slice i pos n = \<lparr>sl_id = i, sl_size = n, sl_off = 0, sl_len = n, sl_pos = pos\<rparr>"

definition holds :: "blocks \<Rightarrow> 64 word \<Rightarrow> blocks \<Rightarrow> Slice list \<Rightarrow> bool" where
  "holds B' i B cs \<longleftrightarrow> (\<forall>d < total_len cs. B' (i, of_nat d) = byte B (chunk_at cs d))"

text \<open>What \<open>compactChunk\<close> of the base does to the slices it reads: \<open>ss\<close> with the skipped ones in front.\<close>

definition compaction :: "slice list \<Rightarrow> 32 word \<Rightarrow> 32 word \<Rightarrow> Slice list \<Rightarrow> bool" where
  "compaction ss pos n cs \<longleftrightarrow> list_all fits ss \<and> compactChunk (drop (skipSome ss) ss) = (pos, n, cs) \<and> n \<noteq> 0 \<and>
     \<not> list_ex (overlaps pos n) (take (skipSome ss) ss)"

lemma compaction_facts:
  assumes "compaction ss pos n cs"
  shows "list_all writable ss" "unat pos + unat n \<le> CS" "unat n = total_len cs"
    "latest (drop (skipSome ss) ss) q = (if q < unat pos then None else chunk_at cs (q - unat pos))"
    "a \<in> set (take (skipSome ss) ss) \<Longrightarrow> covers a q \<Longrightarrow> \<not> (unat pos \<le> q \<and> q < unat pos + unat n)"
    "c \<in> set cs \<Longrightarrow> comes_from (set ss) (S_Id c) (S_Size c)"
proof -
  let ?A = "take (skipSome ss) ss" and ?C = "drop (skipSome ss) ss"
  have C: "CS < 2 ^ 32" by (simp add: CS_def)
  have wr: "list_all (\<lambda>s. writable s \<and> slice_end s \<le> CS) ?C"
    using assms fits_writable by (auto simp: compaction_def list_all_iff fits_def dest!: in_set_dropD)
  have cc: "compactChunk ?C = (pos, n, cs)" using assms by (simp add: compaction_def)
  show "list_all writable ss" using assms fits_writable by (auto simp: compaction_def list_all_iff)
  show b: "unat pos + unat n \<le> CS" by (rule compactChunk_within(1) [OF wr C cc])
  have w: "list_all writable ?C" using wr by (simp add: list_all_iff)
  show "unat n = total_len cs" by (rule compactChunk_content(2) [OF w cc])
  show "latest ?C q = (if q < unat pos then None else chunk_at cs (q - unat pos))" by (rule compactChunk_content(1) [OF w cc])
  show "c \<in> set cs \<Longrightarrow> comes_from (set ss) (S_Id c) (S_Size c)"
    using compactChunk_within(2) [OF wr C cc] by (auto simp: comes_from_def dest!: in_set_dropD)
  assume a: "a \<in> set ?A" "covers a q"
  have "fits a" using a(1) assms by (auto simp: compaction_def list_all_iff dest: in_set_takeD)
  then have e: "unat (sl_pos a + sl_len a) = slice_end a" using unat_slice_end [of a] C by (simp add: fits_def)
  have e2: "unat (pos + n) = unat pos + unat n" using b C by (intro unat_add_lem [THEN iffD1]) simp
  have "\<not> overlaps pos n a" using a(1) assms by (auto simp: compaction_def list_ex_iff)
  then show "\<not> (unat pos \<le> q \<and> q < unat pos + unat n)"
    using a(2) e e2 by (auto simp: overlaps_def covers_def word_less_nat_alt)
qed

lemma new_slice_covers: "covers (new_slice i pos n) q \<longleftrightarrow> unat pos \<le> q \<and> q < unat pos + unat n"
  by (simp add: covers_def new_slice_def slice_end_def)

lemma new_slice_fits: "n \<noteq> 0 \<Longrightarrow> unat pos + unat n \<le> CS \<Longrightarrow> fits (new_slice i pos n)"
  by (simp add: fits_def new_slice_def slice_end_def)

text \<open>Compaction changes no byte: neither of the slices alone nor with later ones behind them.\<close>

lemma new_slice_byte:
  assumes c: "compaction ss pos n cs" and h: "holds B' i B cs" and i: "i \<noteq> 0" and q: "covers (new_slice i pos n) q"
  shows "byte B' (slice_at (new_slice i pos n) q) = byte B (latest (drop (skipSome ss) ss) q)"
proof -
  have "q - unat pos < total_len cs" "\<not> q < unat pos" using q compaction_facts(3) [OF c] by (auto simp: new_slice_covers)
  then have l: "latest (drop (skipSome ss) ss) q = chunk_at cs (q - unat pos)" and b: "B' (i, of_nat (q - unat pos)) = byte B (chunk_at cs (q - unat pos))"
    using compaction_facts(4) [OF c, of q] h by (simp_all add: holds_def del: of_nat_diff)
  have "slice_at (new_slice i pos n) q = Some (i, of_nat (q - unat pos))" using i by (simp add: slice_at_def piece_at_def new_slice_def)
  then show ?thesis unfolding l using b by (simp add: byte_def [of B'])
qed

lemma compaction_bytes:
  assumes c: "compaction ss pos n cs" and h: "holds B' i B cs" and i: "i \<noteq> 0"
    and same: "\<And>s off. s \<in> set (ss @ R) \<Longrightarrow> B' (sl_id s, off) = B (sl_id s, off)"
  shows "byte B' (latest (take (skipSome ss) ss @ new_slice i pos n # R) q) = byte B (latest (ss @ R) q)"
proof -
  let ?A = "take (skipSome ss) ss" and ?C = "drop (skipSome ss) ss" and ?N = "new_slice i pos n"
  have cong: "byte B' (latest tt q) = byte B (latest tt q)" if "set tt \<subseteq> set (ss @ R)" for tt
    using that same by (induction tt) (auto simp: slice_at_def piece_at_def byte_def)
  have split: "latest ss q = (if list_ex (\<lambda>s. covers s q) ?C then latest ?C q else latest ?A q)"
    using latest_append [of ?A ?C q] by simp
  show ?thesis
  proof (cases "list_ex (\<lambda>s. covers s q) R")
    case True
    then show ?thesis using cong [of R] latest_append [of "?A @ [?N]" R q] latest_append [of ss R q] by simp
  next
    case noR: False
    have new: "latest (?A @ ?N # R) q = (if covers ?N q then slice_at ?N q else latest ?A q)"
      using noR latest_append [of "?A @ [?N]" R q] by (simp add: latest_snoc)
    have old: "latest (ss @ R) q = latest ss q" using noR by (simp add: latest_append)
    show ?thesis
    proof (cases "covers ?N q")
      case True
      then have "\<not> list_ex (\<lambda>s. covers s q) ?A" using compaction_facts(5) [OF c] by (auto simp: list_ex_iff new_slice_covers)
      then have "latest ss q = latest ?C q" using split latest_none [of q ?A] latest_none [of q ?C] by auto
      then show ?thesis using new_slice_byte [OF c h i True] new old True by simp
    next
      case False
      show ?thesis
      proof (cases "list_ex (\<lambda>s. covers s q) ?A")
        case True
        from skip_visible [OF compaction_facts(1) [OF c] this] show ?thesis
          using new old False cong [of ?A] set_take_subset [of "skipSome ss" ss] by auto
      next
        case noA: False
        have "chunk_at cs (q - unat pos) = None" if "unat pos + unat n \<le> q"
          using chunk_at_beyond [of cs "q - unat pos"] compaction_facts(3) [OF c] that by simp
        then have "latest ?C q = None" using compaction_facts(4) [OF c, of q] False by (auto simp: new_slice_covers)
        then show ?thesis using new old False noA split latest_none [of q ?A] by simp
      qed
    qed
  qed
qed

text \<open>Nor does it bring anything back behind the end of the file.\<close>

lemma compaction_grown:
  assumes c: "compaction ss pos n cs" and h: "holds B' i B cs" and i: "i \<noteq> 0"
    and same: "\<And>s off. s \<in> set (ss @ R) \<Longrightarrow> B' (sl_id s, off) = B (sl_id s, off)" and g: "grown B (ss @ R) L"
    and ne: "ss \<noteq> []"
  shows "grown B' (take (skipSome ss) ss @ new_slice i pos n # R) L"
proof -
  let ?A = "take (skipSome ss) ss" and ?N = "new_slice i pos n"
  have base: "grown B' (?A @ [?N]) L" if g: "grown B ss L" for L
  proof (rule grown_list, unfold list_all_iff, rule ballI)
    fix a assume a: "a \<in> set (?A @ [?N])"
    show "ends_by B' a L" unfolding ends_by_def
    proof (intro allI impI)
      fix q assume q: "L \<le> q" "covers a q"
      have z: "byte B (latest ss q) = 0" by (rule grown_tail [OF g q(1)])
      show "byte B' (slice_at a q) = 0"
      proof (cases "a = ?N")
        case True
        with compaction_bytes [OF c h i same, of "[]" q] q(2) z show ?thesis by (simp add: latest_snoc)
      next
        case False
        then have "latest ss q = slice_at a q" "a \<in> set ss"
          using a skipped_slice_visible [OF compaction_facts(1) [OF c] _ q(2)] by (auto dest: in_set_takeD)
        with z same [of a] show ?thesis by (cases "sl_id a = 0") (auto simp: slice_at_def piece_at_def byte_def)
      qed
    qed
  qed
  show ?thesis
    using g same ne
  proof (induction "ss @ R" L arbitrary: R rule: grown.induct)
    case (grown_more L L')
    then show ?case by (blast intro: grown.grown_more)
  next
    case (grown_slice tt L s)
    show ?case
    proof (cases R rule: rev_cases)
      case Nil
      then have "grown B ss L" using grown.grown_slice [OF grown_slice.hyps(1,3)] grown_slice.hyps(4) by simp
      from base [OF this] Nil show ?thesis by simp
    next
      case (snoc R' r)
      then have r: "tt = ss @ R'" "s = r" using grown_slice.hyps(4) by auto
      have "ends_by B' r L" using grown_slice.hyps(3) r(2) ends_by_cong [of B' r B L] grown_slice.prems(1) [of r] snoc by simp
      with grown_slice.hyps(2) [OF r(1)] grown_slice.prems snoc show ?thesis using grown.grown_slice [of B' "?A @ ?N # R'" L r] by simp
    qed
  next
    case (grown_cut tt L s L')
    show ?case
    proof (cases R rule: rev_cases)
      case Nil
      then have "grown B ss L'" using grown.grown_cut [OF grown_cut.hyps(1,3,4)] grown_cut.hyps(5) by simp
      from base [OF this] Nil show ?thesis by simp
    next
      case (snoc R' r)
      then have r: "tt = ss @ R'" "s = r" using grown_cut.hyps(5) by auto
      have "ends_by B' r L'" using grown_cut.hyps(3) r(2) ends_by_cong [of B' r B L'] grown_cut.prems(1) [of r] snoc by simp
      with grown_cut.hyps(2) [OF r(1)] grown_cut.hyps(4) grown_cut.prems snoc r(2) show ?thesis
        using grown.grown_cut [of B' "?A @ ?N # R'" L r L'] by simp
    qed
  qed simp
qed


section \<open>The transaction\<close>

lemma origin_bytes_eq: "origin_bytes ss = Some (concat (map slice_bytes ss))"
  by (induction ss) (simp_all add: marshalSlice_eq)

lemma slices_of_bytes:
  assumes "concat (map slice_bytes ss) = concat (map slice_bytes tt)"
  shows "ss = tt"
proof -
  have "Some (Some ss) = Some (Some tt)" using readSliceBuf_concat [of ss] unfolding assms readSliceBuf_concat by (rule sym)
  then show ?thesis by simp
qed

lemma take_slices: "take (k * sliceBytes) (concat (map slice_bytes ss)) = concat (map slice_bytes (take k ss))"
proof (induction ss arbitrary: k)
  case (Cons s ss)
  then show ?case by (cases k) simp_all
qed simp

lemma drop_slices: "drop (k * sliceBytes) (concat (map slice_bytes ss)) = concat (map slice_bytes (drop k ss))"
proof (induction ss arbitrary: k)
  case (Cons s ss)
  then show ?case by (cases k) simp_all
qed simp

lemma drop_refs_fields:
  "chunk_vals (drop_refs C w) = chunk_vals w" "fw_acl (drop_refs C w) = fw_acl w" "fw_of (drop_refs C w) = fw_of w"
  "objects (drop_refs C w) = objects w" "freeSlices (drop_refs C w) = freeSlices w" "nextChunk (drop_refs C w) = nextChunk w"
  by (induction C arbitrary: w) (simp_all add: incr_ref_def)

text \<open>A commit replaces the slices that were read, behind the skipped ones, and leaves those that were added since.\<close>

lemma doCompactChunk_tx_effect:
  fixes w :: "'o file_world"
  assumes ok: "chunks_ok w" and fit: "fits (new_slice i pos n)" and k: "skipped \<le> length ss"
    and run: "doCompactChunk_tx inode indx (concat (map slice_bytes ss)) C skipped pos i n delayed (w, u) = Some (None, w', u')"
  obtains R and w0 :: "'o file_world" where "slices_at w inode indx = ss @ R" "chunks_ok w'"
    "\<And>j k. slices_at w' j k = (if j = inode \<and> k = indx then take skipped ss @ new_slice i pos n # R else slices_at w j k)"
    "fw_acl w' = fw_acl w" "fw_of w' = fw_of w" "objects w' = objects w" "freeSlices w' = freeSlices w" "nextChunk w' = nextChunk w"
    "slice_refs w0 = (slice_refs w)((i, n) \<mapsto> 0)" "slice_refs w' = slice_refs (if delayed = None then drop_refs C w0 else w0)"
proof -
  let ?buf = "concat (map slice_bytes ss)" and ?tt = "slices_at w inode indx" and ?N = "new_slice i pos n"
  have ck: "chunk_is w inode indx ?tt" by (rule chunks_okD [OF ok])
  then have val: "chunk_val inode indx w = concat (map slice_bytes ?tt)" by (simp add: chunk_is_def)
  have lb: "length ?buf = length ss * sliceBytes" by (simp add: length_concat_slice_bytes mult.commute)
  have pre: "?buf = take (length ?buf) (chunk_val inode indx w)" using run by (auto simp: doCompactChunk_tx_def Let_def split: if_splits)
  then have "?buf = concat (map slice_bytes (take (length ss) ?tt))" unfolding lb val take_slices .
  from slices_of_bytes [OF this] have ss: "ss = take (length ss) ?tt" .
  define R where "R = drop (length ss) ?tt"
  have tt: "?tt = ss @ R" using ss append_take_drop_id [of "length ss" ?tt] by (simp add: R_def)
  define v where "v = concat (map slice_bytes (take skipped ss @ ?N # R))"
  define w0 where "w0 = (set_chunk inode indx v w)\<lparr>slice_refs := (slice_refs (set_chunk inode indx v w))((i, n) \<mapsto> 0)\<rparr>"
  have "take skipped ?tt = take skipped ss" unfolding tt using k by simp
  then have new: "take (skipped * sliceBytes) (chunk_val inode indx w) @ slice_bytes ?N @ drop (length ?buf) (chunk_val inode indx w) = v"
    unfolding lb val take_slices drop_slices v_def R_def by simp
  have w': "w' = (case delayed of Some d \<Rightarrow> if d = [] then w0 else let (now, w) = clock_now w0 in w\<lparr>delSlices := (delSlices w)((fst now, i) \<mapsto> d)\<rparr>
      | None \<Rightarrow> drop_refs C w0)"
  proof -
    from run pre have "Some (None, case delayed of Some d \<Rightarrow> if d = [] then w0 else let (now, w) = clock_now w0 in w\<lparr>delSlices := (delSlices w)((fst now, i) \<mapsto> d)\<rparr>
      | None \<Rightarrow> drop_refs C w0, u) = Some (None, w', u')"
      unfolding doCompactChunk_tx_def marshalSlice_eq new_slice_def [symmetric] Let_def case_prod_conv Option.bind.simps new w0_def [symmetric]
      by (simp split: if_splits)
    then show ?thesis by simp
  qed
  have fr: "fw_acl w' = fw_acl w" "fw_of w' = fw_of w" "objects w' = objects w" "freeSlices w' = freeSlices w" "nextChunk w' = nextChunk w"
    "chunk_vals w' = (chunk_vals w)((inode, indx) \<mapsto> v)" "slice_refs w' = slice_refs (if delayed = None then drop_refs C w0 else w0)"
    using w' by (cases delayed; simp add: drop_refs_fields clock_now_def w0_def set_chunk_def split: if_splits)+
  have isk: "chunk_is w' j k (if j = inode \<and> k = indx then take skipped ss @ ?N # R else slices_at w j k)" for j k
  proof (cases "j = inode \<and> k = indx")
    case True
    have "list_all fits (ss @ R)" using ck tt by (simp add: chunk_is_def)
    then have "list_all fits (take skipped ss @ ?N # R)" using fit by (auto simp: list_all_iff dest: in_set_takeD)
    then show ?thesis using True fr(6) by (simp add: chunk_is_def chunk_val_def v_def)
  next
    case False
    then show ?thesis using chunks_okD [OF ok, of j k] fr(6) by (auto simp: chunk_is_def chunk_val_def)
  qed
  have "slice_refs w0 = (slice_refs w)((i, n) \<mapsto> 0)" by (simp add: w0_def set_chunk_def)
  moreover have "chunks_ok w'" unfolding chunks_ok_def using isk by blast
  moreover have "slices_at w' j k = (if j = inode \<and> k = indx then take skipped ss @ ?N # R else slices_at w j k)" for j k
    by (rule chunk_is_slices [OF isk])
  ultimately show thesis using that [of R w0] tt fr(1-5,7) by blast
qed


section \<open>References\<close>

definition in_use :: "'o file_world \<Rightarrow> slice \<Rightarrow> bool" where
  "in_use w s \<longleftrightarrow> (\<exists>i k. s \<in> set (slices_at w i k))"

text \<open>The contents of objects that no chunk refers to do not matter.\<close>

lemma unused_objects:
  assumes "\<And>s off. in_use w s \<Longrightarrow> B' (sl_id s, off) = B (sl_id s, off)"
  shows "view B' w = view B w" and "files_ok B w \<Longrightarrow> files_ok B' w"
proof -
  have at: "byte B' (latest ss q) = byte B (latest ss q)" if "\<forall>s \<in> set ss. in_use w s" for ss q
    using that assms by (induction ss) (auto simp: slice_at_def piece_at_def byte_def)
  have "bytes B' w inode q = bytes B w inode q" for inode q
    unfolding bytes_def file_at_def using at [of "slices_at w inode (of_nat (q div CS))" "q mod CS"] by (auto simp: in_use_def)
  then show "view B' w = view B w" by (simp add: view_def fun_eq_iff bytes_def [abs_def])
  have "grown_file B' w inode len" if "grown_file B w inode len" for inode len
    using that assms grown_cong [of B _ _ B'] unfolding grown_file_def in_use_def by blast
  then show "files_ok B w \<Longrightarrow> files_ok B' w" unfolding files_ok_def tail_ok_def by blast
qed

text \<open>How many slices of the chunks refer to an object.\<close>

definition keys :: "64 word \<Rightarrow> 32 word \<Rightarrow> slice list \<Rightarrow> nat" where
  "keys i n ss = length (filter (\<lambda>s. sl_id s = i \<and> sl_size s = n) ss)"

definition data_chunks :: "'o file_world \<Rightarrow> (64 word \<times> 32 word) set" where
  "data_chunks w = {c. \<exists>s \<in> set (slices_at w (fst c) (snd c)). sl_id s \<noteq> 0}"

definition uses :: "'o file_world \<Rightarrow> 64 word \<Rightarrow> 32 word \<Rightarrow> nat" where
  "uses w i n = (\<Sum>c \<in> data_chunks w. keys i n (slices_at w (fst c) (snd c)))"

lemma keys_simps [simp]:
  "keys i n [] = 0" "keys i n (ss @ tt) = keys i n ss + keys i n tt"
  "keys i n (s # ss) = (if sl_id s = i \<and> sl_size s = n then 1 else 0) + keys i n ss"
  by (simp_all add: keys_def)

lemma keys_split: "keys i n (take k ss) + keys i n (drop k ss) = keys i n ss"
  by (metis append_take_drop_id keys_simps(2))

lemma keys_none: "i \<noteq> 0 \<Longrightarrow> c \<notin> data_chunks w \<Longrightarrow> keys i n (slices_at w (fst c) (snd c)) = 0"
  by (auto simp: data_chunks_def keys_def filter_empty_conv)

lemma uses_superset:
  assumes "finite S" and "data_chunks w \<subseteq> S" and "i \<noteq> 0"
  shows "uses w i n = (\<Sum>c \<in> S. keys i n (slices_at w (fst c) (snd c)))"
  unfolding uses_def by (rule sum.mono_neutral_left [OF assms(1,2)]) (simp add: keys_none [OF assms(3)])

lemma uses_change:
  assumes "finite (data_chunks w)" and "i \<noteq> 0"
    and "\<And>j k. \<not> (j = a \<and> k = b) \<Longrightarrow> slices_at w' j k = slices_at w j k"
  shows "finite (data_chunks w')" "uses w' i n + keys i n (slices_at w a b) = uses w i n + keys i n (slices_at w' a b)"
proof -
  let ?S = "insert (a, b) (data_chunks w)" and ?k = "\<lambda>w c. keys i n (slices_at w (fst c) (snd c))"
  have S: "finite ?S" using assms(1) by simp
  have sub: "data_chunks w' \<subseteq> ?S"
  proof
    fix c assume "c \<in> data_chunks w'"
    then show "c \<in> ?S" using assms(3) [of "fst c" "snd c"] by (cases "c = (a, b)") (auto simp: data_chunks_def prod_eq_iff)
  qed
  then show "finite (data_chunks w')" using S by (rule finite_subset)
  have u: "uses w i n = sum (?k w) ?S" "uses w' i n = sum (?k w') ?S"
    by (rule uses_superset [OF S _ assms(2)]; use sub in auto)+
  have "sum (?k w) ?S = ?k w (a, b) + sum (?k w) (?S - {(a, b)})" "sum (?k w') ?S = ?k w' (a, b) + sum (?k w') (?S - {(a, b)})"
    by (rule sum.remove [OF S]; simp)+
  moreover have "sum (?k w') (?S - {(a, b)}) = sum (?k w) (?S - {(a, b)})" 
    by (rule sum.cong [OF refl], rule arg_cong [of _ _ "keys i n"], rule assms(3)) (auto simp: prod_eq_iff)
  ultimately show "uses w' i n + keys i n (slices_at w a b) = uses w i n + keys i n (slices_at w' a b)" using u by simp
qed

lemma uses_pos:
  assumes "finite (data_chunks w)" and "in_use w s" and "sl_id s \<noteq> 0"
  shows "0 < uses w (sl_id s) (sl_size s)"
proof -
  obtain i k where s: "s \<in> set (slices_at w i k)" using assms(2) by (auto simp: in_use_def)
  then have "0 < keys (sl_id s) (sl_size s) (slices_at w i k)" unfolding keys_def by (auto simp: length_greater_0_conv filter_empty_conv)
  moreover have "(i, k) \<in> data_chunks w" using s assms(3) by (auto simp: data_chunks_def)
  ultimately show ?thesis unfolding uses_def using assms(1)
    by (metis (no_types, lifting) fst_conv snd_conv gr_zeroI less_numeral_extra(3) sum_eq_0_iff)
qed

text \<open>The counter of an object is at least the number of references to it less one, and all slices of an object know its size.\<close>

definition refs_ok :: "'o file_world \<Rightarrow> bool" where
  "refs_ok w \<longleftrightarrow> finite (data_chunks w) \<and>
     (\<forall>i n. i \<noteq> 0 \<longrightarrow> int (uses w i n) \<le> ref_count i n w + 1 \<and> ref_count i n w < 2 ^ 63) \<and>
     (\<forall>s t. in_use w s \<and> in_use w t \<and> sl_id s = sl_id t \<and> sl_id s \<noteq> 0 \<longrightarrow> sl_size s = sl_size t)"

lemma refs_okD:
  assumes "refs_ok w"
  shows "finite (data_chunks w)" "i \<noteq> 0 \<Longrightarrow> int (uses w i n) \<le> ref_count i n w + 1" "i \<noteq> 0 \<Longrightarrow> ref_count i n w < 2 ^ 63"
    "in_use w s \<Longrightarrow> in_use w t \<Longrightarrow> sl_id s = sl_id t \<Longrightarrow> sl_id s \<noteq> 0 \<Longrightarrow> sl_size s = sl_size t"
  using assms unfolding refs_ok_def by blast+

lemma ref_count_refs: "slice_refs w' = slice_refs w \<Longrightarrow> ref_count i n w' = ref_count i n w"
  by (simp add: ref_count_def)

lemma same_dataD:
  assumes "same_data w w'"
  shows "i \<noteq> 0 \<Longrightarrow> keys i n (slices_at w' j k) = keys i n (slices_at w j k)" and "sl_id s \<noteq> 0 \<Longrightarrow> in_use w' s = in_use w s"
    and "data_chunks w' = data_chunks w" and "i \<noteq> 0 \<Longrightarrow> uses w' i n = uses w i n"
proof -
  have f: "filter (\<lambda>s. sl_id s \<noteq> 0) (slices_at w' j k) = filter (\<lambda>s. sl_id s \<noteq> 0) (slices_at w j k)" for j k
    using assms by (simp add: same_data_def)
  have "keys i n ss = keys i n (filter (\<lambda>s. sl_id s \<noteq> 0) ss)" if "i \<noteq> 0" for ss i n
    unfolding keys_def filter_filter using that by (metis (mono_tags, lifting))
  then show k: "i \<noteq> 0 \<Longrightarrow> keys i n (slices_at w' j k) = keys i n (slices_at w j k)" for i n j k using f by metis
  have "s \<in> set (slices_at w' j k) \<longleftrightarrow> s \<in> set (slices_at w j k)" if "sl_id s \<noteq> 0" for s j k
    using arg_cong [OF f [of j k], of set] that by auto
  then show "sl_id s \<noteq> 0 \<Longrightarrow> in_use w' s = in_use w s" for s by (simp add: in_use_def)
  show d: "data_chunks w' = data_chunks w"
    using \<open>\<And>s j k. sl_id s \<noteq> 0 \<Longrightarrow> s \<in> set (slices_at w' j k) \<longleftrightarrow> s \<in> set (slices_at w j k)\<close> unfolding data_chunks_def by auto
  show "i \<noteq> 0 \<Longrightarrow> uses w' i n = uses w i n" using k by (simp add: uses_def d)
qed

lemma refs_ok_data:
  assumes "refs_ok w" and "same_data w w'"
    and "\<And>i n. i \<noteq> 0 \<Longrightarrow> int (uses w i n) \<le> ref_count i n w' + 1 \<and> ref_count i n w' < 2 ^ 63"
  shows "refs_ok w'"
  unfolding refs_ok_def
  using refs_okD(1,4) [OF assms(1)] assms(3) same_dataD(2-4) [OF assms(2)] by metis

lemma refs_ok_same:
  fixes w w' :: "'o file_world"
  assumes "refs_ok w" and "chunk_vals w' = chunk_vals w"
    and "\<And>i n. i \<noteq> 0 \<Longrightarrow> int (uses w i n) \<le> ref_count i n w' + 1 \<and> ref_count i n w' < 2 ^ 63"
  shows "refs_ok w'"
  using refs_ok_data [OF assms(1) same_data_slices [OF slices_at_cong [OF assms(2)]] assms(3)] .

lemma drop_refs_count:
  assumes "j \<noteq> 0" and "ref_count j m w < 2 ^ 63" and "- (2 ^ 63) \<le> ref_count j m w - int (keys j m C)"
  shows "ref_count j m (drop_refs C w) = ref_count j m w - int (keys j m C)"
  using assms(2,3)
proof (induction C arbitrary: w)
  case (Cons s C)
  let ?w = "if sl_id s > 0 then incr_ref (sl_id s) (sl_size s) (- 1) w else w"
  have step: "ref_count j m ?w = ref_count j m w - (if sl_id s = j \<and> sl_size s = m then 1 else 0)"
  proof (cases "sl_id s = j \<and> sl_size s = m")
    case True
    have "int64_of (ref_count j m w + - 1) = ref_count j m w - 1" using Cons.prems True by (simp add: is_int64_def)
    with True assms(1) show ?thesis by (auto simp: ref_count_def incr_ref_def word_neq_0_conv)
  next
    case False
    then show ?thesis by (auto simp: ref_count_def incr_ref_def)
  qed
  with Cons.IH [of ?w] Cons.prems show ?case by auto
qed simp


text \<open>An id that was given out and is not known to the metadata yet.\<close>

definition fresh :: "'o file_world \<Rightarrow> 64 word \<Rightarrow> bool" where
  "fresh w i \<longleftrightarrow> i \<noteq> 0 \<and> (\<forall>s. in_use w s \<longrightarrow> sl_id s \<noteq> i) \<and> (\<forall>n. slice_refs w (i, n) = None)"

lemma fresh_unused: "fresh w i \<Longrightarrow> uses w i n = 0" "fresh w i \<Longrightarrow> ref_count i n w = 0"
proof -
  assume f: "fresh w i"
  then have "keys i n (slices_at w j k) = 0" for j k by (auto simp: fresh_def in_use_def keys_def filter_empty_conv)
  then show "uses w i n = 0" by (simp add: uses_def)
  show "ref_count i n w = 0" using f by (simp add: ref_count_def fresh_def)
qed

section \<open>A committed compaction\<close>

definition committed :: "slice list \<Rightarrow> 64 word \<Rightarrow> 32 word \<Rightarrow> 64 word \<Rightarrow> 32 word \<Rightarrow> 32 word \<Rightarrow> 'o file_world \<Rightarrow> 'o file_world \<Rightarrow> bool" where
  "committed ss inode indx i pos n w w' \<longleftrightarrow> (\<exists>R. slices_at w inode indx = ss @ R \<and> chunks_ok w' \<and>
     (\<forall>j k. slices_at w' j k = (if j = inode \<and> k = indx then take (skipSome ss) ss @ new_slice i pos n # R else slices_at w j k)) \<and> fw_acl w' = fw_acl w)"

lemma committed_files:
  assumes ok: "files_ok B w" and com: "committed ss inode indx i pos n w w'" and c: "compaction ss pos n cs"
    and h: "holds B i B cs" and i: "i \<noteq> 0" and ne: "ss \<noteq> []"
  shows "files_ok B w'" and "view B w' = view B w"
proof -
  obtain R where R: "slices_at w inode indx = ss @ R" "chunks_ok w'"
    "\<And>j k. slices_at w' j k = (if j = inode \<and> k = indx then take (skipSome ss) ss @ new_slice i pos n # R else slices_at w j k)"
    "fw_acl w' = fw_acl w" using com unfolding committed_def by blast
  have bt: "bytes B w' j q = bytes B w j q" for j q
    using compaction_bytes [OF c h i, of R "q mod CS"] R(1,3) by (simp add: bytes_def file_at_def)
  show "view B w' = view B w" using bt R(4) by (simp add: view_def fun_eq_iff bytes_def [abs_def])
  have g: "grown_file B w' j len" if "grown_file B w j len" for j len
    unfolding grown_file_def
  proof
    fix k
    have old: "grown B (slices_at w j k) (rel_len len (unat k))" using that by (simp add: grown_file_def)
    show "grown B (slices_at w' j k) (rel_len len (unat k))"
    proof (cases "j = inode \<and> k = indx")
      case True
      have "grown B (ss @ R) (rel_len len (unat k))" using old True R(1) by simp
      from compaction_grown [OF c h i _ this ne] True R(3) show ?thesis by simp
    next
      case False
      then have "slices_at w' j k = slices_at w j k" using R(3) [of j k] by (simp only: if_False)
      then show ?thesis using old by simp
    qed
  qed
  have st: "stored w' = stored w" using R(4) by (simp add: stored_def fun_eq_iff)
  show "files_ok B w'" unfolding files_ok_def
  proof (intro conjI R(2) allI impI)
    fix j assume "inode_vals (fw_acl w') j \<noteq> None"
    then obtain a where "stored w j a" "tail_ok B w j a" using ok R(4) by (auto simp: files_ok_def)
    then show "\<exists>a. stored w' j a \<and> tail_ok B w' j a" using g st by (auto simp: tail_ok_def)
  qed
qed

lemma committed_refs:
  assumes ok: "refs_ok w" and com: "committed ss inode indx i pos n w w'" and i: "fresh w i"
    and r: "slice_refs w0 = (slice_refs w)((i, n) \<mapsto> 0)" "slice_refs w' = slice_refs (if dl then drop_refs (drop (skipSome ss) ss) w0 else w0)"
  shows "refs_ok w'" and "in_use w' s \<Longrightarrow> in_use w s \<or> s = new_slice i pos n"
proof -
  let ?A = "take (skipSome ss) ss" and ?C = "drop (skipSome ss) ss" and ?N = "new_slice i pos n"
  obtain R where R: "slices_at w inode indx = ss @ R"
    "\<And>j k. slices_at w' j k = (if j = inode \<and> k = indx then ?A @ ?N # R else slices_at w j k)" using com unfolding committed_def by blast
  show use: "in_use w s \<or> s = ?N" if u: "in_use w' s" for s
  proof -
    obtain j k where s: "s \<in> set (slices_at w' j k)" using u by (auto simp: in_use_def)
    then have "s \<in> set (slices_at w j k) \<or> s = ?N" using R(1,2) by (auto split: if_splits dest: in_set_takeD)
    then show ?thesis by (auto simp: in_use_def)
  qed
  have N: "sl_id ?N = i" "sl_size ?N = n" by (simp_all add: new_slice_def)
  have other: "slices_at w' a b = slices_at w a b" if "\<not> (a = inode \<and> b = indx)" for a b
    using R(2) [of a b] that by (simp only: if_False)
  have fin: "finite (data_chunks w')" by (rule uses_change(1) [OF refs_okD(1) [OF ok] _ other, where i = 1]) simp
  have count: "int (uses w' j m) \<le> ref_count j m w' + 1 \<and> ref_count j m w' < 2 ^ 63" if j: "j \<noteq> 0" for j m
  proof -
    define d where "d = (if dl then int (keys j m ?C) else 0)"
    have ch: "uses w' j m + keys j m ?C = uses w j m + (if (j, m) = (i, n) then 1 else 0)"
    proof -
      from uses_change(2) [OF refs_okD(1) [OF ok] j, of inode indx w' m, OF other]
      have "uses w' j m + keys j m (ss @ R) = uses w j m + keys j m (?A @ ?N # R)" using R(1) R(2) [of inode indx] by simp
      then show ?thesis using keys_split [of j m "skipSome ss" ss] N by (auto split: if_splits)
    qed
    have b: "int (uses w j m) \<le> ref_count j m w + 1" "ref_count j m w < 2 ^ 63" using refs_okD(2,3) [OF ok j] by simp_all
    have r0: "ref_count j m w0 = (if (j, m) = (i, n) then 0 else ref_count j m w)" using r(1) by (auto simp: ref_count_def)
    have z: "ref_count i m w = 0" "uses w i m = 0" for m using fresh_unused [OF i] by simp_all
    have k0: "int (keys j m ?C) \<le> ref_count j m w0 + 1" using ch b r0 z by (auto split: if_splits)
    have "ref_count j m w' = ref_count j m w0 - d"
      unfolding ref_count_refs [OF r(2)] using drop_refs_count [OF j, of m w0 ?C] k0 b r0 by (auto simp: d_def split: if_splits)
    with ch b r0 z show ?thesis by (auto simp: d_def split: if_splits)
  qed
  have one: "sl_size s = sl_size t" if "in_use w' s" "in_use w' t" "sl_id s = sl_id t" "sl_id s \<noteq> 0" for s t
  proof (cases "sl_id s = i")
    case True
    then have "\<not> in_use w s" "\<not> in_use w t" using i that(3) unfolding fresh_def by metis+
    then show ?thesis using use [OF that(1)] use [OF that(2)] by simp
  next
    case False
    then have "in_use w s" "in_use w t" using use [OF that(1)] use [OF that(2)] that(3) N(1) by auto
    then show ?thesis using refs_okD(4) [OF ok] that(3,4) by blast
  qed
  show "refs_ok w'" unfolding refs_ok_def using fin count one by blast
qed

end
