(* ===== verification/JFS_FileServe.thy ===== *)
theory JFS_FileServe
  imports JFS_FileCompact
begin

text \<open>
  The steps around the transactions (pkg/meta/base.go, pkg/meta/tkv.go): ids for slices, the upload of a compacted chunk, the deletion of
  objects and the cache of chunks. The object store is a parameter; \<open>store_laws\<close> is what it promises. \<open>serves\<close> collects what a call owes:
  the invariants of the files, of the references and of the ids, its effect on the files, and that nothing stale stays in the cache.
\<close>


section \<open>Transactions of a client that is alone\<close>

text \<open>A transaction on the files takes effect at most once, on a state that the others alone have reached.\<close>

lemma file_txn_run:
  assumes run: "file_txn m os f (w, x) = Some (st, w', x')" and env: "\<And>t. t \<in> sset os \<Longrightarrow> try_ok Q t"
    and Q: "reflp Q" "transp Q"
    and frame: "\<And>w x e w' x'. f (w, x) = Some (e, w', x') \<Longrightarrow> e \<noteq> Some (Eno E0) \<and> Q (w, x) (drop_writes w w', x')"
  shows "\<exists>w1 x1. Q (w, x) (w1, x1) \<and> (if st = E0 then f (w1, x1) = Some (None, w', x') else w' = w1)"
proof -
  let ?d = "\<lambda>s s'. (drop_writes (fst s) (fst s'), snd s')"
  obtain err where k: "kv_txn ?d (conf_ReadOnly m) os f (w, x) = Some (err, w', x')" "st = errno err"
    using run by (auto simp: file_txn_def)
  have fr: "e \<noteq> Some (Eno E0) \<and> Q s (?d s s')" if "f s = Some (e, s')" for s e s'
    using frame [of "fst s" "snd s" e "fst s'" "snd s'"] that by simp
  have "\<exists>s1. Q (w, x) s1 \<and> (if err = None then f s1 = Some (None, w', x') else (w', x') = s1) \<and> err \<noteq> Some (Eno E0)"
    by (rule kv_txn_run [where Q = Q, OF k(1) env Q fr])
  then obtain w1 x1 where s1: "Q (w, x) (w1, x1)" "if err = None then f (w1, x1) = Some (None, w', x') else (w', x') = (w1, x1)" "err \<noteq> Some (Eno E0)"
    by fastforce
  moreover have "st = E0 \<longleftrightarrow> err = None" using s1(3) k(2) by (simp add: errno_E0)
  ultimately show ?thesis by (intro exI [of _ w1] exI [of _ x1]) (auto split: if_splits)
qed

text \<open>The values of the engine stay, and the cache only loses chunks; the ids may change.\<close>

definition calm :: "'o file_world \<Rightarrow> 'o file_world \<Rightarrow> bool" where
  "calm w w' \<longleftrightarrow> same_engine w w' \<and> chunks.shrinks (fw_of w) (fw_of w')"

lemma calm_refl [simp]: "calm w w"
  by (simp add: calm_def same_engine_def chunks.shrinks_refl)

lemma calm_trans: "calm a b \<Longrightarrow> calm b c \<Longrightarrow> calm a c"
  by (auto simp: calm_def same_engine_def elim: chunks.shrinks_trans)

lemma calm_slices: "calm w w' \<Longrightarrow> slices_at w' = slices_at w"
  using same_engine_files(3) by (auto simp: calm_def)

text \<open>There are ids left for one more batch.\<close>

definition id_room :: "'o file_world \<Rightarrow> bool" where
  "id_room w \<longleftrightarrow> unat (nextChunk w) + 4096 < 2 ^ 64"

text \<open>The others do nothing to the files: at most they take ids for slices, or make the engine report a conflict.\<close>

definition idle :: "'o file_world \<Rightarrow> 'o file_world \<Rightarrow> bool" where
  "idle w w' \<longleftrightarrow> calm w w' \<and> freeSlices w' = freeSlices w \<and> nextChunk w \<le> nextChunk w' \<and> (id_room w \<longrightarrow> id_room w')"

definition alone :: "('o file_world \<times> 'x) engine_try stream \<Rightarrow> bool" where
  "alone os \<longleftrightarrow> (\<forall>t \<in> sset os. try_ok (\<lambda>s s'. idle (fst s) (fst s') \<and> snd s' = snd s) t)"

lemma idle_refl [simp]: "idle w w"
  by (simp add: idle_def)

lemma quiet_idle: "quiet_step w w' \<Longrightarrow> idle w w'"
  by (simp add: idle_def calm_def quiet_step_def id_room_def)

lemma idle_trans [trans]: "idle a b \<Longrightarrow> idle b c \<Longrightarrow> idle a c"
  by (auto simp: idle_def intro: calm_trans)

lemma idle_rel: "reflp idle" "transp idle"
  by (auto simp: reflp_def transp_def intro: idle_trans)

lemma idle_drop_writes:
  "chunks.shrinks (fw_of w) (fw_of w') \<Longrightarrow> objects w' = objects w \<Longrightarrow> freeSlices w' = freeSlices w \<Longrightarrow> nextChunk w' = nextChunk w \<Longrightarrow>
     idle w (drop_writes w w')"
  by (simp add: idle_def calm_def same_engine_def drop_writes_def roll_back_def id_room_def)

lemma alone_run:
  assumes "file_txn m os f (w, x) = Some (st, w', x')" and "alone os"
    and "\<And>w x e w' x'. f (w, x) = Some (e, w', x') \<Longrightarrow> e \<noteq> Some (Eno E0) \<and> idle w (drop_writes w w')"
  shows "\<exists>w1 x1. idle w w1 \<and> (if st = E0 then f (w1, x1) = Some (None, w', x') else w' = w1)"
proof -
  let ?Q = "\<lambda>s s'. idle (fst s) (fst s')"
  have Q: "reflp ?Q" "transp ?Q" using idle_rel by (auto simp: reflp_def transp_def)
  have env: "try_ok ?Q t" if "t \<in> sset os" for t using assms(2) that by (auto simp: alone_def try_ok_def split: engine_try.split)
  have fr: "e \<noteq> Some (Eno E0) \<and> ?Q (w, x) (drop_writes w w', x')" if "f (w, x) = Some (e, w', x')" for w x e w' x'
    using assms(3) [OF that] by simp
  from file_txn_run [OF assms(1) env Q fr] show ?thesis unfolding fst_conv .
qed

section \<open>Deleting objects\<close>

text \<open>What the callbacks promise. \<open>rd\<close> reads a byte of an object.\<close>

definition store_laws :: "('o \<Rightarrow> blocks) \<Rightarrow> 'o callbacks \<Rightarrow> bool" where
  "store_laws rd cb \<longleftrightarrow>
     (\<forall>cs i ob ob'. msg_CompactChunk cb cs i ob = (True, ob') \<longrightarrow> holds (rd ob') i (rd ob) cs) \<and>
     (\<forall>cs i ob r ob' j off. msg_CompactChunk cb cs i ob = (r, ob') \<longrightarrow> j \<noteq> i \<longrightarrow> rd ob' (j, off) = rd ob (j, off)) \<and>
     (\<forall>i n ob r ob' j off. msg_DeleteSlice cb i n ob = (r, ob') \<longrightarrow> j \<noteq> i \<longrightarrow> rd ob' (j, off) = rd ob (j, off))"

definition sound :: "('o \<Rightarrow> blocks) \<Rightarrow> 'o file_world \<Rightarrow> bool" where
  "sound rd w \<longleftrightarrow> files_ok (rd (objects w)) w \<and> refs_ok w"

definition files :: "('o \<Rightarrow> blocks) \<Rightarrow> 'o file_world \<Rightarrow> 64 word \<Rightarrow> afile option" where
  "files rd w = view (rd (objects w)) w"

text \<open>The files, the slices and the invariants stay as they are; the counters may change.\<close>

definition keeps :: "('o \<Rightarrow> blocks) \<Rightarrow> 'o file_world \<Rightarrow> 'o file_world \<Rightarrow> bool" where
  "keeps rd w w' \<longleftrightarrow> (sound rd w \<longrightarrow> sound rd w' \<and> files rd w' = files rd w) \<and> chunk_vals w' = chunk_vals w \<and>
     inode_vals (fw_acl w') = inode_vals (fw_acl w) \<and> fw_of w' = fw_of w \<and>
     freeSlices w' = freeSlices w \<and> nextChunk w' = nextChunk w \<and>
     (\<forall>k. slice_refs w' k \<noteq> None \<longrightarrow> slice_refs w k \<noteq> None)"

lemma calm_sound: "calm w w' \<Longrightarrow> sound rd w \<Longrightarrow> sound rd w' \<and> files rd w' = files rd w"
  using same_engine_files [of w w'] refs_ok_same [of w w'] refs_okD(2,3) [of w] ref_count_refs [of w' w]
  by (auto simp: sound_def files_def calm_def same_engine_def)


lemma keeps_refl: "keeps rd w w"
  by (simp add: keeps_def)

lemma keeps_trans: "keeps rd a b \<Longrightarrow> keeps rd b c \<Longrightarrow> keeps rd a c"
  by (auto simp: keeps_def)

lemma keeps_slices: "keeps rd w w' \<Longrightarrow> slices_at w' = slices_at w" "keeps rd w w' \<Longrightarrow> in_use w' = in_use w"
  using slices_at_cong [of w' w] by (auto simp: keeps_def in_use_def fun_eq_iff)

lemma keeps_quiet:
  assumes "quiet_step w w'" and "fw_of w' = fw_of w"
  shows "keeps rd w w'"
  using assms calm_sound [of w w' rd] by (auto simp: keeps_def calm_def quiet_step_def same_engine_def)

lemma key_txn_same: "quiet_step w (snd (key_txn m w))"
  by (simp add: key_txn_def quiet_step_def same_engine_def chunks.shrinks_refl)

lemma keeps_key: "keeps rd w (snd (key_txn m w))"
  by (rule keeps_quiet [OF key_txn_same]) (simp_all add: key_txn_def)

lemma keeps_read: "keeps rd w (snd (point_read w))"
  by (rule keeps_quiet [OF quiet_point_read]) (simp_all add: point_read_def)

text \<open>Changing a counter, and changing an object that no chunk refers to.\<close>

lemma keeps_refs:
  assumes "\<And>i n. refs_ok w \<Longrightarrow> i \<noteq> 0 \<Longrightarrow> int (uses w i n) \<le> ref_count i n (w\<lparr>slice_refs := r\<rparr>) + 1 \<and> ref_count i n (w\<lparr>slice_refs := r\<rparr>) < 2 ^ 63"
    and "\<And>k. r k \<noteq> None \<Longrightarrow> slice_refs w k \<noteq> None"
  shows "keeps rd w (w\<lparr>slice_refs := r\<rparr>)"
proof -
  let ?w = "w\<lparr>slice_refs := r\<rparr>"
  have "files_ok B ?w = files_ok B w" "view B ?w = view B w" for B by (rule engine_files; simp)+
  with assms refs_ok_same [of w ?w] show ?thesis by (auto simp: keeps_def sound_def files_def)
qed

lemma keeps_objects:
  assumes "\<And>s off. in_use w s \<Longrightarrow> rd ob (sl_id s, off) = rd (objects w) (sl_id s, off)"
  shows "keeps rd w (w\<lparr>objects := ob\<rparr>)"
proof -
  let ?w = "w\<lparr>objects := ob\<rparr>"
  have v: "files_ok B ?w = files_ok B w" "view B ?w = view B w" for B by (rule engine_files; simp)+
  have "refs_ok ?w" if "refs_ok w"
    using refs_ok_same [OF that, of ?w] refs_okD(2,3) [OF that] by (simp add: ref_count_def)
  with unused_objects [of w "rd ob" "rd (objects w)", OF assms] v show ?thesis by (simp add: keeps_def sound_def files_def)
qed

lemma drop_key_count: "ref_count j m (w\<lparr>slice_refs := (slice_refs w)((i, n) := None)\<rparr>) = (if (j, m) = (i, n) then 0 else ref_count j m w)"
  by (simp add: ref_count_def)

lemma keeps_deleteSlice:
  assumes laws: "store_laws rd cb" and i: "\<And>s. in_use w s \<Longrightarrow> sl_id s \<noteq> i"
  shows "keeps rd w (deleteSlice m cb i n w)"
proof (cases "i = 0 \<or> conf_MaxDeletes m = 0")
  case False
  obtain ok ob where d: "msg_DeleteSlice cb i n (objects w) = (ok, ob)" by fastforce
  let ?w1 = "w\<lparr>objects := ob\<rparr>"
  have k1: "keeps rd w ?w1"
    by (rule keeps_objects) (use laws d i in \<open>auto simp: store_laws_def\<close>)
  obtain e w2 where k: "key_txn m ?w1 = (e, w2)" by fastforce
  have k2: "keeps rd ?w1 w2" using keeps_key [of rd ?w1 m] k by simp
  have no: "uses w2 i n = 0"
    using keeps_slices(1) [OF keeps_trans [OF k1 k2]] i by (auto simp: uses_def keys_def filter_empty_conv in_use_def)
  have "keeps rd w2 (w2\<lparr>slice_refs := (slice_refs w2)((i, n) := None)\<rparr>)"
    by (rule keeps_refs) (use no refs_okD(2,3) [of w2] in \<open>auto simp: drop_key_count split: if_splits\<close>)
  with k1 k2 show ?thesis
    using False d k by (auto simp: deleteSlice_def split: bool.split option.split intro: keeps_trans)
qed (simp add: deleteSlice_def keeps_refl)

lemma keeps_cleanupZeroRef: "keeps rd w (cleanupZeroRef m i n w)"
proof -
  obtain e w1 where k: "key_txn m w = (e, w1)" by fastforce
  have k1: "keeps rd w w1" using keeps_key [of rd w m] k by simp
  have "keeps rd w1 (w1\<lparr>slice_refs := (slice_refs w1)((i, n) := None)\<rparr>)" if "ref_count i n w1 = 0"
    by (rule keeps_refs) (use that refs_okD(2) [of w1 i n] refs_okD(2,3) [of w1] in \<open>auto simp: drop_key_count split: if_splits\<close>)
  with k1 k show ?thesis by (auto simp: cleanupZeroRef_def split: option.split intro: keeps_trans)
qed

text \<open>An object is deleted only when nothing refers to it.\<close>

lemma keeps_delete_unused:
  assumes laws: "store_laws rd cb" and "sound rd w"
    and "\<And>s t. s \<in> set C \<Longrightarrow> in_use w t \<Longrightarrow> sl_id t = sl_id s \<Longrightarrow> sl_id s \<noteq> 0 \<Longrightarrow> sl_size t = sl_size s"
  shows "keeps rd w (delete_unused m cb C w)"
  using assms(2,3)
proof (induction C arbitrary: w)
  case (Cons s C)
  obtain e w1 where k: "key_txn m w = (e, w1)" by fastforce
  have k1: "keeps rd w w1" using keeps_key [of rd w m] k by simp
  define w2 where "w2 = (if sl_id s > 0 then case key_txn m w of
        (Some e, w) \<Rightarrow> w
      | (None, w) \<Rightarrow> if ref_count (sl_id s) (sl_size s) w < 0 then deleteSlice m cb (sl_id s) (sl_size s) w else w
      else w)"
  have del: "keeps rd w1 (deleteSlice m cb (sl_id s) (sl_size s) w1)" if r: "ref_count (sl_id s) (sl_size s) w1 < 0" and z: "sl_id s > 0"
  proof (rule keeps_deleteSlice [OF laws])
    fix t assume t: "in_use w1 t"
    have ok: "refs_ok w1" using k1 Cons.prems(1) by (simp add: keeps_def sound_def)
    show "sl_id t \<noteq> sl_id s"
    proof
      assume e: "sl_id t = sl_id s"
      have "sl_size t = sl_size s" using Cons.prems(2) [of s t] t e z keeps_slices(2) [OF k1] by (simp add: word_neq_0_conv)
      then have "0 < uses w1 (sl_id s) (sl_size s)" using uses_pos [OF refs_okD(1) [OF ok] t] e z by (simp add: word_neq_0_conv)
      moreover have "int (uses w1 (sl_id s) (sl_size s)) \<le> ref_count (sl_id s) (sl_size s) w1 + 1"
        by (rule refs_okD(2) [OF ok]) (use z in \<open>simp add: word_neq_0_conv\<close>)
      ultimately show False using r by simp
    qed
  qed
  have k2: "keeps rd w w2" unfolding w2_def k using k1 del by (auto simp: keeps_refl split: option.split intro: keeps_trans)
  have "sound rd w2" using k2 Cons.prems(1) by (simp add: keeps_def)
  then have "keeps rd w2 (delete_unused m cb C w2)"
  proof (rule Cons.IH)
    fix t u assume "t \<in> set C" "in_use w2 u" "sl_id u = sl_id t" "sl_id t \<noteq> 0"
    then show "sl_size u = sl_size t" by (intro Cons.prems(2)) (simp_all add: keeps_slices(2) [OF k2])
  qed
  with k2 show ?case by (simp add: w2_def [symmetric] keeps_trans)
qed (simp add: keeps_refl)


section \<open>Compacting a chunk\<close>

text \<open>The ids the metadata knows, and those a client has taken.\<close>

definition known :: "'o file_world \<Rightarrow> 64 word \<Rightarrow> bool" where
  "known w i \<longleftrightarrow> i \<noteq> 0 \<and> ((\<exists>s. in_use w s \<and> sl_id s = i) \<or> (\<exists>n. slice_refs w (i, n) \<noteq> None))"

definition ids_ok :: "'o file_world \<Rightarrow> bool" where
  "ids_ok w \<longleftrightarrow> 0 < nextChunk w \<and> snd (freeSlices w) \<le> nextChunk w \<and> (fst (freeSlices w) < snd (freeSlices w) \<longrightarrow> 0 < fst (freeSlices w)) \<and>
     (\<forall>i. known w i \<longrightarrow> i < nextChunk w \<and> \<not> (fst (freeSlices w) \<le> i \<and> i < snd (freeSlices w)))"

definition given :: "'o file_world \<Rightarrow> 64 word \<Rightarrow> bool" where
  "given w i \<longleftrightarrow> i \<noteq> 0 \<and> \<not> known w i \<and> i < nextChunk w \<and> \<not> (fst (freeSlices w) \<le> i \<and> i < snd (freeSlices w))"

lemma given_fresh: "given w i \<Longrightarrow> fresh w i"
  by (auto simp: given_def known_def fresh_def)

lemma idle_files: "idle w w' \<Longrightarrow> sound rd w \<Longrightarrow> sound rd w'" "idle w w' \<Longrightarrow> sound rd w \<Longrightarrow> files rd w' = files rd w"
  "idle w w' \<Longrightarrow> slices_at w' = slices_at w" "idle w w' \<Longrightarrow> objects w' = objects w"
  using calm_sound [of w w' rd] calm_slices [of w w'] by (auto simp: idle_def calm_def same_engine_def)

lemma idle_known: "idle w w' \<Longrightarrow> known w' = known w"
  using idle_files(3) [of w w'] by (auto simp: known_def in_use_def idle_def calm_def same_engine_def fun_eq_iff)

lemma idle_ids: "idle w w' \<Longrightarrow> ids_ok w \<Longrightarrow> ids_ok w'" "idle w w' \<Longrightarrow> given w i \<Longrightarrow> given w' i"
  using idle_known [of w w'] by (auto simp: ids_ok_def given_def idle_def)

lemma NewSlice_id:
  assumes ok: "ids_ok w" and room: "id_room w" and run: "NewSlice m w = (r, w')"
  shows "ids_ok w'" and "r = Inr i \<Longrightarrow> given w' i" and "calm w w'" and "fw_of w' = fw_of w" and "known w' = known w"
proof -
  obtain e w1 where k: "key_txn m w = (e, w1)" by fastforce
  have w1: "calm w w1" "fw_of w1 = fw_of w" "freeSlices w1 = freeSlices w" "nextChunk w1 = nextChunk w"
    using key_txn_same [of w m] k by (auto simp: key_txn_def calm_def quiet_step_def split: if_splits)
  define v where "v = nextChunk w + sliceIdBatch"
  have v: "unat v = unat (nextChunk w) + 4096" using room unfolding v_def id_room_def by (subst unat_add_64) (simp_all add: sliceIdBatch_def)
  define w2 where "w2 = (if fst (freeSlices w) \<ge> snd (freeSlices w) then w1\<lparr>nextChunk := v, freeSlices := (nextChunk w, v)\<rparr> else w)"
  have cases: "(r, w') = (if fst (freeSlices w) \<ge> snd (freeSlices w) \<and> e \<noteq> None then (Inl (errno e), w1)
      else (Inr (fst (freeSlices w2)), w2\<lparr>freeSlices := (fst (freeSlices w2) + 1, snd (freeSlices w2))\<rparr>))"
    using run k w1(4) by (auto simp: NewSlice_def Let_def w2_def v_def split: option.splits)
  have q2: "calm w w2" "fw_of w2 = fw_of w"
    using w1 by (auto simp: w2_def calm_def same_engine_def)
  let ?w3 = "w2\<lparr>freeSlices := (fst (freeSlices w2) + 1, snd (freeSlices w2))\<rparr>"
  have q3: "calm w ?w3" using q2(1) by (simp add: calm_def same_engine_def)
  show "calm w w'" "fw_of w' = fw_of w" using cases w1(1,2) q2 q3 by (auto split: if_splits)
  then have sl: "slices_at w' = slices_at w" using calm_slices by blast
  show kn: "known w' = known w"
    using sl \<open>calm w w'\<close> by (auto simp: known_def in_use_def calm_def same_engine_def fun_eq_iff)
  have new: "ids_ok w' \<and> given w' (fst (freeSlices w2))" if ok2: "\<not> (fst (freeSlices w) \<ge> snd (freeSlices w) \<and> e \<noteq> None)"
  proof -
    let ?i = "fst (freeSlices w2)" and ?s = "snd (freeSlices w2)"
    have w': "freeSlices w' = (?i + 1, ?s)" "nextChunk w' = nextChunk w2" using cases ok2 by auto
    have num: "?i \<noteq> 0" "?i < ?s" "?s \<le> nextChunk w2" "\<And>j. known w j \<Longrightarrow> j < nextChunk w2 \<and> \<not> (?i \<le> j \<and> j < ?s)"
      using ok v by (auto simp: w2_def ids_ok_def word_less_nat_alt word_le_nat_alt split: if_splits)
    have "unat ?i < unat ?s" "unat ?s < 2 ^ 64" using num(2) unsigned_less [of ?s] by (simp_all add: word_less_nat_alt)
    then have i1: "unat (?i + 1) = unat ?i + 1" by (subst unat_add_64) simp_all
    have "\<not> known w ?i" using num(2,4) by blast
    then show ?thesis using num i1 w' kn by (auto simp: ids_ok_def given_def word_less_nat_alt word_le_nat_alt)
  qed
  have err: "ids_ok w'" if "fst (freeSlices w) \<ge> snd (freeSlices w) \<and> e \<noteq> None"
    using that cases ok w1 kn by (auto simp: ids_ok_def)
  show "ids_ok w'" using new err by blast
  show "given w' i" if "r = Inr i"
  proof (cases "fst (freeSlices w) \<ge> snd (freeSlices w) \<and> e \<noteq> None")
    case False
    then have "r = Inr (fst (freeSlices w2))" using cases by (simp only: if_False prod.inject)
    then show ?thesis using new [OF False] that by simp
  qed (use cases that in simp)
qed


lemma doCompactChunk_tx_frame:
  "doCompactChunk_tx inode indx buf C k pos i n dl (w, u) = Some (e, w', u') \<Longrightarrow> e \<noteq> Some (Eno E0) \<and> idle w (drop_writes w w')"
  by (auto simp: doCompactChunk_tx_def Let_def marshalSlice_eq set_chunk_def clock_now_def drop_refs_fields chunks.shrinks_refl
      intro!: idle_drop_writes split: if_splits option.splits)

text \<open>The files and the other chunks are as before; nothing is known that was not, except \<open>i\<close>.\<close>

definition compacts :: "('o \<Rightarrow> blocks) \<Rightarrow> 64 word \<Rightarrow> 32 word \<Rightarrow> 64 word set \<Rightarrow> 'o file_world \<Rightarrow> 'o file_world \<Rightarrow> bool" where
  "compacts rd inode indx I w w' \<longleftrightarrow> sound rd w' \<and> files rd w' = files rd w \<and>
     (\<forall>j k. \<not> (j = inode \<and> k = indx) \<longrightarrow> slices_at w' j k = slices_at w j k) \<and>
     chunks.shrinks (fw_of w) (fw_of w') \<and> freeSlices w' = freeSlices w \<and> nextChunk w \<le> nextChunk w' \<and>
     (\<forall>i. known w' i \<longrightarrow> known w i \<or> i \<in> I)"

lemma compacts_idle: "sound rd w \<Longrightarrow> idle w w' \<Longrightarrow> compacts rd inode indx I w w'"
  using idle_files [of w w'] idle_known [of w w'] by (auto simp: compacts_def idle_def calm_def)

lemma compacts_trans: "compacts rd inode indx I a b \<Longrightarrow> compacts rd inode indx I b c \<Longrightarrow> compacts rd inode indx I a c"
  unfolding compacts_def by (auto intro: chunks.shrinks_trans)

lemma keeps_known: "keeps rd w w' \<Longrightarrow> known w' i \<Longrightarrow> known w i"
  using keeps_slices(2) [of rd w w'] unfolding known_def keeps_def by metis

lemma compacts_keeps: "sound rd w \<Longrightarrow> keeps rd w w' \<Longrightarrow> compacts rd inode indx I w w'"
  using keeps_slices(1) [of rd w w'] keeps_known [of rd w w'] by (auto simp: compacts_def keeps_def chunks.shrinks_refl)

lemma fresh_slices: "slices_at w' = slices_at w \<Longrightarrow> slice_refs w' = slice_refs w \<Longrightarrow> fresh w' = fresh w"
  by (simp add: fresh_def in_use_def fun_eq_iff)

text \<open>When the chunk has changed, the new object is marked as unused.\<close>

lemma compacts_mark:
  assumes ok: "sound rd w" and i: "fresh w i"
  shows "compacts rd inode indx {i} w (incr_ref i n (- 1) w)" and "slices_at (incr_ref i n (- 1) w) = slices_at w"
proof -
  let ?w = "incr_ref i n (- 1) w"
  have e: "chunk_vals ?w = chunk_vals w" "fw_acl ?w = fw_acl w" "objects ?w = objects w" "fw_of ?w = fw_of w"
    "freeSlices ?w = freeSlices w" "nextChunk ?w = nextChunk w" by (simp_all add: incr_ref_def)
  show sl: "slices_at ?w = slices_at w" by (rule slices_at_cong [OF e(1)])
  have "refs_ok ?w"
  proof (rule refs_ok_same [OF _ e(1)])
    show ro: "refs_ok w" using ok by (simp add: sound_def)
    fix j m assume j: "j \<noteq> (0 :: 64 word)"
    have "int64_of (- 1) = - 1" by (simp add: is_int64_def)
    then have "ref_count j m ?w = (if (j, m) = (i, n) then - 1 else ref_count j m w)"
      using fresh_unused(2) [OF i] by (auto simp: ref_count_def incr_ref_def)
    then show "int (uses w j m) \<le> ref_count j m ?w + 1 \<and> ref_count j m ?w < 2 ^ 63"
      using refs_okD(2,3) [OF ro j, of m] fresh_unused(1) [OF i] by auto
  qed
  moreover have "known ?w j \<Longrightarrow> known w j \<or> j = i" for j
    using sl by (auto simp: known_def in_use_def incr_ref_def split: if_splits)
  ultimately show "compacts rd inode indx {i} w ?w"
    using ok engine_files(1,2) [of ?w w] e sl by (auto simp: compacts_def sound_def files_def chunks.shrinks_refl)
qed

lemma drop_refs_known:
  "slice_refs (drop_refs C w) k \<noteq> None \<Longrightarrow> slice_refs w k \<noteq> None \<or> (\<exists>s \<in> set C. k = (sl_id s, sl_size s))"
proof (induction C arbitrary: w)
  case (Cons s C)
  let ?w = "if sl_id s > 0 then incr_ref (sl_id s) (sl_size s) (- 1) w else w"
  from Cons have "slice_refs ?w k \<noteq> None \<or> (\<exists>s \<in> set C. k = (sl_id s, sl_size s))" by simp
  then show ?case by (auto simp: incr_ref_def split: if_splits)
qed simp

text \<open>A commit with the counters, then the deletion of what is unused.\<close>

lemma committed_compacts:
  fixes w0 :: "'o file_world"
  assumes ok0: "sound rd w0" and f0: "fresh w0 i" and c: "compaction ss pos n cs" and ne: "skipSome ss < length ss"
    and h: "holds (rd (objects w0)) i (rd (objects w0)) cs" and com: "committed ss inode indx i pos n w0 w1"
    and fr: "fw_of w1 = fw_of w0" "objects w1 = objects w0" "freeSlices w1 = freeSlices w0" "nextChunk w1 = nextChunk w0"
    and refs: "slice_refs wr = (slice_refs w0)((i, n) \<mapsto> 0)"
      "slice_refs w1 = slice_refs (if dl then drop_refs (drop (skipSome ss) ss) wr else wr)"
  shows "compacts rd inode indx {i} w0 w1"
    and "s \<in> set (drop (skipSome ss) ss) \<Longrightarrow> in_use w1 t \<Longrightarrow> sl_id t = sl_id s \<Longrightarrow> sl_id s \<noteq> 0 \<Longrightarrow> sl_size t = sl_size s"
proof -
  let ?C = "drop (skipSome ss) ss" and ?N = "new_slice i pos n"
  have ok: "files_ok (rd (objects w0)) w0" "refs_ok w0" using ok0 by (simp_all add: sound_def)
  have i0: "i \<noteq> 0" using f0 by (simp add: fresh_def)
  have ss: "ss \<noteq> []" using ne by auto
  note cf = committed_files [OF ok(1) com c h i0 ss] and cr = committed_refs [OF ok(2) com f0 refs]
  obtain R where R: "slices_at w0 inode indx = ss @ R"
    "\<And>j k. slices_at w1 j k = (if j = inode \<and> k = indx then take (skipSome ss) ss @ ?N # R else slices_at w0 j k)"
    using com unfolding committed_def by blast
  have sl: "slices_at w1 j k = slices_at w0 j k" if "\<not> (j = inode \<and> k = indx)" for j k
    using R(2) [of j k] that by (simp only: if_False)
  have C: "in_use w0 s" if "s \<in> set ?C" for s using that R unfolding in_use_def by (metis Un_iff in_set_dropD set_append)
  have N: "sl_id ?N = i" by (simp add: new_slice_def)
  have "known w0 j \<or> j = i" if "known w1 j" for j
  proof -
    have "slice_refs w0 (j, m) \<noteq> None \<or> j = i \<or> (\<exists>s \<in> set ?C. sl_id s = j)" if "slice_refs w1 (j, m) \<noteq> None" for m
      using that drop_refs_known [of ?C wr "(j, m)"] unfolding refs by (auto simp: refs(1) split: if_splits)
    then show ?thesis using that cr(2) C N unfolding known_def by metis
  qed
  then show "compacts rd inode indx {i} w0 w1"
    using cf cr(1) sl fr by (auto simp: compacts_def sound_def files_def chunks.shrinks_refl)
  show "sl_size t = sl_size s" if "s \<in> set ?C" "in_use w1 t" "sl_id t = sl_id s" "sl_id s \<noteq> 0"
  proof -
    have "sl_id s \<noteq> i" using C [OF that(1)] f0 by (auto simp: fresh_def)
    then have "in_use w0 t" using cr(2) [OF that(2)] N that(3) by auto
    then show ?thesis using refs_okD(4) [OF ok(2) _ C [OF that(1)]] that(3,4) by simp
  qed
qed

lemma doCompactChunk_effect:
  fixes w :: "'o file_world"
  assumes laws: "store_laws rd cb" and ok: "sound rd w" and i: "fresh w i" and c: "compaction ss pos n cs" and ne: "skipSome ss < length ss"
    and h: "holds (rd (objects w)) i (rd (objects w)) cs" and env: "alone os"
    and run: "doCompactChunk m cb os inode indx (concat (map slice_bytes ss)) (drop (skipSome ss) ss) (skipSome ss) pos i n dl w = Some (st, w')"
  shows "compacts rd inode indx {i} w w'" and "st \<noteq> E0 \<Longrightarrow> slices_at w' = slices_at w"
proof -
  let ?C = "drop (skipSome ss) ss"
  have i0: "i \<noteq> 0" using i by (simp add: fresh_def)
  have n0: "n \<noteq> 0" using c by (simp add: compaction_def)
  have fit: "fits (new_slice i pos n)" using new_slice_fits compaction_facts(2) [OF c] n0 by blast
  obtain st1 w1 where t: "file_txn m os (doCompactChunk_tx inode indx (concat (map slice_bytes ss)) ?C (skipSome ss) pos i n dl) (w, ()) = Some (st1, w1, ())"
    and rest: "(let (st, w) = (if st1 \<noteq> E0 \<and> st1 \<noteq> EINVAL
             then case point_read w1 of
               (Some e, w) \<Rightarrow> (st1, w)
             | (None, w) \<Rightarrow> (if slice_refs w (i, n) \<noteq> None then E0 else EINVAL, w)
             else (st1, w1)) in
       if st = EINVAL then (case key_txn m w of (Some e, w) \<Rightarrow> (st, w) | (None, w) \<Rightarrow> (st, incr_ref i n (- 1) w))
       else if st = E0 then
         let w = cleanupZeroRef m i n w in (st, if dl = None then delete_unused m cb ?C w else w)
       else (st, w)) = (st, w')"
    using run by (auto simp: doCompactChunk_def)
  have "\<exists>w0 u. idle w w0 \<and> (if st1 = E0 then doCompactChunk_tx inode indx (concat (map slice_bytes ss)) ?C (skipSome ss) pos i n dl (w0, u) = Some (None, w1, ()) else w1 = w0)"
    by (rule alone_run [OF t env]) (erule doCompactChunk_tx_frame)
  then obtain w0 u where w0: "idle w w0" and eff: "if st1 = E0 then doCompactChunk_tx inode indx (concat (map slice_bytes ss)) ?C (skipSome ss) pos i n dl (w0, u) = Some (None, w1, ()) else w1 = w0"
    by blast
  have ok0: "sound rd w0" by (rule idle_files(1) [OF w0(1) ok])
  have s0: "slices_at w0 = slices_at w" "slice_refs w0 = slice_refs w" "objects w0 = objects w"
    using idle_files(3,4) [OF w0] w0 by (auto simp: idle_def calm_def same_engine_def)
  have f0: "fresh w0 i" using i fresh_slices [OF s0(1,2)] by simp
  note c0 = compacts_idle [OF ok w0, of inode indx "{i}"]
  show "compacts rd inode indx {i} w w'" "st \<noteq> E0 \<Longrightarrow> slices_at w' = slices_at w"
  proof -
    have "compacts rd inode indx {i} w0 w' \<and> (st \<noteq> E0 \<longrightarrow> slices_at w' = slices_at w0)"
    proof (cases "st1 = E0")
      case True
      then have run1: "doCompactChunk_tx inode indx (concat (map slice_bytes ss)) ?C (skipSome ss) pos i n dl (w0, u) = Some (None, w1, ())"
        using eff by simp
      have ck: "chunks_ok w0" using ok0 files_okD(1) by (auto simp: sound_def)
      obtain R and wr :: "'o file_world" where R: "slices_at w0 inode indx = ss @ R" "chunks_ok w1"
        "\<And>j k. slices_at w1 j k = (if j = inode \<and> k = indx then take (skipSome ss) ss @ new_slice i pos n # R else slices_at w0 j k)"
        "fw_acl w1 = fw_acl w0" "fw_of w1 = fw_of w0" "objects w1 = objects w0" "freeSlices w1 = freeSlices w0" "nextChunk w1 = nextChunk w0"
        and refs: "slice_refs wr = (slice_refs w0)((i, n) \<mapsto> 0)" "slice_refs w1 = slice_refs (if dl = None then drop_refs ?C wr else wr)"
        by (rule doCompactChunk_tx_effect [OF ck fit less_imp_le [OF ne] run1]) (rule that, assumption+)
      have com: "committed ss inode indx i pos n w0 w1" unfolding committed_def using R by blast
      have h0: "holds (rd (objects w0)) i (rd (objects w0)) cs" using h s0(3) by simp
      note cc = committed_compacts [OF ok0 f0 c ne h0 com R(5-8) refs]
      define w2 where "w2 = cleanupZeroRef m i n w1"
      have ok1: "sound rd w1" using cc(1) by (simp add: compacts_def)
      have k2: "keeps rd w1 w2" unfolding w2_def by (rule keeps_cleanupZeroRef)
      have ok2: "sound rd w2" using k2 ok1 by (simp add: keeps_def)
      have k3: "keeps rd w2 (delete_unused m cb ?C w2)"
        by (rule keeps_delete_unused [OF laws ok2]) (rule cc(2), simp_all add: keeps_slices(2) [OF k2])
      have "st = E0 \<and> w' = (if dl = None then delete_unused m cb ?C w2 else w2)" using rest True by (auto simp: w2_def Let_def)
      moreover have "compacts rd inode indx {i} w1 (if dl = None then delete_unused m cb ?C w2 else w2)"
        using compacts_keeps [OF ok1 k2] compacts_keeps [OF ok1 keeps_trans [OF k2 k3]] by simp
      ultimately show ?thesis using compacts_trans [OF cc(1)] by simp
    next
      case False
      then have w1: "w1 = w0" using eff by simp
      define w2 where "w2 = (if st1 \<noteq> EINVAL then snd (point_read w0) else w0)"
      have k2: "keeps rd w0 w2" by (simp add: w2_def keeps_read keeps_refl)
      have ok2: "sound rd w2" using k2 ok0 by (simp add: keeps_def)
      have sr: "slice_refs w2 = slice_refs w0" by (simp add: w2_def point_read_def)
      have f2: "fresh w2 i" using f0 fresh_slices [OF keeps_slices(1) [OF k2] sr] by simp
      define w3 where "w3 = snd (key_txn m w2)"
      have k3: "keeps rd w2 w3" unfolding w3_def by (rule keeps_key)
      have ok3: "sound rd w3" using k3 ok2 by (simp add: keeps_def)
      have f3: "fresh w3 i" using f2 fresh_slices [OF keeps_slices(1) [OF k3]] by (simp add: w3_def key_txn_def)
      have "slice_refs w2 (i, n) = None" using f2 by (simp add: fresh_def)
      then have "st \<noteq> E0 \<and> (w' = w2 \<or> w' = w3 \<or> w' = incr_ref i n (- 1) w3)"
        using rest False unfolding w1 w2_def w3_def by (auto simp: Let_def split: if_splits prod.splits option.splits)
      moreover note compacts_mark(1) [OF ok3 f3, of inode indx n] compacts_mark(2) [OF ok3 f3, of n]
      moreover note compacts_keeps [OF ok0 k2, of inode indx "{i}"] compacts_keeps [OF ok0 keeps_trans [OF k2 k3], of inode indx "{i}"]
      ultimately show ?thesis using compacts_trans keeps_slices(1) [OF k2] keeps_slices(1) [OF k3] by metis
    qed
    then show "compacts rd inode indx {i} w w'" "st \<noteq> E0 \<Longrightarrow> slices_at w' = slices_at w" using compacts_trans [OF c0] s0(1) by auto
  qed
qed


section \<open>The calls around it\<close>

text \<open>What a step leaves in the cache was there before, and its chunk has not changed.\<close>

definition cache_kept :: "'o file_world \<Rightarrow> 'o file_world \<Rightarrow> bool" where
  "cache_kept w w' \<longleftrightarrow> (\<forall>j k cs. ReadChunk j k (fw_of w') = Some cs \<longrightarrow> ReadChunk j k (fw_of w) = Some cs \<and> slices_at w' j k = slices_at w j k)"

text \<open>A step keeps the invariants and the cache and changes the files as \<open>F\<close> says.\<close>

definition serves :: "('o \<Rightarrow> blocks) \<Rightarrow> ((64 word \<Rightarrow> afile option) \<Rightarrow> 64 word \<Rightarrow> afile option) \<Rightarrow> 'o file_world \<Rightarrow> 'o file_world \<Rightarrow> bool" where
  "serves rd F w w' \<longleftrightarrow> sound rd w' \<and> ids_ok w' \<and> files rd w' = F (files rd w) \<and> cache_kept w w'"

lemma cache_kept_trans: "cache_kept a b \<Longrightarrow> cache_kept b c \<Longrightarrow> cache_kept a c"
  unfolding cache_kept_def by metis

lemma cache_kept_shrinks: "chunks.shrinks (fw_of w) (fw_of w') \<Longrightarrow> slices_at w' = slices_at w \<Longrightarrow> cache_kept w w'"
  by (simp add: cache_kept_def chunks.shrinks_def)

lemma serves_trans: "serves rd F a b \<Longrightarrow> serves rd G b c \<Longrightarrow> serves rd (G \<circ> F) a c"
  by (auto simp: serves_def intro: cache_kept_trans)

lemma serves_then: "serves rd F a b \<Longrightarrow> serves rd id b c \<Longrightarrow> serves rd F a c"
  using serves_trans [of rd F a b id c] by simp

lemma serves_refl: "sound rd w \<Longrightarrow> ids_ok w \<Longrightarrow> serves rd id w w"
  by (simp add: serves_def cache_kept_def)

lemma serves_calm:
  assumes "calm w w'" and "sound rd w" and "ids_ok w'"
  shows "serves rd id w w'"
  using calm_sound [OF assms(1,2)] calm_slices [OF assms(1)] cache_kept_shrinks [of w w'] assms
  by (simp add: serves_def calm_def)

lemma serves_idle: "idle w w' \<Longrightarrow> sound rd w \<Longrightarrow> ids_ok w \<Longrightarrow> serves rd id w w'"
  using serves_calm [of w w' rd] idle_ids(1) [of w w'] by (simp add: idle_def)

lemmas serves_quiet = serves_idle [OF quiet_idle]

lemma given_known_ids:
  assumes ok: "ids_ok w" and nw: "I \<noteq> {} \<Longrightarrow> \<forall>i \<in> I. given w i" and f: "freeSlices w' = freeSlices w" and n: "nextChunk w \<le> nextChunk w'"
    and k: "\<And>j. known w' j \<Longrightarrow> known w j \<or> j \<in> I"
  shows "ids_ok w'"
proof -
  have "j < nextChunk w' \<and> \<not> (fst (freeSlices w) \<le> j \<and> j < snd (freeSlices w))" if "known w' j" for j
  proof -
    have "j < nextChunk w \<and> \<not> (fst (freeSlices w) \<le> j \<and> j < snd (freeSlices w))"
      using k [OF that] ok nw by (auto simp: ids_ok_def given_def)
    then show ?thesis using n by auto
  qed
  moreover have "0 < nextChunk w'" "snd (freeSlices w) \<le> nextChunk w'" using ok n by (auto simp: ids_ok_def)
  ultimately show ?thesis using ok f by (simp add: ids_ok_def)
qed

lemmas ids_ok_same = given_known_ids [where I = "{}", simplified]

lemma serves_keeps: "keeps rd w w' \<Longrightarrow> sound rd w \<Longrightarrow> ids_ok w \<Longrightarrow> serves rd id w w'"
  using keeps_slices(1) [of rd w w'] keeps_known [of rd w w'] ids_ok_same [of w w']
  by (auto simp: serves_def keeps_def cache_kept_def)

lemma chunk_at_piece: "chunk_at cs q = Some x \<Longrightarrow> \<exists>c \<in> set cs. S_Id c = fst x \<and> S_Id c \<noteq> 0"
  by (induction cs arbitrary: q) (auto simp: piece_at_def split: if_splits)

text \<open>After an upload of the compacted pieces, the new object holds them.\<close>

lemma upload_holds:
  assumes laws: "store_laws rd cb" and c: "compaction ss pos n cs" and up: "msg_CompactChunk cb cs i ob = (True, ob')"
    and i: "\<And>s. s \<in> set ss \<Longrightarrow> sl_id s \<noteq> i"
  shows "holds (rd ob') i (rd ob') cs"
proof -
  have "holds (rd ob') i (rd ob) cs" using laws up unfolding store_laws_def by blast
  moreover have "byte (rd ob') (chunk_at cs d) = byte (rd ob) (chunk_at cs d)" for d
  proof (cases "chunk_at cs d")
    case (Some x)
    then obtain s where "s \<in> set ss" "sl_id s = fst x"
      using chunk_at_piece [OF Some] compaction_facts(6) [OF c] by (fastforce simp: comes_from_def)
    then have "fst x \<noteq> i" using i by auto
    then have "rd ob' (fst x, snd x) = rd ob (fst x, snd x)" using laws up unfolding store_laws_def by blast
    then show ?thesis using Some by (simp add: byte_def)
  qed simp
  ultimately show ?thesis by (simp add: holds_def)
qed

lemma cache_kept_invalidate:
  assumes "\<And>j k. \<not> (j = inode \<and> drops indx k) \<Longrightarrow> slices_at w1 j k = slices_at w j k" and "chunks.shrinks (fw_of w) (fw_of w1)"
  shows "cache_kept w (invalidate inode indx w1)"
proof -
  have "slices_at (invalidate inode indx w1) = slices_at w1" by (rule slices_at_cong) (simp add: invalidate_def)
  moreover have "ReadChunk j k (fw_of w1) = Some cs \<and> \<not> (inode = j \<and> drops indx k)"
    if "ReadChunk j k (fw_of (invalidate inode indx w1)) = Some cs" for j k cs
    using chunks.look_forget [of j k inode indx "fw_of w1" cs] that by (simp add: invalidate_def)
  ultimately show ?thesis unfolding cache_kept_def using assms unfolding chunks.shrinks_def by metis
qed

lemma invalidate_keeps: "sound rd w \<Longrightarrow> sound rd (invalidate inode indx w)" "files rd (invalidate inode indx w) = files rd w"
  "ids_ok w \<Longrightarrow> ids_ok (invalidate inode indx w)"
proof -
  let ?w = "invalidate inode indx w"
  have q: "quiet_step w ?w" unfolding invalidate_def by (rule quiet_of) (rule chunks.shrinks_forget)
  show "sound rd w \<Longrightarrow> sound rd ?w" using idle_files(1) [OF quiet_idle [OF q]] .
  show "files rd ?w = files rd w" using quiet_files(2) [OF q] by (simp add: files_def invalidate_def)
  show "ids_ok w \<Longrightarrow> ids_ok ?w" using idle_ids(1) [OF quiet_idle [OF q]] .
qed


text \<open>The upload and the transaction, once the slices are chosen and an id is given.\<close>

lemma compact_upload:
  assumes laws: "store_laws rd cb" and ok: "sound rd w" "ids_ok w" and i: "given w i" and c: "compaction ss pos n cs"
    and ne: "skipSome ss < length ss" and ss: "\<And>s. s \<in> set ss \<Longrightarrow> in_use w s" and env: "alone os"
    and up: "msg_CompactChunk cb cs i (objects w) = (True, ob)"
    and run: "doCompactChunk m cb os inode indx (concat (map slice_bytes ss)) (drop (skipSome ss) ss) (skipSome ss) pos i n dl (w\<lparr>objects := ob\<rparr>) = Some (st, w1)"
    and w': "w' = (if st = EINVAL then deleteSlice m cb i n w1 else if st = E0 then invalidate inode indx w1 else w1)"
  shows "serves rd id w w'"
proof -
  let ?w = "w\<lparr>objects := ob\<rparr>"
  have f: "\<And>s. in_use w s \<Longrightarrow> sl_id s \<noteq> i" using given_fresh [OF i] by (auto simp: fresh_def)
  have k0: "keeps rd w ?w" by (rule keeps_objects) (use laws up f in \<open>auto simp: store_laws_def\<close>)
  note s0 = serves_keeps [OF k0 ok]
  have sl0: "slices_at ?w = slices_at w" by (rule keeps_slices(1) [OF k0])
  have g0: "given ?w i" using i keeps_slices(2) [OF k0] by (auto simp: given_def known_def)
  have ok0: "sound rd ?w" "ids_ok ?w" using s0 by (simp_all add: serves_def)
  have h: "holds (rd (objects ?w)) i (rd (objects ?w)) cs" using upload_holds [OF laws c up] ss f by auto
  note e = doCompactChunk_effect [OF laws ok0(1) given_fresh [OF g0] c ne h env run]
  have ok1: "sound rd w1" "files rd w1 = files rd ?w" using e(1) by (simp_all add: compacts_def)
  have ids1: "ids_ok w1" by (rule given_known_ids [OF ok0(2), of "{i}"]) (use e(1) g0 in \<open>auto simp: compacts_def\<close>)
  have sh: "chunks.shrinks (fw_of ?w) (fw_of w1)" using e(1) by (simp add: compacts_def)
  have "serves rd id ?w w'"
  proof (cases "st = E0")
    case True
    then have "w' = invalidate inode indx w1" using w' by simp
    moreover have "cache_kept ?w (invalidate inode indx w1)"
      by (rule cache_kept_invalidate [OF _ sh]) (use e(1) in \<open>auto simp: compacts_def drops_def\<close>)
    ultimately show ?thesis using ok1 ids1 by (simp add: serves_def invalidate_keeps)
  next
    case False
    have s1: "serves rd id ?w w1" using ok1 ids1 cache_kept_shrinks [OF sh e(2) [OF False]] by (simp add: serves_def)
    have "in_use w1 s \<Longrightarrow> sl_id s \<noteq> i" for s using e(2) [OF False] sl0 f by (simp add: in_use_def)
    then have "serves rd id w1 (deleteSlice m cb i n w1)" by (intro serves_keeps [OF keeps_deleteSlice [OF laws] ok1(1) ids1])
    with s1 False w' show ?thesis using serves_then by (cases "st = EINVAL") auto
  qed
  with s0 show ?thesis by (rule serves_then)
qed

lemma doRead_effect:
  assumes "doRead inode indx w = Some (r, w')"
  shows "keeps rd w w'" and "sound rd w \<Longrightarrow> r = Inr (Some ss) \<Longrightarrow> ss = slices_at w inode indx" and "quiet_step w w'"
proof -
  obtain e w1 where p: "point_read w = (e, w1)" by fastforce
  have w': "w' = w1" using assms p by (cases e) (auto simp: doRead_def)
  show k: "keeps rd w w'" using keeps_read [of rd w] p w' by simp
  show "quiet_step w w'" using quiet_point_read [of w] p w' by simp
  assume "sound rd w" "r = Inr (Some ss)"
  then have "chunks_ok w" using files_okD(1) by (auto simp: sound_def)
  from chunk_is_read [OF chunks_okD [OF this, of inode indx]]
  have "readSliceBuf (chunk_val inode indx w1) = Some (Some (slices_at w inode indx))"
    using k w' by (simp add: chunk_val_def keeps_def)
  with assms p \<open>r = Inr (Some ss)\<close> show "ss = slices_at w inode indx" by (cases e) (auto simp: doRead_def)
qed

lemma compact_marked_serves:
  assumes laws: "store_laws rd cb" and ok: "sound rd w" "ids_ok w" and room: "id_room w" and env: "alone os"
    and run: "compact_marked m cb os once inode indx w = Some (r, w')"
  shows "serves rd id w w'"
proof -
  obtain r1 w1 where rd1: "doRead inode indx w = Some (r1, w1)" using run by (auto simp: compact_marked_def Option.bind_eq_Some_conv)
  have k1: "keeps rd w w1" by (rule doRead_effect(1) [OF rd1])
  note s1 = serves_keeps [OF k1 ok]
  have ok1: "sound rd w1" "ids_ok w1" using s1 by (simp_all add: serves_def)
  define all where "all = slices_at w inode indx"
  define ss where "ss = take maxCompactSlices all"
  obtain pos n cs where cc: "compactChunk (drop (skipSome ss) ss) = (pos, n, cs)" by (metis prod_cases3)
  define after where "after i st w2 = (if st = EINVAL then deleteSlice m cb i n w2 else if st = E0 then invalidate inode indx w2 else w2)" for i st w2
  have rest: "w' = w1 \<or> r1 = Inr (Some all) \<and> \<not> (length (drop (skipSome ss) ss) < 2 \<or> n = 0) \<and> \<not> list_ex (overlaps pos n) (take (skipSome ss) ss) \<and>
    (case NewSlice m w1 of (Inl st, w) \<Rightarrow> w' = w
     | (Inr i, w) \<Rightarrow> (case msg_CompactChunk cb cs i (objects w) of (False, ob) \<Rightarrow> w' = w\<lparr>objects := ob\<rparr>
       | (True, ob) \<Rightarrow> \<exists>dl st w2. doCompactChunk m cb os inode indx (concat (map slice_bytes ss)) (drop (skipSome ss) ss) (skipSome ss) pos i n dl
             (w\<lparr>objects := ob\<rparr>) = Some (st, w2) \<and> w' = after i st w2))"
  proof (cases "\<exists>ss. r1 = Inr (Some ss)")
    case True
    then have r1: "r1 = Inr (Some all)" using doRead_effect(2) [OF rd1 ok(1)] by (auto simp: all_def)
    show ?thesis using run unfolding compact_marked_def rd1
      by (auto simp: r1 Let_def ss_def [symmetric] cc origin_bytes_eq Option.bind_eq_Some_conv after_def [symmetric]
          split: if_split_asm sum.splits prod.splits bool.splits)
  next
    case False
    then show ?thesis using run rd1 by (auto simp: compact_marked_def split: sum.splits option.splits)
  qed
  show ?thesis
  proof (cases "w' = w1")
    case False
    with rest have big: "\<not> (length (drop (skipSome ss) ss) < 2 \<or> n = 0)" "\<not> list_ex (overlaps pos n) (take (skipSome ss) ss)" by auto
    obtain nr w2 where ns: "NewSlice m w1 = (nr, w2)" by fastforce
    have room1: "id_room w1" using room k1 by (simp add: keeps_def id_room_def)
    note new = NewSlice_id [OF ok1(2) room1 ns]
    have s2: "serves rd id w1 w2" by (rule serves_calm [OF new(3) ok1(1) new(1)])
    have ok2: "sound rd w2" using s2 by (simp add: serves_def)
    have sl: "slices_at w2 = slices_at w" using calm_slices [OF new(3)] keeps_slices(1) [OF k1] by simp
    have fit: "list_all fits ss"
      using chunks_okD [of w inode indx] files_okD(1) ok(1) by (auto simp: ss_def all_def sound_def chunk_is_def list_all_iff dest!: in_set_takeD)
    have c: "compaction ss pos n cs" using fit cc big by (simp add: compaction_def)
    have use: "\<And>s. s \<in> set ss \<Longrightarrow> in_use w2 s" using sl unfolding in_use_def ss_def all_def by (metis in_set_takeD)
    have "serves rd id w2 w'"
    proof (cases nr)
      case (Inl st)
      then show ?thesis using rest False ns serves_refl [OF ok2 new(1)] by simp
    next
      case (Inr i)
      obtain good ob where up: "msg_CompactChunk cb cs i (objects w2) = (good, ob)" by fastforce
      show ?thesis
      proof (cases good)
        case True
        from rest False ns Inr up True obtain dl st w3 where *:
          "doCompactChunk m cb os inode indx (concat (map slice_bytes ss)) (drop (skipSome ss) ss) (skipSome ss) pos i n dl (w2\<lparr>objects := ob\<rparr>) = Some (st, w3)"
          "w' = after i st w3" by auto
        have lt: "skipSome ss < length ss" using big(1) by (auto simp: not_less)
        from compact_upload [OF laws ok2 new(1) new(2) [OF Inr] c lt use env _ *(1) *(2) [unfolded after_def]] up True show ?thesis by simp
      next
        case no: False
        have f: "\<And>s. in_use w2 s \<Longrightarrow> sl_id s \<noteq> i" using given_fresh [OF new(2) [OF Inr]] by (auto simp: fresh_def)
        have "keeps rd w2 (w2\<lparr>objects := ob\<rparr>)" by (rule keeps_objects) (use laws up f in \<open>auto simp: store_laws_def\<close>)
        moreover have "w' = w2\<lparr>objects := ob\<rparr>" using rest False ns Inr up no by simp
        ultimately show ?thesis using serves_keeps [OF _ ok2 new(1)] by simp
      qed
    qed
    then show ?thesis using serves_then [OF serves_then [OF s1 s2]] by blast
  qed (use s1 in simp)
qed

lemma compactChunk_serves:
  assumes laws: "store_laws rd cb" and ok: "sound rd w" "ids_ok w" and room: "id_room w" and env: "alone (shd oss)"
    and run: "base_compactChunk m cb oss canceled once False inode indx w = Some w'"
  shows "serves rd id w w'"
proof -
  let ?m = "\<lambda>w ks. w\<lparr>compacting := ks\<rparr>"
  have q: "serves rd id w (?m w ks)" if "sound rd w" "ids_ok w" for w :: "'a file_world" and ks
    by (rule serves_quiet [OF quiet_fields(8) that])
  have "w' = w \<or> (\<exists>ks ks' r w1. compact_marked m cb (shd oss) once inode indx (?m w ks) = Some (r, w1) \<and> w' = ?m w1 ks')"
    using run by (subst (asm) base_compactChunk.simps) (auto simp: Let_def Option.bind_eq_Some_conv split: if_splits)
  then show ?thesis
  proof (elim disjE exE conjE)
    fix ks ks' r w1 assume m: "compact_marked m cb (shd oss) once inode indx (?m w ks) = Some (r, w1)" and w': "w' = ?m w1 ks'"
    note s1 = q [OF ok, of ks]
    have s2: "serves rd id (?m w ks) w1"
      by (rule compact_marked_serves [OF laws _ _ _ env m]) (use s1 room in \<open>simp_all add: serves_def id_room_def\<close>)
    have "serves rd id w1 w'" unfolding w' by (rule q) (use s2 in \<open>simp_all add: serves_def\<close>)
    then show ?thesis using serves_then [OF serves_then [OF s1 s2]] by blast
  qed (use serves_refl [OF ok] in simp)
qed

end
