(* ===== verification/JFS_FileCalls.thy ===== *)
theory JFS_FileCalls
  imports JFS_FileServe
begin

text \<open>
  The calls of a client on the bytes of files (pkg/meta/base.go): writing, truncating, allocating, copying and reading, with
  the transactions that may be repeated, the directory quotas and the cache of chunks around them. Each call has the effect of its counterpart
  on abstract files or none, and keeps the invariants that the next call relies on.
\<close>

unbundle bit_operations_syntax

section \<open>What a body of a transaction leaves alone\<close>

definition framed :: "'o file_world \<Rightarrow> 'o file_world \<Rightarrow> bool" where
  "framed w w' \<longleftrightarrow> chunks.shrinks (fw_of w) (fw_of w') \<and> objects w' = objects w \<and> freeSlices w' = freeSlices w \<and> nextChunk w' = nextChunk w"

named_theorems frame_rules \<open>steps of a transaction that keep the cache, the objects and the ids\<close>

lemma framed_refl [simp]: "framed w w"
  by (simp add: framed_def chunks.shrinks_refl)

lemma framed_trans: "framed a b \<Longrightarrow> framed b c \<Longrightarrow> framed a c"
  by (auto simp: framed_def elim: chunks.shrinks_trans)

lemma framed_quiet: "quiet_step w w' \<Longrightarrow> framed w w'"
  by (simp add: framed_def quiet_step_def same_engine_def)

lemma framed_idle: "framed w w' \<Longrightarrow> idle w (drop_writes w w')"
  by (simp add: framed_def idle_drop_writes)

lemma framed_fields [frame_rules]:
  "append_chunk inode indx s w = Some w' \<Longrightarrow> framed w w'" "set_attr inode a w = Some w' \<Longrightarrow> framed w w'"
  "share_slice inode indx s w = Some w' \<Longrightarrow> framed w w'"
  "framed w (set_chunk inode indx v w)" "framed w (fill_between inode lo hi buf w)" "framed w (snd (clock_now w))"
  by (auto simp: framed_def append_chunk_def set_attr_def share_slice_def incr_ref_def set_chunk_def fill_between_def clock_now_def
      chunks.shrinks_refl)

lemmas framed_quiet_rules [frame_rules] = framed_quiet [OF quiet_checkQuota] framed_quiet [OF quiet_Access]

lemma framed_truncate_chunks [frame_rules]:
  assumes "truncate_chunks inode lo hi w = Some w'"
  shows "framed w w'"
proof -
  let ?two = "hi > (lo div ChunkSize + 1) * ChunkSize"
  obtain w1 w2 where "(if hi div ChunkSize - lo div ChunkSize > 1
       then map_option (\<lambda>buf. fill_between inode (ucast (lo div ChunkSize) + 1) (ucast (hi div ChunkSize)) buf w)
         (marshalSlice (hole 0 (ucast ChunkSize))) else Some w) = Some w1"
    "append_chunk inode (ucast (lo div ChunkSize)) (hole (ucast (lo mod ChunkSize))
       (if ?two then ucast ChunkSize - ucast (lo mod ChunkSize) else ucast (hi - lo))) w1 = Some w2"
    "(if ?two \<and> hi mod ChunkSize > 0 then append_chunk inode (ucast (hi div ChunkSize)) (hole 0 (ucast (hi mod ChunkSize))) w2 else Some w2) = Some w'"
    using assms unfolding truncate_chunks_def Let_def Option.bind_eq_Some_conv by blast
  moreover from this(1) have "framed w w1" by (auto simp: framed_fields split: if_split_asm)
  moreover from calculation(3) have "framed w2 w'" by (auto simp: framed_fields(1) split: if_split_asm)
  ultimately show ?thesis using framed_trans framed_fields(1) by blast
qed

lemma framed_zero_range [frame_rules]: "zero_range inode off n w = Some w' \<Longrightarrow> framed w w'"
proof (induction inode off n w rule: zero_range.induct)
  case (1 inode off n w)
  show ?case
  proof (cases "n > 0")
    case True
    obtain w1 where "append_chunk inode (ucast (off div ChunkSize)) (hole (ucast (off mod ChunkSize)) (ucast (in_chunk off n))) w = Some w1"
      "zero_range inode (off + in_chunk off n) (n - in_chunk off n) w1 = Some w'"
      using "1.prems" True by (subst (asm) zero_range.simps) (auto simp: Let_def Option.bind_eq_Some_conv)
    with "1.IH" [OF True refl, of w1] show ?thesis using framed_trans [OF framed_fields(1)] by blast
  qed (use "1.prems" in \<open>simp add: zero_range.simps\<close>)
qed

lemma framed_zero_old [frame_rules]: "zero_old inode mode off n old w = Some w' \<Longrightarrow> framed w w'"
  by (auto simp: zero_old_def framed_zero_range split: if_splits)

lemma doTruncate_tx_frame:
  assumes "doTruncate_tx m ctx inode flags len skip (w, out) = Some (e, w', out')"
  shows "e \<noteq> Some (Eno E0) \<and> framed w w'"
proof (cases "inode_vals (fw_acl w) inode")
  case (Some v)
  then obtain a where a: "Attr_Unmarshal v zero_Attr = Some a" using assms by (auto simp: doTruncate_tx_def Let_def Option.bind_eq_Some_conv)
  have "e \<noteq> Some (Eno E0) \<and> w' = w \<or> (\<exists>st w1. (if skip then Some (E0, w) else on_acl (Access ctx inode MODE_MASK_W a) w) = Some (st, w1) \<and>
     (e \<noteq> Some (Eno E0) \<and> w' = w1 \<or> (\<exists>dl ps err w2. checkQuota m dl 0 ps w1 = Some (err, w2) \<and>
       (e \<noteq> Some (Eno E0) \<and> w' = w2 \<or> e = None \<and> (\<exists>w3 b. truncate_chunks inode (min (Length a) len) (max (Length a) len) w2 = Some w3 \<and>
         set_attr inode b (snd (clock_now w3)) = Some w')))))"
    using assms Some a
    by (cases skip) (auto simp: doTruncate_tx_def Let_def Option.bind_eq_Some_conv split_beta split: if_split_asm)
  moreover have "framed w w1" if "(if skip then Some (E0, w) else on_acl (Access ctx inode MODE_MASK_W a) w) = Some (st, w1)" for st w1
    using that framed_quiet_rules(2) by (auto split: if_splits)
  ultimately show ?thesis
    by (elim disjE exE conjE; simp) (meson framed_trans frame_rules)+
qed (use assms in \<open>auto simp: doTruncate_tx_def Let_def\<close>)

lemma doFallocate_tx_frame:
  assumes "doFallocate_tx m ctx inode mode off n (w, out) = Some (e, w', out')"
  shows "e \<noteq> Some (Eno E0) \<and> framed w w'"
proof (cases "inode_vals (fw_acl w) inode")
  case (Some v)
  then obtain a where a: "Attr_Unmarshal v zero_Attr = Some a" using assms by (auto simp: doFallocate_tx_def Let_def Option.bind_eq_Some_conv)
  show ?thesis using assms Some a
    by (auto simp: doFallocate_tx_def Let_def Option.bind_eq_Some_conv split_beta split: if_split_asm option.split_asm)
      (meson framed_trans frame_rules)+
qed (use assms in \<open>auto simp: doFallocate_tx_def Let_def\<close>)

lemma doWrite_tx_frame:
  assumes "doWrite_tx m inode indx off s mtime (w, out) = Some (e, w', out')"
  shows "e \<noteq> Some (Eno E0) \<and> framed w w'"
proof (cases "inode_vals (fw_acl w) inode")
  case (Some v)
  then obtain a where a: "Attr_Unmarshal v zero_Attr = Some a" using assms by (auto simp: doWrite_tx_def Let_def Option.bind_eq_Some_conv)
  define leng where "leng = (ucast indx * ChunkSize + ucast off + ucast (S_Len s) :: 64 word)"
  define da where "da = (if leng > Length a
    then (\<lparr>ds_length = sint (leng - Length a), ds_space = int64_of (align4K leng - align4K (Length a)), ds_inodes = 0\<rparr>, a\<lparr>Length := leng\<rparr>)
    else (zero_dirStat, a))"
  have "e \<noteq> Some (Eno E0) \<and> w' = w \<or> (\<exists>err w1. checkQuota m (ds_space (fst da)) 0 (getParents inode (Parent (snd da)) w) w = Some (err, w1) \<and>
     (e \<noteq> Some (Eno E0) \<and> w' = w1 \<or> e = None \<and> (w' = snd (clock_now w1) \<or>
       (\<exists>b w2 v. set_attr inode b (snd (clock_now w1)) = Some w2 \<and> w' = set_chunk inode indx v w2))))"
    using assms unfolding doWrite_tx_def prod.case Let_def Some option.case a Option.bind.bind_lunit leng_def [symmetric] da_def [symmetric]
    by (auto simp: Option.bind_eq_Some_conv split_beta split: if_split_asm) blast+
  then show ?thesis by (elim disjE exE conjE; simp) (meson framed_trans frame_rules)+
qed (use assms in \<open>auto simp: doWrite_tx_def Let_def\<close>)

lemma doTouchAtime_tx_frame:
  "doTouchAtime_tx m inode now (w, attr, upd) = Some (e, w', x) \<Longrightarrow> e \<noteq> Some (Eno E0) \<and> framed w w'"
  by (auto simp: doTouchAtime_tx_def Let_def Option.bind_eq_Some_conv intro: framed_fields(2) split: option.split_asm if_split_asm)

lemma framed_copy_piece: "copy_piece offIn n fout offOut s pos w = Some w' \<Longrightarrow> framed w w'"
  by (auto simp: copy_piece_def Let_def Option.bind_eq_Some_conv split_beta intro: framed_trans framed_fields(3) split: if_split_asm)

lemma framed_copy_pieces: "copy_pieces offIn n fout offOut cs coff w = Some (coff', w') \<Longrightarrow> framed w w'"
proof (induction cs arbitrary: coff w)
  case (Cons s cs)
  then obtain w1 where "copy_piece offIn n fout offOut s coff w = Some w1" "copy_pieces offIn n fout offOut cs (coff + ucast (S_Len s)) w1 = Some (coff', w')"
    by (auto simp: Option.bind_eq_Some_conv)
  with Cons.IH show ?case using framed_trans [OF framed_copy_piece] by blast
qed simp

lemma framed_copy_loop [frame_rules]:
  assumes "copy_loop chunks offIn n fout offOut coff w = Some w'"
  shows "framed w w'"
proof (rule copy_loop.raw_induct [where P = "\<lambda>ch a n f b c w w'. framed w w'", OF _ assms], goal_cases)
  case (1 f ch a n i b c w w')
  from "1"(2) consider "w' = w" | cs c1 w1 where "copy_pieces a n i b cs c w = Some (c1, w1)" "f ch a n i b c1 w1 = Some w'"
    by (auto simp: Option.bind_eq_Some_conv split: if_split_asm)
  then show ?case
  proof cases
    case 2
    show ?thesis by (rule framed_trans [OF framed_copy_pieces [OF 2(1)] "1"(1) [OF 2(2)]])
  qed simp
qed

lemma CopyFileRange_tx_frame:
  assumes "CopyFileRange_tx m fin offIn fout offOut n0 (w, out) = Some (e, w', out')"
  shows "e \<noteq> Some (Eno E0) \<and> framed w w'"
proof (cases "\<exists>sv v sa. inode_vals (fw_acl w) fin = Some sv \<and> inode_vals (fw_acl w) fout = Some v \<and> Attr_Unmarshal sv zero_Attr = Some sa \<and>
    Typ sa = TypeFile \<and> offIn < Length sa")
  case True
  then obtain sv v sa where v: "inode_vals (fw_acl w) fin = Some sv" "inode_vals (fw_acl w) fout = Some v" "Attr_Unmarshal sv zero_Attr = Some sa"
    "Typ sa = TypeFile" "offIn < Length sa" by blast
  define n where "n = (if offIn + n0 > Length sa then Length sa - offIn else n0)"
  obtain a where a: "Attr_Unmarshal v zero_Attr = Some a"
    using assms v by (cases "Attr_Unmarshal v zero_Attr") (auto simp: CopyFileRange_tx_def Let_def not_le [symmetric])
  define o1 where "o1 = out\<lparr>co_newLength := 0, co_newSpace := 0, co_attr := a\<rparr>"
  define da where "da = (if offOut + n > Length a then (o1\<lparr>co_newLength := sint (offOut + n - Length a),
      co_newSpace := int64_of (align4K (offOut + n) - align4K (Length a))\<rparr>, a\<lparr>Length := offOut + n\<rparr>) else (o1, a))"
  have "e \<noteq> Some (Eno E0) \<and> w' = w \<or> (\<exists>err w1. checkQuota m (co_newSpace (fst da)) 0 (getParents fout (Parent (snd da)) w) w = Some (err, w1) \<and>
     (e \<noteq> Some (Eno E0) \<and> (w' = w1 \<or> w' = snd (clock_now w1)) \<or> e = None \<and> (\<exists>ch c b w2. copy_loop ch offIn n fout offOut c (snd (clock_now w1)) = Some w2 \<and>
         set_attr fout b w2 = Some w')))"
    using assms v(4,5) unfolding CopyFileRange_tx_def prod.case Let_def v(1-3) option.case a Option.bind.bind_lunit n_def [symmetric] o1_def [symmetric] da_def [symmetric]
    by (auto simp: Option.bind_eq_Some_conv split_beta split: if_split_asm option.split_asm)
  then show ?thesis by (elim disjE exE conjE; simp) (meson framed_trans frame_rules)+
next
  case False
  then have "e \<noteq> Some (Eno E0) \<and> w' = w"
    using assms by (auto simp: CopyFileRange_tx_def Let_def Option.bind_eq_Some_conv split: if_split_asm option.split_asm)
  then show ?thesis by simp
qed


section \<open>From the transaction to the call\<close>

text \<open>Between its transaction and its end a call may have stale chunks of one file in the cache.\<close>

definition serves_but :: "('o \<Rightarrow> blocks) \<Rightarrow> 64 word \<Rightarrow> 32 word \<Rightarrow> ((64 word \<Rightarrow> afile option) \<Rightarrow> 64 word \<Rightarrow> afile option) \<Rightarrow>
    'o file_world \<Rightarrow> 'o file_world \<Rightarrow> bool" where
  "serves_but rd inode indx F w w' \<longleftrightarrow> sound rd w' \<and> ids_ok w' \<and> files rd w' = F (files rd w) \<and>
     (\<forall>j k cs. ReadChunk j k (fw_of w') = Some cs \<and> \<not> (j = inode \<and> drops indx k) \<longrightarrow>
       ReadChunk j k (fw_of w) = Some cs \<and> slices_at w' j k = slices_at w j k)"

definition change :: "64 word \<Rightarrow> (afile \<Rightarrow> afile) \<Rightarrow> (64 word \<Rightarrow> afile option) \<Rightarrow> 64 word \<Rightarrow> afile option" where
  "change inode F fs = fs(inode := map_option F (fs inode))"

lemma serves_but_weak: "serves rd F w w' \<Longrightarrow> serves_but rd inode indx F w w'"
  by (auto simp: serves_def serves_but_def cache_kept_def)

lemma serves_but_then: "serves_but rd inode indx F a b \<Longrightarrow> serves rd id b c \<Longrightarrow> serves_but rd inode indx F a c"
  unfolding serves_but_def serves_def cache_kept_def by auto

lemma serves_but_invalidate:
  assumes "serves_but rd inode indx F w w1"
  shows "serves rd F w (invalidate inode indx w1)"
proof -
  have "slices_at (invalidate inode indx w1) = slices_at w1" by (rule slices_at_cong) (simp add: invalidate_def)
  moreover have "ReadChunk j k (fw_of w1) = Some cs \<and> \<not> (inode = j \<and> drops indx k)"
    if "ReadChunk j k (fw_of (invalidate inode indx w1)) = Some cs" for j k cs
    using chunks.look_forget [of j k inode indx "fw_of w1" cs] that by (simp add: invalidate_def)
  ultimately have "cache_kept w (invalidate inode indx w1)"
    using assms unfolding cache_kept_def serves_but_def by metis
  then show ?thesis using assms by (simp add: serves_def serves_but_def invalidate_keeps)
qed

lemma commit_serves_but:
  assumes w1: "idle w w1" and ok: "sound rd w" "ids_ok w"
    and up: "updates (rd (objects w1)) inode F w1 w2" and fr: "framed w1 w2" and refs: "refs_ok w2"
    and I: "\<And>j. known w2 j \<Longrightarrow> known w1 j \<or> j \<in> I" "\<And>i. i \<in> I \<Longrightarrow> given w i"
    and out: "\<And>k. \<not> drops indx k \<Longrightarrow> slices_at w2 inode k = slices_at w1 inode k"
  shows "serves_but rd inode indx (change inode F) w w2"
proof -
  have o2: "objects w2 = objects w1" using up by (simp add: updates_def)
  have s2: "sound rd w2" using up refs o2 by (simp add: sound_def updates_def)
  have f2: "files rd w2 = change inode F (files rd w1)" using up o2 by (simp add: files_def updates_def change_def)
  have id2: "ids_ok w2"
    by (rule given_known_ids [OF idle_ids(1) [OF w1 ok(2)], of I]) (use I fr idle_ids(2) [OF w1] in \<open>auto simp: framed_def\<close>)
  have "slices_at w2 j k = slices_at w1 j k" if "\<not> (j = inode \<and> drops indx k)" for j k
    using that up out by (cases "j = inode") (auto simp: updates_def)
  with s2 id2 f2 show ?thesis
    using idle_files(2,3) [OF w1] ok w1 fr unfolding serves_but_def idle_def calm_def framed_def chunks.shrinks_def by auto
qed

text \<open>A transaction of a client that is alone either has the effect of its body or none.\<close>

lemma txn_serves:
  assumes run: "file_txn m os f (w, x) = Some (st, w', x')" and env: "alone os" and ok: "sound rd w" "ids_ok w"
    and frame: "\<And>w x e w' x'. f (w, x) = Some (e, w', x') \<Longrightarrow> e \<noteq> Some (Eno E0) \<and> framed w w'"
    and eff: "\<And>w1 x1. idle w w1 \<Longrightarrow> sound rd w1 \<Longrightarrow> f (w1, x1) = Some (None, w', x') \<Longrightarrow> framed w1 w' \<Longrightarrow> serves_but rd inode indx F w w'"
  shows "serves_but rd inode indx (if st = E0 then F else id) w w'"
proof -
  obtain w1 x1 where w1: "idle w w1" and r: "if st = E0 then f (w1, x1) = Some (None, w', x') else w' = w1"
    using alone_run [OF run env] frame framed_idle by blast
  show ?thesis
  proof (cases "st = E0")
    case True
    with r frame eff [OF w1 idle_files(1) [OF w1 ok(1)]] show ?thesis by auto
  next
    case False
    with r serves_but_weak [OF serves_idle [OF w1 ok]] show ?thesis by simp
  qed
qed

text \<open>Changes that add holes only.\<close>

lemma holes_serves_but:
  assumes w1: "idle w w1" and ok: "sound rd w" "ids_ok w" and s1: "sound rd w1"
    and up: "updates (rd (objects w1)) inode F w1 w2 \<and> same_data w1 w2 \<and> slice_refs w2 = slice_refs w1" and fr: "framed w1 w2"
  shows "serves_but rd inode invalidateAllChunks (change inode F) w w2"
proof (rule commit_serves_but [OF w1 ok _ fr, of _ _ "{}"])
  have r1: "refs_ok w1" using s1 by (simp add: sound_def)
  show "refs_ok w2" by (rule refs_ok_data [OF r1]) (use up refs_okD(2,3) [OF r1] ref_count_refs [of w2 w1] in auto)
  show "known w2 j \<Longrightarrow> known w1 j \<or> j \<in> {}" for j using up same_dataD(2) [of w1 w2] by (auto simp: known_def)
qed (use up in \<open>auto simp: drops_def\<close>)

text \<open>The end of the calls: the quotas of the parents are updated and the cache is invalidated.\<close>

lemma finish_serves:
  assumes "serves_but rd inode indx F w w1" and "(if st = E0 then updateParentStat m inode p dl ds w1 else Some w1) = Some w2"
  shows "serves rd F w (invalidate inode indx w2)"
proof -
  have "sound rd w1" "ids_ok w1" using assms(1) by (simp_all add: serves_but_def)
  then have "serves rd id w1 w2"
    using assms(2) quiet_updateParentStat [of m inode p dl ds w1 w2] serves_quiet [of w1 w2 rd] serves_refl [of rd w1] by (auto split: if_split_asm)
  then show ?thesis by (rule serves_but_invalidate [OF serves_but_then [OF assms(1)]])
qed

lemma Truncate_serves:
  assumes ok: "sound rd w" "ids_ok w" and env: "alone os" and len: "unat len < file_limit"
    and run: "Truncate m os ctx inode flags len attr skip w = Some (st, a, w')"
  shows "serves rd (if st = E0 then change inode (af_truncate (unat len)) else id) w w'"
proof -
  obtain w1 x w2 where t: "file_txn m os (doTruncate_tx m ctx inode flags len skip) (w, zero_out attr) = Some (st, w1, x)"
    and w2: "(if st = E0 then updateParentStat m inode (Parent (fo_attr x)) (ds_length (fo_delta x)) (ds_space (fo_delta x)) w1 else Some w1) = Some w2"
    and w': "w' = invalidate inode invalidateAllChunks w2"
    using run unfolding Truncate_def doTruncate_def Option.bind_eq_Some_conv by fastforce
  have "serves_but rd inode invalidateAllChunks (if st = E0 then change inode (af_truncate (unat len)) else id) w w1"
  proof (rule txn_serves [OF t env ok doTruncate_tx_frame], assumption)
    fix v x1 assume v: "idle w v" "sound rd v" "framed v w1" "doTruncate_tx m ctx inode flags len skip (v, x1) = Some (None, w1, x)"
    from doTruncate_tx_effect [OF _ v(4) len, of "rd (objects v)"] v(2) have "updates (rd (objects v)) inode (af_truncate (unat len)) v w1 \<and> same_data v w1 \<and> slice_refs w1 = slice_refs v"
      by (simp add: sound_def)
    then show "serves_but rd inode invalidateAllChunks (change inode (af_truncate (unat len))) w w1"
      by (rule holes_serves_but [OF v(1) ok v(2) _ v(3)])
  qed
  from finish_serves [OF this w2] show ?thesis unfolding w' .
qed

lemma Fallocate_serves:
  assumes ok: "sound rd w" "ids_ok w" and env: "alone os" and len: "unat off + unat n < file_limit"
    and run: "Fallocate m os ctx inode mode off n flength w = Some (st, l, w')"
  shows "serves rd (if st = E0 then change inode (af_fallocate mode (unat off) (unat n)) else id) w w'"
proof (cases "st \<noteq> E0 \<and> w' = w")
  case False
  define call where "call = Option.bind (doFallocate m os ctx inode mode off n w) (\<lambda>(st, w, out).
        map_option (\<lambda>w. (st, if st = E0 then Length (fo_attr out) else flength, invalidate inode invalidateAllChunks w))
         (if st = E0 then updateParentStat m inode (Parent (fo_attr out)) (ds_length (fo_delta out)) (ds_space (fo_delta out)) w else Some w))"
  have call: "call = Some (st, l, w')" using run False unfolding Fallocate_def call_def [symmetric] by (auto split: if_split_asm)
  obtain w1 x w2 where t: "file_txn m os (doFallocate_tx m ctx inode mode off n) (w, zero_out zero_Attr) = Some (st, w1, x)"
    and w2: "(if st = E0 then updateParentStat m inode (Parent (fo_attr x)) (ds_length (fo_delta x)) (ds_space (fo_delta x)) w1 else Some w1) = Some w2"
    and w': "w' = invalidate inode invalidateAllChunks w2"
    using call unfolding call_def doFallocate_def Option.bind_eq_Some_conv by fastforce
  have "serves_but rd inode invalidateAllChunks (if st = E0 then change inode (af_fallocate mode (unat off) (unat n)) else id) w w1"
  proof (rule txn_serves [OF t env ok doFallocate_tx_frame], assumption)
    fix v x1 assume v: "idle w v" "sound rd v" "framed v w1" "doFallocate_tx m ctx inode mode off n (v, x1) = Some (None, w1, x)"
    from doFallocate_tx_effect [OF _ v(4) len, of "rd (objects v)"] v(2) have "updates (rd (objects v)) inode (af_fallocate mode (unat off) (unat n)) v w1 \<and> same_data v w1 \<and> slice_refs w1 = slice_refs v"
      by (simp add: sound_def)
    then show "serves_but rd inode invalidateAllChunks (change inode (af_fallocate mode (unat off) (unat n))) w w1"
      by (rule holes_serves_but [OF v(1) ok v(2) _ v(3)])
  qed
  from finish_serves [OF this w2] show ?thesis unfolding w' .
qed (use serves_refl [OF ok] in simp)

section \<open>Writing\<close>

text \<open>A slice of an object that the metadata did not know.\<close>

lemma append_refs:
  assumes ok: "refs_ok w" and i: "fresh w (sl_id t)" and r: "slice_refs w' = slice_refs w"
    and sl: "\<And>j k. slices_at w' j k = (if j = inode \<and> k = indx then slices_at w inode indx @ [t] else slices_at w j k)"
  shows "refs_ok w'" and "known w' j \<Longrightarrow> known w j \<or> j \<in> {sl_id t}"
proof -
  have use: "in_use w s \<or> s = t" if "in_use w' s" for s using that sl by (auto simp: in_use_def split: if_split_asm)
  show "known w' j \<Longrightarrow> known w j \<or> j \<in> {sl_id t}" using use r by (auto simp: known_def)
  have other: "slices_at w' a b = slices_at w a b" if "\<not> (a = inode \<and> b = indx)" for a b using sl [of a b] that by (simp only: if_False)
  have fin: "finite (data_chunks w')" by (rule uses_change(1) [OF refs_okD(1) [OF ok] _ other, where i = 1]) simp
  have count: "int (uses w' j m) \<le> ref_count j m w' + 1 \<and> ref_count j m w' < 2 ^ 63" if j: "j \<noteq> 0" for j m
  proof -
    from uses_change(2) [OF refs_okD(1) [OF ok] j, of inode indx w' m, OF other] sl [of inode indx]
    have "uses w' j m = uses w j m + (if sl_id t = j \<and> sl_size t = m then 1 else 0)" by simp
    then show ?thesis using refs_okD(2,3) [OF ok j, of m] ref_count_refs [OF r] fresh_unused [OF i] by (auto split: if_splits)
  qed
  have one: "sl_size s = sl_size u" if "in_use w' s" "in_use w' u" "sl_id s = sl_id u" "sl_id s \<noteq> 0" for s u
  proof (cases "sl_id s = sl_id t")
    case True
    then have "\<not> in_use w s" "\<not> in_use w u" using i that(3) unfolding fresh_def by metis+
    then show ?thesis using use [OF that(1)] use [OF that(2)] by simp
  next
    case False
    then have "in_use w s" "in_use w u" using use [OF that(1)] use [OF that(2)] that(3) by auto
    then show ?thesis using refs_okD(4) [OF ok] that(3,4) by blast
  qed
  show "refs_ok w'" unfolding refs_ok_def using fin count one by blast
qed

lemma doWrite_tx_refs:
  assumes ok: "files_ok B w" and run: "doWrite_tx m inode indx off s mtime (w, out) = Some (None, w', out')"
  shows "slice_refs w' = slice_refs w"
proof -
  obtain v where v: "inode_vals (fw_acl w) inode = Some v" using run by (auto simp: doWrite_tx_def Let_def split: option.splits)
  obtain a where a: "Attr_Unmarshal v zero_Attr = Some a" using files_okD(2) [OF ok v] by blast
  obtain w1 now where w1: "quiet_step w w1" and "w' = w1 \<or> (\<exists>b w2 c. set_attr inode b w1 = Some w2 \<and> w' = set_chunk inode indx c w2)"
    by (rule doWrite_tx_steps [OF run v a]) (auto simp: Let_def split: if_split_asm)
  then show ?thesis using quiet_data [OF w1] by (auto simp: set_attr_def set_chunk_def)
qed

text \<open>What a write does to the bytes: its range gets the bytes of the object that was uploaded before.\<close>

definition write_bytes :: "blocks \<Rightarrow> 32 word \<Rightarrow> 32 word \<Rightarrow> Slice \<Rightarrow> afile \<Rightarrow> afile" where
  "write_bytes B indx off s = af_write (unat indx * CS + unat off) (unat (S_Len s)) (\<lambda>q. byte B (piece_at (S_Id s) (S_Off s) q))"

definition slice_ok :: "32 word \<Rightarrow> 32 word \<Rightarrow> Slice \<Rightarrow> bool" where
  "slice_ok indx off s \<longleftrightarrow> S_Len s \<noteq> 0 \<and> unat off + unat (S_Len s) \<le> CS \<and> unat indx * CS + unat off + unat (S_Len s) < file_limit"

lemma write_serves_but:
  assumes v: "idle w v" "sound rd v" "framed v w1" and ok: "sound rd w" "ids_ok w" and i: "given w (S_Id s)" and len: "slice_ok indx off s"
    and run: "doWrite_tx m inode indx off s mtime (v, x1) = Some (None, w1, x)"
  shows "serves_but rd inode indx (change inode (write_bytes (rd (objects w)) indx off s)) w w1"
proof -
  let ?B = "rd (objects v)" and ?s = "slice_of off s"
  have B: "files_ok ?B v" "?B = rd (objects w)" using v(2) idle_files(4) [OF v(1)] by (simp_all add: sound_def)
  have id: "sl_id ?s = S_Id s" by (simp add: slice_of_def)
  have f: "fresh v (sl_id ?s)" unfolding id by (rule given_fresh [OF idle_ids(2) [OF v(1) i]])
  then have new: "?s \<notin> set (slices_at v inode indx)" unfolding fresh_def in_use_def by blast
  from doWrite_tx_effect [OF B(1) run] len new have up: "updates ?B inode (write_bytes ?B indx off s) v w1"
    and sl: "\<And>k. slices_at w1 inode k = (if k = indx then slices_at v inode indx @ [?s] else slices_at v inode k)"
    by (simp_all add: slice_ok_def write_bytes_def)
  have sl2: "slices_at w1 j k = (if j = inode \<and> k = indx then slices_at v inode indx @ [?s] else slices_at v j k)" for j k
    using up sl by (cases "j = inode") (auto simp: updates_def)
  have r: "refs_ok v" using v(2) by (simp add: sound_def)
  note refs = append_refs [OF r f doWrite_tx_refs [OF B(1) run] sl2]
  show ?thesis
    by (rule commit_serves_but [OF v(1) ok _ v(3) refs]) (use up B(2) i id sl in \<open>auto simp: drops_def\<close>)
qed

lemma txn_room:
  assumes "file_txn m os f (w, x) = Some (st, w', x')" and "alone os" and "id_room w"
    and frame: "\<And>w x e w' x'. f (w, x) = Some (e, w', x') \<Longrightarrow> e \<noteq> Some (Eno E0) \<and> framed w w'"
  shows "id_room w'"
proof -
  obtain w1 x1 where "idle w w1" "if st = E0 then f (w1, x1) = Some (None, w', x') else w' = w1"
    using alone_run [OF assms(1,2)] frame framed_idle by blast
  then show ?thesis using assms(3) frame [of w1 x1 None w' x'] by (auto simp: idle_def framed_def id_room_def split: if_split_asm)
qed

lemma Write_serves:
  assumes laws: "store_laws rd cb" and ok: "sound rd w" "ids_ok w" and i: "given w (S_Id s)" and len: "slice_ok indx off s"
    and env: "alone os" "alone (shd oss)" and room: "id_room w"
    and run: "Write m cb canceled os oss inode indx off s mtime w = Some (st, w')"
  shows "serves rd (if st = E0 then change inode (write_bytes (rd (objects w)) indx off s) else id) w w'"
proof -
  let ?F = "if st = E0 then change inode (write_bytes (rd (objects w)) indx off s) else id"
  define more where "more x w = (if (fo_num x mod 100 = 99 \<or> fo_num x > 350) \<and> fo_num x \<ge> maxSlices
         then base_compactChunk m cb oss canceled True False inode indx w else Some w)" for x :: file_out and w
  obtain w1 x w3 where t: "file_txn m os (doWrite_tx m inode indx off s mtime) (w, zero_out zero_Attr) = Some (st, w1, x)"
    and w3: "(if st = E0 then Option.bind (updateParentStat m inode (Parent (fo_attr x)) (ds_length (fo_delta x)) (ds_space (fo_delta x)) w1) (more x)
       else Some w1) = Some w3" and w': "w' = invalidate inode indx w3"
    using run unfolding Write_def doWrite_def Option.bind_eq_Some_conv more_def by fastforce
  have s1: "serves_but rd inode indx ?F w w1"
  proof (rule txn_serves [OF t env(1) ok doWrite_tx_frame], assumption)
    fix v x1 assume v: "idle w v" "sound rd v" "framed v w1" "doWrite_tx m inode indx off s mtime (v, x1) = Some (None, w1, x)"
    show "serves_but rd inode indx (change inode (write_bytes (rd (objects w)) indx off s)) w w1"
      by (rule write_serves_but [OF v(1-3) ok i len v(4)])
  qed
  have room1: "id_room w1" by (rule txn_room [OF t env(1) room doWrite_tx_frame])
  have ok1: "sound rd w1" "ids_ok w1" using s1 by (simp_all add: serves_but_def)
  have "serves rd id w1 w3"
  proof (cases "st = E0")
    case True
    with w3 obtain w2 where u: "updateParentStat m inode (Parent (fo_attr x)) (ds_length (fo_delta x)) (ds_space (fo_delta x)) w1 = Some w2"
      and c: "more x w2 = Some w3" by (auto simp: Option.bind_eq_Some_conv)
    have q: "quiet_step w1 w2" by (rule quiet_updateParentStat [OF u])
    have s2: "serves rd id w1 w2" by (rule serves_quiet [OF q ok1])
    then have ok2: "sound rd w2" "ids_ok w2" by (simp_all add: serves_def)
    have "id_room w2" using room1 q by (simp add: quiet_step_def id_room_def)
    from compactChunk_serves [OF laws ok2 this env(2)] c serves_refl [OF ok2] have "serves rd id w2 w3"
      by (auto simp: more_def split: if_split_asm)
    with s2 show ?thesis by (rule serves_then)
  qed (use w3 serves_refl [OF ok1] in simp)
  from serves_but_invalidate [OF serves_but_then [OF s1 this]] show ?thesis unfolding w' .
qed

section \<open>Reading\<close>

text \<open>A cached chunk reads as the slices of the engine do.\<close>

definition cache_right :: "'o file_world \<Rightarrow> bool" where
  "cache_right w \<longleftrightarrow> chunks.coherent (\<lambda>j k cs. \<forall>q. chunk_at cs q = latest (slices_at w j k) q) (fw_of w)"

definition healthy :: "('o \<Rightarrow> blocks) \<Rightarrow> 'o file_world \<Rightarrow> bool" where
  "healthy rd w \<longleftrightarrow> sound rd w \<and> ids_ok w \<and> cache_right w"

lemma serves_healthy: "serves rd F w w' \<Longrightarrow> healthy rd w \<Longrightarrow> healthy rd w' \<and> files rd w' = F (files rd w)"
  by (auto simp: serves_def healthy_def cache_right_def chunks.coherent_def cache_kept_def)

text \<open>The bytes that a client gets when it reads a chunk through the slices \<open>cs\<close>.\<close>

definition chunk_bytes :: "blocks \<Rightarrow> Slice list \<Rightarrow> nat \<Rightarrow> 8 word" where
  "chunk_bytes B cs q = byte B (chunk_at cs q)"

lemma chunk_bytes_right:
  assumes "\<And>q. chunk_at cs q = latest (slices_at w inode indx) q" and "q < CS"
  shows "chunk_bytes B cs q = bytes B w inode (unat indx * CS + q)"
proof -
  have b: "unat indx * CS + q < file_limit" using unat_indx_bound [of indx] assms(2) by simp
  have k: "(unat indx * CS + q) div CS = unat indx" "(unat indx * CS + q) mod CS = q" using assms(2) by simp_all
  show ?thesis using b k assms(1) by (simp add: chunk_bytes_def bytes_def file_at_def)
qed

lemma chunks_writable: "sound rd w \<Longrightarrow> list_all writable (slices_at w inode indx)"
  using chunks_okD [of w inode indx] files_okD(1) [of _ w] by (auto simp: sound_def chunk_is_def list_all_iff intro: fits_writable)

lemma read_slices_right:
  assumes ok: "healthy rd w" and real: "shd (reads (fw_acl w)) \<noteq> Some (Eno E0)" and run: "read_slices inode indx w = Some (st, cs, w')"
  shows "healthy rd w'" and "files rd w' = files rd w" and "objects w' = objects w"
    and "st = E0 \<Longrightarrow> chunk_at cs q = latest (slices_at w inode indx) q"
proof -
  let ?S = "slices_at w inode indx"
  have s: "sound rd w" "cache_right w" using ok by (simp_all add: healthy_def)
  note good = buildSlice_content(1) [OF chunks_writable [OF s(1), of inode indx]]
  have main: "healthy rd w' \<and> files rd w' = files rd w \<and> objects w' = objects w \<and> (st = E0 \<longrightarrow> (\<forall>q. chunk_at cs q = latest ?S q))"
  proof (cases "ReadChunk inode indx (fw_of w)")
    case (Some ds)
    then show ?thesis using run ok s(2) by (auto simp: read_slices_def cache_right_def chunks.coherent_def)
  next
    case None
    then obtain r w1 where r: "doRead inode indx w = Some (r, w1)"
      and rest: "(case r of Inl st \<Rightarrow> Some (st, [], w1) | Inr None \<Rightarrow> Some (EIO, [], w1)
        | Inr (Some ss) \<Rightarrow> if ss = [] then map_option (\<lambda>(st, attr, w). (if st \<noteq> E0 then st else if Typ attr \<noteq> TypeFile then EPERM else E0, [], w))
            (doGetAttr inode zero_Attr w1)
          else Some (E0, buildSlice ss, w1\<lparr>fw_of := CacheChunk inode indx (buildSlice ss) (fw_of w1)\<rparr>)) = Some (st, cs, w')"
      using run unfolding read_slices_def Let_def by (auto simp: Option.bind_eq_Some_conv)
    have q: "quiet_step w w1" by (rule doRead_effect(3) [OF r])
    have h1: "healthy rd w1" "files rd w1 = files rd w" using serves_healthy [OF serves_quiet [OF q] ok] ok by (simp_all add: healthy_def)
    have o1: "objects w1 = objects w" "slices_at w1 = slices_at w" using q quiet_files(3) [OF q] by (simp_all add: quiet_step_def same_engine_def)
    have st: "r = Inl e \<Longrightarrow> e \<noteq> E0" for e
      using r real by (auto simp: doRead_def point_read_def errno_E0 split: option.split_asm)
    consider (fail) "w' = w1" "st \<noteq> E0" | (empty) "r = Inr (Some [])" "cs = []" "quiet_step w1 w'"
      | (found) ss where "r = Inr (Some ss)" "cs = buildSlice ss" "w' = w1\<lparr>fw_of := CacheChunk inode indx cs (fw_of w1)\<rparr>"
      using rest st by (cases r) (auto dest: quiet_doGetAttr split: option.split_asm if_split_asm)
    then show ?thesis
    proof cases
      case empty
      have "?S = []" using doRead_effect(2) [OF r s(1) empty(1)] by simp
      then show ?thesis using empty serves_healthy [OF serves_quiet [OF empty(3)] h1(1)] h1 o1
        by (simp add: healthy_def quiet_step_def same_engine_def)
    next
      case found
      have ss: "ss = ?S" by (rule doRead_effect(2) [OF r s(1) found(1)])
      have v: "files_ok B w' = files_ok B w1" "view B w' = view B w1" "slices_at w' = slices_at w1" for B by (rule engine_files; simp add: found(3))+
      have "refs_ok w'" using refs_ok_same [of w1 w'] refs_okD(2,3) [of w1] h1(1) by (simp add: found(3) ref_count_def healthy_def sound_def)
      then have "sound rd w'" "files rd w' = files rd w" using h1 v by (simp_all add: sound_def healthy_def files_def found(3))
      moreover have "ids_ok w'" by (rule ids_ok_same [of w1]) (use h1(1) v in \<open>auto simp: found(3) healthy_def known_def in_use_def\<close>)
      moreover have "cache_right w'"
        using chunks.coherent_store [of _ "fw_of w1" inode indx cs] h1(1) good o1(2) v(3)
        by (simp add: cache_right_def healthy_def found(2,3) ss)
      ultimately show ?thesis using good found o1 by (simp add: healthy_def ss)
    qed (use h1 o1 in auto)
  qed
  then show "healthy rd w'" "files rd w' = files rd w" "objects w' = objects w" by simp_all
  show "st = E0 \<Longrightarrow> chunk_at cs q = latest ?S q" using main by simp
qed

text \<open>Updating the access time changes no byte. The attributes may be read over those of the cache, whose ids of ACLs then stay.\<close>

definition ids_add_up :: "64 word \<Rightarrow> 'o file_world \<Rightarrow> bool" where
  "ids_add_up inode w \<longleftrightarrow> (\<forall>f. find_file inode (fw_of w) = Some f \<longrightarrow> acl_ids_ok (of_attr f))"

lemma over_attr_ok: "attr_ok b \<Longrightarrow> acl_ids_ok a \<Longrightarrow> attr_ok ((over_attr a b)\<lparr>Atime := t, Atimensec := n, KeepCache := False\<rparr>)"
  by (auto simp: attr_ok_def acl_ids_ok_def over_attr_def)

lemma touch_stores:
  assumes "stored w inode b" and "doTouchAtime_tx m inode now (w, attr, u) = Some (None, w', x')"
  shows "w' = w \<or> set_attr inode ((over_attr attr b)\<lparr>Atime := fst now, Atimensec := snd now, KeepCache := False\<rparr>) w = Some w'"
proof -
  have b: "attr_ok b" using assms(1) by (simp add: stored_def)
  have "inode_vals (fw_acl w) inode = Some (attr_bytes b @ acl_bytes b @ [0])"
    using assms(1) b Attr_Marshal_bytes [of b] by (simp add: stored_def attr_ok_def)
  then have "w' = w \<or> set_attr inode ((over_attr attr b)\<lparr>Atime := fst now, Atimensec := snd now\<rparr>) w = Some w'"
    using assms(2) Attr_Unmarshal_over [OF b, of attr] by (auto simp: doTouchAtime_tx_def Let_def split: if_split_asm)
  then show ?thesis
    using Attr_Marshal_KeepCache [where a = "(over_attr attr b)\<lparr>Atime := fst now, Atimensec := snd now\<rparr>" and k = False] by (simp add: set_attr_def store_attr_def)
qed

lemma touch_effect:
  assumes ok: "files_ok B w" and ids: "acl_ids_ok attr" and run: "doTouchAtime_tx m inode now (w, attr, u) = Some (None, w', x')"
  shows "files_ok B w' \<and> view B w' = view B w \<and> chunk_vals w' = chunk_vals w \<and> slice_refs w' = slice_refs w"
proof -
  obtain v where v: "inode_vals (fw_acl w) inode = Some v" using run by (auto simp: doTouchAtime_tx_def split: option.splits)
  obtain b where b: "stored w inode b" "tail_ok B w inode b" using files_okD(2) [OF ok v] by blast
  let ?c = "(over_attr attr b)\<lparr>Atime := fst now, Atimensec := snd now, KeepCache := False\<rparr>"
  have cok: "attr_ok ?c" by (rule over_attr_ok) (use b(1) ids in \<open>simp_all add: stored_def\<close>)
  from touch_stores [OF b(1) run] show ?thesis
  proof
    assume s: "set_attr inode ?c w = Some w'"
    obtain w2 where set2: "set_attr inode ?c w = Some w2" "chunk_vals w2 = chunk_vals w" "slice_refs w2 = slice_refs w" "objects w2 = objects w" "fw_of w2 = fw_of w"
      "inode_vals (fw_acl w2) = (inode_vals (fw_acl w))(inode := Attr_Marshal ?c)"
      by (rule set_attr_stores [OF cok, of inode w])
    have [simp]: "w2 = w'" using s set2(1) by simp
    have sl: "slices_at w' = slices_at w" by (rule slices_at_cong) (use set2 in simp)
    have "updates B inode id w w'"
    proof (rule finish_update [OF ok b(1) quiet_refl])
      show "chunks_ok w'" using files_okD(1) [OF ok] file_at_cong(2) [of w' w] set2 by simp
      show "tail_ok B w' inode ?c" using b(2) grown_file_slices [of w' inode w] sl by (simp add: tail_ok_def over_attr_def)
      show "(unat (Length ?c), bytes B w' inode) = id (unat (Length b), bytes B w inode)"
        using bytes_slices [of w' inode w] sl by (simp add: over_attr_def)
    qed (use set2 cok sl in \<open>simp_all add: chunks.shrinks_refl\<close>)
    then show ?thesis using set2 by (simp add: updates_def option.map_id fun_upd_idem)
  qed (use ok in simp)
qed

text \<open>The attributes that a try has read stay when it is repeated.\<close>

lemma touch_run:
  assumes run: "file_txn m os (doTouchAtime_tx m inode now) (w, a, False) = Some (st, w', x')" and env: "alone os"
    and ok: "files_ok B w" and ids: "acl_ids_ok a"
  shows "\<exists>w1 a1 u. idle w w1 \<and> acl_ids_ok a1 \<and> (if st = E0 then doTouchAtime_tx m inode now (w1, a1, u) = Some (None, w', x') else w' = w1)"
proof -
  let ?Q = "\<lambda>s s'. idle (fst s) (fst s') \<and> (files_ok B (fst s) \<longrightarrow> acl_ids_ok (fst (snd s)) \<longrightarrow> acl_ids_ok (fst (snd s')))"
  have keep: "idle v v' \<Longrightarrow> files_ok B v' = files_ok B v" for v v' using same_engine_files(1) [of v v'] by (simp add: idle_def calm_def)
  have Q: "reflp ?Q" "transp ?Q" using keep by (auto simp: reflp_def transp_def intro: idle_trans)
  have env: "try_ok ?Q t" if "t \<in> sset os" for t using env that by (auto simp: alone_def try_ok_def split: engine_try.split)
  have fr: "e \<noteq> Some (Eno E0) \<and> ?Q (v, x) (drop_writes v v', x')" if r: "doTouchAtime_tx m inode now (v, x) = Some (e, v', x')" for v x e v' x'
  proof -
    obtain b u where x: "x = (b, u)" by fastforce
    have "acl_ids_ok (fst x')" if ok: "files_ok B v" "acl_ids_ok b"
    proof (cases "inode_vals (fw_acl v) inode")
      case (Some val)
      obtain c where c: "stored v inode c" using files_okD(2) [OF ok(1) Some] by blast
      then have cok: "attr_ok c" "val = attr_bytes c @ acl_bytes c @ [0]" using Some Attr_Marshal_bytes [of c] by (simp_all add: stored_def attr_ok_def)
      have "acl_ids_ok (over_attr b c)" using cok(1) ok(2) by (auto simp: over_attr_def attr_ok_def acl_ids_ok_def)
      with r Some Attr_Unmarshal_over [OF cok(1), of b] show ?thesis
        by (auto simp: x doTouchAtime_tx_def Let_def cok(2) acl_ids_ok_def split: if_split_asm)
    qed (use r ok in \<open>auto simp: x doTouchAtime_tx_def\<close>)
    with doTouchAtime_tx_frame [of m inode now v b u e v' x'] r framed_idle x show ?thesis by auto
  qed
  obtain w1 x1 where "?Q (w, a, False) (w1, x1)" "if st = E0 then doTouchAtime_tx m inode now (w1, x1) = Some (None, w', x') else w' = w1"
    using file_txn_run [OF run env Q fr] by blast
  moreover obtain a1 u where "x1 = (a1, u)" by fastforce
  ultimately show ?thesis using ok ids by (intro exI [of _ w1] exI [of _ a1] exI [of _ u]) auto
qed

lemma touchAtime_serves:
  assumes ok: "sound rd w" "ids_ok w" and env: "alone os" and ids: "acl_ids_ok (case attr of Some a \<Rightarrow> a | None \<Rightarrow> zero_Attr)" "ids_add_up inode w"
    and run: "touchAtime m os inode attr w = Some w'"
  shows "serves rd id w w'"
proof -
  obtain a now w0 where a: "a = (case attr of Some a \<Rightarrow> a | None \<Rightarrow> (case find_file inode (fw_of w) of Some f \<Rightarrow> of_attr f | None \<Rightarrow> zero_Attr))"
    and c: "clock_now w = (now, w0)" by fastforce
  have ia: "acl_ids_ok a" using ids by (auto simp: a ids_add_up_def acl_ids_ok_def zero_Attr_def split: option.split)
  have q0: "quiet_step w w0" using quiet_clock [of w] c by simp
  note s0 = serves_quiet [OF q0 ok]
  have ok0: "sound rd w0" "ids_ok w0" using s0 by (simp_all add: serves_def)
  have "w' = w \<or> w' = w0 \<or> map_option (\<lambda>(st, w, attr, updated). if updated then snd (update_open inode attr w) else w)
      (file_txn m os (doTouchAtime_tx m inode now) (w0, a, False)) = Some w'"
    using run unfolding touchAtime_def a [symmetric] Let_def c prod.case by (auto simp del: map_option_eq_Some split: if_split_asm)
  then consider "w' = w" | "w' = w0" | st w1 b u where "file_txn m os (doTouchAtime_tx m inode now) (w0, a, False) = Some (st, w1, b, u)"
      "w' = (if u then snd (update_open inode b w1) else w1)" by fastforce
  then show ?thesis
  proof cases
    case (3 st w1 b u)
    have B: "files_ok (rd (objects w0)) w0" using ok0(1) by (simp add: sound_def)
    obtain v a1 u1 where v: "idle w0 v" "acl_ids_ok a1" and r: "if st = E0 then doTouchAtime_tx m inode now (v, a1, u1) = Some (None, w1, b, u) else w1 = v"
      using touch_run [OF 3(1) env B ia] by blast
    have sv: "serves rd id w0 v" by (rule serves_idle [OF v(1) ok0])
    then have okv: "sound rd v" "ids_ok v" by (simp_all add: serves_def)
    have s1: "serves rd id v w1"
    proof (cases "st = E0")
      case True
      with r have t: "doTouchAtime_tx m inode now (v, a1, u1) = Some (None, w1, b, u)" by simp
      have e: "files_ok (rd (objects v)) w1 \<and> view (rd (objects v)) w1 = view (rd (objects v)) v \<and> chunk_vals w1 = chunk_vals v \<and> slice_refs w1 = slice_refs v"
        by (rule touch_effect [OF _ v(2) t]) (use okv in \<open>simp add: sound_def\<close>)
      have f: "framed v w1" using doTouchAtime_tx_frame [OF t] by simp
      have sl: "slices_at w1 = slices_at v" by (rule slices_at_cong) (use e in simp)
      have "refs_ok w1" using refs_ok_same [of v w1] refs_okD(2,3) [of v] ref_count_refs [of w1 v] e okv by (auto simp: sound_def)
      then have "sound rd w1" "files rd w1 = files rd v" using e f by (simp_all add: sound_def files_def framed_def)
      moreover have "ids_ok w1" by (rule ids_ok_same [OF okv(2)]) (use e f sl in \<open>auto simp: framed_def known_def in_use_def\<close>)
      ultimately show ?thesis using cache_kept_shrinks [of v w1] f sl by (simp add: serves_def framed_def)
    qed (use r serves_refl [OF okv] in simp)
    then have ok1: "sound rd w1" "ids_ok w1" by (simp_all add: serves_def)
    have "serves rd id w1 w'" by (rule serves_quiet [OF _ ok1]) (use 3(2) quiet_update_open in auto)
    then show ?thesis using serves_then [OF serves_then [OF serves_then [OF s0 sv] s1]] by blast
  qed (use s0 serves_refl [OF ok] in simp_all)
qed

lemma doGetAttr_cache: "doGetAttr inode a w = Some (st, b, w') \<Longrightarrow> fw_of w' = fw_of w"
  by (auto simp: doGetAttr_def point_read_def split: option.split_asm)

lemma CacheChunk_attr: "find_file i (CacheChunk j k cs o1) = Some f \<Longrightarrow> \<exists>g. find_file i o1 = Some g \<and> of_attr f = of_attr g"
  by (cases "find_file j o1") (auto simp: CacheChunk_def split: if_split_asm)

lemma read_slices_cache:
  assumes "read_slices inode indx w = Some (st, cs, w')"
  shows "fw_of w' = fw_of w \<or> fw_of w' = CacheChunk inode indx cs (fw_of w)"
proof (cases "ReadChunk inode indx (fw_of w)")
  case None
  then obtain r w1 where r: "doRead inode indx w = Some (r, w1)" using assms by (auto simp: read_slices_def Option.bind_eq_Some_conv)
  have f: "fw_of w1 = fw_of w" using doRead_effect(1) [OF r] by (simp add: keeps_def)
  show ?thesis
  proof (cases "\<exists>ss. r = Inr (Some ss)")
    case True
    then show ?thesis using assms None r f by (auto simp: read_slices_def Let_def dest!: doGetAttr_cache split: if_split_asm)
  next
    case False
    then show ?thesis using assms None r f by (auto simp: read_slices_def split: sum.split_asm option.split_asm)
  qed
qed (use assms in \<open>simp add: read_slices_def\<close>)

text \<open>A read that succeeds returns slices whose bytes are those of the file.\<close>

lemma Read_right:
  assumes ok: "healthy rd w" and real: "shd (reads (fw_acl w)) \<noteq> Some (Eno E0)" and env: "alone os" and ids: "ids_add_up inode w"
    and run: "Read m os inode indx w = Some (st, cs, w')"
  shows "healthy rd w'" and "files rd w' = files rd w"
    and "st = E0 \<Longrightarrow> q < CS \<Longrightarrow> chunk_bytes (rd (objects w)) cs q = bytes (rd (objects w)) w inode (unat indx * CS + q)"
proof -
  obtain w1 where rs: "read_slices inode indx w = Some (st, cs, w1)"
    and t: "(if st = E0 then touchAtime m os inode None w1 else Some w1) = Some w'"
    using run by (auto simp: Read_def Option.bind_eq_Some_conv)
  note r = read_slices_right [OF ok real rs]
  have ok1: "sound rd w1" "ids_ok w1" using r(1) by (simp_all add: healthy_def)
  have ids1: "ids_add_up inode w1"
    using ids read_slices_cache [OF rs] by (auto simp: ids_add_up_def dest!: CacheChunk_attr)
  have "serves rd id w1 w'"
    using t touchAtime_serves [OF ok1 env _ ids1, of None m w'] serves_refl [OF ok1] by (auto simp: acl_ids_ok_def zero_Attr_def split: if_split_asm)
  from serves_healthy [OF this r(1)] r(2) show "healthy rd w'" "files rd w' = files rd w" by simp_all
  show "chunk_bytes (rd (objects w)) cs q = bytes (rd (objects w)) w inode (unat indx * CS + q)" if "st = E0" "q < CS"
    by (rule chunk_bytes_right [OF r(4) [OF that(1)] that(2)])
qed

section \<open>Copying\<close>

text \<open>The slices that a copy adds come from \<open>S\<close>; there are at most \<open>d\<close> for each object, and its counter grows with them.\<close>

definition readable :: "'o file_world \<Rightarrow> bool" where
  "readable w \<longleftrightarrow> (\<forall>i k. chunk_val i k w = concat (map slice_bytes (slices_at w i k)))"

definition countable_refs :: "nat \<Rightarrow> 'o file_world \<Rightarrow> bool" where
  "countable_refs d w \<longleftrightarrow> readable w \<and> finite (data_chunks w) \<and>
     (\<forall>i n. i \<noteq> 0 \<longrightarrow> - 1 \<le> ref_count i n w \<and> ref_count i n w + int d < 2 ^ 63)"

definition shares :: "slice set \<Rightarrow> nat \<Rightarrow> 'o file_world \<Rightarrow> 'o file_world \<Rightarrow> bool" where
  "shares S d w w' \<longleftrightarrow> (countable_refs d w \<longrightarrow> readable w' \<and> finite (data_chunks w') \<and>
     (\<forall>i n. i \<noteq> 0 \<longrightarrow> (\<exists>c \<le> d. uses w' i n = uses w i n + c \<and> ref_count i n w' = ref_count i n w + int c)) \<and>
     (\<forall>s. in_use w' s \<longrightarrow> in_use w s \<or> comes_from S (sl_id s) (sl_size s)) \<and>
     (\<forall>i n. slice_refs w' (i, n) \<noteq> None \<longrightarrow> slice_refs w (i, n) \<noteq> None \<or> comes_from S i n))"

lemma shares_refl: "shares S d w w"
  by (auto simp: shares_def countable_refs_def)

lemma countable_less:
  assumes "countable_refs (a + b) w"
  shows "countable_refs a w"
proof -
  have "r + int a < 2 ^ 63" if "r + int (a + b) < 2 ^ 63" for r using that by linarith
  with assms show ?thesis unfolding countable_refs_def by blast
qed

lemma ref_incr: "ref_count j m (incr_ref i n d w) = (if (j, m) = (i, n) then int64_of (ref_count i n w + d) else ref_count j m w)"
  by (simp add: ref_count_def incr_ref_def)

lemma shares_next:
  assumes "shares S a w w1" and "countable_refs (a + b) w"
  shows "countable_refs b w1"
proof -
  have a: "countable_refs a w" by (rule countable_less [OF assms(2)])
  have "- 1 \<le> ref_count i n w1 \<and> ref_count i n w1 + int b < 2 ^ 63" if i: "i \<noteq> 0" for i n
  proof -
    obtain c where "c \<le> a" "ref_count i n w1 = ref_count i n w + int c" using assms(1) a i unfolding shares_def by blast
    moreover have "- 1 \<le> ref_count i n w" "ref_count i n w + int (a + b) < 2 ^ 63" using assms(2) i by (simp_all add: countable_refs_def)
    ultimately show ?thesis by simp
  qed
  with assms(1) a show ?thesis by (simp add: shares_def countable_refs_def)
qed

lemma shares_trans:
  assumes "shares S a w w1" and "shares S b w1 w2"
  shows "shares S (a + b) w w2"
  unfolding shares_def
proof (rule impI)
  assume c: "countable_refs (a + b) w"
  have a: "countable_refs a w" by (rule countable_less [OF c])
  note one = assms(1) [unfolded shares_def, rule_format, OF a] and two = assms(2) [unfolded shares_def, rule_format, OF shares_next [OF assms(1) c]]
  have "\<exists>c \<le> a + b. uses w2 i n = uses w i n + c \<and> ref_count i n w2 = ref_count i n w + int c" if i: "i \<noteq> 0" for i n
  proof -
    obtain c1 where "c1 \<le> a" "uses w1 i n = uses w i n + c1" "ref_count i n w1 = ref_count i n w + int c1" using one i by blast
    moreover obtain c2 where "c2 \<le> b" "uses w2 i n = uses w1 i n + c2" "ref_count i n w2 = ref_count i n w1 + int c2" using two i by blast
    ultimately show ?thesis by (intro exI [of _ "c1 + c2"]) simp
  qed
  moreover have "in_use w s \<or> comes_from S (sl_id s) (sl_size s)" if "in_use w2 s" for s
  proof -
    have "in_use w1 s \<or> comes_from S (sl_id s) (sl_size s)" using two that by simp
    then show ?thesis using one by auto
  qed
  moreover have "slice_refs w (i, n) \<noteq> None \<or> comes_from S i n" if "slice_refs w2 (i, n) \<noteq> None" for i n
  proof -
    have "slice_refs w1 (i, n) \<noteq> None \<or> comes_from S i n" using two that by (simp only: simp_thms)
    then show ?thesis using one by (metis (no_types))
  qed
  moreover have "readable w2" "finite (data_chunks w2)" using two by simp_all
  ultimately show "readable w2 \<and> finite (data_chunks w2) \<and>
     (\<forall>i n. i \<noteq> 0 \<longrightarrow> (\<exists>c \<le> a + b. uses w2 i n = uses w i n + c \<and> ref_count i n w2 = ref_count i n w + int c)) \<and>
     (\<forall>s. in_use w2 s \<longrightarrow> in_use w s \<or> comes_from S (sl_id s) (sl_size s)) \<and>
     (\<forall>i n. slice_refs w2 (i, n) \<noteq> None \<longrightarrow> slice_refs w (i, n) \<noteq> None \<or> comes_from S i n)" by blast
qed

lemma shares_more:
  assumes "shares S a w w'" and "a \<le> b"
  shows "shares S b w w'"
  using shares_trans [OF assms(1) shares_refl, of "b - a"] assms(2) by simp

lemma share_slice_shares:
  assumes S: "comes_from S (sl_id s) (sl_size s)" and run: "share_slice fout indx s w = Some w'"
  shows "shares S 1 w w'"
  unfolding shares_def
proof (rule impI)
  assume c: "countable_refs 1 w"
  define w1 where "w1 = set_chunk fout indx (chunk_val fout indx w @ slice_bytes s) w"
  have w': "w' = (if sl_id s > 0 then incr_ref (sl_id s) (sl_size s) 1 w1 else w1)" using run by (auto simp: share_slice_def append_chunk_eq w1_def)
  have cv: "chunk_vals w' = chunk_vals w1" by (simp add: w' chunk_vals_refs)
  let ?new = "\<lambda>i k. if i = fout \<and> k = indx then slices_at w fout indx @ [s] else slices_at w i k"
  have val: "chunk_val i k w' = concat (map slice_bytes (?new i k))" for i k
    using c cv by (auto simp: chunk_val_def w1_def set_chunk_def countable_refs_def readable_def split: option.split)
  have sl: "slices_at w' i k = ?new i k" for i k unfolding slices_at_def val readSliceBuf_concat by simp
  have rd: "readable w'" unfolding readable_def using val sl by simp
  have fin0: "finite (data_chunks w)" using c by (simp add: countable_refs_def)
  have other: "slices_at w' i k = slices_at w i k" if "\<not> (i = fout \<and> k = indx)" for i k using sl [of i k] that by (simp only: if_False)
  have fin: "finite (data_chunks w')" by (rule uses_change(1) [OF fin0 _ other, where i = 1]) simp
  have count: "\<exists>c \<le> 1. uses w' i n = uses w i n + c \<and> ref_count i n w' = ref_count i n w + int c" if i: "i \<noteq> 0" for i n
  proof -
    let ?c = "if sl_id s = i \<and> sl_size s = n then 1 else 0 :: nat"
    have u: "uses w' i n = uses w i n + ?c"
      using uses_change(2) [OF fin0 i, of fout indx w' n, OF other] sl [of fout indx] by simp
    have r1: "ref_count j m w1 = ref_count j m w" for j m by (simp add: ref_count_def w1_def set_chunk_def)
    have b: "- 1 \<le> ref_count i n w" "ref_count i n w + 1 < 2 ^ 63" using c i by (auto simp: countable_refs_def)
    have "int64_of (ref_count i n w + 1) = ref_count i n w + 1" using b by (simp add: is_int64_def)
    then have "ref_count i n w' = ref_count i n w + int ?c"
      using i by (auto simp: w' ref_incr r1 word_neq_0_conv)
    with u show ?thesis by (intro exI [of _ ?c]) simp
  qed
  have "slice_refs w (i, n) \<noteq> None \<or> comes_from S i n" if "slice_refs w' (i, n) \<noteq> None" for i n
    using that S by (auto simp: w' incr_ref_def w1_def set_chunk_def split: if_split_asm)
  moreover have "in_use w t \<or> comes_from S (sl_id t) (sl_size t)" if "in_use w' t" for t
    using that S sl by (auto simp: in_use_def split: if_split_asm)
  ultimately show "readable w' \<and> finite (data_chunks w') \<and>
     (\<forall>i n. i \<noteq> 0 \<longrightarrow> (\<exists>c \<le> 1. uses w' i n = uses w i n + c \<and> ref_count i n w' = ref_count i n w + int c)) \<and>
     (\<forall>s. in_use w' s \<longrightarrow> in_use w s \<or> comes_from S (sl_id s) (sl_size s)) \<and>
     (\<forall>i n. slice_refs w' (i, n) \<noteq> None \<longrightarrow> slice_refs w (i, n) \<noteq> None \<or> comes_from S i n)"
    using rd fin count by blast
qed

lemma clip_ids: "S_Id (fst (clip offIn n pos s)) = S_Id s" "S_Size (fst (clip offIn n pos s)) = S_Size s"
  by (auto simp: clip_def Let_def)

lemma copy_piece_shares:
  assumes "comes_from S (S_Id s) (S_Size s)" and "copy_piece offIn n fout offOut s pos w = Some w'"
  shows "shares S 2 w w'"
proof (cases "pos < offIn + n \<and> pos + ucast (S_Len s) > offIn")
  case True
  obtain t p where t: "clip offIn n pos s = (t, p)" by fastforce
  have S: "comes_from S (S_Id t) (S_Size t)" using clip_ids [of offIn n pos s] assms(1) t by simp
  have st: "comes_from S (sl_id (slice_of q t')) (sl_size (slice_of q t'))" if "S_Id t' = S_Id t" "S_Size t' = S_Size t" for q t'
    using S that by (simp add: slice_of_def)
  consider k q where "share_slice fout k (slice_of q t) w = Some w'"
    | k q k' q' l l' l'' w1 where "share_slice fout k (slice_of q (t\<lparr>S_Len := l\<rparr>)) w = Some w1"
      "share_slice fout k' (slice_of q' (t\<lparr>S_Off := l', S_Len := l''\<rparr>)) w1 = Some w'"
    using assms(2) True t by (auto simp: copy_piece_def Let_def Option.bind_eq_Some_conv split: if_split_asm)
  then show ?thesis
  proof cases
    case 1
    from shares_more [OF share_slice_shares [OF st 1]] show ?thesis by simp
  next
    case 2
    from shares_trans [OF share_slice_shares [OF st 2(1)] share_slice_shares [OF st 2(2)]] show ?thesis by (simp add: numeral_2_eq_2)
  qed
qed (use assms(2) shares_refl in \<open>auto simp: copy_piece_def\<close>)

lemma copy_pieces_shares:
  assumes "\<And>s. s \<in> set cs \<Longrightarrow> comes_from S (S_Id s) (S_Size s)" and "copy_pieces offIn n fout offOut cs coff w = Some (coff', w')"
  shows "shares S (2 * length cs) w w'" and "coff' = coff + of_nat (total_len cs)"
proof -
  have "shares S (2 * length cs) w w' \<and> coff' = coff + of_nat (total_len cs)"
    using assms
  proof (induction cs arbitrary: coff w)
    case (Cons s cs)
    obtain w1 where p: "copy_piece offIn n fout offOut s coff w = Some w1" and r: "copy_pieces offIn n fout offOut cs (coff + ucast (S_Len s)) w1 = Some (coff', w')"
      using Cons.prems(2) by (auto simp: Option.bind_eq_Some_conv)
    from Cons.IH [OF _ r] Cons.prems(1) have sh: "shares S (2 * length cs) w1 w'" and c: "coff' = coff + ucast (S_Len s) + of_nat (total_len cs)" by auto
    have "shares S 2 w w1" by (rule copy_piece_shares [OF _ p]) (use Cons.prems(1) in simp)
    from shares_trans [OF this sh] c show ?case by (simp add: add.assoc)
  qed (auto simp: shares_refl)
  then show "shares S (2 * length cs) w w'" and "coff' = coff + of_nat (total_len cs)" by simp_all
qed

lemma length_pieces: "(\<And>s. s \<in> set cs \<Longrightarrow> S_Len s \<noteq> 0) \<Longrightarrow> length cs \<le> total_len cs"
proof (induction cs)
  case (Cons s cs)
  have "0 < unat (S_Len s)" using Cons.prems [of s] by (simp add: unat_gt_0)
  with Cons show ?case by simp
qed simp

lemma copy_loop_shares:
  assumes "unat offIn + unat n \<le> file_limit"
    and src: "\<And>k. unat offIn div CS \<le> unat k \<Longrightarrow> unat k * CS < unat offIn + unat n \<Longrightarrow> list_all fits (chunks k) \<and> set (chunks k) \<subseteq> S"
    and "unat coff = m * CS" and "unat offIn div CS \<le> m" and "copy_loop chunks offIn n fout offOut coff w = Some w'"
  shows "shares S (2 * (unat offIn + unat n + CS - unat coff)) w w'"
  using assms(3-5)
proof (induction "unat offIn + unat n - unat coff" arbitrary: coff m w rule: less_induct)
  case less
  have sum: "unat (offIn + n) = unat offIn + unat n" using assms(1) file_limit_64 by (simp add: unat_add_64)
  show ?case
  proof (cases "coff < offIn + n")
    case False
    then show ?thesis using less.prems(3) by (simp add: copy_loop.simps shares_refl)
  next
    case True
    then have lt: "m * CS < unat offIn + unat n" using sum less.prems(1) by (simp add: word_less_nat_alt)
    then have "m * CS < 2 ^ 32 * CS" using assms(1) unfolding file_limit_def by linarith
    then have m: "m < 2 ^ 32" using mult_less_cancel2 by blast
    then have end1: "m * CS + CS \<le> file_limit" using mult_le_mono1 [OF Suc_leI [OF m], of CS] by (simp add: file_limit_def)
    have lim: "unat coff < file_limit" using lt assms(1) less.prems(1) by simp
    define k where "k = (ucast (coff div ChunkSize) :: 32 word)"
    have k: "unat k = m" unfolding k_def using unat_chunk_indx [OF lim] less.prems(1) by simp
    have mod0: "coff mod ChunkSize = 0" using less.prems(1) unat_mod_Chunk [of coff] by (simp add: word_unat_eq_iff)
    define cs where "cs = buildSlice (hole 0 (ucast ChunkSize) # chunks k)"
    have fk: "list_all fits (chunks k)" "set (chunks k) \<subseteq> S" using src [of k] k less.prems(2) lt by simp_all
    note pc = chunk_pieces [OF fk(1), folded cs_def]
    have from_S: "comes_from S (S_Id s) (S_Size s)" if "s \<in> set cs" for s using pc(4) [OF that] fk(2) by (auto simp: comes_from_def)
    obtain coff' w1 where p: "copy_pieces offIn n fout offOut cs coff w = Some (coff', w1)" and r: "copy_loop chunks offIn n fout offOut coff' w1 = Some w'"
      using less.prems(3) True mod0 by (subst (asm) copy_loop.simps) (auto simp: k_def [symmetric] cs_def [symmetric] Option.bind_eq_Some_conv)
    have one: "shares S (2 * length cs) w w1" "coff' = coff + of_nat (total_len cs)" by (rule copy_pieces_shares [OF _ p], rule from_S, assumption)+
    have "unat coff + CS < 2 ^ 64" using end1 file_limit_64 less.prems(1) by linarith
    moreover have "unat (of_nat CS :: 64 word) = CS" by (simp add: CS_def)
    ultimately have c': "unat coff' = unat coff + CS" using one(2) pc(1) by (simp add: unat_add_64)
    have "length cs \<le> CS" using length_pieces [of cs] pc(1,3) by simp
    then have s1: "shares S (2 * CS) w w1" by (rule shares_more [OF one(1) mult_le_mono2])
    have "unat offIn + unat n - unat coff' < unat offIn + unat n - unat coff" using c' lt less.prems(1) CS_pos by linarith
    moreover have "unat coff' = (m + 1) * CS" using c' less.prems(1) by simp
    ultimately have s2: "shares S (2 * (unat offIn + unat n + CS - unat coff')) w1 w'"
      using less.hyps [of coff' "m + 1" w1] r less.prems(2) by simp
    have "2 * CS + 2 * (unat offIn + unat n + CS - unat coff') = 2 * (unat offIn + unat n + CS - unat coff)"
      using c' lt less.prems(1) by simp
    with shares_trans [OF s1 s2] show ?thesis by (simp only:)
  qed
qed

text \<open>The counters are far from the largest number.\<close>

definition ref_room :: "'o file_world \<Rightarrow> bool" where
  "ref_room w \<longleftrightarrow> (\<forall>i n. ref_count i n w < 2 ^ 62)"

lemma refs_countable:
  assumes "sound rd w" and "ref_room w" and "d \<le> 2 ^ 62"
  shows "countable_refs d w"
proof -
  have r: "refs_ok w" "chunks_ok w" using assms(1) files_okD(1) by (auto simp: sound_def)
  have "- 1 \<le> ref_count i n w \<and> ref_count i n w + int d < 2 ^ 63" if "i \<noteq> 0" for i n
  proof -
    have "ref_count i n w < 2 ^ 62" "int d \<le> 2 ^ 62" using assms(2,3) by (simp_all add: ref_room_def)
    then show ?thesis using refs_okD(2) [OF r(1) that, of n] by simp
  qed
  then show ?thesis using refs_okD(1) [OF r(1)] chunks_okD [OF r(2)] by (simp add: countable_refs_def readable_def chunk_is_def)
qed

lemma shares_refs:
  assumes sh: "shares S d w w'" and c: "countable_refs d w" and ok: "refs_ok w" and S: "\<And>s. s \<in> S \<Longrightarrow> in_use w s"
  shows "refs_ok w'" and "known w' j \<Longrightarrow> known w j"
proof -
  note e = sh [unfolded shares_def, rule_format, OF c]
  have use: "\<exists>t. in_use w t \<and> sl_id t = sl_id s \<and> sl_size t = sl_size s" if "in_use w' s" "sl_id s \<noteq> 0" for s
  proof -
    have "in_use w s \<or> comes_from S (sl_id s) (sl_size s)" using e that(1) by blast
    then show ?thesis using S that(2) by (auto simp: comes_from_def)
  qed
  have count: "int (uses w' i n) \<le> ref_count i n w' + 1 \<and> ref_count i n w' < 2 ^ 63" if i: "i \<noteq> 0" for i n
  proof -
    obtain k where "k \<le> d" "uses w' i n = uses w i n + k" "ref_count i n w' = ref_count i n w + int k" using e i by blast
    moreover have "ref_count i n w + int d < 2 ^ 63" using c i by (simp add: countable_refs_def)
    ultimately show ?thesis using refs_okD(2) [OF ok i, of n] by simp
  qed
  have one: "sl_size s = sl_size t" if "in_use w' s" "in_use w' t" "sl_id s = sl_id t" "sl_id s \<noteq> 0" for s t
    using use [OF that(1)] use [OF that(2)] refs_okD(4) [OF ok] that(3,4) by metis
  show "refs_ok w'" unfolding refs_ok_def using e count one by blast
  show "known w j" if "known w' j"
  proof -
    from that consider s where "in_use w' s" "sl_id s = j" | n where "slice_refs w' (j, n) \<noteq> None" by (auto simp: known_def)
    moreover have j: "j \<noteq> 0" using that by (simp add: known_def)
    ultimately show ?thesis
    proof cases
      case 1
      then show ?thesis using use [of s] j by (auto simp: known_def)
    next
      case 2
      then have "slice_refs w (j, n) \<noteq> None \<or> comes_from S j n" using e by blast
      then show ?thesis using S j by (auto simp: known_def comes_from_def)
    qed
  qed
qed

lemma CopyFileRange_tx_refs:
  assumes ok: "sound rd w" and room: "ref_room w" and run: "CopyFileRange_tx m fin offIn fout offOut size0 (w, out) = Some (None, w', out')"
    and size: "unat offIn + unat size0 < 2 ^ 64"
  shows "refs_ok w'" and "known w' j \<Longrightarrow> known w j"
proof -
  have F: "files_ok (rd (objects w)) w" and R: "refs_ok w" using ok by (simp_all add: sound_def)
  obtain sv v where v: "inode_vals (fw_acl w) fin = Some sv" "inode_vals (fw_acl w) fout = Some v"
    using run by (auto simp: CopyFileRange_tx_def Let_def split: option.splits)
  obtain sa where sa: "tail_ok (rd (objects w)) w fin sa" "Attr_Unmarshal sv zero_Attr = Some sa" using files_okD(2) [OF F v(1)] by blast
  obtain a where a: "Attr_Unmarshal v zero_Attr = Some a" using files_okD(2) [OF F v(2)] by blast
  define n where "n = (if offIn + size0 > Length sa then Length sa - offIn else size0)"
  note st = CopyFileRange_tx_steps [OF run v(1) sa(2) v(2) a, folded n_def]
  have "refs_ok w' \<and> (known w' j \<longrightarrow> known w j)" for j
  proof (cases "offIn \<ge> Length sa")
    case True
    then show ?thesis using st R by simp
  next
    case False
    obtain w1 w2 now chunks where w1: "quiet_step w w1"
      and rdc: "read_chunks fin (chunk_range (ucast (offIn div ChunkSize)) (ucast ((offIn + n) div ChunkSize))) w1 = Some (Some chunks)"
      and cl: "copy_loop chunks offIn n fout offOut (offIn div ChunkSize * ChunkSize) w1 = Some w2"
      and s: "set_attr fout (with_times now now (a\<lparr>Length := max (Length a) (offOut + n)\<rparr>)) w2 = Some w'"
      using st False by (simp only: if_False simp_thms) blast
    have ok1: "sound rd w1" using idle_files(1) [OF quiet_idle [OF w1] ok] .
    then have c1: "chunks_ok w1" "refs_ok w1" using files_okD(1) by (auto simp: sound_def)
    have "unat offIn + unat n \<le> unat (Length sa)"
      using False unat_add_64 [OF size] by (auto simp: n_def word_less_nat_alt word_le_nat_alt unat_sub)
    moreover have "unat (Length sa) < file_limit" using st sa(1) by (simp add: tail_ok_def)
    ultimately have lim: "unat offIn + unat n < file_limit" by simp
    define S where "S = {s. in_use w1 s}"
    have src: "list_all fits (chunks k) \<and> set (chunks k) \<subseteq> S" if k: "unat offIn div CS \<le> unat k" "unat k * CS < unat offIn + unat n" for k
      using read_range [OF c1(1) lim rdc k] chunks_okD [OF c1(1), of fin k] by (auto simp: chunk_is_def S_def in_use_def)
    have "unat offIn div CS * CS < 2 ^ 64" using lim file_limit_64 div_times_less_eq_dividend [of "unat offIn" CS] by linarith
    then have coff: "unat (offIn div ChunkSize * ChunkSize) = unat offIn div CS * CS"
      by (subst unat_mult_64) (simp_all add: unat_div_Chunk unat_ChunkSize)
    define d where "d = 2 * (unat offIn + unat n + CS - unat offIn div CS * CS)"
    have sh: "shares S d w1 w2" unfolding d_def
      using copy_loop_shares [OF less_imp_le [OF lim] src coff order_refl cl] unfolding coff by blast
    have "file_limit + CS \<le> 2 ^ 61" by (simp add: file_limit_def CS_def)
    then have "unat offIn + unat n + CS - unat offIn div CS * CS \<le> 2 ^ 61" using lim by linarith
    from mult_le_mono2 [OF this, of 2] have "d \<le> 2 ^ 62" unfolding d_def by simp
    moreover have "ref_room w1" using room w1 by (simp add: ref_room_def ref_count_def quiet_step_def same_engine_def)
    ultimately have cr: "countable_refs d w1" using refs_countable [OF ok1] by blast
    note e = shares_refs [OF sh cr c1(2)]
    have same: "chunk_vals w' = chunk_vals w2" "slice_refs w' = slice_refs w2" using s by (auto simp: set_attr_def)
    have r2: "refs_ok w2" using e(1) by (simp add: S_def)
    have "refs_ok w'" by (rule refs_ok_same [OF r2 same(1)]) (use refs_okD(2,3) [OF r2] ref_count_refs [OF same(2)] in simp)
    moreover have "known w' j = known w2 j" using slices_at_cong [OF same(1)] same(2) by (simp add: known_def in_use_def)
    ultimately show ?thesis using e(2) [of j] idle_known [OF quiet_idle [OF w1]] by (simp add: S_def)
  qed
  then show "refs_ok w'" "known w' j \<Longrightarrow> known w j" by blast+
qed

lemma CopyFileRange_serves:
  assumes ok: "sound rd w" "ids_ok w" and env: "alone os" and room: "ref_room w" and src: "files rd w fin = Some (len, f)"
    and size: "n \<noteq> 0" "unat offIn + unat n < 2 ^ 64" "unat offOut + min (unat n) (len - unat offIn) < file_limit"
    and run: "CopyFileRange m os fin offIn fout offOut n copied outLength w = Some (st, out, w')"
  shows "serves rd (if st = E0 then change fout (af_copy (len, f) (unat offIn) (unat offOut) (unat n)) else id) w w'"
proof -
  obtain w1 x w2 where t: "file_txn m os (CopyFileRange_tx m fin offIn fout offOut n)
       (w, \<lparr>co_newLength = 0, co_newSpace = 0, co_copied = copied, co_outLength = outLength, co_attr = zero_Attr\<rparr>) = Some (st, w1, x)"
    and w2: "(if st = E0 then updateParentStat m fout (Parent (co_attr x)) (co_newLength x) (co_newSpace x) w1 else Some w1) = Some w2"
    and w': "w' = invalidate fout invalidateAllChunks w2"
    using run unfolding CopyFileRange_def Option.bind_eq_Some_conv by fastforce
  have "serves_but rd fout invalidateAllChunks (if st = E0 then change fout (af_copy (len, f) (unat offIn) (unat offOut) (unat n)) else id) w w1"
  proof (rule txn_serves [OF t env ok CopyFileRange_tx_frame], assumption)
    fix v x1 assume v: "idle w v" "sound rd v" "framed v w1" "CopyFileRange_tx m fin offIn fout offOut n (v, x1) = Some (None, w1, x)"
    have F: "files_ok (rd (objects v)) v" "view (rd (objects v)) v fin = Some (len, f)"
      using v(2) idle_files(2) [OF v(1) ok(1)] src by (simp_all add: sound_def files_def)
    have room1: "ref_room v" using room v(1) by (simp add: ref_room_def ref_count_def idle_def calm_def same_engine_def)
    show "serves_but rd fout invalidateAllChunks (change fout (af_copy (len, f) (unat offIn) (unat offOut) (unat n))) w w1"
      by (rule commit_serves_but [OF v(1) ok CopyFileRange_tx_effect [OF F(1) v(4) F(2) size] v(3) CopyFileRange_tx_refs(1) [OF v(2) room1 v(4) size(2)], of "{}"])
        (use CopyFileRange_tx_refs(2) [OF v(2) room1 v(4) size(2)] in \<open>auto simp: drops_def\<close>)
  qed
  from finish_serves [OF this w2] show ?thesis unfolding w' .
qed

end
