(* ===== verification/JFS_FileRun.thy ===== *)
theory JFS_FileRun
  imports JFS_FileCalls
begin

text \<open>
  Runs of the calls of a client, as a relation between the worlds before and after and what happened to the files: they refine abstract
  files, keep the invariants, and reading returns what they wrote. Then a call among other clients, and an update of the access time that stores ids
  of the cache.
\<close>


section \<open>Runs of a client\<close>

text \<open>A run of calls: the world before, what the calls that succeeded mean for the files, and the world after. A client takes an id,
  uploads the data of an object under it and writes a slice of it; the other calls need no data of their own. The client is the only one that
  changes files (\<open>alone\<close>: others may make a try conflict and may take ids). Left out of the runs are: a copy of 0 bytes, for which the code
  would append slices of length 0; writing a slice id a second time, which the code answers without storing anything; and compaction that is
  forced. An object that is deleted is deleted within the call.\<close>

inductive file_run :: "('o \<Rightarrow> blocks) \<Rightarrow> 'o callbacks \<Rightarrow> settings \<Rightarrow> 'o file_world \<Rightarrow>
    ((64 word \<Rightarrow> afile option) \<Rightarrow> 64 word \<Rightarrow> afile option) \<Rightarrow> 'o file_world \<Rightarrow> bool" for rd cb m w where
  file_start: "file_run rd cb m w id w"
| file_newslice: "file_run rd cb m w F v \<Longrightarrow> id_room v \<Longrightarrow> NewSlice m v = (r, v') \<Longrightarrow> file_run rd cb m w F v'"
| file_upload: "file_run rd cb m w F v \<Longrightarrow> given v i \<Longrightarrow> (\<And>j off. j \<noteq> i \<Longrightarrow> rd ob (j, off) = rd (objects v) (j, off)) \<Longrightarrow>
    file_run rd cb m w F (v\<lparr>objects := ob\<rparr>)"
| file_write: "file_run rd cb m w F v \<Longrightarrow> given v (S_Id s) \<Longrightarrow> slice_ok indx off s \<Longrightarrow> alone os \<Longrightarrow> alone (shd oss) \<Longrightarrow> id_room v \<Longrightarrow>
    Write m cb canceled os oss inode indx off s mtime v = Some (st, v') \<Longrightarrow>
    file_run rd cb m w ((if st = E0 then change inode (write_bytes (rd (objects v)) indx off s) else id) \<circ> F) v'"
| file_truncate: "file_run rd cb m w F v \<Longrightarrow> alone os \<Longrightarrow> unat len < file_limit \<Longrightarrow>
    Truncate m os ctx inode flags len attr skip v = Some (st, a, v') \<Longrightarrow>
    file_run rd cb m w ((if st = E0 then change inode (af_truncate (unat len)) else id) \<circ> F) v'"
| file_fallocate: "file_run rd cb m w F v \<Longrightarrow> alone os \<Longrightarrow> unat off + unat n < file_limit \<Longrightarrow>
    Fallocate m os ctx inode mode off n flength v = Some (st, l, v') \<Longrightarrow>
    file_run rd cb m w ((if st = E0 then change inode (af_fallocate mode (unat off) (unat n)) else id) \<circ> F) v'"
| file_copy: "file_run rd cb m w F v \<Longrightarrow> alone os \<Longrightarrow> ref_room v \<Longrightarrow> files rd v fin = Some src \<Longrightarrow> n \<noteq> 0 \<Longrightarrow>
    unat offIn + unat n < 2 ^ 64 \<Longrightarrow> unat offOut + unat n < file_limit \<Longrightarrow>
    CopyFileRange m os fin offIn fout offOut n copied outLength v = Some (st, out, v') \<Longrightarrow>
    file_run rd cb m w ((if st = E0 then change fout (af_copy src (unat offIn) (unat offOut) (unat n)) else id) \<circ> F) v'"
| file_read: "file_run rd cb m w F v \<Longrightarrow> alone os \<Longrightarrow> ids_add_up inode v \<Longrightarrow> shd (reads (fw_acl v)) \<noteq> Some (Eno E0) \<Longrightarrow>
    Read m os inode indx v = Some (st, cs, v') \<Longrightarrow> file_run rd cb m w F v'"
| file_compact: "file_run rd cb m w F v \<Longrightarrow> alone (shd oss) \<Longrightarrow> id_room v \<Longrightarrow>
    base_compactChunk m cb oss canceled once False inode indx v = Some v' \<Longrightarrow> file_run rd cb m w F v'"

lemma serves_step:
  assumes "healthy rd v \<and> files rd v = F (files rd w)" and "healthy rd v \<Longrightarrow> serves rd G v v'"
  shows "healthy rd v' \<and> files rd v' = (G \<circ> F) (files rd w)"
  using serves_healthy [OF assms(2)] assms(1) by simp

lemma file_run_healthy:
  assumes laws: "store_laws rd cb" and ok: "healthy rd w"
  shows "file_run rd cb m w F w' \<Longrightarrow> healthy rd w' \<and> files rd w' = F (files rd w)"
proof (induction rule: file_run.induct)
  case file_start
  then show ?case using ok by simp
next
  case (file_newslice F v r v')
  have "serves rd id v v'" if "healthy rd v"
    using NewSlice_id [OF _ file_newslice.hyps(2,3)] serves_calm [of v v' rd] that by (simp add: healthy_def)
  from serves_step [where F = F and w = w, OF file_newslice.IH this] show ?case by simp
next
  case (file_upload F v i ob)
  have "serves rd id v (v\<lparr>objects := ob\<rparr>)" if "healthy rd v"
  proof (rule serves_keeps [OF keeps_objects])
    fix s off assume "in_use v s"
    then have "sl_id s \<noteq> i" using given_fresh [OF file_upload.hyps(2)] by (auto simp: fresh_def)
    then show "rd ob (sl_id s, off) = rd (objects v) (sl_id s, off)" by (rule file_upload.hyps(3))
  qed (use that in \<open>simp_all add: healthy_def\<close>)
  from serves_step [where F = F and w = w, OF file_upload.IH this] show ?case by simp
next
  case (file_write F v s indx off os oss canceled inode mtime st v')
  show ?case by (rule serves_step [where F = F and w = w, OF file_write.IH]) (use Write_serves [OF laws _ _ file_write.hyps(2-7)] in \<open>simp add: healthy_def\<close>)
next
  case (file_truncate F v os len ctx inode flags attr skip st a v')
  show ?case by (rule serves_step [where F = F and w = w, OF file_truncate.IH]) (use Truncate_serves [OF _ _ file_truncate.hyps(2-4)] in \<open>simp add: healthy_def\<close>)
next
  case (file_fallocate F v os off n ctx inode mode flength st l v')
  show ?case by (rule serves_step [where F = F and w = w, OF file_fallocate.IH]) (use Fallocate_serves [OF _ _ file_fallocate.hyps(2-4)] in \<open>simp add: healthy_def\<close>)
next
  case (file_copy F v os fin src n offIn offOut fout copied outLength st out v')
  obtain len f where src: "src = (len, f)" by fastforce
  have b: "unat offOut + min (unat n) (len - unat offIn) < file_limit" using file_copy.hyps(7) by simp
  show ?case unfolding src
    by (rule serves_step [where F = F and w = w, OF file_copy.IH])
      (use CopyFileRange_serves [OF _ _ file_copy.hyps(2,3,4) [unfolded src] file_copy.hyps(5,6) b file_copy.hyps(8)] in \<open>simp add: healthy_def\<close>)
next
  case (file_read F v os inode indx st cs v')
  then show ?case using Read_right(1,2) [OF _ file_read.hyps(4,2,3,5)] by simp
next
  case (file_compact F v oss canceled once inode indx v')
  have "serves rd id v v'" if "healthy rd v" using compactChunk_serves [OF laws _ _ file_compact.hyps(3,2,4)] that by (simp add: healthy_def)
  from serves_step [where F = F and w = w, OF file_compact.IH this] show ?case by simp
qed

section \<open>A store in memory\<close>

text \<open>Objects kept as a function satisfy the laws of the store.\<close>

definition mem_callbacks :: "blocks callbacks" where
  "mem_callbacks = \<lparr>
     msg_CompactChunk = (\<lambda>cs i ob. if total_len cs < 2 ^ 32
       then (True, \<lambda>(j, off). if j = i then byte ob (chunk_at cs (unat off)) else ob (j, off)) else (False, ob)),
     msg_DeleteSlice = (\<lambda>i n ob. (True, \<lambda>(j, off). if j = i then 0 else ob (j, off)))\<rparr>"

lemma mem_store_laws: "store_laws id mem_callbacks"
  by (auto simp: store_laws_def mem_callbacks_def holds_def unat_of_nat_32 split: if_split_asm)

definition new_file_attr :: Attr where
  "new_file_attr = zero_Attr\<lparr>Typ := TypeFile, Mode := 0x1A4, Nlink := 1, Parent := 1, Full := True\<rparr>"

text \<open>A volume with one empty file.\<close>

definition one_file :: "blocks file_world" where
  "one_file = \<lparr>fw_acl = \<lparr>aclCache = NewCache, aclCounter = 0, incs = sconst None, reads = sconst None,
       inode_vals = [2 \<mapsto> attr_bytes new_file_attr @ acl_bytes new_file_attr @ [0]], acl_vals = Map.empty\<rparr>,
     fw_of = newOpenFiles 0 0, fw_clock = sconst (0, 0), fw_timeouts = sconst False,
     usedSpace = 0, newSpace = 0, usedInodes = 0, newInodes = 0, dirStats = (\<lambda>_. zero_dirStat), dirQuotas = Map.empty, dirParents = Map.empty,
     freeSlices = (0, 0), nextChunk = 1, compacting = [], chunk_vals = Map.empty, slice_refs = Map.empty, delSlices = Map.empty,
     link_parents = (\<lambda>_. []), objects = (\<lambda>_. 0)\<rparr>"

definition plain_settings :: settings where
  "plain_settings = \<lparr>conf_OpenCache = 0, conf_ReadOnly = False, conf_AtimeMode = ''noatime'', conf_MaxDeletes = 2, fmt_Capacity = 0, fmt_Inodes = 0,
     fmt_TrashDays = 0, fmt_DirStats = False, m_root = 1\<rparr>"

lemma new_file_ok: "attr_ok new_file_attr" "acl_bytes new_file_attr = []"
  by (simp_all add: attr_ok_def acl_ids_ok_def new_file_attr_def zero_Attr_def TypeFile_def acl_bytes_def)

lemma new_file_bytes: "Attr_Marshal new_file_attr = Some (attr_bytes new_file_attr @ [0])"
  "Attr_Unmarshal (attr_bytes new_file_attr @ [0]) zero_Attr = Some new_file_attr"
  using Attr_Marshal_bytes [of new_file_attr] Attr_Unmarshal_bytes [OF new_file_ok(1)] new_file_ok by (simp_all add: attr_ok_def)

lemma no_chunks: "chunk_vals w = Map.empty \<Longrightarrow> slices_at w j k = []" "chunk_vals w = Map.empty \<Longrightarrow> chunk_is w j k []"
  using chunk_is_slices [of w j k "[]"] by (simp_all add: chunk_is_def chunk_val_def)

lemma one_file_healthy: "healthy id one_file"
proof -
  have e: "chunk_vals one_file = Map.empty" by (simp add: one_file_def)
  note sl = no_chunks [OF e]
  have use: "\<not> in_use one_file s" for s by (simp add: in_use_def sl(1))
  have g: "grown_file B one_file j len" for B j len by (simp add: grown_file_def sl(1) grown_list)
  have st: "stored one_file 2 new_file_attr" using new_file_bytes new_file_ok by (simp add: stored_def one_file_def)
  have inodes: "inode_vals (fw_acl one_file) j \<noteq> None \<longleftrightarrow> j = 2" for j by (simp add: one_file_def)
  have t: "tail_ok B one_file 2 new_file_attr" for B using g by (simp add: tail_ok_def new_file_attr_def zero_Attr_def file_limit_def CS_def)
  have "files_ok (objects one_file) one_file" unfolding files_ok_def chunks_ok_def using sl(2) st t inodes by metis
  moreover have "refs_ok one_file"
    using use by (simp add: refs_ok_def data_chunks_def sl(1) uses_def) (simp add: ref_count_def one_file_def)
  moreover have "ids_ok one_file" using use by (simp add: ids_ok_def known_def) (simp add: one_file_def)
  moreover have "cache_right one_file"
    by (simp add: cache_right_def chunks.coherent_def ReadChunk_def one_file_def newOpenFiles_def find_file_def)
  ultimately show ?thesis by (simp add: healthy_def sound_def)
qed

lemma alone_commit: "alone (sconst Commit)"
  by (simp add: alone_def try_ok_def)

lemma txn_commit: "\<not> conf_ReadOnly m \<Longrightarrow> f s = Some (None, s') \<Longrightarrow> file_txn m (sconst Commit) f s = Some (E0, s')"
  by (simp add: file_txn_def kv_txn_def numeral_eq_Suc errno_def)

text \<open>The client takes an id, uploads four bytes and writes them at offset three.\<close>

definition four_bytes :: blocks where
  "four_bytes = (\<lambda>(i, off). if i = 1 then 65 + ucast off else 0)"

definition four_slice :: Slice where
  "four_slice = \<lparr>S_Id = 1, S_Size = 4, S_Off = 0, S_Len = 4\<rparr>"

definition uploaded :: "blocks file_world" where
  "uploaded = one_file\<lparr>fw_acl := (fw_acl one_file)\<lparr>incs := sconst None\<rparr>, nextChunk := 4097, freeSlices := (2, 4097), objects := four_bytes\<rparr>"

lemma uploaded_run: "file_run id mem_callbacks plain_settings one_file id uploaded" and uploaded_given: "given uploaded 1"
proof -
  let ?v = "one_file\<lparr>fw_acl := (fw_acl one_file)\<lparr>incs := sconst None\<rparr>, nextChunk := 4097, freeSlices := (2, 4097)\<rparr>"
  have "chunk_vals ?v = Map.empty" "slice_refs ?v = Map.empty" by (simp_all add: one_file_def)
  then have kn: "\<not> known ?v i" for i by (auto simp: known_def in_use_def no_chunks)
  then have g: "given ?v 1" by (simp add: given_def word_le_nat_alt)
  have ns: "NewSlice plain_settings one_file = (Inr 1, ?v)"
    by (simp add: NewSlice_def key_txn_def plain_settings_def sliceIdBatch_def one_file_def)
  have "id_room one_file" by (simp add: id_room_def one_file_def)
  from file_run.file_newslice [OF file_run.file_start this ns] have r: "file_run id mem_callbacks plain_settings one_file id ?v" .
  have "file_run id mem_callbacks plain_settings one_file id (?v\<lparr>objects := four_bytes\<rparr>)"
    by (rule file_run.file_upload [OF r g]) (simp add: four_bytes_def one_file_def)
  then show "file_run id mem_callbacks plain_settings one_file id uploaded" by (simp add: uploaded_def)
  have "chunk_vals uploaded = Map.empty" "slice_refs uploaded = Map.empty" by (simp_all add: uploaded_def one_file_def)
  then have "\<not> known uploaded i" for i by (auto simp: known_def in_use_def no_chunks)
  then show "given uploaded 1" by (simp add: given_def uploaded_def word_le_nat_alt)
qed

lemma four_written:
  "\<exists>w'. Write plain_settings mem_callbacks False (sconst Commit) (sconst (sconst Commit)) 2 0 3 four_slice (0, 0) uploaded = Some (E0, w') \<and>
     fw_of w' = newOpenFiles 0 0 \<and> reads (fw_acl w') = sconst None \<and> chunk_val 2 0 w' = slice_bytes (slice_of 3 four_slice)"
proof -
  have v: "inode_vals (fw_acl uploaded) 2 = Some (attr_bytes new_file_attr @ [0])" using new_file_ok by (simp add: uploaded_def one_file_def)
  have c: "chunk_val 2 0 uploaded = []" by (simp add: chunk_val_def uploaded_def one_file_def)
  let ?b = "with_times (0, 0) (0, 0) (new_file_attr\<lparr>Length := 7\<rparr>)"
  have "attr_ok ?b" using new_file_ok(1) attr_ok_changes by simp
  then obtain d where d: "Attr_Marshal ?b = Some d" using Attr_Marshal_bytes [of ?b] by (auto simp: attr_ok_def)
  have ty: "Typ new_file_attr = TypeFile" "Length new_file_attr = 0" by (simp_all add: new_file_attr_def zero_Attr_def)
  have q: "checkQuota plain_settings s 0 ps w = Some (E0, w)" for s ps and w :: "blocks file_world" by (simp add: checkQuota_def plain_settings_def)
  have cl: "clock_now uploaded = ((0, 0), uploaded)" by (simp add: clock_now_def uploaded_def one_file_def)
  obtain w1 x where t: "doWrite_tx plain_settings 2 0 3 four_slice (0, 0) (uploaded, zero_out zero_Attr) = Some (None, w1, x)"
    and w1: "w1 = set_chunk 2 0 (slice_bytes (slice_of 3 four_slice)) (uploaded\<lparr>fw_acl := (fw_acl uploaded)\<lparr>inode_vals := (inode_vals (fw_acl uploaded))(2 \<mapsto> d)\<rparr>\<rparr>)"
    and x: "fo_num x = 1"
    using v new_file_bytes(2) ty d c
    by (simp add: doWrite_tx_def q cl four_slice_def marshalSlice_eq slice_of_def has_slice.simps set_attr_def store_attr_def sliceBytes_def)
  have "updateParentStat plain_settings 2 p len space w1 = Some (if len = 0 \<and> space = 0 then w1 else updateStats space 0 w1)" for p len space
    by (simp add: updateParentStat_def Let_def plain_settings_def)
  then have "\<exists>w2. Write plain_settings mem_callbacks False (sconst Commit) (sconst (sconst Commit)) 2 0 3 four_slice (0, 0) uploaded = Some (E0, invalidate 2 0 w2) \<and>
      (w2 = w1 \<or> (\<exists>sp. w2 = updateStats sp 0 w1))"
    using txn_commit [where f = "doWrite_tx plain_settings 2 0 3 four_slice (0, 0)" and m = plain_settings, OF _ t] x by (auto simp: Write_def doWrite_def plain_settings_def maxSlices_def)
  then obtain w2 where w2: "Write plain_settings mem_callbacks False (sconst Commit) (sconst (sconst Commit)) 2 0 3 four_slice (0, 0) uploaded = Some (E0, invalidate 2 0 w2)"
    "w2 = w1 \<or> (\<exists>sp. w2 = updateStats sp 0 w1)" by blast
  have "fw_of w2 = newOpenFiles 0 0 \<and> reads (fw_acl w2) = sconst None \<and> chunk_val 2 0 w2 = slice_bytes (slice_of 3 four_slice)"
    using w2(2) by (auto simp: w1 updateStats_def set_chunk_def chunk_val_def uploaded_def one_file_def)
  moreover have "InvalidateChunk 2 0 (newOpenFiles 0 0) = newOpenFiles 0 0" by (simp add: InvalidateChunk_def find_file_def newOpenFiles_def)
  ultimately show ?thesis using w2(1) by (simp add: invalidate_def chunk_val_def)
qed

lemma four_run:
  "\<exists>w'. file_run id mem_callbacks plain_settings one_file (change 2 (write_bytes four_bytes 0 3 four_slice)) w' \<and>
     fw_of w' = newOpenFiles 0 0 \<and> reads (fw_acl w') = sconst None \<and> chunk_val 2 0 w' = slice_bytes (slice_of 3 four_slice)"
proof -
  obtain w' where w: "Write plain_settings mem_callbacks False (sconst Commit) (sconst (sconst Commit)) 2 0 3 four_slice (0, 0) uploaded = Some (E0, w')"
    and f: "fw_of w' = newOpenFiles 0 0 \<and> reads (fw_acl w') = sconst None \<and> chunk_val 2 0 w' = slice_bytes (slice_of 3 four_slice)"
    using four_written by blast
  have "file_run id mem_callbacks plain_settings one_file ((if E0 = E0 then change 2 (write_bytes (id (objects uploaded)) 0 3 four_slice) else id) \<circ> id) w'"
    by (rule file_run.file_write [OF uploaded_run _ _ alone_commit _ _ w])
      (use uploaded_given in \<open>simp_all add: four_slice_def slice_ok_def CS_def file_limit_def alone_commit id_room_def\<close>, simp add: uploaded_def)
  then show ?thesis using f by (auto simp: uploaded_def)
qed

section \<open>What holds in every run\<close>

text \<open>C5: The calls of a client refine abstract files. A run of writes, truncations, allocations, copies, reads and compactions
  changes the lengths and the bytes of all files exactly as the calls that succeeded say, in their order: a write puts the bytes of its
  object into its range and extends the file, a truncation cuts it off or extends it with zeros, an allocation zeroes its range up to the old end, a copy
  writes the bytes of the source; a call that fails, a read and a compaction change nothing. This holds
  whatever the cache held, however often a transaction was repeated, and although compactions delete objects.\<close>

theorem file_run_refines:
  assumes "store_laws rd cb" and "healthy rd w" and "file_run rd cb m w F w'"
  shows "files rd w' = F (files rd w)"
  using file_run_healthy [OF assms] by simp

lemma one_file_files: "files id one_file 2 = Some (0, \<lambda>_. 0)"
proof -
  have e: "chunk_vals one_file = Map.empty" by (simp add: one_file_def)
  have "bytes B one_file 2 = (\<lambda>_. 0)" for B by (simp add: fun_eq_iff bytes_def file_at_def no_chunks(1) [OF e])
  moreover have "stored one_file 2 new_file_attr" using new_file_bytes new_file_ok by (simp add: stored_def one_file_def)
  ultimately show ?thesis using stored_view [of one_file 2 new_file_attr] by (simp add: files_def new_file_attr_def zero_Attr_def)
qed

theorem file_run_refines_witness:
  "\<exists>w' f. file_run id mem_callbacks plain_settings one_file (change 2 (write_bytes four_bytes 0 3 four_slice)) w' \<and>
     files id w' 2 = Some (7, f) \<and> f 2 = 0 \<and> f 3 = 65 \<and> f 6 = 68 \<and> f 7 = 0"
proof -
  obtain w' where r: "file_run id mem_callbacks plain_settings one_file (change 2 (write_bytes four_bytes 0 3 four_slice)) w'"
    using four_run by blast
  from file_run_refines [OF mem_store_laws one_file_healthy r] one_file_files
  have "files id w' 2 = Some (write_bytes four_bytes 0 3 four_slice (0, \<lambda>_. 0))" by (simp add: change_def)
  then show ?thesis using r
    by (auto simp: write_bytes_def af_write_def overwrite_def four_slice_def piece_at_def byte_def four_bytes_def)
qed

text \<open>C9: In every run of the calls no byte behind the end of a file shows what was there before, and no
  object that a chunk refers to may be deleted: its counter, which is at least the number of references less one, is not negative, and all slices of the
  object agree on its size, under which the counter is kept.\<close>

theorem file_run_invariants:
  assumes "store_laws rd cb" and "healthy rd w" and "file_run rd cb m w F w'"
  shows "(stored w' inode a \<and> Typ a = TypeFile \<and> unat (Length a) \<le> q \<longrightarrow> bytes (rd (objects w')) w' inode q = 0) \<and>
    (in_use w' s \<and> sl_id s \<noteq> 0 \<longrightarrow> 0 \<le> ref_count (sl_id s) (sl_size s) w' \<and> int (uses w' (sl_id s) (sl_size s)) \<le> ref_count (sl_id s) (sl_size s) w' + 1) \<and>
    (in_use w' s \<and> in_use w' t \<and> sl_id s = sl_id t \<and> sl_id s \<noteq> 0 \<longrightarrow> sl_size s = sl_size t)"
proof -
  have h: "sound rd w'" using file_run_healthy [OF assms] by (simp add: healthy_def)
  then have f: "files_ok (rd (objects w')) w'" and r: "refs_ok w'" by (simp_all add: sound_def)
  have "bytes (rd (objects w')) w' inode q = 0" if st: "stored w' inode a" "Typ a = TypeFile" "unat (Length a) \<le> q"
  proof -
    obtain v where v: "inode_vals (fw_acl w') inode = Some v" "Attr_Unmarshal v zero_Attr = Some a" using stored_read [OF st(1)] by blast
    obtain b where "tail_ok (rd (objects w')) w' inode b" "Attr_Unmarshal v zero_Attr = Some b" using files_okD(2) [OF f v(1)] by blast
    then show ?thesis using tail_bytes [of _ w' inode "unat (Length a)" q] st v(2) by (auto simp: tail_ok_def)
  qed
  moreover have "int (uses w' (sl_id s) (sl_size s)) \<le> ref_count (sl_id s) (sl_size s) w' + 1" if "sl_id s \<noteq> 0"
    by (rule refs_okD(2) [OF r that])
  moreover have "0 < uses w' (sl_id s) (sl_size s)" if "in_use w' s" "sl_id s \<noteq> 0" by (rule uses_pos [OF refs_okD(1) [OF r] that])
  ultimately show ?thesis using refs_okD(4) [OF r, of s t] by fastforce
qed

theorem file_run_invariants_witness:
  "\<exists>w'. file_run id mem_callbacks plain_settings one_file (change 2 (write_bytes four_bytes 0 3 four_slice)) w' \<and>
     in_use w' (slice_of 3 four_slice) \<and> 0 \<le> ref_count 1 4 w'"
proof -
  obtain w' where r: "file_run id mem_callbacks plain_settings one_file (change 2 (write_bytes four_bytes 0 3 four_slice)) w'"
    and c: "chunk_val 2 0 w' = slice_bytes (slice_of 3 four_slice)" using four_run by blast
  have "slices_at w' 2 0 = [slice_of 3 four_slice]" using readSliceBuf_concat [of "[slice_of 3 four_slice]"] by (simp add: slices_at_def c)
  then have u: "in_use w' (slice_of 3 four_slice)" unfolding in_use_def by (metis list.set_intros(1))
  with file_run_invariants [OF mem_store_laws one_file_healthy r, of 0 zero_Attr 0 "slice_of 3 four_slice" "slice_of 3 four_slice"] r
  show ?thesis by (auto simp: slice_of_def four_slice_def)
qed

text \<open>C7: A read returns what was written. After any run of the calls, a read of a chunk that succeeds returns slices whose bytes, in the
  objects as they are then, are the bytes that the run left in the file, also when the chunk comes from the cache of the client.\<close>

theorem Read_returns_file:
  assumes "store_laws rd cb" and "healthy rd w" and "file_run rd cb m w F w'"
    and "F (files rd w) inode = Some (len, f)" and "alone os" and "ids_add_up inode w'" and "shd (reads (fw_acl w')) \<noteq> Some (Eno E0)"
    and "Read m os inode indx w' = Some (E0, cs, w2)" and "q < CS"
  shows "chunk_bytes (rd (objects w')) cs q = f (unat indx * CS + q)"
proof -
  note h = file_run_healthy [OF assms(1-3)]
  have "view (rd (objects w')) w' inode = Some (len, f)" using h assms(4) by (simp add: files_def)
  then have "bytes (rd (objects w')) w' inode = f" by (auto simp: view_def Option.bind_eq_Some_conv)
  then show ?thesis using Read_right(3) [OF conjunct1 [OF h] assms(7,5,6,8) refl assms(9)] by simp
qed

theorem Read_returns_file_witness:
  "\<exists>w' cs w2. file_run id mem_callbacks plain_settings one_file (change 2 (write_bytes four_bytes 0 3 four_slice)) w' \<and>
     Read plain_settings (sconst Commit) 2 0 w' = Some (E0, cs, w2) \<and> chunk_bytes (objects w') cs 4 = 66"
proof -
  obtain w' where r: "file_run id mem_callbacks plain_settings one_file (change 2 (write_bytes four_bytes 0 3 four_slice)) w'"
    and c: "fw_of w' = newOpenFiles 0 0" "reads (fw_acl w') = sconst None" "chunk_val 2 0 w' = slice_bytes (slice_of 3 four_slice)" using four_run by blast
  have "readSliceBuf (slice_bytes (slice_of 3 four_slice)) = Some (Some [slice_of 3 four_slice])"
    using readSliceBuf_concat [of "[slice_of 3 four_slice]"] by simp
  then have "\<exists>cs w2. read_slices 2 0 w' = Some (E0, cs, w2)"
    using c by (simp add: read_slices_def ReadChunk_def find_file_def newOpenFiles_def doRead_def point_read_def chunk_val_def Let_def)
  then obtain cs w2 where rd: "Read plain_settings (sconst Commit) 2 0 w' = Some (E0, cs, w2)"
    by (auto simp: Read_def touchAtime_def plain_settings_def)
  have ids: "ids_add_up 2 w'" using c(1) by (simp add: ids_add_up_def find_file_def newOpenFiles_def)
  have f: "change 2 (write_bytes four_bytes 0 3 four_slice) (files id one_file) 2 = Some (write_bytes four_bytes 0 3 four_slice (0, \<lambda>_. 0))"
    using one_file_files by (simp add: change_def)
  obtain len g where g: "write_bytes four_bytes 0 3 four_slice (0, \<lambda>_. 0) = (len, g)" by fastforce
  have "chunk_bytes (objects w') cs 4 = g 4"
    using Read_returns_file [OF mem_store_laws one_file_healthy r f [unfolded g] alone_commit ids _ rd, of 4] c(2) by (simp add: CS_def)
  moreover have "g 4 = 66"
    using g by (auto simp: write_bytes_def af_write_def overwrite_def four_slice_def piece_at_def byte_def four_bytes_def)
  ultimately show ?thesis using r rd by auto
qed

section \<open>A call among other clients\<close>

lemma framed_quiet_drop: "framed w w' \<Longrightarrow> quiet_step w (drop_writes w w')"
  by (simp add: framed_def quiet_step_def same_engine_def drop_writes_def roll_back_def)

text \<open>C13: A copy takes effect exactly once and sees one moment. The other clients may change the files
  in any way between the tries of its transaction, as long as the stored values stay readable. When the
  copy succeeds there is a moment, which the others alone have led to, at which the target changes as if the bytes of the
  source at that moment were written to it; when it fails, only the others have changed the files.\<close>

theorem copy_takes_effect_once:
  assumes others: "\<And>t. t \<in> sset os \<Longrightarrow> try_ok (\<lambda>s s'. others (fst s) (fst s')) t" and rel: "reflp others" "transp others"
    and own: "\<And>v v'. quiet_step v v' \<Longrightarrow> others v v'" and keep: "\<And>v v'. others v v' \<Longrightarrow> files_ok B v \<Longrightarrow> files_ok B v'"
    and ok: "files_ok B w" and size: "n \<noteq> 0" "unat offIn + unat n < 2 ^ 64" "unat offOut + unat n < file_limit"
    and run: "CopyFileRange m os fin offIn fout offOut n copied outLength w = Some (st, out, w')"
  shows "\<exists>w1. others w w1 \<and> files_ok B w' \<and> (if st = E0
    then \<exists>src. view B w1 fin = Some src \<and> view B w' = change fout (af_copy src (unat offIn) (unat offOut) (unat n)) (view B w1)
    else view B w' = view B w1)"
proof -
  let ?Q = "\<lambda>s s'. others (fst s) (fst s')" and ?f = "CopyFileRange_tx m fin offIn fout offOut n"
  obtain w1 x w2 where t: "file_txn m os ?f
       (w, \<lparr>co_newLength = 0, co_newSpace = 0, co_copied = copied, co_outLength = outLength, co_attr = zero_Attr\<rparr>) = Some (st, w1, x)"
    and w2: "(if st = E0 then updateParentStat m fout (Parent (co_attr x)) (co_newLength x) (co_newSpace x) w1 else Some w1) = Some w2"
    and w': "w' = invalidate fout invalidateAllChunks w2"
    using run unfolding CopyFileRange_def Option.bind_eq_Some_conv by fastforce
  have Q: "reflp ?Q" "transp ?Q" using rel by (auto simp: reflp_def transp_def)
  have fr: "e \<noteq> Some (Eno E0) \<and> ?Q (v, y) (drop_writes v v', y')" if "?f (v, y) = Some (e, v', y')" for v y e v' y'
    using CopyFileRange_tx_frame [OF that] own [OF framed_quiet_drop] by simp
  obtain v y where v: "others w v" and r: "if st = E0 then ?f (v, y) = Some (None, w1, x) else w1 = v"
    using file_txn_run [OF t others Q fr] unfolding fst_conv by blast
  have q: "quiet_step w1 w'"
  proof -
    have "quiet_step w1 w2" using w2 quiet_updateParentStat by (auto split: if_split_asm)
    also have "quiet_step w2 w'" unfolding w' invalidate_def by (rule quiet_of) (rule chunks.shrinks_forget)
    finally show ?thesis .
  qed
  have okv: "files_ok B v" by (rule keep [OF v ok])
  show ?thesis
  proof (cases "st = E0")
    case True
    with r have tx: "?f (v, y) = Some (None, w1, x)" by simp
    then obtain sv where sv: "inode_vals (fw_acl v) fin = Some sv" by (auto simp: CopyFileRange_tx_def Let_def split: option.splits)
    then obtain a where "stored v fin a" using files_okD(2) [OF okv] by blast
    then obtain len f where src: "view B v fin = Some (len, f)" using stored_view by blast
    have "unat offOut + min (unat n) (len - unat offIn) < file_limit" using size(3) by simp
    from CopyFileRange_tx_effect [OF okv tx src size(1,2) this]
    have "files_ok B w1" "view B w1 = change fout (af_copy (len, f) (unat offIn) (unat offOut) (unat n)) (view B v)"
      by (simp_all add: updates_def change_def)
    with quiet_files(1,2) [OF q] v src True show ?thesis by auto
  next
    case False
    with r quiet_files(1,2) [OF q] v okv show ?thesis by auto
  qed
qed

text \<open>Five zero bytes are copied within a file.\<close>

definition five_attr :: Attr where "five_attr = new_file_attr\<lparr>Length := 5\<rparr>"

definition five_file :: "blocks file_world" where
  "five_file = one_file\<lparr>fw_acl := (fw_acl one_file)\<lparr>inode_vals := [2 \<mapsto> attr_bytes five_attr @ [0]]\<rparr>\<rparr>"

lemma five_bytes: "attr_ok five_attr" "Attr_Marshal five_attr = Some (attr_bytes five_attr @ [0])"
  "Attr_Unmarshal (attr_bytes five_attr @ [0]) zero_Attr = Some five_attr" "Typ five_attr = TypeFile" "Length five_attr = 5"
  "Flags five_attr = 0"
proof -
  show ok: "attr_ok five_attr" using new_file_ok(1) by (simp add: five_attr_def attr_ok_def acl_ids_ok_def)
  have a: "acl_bytes five_attr = []" by (simp add: five_attr_def acl_bytes_def new_file_attr_def zero_Attr_def)
  show "Attr_Marshal five_attr = Some (attr_bytes five_attr @ [0])" "Attr_Unmarshal (attr_bytes five_attr @ [0]) zero_Attr = Some five_attr"
    using Attr_Marshal_bytes [of five_attr] Attr_Unmarshal_bytes [OF ok] ok a by (simp_all add: attr_ok_def)
  show "Typ five_attr = TypeFile" "Length five_attr = 5" "Flags five_attr = 0" by (simp_all add: five_attr_def new_file_attr_def zero_Attr_def)
qed

lemma five_file_ok: "files_ok B five_file"
proof -
  have e: "chunk_vals five_file = Map.empty" by (simp add: five_file_def one_file_def)
  note sl = no_chunks [OF e]
  have st: "stored five_file 2 five_attr" using five_bytes by (simp add: stored_def five_file_def)
  have t: "tail_ok B five_file 2 five_attr" using five_bytes(5) by (simp add: tail_ok_def file_limit_def CS_def grown_file_def sl(1) grown_list)
  have "inode_vals (fw_acl five_file) j \<noteq> None \<longleftrightarrow> j = 2" for j by (simp add: five_file_def)
  then show ?thesis unfolding files_ok_def chunks_ok_def using sl(2) st t by metis
qed

lemma five_copied: "\<exists>out w'. CopyFileRange plain_settings (sconst Commit) 2 0 2 10 5 0 0 five_file = Some (E0, out, w')"
proof -
  have c: "chunks_ok five_file" using files_okD(1) [OF five_file_ok] .
  have v: "inode_vals (fw_acl five_file) 2 = Some (attr_bytes five_attr @ [0])" by (simp add: five_file_def)
  have cl: "clock_now five_file = ((0, 0), five_file)" by (simp add: clock_now_def five_file_def one_file_def)
  have q: "checkQuota plain_settings s 0 ps w = Some (E0, w)" for s ps and w :: "blocks file_world" by (simp add: checkQuota_def plain_settings_def)
  obtain chunks w2 where rc: "read_chunks 2 (chunk_range (ucast ((0 :: 64 word) div ChunkSize)) (ucast ((0 + 5 :: 64 word) div ChunkSize))) five_file = Some (Some chunks)"
    and lp: "copy_loop chunks 0 5 2 10 (0 div ChunkSize * ChunkSize) five_file = Some w2"
    using copy_range_effect [OF c, of 5 0 10 15 2 2] by (auto simp: file_limit_def CS_def)
  let ?b = "with_times (0, 0) (0, 0) (five_attr\<lparr>Length := 15\<rparr>)"
  have "attr_ok ?b" using five_bytes(1) attr_ok_changes by simp
  then obtain w3 where s: "set_attr 2 ?b w2 = Some w3" using set_attr_stores by blast
  let ?o = "\<lparr>co_newLength = 0, co_newSpace = 0, co_copied = 0, co_outLength = 0, co_attr = zero_Attr\<rparr>"
  have "\<exists>x. CopyFileRange_tx plain_settings 2 0 2 10 5 (five_file, ?o) = Some (None, w3, x)"
    using v five_bytes rc lp s by (simp add: CopyFileRange_tx_def q cl)
  then obtain x where "CopyFileRange_tx plain_settings 2 0 2 10 5 (five_file, ?o) = Some (None, w3, x)" by blast
  from txn_commit [where f = "CopyFileRange_tx plain_settings 2 0 2 10 5" and m = plain_settings, OF _ this]
  have "file_txn plain_settings (sconst Commit) (CopyFileRange_tx plain_settings 2 0 2 10 5) (five_file, ?o) = Some (E0, w3, x)"
    by (simp add: plain_settings_def)
  then show ?thesis by (simp add: CopyFileRange_def updateParentStat_def Let_def plain_settings_def)
qed

theorem copy_takes_effect_once_witness:
  "\<exists>out w' w1 src. CopyFileRange plain_settings (sconst Commit) 2 0 2 10 5 0 0 five_file = Some (E0, out, w') \<and>
     quiet_step five_file w1 \<and> view four_bytes w1 2 = Some src \<and> view four_bytes w' = change 2 (af_copy src 0 10 5) (view four_bytes w1)"
proof -
  obtain out w' where r: "CopyFileRange plain_settings (sconst Commit) 2 0 2 10 5 0 0 five_file = Some (E0, out, w')" using five_copied by blast
  have "\<exists>w1. quiet_step five_file w1 \<and> files_ok four_bytes w' \<and> (if E0 = E0
      then \<exists>src. view four_bytes w1 2 = Some src \<and> view four_bytes w' = change 2 (af_copy src (unat (0 :: 64 word)) (unat (10 :: 64 word)) (unat (5 :: 64 word))) (view four_bytes w1)
      else view four_bytes w' = view four_bytes w1)"
    by (rule copy_takes_effect_once [OF _ _ _ _ _ five_file_ok _ _ _ r])
      (auto simp: try_ok_def reflp_def transp_def file_limit_def CS_def quiet_files(1) intro: quiet_trans)
  then show ?thesis using r by auto
qed

section \<open>The access time\<close>

text \<open>C20: Updating the access time can bring an access control list back. The attributes are read over those that the client
  has in its cache, and a stored value without ids leaves the ids of the cache in place: when another client has removed the list of a file meanwhile,
  the update stores the old ids again.\<close>

theorem atime_update_revives_acl:
  assumes "stored w inode b" and "AccessACL b = 0" and "DefaultACL b = 0" and "acl_ids_ok cached"
    and "atimeNeedsUpdate m (b\<lparr>AccessACL := AccessACL cached, DefaultACL := DefaultACL cached, KeepCache := KeepCache cached\<rparr>) now"
  shows "\<exists>w' x c. doTouchAtime_tx m inode now (w, cached, False) = Some (None, w', x) \<and> stored w' inode c \<and>
    AccessACL c = AccessACL cached \<and> DefaultACL c = DefaultACL cached"
proof -
  have b: "attr_ok b" using assms(1) by (simp add: stored_def)
  let ?a = "(over_attr cached b)\<lparr>Atime := fst now, Atimensec := snd now\<rparr>"
  let ?c = "(over_attr cached b)\<lparr>Atime := fst now, Atimensec := snd now, KeepCache := False\<rparr>"
  have over: "over_attr cached b = b\<lparr>AccessACL := AccessACL cached, DefaultACL := DefaultACL cached, KeepCache := KeepCache cached\<rparr>"
    using assms(2,3) by (simp add: over_attr_def)
  have c: "attr_ok ?c" by (rule over_attr_ok [OF b assms(4)])
  obtain w' where w': "set_attr inode ?c w = Some w'" "stored w' inode ?c" by (rule set_attr_stores [OF c])
  have "set_attr inode ?a w = Some w'" using w'(1) Attr_Marshal_KeepCache [where a = ?a and k = False] by (simp add: set_attr_def store_attr_def)
  moreover have "inode_vals (fw_acl w) inode = Some (attr_bytes b @ acl_bytes b @ [0])"
    using assms(1) b Attr_Marshal_bytes [of b] by (simp add: stored_def attr_ok_def)
  ultimately have "doTouchAtime_tx m inode now (w, cached, False) = Some (None, w', ?a, True)"
    using Attr_Unmarshal_over [OF b, of cached] assms(5) by (simp add: doTouchAtime_tx_def Let_def over)
  then show ?thesis using w'(2) by (auto simp: over)
qed

theorem atime_update_revives_acl_witness:
  "\<exists>w' x c. doTouchAtime_tx (plain_settings\<lparr>conf_AtimeMode := ''relatime''\<rparr>) 2 (1000000, 0) (one_file, new_file_attr\<lparr>AccessACL := 3\<rparr>, False) = Some (None, w', x) \<and>
     stored w' 2 c \<and> AccessACL c = 3"
proof -
  have st: "stored one_file 2 new_file_attr" using new_file_bytes new_file_ok by (simp add: stored_def one_file_def)
  have "atimeNeedsUpdate (plain_settings\<lparr>conf_AtimeMode := ''relatime''\<rparr>) (new_file_attr\<lparr>AccessACL := 3, DefaultACL := 0, KeepCache := False\<rparr>) (1000000, 0)"
    by (simp add: atimeNeedsUpdate_def relatimeNeedUpdate_def nanos_def new_file_attr_def zero_Attr_def Let_def)
  from atime_update_revives_acl [OF st, of "new_file_attr\<lparr>AccessACL := 3\<rparr>" "plain_settings\<lparr>conf_AtimeMode := ''relatime''\<rparr>" "(1000000, 0)"] this
  show ?thesis by (simp add: new_file_attr_def zero_Attr_def acl_ids_ok_def) blast
qed

end
