(* ===== verification/Spec2Isabelle.thy ===== *)
theory Spec2Isabelle
  imports VB_Gateway VB_Milvus VB_Concurrency VB_Bridge JFS_Locks JFS_FileRun
begin

text \<open>
  Verification of the vector buckets of JuiceFS and of the parts of the JuiceFS metadata below them.

  \<^bold>\<open>The program.\<close> The gateway of JuiceFS serves, beside S3, an API for vectors: buckets hold indexes, an index
  holds vectors with metadata, and a query returns the nearest ones. An HTTP request reaches the router and the
  handlers of the S3 front end (src/juicedata-minio/cmd), which decode it and call the object layer of the gateway
  (src/juicefs-1.3.0-rc1/pkg/gateway/gateway.go). The object layer converts it and calls the runtime, which hands
  it to the bucket, object or query service (pkg/gateway/vectorbucket). The services keep their rows in SQLite,
  check quotas, resolve names, and let the load controller decide which collections are loaded in Milvus. A
  worker migrates collections to another index type in the background, a loop sweeps idle collections, and at
  start-up the pinned collections are loaded again. Milvus is reached through an adapter or through a bridge
  (src/milvus/bridge). Below the gateway, JuiceFS keeps the metadata of its files in a key-value store
  (pkg/meta): the slices of the chunks of a file, its locks, its attributes and access control lists. A client caches what it
  has read of the open files, checks quotas before it writes, and compacts chunks that have many slices.

  \<^bold>\<open>Theories and sources.\<close> Paths without a prefix are below src/juicefs-1.3.0-rc1/pkg; vb is gateway/vectorbucket.

  \<^item> \<open>Go_Prelude\<close>, \<open>Go_Float\<close>, \<open>Go_Effects\<close>: what the code uses of Go. 64-bit integers with their wrap-around,
    strings and conversions, binary64 as a rational rounded to 53 bits, errors with \<open>errors.Is\<close> on wrapped
    errors, and operations: functions from a state to an error or a value and the next state, with the rules
    \<open>keeps\<close>, \<open>triple\<close> and \<open>fails_with\<close> by which invariants and errors are proved through a whole handler.
  \<^item> \<open>VB_Config\<close> (vb/config/config.go), \<open>VB_Protocol\<close> (vb/protocol.go, vb/errors.go), \<open>VB_Store\<close> (vb/metadata), \<open>VB_Router\<close>
    (vb/router/namespace_router.go), \<open>VB_Quota\<close> (vb/quota/quota.go), \<open>VB_Controller\<close>
    (vb/controller/load_controller.go), \<open>VB_Adapter\<close> (vb/adapter), \<open>VB_Services\<close> (vb/bucket_service.go,
    object_service.go, query_service.go), \<open>VB_Migration\<close> (vb/migration/service.go), \<open>VB_Runtime\<close>
    (vb/bootstrap.go, runtime.go): one theory per package, one definition per method, each the whole method with
    its early returns. The state of a request is the record \<open>world\<close>: controller, Milvus, clock, database and
    identifiers. \<open>system_run\<close> is the relation of all runs: requests, sweeps and rounds of the worker.
  \<^item> \<open>VB_Milvus\<close>: the adapter of the integration build as the services use it, and what a migration needs of the
    Milvus client behind it: a scan may see an older content (\<open>sees\<close>), since it leaves the iterator at bounded
    staleness, and nothing is assumed of the counts unless \<open>stats_exact\<close> is.
  \<^item> \<open>VB_Concurrency\<close>: load_controller.go again, as steps of goroutines under the mutex \<open>mu\<close> and the lock of each
    collection. The calls of \<open>VB_Controller\<close> are the runs of one goroutine alone (\<open>uninterrupted_calls\<close>).
  \<^item> \<open>MN_VectorAPI\<close> (src/juicedata-minio/cmd/vector-api.go, vector-api-handlers.go, the routes of api-router.go,
    the responses of api-response.go) and \<open>VB_Gateway\<close> (gateway/gateway.go, the methods of the vector API):
    \<open>vector_server\<close> is the path of a request from the router to the response.
  \<^item> \<open>VB_Bridge\<close> (src/milvus/bridge/internal): the HTTP handler of the bridge and its service.
  \<^item> \<open>JFS_Buffer\<close> (utils/buffer.go), \<open>JFS_Slices\<close> (meta/slice.go), \<open>JFS_Txn\<close> (meta/tkv.go, \<open>txn\<close>), \<open>JFS_Ranges\<close> and
    \<open>JFS_Locks\<close> (meta/tkv_lock.go and the lock records of meta/utils.go), \<open>JFS_ACL\<close> (acl/acl.go, acl/cache.go),
    \<open>JFS_Attr\<close> (the attributes of meta/interface.go, the modes of meta/utils.go) and \<open>JFS_Facl\<close> (the ACLs and
    attributes of meta/base.go and meta/tkv.go).
  \<^item> \<open>JFS_Open\<close> (meta/openfile.go), \<open>JFS_Meta\<close> (\<open>GetAttr\<close> of meta/base.go, the checks and updates of meta/quota.go) and
    \<open>JFS_File\<close> (meta/tkv.go and meta/base.go: \<open>Read\<close>, \<open>Write\<close>, \<open>Truncate\<close>, \<open>Fallocate\<close>, \<open>CopyFileRange\<close>, \<open>NewSlice\<close>, \<open>Open\<close>,
    \<open>SetAttr\<close>, compaction, deletion of objects): each call is a transaction body, the transaction around it and what the client
    does before and after. The state is the record \<open>file_world\<close>: the attributes, the open files, the statistics, the slice ids, the values of the
    engine and the objects.
  \<^item> \<open>JFS_FileData\<close>, \<open>JFS_FileCopy\<close>, \<open>JFS_FileCompact\<close>, \<open>JFS_FileServe\<close>, \<open>JFS_FileCalls\<close>, \<open>JFS_FileRun\<close>: no code of their own, but what
    the calls of \<open>JFS_File\<close> do to the bytes of files. \<open>files\<close> is the abstract state, a length and a function from positions to bytes for each
    inode; \<open>af_write\<close>, \<open>af_truncate\<close>, \<open>af_fallocate\<close> and \<open>af_copy\<close> are the abstract calls. \<open>serves\<close> is what a call owes, and
    \<open>file_run\<close> is the relation of all runs of a client.

  \<^bold>\<open>What is shown.\<close>

  \<^item> The service. In every run the constraints of the schema and the bookkeeping of the controller hold and the
    configured limits are kept (\<open>run_keeps_invariants\<close>, \<open>run_within_limits\<close> in \<open>VB_Runtime\<close>); every error is
    exactly one of six sentinels with its own status; the rows after creating an index are described whichever statement fails, a put that
    succeeds has stored its vectors under the index it names, a query leaves the counts of queries as they were; an
    index whose deletion failed stays behind for ever (\<open>deleting_index_is_stuck\<close>).
  \<^item> The controller. A load that runs alone stays within the budget (up to the rounding of the sum, in whatever order it is
    taken) and evicts the least recently used collections and no more than needed. With calls interleaved in any way the
    bookkeeping still holds, every call returns, the number of collections exceeds the limit by less than the number of calls,
    and a pinned or busy collection is removed by no step but the last one of \<open>Release\<close> or of a sweep
    (\<open>pinned_and_busy_survive\<close>); that a sweep does remove busy collections is shown too (\<open>sweep_releases_busy_collection\<close>).
  \<^item> HTTP and Milvus. This theory: a request is one request of the runtime, every run of the server is a run of
    the service, and a migration keeps the data of an index whatever fails, if its scan sees the current records or
    Milvus counts the records exactly; without either the target holds what the scan saw. \<open>VB_Bridge\<close>: the bridge does what the
    adapter does.
  \<^item> JuiceFS. A chunk reads as its newest slices, before and after compaction. The ranges of a lock owner are what a
    table of bytes would be, locks exclude each other in every run of all clients, a call of \<open>Setlk\<close> among other clients takes
    effect at most once and returns, \<open>Getlk\<close> agrees with it. Runs of the calls on files refine abstract files, leave nothing behind the
    end of a file and never bring the counter of a referenced object below zero, and a read returns what was written, through the
    cache and across compactions; a copy among other clients sees one moment of its source. An ACL is checked as POSIX says, stored forms are
    read back, a rule that was set is read by clients whose caches agree with the store; after a conflict of the engine it is not. An update of the access time can store a
    removed ACL again.

  \<^bold>\<open>Interfaces.\<close> \<open>rounding\<close> (three laws of a rounding; interpreted by binary64), \<open>collection_store\<close> (insert, update,
  delete and get against a map; by the SQLite store), \<open>controller_invariant\<close> (what the primitive changes of the
  controller must keep; by its bookkeeping and by its settings), \<open>controller_frame\<close> (the controller leaves the rest of
  the world alone; by the database and the identifiers), \<open>row_invariant\<close> (what the statements of the
  services must keep; by the schema and by the limits), \<open>buffer_field\<close> (a value written to a buffer is read back; by the
  integers, the ACL entries and the lock records), \<open>rule_cache\<close> (a rule is found under its id and by its content;
  by the ACL cache) and \<open>chunk_cache\<close> (what is found was put there and not invalidated since; by the cache of open files). The lemmas on handlers and runs are proved once in these locales.

  \<^bold>\<open>Parameters.\<close> Code outside the repository, and what it answers, are arguments: the Milvus client (a record of its
  calls; \<open>client_laws\<close> states what a migration relies on, and a client in memory satisfies it), the codec of JSON
  text, the environment and the files, the clock, the identifiers of \<open>uuid\<close>, the failures of SQLite (a stream of
  outcomes), and for the metadata engine the fate of each try of a transaction (committed, conflict, failed) with
  what other clients do in between. The object storage is a parameter of the file calls: the callbacks that upload a compacted chunk and delete an
  object; \<open>store_laws\<close> states that an upload holds the bytes of the pieces and that both leave other objects alone, and
  a store in memory satisfies it. In \<open>file_run\<close> the client is alone: others may make the engine report conflicts and take slice ids. Go visits a map in any order: the order is an argument of the lock calls (\<open>ord\<close>) and of the load controller
  (\<open>visitRank\<close>, a function of the content of the map), and the theorems hold for each.

  \<^bold>\<open>Loops and bounds.\<close> Loops that may not end are partial functions whose value \<open>None\<close> means so: the scan of an
  iterator of Milvus (\<open>scan_loop\<close>), the loop of a blocking lock (\<open>lock_loop\<close>; that \<open>Setlk\<close> returns is proved), the walks up the
  directories (\<open>quota_walk\<close>, \<open>update_walk\<close>, which a cycle of parents keeps going), the loop of a copy (\<open>copy_loop\<close>; \<open>copy_loop_effect\<close> proves that it
  ends) and the repeated compaction of a chunk (\<open>base_compactChunk\<close>). Positions in files are below \<open>file_limit = 2 ^ 58\<close>, since the index of a chunk is a
  32-bit number; counters of objects are below \<open>2 ^ 62\<close> when a copy starts, and there is a batch of slice ids left.
  A transaction is tried at most 50 times, as in the code. Slices have to end within 32 bits; the ranges of locks have
  to end below the largest offset, since the code computes the end plus one; the value of an inode's locks has to be
  below a gigabyte and an ACL below four, since lengths of buffers are 32-bit numbers; the counter of ACL ids has to be
  below \<open>2 ^ 31\<close>. A panic of Go is \<open>None\<close> or an error of its own.

  \<^bold>\<open>Not modelled.\<close> Metrics, logging and the wiring of the commands have no effect on what is stated. The S3 methods of
  the gateway, the rest of the metadata (directories, sessions and the inodes they sustain, setting and flushing quotas, dumps), the
  engines on Redis and SQL, the chunk store and the object storage are not modelled or are input
  and output. The goroutines that a call starts to compact a chunk are calls of their own in a run; MinIO and Milvus are third-party code. The handlers of a request run alone here, except for the
  controller, whose calls are interleaved in \<open>VB_Concurrency\<close>; the interleaving of the statements that two handlers
  send to SQLite is not modelled. In particular the gap between the check of a quota and the insertion is not. A statement of SQLite that
  fails changes no row. A try of a transaction that was committed but is reported as failed is not modelled. Left out of
  \<open>file_run\<close> are copies of 0 bytes, a second write of the same slice id and forced compaction; an object is deleted within the call that
  drops its last reference. \<open>TrimSpace\<close> and \<open>ToLower\<close> are those of ASCII.
\<close>

section \<open>From an HTTP request to the service\<close>

text \<open>C6: A request of the vector API has at most one effect. Either its body is refused with 400 and
  nothing happens, or the runtime serves exactly one request, whose account, region and headers are
  those of the HTTP request whatever the body says, and the response is written from its answer.\<close>

theorem http_request_is_one_request:
  assumes "vector_server J globalRegion A cfg r w = Some (resp, w')"
  shows "(w' = w \<and> (\<exists>m. resp = writeVectorError J (VectorError (mk_vector_error ''ValidationException'' m 400)))) \<or>
    (\<exists>q. request_ctx q = \<lparr>AccountID = Header_Get (hr_Header r) ''X-Amz-Account-Id'',
            Region = (if globalRegion = [] then ''us-east-1'' else globalRegion),
            RequestID = Header_Get (hr_Header r) ''X-Amz-Request-Id'', Headers = hr_Header r\<rparr> \<and>
       (case serve A cfg q w of
          (Inl e, v) \<Rightarrow> w' = v \<and> resp = writeVectorError J (the (translateVectorError (Some e)))
        | (Inr a, v) \<Rightarrow> w' = v \<and> (\<exists>t. resp = writeVectorSuccess J t)))"
proof -
  have "toVectorRequestContext (vectorRequestContext globalRegion r) = \<lparr>AccountID = Header_Get (hr_Header r) ''X-Amz-Account-Id'',
      Region = (if globalRegion = [] then ''us-east-1'' else globalRegion),
      RequestID = Header_Get (hr_Header r) ''X-Amz-Request-Id'', Headers = hr_Header r\<rparr>"
    by (simp add: toVectorRequestContext_def vectorRequestContext_def vectorAPIDefaultRegion_def)
  then show ?thesis
    using server_outcome [OF assms] unfolding outcome_def answered_def fst_conv snd_conv by (simp only:)
qed

theorem http_request_is_one_request_witness:
  "snd (answer ''docs'') = empty_world () \<or> (\<exists>q. AccountID (request_ctx q) = ''acct'' \<and>
     snd (answer ''docs'') = snd (serve DisabledAdapter DefaultConfig q (empty_world ())))"
  using http_request_is_one_request [OF sample_answer [of "''docs''"]]
proof (elim disjE exE conjE)
  fix q assume "request_ctx q = \<lparr>AccountID = Header_Get (hr_Header (create_request ''docs'')) ''X-Amz-Account-Id'',
      Region = (if [] = [] then ''us-east-1'' else []),
      RequestID = Header_Get (hr_Header (create_request ''docs'')) ''X-Amz-Request-Id'',
      Headers = hr_Header (create_request ''docs'')\<rparr>"
    and "case serve DisabledAdapter DefaultConfig q (empty_world ()) of
      (Inl e, v) \<Rightarrow> snd (answer ''docs'') = v \<and>
        fst (answer ''docs'') = writeVectorError name_codec (the (translateVectorError (Some e)))
    | (Inr a, v) \<Rightarrow> snd (answer ''docs'') = v \<and> (\<exists>t. fst (answer ''docs'') = writeVectorSuccess name_codec t)"
  then show ?thesis
    by (intro disjI2 exI [of _ q]) (auto simp: create_request_def Header_Get_def split: prod.splits sum.splits)
qed simp

text \<open>C4: The HTTP server refines the service: every run of the server is a run of the service, so what
  holds in every run of the service holds behind the HTTP interface.\<close>

theorem http_run_refines_service:
  assumes "http_run J globalRegion A cfg w w'"
  shows "system_run A cfg w w'"
  using assms
proof induction
  case (http_request v r resp v')
  then show ?case using server_outcome [OF http_request.hyps(2)] answered_run by (auto simp: outcome_def)
qed (blast intro: system_run.intros)+

theorem http_run_refines_service_witness:
  "system_run DisabledAdapter DefaultConfig (empty_world ()) (snd (answer ''docs''))"
  by (rule http_run_refines_service [OF http_run.http_request [OF http_run.http_start sample_answer]])

section \<open>A migration on Milvus\<close>

text \<open>C1: Whatever fails on the way of a migration, the row of the collection names either the old physical
  collection, with the records it held, or the new one, which then holds what the scan saw over the records
  that were there before. If the scan sees the current records, or misses some of them and Milvus counts
  records exactly, the named collection holds exactly the records from before the migration: what the scan
  missed is caught by the comparison of the counts. A migration that succeeds has switched to the new
  collection and index type. The target may hold a part of the records already, as after a crash.\<close>

theorem migration_preserves_data:
  fixes w :: "('s MilvusAdapter, 'z) world_scheme"
  assumes "client_laws C sees dat" and "coll_map (meta_db w) (c_ID c) = Some c"
    and "c_SourcePhysicalName c = c_PhysicalName c" and "c_TargetPhysicalName c \<noteq> c_PhysicalName c"
    and "partial_copy dat (ma_service (milvus w)) (c_PhysicalName c) (c_TargetPhysicalName c)"
  shows "case migrateCollection (milvus_adapter C) cfg c w of (r, w') \<Rightarrow>
    \<exists>c'. coll_map (meta_db w') (c_ID c) = Some c' \<and>
      (c_PhysicalName c' = c_PhysicalName c \<and>
         dat (ma_service (milvus w')) (c_PhysicalName c) = dat (ma_service (milvus w)) (c_PhysicalName c) \<or>
       c_PhysicalName c' = c_TargetPhysicalName c \<and>
         (\<exists>d e. dat (ma_service (milvus w)) (c_PhysicalName c) = Some d \<and> sees d e \<and>
           dat (ma_service (milvus w')) (c_TargetPhysicalName c) =
             Some (held_before dat (ma_service (milvus w)) (c_TargetPhysicalName c) ++ e))) \<and>
      (fresh_reads sees \<or> lagging_reads sees \<and> stats_exact C dat \<longrightarrow>
         dat (ma_service (milvus w')) (c_PhysicalName c') = dat (ma_service (milvus w)) (c_PhysicalName c)) \<and>
      (r = Inr () \<longrightarrow> c_PhysicalName c' = c_TargetPhysicalName c \<and> c_IndexType c' = c_TargetIndexType c \<and>
         c_MigrateState c' = [] \<and> c_IndexBuilt c')"
proof -
  have part: "partial_copy (at_service dat) (milvus w) (c_PhysicalName c) (c_TargetPhysicalName c)"
    using assms(5) by (simp add: partial_copy_def)
  have at_held: "held_before (at_service dat) (milvus w) = held_before dat (ma_service (milvus w))" by (simp add: held_before_def fun_eq_iff)
  have counts: "stats_exact C dat \<Longrightarrow> counts_exact (milvus_adapter C) (at_service dat)"
    by (rule milvus_adapter_counts [OF assms(1)])
  obtain r w' where run: "migrateCollection (milvus_adapter C) cfg c w = (r, w')" by fastforce
  from migration_keeps_data [OF milvus_adapter_laws [OF assms(1)] assms(2-4) part, of cfg]
  show ?thesis unfolding run prod.case at_held using counts by (elim ex_forward) blast
qed

theorem migration_preserves_data_witness:
  "\<forall>lag. case migrateCollection (milvus_adapter (mem_client lag)) DefaultConfig migrating_row migrating_world of
     (r, w') \<Rightarrow> \<exists>c'. coll_map (meta_db w') ''c1'' = Some c' \<and>
      mem_data (ma_service (milvus w')) (c_PhysicalName c') = mem_data sample_mem ''vb_b1_c1''"
proof
  fix lag :: nat
  have "coll_map (meta_db migrating_world) (c_ID migrating_row) = Some migrating_row"
    "c_SourcePhysicalName migrating_row = c_PhysicalName migrating_row"
    "c_TargetPhysicalName migrating_row \<noteq> c_PhysicalName migrating_row"
    "partial_copy mem_data (ma_service (milvus migrating_world)) (c_PhysicalName migrating_row) (c_TargetPhysicalName migrating_row)"
    and start: "c_ID migrating_row = ''c1''" "c_PhysicalName migrating_row = ''vb_b1_c1''"
      "ma_service (milvus migrating_world) = sample_mem"
    by (simp_all add: migrating_world_def coll_map_def migrating_row_def sample_coll_def partial_copy_def mem_data_def
        sample_mem_def NewMilvusAdapter_def)
  from migration_preserves_data [OF mem_client_laws this(1-4), of lag DefaultConfig]
  show "case migrateCollection (milvus_adapter (mem_client lag)) DefaultConfig migrating_row migrating_world of
     (r, w') \<Rightarrow> \<exists>c'. coll_map (meta_db w') ''c1'' = Some c' \<and>
      mem_data (ma_service (milvus w')) (c_PhysicalName c') = mem_data sample_mem ''vb_b1_c1''"
    unfolding start case_prod_beta
    by (elim ex_forward) (simp add: mem_client_stats fresh_reads_def lagging_reads_def)
qed

end
